(* ===== verification/Minisql_Prelude.thy ===== *)
theory Minisql_Prelude
  imports Main "HOL-Library.Word"
begin

text \<open>
  Shared vocabulary of the MiniSQL development: the machine integers of the C++ code, the byte
  memory that page buffers are made of, the little-endian encoding that
  \<^verbatim>\<open>MACH_WRITE_TO\<close>/\<^verbatim>\<open>MACH_READ_FROM\<close> (src/MiniSQL/src/include/common/macros.h) perform on x86, the
  error values that stand for a failed \<^verbatim>\<open>ASSERT\<close>, a null dereference or a thrown exception, the
  constants of config.h, and the generic lemmas (collections \<open>mem_simps\<close>, \<open>res_simps\<close>) that the
  component theories rely on.
\<close>

unbundle bit_operations_syntax

named_theorems mem_simps "reads after writes in byte memory"
named_theorems res_simps "rewriting of the result monad"

type_synonym byte = "8 word"
type_synonym u32 = "32 word"
type_synonym mem = "nat \<Rightarrow> byte"
type_synonym frame_id = nat
type_synonym page_id = int

section \<open>Failures\<close>

text \<open>
  How a call can fail to return: \<open>AssertFailed\<close> (the \<^verbatim>\<open>ASSERT\<close> macro or \<^verbatim>\<open>assert\<close>, enabled in
  the default build), \<open>NullDeref\<close> (a member access through a null pointer), \<open>LogicError\<close>
  (\<^verbatim>\<open>std::logic_error\<close> and other thrown values), \<open>OutOfRange\<close> (\<^verbatim>\<open>std::out_of_range\<close>),
  \<open>InvalidArgument\<close> (\<^verbatim>\<open>std::invalid_argument\<close>), \<open>Undefined\<close> (an access the C++ standard leaves
  undefined, such as \<^verbatim>\<open>operator[]\<close> of a vector out of its range).
\<close>

datatype err = AssertFailed | NullDeref | LogicError | OutOfRange | InvalidArgument | Undefined

text \<open>The status codes of dberr.h.\<close>

datatype dberr = DB_SUCCESS | DB_FAILED | DB_ALREADY_EXIST | DB_NOT_EXIST | DB_TABLE_ALREADY_EXIST
  | DB_TABLE_NOT_EXIST | DB_INDEX_ALREADY_EXIST | DB_INDEX_NOT_FOUND | DB_COLUMN_NAME_NOT_EXIST
  | DB_KEY_NOT_FOUND | DB_QUIT

type_synonym 'a res = "err + 'a"

fun res_bind :: "'a res \<Rightarrow> ('a \<Rightarrow> 'b res) \<Rightarrow> 'b res" where
  "res_bind (Inl e) f = Inl e"
| "res_bind (Inr x) f = f x"

definition ASSERT :: "bool \<Rightarrow> unit res" where
  "ASSERT b = (if b then Inr () else Inl AssertFailed)"

fun res_ok :: "'a res \<Rightarrow> bool" where
  "res_ok (Inl e) = False"
| "res_ok (Inr x) = True"

lemma res_bind_Inr_iff [res_simps]:
  "res_bind m f = Inr y \<longleftrightarrow> (\<exists>x. m = Inr x \<and> f x = Inr y)"
  by (cases m) auto

lemma res_bind_Inl_iff [res_simps]:
  "res_bind m f = Inl e \<longleftrightarrow> m = Inl e \<or> (\<exists>x. m = Inr x \<and> f x = Inl e)"
  by (cases m) auto

lemma res_bindE:
  assumes "res_bind m f = Inr y"
  obtains x where "m = Inr x" and "f x = Inr y"
  using assms by (cases m) auto

lemma res_bind_assoc: "res_bind (res_bind m f) g = res_bind m (\<lambda>x. res_bind (f x) g)"
  by (cases m) auto

lemma ASSERT_Inr [res_simps]: "ASSERT b = Inr u \<longleftrightarrow> b"
  by (simp add: ASSERT_def)

lemma ASSERT_True [simp]: "ASSERT True = Inr ()"
  by (simp add: ASSERT_def)

lemma ASSERT_False [simp]: "ASSERT False = Inl AssertFailed"
  by (simp add: ASSERT_def)

lemma res_ok_iff: "res_ok m \<longleftrightarrow> (\<exists>x. m = Inr x)"
  by (cases m) auto

text \<open>Computations that may not return, \<open>None\<close>, or fail.\<close>

definition ro_bind :: "'a res option \<Rightarrow> ('a \<Rightarrow> 'b res option) \<Rightarrow> 'b res option" where
  "ro_bind m f = Option.bind m (\<lambda>x. case x of Inl e \<Rightarrow> Some (Inl e) | Inr y \<Rightarrow> f y)"

lemma ro_bind_simps [simp]: "ro_bind None f = None" "ro_bind (Some (Inl e)) f = Some (Inl e)" "ro_bind (Some (Inr x)) f = f x"
  by (simp_all add: ro_bind_def)

lemma ro_bind_assoc: "ro_bind (ro_bind m f) g = ro_bind m (\<lambda>x. ro_bind (f x) g)"
proof (cases m)
  case (Some x)
  then show ?thesis by (cases x) simp_all
qed simp

lemma ro_bind_mono [partial_function_mono]:
  assumes "mono_option B" "\<And>y. mono_option (\<lambda>f. C y f)"
  shows "mono_option (\<lambda>f. ro_bind (B f) (\<lambda>y. C y f))"
proof -
  have "mono_option (\<lambda>f. case y of Inl e \<Rightarrow> Some (Inl e) | Inr x \<Rightarrow> C x f)" for y
    using assms(2) by (cases y) (simp_all add: option.const_mono)
  then show ?thesis unfolding ro_bind_def using assms(1) by (intro bind_mono)
qed

section \<open>Constants of config.h\<close>

definition INVALID_PAGE_ID :: page_id where
  "INVALID_PAGE_ID = -1"

definition META_PAGE_ID :: page_id where
  "META_PAGE_ID = 0"

definition CATALOG_META_PAGE_ID :: page_id where
  "CATALOG_META_PAGE_ID = 0"

definition INDEX_ROOTS_PAGE_ID :: page_id where
  "INDEX_ROOTS_PAGE_ID = 1"

definition PAGE_SIZE :: nat where
  "PAGE_SIZE = 4096"

definition DEFAULT_BUFFER_POOL_SIZE :: nat where
  "DEFAULT_BUFFER_POOL_SIZE = 20480"

definition FIELD_NULL_LEN :: u32 where
  "FIELD_NULL_LEN = 4294967295"

definition VARCHAR_MAX_LEN :: nat where
  "VARCHAR_MAX_LEN = PAGE_SIZE div 2"

text \<open>Conversion of a mathematical integer to the value an \<^verbatim>\<open>int32_t\<close> holds after truncation.\<close>

definition to_int32 :: "int \<Rightarrow> int" where
  "to_int32 i = (i + 2 ^ 31) mod 2 ^ 32 - 2 ^ 31"

lemma to_int32_id [simp]: "- (2 ^ 31) \<le> i \<Longrightarrow> i < 2 ^ 31 \<Longrightarrow> to_int32 i = i"
  by (simp add: to_int32_def)

lemma to_int32_range: "- (2 ^ 31) \<le> to_int32 i \<and> to_int32 i < 2 ^ 31"
proof -
  have "0 \<le> (i + 2 ^ 31) mod 2 ^ 32" and "(i + 2 ^ 31) mod 2 ^ 32 < (2 ^ 32 :: int)"
    by (simp_all add: pos_mod_bound)
  then show ?thesis by (simp add: to_int32_def)
qed

text \<open>Sign-extending an \<^verbatim>\<open>int32_t\<close> into a 64-bit unsigned operand, as C++ does in mixed arithmetic.\<close>

definition to_size_t :: "int \<Rightarrow> int" where
  "to_size_t i = i mod 2 ^ 64"

lemma to_size_t_id [simp]: "0 \<le> i \<Longrightarrow> i < 2 ^ 64 \<Longrightarrow> to_size_t i = i"
  by (simp add: to_size_t_def)

lemma unat_u32_of_nat [simp]: "n < 2 ^ 32 \<Longrightarrow> unat (word_of_nat n :: u32) = n"
  by (simp add: unat_of_nat)

lemma unat_u32_less: "unat (w :: u32) < 2 ^ 32"
proof -
  have "unat w < 2 ^ LENGTH(32)" by (rule unsigned_less)
  then show ?thesis by simp
qed

lemma unat_u32_plus: "unat (a :: u32) + unat b < 2 ^ 32 \<Longrightarrow> unat (a + b) = unat a + unat b"
  by (simp add: unat_word_ariths)

lemma unat_u32_minus: "unat (b :: u32) \<le> unat a \<Longrightarrow> unat (a - b) = unat a - unat b"
  by (simp add: unat_sub word_le_nat_alt)

section \<open>Little-endian 32-bit values\<close>

definition enc32 :: "u32 \<Rightarrow> byte list" where
  "enc32 w = [ucast w, ucast (drop_bit 8 w), ucast (drop_bit 16 w), ucast (drop_bit 24 w)]"

fun dec32 :: "byte list \<Rightarrow> u32" where
  "dec32 [a, b, c, d] = ucast a OR push_bit 8 (ucast b) OR push_bit 16 (ucast c) OR push_bit 24 (ucast d)"
| "dec32 _ = 0"

lemma length_enc32 [simp]: "length (enc32 w) = 4"
  by (simp add: enc32_def)

lemma dec32_enc32 [simp]: "dec32 (enc32 w) = w"
proof -
  have "bit (dec32 (enc32 w)) n = bit w n" if "n < 32" for n
  proof -
    consider "n < 8" | "8 \<le> n" "n < 16" | "16 \<le> n" "n < 24" | "24 \<le> n"
      by linarith
    then show ?thesis using that
      by cases (auto simp: enc32_def bit_simps)
  qed
  then show ?thesis by (intro bit_word_eqI) simp
qed

lemma enc32_dec32:
  assumes "length bs = 4"
  shows "enc32 (dec32 bs) = bs"
proof -
  from assms obtain a b c d where bs: "bs = [a, b, c, d]"
    by (auto simp: numeral_eq_Suc length_Suc_conv)
  have hi: "\<not> bit (x :: byte) n" if "8 \<le> n" for x n
    using that by (simp add: bit_word.rep_eq)
  show ?thesis unfolding bs enc32_def
    by (auto intro!: bit_word_eqI simp: bit_simps hi)
qed

section \<open>Byte memory\<close>

text \<open>
  A buffer (a \<^verbatim>\<open>char[PAGE_SIZE]\<close>, or a bigger area a pointer walks over) is a function from offsets
  to bytes. \<open>peek\<close> is a \<^verbatim>\<open>memcpy\<close> out of it, \<open>poke\<close> a \<^verbatim>\<open>memcpy\<close> into it, \<open>memmove\<close> copies a
  range within it (source and target may overlap) and \<open>memset0\<close> zeroes a prefix.
\<close>

definition peek :: "mem \<Rightarrow> nat \<Rightarrow> nat \<Rightarrow> byte list" where
  "peek m a n = map (\<lambda>i. m (a + i)) [0..<n]"

definition poke :: "mem \<Rightarrow> nat \<Rightarrow> byte list \<Rightarrow> mem" where
  "poke m a bs = (\<lambda>i. if a \<le> i \<and> i < a + length bs then bs ! (i - a) else m i)"

definition memmove :: "mem \<Rightarrow> nat \<Rightarrow> nat \<Rightarrow> nat \<Rightarrow> mem" where
  "memmove m dst src n = (\<lambda>i. if dst \<le> i \<and> i < dst + n then m (src + (i - dst)) else m i)"

definition memset0 :: "mem \<Rightarrow> nat \<Rightarrow> mem" where
  "memset0 m n = (\<lambda>i. if i < n then 0 else m i)"

definition zero_mem :: mem where
  "zero_mem = (\<lambda>_. 0)"

definition rd32 :: "mem \<Rightarrow> nat \<Rightarrow> u32" where
  "rd32 m a = dec32 (peek m a 4)"

definition wr32 :: "mem \<Rightarrow> nat \<Rightarrow> u32 \<Rightarrow> mem" where
  "wr32 m a w = poke m a (enc32 w)"

lemma length_peek [simp]: "length (peek m a n) = n"
  by (simp add: peek_def)

lemma nth_peek [simp]: "i < n \<Longrightarrow> peek m a n ! i = m (a + i)"
  by (simp add: peek_def)

lemma peek_0 [simp]: "peek m a 0 = []"
  by (simp add: peek_def)

lemma peek_cong: "(\<And>i. i < n \<Longrightarrow> m (a + i) = m' (a + i)) \<Longrightarrow> peek m a n = peek m' a n"
  by (simp add: peek_def)

lemma peek_split: "peek m a (k + n) = peek m a k @ peek m (a + k) n"
  by (rule nth_equalityI) (auto simp: nth_append)

lemma peek_poke_same [mem_simps]: "n = length bs \<Longrightarrow> peek (poke m a bs) a n = bs"
  by (rule nth_equalityI) (auto simp: poke_def)

lemma peek_poke_disjoint [mem_simps]:
  "b + n \<le> a \<or> a + length bs \<le> b \<Longrightarrow> peek (poke m a bs) b n = peek m b n"
  by (rule peek_cong) (auto simp: poke_def)

lemma peek_poke_inside:
  "a \<le> b \<Longrightarrow> b + n \<le> a + length bs \<Longrightarrow> peek (poke m a bs) b n = take n (drop (b - a) bs)"
  by (rule nth_equalityI) (auto simp: poke_def)

lemma poke_outside [mem_simps]: "i < a \<or> a + length bs \<le> i \<Longrightarrow> poke m a bs i = m i"
  by (auto simp: poke_def)

lemma poke_append: "poke m a (xs @ ys) = poke (poke m a xs) (a + length xs) ys"
  by (rule ext) (auto simp: poke_def nth_append)

lemma poke_Nil [simp]: "poke m a [] = m"
  by (rule ext) (auto simp: poke_def)

lemma rd32_wr32_same [mem_simps]: "rd32 (wr32 m a w) a = w"
  by (simp add: rd32_def wr32_def peek_poke_same)

lemma rd32_wr32_disjoint [mem_simps]:
  "b + 4 \<le> a \<or> a + 4 \<le> b \<Longrightarrow> rd32 (wr32 m a w) b = rd32 m b"
  by (simp add: rd32_def wr32_def peek_poke_disjoint)

lemma rd32_poke_disjoint [mem_simps]:
  "b + 4 \<le> a \<or> a + length bs \<le> b \<Longrightarrow> rd32 (poke m a bs) b = rd32 m b"
  by (simp add: rd32_def peek_poke_disjoint)

lemma peek_wr32_disjoint [mem_simps]:
  "b + n \<le> a \<or> a + 4 \<le> b \<Longrightarrow> peek (wr32 m a w) b n = peek m b n"
  by (simp add: wr32_def peek_poke_disjoint)

lemma wr32_outside [mem_simps]: "i < a \<or> a + 4 \<le> i \<Longrightarrow> wr32 m a w i = m i"
  by (auto simp: wr32_def poke_def)

lemma rd32_cong: "(\<And>i. i < 4 \<Longrightarrow> m (a + i) = m' (a + i)) \<Longrightarrow> rd32 m a = rd32 m' a"
  unfolding rd32_def by (subst peek_cong) auto

lemma rd32_peek_prefix: "peek m a (length bs) = bs \<Longrightarrow> i + 4 \<le> length bs \<Longrightarrow>
    rd32 m (a + i) = dec32 (take 4 (drop i bs))"
proof -
  assume eq: "peek m a (length bs) = bs" and le: "i + 4 \<le> length bs"
  have "peek m (a + i) 4 = take 4 (drop i bs)"
  proof (rule nth_equalityI)
    show "length (peek m (a + i) 4) = length (take 4 (drop i bs))" using le by simp
    fix j assume "j < length (peek m (a + i) 4)"
    then have "j < 4" by simp
    with le have "i + j < length bs" by simp
    then have "bs ! (i + j) = m (a + (i + j))" using nth_peek eq by metis
    with \<open>j < 4\<close> le show "peek m (a + i) 4 ! j = take 4 (drop i bs) ! j"
      by (simp add: add.assoc)
  qed
  then show ?thesis by (simp add: rd32_def)
qed

lemma rd32_peek: "peek m a (length bs) = bs \<Longrightarrow> 4 \<le> length bs \<Longrightarrow> rd32 m a = dec32 (take 4 bs)"
  using rd32_peek_prefix [of m a bs 0] by simp

lemma peek_tail:
  assumes "peek m a (length bs) = bs" and "k \<le> length bs"
  shows "peek m (a + k) (length bs - k) = drop k bs"
proof -
  have "peek m a k @ peek m (a + k) (length bs - k) = bs"
    using peek_split [of m a k "length bs - k"] assms by simp
  then have "drop k (peek m a k @ peek m (a + k) (length bs - k)) = drop k bs" by (simp only:)
  then show ?thesis by simp
qed

text \<open>What memory holds at consecutive addresses, piece by piece.\<close>

definition holds :: "mem \<Rightarrow> nat \<Rightarrow> byte list \<Rightarrow> bool" where
  "holds m a bs \<longleftrightarrow> peek m a (length bs) = bs"

lemma holds_append [mem_simps]: "holds m a (xs @ ys) \<longleftrightarrow> holds m a xs \<and> holds m (a + length xs) ys"
  using peek_split [of m a "length xs" "length ys"] by (auto simp: holds_def)

lemma holds_Nil [simp]: "holds m a []"
  by (simp add: holds_def)

lemma holds_poke [simp]: "holds (poke m a bs) a bs"
  by (simp add: holds_def peek_poke_same)

lemma holds_poke_disjoint [mem_simps]:
  "b + length xs \<le> a \<or> a + length bs \<le> b \<Longrightarrow> holds (poke m a bs) b xs = holds m b xs"
  by (simp add: holds_def peek_poke_disjoint)

lemma holds_rd32 [mem_simps]: "holds m a (enc32 w) \<Longrightarrow> rd32 m a = w"
  using rd32_peek [of m a "enc32 w"] by (simp add: holds_def)

lemma holds_peek: "holds m a bs \<Longrightarrow> n = length bs \<Longrightarrow> peek m a n = bs"
  by (simp add: holds_def)

lemma holds_cong: "(\<And>i. i < length bs \<Longrightarrow> m (a + i) = m' (a + i)) \<Longrightarrow> holds m a bs = holds m' a bs"
  using peek_cong [of "length bs" m a m'] by (simp add: holds_def)

lemma sint_u32_small: "unat (w :: u32) < 2 ^ 31 \<Longrightarrow> sint w = int (unat w)"
proof -
  assume lt: "unat w < 2 ^ 31"
  have "sint w = signed_take_bit 31 (uint w)" using sint_uint [of w] by simp
  moreover have S: "signed_take_bit 31 (int n) = int n" if "n < 2 ^ 31" for n
    by (rule signed_take_bit_int_eq_self) (use that in simp_all)
  moreover have "uint w = int (unat w)" by simp
  ultimately show ?thesis using S [OF lt] by (simp only:)
qed

lemma sint_word_of_int_id: "- (2 ^ 31) \<le> i \<Longrightarrow> i < 2 ^ 31 \<Longrightarrow> sint (word_of_int i :: u32) = i"
  by (simp add: sint_sbintrunc' signed_take_bit_int_eq_self)

lemma memset0_inside [simp]: "i < n \<Longrightarrow> memset0 m n i = 0"
  by (simp add: memset0_def)

lemma memset0_outside [simp]: "n \<le> i \<Longrightarrow> memset0 m n i = m i"
  by (simp add: memset0_def)

lemma rd32_zero [simp]: "rd32 zero_mem a = 0"
  by (simp add: rd32_def peek_def zero_mem_def numeral_eq_Suc)

lemma holds_Cons [mem_simps]: "holds m a (b # bs) \<longleftrightarrow> m a = b \<and> holds m (a + 1) bs"
  using holds_append [of m a "[b]" bs] by (simp add: holds_def peek_def)

section \<open>Names as bytes\<close>

definition byte_of_char :: "char \<Rightarrow> byte" where
  "byte_of_char c = word_of_nat (of_char c)"

definition char_of_byte :: "byte \<Rightarrow> char" where
  "char_of_byte b = char_of (unat b)"

lemma char_of_byte_of_char [simp]: "char_of_byte (byte_of_char c) = c"
proof -
  have "of_char c < (256 :: nat)" by (rule nat_of_char_less_256)
  then have "unat (word_of_nat (of_char c) :: byte) = of_char c" by (simp add: unat_of_nat)
  then show ?thesis by (simp add: char_of_byte_def byte_of_char_def)
qed

definition name_bytes :: "string \<Rightarrow> byte list" where
  "name_bytes s = map byte_of_char s"

definition read_name :: "mem \<Rightarrow> nat \<Rightarrow> nat \<Rightarrow> string" where
  "read_name m a n = map char_of_byte (peek m a n)"

lemma length_name_bytes [simp]: "length (name_bytes s) = length s"
  by (simp add: name_bytes_def)

lemma read_name_holds: "holds m a (name_bytes s) \<Longrightarrow> read_name m a (length s) = s"
  by (simp add: read_name_def holds_peek name_bytes_def o_def)

section \<open>Bits of a byte\<close>

lemma set_bit_or:
  fixes w :: byte
  assumes "n < 8"
  shows "bit (w OR 2 ^ n) j \<longleftrightarrow> bit w j \<or> (j = n)"
  using assms by (auto simp: bit_simps)

lemma div_mod_8_eq: "(k div 8 = j div 8 \<and> k mod 8 = j mod 8) \<longleftrightarrow> k = (j :: nat)"
  by (metis div_mult_mod_eq)

section \<open>Evaluation\<close>

lemmas mem_eval = peek_def poke_def rd32_def wr32_def enc32_def zero_mem_def memset0_def
  memmove_def upt_conv_Cons

end
