(* ===== verification/Root_Directory.thy ===== *)
theory Root_Directory
  imports Minisql_Prelude
begin

text \<open>
  The contract of the two pages that map keys to root page ids: the index roots page
  (src/MiniSQL/src/page/index_roots_page.cpp) and the header page (page/header_page.cpp). A page that
  keeps an array of records with distinct keys (\<open>record_array\<close>) behaves like a partial map
  (\<open>root_directory\<close>); a client's sequence of operations then returns what the map returns, as long as
  the page has room.
\<close>

section \<open>Operations and the abstract map\<close>

datatype ('k, 'v) dir_op = Ins 'k 'v | Del 'k | Upd 'k 'v

fun map_step :: "('k, 'v) dir_op \<Rightarrow> ('k \<rightharpoonup> 'v) \<Rightarrow> bool \<times> ('k \<rightharpoonup> 'v)" where
  "map_step (Ins k v) m = (if m k = None then (True, m(k \<mapsto> v)) else (False, m))"
| "map_step (Del k) m = (m k \<noteq> None, m(k := None))"
| "map_step (Upd k v) m = (if m k = None then (False, m) else (True, m(k \<mapsto> v)))"

primrec map_run :: "('k, 'v) dir_op list \<Rightarrow> ('k \<rightharpoonup> 'v) \<Rightarrow> bool list \<times> ('k \<rightharpoonup> 'v)" where
  "map_run [] m = ([], m)"
| "map_run (x # xs) m = (let (z, m1) = map_step x m; (zs, m2) = map_run xs m1 in (z # zs, m2))"

type_synonym ('k, 'v, 'd) dir_impl =
  "('k \<Rightarrow> 'v \<Rightarrow> 'd \<Rightarrow> (bool \<times> 'd) res) \<times> ('k \<Rightarrow> 'd \<Rightarrow> (bool \<times> 'd) res) \<times> ('k \<Rightarrow> 'v \<Rightarrow> 'd \<Rightarrow> (bool \<times> 'd) res)"

fun impl_step :: "('k, 'v, 'd) dir_impl \<Rightarrow> ('k, 'v) dir_op \<Rightarrow> 'd \<Rightarrow> (bool \<times> 'd) res" where
  "impl_step (i, e, u) (Ins k v) d = i k v d"
| "impl_step (i, e, u) (Del k) d = e k d"
| "impl_step (i, e, u) (Upd k v) d = u k v d"

primrec impl_run :: "('k, 'v, 'd) dir_impl \<Rightarrow> ('k, 'v) dir_op list \<Rightarrow> 'd \<Rightarrow> (bool list \<times> 'd) res" where
  "impl_run f [] d = Inr ([], d)"
| "impl_run f (x # xs) d =
     res_bind (impl_step f x d) (\<lambda>(z, d1). res_bind (impl_run f xs d1) (\<lambda>(zs, d2). Inr (z # zs, d2)))"

text \<open>
  The sequences a page can take: keys and values it accepts, room for every insertion, and unless \<open>E\<close> holds no
  deletion from an empty page.
\<close>

fun step_ok :: "('k \<Rightarrow> bool) \<Rightarrow> ('v \<Rightarrow> bool) \<Rightarrow> nat \<Rightarrow> bool \<Rightarrow> ('k, 'v) dir_op \<Rightarrow> ('k \<rightharpoonup> 'v) \<Rightarrow> bool" where
  "step_ok K V n E (Ins k v) m \<longleftrightarrow> K k \<and> V v \<and> (m k = None \<longrightarrow> card (dom m) < n)"
| "step_ok K V n E (Del k) m \<longleftrightarrow> K k \<and> (E \<or> dom m \<noteq> {})"
| "step_ok K V n E (Upd k v) m \<longleftrightarrow> K k \<and> V v"

primrec run_ok :: "('k \<Rightarrow> bool) \<Rightarrow> ('v \<Rightarrow> bool) \<Rightarrow> nat \<Rightarrow> bool \<Rightarrow> ('k, 'v) dir_op list \<Rightarrow> ('k \<rightharpoonup> 'v) \<Rightarrow> bool" where
  "run_ok K V n E [] m \<longleftrightarrow> True"
| "run_ok K V n E (x # xs) m \<longleftrightarrow> step_ok K V n E x m \<and> run_ok K V n E xs (snd (map_step x m))"

section \<open>The directory interface\<close>

locale root_directory =
  fixes inv :: "'d \<Rightarrow> bool"
    and roots :: "'d \<Rightarrow> ('k \<rightharpoonup> 'v)"
    and cap :: nat
    and empty_del :: bool
    and key_ok :: "'k \<Rightarrow> bool"
    and val_ok :: "'v \<Rightarrow> bool"
    and ins :: "'k \<Rightarrow> 'v \<Rightarrow> 'd \<Rightarrow> (bool \<times> 'd) res"
    and del :: "'k \<Rightarrow> 'd \<Rightarrow> (bool \<times> 'd) res"
    and upd :: "'k \<Rightarrow> 'v \<Rightarrow> 'd \<Rightarrow> (bool \<times> 'd) res"
    and get :: "'k \<Rightarrow> 'd \<Rightarrow> 'v option res"
  assumes step: "inv d \<Longrightarrow> step_ok key_ok val_ok cap empty_del x (roots d) \<Longrightarrow>
      \<exists>d'. impl_step (ins, del, upd) x d = Inr (fst (map_step x (roots d)), d') \<and> inv d' \<and> roots d' = snd (map_step x (roots d))"
    and get: "inv d \<Longrightarrow> key_ok k \<Longrightarrow> get k d = Inr (roots d k)"
begin

lemma run_refines_map:
  assumes "inv d" and "run_ok key_ok val_ok cap empty_del xs (roots d)"
  shows "\<exists>d'. impl_run (ins, del, upd) xs d = Inr (fst (map_run xs (roots d)), d') \<and> inv d' \<and>
    roots d' = snd (map_run xs (roots d)) \<and> (\<forall>k. key_ok k \<longrightarrow> get k d' = Inr (snd (map_run xs (roots d)) k))"
  using assms
proof (induction xs arbitrary: d)
  case Nil
  then show ?case using get by auto
next
  case (Cons x xs)
  then obtain d1 where d1: "impl_step (ins, del, upd) x d = Inr (fst (map_step x (roots d)), d1)" "inv d1"
    "roots d1 = snd (map_step x (roots d))" using step [of d x] by (metis run_ok.simps(2))
  from Cons.IH [OF d1(2)] Cons.prems(2) d1(1,3) show ?case by (auto simp: Let_def split: prod.splits)
qed

lemma insert_then_delete:
  assumes "inv d" and "key_ok k" "val_ok v" and "roots d k = None" and "card (dom (roots d)) < cap"
  shows "\<exists>d1 d2. ins k v d = Inr (True, d1) \<and> get k d1 = Inr (Some v) \<and> del k d1 = Inr (True, d2) \<and> roots d2 = roots d"
proof -
  obtain d1 where d1: "ins k v d = Inr (True, d1)" "inv d1" "roots d1 = (roots d)(k \<mapsto> v)"
    using step [OF assms(1), of "Ins k v"] assms by auto
  obtain d2 where "del k d1 = Inr (True, d2)" "roots d2 = (roots d1)(k := None)"
    using step [OF d1(2), of "Del k"] assms(2) d1(3) by auto
  then show ?thesis using d1 get [OF d1(2) assms(2)] assms(4) by (simp add: fun_upd_idem [of "roots d"])
qed

end

section \<open>Arrays of records\<close>

text \<open>The search loops of the pages: the first index that satisfies a condition, or -1.\<close>

fun find_first :: "(nat \<Rightarrow> bool) \<Rightarrow> nat list \<Rightarrow> int" where
  "find_first P [] = - 1"
| "find_first P (i # is) = (if P i then int i else find_first P is)"

lemma find_first_none: "find_first P is = - 1 \<longleftrightarrow> (\<forall>i \<in> set is. \<not> P i)"
  by (induction "is") auto

lemma find_first_cases: "find_first P is = - 1 \<and> (\<forall>i \<in> set is. \<not> P i) \<or> (\<exists>i \<in> set is. find_first P is = int i \<and> P i)"
  by (induction "is") auto

lemma find_first_append: "\<forall>i \<in> set is. \<not> P i \<Longrightarrow> find_first P (is @ js) = find_first P js"
  by (induction "is") auto

lemma find_first_least:
  assumes "i < n" "P i" "\<forall>j < i. \<not> P j"
  shows "find_first P [0..<n] = int i"
proof -
  have "[0..<n] = [0..<i] @ i # [Suc i..<n]" using assms(1) upt_add_eq_append [of 0 i "n - i"] upt_conv_Cons [of i n] by simp
  then show ?thesis using find_first_append [of "[0..<i]" P] assms(2,3) by simp
qed

lemma find_first_cong: "\<forall>i \<in> set is. P i = Q i \<Longrightarrow> find_first P is = find_first Q is"
  by (induction "is") auto

lemma find_first_unique:
  "i \<in> set is \<Longrightarrow> P i \<Longrightarrow> \<forall>j \<in> set is. P j \<longrightarrow> j = i \<Longrightarrow> find_first P is = int i"
proof (induction "is")
  case (Cons j "is")
  show ?case
  proof (cases "P j")
    case True
    then have "j = i" using Cons.prems(3) by (metis list.set_intros(1))
    then show ?thesis using True by simp
  next
    case False
    then have "i \<in> set is" using Cons.prems(1,2) by (metis set_ConsD)
    moreover have "\<forall>k \<in> set is. P k \<longrightarrow> k = i" using Cons.prems(3) by (metis list.set_intros(2))
    ultimately have "find_first P is = int i" by (rule Cons.IH [OF _ Cons.prems(2)])
    then show ?thesis using False by simp
  qed
qed simp

lemma distinct_keys_unique:
  assumes "distinct (map fst xs)" and "i < length xs" "j < length xs" and "fst (xs ! i) = fst (xs ! j)"
  shows "i = j"
  using assms nth_eq_iff_index_eq [of "map fst xs" i j] by simp

lemma map_of_snoc: "k \<notin> fst ` set xs \<Longrightarrow> map_of (xs @ [(k, v)]) = (map_of xs)(k \<mapsto> v)"
  by (induction xs) (auto simp: fun_eq_iff)

lemma map_of_remove_nth:
  assumes "distinct (map fst xs)" and "i < length xs" and "fst (xs ! i) = k"
  shows "map_of (take i xs @ drop (Suc i) xs) = (map_of xs)(k := None)"
proof -
  have xs: "xs = take i xs @ xs ! i # drop (Suc i) xs" by (rule id_take_nth_drop [OF assms(2)])
  then have "distinct (map fst (take i xs @ xs ! i # drop (Suc i) xs))" using assms(1) by simp
  then have "k \<notin> fst ` set (take i xs)" "k \<notin> fst ` set (drop (Suc i) xs)" using assms(3) by simp_all
  then have none: "map_of (take i xs) k = None" "map_of (drop (Suc i) xs) k = None" by (simp_all add: map_of_eq_None_iff)
  have "map_of xs = map_of (take i xs @ xs ! i # drop (Suc i) xs)" using xs by simp
  then show ?thesis using none assms(3) by (auto simp: fun_eq_iff map_add_def split: option.splits)
qed

lemma map_of_update_nth:
  assumes "distinct (map fst xs)" and "i < length xs" and "fst (xs ! i) = k"
  shows "map_of (xs[i := (k, v)]) = (map_of xs)(k \<mapsto> v)"
  using assms
proof (induction xs arbitrary: i)
  case (Cons x xs)
  show ?case
  proof (cases i)
    case (Suc j)
    then have "k \<in> fst ` set xs" using Cons.prems(2,3) by (metis Suc_less_eq imageI length_Cons nth_Cons_Suc nth_mem)
    then have "k \<noteq> fst x" using Cons.prems(1) by (metis distinct.simps(2) list.set_map list.simps(9))
    then show ?thesis using Suc Cons by (auto simp: fun_eq_iff)
  qed (use Cons.prems in \<open>auto simp: fun_eq_iff\<close>)
qed simp

lemma keys_update_nth: "i < length xs \<Longrightarrow> fst (xs ! i) = k \<Longrightarrow> map fst (xs[i := (k, v)]) = map fst xs"
  by (rule nth_equalityI) (auto simp: nth_list_update)

lemma keys_remove_nth:
  assumes "distinct (map fst xs)"
  shows "distinct (map fst (take i xs @ drop (Suc i) xs))"
proof -
  have "set (map fst (take i xs)) \<inter> set (map fst (drop (Suc i) xs)) = {}"
    using set_take_disj_set_drop_if_distinct [OF assms, of i "Suc i"] by (simp add: take_map drop_map)
  moreover have "distinct (map fst (take i xs))" "distinct (map fst (drop (Suc i) xs))"
    using distinct_take [OF assms, of i] distinct_drop [OF assms, of "Suc i"] by (simp_all add: take_map drop_map)
  ultimately show ?thesis by (simp only: map_append distinct_append)
qed

locale record_array =
  fixes inv :: "'d \<Rightarrow> bool"
    and entries :: "'d \<Rightarrow> ('k \<times> 'v) list"
    and cap :: nat
    and empty_del :: bool
    and key_ok :: "'k \<Rightarrow> bool"
    and val_ok :: "'v \<Rightarrow> bool"
    and ins :: "'k \<Rightarrow> 'v \<Rightarrow> 'd \<Rightarrow> (bool \<times> 'd) res"
    and del :: "'k \<Rightarrow> 'd \<Rightarrow> (bool \<times> 'd) res"
    and upd :: "'k \<Rightarrow> 'v \<Rightarrow> 'd \<Rightarrow> (bool \<times> 'd) res"
    and get :: "'k \<Rightarrow> 'd \<Rightarrow> 'v option res"
  assumes keys_distinct: "inv d \<Longrightarrow> distinct (map fst (entries d))"
    and ins_dup: "inv d \<Longrightarrow> key_ok k \<Longrightarrow> val_ok v \<Longrightarrow> k \<in> fst ` set (entries d) \<Longrightarrow> ins k v d = Inr (False, d)"
    and ins_new: "inv d \<Longrightarrow> key_ok k \<Longrightarrow> val_ok v \<Longrightarrow> k \<notin> fst ` set (entries d) \<Longrightarrow> length (entries d) < cap \<Longrightarrow>
      \<exists>d'. ins k v d = Inr (True, d') \<and> inv d' \<and> entries d' = entries d @ [(k, v)]"
    and del_absent: "inv d \<Longrightarrow> key_ok k \<Longrightarrow> k \<notin> fst ` set (entries d) \<Longrightarrow> empty_del \<or> entries d \<noteq> [] \<Longrightarrow> del k d = Inr (False, d)"
    and del_present: "inv d \<Longrightarrow> key_ok k \<Longrightarrow> i < length (entries d) \<Longrightarrow> fst (entries d ! i) = k \<Longrightarrow>
      \<exists>d'. del k d = Inr (True, d') \<and> inv d' \<and> entries d' = take i (entries d) @ drop (Suc i) (entries d)"
    and upd_absent: "inv d \<Longrightarrow> key_ok k \<Longrightarrow> val_ok v \<Longrightarrow> k \<notin> fst ` set (entries d) \<Longrightarrow> upd k v d = Inr (False, d)"
    and upd_present: "inv d \<Longrightarrow> key_ok k \<Longrightarrow> val_ok v \<Longrightarrow> i < length (entries d) \<Longrightarrow> fst (entries d ! i) = k \<Longrightarrow>
      \<exists>d'. upd k v d = Inr (True, d') \<and> inv d' \<and> entries d' = (entries d)[i := (k, v)]"
    and lookup: "inv d \<Longrightarrow> key_ok k \<Longrightarrow> get k d = Inr (map_of (entries d) k)"
begin

lemma present_nth:
  assumes "map_of (entries d) k \<noteq> None"
  obtains i where "i < length (entries d)" and "fst (entries d ! i) = k"
proof -
  obtain v where "(k, v) \<in> set (entries d)" using assms map_of_SomeD by fast
  then show ?thesis using that by (auto simp: in_set_conv_nth)
qed

lemma record_step:
  assumes inv: "inv d" and ok: "step_ok key_ok val_ok cap empty_del x (map_of (entries d))"
  shows "\<exists>d'. impl_step (ins, del, upd) x d = Inr (fst (map_step x (map_of (entries d))), d') \<and> inv d' \<and>
    map_of (entries d') = snd (map_step x (map_of (entries d)))"
proof (cases x)
  case (Ins k v)
  have card: "card (dom (map_of (entries d))) = length (entries d)"
    using distinct_card [OF keys_distinct [OF inv]] by (simp add: dom_map_of_conv_image_fst)
  show ?thesis
  proof (cases "map_of (entries d) k")
    case None
    then have "k \<notin> fst ` set (entries d)" by (simp add: map_of_eq_None_iff)
    with ins_new [OF inv, of k v] ok None Ins card obtain d' where "ins k v d = Inr (True, d')" "inv d'" "entries d' = entries d @ [(k, v)]" by auto
    then show ?thesis using \<open>k \<notin> fst ` set (entries d)\<close> map_of_snoc None Ins by simp
  next
    case (Some w)
    then have "k \<in> fst ` set (entries d)" by (metis map_of_eq_None_iff option.distinct(1))
    then show ?thesis using ins_dup [OF inv] ok Some Ins inv by auto
  qed
next
  case (Del k)
  show ?thesis
  proof (cases "map_of (entries d) k")
    case None
    then have "k \<notin> fst ` set (entries d)" by (simp add: map_of_eq_None_iff)
    moreover have "empty_del \<or> entries d \<noteq> []" using ok Del by auto
    moreover have "(map_of (entries d))(k := None) = map_of (entries d)" using None by (rule fun_upd_idem)
    ultimately show ?thesis using del_absent [OF inv, of k] ok None Del inv by simp
  next
    case (Some w)
    then have "map_of (entries d) k \<noteq> None" by simp
    then obtain i where i: "i < length (entries d)" "fst (entries d ! i) = k" by (rule present_nth)
    from ok Del have "key_ok k" by simp
    from del_present [OF inv this i] obtain d' where "del k d = Inr (True, d')" "inv d'"
      "entries d' = take i (entries d) @ drop (Suc i) (entries d)" by blast
    then show ?thesis using map_of_remove_nth [OF keys_distinct [OF inv] i] Some Del by simp
  qed
next
  case (Upd k v)
  show ?thesis
  proof (cases "map_of (entries d) k")
    case None
    then have "k \<notin> fst ` set (entries d)" by (simp add: map_of_eq_None_iff)
    then show ?thesis using upd_absent [OF inv] ok None Upd inv by auto
  next
    case (Some w)
    then have "map_of (entries d) k \<noteq> None" by simp
    then obtain i where i: "i < length (entries d)" "fst (entries d ! i) = k" by (rule present_nth)
    from ok Upd have "key_ok k" "val_ok v" by simp_all
    from upd_present [OF inv this i] obtain d' where "upd k v d = Inr (True, d')" "inv d'" "entries d' = (entries d)[i := (k, v)]" by blast
    then show ?thesis using map_of_update_nth [OF keys_distinct [OF inv] i] Some Upd by simp
  qed
qed

end

sublocale record_array \<subseteq> dir: root_directory inv "\<lambda>d. map_of (entries d)" cap empty_del key_ok val_ok ins del upd get
  by unfold_locales (use record_step lookup in auto)

end
