(* ===== verification/Index_Roots_Page.thy ===== *)
theory Index_Roots_Page
  imports Root_Directory
begin

text \<open>
  The page that stores the root page id of every index: src/MiniSQL/src/include/page/index_roots_page.h
  and page/index_roots_page.cpp, over the bytes of the page: the record count, then pairs of an index id
  and a root page id. The count is never negative in an initialised page, so it indexes the array as a
  natural number. The page is an instance of \<open>record_array\<close> with room for 511 records, which the code
  does not check: a theorem shows what the 512th insertion does.
\<close>

section \<open>Operations\<close>

definition MAX_INDEX_COUNT :: nat where
  "MAX_INDEX_COUNT = (PAGE_SIZE - 4) div 8"

definition roots_count :: "mem \<Rightarrow> int" where
  "roots_count m = sint (rd32 m 0)"

definition root_key :: "mem \<Rightarrow> nat \<Rightarrow> u32" where
  "root_key m i = rd32 m (4 + 8 * i)"

definition root_val :: "mem \<Rightarrow> nat \<Rightarrow> page_id" where
  "root_val m i = sint (rd32 m (8 + 8 * i))"

definition IndexRootsPage_Init :: "mem \<Rightarrow> mem" where
  "IndexRootsPage_Init m = wr32 m 0 0"

definition FindIndex :: "mem \<Rightarrow> u32 \<Rightarrow> int" where
  "FindIndex m index_id = find_first (\<lambda>i. root_key m i = index_id) [0..<nat (roots_count m)]"

definition IndexRootsPage_Insert :: "mem \<Rightarrow> u32 \<Rightarrow> page_id \<Rightarrow> bool \<times> mem" where
  "IndexRootsPage_Insert m index_id root_id =
     (if FindIndex m index_id \<noteq> - 1 then (False, m)
      else
        let i = nat (roots_count m);
            m1 = wr32 m (4 + 8 * i) index_id;
            m2 = wr32 m1 (8 + 8 * i) (word_of_int root_id)
        in (True, wr32 m2 0 (rd32 m2 0 + 1)))"

fun shift_roots :: "nat list \<Rightarrow> mem \<Rightarrow> mem" where
  "shift_roots [] m = m"
| "shift_roots (i # is) m =
     shift_roots is (wr32 (wr32 m (4 + 8 * i) (rd32 m (4 + 8 * (i + 1)))) (8 + 8 * i) (rd32 m (8 + 8 * (i + 1))))"

definition IndexRootsPage_Delete :: "mem \<Rightarrow> u32 \<Rightarrow> bool \<times> mem" where
  "IndexRootsPage_Delete m index_id =
     (let index = FindIndex m index_id in
      if index = - 1 then (False, m)
      else let m1 = shift_roots [nat index..<nat (roots_count m - 1)] m in (True, wr32 m1 0 (rd32 m1 0 - 1)))"

definition IndexRootsPage_Update :: "mem \<Rightarrow> u32 \<Rightarrow> page_id \<Rightarrow> bool \<times> mem" where
  "IndexRootsPage_Update m index_id root_id =
     (let index = FindIndex m index_id in
      if index = - 1 then (False, m) else (True, wr32 m (8 + 8 * nat index) (word_of_int root_id)))"

definition IndexRootsPage_GetRootId :: "mem \<Rightarrow> u32 \<Rightarrow> page_id option" where
  "IndexRootsPage_GetRootId m index_id =
     (let index = FindIndex m index_id in if index = - 1 then None else Some (root_val m (nat index)))"

definition GetIndexCount :: "mem \<Rightarrow> int" where
  "GetIndexCount m = roots_count m"

section \<open>The page as an array of records\<close>

definition root_entries :: "mem \<Rightarrow> (u32 \<times> page_id) list" where
  "root_entries m = map (\<lambda>i. (root_key m i, root_val m i)) [0..<nat (roots_count m)]"

definition roots_ok :: "mem \<Rightarrow> bool" where
  "roots_ok m \<longleftrightarrow> unat (rd32 m 0) \<le> MAX_INDEX_COUNT \<and> distinct (map fst (root_entries m))"

definition int32_ok :: "int \<Rightarrow> bool" where
  "int32_ok v \<longleftrightarrow> - (2 ^ 31) \<le> v \<and> v < 2 ^ 31"

lemma sint_word_of_int32: "int32_ok v \<Longrightarrow> sint (word_of_int v :: u32) = v"
  by (simp add: int32_ok_def sint_word_of_int_id)

lemma roots_count_unat:
  assumes "unat (rd32 m 0) \<le> MAX_INDEX_COUNT"
  shows "roots_count m = int (unat (rd32 m 0))"
  unfolding roots_count_def using assms by (simp add: sint_u32_small MAX_INDEX_COUNT_def PAGE_SIZE_def)

lemma length_root_entries [simp]: "length (root_entries m) = nat (roots_count m)"
  by (simp add: root_entries_def)

lemma nth_root_entries [simp]: "i < nat (roots_count m) \<Longrightarrow> root_entries m ! i = (root_key m i, root_val m i)"
  by (simp add: root_entries_def)

lemma FindIndex_none: "FindIndex m k = - 1 \<longleftrightarrow> k \<notin> fst ` set (root_entries m)"
  by (auto simp: FindIndex_def find_first_none root_entries_def image_image)

lemma FindIndex_nth:
  assumes "distinct (map fst (root_entries m))" and "i < length (root_entries m)" and "fst (root_entries m ! i) = k"
  shows "FindIndex m k = int i"
proof -
  have "\<forall>j \<in> set [0..<nat (roots_count m)]. root_key m j = k \<longrightarrow> j = i"
    using distinct_keys_unique [OF assms(1) _ assms(2)] assms(2,3) by simp
  moreover have "i \<in> set [0..<nat (roots_count m)]" "root_key m i = k" using assms(2,3) by simp_all
  ultimately show ?thesis unfolding FindIndex_def by (intro find_first_unique)
qed

text \<open>Two pages with the same count and records have the same entries.\<close>

lemma root_entries_eqI:
  assumes "nat (roots_count m) = length xs" and "\<And>i. i < length xs \<Longrightarrow> (root_key m i, root_val m i) = xs ! i"
  shows "root_entries m = xs"
  by (rule nth_equalityI) (use assms in auto)

lemma shift_roots_reads:
  "rd32 (shift_roots [i..<n] m) 0 = rd32 m 0 \<and>
   root_key (shift_roots [i..<n] m) j = (if i \<le> j \<and> j < n then root_key m (Suc j) else root_key m j) \<and>
   root_val (shift_roots [i..<n] m) j = (if i \<le> j \<and> j < n then root_val m (Suc j) else root_val m j)"
proof (induction "n - i" arbitrary: i m)
  case 0
  then show ?case by auto
next
  case (Suc x)
  let ?m = "wr32 (wr32 m (4 + 8 * i) (rd32 m (4 + 8 * (i + 1)))) (8 + 8 * i) (rd32 m (8 + 8 * (i + 1)))"
  have "i < n" "x = n - Suc i" using Suc.hyps by simp_all
  have K: "root_key ?m j = (if j = i then root_key m (Suc i) else root_key m j)" for j
    by (cases j i rule: linorder_cases) (simp_all add: root_key_def mem_simps)
  have V: "root_val ?m j = (if j = i then root_val m (Suc i) else root_val m j)" for j
    by (cases j i rule: linorder_cases) (simp_all add: root_val_def mem_simps)
  have "rd32 ?m 0 = rd32 m 0" by (simp add: mem_simps)
  then show ?case
    using Suc.hyps(1) [OF \<open>x = n - Suc i\<close>, of ?m] \<open>i < n\<close> K V by (auto simp: upt_conv_Cons)
qed

lemma count_after:
  assumes "rd32 m' 0 = w" and "unat w = n" and "n \<le> MAX_INDEX_COUNT"
  shows "nat (roots_count m') = n" and "unat (rd32 m' 0) \<le> MAX_INDEX_COUNT"
  using roots_count_unat [of m'] assms by simp_all

lemma roots_okD:
  assumes "roots_ok m"
  shows "nat (roots_count m) = unat (rd32 m 0)" and "unat (rd32 m 0) \<le> MAX_INDEX_COUNT" and "distinct (map fst (root_entries m))"
    and "unat (rd32 m 0) \<le> 511"
  using assms roots_count_unat [of m] by (simp_all add: roots_ok_def MAX_INDEX_COUNT_def PAGE_SIZE_def)

lemma Insert_new:
  assumes ok: "roots_ok m" and v: "int32_ok v" and k: "k \<notin> fst ` set (root_entries m)" and room: "length (root_entries m) < MAX_INDEX_COUNT"
  shows "\<exists>m'. IndexRootsPage_Insert m k v = (True, m') \<and> roots_ok m' \<and> root_entries m' = root_entries m @ [(k, v)]"
proof -
  note D = roots_okD [OF ok]
  let ?n = "unat (rd32 m 0)"
  let ?m1 = "wr32 (wr32 m (4 + 8 * ?n) k) (8 + 8 * ?n) (word_of_int v)"
  let ?m = "wr32 ?m1 0 (rd32 ?m1 0 + 1)"
  have r1: "rd32 ?m1 0 = rd32 m 0" by (simp add: mem_simps)
  have "unat (rd32 m 0 + 1) = Suc ?n" using unat_u32_plus [of "rd32 m 0" 1] D(4) by simp
  then have c: "nat (roots_count ?m) = Suc ?n" "unat (rd32 ?m 0) \<le> MAX_INDEX_COUNT"
    using count_after [of ?m "rd32 m 0 + 1" "Suc ?n"] r1 room D(1) by (simp_all add: mem_simps)
  have K: "root_key ?m i = (if i = ?n then k else root_key m i)" if "i \<le> ?n" for i
    using that by (cases "i = ?n") (simp_all add: root_key_def mem_simps)
  have V: "root_val ?m i = (if i = ?n then v else root_val m i)" if "i \<le> ?n" for i
    using that sint_word_of_int32 [OF v] by (cases "i = ?n") (simp_all add: root_val_def mem_simps)
  have E: "root_entries ?m = root_entries m @ [(k, v)]"
    by (rule root_entries_eqI) (use c D(1) K V in \<open>auto simp: nth_append less_Suc_eq\<close>)
  then have "roots_ok ?m" using c D(3) k by (simp add: roots_ok_def)
  then show ?thesis using E k by (simp add: IndexRootsPage_Insert_def FindIndex_none D(1) Let_def)
qed

lemma Delete_present:
  assumes ok: "roots_ok m" and i: "i < length (root_entries m)" "fst (root_entries m ! i) = k"
  shows "\<exists>m'. IndexRootsPage_Delete m k = (True, m') \<and> roots_ok m' \<and>
    root_entries m' = take i (root_entries m) @ drop (Suc i) (root_entries m)"
proof -
  note D = roots_okD [OF ok]
  let ?n = "unat (rd32 m 0)"
  let ?m1 = "shift_roots [i..<?n - 1] m"
  let ?m = "wr32 ?m1 0 (rd32 ?m1 0 - 1)"
  note S = shift_roots_reads [of i "?n - 1" m]
  have n: "i < ?n" using i(1) D(1) by simp
  have rc: "nat (roots_count m - 1) = ?n - 1" using D(1) by (simp add: nat_diff_distrib')
  have r1: "rd32 ?m1 0 = rd32 m 0" using S by simp
  have "unat (rd32 m 0 - 1) = ?n - 1" using unat_u32_minus [of 1 "rd32 m 0"] n by simp
  then have c: "nat (roots_count ?m) = ?n - 1" "unat (rd32 ?m 0) \<le> MAX_INDEX_COUNT"
    using count_after [of ?m "rd32 m 0 - 1" "?n - 1"] r1 D(2) by (simp_all add: mem_simps)
  have K: "root_key ?m j = root_key ?m1 j" "root_val ?m j = root_val ?m1 j" for j
    by (simp_all add: root_key_def root_val_def mem_simps)
  have E: "root_entries ?m = take i (root_entries m) @ drop (Suc i) (root_entries m)"
    by (rule root_entries_eqI) (use c D(1) K S n in \<open>auto simp: nth_append\<close>)
  have "distinct (map fst (root_entries ?m))" unfolding E by (rule keys_remove_nth [OF D(3)])
  then have "roots_ok ?m" using c by (simp add: roots_ok_def)
  then show ?thesis
    using E FindIndex_nth [OF D(3) i] rc by (simp add: IndexRootsPage_Delete_def Let_def)
qed

lemma Update_present:
  assumes ok: "roots_ok m" and v: "int32_ok v" and i: "i < length (root_entries m)" "fst (root_entries m ! i) = k"
  shows "\<exists>m'. IndexRootsPage_Update m k v = (True, m') \<and> roots_ok m' \<and> root_entries m' = (root_entries m)[i := (k, v)]"
proof -
  note D = roots_okD [OF ok]
  let ?m = "wr32 m (8 + 8 * i) (word_of_int v)"
  have r: "rd32 ?m 0 = rd32 m 0" by (simp add: mem_simps)
  then have c: "roots_count ?m = roots_count m" by (simp add: roots_count_def)
  have K: "root_key ?m j = root_key m j" for j
    by (cases j i rule: linorder_cases) (simp_all add: root_key_def mem_simps)
  have V: "root_val ?m j = (if j = i then v else root_val m j)" for j
    using sint_word_of_int32 [OF v] by (cases j i rule: linorder_cases) (simp_all add: root_val_def mem_simps)
  have k: "root_key m i = k" using i by simp
  have E: "root_entries ?m = (root_entries m)[i := (k, v)]"
    by (rule root_entries_eqI) (use c K V k i(1) in \<open>auto simp: nth_list_update\<close>)
  have "map fst ((root_entries m)[i := (k, v)]) = map fst (root_entries m)" by (rule keys_update_nth [OF i])
  then have "roots_ok ?m" using D(2,3) r E by (simp add: roots_ok_def)
  then show ?thesis using E FindIndex_nth [OF D(3) i] by (simp add: IndexRootsPage_Update_def Let_def)
qed

lemma GetRootId_lookup:
  assumes ok: "roots_ok m"
  shows "IndexRootsPage_GetRootId m k = map_of (root_entries m) k"
proof (cases "k \<in> fst ` set (root_entries m)")
  case True
  then obtain i where i: "i < length (root_entries m)" "fst (root_entries m ! i) = k" by (metis (no_types, lifting) imageE in_set_conv_nth)
  have "root_entries m ! i = (k, root_val m i)" using i by simp
  then have "map_of (root_entries m) k = Some (root_val m i)"
    using map_of_is_SomeI [OF roots_okD(3) [OF ok]] i(1) by (metis nth_mem)
  then show ?thesis using FindIndex_nth [OF roots_okD(3) [OF ok] i] by (simp add: IndexRootsPage_GetRootId_def)
next
  case False
  then have "map_of (root_entries m) k = None" by (simp add: map_of_eq_None_iff)
  then show ?thesis using False by (simp add: IndexRootsPage_GetRootId_def FindIndex_none Let_def)
qed

interpretation ir: record_array roots_ok root_entries MAX_INDEX_COUNT True "\<lambda>_. True" int32_ok
  "\<lambda>k v m. Inr (IndexRootsPage_Insert m k v)" "\<lambda>k m. Inr (IndexRootsPage_Delete m k)"
  "\<lambda>k v m. Inr (IndexRootsPage_Update m k v)" "\<lambda>k m. Inr (IndexRootsPage_GetRootId m k)"
proof unfold_locales
  fix m k v i
  assume ok: "roots_ok m"
  show "distinct (map fst (root_entries m))" using roots_okD [OF ok] by simp
  show "Inr (IndexRootsPage_GetRootId m k) = Inr (map_of (root_entries m) k)" by (simp add: GetRootId_lookup [OF ok])
  show "Inr (IndexRootsPage_Insert m k v) = Inr (False, m)" if "k \<in> fst ` set (root_entries m)"
    using that by (simp add: IndexRootsPage_Insert_def FindIndex_none)
  show "Inr (IndexRootsPage_Delete m k) = Inr (False, m)" if "k \<notin> fst ` set (root_entries m)"
    using that by (simp add: IndexRootsPage_Delete_def FindIndex_none Let_def)
  show "Inr (IndexRootsPage_Update m k v) = Inr (False, m)" if "k \<notin> fst ` set (root_entries m)"
    using that by (simp add: IndexRootsPage_Update_def FindIndex_none Let_def)
qed (use Insert_new Delete_present Update_present in auto)

section \<open>Properties\<close>

abbreviation roots_impl :: "(u32, page_id, mem) dir_impl" where
  "roots_impl \<equiv> (\<lambda>k v m. Inr (IndexRootsPage_Insert m k v), \<lambda>k m. Inr (IndexRootsPage_Delete m k),
     \<lambda>k v m. Inr (IndexRootsPage_Update m k v))"

lemma Init_roots: "roots_ok (IndexRootsPage_Init m)" "root_entries (IndexRootsPage_Init m) = []"
  by (simp_all add: roots_ok_def root_entries_def roots_count_def IndexRootsPage_Init_def mem_simps)

text \<open>
  C27. The index roots page is a map from index ids to root page ids: after \<^verbatim>\<open>Init\<close>, every sequence of
  insertions, deletions and updates that never exceeds 511 records, also with deletions from the empty page,
  returns what the map returns, and \<^verbatim>\<open>GetRootId\<close> then looks up the map.
\<close>

theorem index_roots_refine_map:
  assumes "run_ok (\<lambda>_. True) int32_ok MAX_INDEX_COUNT True ops Map.empty"
  shows "\<exists>m'. impl_run roots_impl ops (IndexRootsPage_Init m) = Inr (fst (map_run ops Map.empty), m') \<and> roots_ok m' \<and>
    (\<forall>k. IndexRootsPage_GetRootId m' k = snd (map_run ops Map.empty) k)"
  using ir.dir.run_refines_map [OF Init_roots(1), of ops m] assms by (simp add: Init_roots(2)) blast

theorem index_roots_refine_map_witness:
  "\<exists>m'. impl_run roots_impl [Del 7, Ins 7 10, Ins 9 11, Del 7, Upd 9 12, Ins 9 5] (IndexRootsPage_Init zero_mem) =
      Inr ([False, True, True, True, True, False], m') \<and> IndexRootsPage_GetRootId m' 9 = Some 12 \<and> IndexRootsPage_GetRootId m' 7 = None"
  using index_roots_refine_map [of "[Del 7, Ins 7 10, Ins 9 11, Del 7, Upd 9 12, Ins 9 5]" zero_mem]
  by (auto simp: int32_ok_def MAX_INDEX_COUNT_def PAGE_SIZE_def)

text \<open>The insertion into a page with 511 records is not refused: its root id lies behind the end of the page.\<close>

lemma Insert_into_full_page:
  assumes "roots_ok m" and "length (root_entries m) = MAX_INDEX_COUNT" and "k \<notin> fst ` set (root_entries m)"
  shows "\<exists>m'. IndexRootsPage_Insert m k v = (True, m') \<and> rd32 m' PAGE_SIZE = word_of_int v"
proof -
  have "nat (roots_count m) = 511" using assms(2) by (simp add: MAX_INDEX_COUNT_def PAGE_SIZE_def)
  then show ?thesis using assms(3) by (simp add: IndexRootsPage_Insert_def FindIndex_none Let_def PAGE_SIZE_def mem_simps)
qed

end
