(* ===== verification/Header_Page.thy ===== *)
theory Header_Page
  imports Root_Directory
begin

text \<open>
  The header page: src/MiniSQL/src/include/page/header_page.h and page/header_page.cpp, over the bytes of
  the page: the record count, then records of 36 bytes, a NUL-terminated name of at most 31 characters
  and a root page id. \<^verbatim>\<open>strcmp\<close> compares the stored bytes with the C string of the name. The page is an
  instance of \<open>record_array\<close> for names without NUL characters.
\<close>

section \<open>Operations\<close>

definition GetRecordCount :: "mem \<Rightarrow> int" where
  "GetRecordCount m = sint (rd32 m 0)"

definition SetRecordCount :: "mem \<Rightarrow> int \<Rightarrow> mem" where
  "SetRecordCount m n = wr32 m 0 (word_of_int n)"

definition HeaderPage_Init :: "mem \<Rightarrow> mem" where
  "HeaderPage_Init m = SetRecordCount m 0"

text \<open>\<^verbatim>\<open>strcmp(raw, name.c_str()) == 0\<close>: the C string of the name ends at its first NUL.\<close>

definition strcmp_eq :: "mem \<Rightarrow> nat \<Rightarrow> string \<Rightarrow> bool" where
  "strcmp_eq m a name = (let c = takeWhile (\<lambda>b. b \<noteq> 0) (name_bytes name) in peek m a (length c + 1) = c @ [0])"

definition FindRecord :: "mem \<Rightarrow> string \<Rightarrow> int" where
  "FindRecord m name = find_first (\<lambda>i. strcmp_eq m (4 + i * 36) name) [0..<nat (GetRecordCount m)]"

definition InsertRecord :: "mem \<Rightarrow> string \<Rightarrow> page_id \<Rightarrow> (bool \<times> mem) res" where
  "InsertRecord m name root_id =
     res_bind (ASSERT (length name < 32)) (\<lambda>_.
     res_bind (ASSERT (root_id > INVALID_PAGE_ID)) (\<lambda>_.
       let record_num = GetRecordCount m; ofs = nat (4 + record_num * 36) in
       if FindRecord m name \<noteq> - 1 then Inr (False, m)
       else
         let m1 = poke m ofs (name_bytes name @ [0]); m2 = wr32 m1 (ofs + 32) (word_of_int root_id)
         in Inr (True, SetRecordCount m2 (record_num + 1))))"

definition DeleteRecord :: "mem \<Rightarrow> string \<Rightarrow> (bool \<times> mem) res" where
  "DeleteRecord m name =
     (let record_num = GetRecordCount m in
      res_bind (ASSERT (record_num > 0)) (\<lambda>_.
        let index = FindRecord m name in
        if index = - 1 then Inr (False, m)
        else
          let ofs = nat (index * 36 + 4); m1 = memmove m ofs (ofs + 36) (nat ((record_num - index - 1) * 36))
          in Inr (True, SetRecordCount m1 (record_num - 1))))"

definition UpdateRecord :: "mem \<Rightarrow> string \<Rightarrow> page_id \<Rightarrow> (bool \<times> mem) res" where
  "UpdateRecord m name root_id =
     res_bind (ASSERT (length name < 32)) (\<lambda>_.
       let index = FindRecord m name in
       if index = - 1 then Inr (False, m) else Inr (True, wr32 m (nat (index * 36 + 4) + 32) (word_of_int root_id)))"

definition HeaderPage_GetRootId :: "mem \<Rightarrow> string \<Rightarrow> page_id option res" where
  "HeaderPage_GetRootId m name =
     res_bind (ASSERT (length name < 32)) (\<lambda>_.
       let index = FindRecord m name in
       if index = - 1 then Inr None else Inr (Some (sint (rd32 m (nat ((index + 1) * 36))))))"

section \<open>The page as an array of records\<close>

definition record_name :: "mem \<Rightarrow> nat \<Rightarrow> string" where
  "record_name m i = map char_of_byte (takeWhile (\<lambda>b. b \<noteq> 0) (peek m (4 + i * 36) 32))"

definition record_root :: "mem \<Rightarrow> nat \<Rightarrow> page_id" where
  "record_root m i = sint (rd32 m (36 + i * 36))"

definition records :: "mem \<Rightarrow> (string \<times> page_id) list" where
  "records m = map (\<lambda>i. (record_name m i, record_root m i)) [0..<nat (GetRecordCount m)]"

definition MAX_RECORDS :: nat where
  "MAX_RECORDS = (PAGE_SIZE - 4) div 36"

definition header_ok :: "mem \<Rightarrow> bool" where
  "header_ok m \<longleftrightarrow> unat (rd32 m 0) \<le> MAX_RECORDS \<and> distinct (map fst (records m)) \<and>
     (\<forall>i < nat (GetRecordCount m). 0 \<in> set (peek m (4 + i * 36) 32))"

definition name_ok :: "string \<Rightarrow> bool" where
  "name_ok s \<longleftrightarrow> length s < 32 \<and> CHR 0x00 \<notin> set s"

definition root_id_ok :: "page_id \<Rightarrow> bool" where
  "root_id_ok v \<longleftrightarrow> 0 \<le> v \<and> v < 2 ^ 31"

lemma byte_of_char_zero: "byte_of_char c = 0 \<longleftrightarrow> c = CHR 0x00"
proof -
  have "char_of_byte (byte_of_char c) = c" by simp
  moreover have "byte_of_char (CHR 0x00) = 0" by (simp add: byte_of_char_def)
  moreover have "char_of_byte (byte_of_char (CHR 0x00)) = CHR 0x00" by simp
  ultimately show ?thesis by metis
qed

lemma byte_of_char_of_byte [simp]: "byte_of_char (char_of_byte b) = b"
proof -
  have "unat b < 2 ^ LENGTH(8)" by (rule unsigned_less)
  then have "unat b < 256" by simp
  then show ?thesis by (simp add: byte_of_char_def char_of_byte_def)
qed

lemma c_str: "name_ok s \<Longrightarrow> takeWhile (\<lambda>b. b \<noteq> 0) (name_bytes s) = name_bytes s"
  by (auto simp: name_ok_def name_bytes_def byte_of_char_zero takeWhile_eq_all_conv)

lemma name_bytes_inj: "name_bytes s = name_bytes t \<longleftrightarrow> s = t"
proof
  assume "name_bytes s = name_bytes t"
  then have "map char_of_byte (name_bytes s) = map char_of_byte (name_bytes t)" by simp
  then show "s = t" by (simp add: name_bytes_def o_def)
qed simp

text \<open>On a terminated record, \<^verbatim>\<open>strcmp\<close> compares the stored name.\<close>

lemma strcmp_record:
  assumes z: "0 \<in> set (peek m (4 + i * 36) 32)" and s: "name_ok s"
  shows "strcmp_eq m (4 + i * 36) s \<longleftrightarrow> record_name m i = s"
proof -
  let ?p = "peek m (4 + i * 36) 32"
  let ?t = "takeWhile (\<lambda>b. b \<noteq> 0) ?p"
  have len: "length ?t < 32"
  proof -
    have "?t \<noteq> ?p" using z by (auto simp: takeWhile_eq_all_conv)
    then show ?thesis
      by (metis length_peek length_takeWhile_le nat_less_le takeWhile_eq_take take_all_iff)
  qed
  have nul: "?p ! length ?t = 0" using nth_length_takeWhile [of "\<lambda>b. b \<noteq> 0" ?p] len by simp
  have pre: "?t = take (length ?t) ?p" by (rule takeWhile_eq_take)
  have bytes: "name_bytes (record_name m i) = ?t" by (simp add: record_name_def name_bytes_def o_def)
  have L: "length s + 1 \<le> 32" using s by (simp add: name_ok_def)
  have "peek m (4 + i * 36) (length s + 1) = take (length s + 1) ?p"
    by (rule nth_equalityI) (use L in auto)
  then have "strcmp_eq m (4 + i * 36) s \<longleftrightarrow> take (length s + 1) ?p = name_bytes s @ [0]"
    by (simp add: strcmp_eq_def c_str [OF s])
  also have "\<dots> \<longleftrightarrow> ?t = name_bytes s"
  proof
    assume eq: "take (length s + 1) ?p = name_bytes s @ [0]"
    have "?p = name_bytes s @ [0] @ drop (length s + 1) ?p"
      using append_take_drop_id [of "length s + 1" ?p] unfolding eq by simp
    then have "?t = takeWhile (\<lambda>b. b \<noteq> 0) (name_bytes s @ [0] @ drop (length s + 1) ?p)" by simp
    moreover have "\<forall>b \<in> set (name_bytes s). b \<noteq> 0" using c_str [OF s] by (metis set_takeWhileD)
    ultimately show "?t = name_bytes s" by (simp add: takeWhile_append2)
  next
    assume t: "?t = name_bytes s"
    then have "length ?t = length s" by simp
    then show "take (length s + 1) ?p = name_bytes s @ [0]"
      using pre nul t len by (simp add: take_Suc_conv_app_nth)
  qed
  also have "\<dots> \<longleftrightarrow> record_name m i = s" using bytes name_bytes_inj by metis
  finally show ?thesis .
qed

lemma header_okD:
  assumes "header_ok m"
  shows "GetRecordCount m = int (unat (rd32 m 0))" and "unat (rd32 m 0) \<le> 113" and "distinct (map fst (records m))"
    and "i < nat (GetRecordCount m) \<Longrightarrow> 0 \<in> set (peek m (4 + i * 36) 32)"
  using assms by (simp_all add: header_ok_def MAX_RECORDS_def PAGE_SIZE_def GetRecordCount_def sint_u32_small)

lemma length_records [simp]: "length (records m) = nat (GetRecordCount m)"
  by (simp add: records_def)

lemma nth_records [simp]: "i < nat (GetRecordCount m) \<Longrightarrow> records m ! i = (record_name m i, record_root m i)"
  by (simp add: records_def)

lemma records_eqI:
  assumes "nat (GetRecordCount m) = length xs" and "\<And>i. i < length xs \<Longrightarrow> (record_name m i, record_root m i) = xs ! i"
  shows "records m = xs"
  by (rule nth_equalityI) (use assms in auto)

lemma FindRecord_none:
  assumes ok: "header_ok m" and s: "name_ok s"
  shows "FindRecord m s = - 1 \<longleftrightarrow> s \<notin> fst ` set (records m)"
  using strcmp_record [OF header_okD(4) [OF ok] s] by (auto simp: FindRecord_def find_first_none records_def image_image)

lemma FindRecord_nth:
  assumes ok: "header_ok m" and s: "name_ok s" and i: "i < length (records m)" "fst (records m ! i) = s"
  shows "FindRecord m s = int i"
proof -
  have E: "strcmp_eq m (4 + j * 36) s \<longleftrightarrow> record_name m j = s" if "j < nat (GetRecordCount m)" for j
    using strcmp_record [OF header_okD(4) [OF ok that] s] .
  have "\<forall>j \<in> set [0..<nat (GetRecordCount m)]. strcmp_eq m (4 + j * 36) s \<longrightarrow> j = i"
    using distinct_keys_unique [OF header_okD(3) [OF ok] _ i(1)] i E by simp
  moreover have "i \<in> set [0..<nat (GetRecordCount m)]" "strcmp_eq m (4 + i * 36) s" using i E by simp_all
  ultimately show ?thesis unfolding FindRecord_def by (intro find_first_unique)
qed

lemma count_eq:
  assumes "rd32 m' 0 = word_of_int (int n)" and "n \<le> 113"
  shows "GetRecordCount m' = int n" and "unat (rd32 m' 0) = n"
proof -
  have "rd32 m' 0 = word_of_nat n" using assms(1) by simp
  then show "unat (rd32 m' 0) = n" using assms(2) by simp
  then show "GetRecordCount m' = int n" unfolding GetRecordCount_def using assms(2) by (simp add: sint_u32_small)
qed

text \<open>A record is determined by its 36 bytes.\<close>

lemma record_cong:
  assumes "peek m' (4 + i * 36) 36 = peek m (4 + j * 36) 36"
  shows "record_name m' i = record_name m j" and "record_root m' i = record_root m j" and "peek m' (4 + i * 36) 32 = peek m (4 + j * 36) 32"
proof -
  have B: "m' (4 + i * 36 + k) = m (4 + j * 36 + k)" if "k < 36" for k
    using assms that by (metis nth_peek)
  show P: "peek m' (4 + i * 36) 32 = peek m (4 + j * 36) 32" by (rule nth_equalityI) (use B in auto)
  then show "record_name m' i = record_name m j" by (simp add: record_name_def)
  have "peek m' (36 + i * 36) 4 = peek m (36 + j * 36) 4"
    by (rule nth_equalityI) (use B [of "32 + _"] in \<open>auto simp: ac_simps\<close>)
  then show "record_root m' i = record_root m j" by (simp add: record_root_def rd32_def)
qed

lemma header_okI:
  assumes "rd32 m 0 = word_of_int (int n)" and "n \<le> 113" and "records m = xs" and "distinct (map fst xs)"
    and "\<And>i. i < n \<Longrightarrow> 0 \<in> set (peek m (4 + i * 36) 32)"
  shows "header_ok m"
  using count_eq [OF assms(1,2)] assms(2-) by (simp add: header_ok_def MAX_RECORDS_def PAGE_SIZE_def)

lemma takeWhile_name:
  assumes "name_ok s"
  shows "takeWhile (\<lambda>b. b \<noteq> 0) (name_bytes s @ 0 # xs) = name_bytes s"
proof -
  have "\<forall>b \<in> set (name_bytes s). b \<noteq> 0" using c_str [OF assms] by (metis set_takeWhileD)
  then show ?thesis by (simp add: takeWhile_append2)
qed

lemma map_char_of_name [simp]: "map char_of_byte (name_bytes s) = s"
  by (simp add: name_bytes_def o_def)

lemma InsertRecord_new:
  assumes ok: "header_ok m" and s: "name_ok s" and v: "root_id_ok v" and k: "s \<notin> fst ` set (records m)"
    and room: "length (records m) < MAX_RECORDS"
  shows "\<exists>m'. InsertRecord m s v = Inr (True, m') \<and> header_ok m' \<and> records m' = records m @ [(s, v)]"
proof -
  note D = header_okD [OF ok]
  let ?n = "unat (rd32 m 0)" and ?bs = "name_bytes s @ [0]"
  let ?m1 = "wr32 (poke m (4 + ?n * 36) ?bs) (4 + ?n * 36 + 32) (word_of_int v)"
  let ?m = "SetRecordCount ?m1 (int ?n + 1)"
  have n: "?n < 113" using room D(1) by (simp add: MAX_RECORDS_def PAGE_SIZE_def)
  have L: "length ?bs \<le> 32" using s by (simp add: name_ok_def)
  have c: "rd32 ?m 0 = word_of_int (int (Suc ?n))" by (simp add: SetRecordCount_def mem_simps)
  have old: "peek ?m (4 + i * 36) 36 = peek m (4 + i * 36) 36" if "i < ?n" for i
    using that L by (simp add: SetRecordCount_def mem_simps)
  have nm: "peek ?m (4 + ?n * 36) 32 = ?bs @ peek m (4 + ?n * 36 + length ?bs) (32 - length ?bs)"
    using peek_split [of ?m "4 + ?n * 36" "length ?bs" "32 - length ?bs"] L by (simp add: SetRecordCount_def mem_simps)
  have name: "record_name ?m ?n = s" unfolding record_name_def nm using takeWhile_name [OF s] by simp
  have root: "record_root ?m ?n = v"
    using v by (simp add: record_root_def SetRecordCount_def mem_simps sint_word_of_int_id root_id_ok_def)
  have "Suc ?n \<le> 113" using n by simp
  from count_eq(1) [OF c this] have cnt: "nat (GetRecordCount ?m) = Suc ?n" by (simp only: nat_int)
  have E: "records ?m = records m @ [(s, v)]"
    by (rule records_eqI) (use cnt D(1) name root record_cong [OF old] in \<open>auto simp: nth_append less_Suc_eq\<close>)
  have Z: "0 \<in> set (peek ?m (4 + i * 36) 32)" if "i < Suc ?n" for i
    using that nm record_cong(3) [OF old] D(1) D(4) [of i] by (cases "i = ?n") auto
  have "header_ok ?m" by (rule header_okI [OF c _ E _ Z]) (use n D(3) k in auto)
  moreover have "InsertRecord m s v = Inr (True, ?m)"
    using FindRecord_none [OF ok s] k s v D(1)
    by (simp add: InsertRecord_def name_ok_def root_id_ok_def INVALID_PAGE_ID_def Let_def nat_add_distrib nat_mult_distrib)
  ultimately show ?thesis using E by blast
qed

lemma DeleteRecord_present:
  assumes ok: "header_ok m" and s: "name_ok s" and i: "i < length (records m)" "fst (records m ! i) = s"
  shows "\<exists>m'. DeleteRecord m s = Inr (True, m') \<and> header_ok m' \<and> records m' = take i (records m) @ drop (Suc i) (records m)"
proof -
  note D = header_okD [OF ok]
  let ?n = "unat (rd32 m 0)"
  have n: "i < ?n" using i(1) D(1) by simp
  let ?m1 = "memmove m (i * 36 + 4) (i * 36 + 4 + 36) ((?n - i - 1) * 36)"
  let ?m = "SetRecordCount ?m1 (int ?n - 1)"
  have c: "rd32 ?m 0 = word_of_int (int (?n - 1))" using n by (simp add: SetRecordCount_def mem_simps of_nat_diff)
  have "?n - 1 \<le> 113" using D(2) by simp
  from count_eq(1) [OF c this] have cnt: "nat (GetRecordCount ?m) = ?n - 1" by (simp only: nat_int)
  have P: "peek ?m (4 + j * 36) 36 = peek m (4 + (if j < i then j else Suc j) * 36) 36" if "j < ?n - 1" for j
  proof (rule nth_equalityI)
    fix k assume "k < length (peek ?m (4 + j * 36) 36)"
    then have k: "k < 36" by simp
    have hi: "4 + j * 36 + k < i * 36 + 4 + (?n - i - 1) * 36"
    proof -
      have "i + (?n - i - 1) = ?n - 1" using n by simp
      then have "i * 36 + (?n - i - 1) * 36 = (?n - 1) * 36" by (metis add_mult_distrib)
      then show ?thesis using that k by simp
    qed
    have m: "?m (4 + j * 36 + k) = ?m1 (4 + j * 36 + k)" by (simp add: SetRecordCount_def mem_simps)
    show "peek ?m (4 + j * 36) 36 ! k = peek m (4 + (if j < i then j else Suc j) * 36) 36 ! k"
      using k m hi by (auto simp: memmove_def add.assoc)
  qed simp
  have E: "records ?m = take i (records m) @ drop (Suc i) (records m)"
    by (rule records_eqI) (use cnt D(1) n record_cong [OF P] in \<open>auto simp: nth_append\<close>)
  have Z: "0 \<in> set (peek ?m (4 + j * 36) 32)" if "j < ?n - 1" for j
    using that record_cong(3) [OF P [OF that]] D(1) D(4) [of "if j < i then j else Suc j"] by auto
  have "header_ok ?m" by (rule header_okI [OF c _ E keys_remove_nth [OF D(3)] Z]) (use D(2) in auto)
  moreover have "DeleteRecord m s = Inr (True, ?m)"
  proof -
    obtain N where N: "?n = N" by simp
    have G: "GetRecordCount m = int N" "i < N" using D(1) n N by (simp_all only:)
    then have len: "nat ((int N - int i - 1) * 36) = (N - i - 1) * 36" by (simp add: nat_mult_distrib nat_diff_distrib')
    show ?thesis unfolding DeleteRecord_def FindRecord_nth [OF ok s i] N G(1) len Let_def
      using G(2) by (simp add: nat_add_distrib nat_mult_distrib)
  qed
  ultimately show ?thesis using E by blast
qed

lemma UpdateRecord_present:
  assumes ok: "header_ok m" and s: "name_ok s" and v: "root_id_ok v" and i: "i < length (records m)" "fst (records m ! i) = s"
  shows "\<exists>m'. UpdateRecord m s v = Inr (True, m') \<and> header_ok m' \<and> records m' = (records m)[i := (s, v)]"
proof -
  note D = header_okD [OF ok]
  let ?n = "unat (rd32 m 0)" and ?m = "wr32 m (4 + i * 36 + 32) (word_of_int v)"
  have c: "rd32 ?m 0 = word_of_int (int ?n)" by (simp add: mem_simps)
  have cnt: "GetRecordCount ?m = GetRecordCount m" by (simp add: GetRecordCount_def mem_simps)
  have P: "peek ?m (4 + j * 36) 32 = peek m (4 + j * 36) 32" for j
    by (cases j i rule: linorder_cases) (simp_all add: mem_simps)
  then have N: "record_name ?m j = record_name m j" for j by (simp add: record_name_def)
  have R: "record_root ?m j = (if j = i then v else record_root m j)" for j
    using v by (cases j i rule: linorder_cases) (simp_all add: record_root_def mem_simps sint_word_of_int_id root_id_ok_def)
  have nm: "record_name m i = s" using i by simp
  have E: "records ?m = (records m)[i := (s, v)]"
    by (rule records_eqI) (use cnt N R nm i(1) in \<open>auto simp: nth_list_update\<close>)
  have "header_ok ?m"
    by (rule header_okI [OF c D(2) E]) (use P D(1,3,4) keys_update_nth [OF i] in simp_all)
  moreover have "UpdateRecord m s v = Inr (True, ?m)"
    using FindRecord_nth [OF ok s i] s by (simp add: UpdateRecord_def name_ok_def nat_add_distrib nat_mult_distrib ac_simps)
  ultimately show ?thesis using E by blast
qed

lemma GetRootId_record:
  assumes ok: "header_ok m" and s: "name_ok s"
  shows "HeaderPage_GetRootId m s = Inr (map_of (records m) s)"
proof (cases "s \<in> fst ` set (records m)")
  case True
  then obtain i where i: "i < length (records m)" "fst (records m ! i) = s" by (metis (no_types, lifting) imageE in_set_conv_nth)
  have "records m ! i = (s, record_root m i)" using i by simp
  then have "map_of (records m) s = Some (record_root m i)"
    using map_of_is_SomeI [OF header_okD(3) [OF ok]] i(1) by (metis nth_mem)
  then show ?thesis
    using FindRecord_nth [OF ok s i] s
    by (simp add: HeaderPage_GetRootId_def name_ok_def record_root_def nat_mult_distrib nat_add_distrib add.commute)
next
  case False
  then have "map_of (records m) s = None" by (simp add: map_of_eq_None_iff)
  then show ?thesis using False FindRecord_none [OF ok s] s by (simp add: HeaderPage_GetRootId_def name_ok_def Let_def)
qed

interpretation hp: record_array header_ok records MAX_RECORDS False name_ok root_id_ok
  "\<lambda>s v m. InsertRecord m s v" "\<lambda>s m. DeleteRecord m s" "\<lambda>s v m. UpdateRecord m s v" "\<lambda>s m. HeaderPage_GetRootId m s"
proof unfold_locales
  fix m s v
  assume ok: "header_ok m"
  show "distinct (map fst (records m))" using header_okD [OF ok] by simp
  assume s: "name_ok s"
  show "HeaderPage_GetRootId m s = Inr (map_of (records m) s)" by (rule GetRootId_record [OF ok s])
  show "InsertRecord m s v = Inr (False, m)" if "root_id_ok v" "s \<in> fst ` set (records m)"
    using that s FindRecord_none [OF ok s] by (simp add: InsertRecord_def name_ok_def root_id_ok_def INVALID_PAGE_ID_def Let_def)
  show "DeleteRecord m s = Inr (False, m)" if "s \<notin> fst ` set (records m)" "False \<or> records m \<noteq> []"
  proof -
    have "0 < GetRecordCount m" using that(2) by (simp add: records_def)
    then show ?thesis using that FindRecord_none [OF ok s] by (simp add: DeleteRecord_def Let_def)
  qed
  show "UpdateRecord m s v = Inr (False, m)" if "s \<notin> fst ` set (records m)"
    using that s FindRecord_none [OF ok s] by (simp add: UpdateRecord_def name_ok_def Let_def)
qed (use InsertRecord_new DeleteRecord_present UpdateRecord_present in auto)

section \<open>Properties\<close>

abbreviation header_impl :: "(string, page_id, mem) dir_impl" where
  "header_impl \<equiv> (\<lambda>s v m. InsertRecord m s v, \<lambda>s m. DeleteRecord m s, \<lambda>s v m. UpdateRecord m s v)"

lemma Init_header: "header_ok (HeaderPage_Init m)" "records (HeaderPage_Init m) = []"
  by (simp_all add: header_ok_def records_def HeaderPage_Init_def SetRecordCount_def GetRecordCount_def mem_simps)

text \<open>
  C28. The header page is a map from names to root page ids: after \<^verbatim>\<open>Init\<close>, every sequence of operations with
  names of fewer than 32 characters, none of them NUL, and non-negative root ids that stays within 113 records and
  deletes only from a non-empty page passes all assertions and returns what the map returns, and \<^verbatim>\<open>GetRootId\<close>
  looks up the map. What is excluded fails an assertion at any point of such a sequence: a deletion once
  the page is empty, a longer name, and the insertion of a negative root id.
\<close>

theorem header_page_refines_map:
  assumes "run_ok name_ok root_id_ok MAX_RECORDS False ops Map.empty"
  shows "\<exists>m'. impl_run header_impl ops (HeaderPage_Init m) = Inr (fst (map_run ops Map.empty), m') \<and> header_ok m' \<and>
    (\<forall>s. name_ok s \<longrightarrow> HeaderPage_GetRootId m' s = Inr (snd (map_run ops Map.empty) s)) \<and>
    (\<forall>s. snd (map_run ops Map.empty) = Map.empty \<longrightarrow> DeleteRecord m' s = Inl AssertFailed) \<and>
    (\<forall>s v. 32 \<le> length s \<longrightarrow> InsertRecord m' s v = Inl AssertFailed \<and> UpdateRecord m' s v = Inl AssertFailed \<and>
       HeaderPage_GetRootId m' s = Inl AssertFailed) \<and> (\<forall>s v. v < 0 \<longrightarrow> InsertRecord m' s v = Inl AssertFailed)"
proof -
  obtain m' where m': "impl_run header_impl ops (HeaderPage_Init m) = Inr (fst (map_run ops Map.empty), m')" "header_ok m'"
    "map_of (records m') = snd (map_run ops Map.empty)" "\<forall>s. name_ok s \<longrightarrow> HeaderPage_GetRootId m' s = Inr (snd (map_run ops Map.empty) s)"
    using hp.dir.run_refines_map [OF Init_header(1), of ops m] assms by (simp add: Init_header(2)) blast
  have "DeleteRecord m' s = Inl AssertFailed" if "snd (map_run ops Map.empty) = Map.empty" for s
  proof -
    have "records m' = []" using m'(3) that by (simp add: map_of_eq_empty_iff)
    then have "\<not> 0 < GetRecordCount m'" by (simp add: records_def)
    then show ?thesis by (simp add: DeleteRecord_def Let_def)
  qed
  moreover have "InsertRecord m' s v = Inl AssertFailed \<and> UpdateRecord m' s v = Inl AssertFailed \<and> HeaderPage_GetRootId m' s = Inl AssertFailed"
    if "32 \<le> length s" for s v using that by (simp add: InsertRecord_def UpdateRecord_def HeaderPage_GetRootId_def)
  moreover have "InsertRecord m' s v = Inl AssertFailed" if "v < 0" for s v
    using that by (cases "length s < 32") (simp_all add: InsertRecord_def INVALID_PAGE_ID_def)
  ultimately show ?thesis using m'(1,2,4) by blast
qed

theorem header_page_refines_map_witness:
  "\<exists>m'. impl_run header_impl [Ins ''t1'' 3, Ins ''t2'' 4, Del ''t1'', Upd ''t2'' 9] (HeaderPage_Init zero_mem) =
      Inr ([True, True, True, True], m') \<and> HeaderPage_GetRootId m' ''t2'' = Inr (Some 9) \<and> HeaderPage_GetRootId m' ''t1'' = Inr None \<and>
      InsertRecord m' ''t3'' (- 1) = Inl AssertFailed"
  using header_page_refines_map [of "[Ins ''t1'' 3, Ins ''t2'' 4, Del ''t1'', Upd ''t2'' 9]" zero_mem]
  by (auto simp: name_ok_def root_id_ok_def MAX_RECORDS_def PAGE_SIZE_def)

end
