(* ===== verification/Syntax_Tree.thy ===== *)
theory Syntax_Tree
  imports Minisql_Prelude
begin

text \<open>
  The abstract syntax tree as the parser builds it: src/MiniSQL/src/parser/syntax_tree.c and parser.c
  with include/parser/syntax_tree.h. Nodes live in an explicit store (a map from addresses to nodes), so
  that the destructive updates of the sibling lists are those of the code: \<^verbatim>\<open>malloc\<close> takes the next
  unused address, a freed node is no longer in the store and reading it is \<open>Undefined\<close>. The file-scope
  variables of parser.c are the other fields of the parser's state. The walks along a sibling list may
  run forever on a cyclic list, so the operations that walk return \<open>None\<close> when they do not return.
  \<^verbatim>\<open>CreateSyntaxNode\<close> writes a terminating byte one past the block it asked for. What \<^verbatim>\<open>malloc\<close> really hands
  out is not part of the program: \<open>block_size\<close> says how many bytes the block has that it returns for a
  size, and a byte written past them is \<open>Undefined\<close>. Line, column and node numbers are unbounded integers.
\<close>

section \<open>Nodes and the state of the parser\<close>

datatype SyntaxNodeType = kNodeUnknown | kNodeQuit | kNodeExecFile | kNodeIdentifier | kNodeNumber
  | kNodeString | kNodeNull | kNodeCreateDB | kNodeDropDB | kNodeShowDB | kNodeUseDB | kNodeShowTables
  | kNodeCreateTable | kNodeDropTable | kNodeShowIndexes | kNodeInsert | kNodeDelete | kNodeUpdate
  | kNodeSelect | kNodeConditions | kNodeConnector | kNodeCompareOperator | kNodeColumnType
  | kNodeColumnDefinition | kNodeColumnDefinitionList | kNodeColumnList | kNodeColumnValues
  | kNodeUpdateValues | kNodeUpdateValue | kNodeAllColumns | kNodeCreateIndex | kNodeDropIndex
  | kNodeIndexType | kNodeTrxBegin | kNodeTrxCommit | kNodeTrxRollback

type_synonym node_ptr = "nat option"

record SyntaxNode =
  n_id :: int
  n_type :: SyntaxNodeType
  n_line :: int
  n_col :: int
  n_child :: node_ptr
  n_next :: node_ptr
  n_val :: "string option"

type_synonym node_store = "nat \<rightharpoonup> SyntaxNode"

text \<open>A message is a literal of the program, or an array of a function that has returned and must not be read any more.\<close>

datatype message = Literal string | Local string

text \<open>
  \<open>node_list\<close> is the list of all nodes (newest first) that \<^verbatim>\<open>minisql_parser_syntax_node_list_\<close> points
  to; \<open>list_cells\<close> counts the list cells allocated and not freed.
\<close>

record parser_state =
  store :: node_store
  next_addr :: nat
  root_node :: node_ptr
  node_list :: "nat list"
  list_cells :: nat
  line_no :: int
  column_no :: int
  error_flag :: int
  error_message :: "message option"
  debug_node_count :: int
  block_size :: "nat \<Rightarrow> nat"

definition parser_globals :: "(nat \<Rightarrow> nat) \<Rightarrow> parser_state" where
  "parser_globals m = \<lparr>store = Map.empty, next_addr = 0, root_node = None, node_list = [], list_cells = 0,
     line_no = 0, column_no = 0, error_flag = 0, error_message = None, debug_node_count = 0, block_size = m\<rparr>"

section \<open>Operations on nodes\<close>

definition node_value :: "SyntaxNodeType \<Rightarrow> string option \<Rightarrow> string option res" where
  "node_value ty v = (case v of
     None \<Rightarrow> Inr None
   | Some s \<Rightarrow> if ty = kNodeString
               then (if length s < 2 then Inl Undefined else Inr (Some (take (length s - 2) (tl s))))
               else Inr (Some s))"

text \<open>
  Whether the copy of a value stays in its block. A string without its quotes does; every other value takes
  \<^verbatim>\<open>strlen(val) + 1\<close> bytes and one more, which is not asked for.
\<close>

definition copy_fits :: "(nat \<Rightarrow> nat) \<Rightarrow> SyntaxNodeType \<Rightarrow> string option \<Rightarrow> bool" where
  "copy_fits m ty v = (case v of None \<Rightarrow> True
     | Some s \<Rightarrow> ty = kNodeString \<or> (let len = length s + 1 in len < m len))"

definition CreateSyntaxNode :: "parser_state \<Rightarrow> SyntaxNodeType \<Rightarrow> string option \<Rightarrow>
    (node_ptr \<times> parser_state) res" where
  "CreateSyntaxNode st ty v = res_bind (node_value ty v) (\<lambda>nv.
     if \<not> copy_fits (block_size st) ty v then Inl Undefined else
     let a = next_addr st;
         node = \<lparr>n_id = debug_node_count st, n_type = ty, n_line = line_no st, n_col = column_no st,
                 n_child = None, n_next = None, n_val = nv\<rparr>
     in Inr (Some a, st\<lparr>store := (store st)(a \<mapsto> node), next_addr := a + 1,
                        debug_node_count := debug_node_count st + 1,
                        node_list := a # node_list st, list_cells := list_cells st + 1\<rparr>))"

definition deref :: "node_store \<Rightarrow> nat \<Rightarrow> SyntaxNode res" where
  "deref h a = (case h a of None \<Rightarrow> Inl Undefined | Some n \<Rightarrow> Inr n)"

fun FreeSyntaxNode :: "parser_state \<Rightarrow> node_ptr \<Rightarrow> parser_state res" where
  "FreeSyntaxNode st None = Inr st"
| "FreeSyntaxNode st (Some a) = res_bind (deref (store st) a) (\<lambda>_. Inr (st\<lparr>store := (store st)(a := None)\<rparr>))"

fun free_nodes :: "parser_state \<Rightarrow> nat list \<Rightarrow> parser_state res" where
  "free_nodes st [] = Inr st"
| "free_nodes st (p # ps) = res_bind (FreeSyntaxNode st (Some p)) (\<lambda>st'. free_nodes st' ps)"

definition DestroySyntaxTree :: "parser_state \<Rightarrow> parser_state res" where
  "DestroySyntaxTree st = res_bind (free_nodes st (node_list st)) (\<lambda>st'. Inr (st'\<lparr>node_list := []\<rparr>))"

partial_function (option) last_sibling :: "node_store \<Rightarrow> nat \<Rightarrow> nat res option" where
  "last_sibling h p = (case h p of
     None \<Rightarrow> Some (Inl Undefined)
   | Some n \<Rightarrow> (case n_next n of None \<Rightarrow> Some (Inr p) | Some q \<Rightarrow> last_sibling h q))"

definition link_next :: "parser_state \<Rightarrow> nat \<Rightarrow> node_ptr \<Rightarrow> parser_state res" where
  "link_next st p q = res_bind (deref (store st) p) (\<lambda>n.
     Inr (st\<lparr>store := (store st)(p \<mapsto> n\<lparr>n_next := q\<rparr>)\<rparr>))"

text \<open>The end of the walk: \<^verbatim>\<open>p->next_ = q\<close> at the last node of the list that starts at \<open>p\<close>.\<close>

definition append_to_last :: "parser_state \<Rightarrow> nat \<Rightarrow> node_ptr \<Rightarrow> parser_state res option" where
  "append_to_last st p q =
     Option.bind (last_sibling (store st) p) (\<lambda>r. Some (res_bind r (\<lambda>l. link_next st l q)))"

definition SyntaxNodeAddChildren :: "parser_state \<Rightarrow> node_ptr \<Rightarrow> node_ptr \<Rightarrow> parser_state res option" where
  "SyntaxNodeAddChildren st parent child = (case parent of
     None \<Rightarrow> Some (Inl NullDeref)
   | Some a \<Rightarrow> (case store st a of
       None \<Rightarrow> Some (Inl Undefined)
     | Some n \<Rightarrow> (case n_child n of
         None \<Rightarrow> Some (Inr (st\<lparr>store := (store st)(a \<mapsto> n\<lparr>n_child := child\<rparr>)\<rparr>))
       | Some p \<Rightarrow> append_to_last st p child)))"

definition SyntaxNodeAddSibling :: "parser_state \<Rightarrow> node_ptr \<Rightarrow> node_ptr \<Rightarrow> parser_state res option" where
  "SyntaxNodeAddSibling st node sib = (case node of
     None \<Rightarrow> Some (Inr st)
   | Some a \<Rightarrow> if sib = None then Some (Inr st)
     else (case store st a of
       None \<Rightarrow> Some (Inl Undefined)
     | Some n \<Rightarrow> (case n_next n of
         None \<Rightarrow> Some (link_next st a sib)
       | Some p \<Rightarrow> append_to_last st p sib)))"

fun GetSyntaxNodeTypeStr :: "SyntaxNodeType \<Rightarrow> string" where
  "GetSyntaxNodeTypeStr kNodeUnknown = ''kNodeUnknown''"
| "GetSyntaxNodeTypeStr kNodeQuit = ''kNodeQuit''"
| "GetSyntaxNodeTypeStr kNodeExecFile = ''kNodeExecFile''"
| "GetSyntaxNodeTypeStr kNodeIdentifier = ''kNodeIdentifier''"
| "GetSyntaxNodeTypeStr kNodeNumber = ''kNodeNumber''"
| "GetSyntaxNodeTypeStr kNodeString = ''kNodeString''"
| "GetSyntaxNodeTypeStr kNodeNull = ''kNodeNull''"
| "GetSyntaxNodeTypeStr kNodeCreateDB = ''kNodeCreateDB''"
| "GetSyntaxNodeTypeStr kNodeDropDB = ''kNodeDropDB''"
| "GetSyntaxNodeTypeStr kNodeShowDB = ''kNodeShowDB''"
| "GetSyntaxNodeTypeStr kNodeUseDB = ''kNodeUseDB''"
| "GetSyntaxNodeTypeStr kNodeShowTables = ''kNodeShowTables''"
| "GetSyntaxNodeTypeStr kNodeCreateTable = ''kNodeCreateTable''"
| "GetSyntaxNodeTypeStr kNodeDropTable = ''kNodeDropTable''"
| "GetSyntaxNodeTypeStr kNodeShowIndexes = ''kNodeShowIndexes''"
| "GetSyntaxNodeTypeStr kNodeInsert = ''kNodeInsert''"
| "GetSyntaxNodeTypeStr kNodeDelete = ''kNodeDelete''"
| "GetSyntaxNodeTypeStr kNodeUpdate = ''kNodeUpdate''"
| "GetSyntaxNodeTypeStr kNodeSelect = ''kNodeSelect''"
| "GetSyntaxNodeTypeStr kNodeConditions = ''kNodeConditions''"
| "GetSyntaxNodeTypeStr kNodeConnector = ''kNodeConnector''"
| "GetSyntaxNodeTypeStr kNodeCompareOperator = ''kNodeCompareOperator''"
| "GetSyntaxNodeTypeStr kNodeColumnType = ''kNodeColumnType''"
| "GetSyntaxNodeTypeStr kNodeColumnDefinition = ''kNodeColumnDefinition''"
| "GetSyntaxNodeTypeStr kNodeColumnDefinitionList = ''kNodeColumnDefinitionList''"
| "GetSyntaxNodeTypeStr kNodeColumnList = ''kNodeColumnList''"
| "GetSyntaxNodeTypeStr kNodeColumnValues = ''kNodeColumnValues''"
| "GetSyntaxNodeTypeStr kNodeUpdateValues = ''kNodeUpdateValues''"
| "GetSyntaxNodeTypeStr kNodeUpdateValue = ''kNodeUpdateValue''"
| "GetSyntaxNodeTypeStr kNodeAllColumns = ''kNodeAllColumns''"
| "GetSyntaxNodeTypeStr kNodeCreateIndex = ''kNodeCreateIndex''"
| "GetSyntaxNodeTypeStr kNodeDropIndex = ''kNodeDropIndex''"
| "GetSyntaxNodeTypeStr kNodeTrxBegin = ''kNodeTrxBegin''"
| "GetSyntaxNodeTypeStr kNodeTrxCommit = ''kNodeTrxCommit''"
| "GetSyntaxNodeTypeStr kNodeTrxRollback = ''kNodeTrxRollback''"
| "GetSyntaxNodeTypeStr kNodeIndexType = ''error type''"

section \<open>The parser's globals\<close>

definition move_char :: "char \<Rightarrow> parser_state \<Rightarrow> parser_state" where
  "move_char ch st =
     (if ch = CHR 0x0A then st\<lparr>column_no := 0, line_no := line_no st + 1\<rparr>
      else if ch = CHR 0x09 then st\<lparr>column_no := column_no st + (4 - column_no st mod 4)\<rparr>
      else st\<lparr>column_no := column_no st + 1\<rparr>)"

definition MinisqlParserMovePos :: "parser_state \<Rightarrow> string \<Rightarrow> parser_state" where
  "MinisqlParserMovePos st txt = fold move_char txt st"

definition MinisqlParserSetRoot :: "parser_state \<Rightarrow> node_ptr \<Rightarrow> parser_state" where
  "MinisqlParserSetRoot st node = st\<lparr>root_node := node\<rparr>"

definition MinisqlParserSetError :: "parser_state \<Rightarrow> message \<Rightarrow> parser_state" where
  "MinisqlParserSetError st msg =
     (if error_flag st \<noteq> 0 then st else st\<lparr>error_flag := 1, error_message := Some msg\<rparr>)"

definition MinisqlGetParserRootNode :: "parser_state \<Rightarrow> node_ptr" where
  "MinisqlGetParserRootNode st = root_node st"

definition MinisqlParserInit :: "parser_state \<Rightarrow> parser_state" where
  "MinisqlParserInit st = st\<lparr>root_node := None, line_no := 1, column_no := 0, error_flag := 0,
     error_message := None, debug_node_count := 0\<rparr>"

definition MinisqlParserFinish :: "parser_state \<Rightarrow> parser_state res" where
  "MinisqlParserFinish st = DestroySyntaxTree st"

definition MinisqlParserGetError :: "parser_state \<Rightarrow> int" where
  "MinisqlParserGetError st = error_flag st"

definition MinisqlParserGetErrorMessage :: "parser_state \<Rightarrow> message option" where
  "MinisqlParserGetErrorMessage st = error_message st"

section \<open>What a pointer represents\<close>

text \<open>
  A node pointer stands for the list of trees made of the node, its following siblings and their
  children; the null pointer for the empty list. \<open>forest h p ts A\<close>: in the store \<open>h\<close> the pointer
  \<open>p\<close> represents the trees \<open>ts\<close>, which occupy exactly the addresses \<open>A\<close>, without sharing.
\<close>

datatype ast = Node (ast_type: SyntaxNodeType) (ast_val: "string option") (ast_kids: "ast list")

inductive forest :: "node_store \<Rightarrow> node_ptr \<Rightarrow> ast list \<Rightarrow> nat set \<Rightarrow> bool" for h where
  empty: "forest h None [] {}"
| node: "h a = Some n \<Longrightarrow> forest h (n_child n) cs A \<Longrightarrow> forest h (n_next n) ts B \<Longrightarrow>
    a \<notin> A \<Longrightarrow> a \<notin> B \<Longrightarrow> A \<inter> B = {} \<Longrightarrow>
    forest h (Some a) (Node (n_type n) (n_val n) cs # ts) (insert a (A \<union> B))"

inductive_cases forest_NoneE: "forest h None ts A"
inductive_cases forest_SomeE: "forest h (Some a) ts A"
inductive_cases forest_NilE: "forest h p [] A"
inductive_cases forest_ConsE: "forest h p (t # ts) A"

lemma forest_None_iff: "forest h None ts A \<longleftrightarrow> ts = [] \<and> A = {}"
  by (auto elim: forest_NoneE intro: forest.empty)

lemma forest_Nil_iff: "forest h p [] A \<longleftrightarrow> p = None \<and> A = {}"
  by (auto elim: forest_NilE intro: forest.empty)

lemma forest_dom: "forest h p ts A \<Longrightarrow> A \<subseteq> dom h"
  by (induction rule: forest.induct) auto

lemma forest_frame: "forest h p ts A \<Longrightarrow> (\<And>a. a \<in> A \<Longrightarrow> h' a = h a) \<Longrightarrow> forest h' p ts A"
  by (induction rule: forest.induct) (auto intro: forest.intros)

lemma forest_upd_outside: "forest h p ts A \<Longrightarrow> a \<notin> A \<Longrightarrow> forest (h(a := x)) p ts A"
  by (erule forest_frame) (metis fun_upd_other)

lemma forest_fun: "forest h p ts A \<Longrightarrow> forest h p us B \<Longrightarrow> ts = us \<and> A = B"
proof (induction arbitrary: us B rule: forest.induct)
  case empty
  then show ?case by (auto elim: forest_NoneE)
next
  case (node a n cs A ts B)
  from node.prems show ?case
    by (rule forest_SomeE) (use node.IH node.hyps in auto)
qed

text \<open>
  Linking a list of trees behind the last sibling: the walk ends, and the list it started from is
  extended.
\<close>

lemma forest_append:
  assumes "forest h (Some p) ts A" "forest h q us B" "A \<inter> B = {}"
  shows "\<exists>l n. last_sibling h p = Some (Inr l) \<and> l \<in> A \<and> h l = Some n \<and>
    forest (h(l \<mapsto> n\<lparr>n_next := q\<rparr>)) (Some p) (ts @ us) (A \<union> B)"
  using assms(1,3)
proof (induction "Some p" ts A arbitrary: p rule: forest.induct)
  case (node a n cs A ts C)
  show ?case
  proof (cases "n_next n")
    case None
    with node.hyps have e: "ts = []" "C = {}" by (auto simp: forest_None_iff)
    let ?h = "h(a \<mapsto> n\<lparr>n_next := q\<rparr>)"
    have "forest ?h (n_child (n\<lparr>n_next := q\<rparr>)) cs A" "forest ?h (n_next (n\<lparr>n_next := q\<rparr>)) us B"
      using node.hyps(2,6) node.prems assms(2) by (auto intro!: forest_upd_outside)
    then have "forest ?h (Some a) (Node (n_type n) (n_val n) cs # us) (insert a (A \<union> B))"
      using forest.node [of ?h a "n\<lparr>n_next := q\<rparr>" cs A us B] node.hyps(6) node.prems by auto
    moreover have "last_sibling h a = Some (Inr a)"
      using node.hyps(1) None by (simp add: last_sibling.simps)
    ultimately show ?thesis using node.hyps(1) e by auto
  next
    case (Some r)
    have "C \<inter> B = {}" using node.prems by auto
    from node.hyps(5) [OF Some this] obtain l m where
      l: "last_sibling h r = Some (Inr l)" "l \<in> C" "h l = Some m"
        "forest (h(l \<mapsto> m\<lparr>n_next := q\<rparr>)) (n_next n) (ts @ us) (C \<union> B)"
      unfolding Some by (elim exE conjE)
    let ?h = "h(l \<mapsto> m\<lparr>n_next := q\<rparr>)"
    have "forest ?h (n_child n) cs A"
      using node.hyps(2,8) l(2) by (auto intro: forest_upd_outside)
    then have "forest ?h (Some a) (Node (n_type n) (n_val n) cs # (ts @ us)) (insert a (A \<union> (C \<union> B)))"
      using l node.hyps(1,6,7,8) node.prems by (intro forest.node) auto
    moreover have "last_sibling h a = Some (Inr l)"
      using node.hyps(1) Some l(1) by (simp add: last_sibling.simps)
    ultimately show ?thesis using l by (auto simp: Un_ac)
  qed
qed

definition only_store :: "parser_state \<Rightarrow> parser_state \<Rightarrow> nat set \<Rightarrow> bool" where
  "only_store st st' A \<longleftrightarrow> (\<exists>h. st' = st\<lparr>store := h\<rparr> \<and> dom h = dom (store st) \<and>
     (\<forall>a. a \<notin> A \<longrightarrow> h a = store st a))"

lemma only_store_upd:
  "store st l = Some n \<Longrightarrow> l \<in> A \<Longrightarrow> only_store st (st\<lparr>store := (store st)(l \<mapsto> m)\<rparr>) A"
  unfolding only_store_def by (rule exI [of _ "(store st)(l \<mapsto> m)"]) (auto simp: dom_def)

lemma append_to_last_forest:
  assumes "forest (store st) (Some p) ts A" "forest (store st) q us B" "A \<inter> B = {}"
  shows "\<exists>st'. append_to_last st p q = Some (Inr st') \<and> forest (store st') (Some p) (ts @ us) (A \<union> B) \<and>
    only_store st st' A"
proof -
  from forest_append [OF assms] obtain l n where
    l: "last_sibling (store st) p = Some (Inr l)" "l \<in> A" "store st l = Some n"
      "forest ((store st)(l \<mapsto> n\<lparr>n_next := q\<rparr>)) (Some p) (ts @ us) (A \<union> B)" by blast
  then have "append_to_last st p q = Some (Inr (st\<lparr>store := (store st)(l \<mapsto> n\<lparr>n_next := q\<rparr>)\<rparr>))"
    by (simp add: append_to_last_def link_next_def deref_def)
  then show ?thesis using l only_store_upd [OF l(3,2)] by simp
qed

text \<open>Adding children appends their trees to the trees of the parent's children.\<close>

lemma AddChildren_forest:
  assumes "forest (store st) (Some p) (Node ty v cs # ts) A" "forest (store st) q us B" "A \<inter> B = {}"
  shows "\<exists>st'. SyntaxNodeAddChildren st (Some p) q = Some (Inr st') \<and>
    forest (store st') (Some p) (Node ty v (cs @ us) # ts) (A \<union> B) \<and> only_store st st' A"
  using assms(1)
proof (rule forest_SomeE)
  fix n cs' A' ts' C
  assume eq: "Node ty v cs # ts = Node (n_type n) (n_val n) cs' # ts'"
    and A: "A = insert p (A' \<union> C)" and n: "store st p = Some n"
    and c: "forest (store st) (n_child n) cs' A'" and t: "forest (store st) (n_next n) ts' C"
    and d: "p \<notin> A'" "p \<notin> C" "A' \<inter> C = {}"
  show ?thesis
  proof (cases "n_child n")
    case None
    with c have e: "cs' = []" "A' = {}" by (auto simp: forest_None_iff)
    let ?h = "(store st)(p \<mapsto> n\<lparr>n_child := q\<rparr>)"
    have "forest ?h (n_child (n\<lparr>n_child := q\<rparr>)) us B" "forest ?h (n_next (n\<lparr>n_child := q\<rparr>)) ts' C"
      using assms(2,3) t d A by (auto intro!: forest_upd_outside)
    then have "forest ?h (Some p) (Node ty v us # ts) (insert p (B \<union> C))"
      using forest.node [of ?h p "n\<lparr>n_child := q\<rparr>" us B ts' C] d eq A assms(3) by auto
    moreover have "SyntaxNodeAddChildren st (Some p) q = Some (Inr (st\<lparr>store := ?h\<rparr>))"
      using n None by (simp add: SyntaxNodeAddChildren_def)
    moreover have "only_store st (st\<lparr>store := ?h\<rparr>) A" using n A by (intro only_store_upd) auto
    moreover have "insert p (B \<union> C) = A \<union> B" using A e by auto
    ultimately show ?thesis using e eq by auto
  next
    case (Some r)
    have "A' \<inter> B = {}" using A assms(3) by auto
    with c Some assms(2) obtain st' where st': "append_to_last st r q = Some (Inr st')"
      "forest (store st') (Some r) (cs' @ us) (A' \<union> B)" "only_store st st' A'"
      using append_to_last_forest [of st r cs' A' q us B] by auto
    have "store st' p = Some n" using st'(3) n d by (auto simp: only_store_def)
    moreover have "forest (store st') (n_next n) ts' C"
      using t by (rule forest_frame) (use st'(3) d in \<open>auto simp: only_store_def\<close>)
    ultimately have "forest (store st') (Some p) (Node ty v (cs @ us) # ts) (insert p ((A' \<union> B) \<union> C))"
      using st'(2) Some d A assms(3) eq forest.node [of "store st'" p n "cs' @ us" "A' \<union> B" ts' C] by auto
    moreover have "only_store st st' A" using st'(3) A by (auto simp: only_store_def)
    moreover have "insert p ((A' \<union> B) \<union> C) = A \<union> B" using A by auto
    ultimately show ?thesis using st'(1) n Some by (auto simp: SyntaxNodeAddChildren_def)
  qed
qed

text \<open>Adding a sibling appends its trees to the list.\<close>

lemma AddSibling_forest:
  assumes "forest (store st) (Some p) ts A" "forest (store st) q us B" "A \<inter> B = {}"
  shows "\<exists>st'. SyntaxNodeAddSibling st (Some p) q = Some (Inr st') \<and>
    forest (store st') (Some p) (ts @ us) (A \<union> B) \<and> only_store st st' A"
proof (cases q)
  case None
  then have "us = []" "B = {}" using assms(2) by (auto simp: forest_None_iff)
  then show ?thesis using None assms(1)
    by (auto simp: SyntaxNodeAddSibling_def only_store_def intro: exI [of _ "store st"])
next
  case (Some b)
  obtain n where n: "store st p = Some n" using assms(1) by (rule forest_SomeE) auto
  have "SyntaxNodeAddSibling st (Some p) q = append_to_last st p q"
    using Some n last_sibling.simps [of "store st" p]
    by (auto simp: SyntaxNodeAddSibling_def append_to_last_def link_next_def deref_def split: option.splits)
  then show ?thesis using append_to_last_forest [OF assms] by auto
qed

text \<open>
  All addresses in use lie below the next one, so that a new node shares nothing; and blocks of at most 15 bytes,
  which hold the literals of the grammar's actions, have a byte to spare.
\<close>

definition store_ok :: "parser_state \<Rightarrow> bool" where
  "store_ok st \<longleftrightarrow> dom (store st) \<subseteq> {..<next_addr st} \<and> (\<forall>n \<le> 15. n < block_size st n)"

lemma copy_fits_short: "store_ok st \<Longrightarrow> length s \<le> 14 \<Longrightarrow> copy_fits (block_size st) ty (Some s)"
  by (simp add: store_ok_def copy_fits_def Let_def)

lemma CreateSyntaxNode_forest:
  assumes "node_value ty v = Inr w" "copy_fits (block_size st) ty v"
  shows "\<exists>st'. CreateSyntaxNode st ty v = Inr (Some (next_addr st), st') \<and>
    forest (store st') (Some (next_addr st)) [Node ty w []] {next_addr st} \<and>
    (\<forall>a. a \<noteq> next_addr st \<longrightarrow> store st' a = store st a) \<and> (store_ok st \<longrightarrow> store_ok st')"
proof -
  let ?a = "next_addr st"
  let ?n = "\<lparr>n_id = debug_node_count st, n_type = ty, n_line = line_no st, n_col = column_no st,
             n_child = None, n_next = None, n_val = w\<rparr>"
  have "forest ((store st)(?a \<mapsto> ?n)) (Some ?a) [Node ty w []] {?a}"
    using forest.node [of "(store st)(?a \<mapsto> ?n)" ?a ?n "[]" "{}" "[]" "{}"] by (simp add: forest.empty)
  then show ?thesis using assms
    by (auto simp: CreateSyntaxNode_def Let_def store_ok_def)
qed

end
