(* ===== verification/Parser_Actions.thy ===== *)
theory Parser_Actions
  imports Syntax_Tree
begin

text \<open>
  What the scanner and the parser do to the syntax tree: the actions of the scanner's rules
  (src/MiniSQL/src/parser/minisql_lex.c, generated from include/parser/minisql.l) and the semantic
  actions of the grammar's 76 rules (the switch of \<^verbatim>\<open>yyparse\<close> in parser/minisql_yacc.c, generated from
  include/parser/minisql.y). An action is straight-line code over the values \<^verbatim>\<open>$$\<close>, \<^verbatim>\<open>$1\<close>,
  \<^verbatim>\<open>$2\<close>, \<dots> and its local variables, and is written as the list of its statements. Which rule is
  reduced when is decided by the generated tables (\<open>Lalr_Tables\<close>, \<open>Yyparse\<close>). The value of a token without
  one is whatever \<^verbatim>\<open>yylval\<close> held. The result is that a reduction whose action means something on
  lists of trees does exactly that to the nodes, without touching those of the values that stay.
\<close>

section \<open>Scanner actions\<close>

datatype token = TString string | TIdentifier string | TNumber string | TPlain string

datatype lexeme = Token token | Blank string | Unrecognized string

fun token_text :: "token \<Rightarrow> string" where
  "token_text (TString s) = s"
| "token_text (TIdentifier s) = s"
| "token_text (TNumber s) = s"
| "token_text (TPlain s) = s"

fun token_node :: "token \<Rightarrow> SyntaxNodeType option" where
  "token_node (TString s) = Some kNodeString"
| "token_node (TIdentifier s) = Some kNodeIdentifier"
| "token_node (TNumber s) = Some kNodeNumber"
| "token_node (TPlain s) = None"

record yacc =
  value_stack :: "node_ptr list"
  yylval :: node_ptr
  parser :: parser_state

fun lex_action :: "lexeme \<Rightarrow> yacc \<Rightarrow> yacc res" where
  "lex_action (Token t) y =
     (let st = MinisqlParserMovePos (parser y) (token_text t)
      in case token_node t of
           None \<Rightarrow> Inr (y\<lparr>parser := st\<rparr>)
         | Some ty \<Rightarrow> res_bind (CreateSyntaxNode st ty (Some (token_text t))) (\<lambda>(p, st').
             Inr (y\<lparr>yylval := p, parser := st'\<rparr>)))"
| "lex_action (Blank s) y = Inr (y\<lparr>parser := MinisqlParserMovePos (parser y) s\<rparr>)"
| "lex_action (Unrecognized s) y = Inr (y\<lparr>parser := MinisqlParserSetError (parser y)
     (Local (''Unrecognized token ['' @ s @ ''] in input sql.''))\<rparr>)"

section \<open>Semantic actions\<close>

datatype reg = Res | Arg nat | Loc nat

datatype stmt =
    Copy reg reg
  | Create reg SyntaxNodeType "string option"
  | AddChildren reg reg
  | AddSibling reg reg
  | SetRoot reg

text \<open>\<^verbatim>\<open>start\<close> and \<^verbatim>\<open>sql\<close> (rules 2 to 21).\<close>

definition sql_actions :: "(nat \<times> stmt list) list" where
  "sql_actions = (2, [Copy Res (Arg 1), SetRoot Res]) # map (\<lambda>n. (n, [Copy Res (Arg 1)])) [3..<22]"

text \<open>Databases, tables and indexes (rules 22 to 42).\<close>

definition ddl_actions :: "(nat \<times> stmt list) list" where
  "ddl_actions =
    [(22, [Create Res kNodeCreateDB None, AddChildren Res (Arg 3)]),
     (23, [Create Res kNodeDropDB None, AddChildren Res (Arg 3)]),
     (24, [Create Res kNodeShowDB None]),
     (25, [Create Res kNodeUseDB None, AddChildren Res (Arg 2)]),
     (26, [Create Res kNodeShowTables None]),
     (27, [Create Res kNodeCreateTable None, Create (Loc 0) kNodeColumnDefinitionList None,
           AddChildren (Loc 0) (Arg 5), AddChildren Res (Arg 3), AddChildren Res (Loc 0)]),
     (28, [Copy Res (Arg 1), AddSibling Res (Arg 3)]),
     (29, [Copy Res (Arg 1)]),
     (30, [Copy Res (Arg 1), AddSibling Res (Arg 3)]),
     (31, [Copy Res (Arg 1)]),
     (32, [Create Res kNodeColumnList (Some ''primary keys''), AddChildren Res (Arg 4)]),
     (33, [Create Res kNodeColumnDefinition (Some ''unique''), AddChildren Res (Arg 1), AddChildren Res (Arg 2)]),
     (34, [Create Res kNodeColumnDefinition None, AddChildren Res (Arg 1), AddChildren Res (Arg 2)]),
     (35, [Create Res kNodeColumnType (Some ''int'')]),
     (36, [Create Res kNodeColumnType (Some ''float'')]),
     (37, [Create Res kNodeColumnType (Some ''char''), AddChildren Res (Arg 3)]),
     (38, [Create Res kNodeDropTable None, AddChildren Res (Arg 3)]),
     (39, [Create Res kNodeCreateIndex None, AddChildren Res (Arg 3), AddChildren Res (Arg 5),
           Create (Loc 0) kNodeColumnList (Some ''index keys''), AddChildren (Loc 0) (Arg 7),
           AddChildren Res (Loc 0)]),
     (40, [Create Res kNodeCreateIndex None, AddChildren Res (Arg 3), AddChildren Res (Arg 5),
           Create (Loc 0) kNodeColumnList (Some ''index keys''), AddChildren (Loc 0) (Arg 7),
           AddChildren Res (Loc 0), Create (Loc 1) kNodeIndexType (Some ''index type''),
           AddChildren (Loc 1) (Arg 10), AddChildren Res (Loc 1)]),
     (41, [Create Res kNodeDropIndex None, AddChildren Res (Arg 3)]),
     (42, [Create Res kNodeShowIndexes None])]"

text \<open>Queries and their conditions (rules 43 to 62).\<close>

definition query_actions :: "(nat \<times> stmt list) list" where
  "query_actions =
    [(43, [Create Res kNodeSelect None, AddChildren Res (Arg 2), AddChildren Res (Arg 4)]),
     (44, [Create Res kNodeSelect None, AddChildren Res (Arg 2), AddChildren Res (Arg 4),
           Create (Loc 0) kNodeConditions None, AddChildren (Loc 0) (Arg 6), AddChildren Res (Loc 0)]),
     (45, [Create Res kNodeAllColumns None]),
     (46, [Create Res kNodeColumnList (Some ''select columns''), AddChildren Res (Arg 1)]),
     (47, [Copy Res (Arg 2), AddChildren Res (Arg 1), AddChildren Res (Arg 3)]),
     (48, [Copy Res (Arg 1)]),
     (49, [Create Res kNodeConnector (Some ''and'')]),
     (50, [Create Res kNodeConnector (Some ''or'')]),
     (51, [Copy Res (Arg 2), AddChildren Res (Arg 1), AddChildren Res (Arg 3)]),
     (52, [Copy Res (Arg 1)]),
     (53, [Copy Res (Arg 1)]),
     (54, [Create Res kNodeNull None]),
     (55, [Create Res kNodeCompareOperator (Some ''='')]),
     (56, [Create Res kNodeCompareOperator (Some ''<>'')]),
     (57, [Create Res kNodeCompareOperator (Some ''<='')]),
     (58, [Create Res kNodeCompareOperator (Some ''>='')]),
     (59, [Create Res kNodeCompareOperator (Some ''<'')]),
     (60, [Create Res kNodeCompareOperator (Some ''>'')]),
     (61, [Create Res kNodeCompareOperator (Some ''is'')]),
     (62, [Create Res kNodeCompareOperator (Some ''not'')])]"

text \<open>Changes to rows, transactions and the remaining commands (rules 63 to 77).\<close>

definition dml_actions :: "(nat \<times> stmt list) list" where
  "dml_actions =
    [(63, [Create Res kNodeInsert None, AddChildren Res (Arg 3), Create (Loc 0) kNodeColumnValues None,
           AddChildren (Loc 0) (Arg 6), AddChildren Res (Loc 0)]),
     (64, [Copy Res (Arg 1), AddSibling Res (Arg 3)]),
     (65, [Copy Res (Arg 1)]),
     (66, [Create Res kNodeDelete None, AddChildren Res (Arg 3)]),
     (67, [Create Res kNodeDelete None, AddChildren Res (Arg 3), Create (Loc 0) kNodeConditions None,
           AddChildren (Loc 0) (Arg 5), AddChildren Res (Loc 0)]),
     (68, [Create Res kNodeUpdate None, AddChildren Res (Arg 2), Create (Loc 0) kNodeUpdateValues None,
           AddChildren (Loc 0) (Arg 4), AddChildren Res (Loc 0)]),
     (69, [Create Res kNodeUpdate None, AddChildren Res (Arg 2), Create (Loc 0) kNodeUpdateValues None,
           AddChildren (Loc 0) (Arg 4), AddChildren Res (Loc 0), Create (Loc 1) kNodeConditions None,
           AddChildren (Loc 1) (Arg 6), AddChildren Res (Loc 1)]),
     (70, [Copy Res (Arg 1), AddSibling Res (Arg 3)]),
     (71, [Copy Res (Arg 1)]),
     (72, [Create Res kNodeUpdateValue None, AddChildren Res (Arg 1), AddChildren Res (Arg 3)]),
     (73, [Create Res kNodeTrxBegin None]),
     (74, [Create Res kNodeTrxCommit None]),
     (75, [Create Res kNodeTrxRollback None]),
     (76, [Create Res kNodeQuit None]),
     (77, [Create Res kNodeExecFile None, AddChildren Res (Arg 2)])]"

definition action :: "nat \<Rightarrow> stmt list" where
  "action n = (case map_of (sql_actions @ ddl_actions @ query_actions @ dml_actions) n of
     None \<Rightarrow> [] | Some c \<Rightarrow> c)"

text \<open>\<^verbatim>\<open>yyr2\<close>: the number of symbols on the right-hand side of each rule.\<close>

definition yyr2 :: "nat list" where
  "yyr2 = [0, 2, 2, 1, 1, 1, 1, 1, 1, 1,
           1, 1, 1, 1, 1, 1, 1, 1, 1, 1,
           1, 1, 3, 3, 2, 2, 2, 6, 3, 1,
           3, 1, 5, 3, 2, 1, 1, 4, 3, 8,
           10, 3, 2, 4, 6, 1, 1, 3, 1, 1,
           1, 3, 1, 1, 1, 1, 1, 1, 1, 1,
           1, 1, 1, 7, 3, 1, 3, 5, 4, 6,
           3, 1, 3, 1, 1, 1, 1, 2]"

fun run_stmt :: "stmt \<Rightarrow> (reg \<Rightarrow> node_ptr) \<Rightarrow> parser_state \<Rightarrow> ((reg \<Rightarrow> node_ptr) \<times> parser_state) res option" where
  "run_stmt (Copy r s) e st = Some (Inr (e(r := e s), st))"
| "run_stmt (Create r ty v) e st =
     Some (res_bind (CreateSyntaxNode st ty v) (\<lambda>(p, st'). Inr (e(r := p), st')))"
| "run_stmt (AddChildren r s) e st =
     map_option (\<lambda>m. res_bind m (\<lambda>st'. Inr (e, st'))) (SyntaxNodeAddChildren st (e r) (e s))"
| "run_stmt (AddSibling r s) e st =
     map_option (\<lambda>m. res_bind m (\<lambda>st'. Inr (e, st'))) (SyntaxNodeAddSibling st (e r) (e s))"
| "run_stmt (SetRoot r) e st = Some (Inr (e, MinisqlParserSetRoot st (e r)))"

fun run_code :: "stmt list \<Rightarrow> (reg \<Rightarrow> node_ptr) \<Rightarrow> parser_state \<Rightarrow> ((reg \<Rightarrow> node_ptr) \<times> parser_state) res option" where
  "run_code [] e st = Some (Inr (e, st))"
| "run_code (c # cs) e st = (case run_stmt c e st of
     None \<Rightarrow> None
   | Some (Inl x) \<Rightarrow> Some (Inl x)
   | Some (Inr (e', st')) \<Rightarrow> run_code cs e' st')"

text \<open>
  A reduction: the topmost \<open>yyr2 ! n\<close> values are \<^verbatim>\<open>$1\<close>, \<^verbatim>\<open>$2\<close>, \<dots>; \<^verbatim>\<open>$$\<close> starts as \<^verbatim>\<open>$1\<close>, and
  what it is after the action replaces them.
\<close>

definition arg_values :: "'v \<Rightarrow> nat \<Rightarrow> 'v list \<Rightarrow> reg \<Rightarrow> 'v" where
  "arg_values null n vs r = (let args = rev (take (yyr2 ! n) vs) in case r of
     Arg i \<Rightarrow> if 1 \<le> i \<and> i \<le> length args then args ! (i - 1) else null
   | _ \<Rightarrow> null)"

definition yyreduce :: "nat \<Rightarrow> yacc \<Rightarrow> yacc res option" where
  "yyreduce n y = (let vs = value_stack y; e = arg_values None n vs
     in map_option (\<lambda>m. res_bind m (\<lambda>(e', st').
          Inr (y\<lparr>value_stack := e' Res # drop (yyr2 ! n) vs, parser := st'\<rparr>)))
        (run_code (action n) (e(Res := e (Arg 1))) (parser y)))"

definition yyerror :: "string \<Rightarrow> parser_state \<Rightarrow> parser_state" where
  "yyerror msg st = MinisqlParserSetError st (Literal msg)"

section \<open>The same actions on trees\<close>

text \<open>
  The specification: registers and the stack hold lists of trees, and what is handed to a parent is
  given away (\<open>None\<close>). An action that uses a value twice or hands something to a null parent has no
  meaning here.
\<close>

fun spec_stmt :: "stmt \<Rightarrow> (reg \<Rightarrow> ast list option) \<Rightarrow> (reg \<Rightarrow> ast list option) option" where
  "spec_stmt (Copy r s) F = (case F s of None \<Rightarrow> None | Some ts \<Rightarrow> Some (F(s := None, r := Some ts)))"
| "spec_stmt (Create r ty v) F =
     (case node_value ty v of Inl x \<Rightarrow> None | Inr w \<Rightarrow> Some (F(r := Some [Node ty w []])))"
| "spec_stmt (AddChildren r s) F = (case F r of
     Some (Node ty v cs # ts) \<Rightarrow> (if r = s then None else case F s of None \<Rightarrow> None
       | Some us \<Rightarrow> Some (F(s := None, r := Some (Node ty v (cs @ us) # ts))))
   | _ \<Rightarrow> None)"
| "spec_stmt (AddSibling r s) F = (case F r of
     Some (t # ts) \<Rightarrow> (if r = s then None else case F s of None \<Rightarrow> None
       | Some us \<Rightarrow> Some (F(s := None, r := Some (t # ts @ us))))
   | _ \<Rightarrow> None)"
| "spec_stmt (SetRoot r) F = Some F"

fun spec_code :: "stmt list \<Rightarrow> (reg \<Rightarrow> ast list option) \<Rightarrow> (reg \<Rightarrow> ast list option) option" where
  "spec_code [] F = Some F"
| "spec_code (c # cs) F = Option.bind (spec_stmt c F) (spec_code cs)"

definition spec_reduce :: "nat \<Rightarrow> ast list option list \<Rightarrow> ast list option list option" where
  "spec_reduce n vs = (if length vs < yyr2 ! n then None else
     Option.bind (spec_code (action n) (arg_values None n vs)) (\<lambda>F.
       case F Res of None \<Rightarrow> None | Some ts \<Rightarrow> Some (Some ts # drop (yyr2 ! n) vs)))"

section \<open>Representation of registers and of the stack\<close>

text \<open>
  \<open>owns st e F K\<close>: every owned register represents its trees, no two share a node, and none of their
  nodes is in \<open>K\<close>, the nodes of everything else.
\<close>

definition owns :: "parser_state \<Rightarrow> (reg \<Rightarrow> node_ptr) \<Rightarrow> (reg \<Rightarrow> ast list option) \<Rightarrow> nat set \<Rightarrow> bool" where
  "owns st e F K \<longleftrightarrow> store_ok st \<and> K \<subseteq> dom (store st) \<and> (\<exists>P.
     (\<forall>r ts. F r = Some ts \<longrightarrow> forest (store st) (e r) ts (P r) \<and> P r \<inter> K = {}) \<and>
     (\<forall>r s. r \<noteq> s \<longrightarrow> F r \<noteq> None \<longrightarrow> F s \<noteq> None \<longrightarrow> P r \<inter> P s = {}))"

definition same_on :: "nat set \<Rightarrow> parser_state \<Rightarrow> parser_state \<Rightarrow> bool" where
  "same_on K st st' \<longleftrightarrow> (\<forall>a \<in> K. store st' a = store st a)"

lemma only_store_ok: "only_store st st' A \<Longrightarrow> store_ok st \<Longrightarrow> store_ok st'"
  unfolding only_store_def store_ok_def by (elim exE) simp

lemma only_store_dom: "only_store st st' A \<Longrightarrow> dom (store st') = dom (store st)"
  unfolding only_store_def by (elim exE) simp

lemma only_store_same: "only_store st st' A \<Longrightarrow> A \<inter> K = {} \<Longrightarrow> same_on K st st'"
  by (auto simp: only_store_def same_on_def)

lemma only_store_forest:
  "only_store st st' A \<Longrightarrow> forest (store st) p ts B \<Longrightarrow> A \<inter> B = {} \<Longrightarrow> forest (store st') p ts B"
  by (erule forest_frame) (auto simp: only_store_def)

text \<open>A destructive step that lets \<open>r\<close> take over the trees of \<open>s\<close> keeps the representation.\<close>

lemma owns_merge:
  assumes o: "owns st e F K" and F: "F r = Some ts" "F s = Some us" "r \<noteq> s"
    and step: "\<And>A B. forest (store st) (e r) ts A \<Longrightarrow> forest (store st) (e s) us B \<Longrightarrow> A \<inter> B = {} \<Longrightarrow>
      \<exists>st'. run st = Some (Inr st') \<and> forest (store st') (e r) ws (A \<union> B) \<and> only_store st st' A"
  shows "\<exists>st'. run st = Some (Inr st') \<and> owns st' e (F(s := None, r := Some ws)) K \<and> same_on K st st'"
proof -
  from o obtain P where
    P: "\<And>q ts. F q = Some ts \<Longrightarrow> forest (store st) (e q) ts (P q) \<and> P q \<inter> K = {}" and
    D: "\<And>q q'. q \<noteq> q' \<Longrightarrow> F q \<noteq> None \<Longrightarrow> F q' \<noteq> None \<Longrightarrow> P q \<inter> P q' = {}"
    unfolding owns_def by metis
  from step [of "P r" "P s"] P [OF F(1)] P [OF F(2)] D [OF F(3)] F obtain st' where
    st': "run st = Some (Inr st')" "forest (store st') (e r) ws (P r \<union> P s)" "only_store st st' (P r)" by auto
  let ?P = "P(r := P r \<union> P s)"
  have "forest (store st') (e q) vs (?P q) \<and> ?P q \<inter> K = {}"
    if "(F(s := None, r := Some ws)) q = Some vs" for q vs
  proof (cases "q = r")
    case True
    then show ?thesis using that st'(2) P F(1,2) by auto
  next
    case False
    then have "q \<noteq> s" "F q = Some vs" using that by (auto split: if_splits)
    then show ?thesis using False P [of q vs] D [of r q] F(1) only_store_forest [OF st'(3)] by auto
  qed
  moreover have "?P q \<inter> ?P q' = {}" if "q \<noteq> q'" "(F(s := None, r := Some ws)) q \<noteq> None"
    "(F(s := None, r := Some ws)) q' \<noteq> None" for q q'
  proof -
    have "P a \<inter> P b = {}" if "a \<noteq> b" "a \<in> {q, q', r, s}" "b \<in> {q, q', r, s}" for a b
      using D [of a b] that \<open>(F(s := None, r := Some ws)) q \<noteq> None\<close>
        \<open>(F(s := None, r := Some ws)) q' \<noteq> None\<close> F by (auto split: if_splits)
    moreover have "q \<noteq> s" "q' \<noteq> s" using that F(3) by (auto split: if_splits)
    ultimately show ?thesis using that(1) F(3) by (auto 0 3 simp: Int_Un_distrib Int_Un_distrib2)
  qed
  moreover have "store_ok st'" "K \<subseteq> dom (store st')" "same_on K st st'"
    using o st'(3) P [OF F(1)] only_store_ok only_store_dom only_store_same unfolding owns_def by metis+
  ultimately have "owns st' e (F(s := None, r := Some ws)) K"
    unfolding owns_def by (intro conjI exI [of _ ?P]) blast+
  then show ?thesis using st'(1) \<open>same_on K st st'\<close> by blast
qed

lemma owns_create:
  assumes o: "owns st e F K" and v: "node_value ty v = Inr w" "copy_fits (block_size st) ty v"
  shows "\<exists>st'. CreateSyntaxNode st ty v = Inr (Some (next_addr st), st') \<and>
    owns st' (e(r := Some (next_addr st))) (F(r := Some [Node ty w []])) K \<and> same_on K st st'"
proof -
  from o obtain P where ok: "store_ok st" "K \<subseteq> dom (store st)" and
    P: "\<And>q ts. F q = Some ts \<Longrightarrow> forest (store st) (e q) ts (P q) \<and> P q \<inter> K = {}" and
    D: "\<And>q q'. q \<noteq> q' \<Longrightarrow> F q \<noteq> None \<Longrightarrow> F q' \<noteq> None \<Longrightarrow> P q \<inter> P q' = {}"
    unfolding owns_def by metis
  let ?a = "next_addr st"
  from CreateSyntaxNode_forest [OF v] obtain st' where
    c: "CreateSyntaxNode st ty v = Inr (Some ?a, st')"
      "forest (store st') (Some ?a) [Node ty w []] {?a}" "store_ok st'"
      "\<And>a. a \<noteq> ?a \<Longrightarrow> store st' a = store st a" using ok(1) by blast
  have fresh: "?a \<notin> dom (store st)" using ok(1) by (auto simp: store_ok_def)
  have q: "?a \<notin> P q" "forest (store st') (e q) ts (P q)" if "F q = Some ts" for q ts
  proof -
    have "P q \<subseteq> dom (store st)" using P [OF that] forest_dom by blast
    then show "?a \<notin> P q" using fresh by blast
    then show "forest (store st') (e q) ts (P q)"
      using P [OF that] c(4) by (metis forest_frame)
  qed
  have K: "same_on K st st'" using ok(2) fresh c(4) unfolding same_on_def by (metis subsetD)
  then have "K \<subseteq> dom (store st')" using ok(2) unfolding same_on_def by (auto simp: dom_def)
  moreover have "?a \<notin> K" using fresh ok(2) by blast
  then have "forest (store st') ((e(r := Some ?a)) q) vs ((P(r := {?a})) q) \<and> (P(r := {?a})) q \<inter> K = {}"
    if "(F(r := Some [Node ty w []])) q = Some vs" for q vs
    using that c(2) q P by (cases "q = r") auto
  moreover have "(P(r := {?a})) p \<inter> (P(r := {?a})) q = {}"
    if "p \<noteq> q" "(F(r := Some [Node ty w []])) p \<noteq> None" "(F(r := Some [Node ty w []])) q \<noteq> None" for p q
    using that D [of p q] q(1) by (auto split: if_splits)
  ultimately have "owns st' (e(r := Some ?a)) (F(r := Some [Node ty w []])) K"
    unfolding owns_def using c(3) by (intro conjI exI [of _ "P(r := {?a})"]) blast+
  then show ?thesis using c(1) K by blast
qed

lemma owns_copy:
  assumes "owns st e F K" "F s = Some ts"
  shows "owns st (e(r := e s)) (F(s := None, r := Some ts)) K"
proof -
  from assms(1) obtain P where ok: "store_ok st" "K \<subseteq> dom (store st)" and
    P: "\<And>q ts. F q = Some ts \<Longrightarrow> forest (store st) (e q) ts (P q) \<and> P q \<inter> K = {}" and
    D: "\<And>q q'. q \<noteq> q' \<Longrightarrow> F q \<noteq> None \<Longrightarrow> F q' \<noteq> None \<Longrightarrow> P q \<inter> P q' = {}"
    unfolding owns_def by metis
  have "forest (store st) ((e(r := e s)) q) vs ((P(r := P s)) q) \<and> (P(r := P s)) q \<inter> K = {}"
    if "(F(s := None, r := Some ts)) q = Some vs" for q vs
    using that P [OF assms(2)] P [of q vs] by (auto split: if_splits)
  moreover have "(P(r := P s)) p \<inter> (P(r := P s)) q = {}"
    if "p \<noteq> q" "(F(s := None, r := Some ts)) p \<noteq> None" "(F(s := None, r := Some ts)) q \<noteq> None" for p q
    using that D [of p q] D [of p s] D [of s q] assms(2) by (auto split: if_splits)
  ultimately show ?thesis
    unfolding owns_def using ok by (intro conjI exI [of _ "P(r := P s)"]) blast+
qed

lemma owns_root: "owns (MinisqlParserSetRoot st p) e F K \<longleftrightarrow> owns st e F K"
  by (simp add: owns_def MinisqlParserSetRoot_def store_ok_def)

text \<open>
  Every statement that has a meaning on trees returns and does to the store what it means. The values that
  the actions give to nodes are literals of at most 14 characters.
\<close>

fun short_value :: "stmt \<Rightarrow> bool" where
  "short_value (Create r ty v) = (case v of None \<Rightarrow> True | Some s \<Rightarrow> length s \<le> 14)"
| "short_value _ = True"

lemma action_values: "list_all short_value (action n)"
proof -
  let ?as = "sql_actions @ ddl_actions @ query_actions @ dml_actions"
  have "list_all (\<lambda>(n, cs). list_all short_value cs) ?as" by code_simp
  then have "list_all short_value cs" if "map_of ?as n = Some cs" for cs
    using map_of_SomeD [OF that] unfolding list_all_iff by (metis (mono_tags, lifting) case_prodD)
  then show ?thesis unfolding action_def by (auto split: option.split simp del: map_of_append)
qed

lemma run_stmt_refines:
  assumes "owns st e F K" "spec_stmt c F = Some F'" "short_value c"
  shows "\<exists>e' st'. run_stmt c e st = Some (Inr (e', st')) \<and> owns st' e' F' K \<and> same_on K st st'"
proof (cases c)
  case (Copy r s)
  then show ?thesis using assms owns_copy [OF assms(1)]
    by (auto simp: same_on_def split: option.splits)
next
  case (Create r ty v)
  have "store_ok st" using assms(1) by (simp add: owns_def)
  then have "copy_fits (block_size st) ty v" using assms(3) Create copy_fits_short
    by (cases v) (auto simp: copy_fits_def)
  then show ?thesis using Create assms(1,2) owns_create [OF assms(1), of ty v]
    by (fastforce split: sum.splits)
next
  case (AddChildren r s)
  then obtain ty v cs ts us where F: "F r = Some (Node ty v cs # ts)" "F s = Some us" "r \<noteq> s"
    and F': "F' = F(s := None, r := Some (Node ty v (cs @ us) # ts))"
    using assms(2) by (auto split: option.splits list.splits ast.splits if_splits)
  have "\<exists>st'. SyntaxNodeAddChildren st (e r) (e s) = Some (Inr st') \<and>
      owns st' e (F(s := None, r := Some (Node ty v (cs @ us) # ts))) K \<and> same_on K st st'"
    by (rule owns_merge [where run = "\<lambda>st. SyntaxNodeAddChildren st (e r) (e s)", OF assms(1) F])
      (use AddChildren_forest forest_None_iff in \<open>cases "e r"; fastforce\<close>)
  then show ?thesis using AddChildren F' by auto
next
  case (AddSibling r s)
  then obtain t ts us where F: "F r = Some (t # ts)" "F s = Some us" "r \<noteq> s"
    and F': "F' = F(s := None, r := Some ((t # ts) @ us))"
    using assms(2) by (auto split: option.splits list.splits if_splits)
  have "\<exists>st'. SyntaxNodeAddSibling st (e r) (e s) = Some (Inr st') \<and>
      owns st' e (F(s := None, r := Some ((t # ts) @ us))) K \<and> same_on K st st'"
    by (rule owns_merge [where run = "\<lambda>st. SyntaxNodeAddSibling st (e r) (e s)", OF assms(1) F])
      (use AddSibling_forest forest_None_iff in \<open>cases "e r"; fastforce\<close>)
  then show ?thesis using AddSibling F' by auto
next
  case (SetRoot r)
  then show ?thesis using assms by (auto simp: owns_root same_on_def) (simp add: MinisqlParserSetRoot_def)
qed

lemma run_code_refines:
  "owns st e F K \<Longrightarrow> spec_code cs F = Some F' \<Longrightarrow> list_all short_value cs \<Longrightarrow>
   \<exists>e' st'. run_code cs e st = Some (Inr (e', st')) \<and> owns st' e' F' K \<and> same_on K st st'"
proof (induction cs arbitrary: st e F)
  case Nil
  then show ?case by (auto simp: same_on_def)
next
  case (Cons c cs)
  from Cons.prems(2) obtain G where G: "spec_stmt c F = Some G" "spec_code cs G = Some F'"
    by (auto simp: bind_eq_Some_conv)
  from run_stmt_refines [OF Cons.prems(1) G(1)] Cons.prems(3) obtain e1 st1 where
    1: "run_stmt c e st = Some (Inr (e1, st1))" "owns st1 e1 G K" "same_on K st st1" by auto
  from Cons.IH [OF 1(2) G(2)] Cons.prems(3) obtain e2 st2 where
    "run_code cs e1 st1 = Some (Inr (e2, st2))" "owns st2 e2 F' K" "same_on K st1 st2" by auto
  then show ?case using 1 by (auto simp: same_on_def)
qed

text \<open>
  The value of the last token and the values on the stack, as one list: each that is owned represents
  its trees, and no two share a node.
\<close>

definition slot :: "'v option list \<Rightarrow> nat \<Rightarrow> 'v option" where
  "slot vs i = (if i < length vs then vs ! i else None)"

lemma slot_Cons: "slot (v # vs) i = (case i of 0 \<Rightarrow> v | Suc j \<Rightarrow> slot vs j)"
  by (auto simp: slot_def split: nat.split)

lemma slot_drop: "slot (drop k vs) i = slot vs (k + i)"
  by (auto simp: slot_def)

definition owned_by :: "node_store \<Rightarrow> (nat \<Rightarrow> node_ptr) \<Rightarrow> (nat \<Rightarrow> ast list option) \<Rightarrow> (nat \<Rightarrow> nat set) \<Rightarrow> bool" where
  "owned_by h e F P \<longleftrightarrow> (\<forall>i ts. F i = Some ts \<longrightarrow> forest h (e i) ts (P i)) \<and>
     (\<forall>i j. i \<noteq> j \<longrightarrow> F i \<noteq> None \<longrightarrow> F j \<noteq> None \<longrightarrow> P i \<inter> P j = {})"

definition stack_owns :: "parser_state \<Rightarrow> node_ptr list \<Rightarrow> ast list option list \<Rightarrow> bool" where
  "stack_owns st ps vs \<longleftrightarrow> store_ok st \<and> length ps = length vs \<and>
     (\<exists>P. owned_by (store st) (slot ps) (slot vs) P)"

fun yacc_rep :: "yacc \<Rightarrow> ast list option list \<times> ast list option \<Rightarrow> bool" where
  "yacc_rep y (vs, l) = stack_owns (parser y) (yylval y # value_stack y) (l # vs)"

text \<open>Leaving out, permuting and repeating unowned positions keeps the representation.\<close>

lemma owned_by_reindex:
  assumes "owned_by h e F P" "\<And>i ts. F' i = Some ts \<Longrightarrow> F (g i) = Some ts \<and> e' i = e (g i)"
    "\<And>i j. F' i \<noteq> None \<Longrightarrow> F' j \<noteq> None \<Longrightarrow> i \<noteq> j \<Longrightarrow> g i \<noteq> g j"
  shows "owned_by h e' F' (P \<circ> g)"
proof -
  have "forest h (e' i) ts (P (g i))" if "F' i = Some ts" for i ts
    using assms(1) assms(2) [OF that] unfolding owned_by_def by metis
  moreover have "P (g i) \<inter> P (g j) = {}" if "i \<noteq> j" "F' i \<noteq> None" "F' j \<noteq> None" for i j
  proof -
    have "F (g i) \<noteq> None" "F (g j) \<noteq> None" using that assms(2) by (metis option.exhaust option.discI)+
    then show ?thesis using assms(1) assms(3) [OF that(2,3,1)] unfolding owned_by_def by metis
  qed
  ultimately show ?thesis unfolding owned_by_def comp_def by blast
qed

lemma stack_owns_shift:
  assumes "stack_owns st (p # ps) (v # vs)"
  shows "stack_owns st (q # p # ps) (None # v # vs)"
proof -
  from assms obtain P where ok: "store_ok st" "length ps = length vs" and
    P: "owned_by (store st) (slot (p # ps)) (slot (v # vs)) P" by (auto simp: stack_owns_def)
  have "owned_by (store st) (slot (q # p # ps)) (slot (None # v # vs)) (P \<circ> (\<lambda>i. i - 1))"
    using P by (rule owned_by_reindex) (auto simp: slot_Cons split: nat.splits)
  then show ?thesis using ok by (auto simp: stack_owns_def)
qed

lemma MovePos_store: "store (MinisqlParserMovePos st s) = store st"
  "next_addr (MinisqlParserMovePos st s) = next_addr st" "block_size (MinisqlParserMovePos st s) = block_size st"
  by (induction s arbitrary: st) (simp_all add: MinisqlParserMovePos_def move_char_def)

lemma stack_owns_cong:
  "store st' = store st \<Longrightarrow> next_addr st' = next_addr st \<Longrightarrow> block_size st' = block_size st \<Longrightarrow> stack_owns st' ps vs = stack_owns st ps vs"
  by (simp add: stack_owns_def store_ok_def)

lemma stack_owns_MovePos [simp]: "stack_owns (MinisqlParserMovePos st s) = stack_owns st"
  by (intro ext stack_owns_cong) (simp_all add: MovePos_store)

lemma stack_owns_SetError [simp]: "stack_owns (MinisqlParserSetError st s) = stack_owns st"
  by (intro ext stack_owns_cong) (simp_all add: MinisqlParserSetError_def)

lemma stack_owns_create:
  assumes "stack_owns st (p # ps) (v # vs)" and w: "node_value ty u = Inr w" "copy_fits (block_size st) ty u"
  shows "\<exists>q st'. CreateSyntaxNode st ty u = Inr (q, st') \<and> stack_owns st' (q # ps) (Some [Node ty w []] # vs)"
proof -
  from assms obtain P where ok: "store_ok st" "length ps = length vs" and
    P: "owned_by (store st) (slot (p # ps)) (slot (v # vs)) P" by (auto simp: stack_owns_def)
  let ?a = "next_addr st"
  from CreateSyntaxNode_forest [OF w] obtain st' where
    c: "CreateSyntaxNode st ty u = Inr (Some ?a, st')"
      "forest (store st') (Some ?a) [Node ty w []] {?a}" "store_ok st'"
      "\<And>a. a \<noteq> ?a \<Longrightarrow> store st' a = store st a" using ok(1) by blast
  have f: "forest (store st) (slot ps i) ts (P (Suc i))" if "slot vs i = Some ts" for i ts
    using P that unfolding owned_by_def by (auto dest!: spec [of _ "Suc i"] simp: slot_Cons)
  have a: "?a \<notin> P (Suc i)" if "slot vs i = Some ts" for i ts
    using forest_dom [OF f [OF that]] ok(1) by (auto simp: store_ok_def)
  have f': "forest (store st') (slot ps i) ts (P (Suc i))" if "slot vs i = Some ts" for i ts
    using f [OF that] a [OF that] c(4) by (metis forest_frame)
  have "P (Suc i) \<inter> P (Suc j) = {}" if "i \<noteq> j" "slot vs i \<noteq> None" "slot vs j \<noteq> None" for i j
  proof -
    have "slot (v # vs) (Suc i) \<noteq> None" "slot (v # vs) (Suc j) \<noteq> None" using that by (auto simp: slot_Cons)
    then show ?thesis using P that(1) unfolding owned_by_def by (metis Suc_inject)
  qed
  then have "owned_by (store st') (slot (Some ?a # ps)) (slot (Some [Node ty w []] # vs)) (P(0 := {?a}))"
    unfolding owned_by_def using a f' c(2) by (auto simp: slot_Cons split: nat.splits)
  then show ?thesis using c ok by (auto simp: stack_owns_def)
qed

lemma arg_values_slot:
  assumes "yyr2 ! n \<le> length vs"
  shows "arg_values None n vs (Arg i) = (if 1 \<le> i \<and> i \<le> yyr2 ! n then slot vs (yyr2 ! n - i) else None)"
    "arg_values None n vs Res = None" "arg_values None n vs (Loc i) = None"
  using assms by (auto simp: arg_values_def rev_nth slot_def)

lemma owned_byD:
  assumes "owned_by h e F P"
  shows "F i = Some ts \<Longrightarrow> forest h (e i) ts (P i)"
    "i \<noteq> j \<Longrightarrow> F i \<noteq> None \<Longrightarrow> F j \<noteq> None \<Longrightarrow> P i \<inter> P j = {}"
  using assms unfolding owned_by_def by metis+

text \<open>The values a rule takes from the stack, with everything that stays in place as the frame.\<close>

lemma args_owned:
  fixes l :: "ast list option"
  assumes "store_ok st" "length ps = length vs" "yyr2 ! n \<le> length vs"
    and P: "owned_by (store st) (slot (p # ps)) (slot (l # vs)) P"
    and K: "K = (\<Union>i \<in> {i. slot (l # vs) i \<noteq> None \<and> (i = 0 \<or> yyr2 ! n < i)}. P i)"
  shows "owns st ((arg_values None n ps)(Res := q)) (arg_values None n vs) K"
proof -
  let ?k = "yyr2 ! n" and ?F = "arg_values None n vs" and ?e = "(arg_values None n ps)(Res := q)"
  let ?Q = "\<lambda>r. case r of Arg i \<Rightarrow> P (Suc (?k - i)) | _ \<Rightarrow> {}"
  have F: "\<exists>i. r = Arg i \<and> 1 \<le> i \<and> i \<le> ?k \<and> slot (l # vs) (Suc (?k - i)) = Some ts \<and>
      ?e r = slot (p # ps) (Suc (?k - i))" if "?F r = Some ts" for r ts
    using that assms(2,3) by (cases r) (auto simp: arg_values_slot slot_Cons split: if_splits)
  have "forest (store st) (?e r) ts (?Q r) \<and> ?Q r \<inter> K = {}" if "?F r = Some ts" for r ts
  proof -
    from F [OF that] obtain i where i: "r = Arg i" "1 \<le> i" "i \<le> ?k"
      "slot (l # vs) (Suc (?k - i)) = Some ts" "?e r = slot (p # ps) (Suc (?k - i))" by blast
    have "P (Suc (?k - i)) \<inter> P j = {}" if "slot (l # vs) j \<noteq> None" "j = 0 \<or> ?k < j" for j
      by (rule owned_byD(2) [OF P]) (use i that in auto)
    then show ?thesis using i owned_byD(1) [OF P i(4)] K by auto
  qed
  moreover have "?Q r \<inter> ?Q s = {}" if "r \<noteq> s" "?F r \<noteq> None" "?F s \<noteq> None" for r s
  proof -
    from that F obtain i j where "r = Arg i" "s = Arg j" "1 \<le> i" "1 \<le> j" "i \<le> ?k" "j \<le> ?k"
      "slot (l # vs) (Suc (?k - i)) \<noteq> None" "slot (l # vs) (Suc (?k - j)) \<noteq> None"
      by (metis option.exhaust option.discI)
    moreover from this have "Suc (?k - i) \<noteq> Suc (?k - j)" using that(1) by auto
    ultimately show ?thesis using owned_byD(2) [OF P] by simp
  qed
  moreover have "K \<subseteq> dom (store st)"
    using owned_byD(1) [OF P] forest_dom K by (fastforce simp del: slot_Cons)
  ultimately show ?thesis unfolding owns_def using assms(1) by (intro conjI exI [of _ ?Q]) blast+
qed

lemma root_after_start:
  assumes "run_code (action 2) e st = Some (Inr (e', st'))"
  shows "root_node st' = e' Res"
  using assms by (auto simp: action_def sql_actions_def MinisqlParserSetRoot_def)

lemma yyreduce_refines:
  assumes y: "yacc_rep y (vs, l)" and s: "spec_reduce n vs = Some vs'"
  shows "\<exists>y'. yyreduce n y = Some (Inr y') \<and> yacc_rep y' (vs', l) \<and>
    (n = 2 \<longrightarrow> root_node (parser y') = hd (value_stack y'))"
proof -
  let ?k = "yyr2 ! n" and ?ps = "value_stack y" and ?p = "yylval y" and ?st = "parser y"
  let ?e = "arg_values None n ?ps"
  from y obtain P where ok: "store_ok ?st" "length ?ps = length vs" and
    P: "owned_by (store ?st) (slot (?p # ?ps)) (slot (l # vs)) P" by (auto simp: stack_owns_def)
  from s obtain F' ts where k: "?k \<le> length vs" and F': "spec_code (action n) (arg_values None n vs) = Some F'"
    "F' Res = Some ts" "vs' = Some ts # drop ?k vs"
    by (auto simp: spec_reduce_def bind_eq_Some_conv split: if_splits option.splits)
  define K where "K = (\<Union>i \<in> {i. slot (l # vs) i \<noteq> None \<and> (i = 0 \<or> ?k < i)}. P i)"
  from run_code_refines [OF args_owned [OF ok k P K_def] F'(1) action_values] obtain e' st' where
    r: "run_code (action n) (?e(Res := ?e (Arg 1))) ?st = Some (Inr (e', st'))"
      "owns st' e' F' K" "same_on K ?st st'" by blast
  from r(2) F'(2) obtain A where A: "forest (store st') (e' Res) ts A" "A \<inter> K = {}" "store_ok st'"
    unfolding owns_def by metis
  let ?Q = "\<lambda>i. if i = 0 then P 0 else if i = 1 then A else P (i - 1 + ?k)"
  have old: "forest (store st') (slot (?p # ?ps) i) us (P i)" "P i \<subseteq> K"
    if "slot (l # vs) i = Some us" "i = 0 \<or> ?k < i" for i us
  proof -
    show "P i \<subseteq> K" using that K_def by auto
    then show "forest (store st') (slot (?p # ?ps) i) us (P i)"
      using owned_byD(1) [OF P that(1)] r(3) unfolding same_on_def by (metis forest_frame subsetD)
  qed
  let ?new = "slot (l # vs')" and ?g = "\<lambda>i. if i = 0 then 0 else i - 1 + ?k"
  have new: "i = 1 \<and> us = ts \<or> i \<noteq> 1 \<and> slot (l # vs) (?g i) = Some us \<and> (?g i = 0 \<or> ?k < ?g i) \<and>
      slot (?p # e' Res # drop ?k ?ps) i = slot (?p # ?ps) (?g i)" if "?new i = Some us" for i us
    using that F'(3) by (auto simp: slot_Cons slot_drop add.commute split: nat.splits)
  have "owned_by (store st') (slot (?p # e' Res # drop ?k ?ps)) ?new ?Q"
    unfolding owned_by_def
  proof (intro conjI allI impI)
    fix i us assume "?new i = Some us"
    from new [OF this] show "forest (store st') (slot (?p # e' Res # drop ?k ?ps) i) us (?Q i)"
      using A(1) old(1) [of "?g i" us] by (cases "i = 1") (auto simp: slot_Cons)
  next
    fix i j assume d: "i \<noteq> j" "?new i \<noteq> None" "?new j \<noteq> None"
    then obtain us ws where uw: "?new i = Some us" "?new j = Some ws" by blast
    show "?Q i \<inter> ?Q j = {}"
    proof (cases "i = 1 \<or> j = 1")
      case True
      then show ?thesis using A(2) d(1) new [OF uw(1)] new [OF uw(2)] old(2) [of "?g i" us] old(2) [of "?g j" ws]
        by (cases "i = 1") (auto simp del: One_nat_def)
    next
      case False
      have "P (?g i) \<inter> P (?g j) = {}"
        by (rule owned_byD(2) [OF P]) (use new [OF uw(1)] new [OF uw(2)] False d(1) in auto)
      then show ?thesis using False by auto
    qed
  qed
  then have "yacc_rep (y\<lparr>value_stack := e' Res # drop ?k ?ps, parser := st'\<rparr>) (vs', l)"
    using A(3) ok F'(3) by (auto simp: stack_owns_def)
  then show ?thesis using r(1) root_after_start by (auto simp: yyreduce_def Let_def)
qed

end
