(* ===== verification/Lex_Rules.thy ===== *)
theory Lex_Rules
  imports Parser_Actions
begin

text \<open>
  The rules of the scanner, include/parser/minisql.l, as regular expressions over character codes, and what
  a scanner for them has to do: take the longest prefix that any rule matches, and the first rule among
  those that match it. \<open>munch\<close> computes this with derivatives of the rules; \<open>munch_longest\<close> shows that it is
  what the rules mean. The scanner flex generated from these rules is modelled in \<open>Flex_Tables\<close> and
  \<open>Flex_Scanner\<close>.
\<close>

section \<open>Regular expressions\<close>

datatype rexp = Nothing | Empty | Chars "(int \<times> int) list" | Seq rexp rexp | Alt rexp rexp | Star rexp

fun in_ranges :: "int \<Rightarrow> (int \<times> int) list \<Rightarrow> bool" where
  "in_ranges x [] = False"
| "in_ranges x ((a, b) # rs) = (a \<le> x \<and> x \<le> b \<or> in_ranges x rs)"

inductive matches :: "rexp \<Rightarrow> int list \<Rightarrow> bool" where
  m_empty: "matches Empty []"
| m_chars: "in_ranges x rs \<Longrightarrow> matches (Chars rs) [x]"
| m_seq: "matches r u \<Longrightarrow> matches q v \<Longrightarrow> matches (Seq r q) (u @ v)"
| m_left: "matches r u \<Longrightarrow> matches (Alt r q) u"
| m_right: "matches q u \<Longrightarrow> matches (Alt r q) u"
| m_stop: "matches (Star r) []"
| m_more: "matches r u \<Longrightarrow> matches (Star r) v \<Longrightarrow> matches (Star r) (u @ v)"

inductive_cases matches_NothingE [elim!]: "matches Nothing w"
inductive_cases matches_EmptyE [elim!]: "matches Empty w"
inductive_cases matches_CharsE [elim!]: "matches (Chars rs) w"
inductive_cases matches_SeqE [elim!]: "matches (Seq r q) w"
inductive_cases matches_AltE [elim!]: "matches (Alt r q) w"

fun nullable :: "rexp \<Rightarrow> bool" where
  "nullable Nothing = False"
| "nullable Empty = True"
| "nullable (Chars rs) = False"
| "nullable (Seq r q) = (nullable r \<and> nullable q)"
| "nullable (Alt r q) = (nullable r \<or> nullable q)"
| "nullable (Star r) = True"

text \<open>Sequence and alternative without superfluous parts.\<close>

fun mk_seq :: "rexp \<Rightarrow> rexp \<Rightarrow> rexp" where
  "mk_seq Nothing q = Nothing"
| "mk_seq Empty q = q"
| "mk_seq r q = Seq r q"

fun mk_alt :: "rexp \<Rightarrow> rexp \<Rightarrow> rexp" where
  "mk_alt Nothing q = q"
| "mk_alt r q = (if q = Nothing then r else Alt r q)"

fun deriv :: "int \<Rightarrow> rexp \<Rightarrow> rexp" where
  "deriv x Nothing = Nothing"
| "deriv x Empty = Nothing"
| "deriv x (Chars rs) = (if in_ranges x rs then Empty else Nothing)"
| "deriv x (Seq r q) = (if nullable r then mk_alt (mk_seq (deriv x r) q) (deriv x q) else mk_seq (deriv x r) q)"
| "deriv x (Alt r q) = mk_alt (deriv x r) (deriv x q)"
| "deriv x (Star r) = mk_seq (deriv x r) (Star r)"

lemma matches_mk_seq: "matches (mk_seq r q) w \<longleftrightarrow> matches (Seq r q) w"
  by (cases r) (auto intro: m_seq [of Empty "[]", simplified] m_empty)

lemma matches_mk_alt: "matches (mk_alt r q) w \<longleftrightarrow> matches r w \<or> matches q w"
  by (cases r) (auto intro: matches.intros)

lemma matches_Nil: "matches r [] \<longleftrightarrow> nullable r"
proof
  show "matches r [] \<Longrightarrow> nullable r"
  proof -
    have "matches r w \<Longrightarrow> w = [] \<Longrightarrow> nullable r" for w
      by (induction rule: matches.induct) auto
    then show "matches r [] \<Longrightarrow> nullable r" by blast
  qed
  show "nullable r \<Longrightarrow> matches r []"
    by (induction r) (auto intro: matches.intros m_seq [of _ "[]" _ "[]", simplified])
qed

lemma star_Cons: "matches (Star r) (x # w) \<longleftrightarrow> (\<exists>u v. w = u @ v \<and> matches r (x # u) \<and> matches (Star r) v)"
proof
  have "matches q y \<Longrightarrow> q = Star r \<Longrightarrow> y = x # w \<Longrightarrow> \<exists>u v. w = u @ v \<and> matches r (x # u) \<and> matches (Star r) v" for q y
    by (induction arbitrary: w rule: matches.induct) (auto simp: append_eq_Cons_conv)
  then show "matches (Star r) (x # w) \<Longrightarrow> \<exists>u v. w = u @ v \<and> matches r (x # u) \<and> matches (Star r) v" by blast
  show "\<exists>u v. w = u @ v \<and> matches r (x # u) \<and> matches (Star r) v \<Longrightarrow> matches (Star r) (x # w)"
    using m_more [of r] by (metis append_Cons)
qed

lemma seq_Cons: "matches (Seq r q) (x # w) \<longleftrightarrow>
    (\<exists>u v. w = u @ v \<and> matches r (x # u) \<and> matches q v) \<or> nullable r \<and> matches q (x # w)"
proof
  assume "matches (Seq r q) (x # w)"
  then obtain u v where uv: "x # w = u @ v" "matches r u" "matches q v" by auto
  then show "(\<exists>u v. w = u @ v \<and> matches r (x # u) \<and> matches q v) \<or> nullable r \<and> matches q (x # w)"
    by (cases u) (auto simp: matches_Nil)
next
  assume "(\<exists>u v. w = u @ v \<and> matches r (x # u) \<and> matches q v) \<or> nullable r \<and> matches q (x # w)"
  then show "matches (Seq r q) (x # w)"
    using m_seq [of r "x # _" q] m_seq [of r "[]" q "x # w"] by (auto simp: matches_Nil)
qed

text \<open>The derivative by a character matches what the expression matches after it.\<close>

lemma matches_deriv: "matches (deriv x r) w \<longleftrightarrow> matches r (x # w)"
proof (induction r arbitrary: w)
  case (Seq r q)
  have "matches (Seq (deriv x r) q) w \<longleftrightarrow> (\<exists>u v. w = u @ v \<and> matches r (x # u) \<and> matches q v)"
    using Seq.IH(1) by (auto intro: m_seq)
  then show ?case using Seq.IH(2) by (simp add: matches_mk_seq matches_mk_alt seq_Cons)
next
  case (Star r)
  have "matches (Seq (deriv x r) (Star r)) w \<longleftrightarrow> (\<exists>u v. w = u @ v \<and> matches r (x # u) \<and> matches (Star r) v)"
    using Star.IH by (auto intro: m_seq)
  then show ?case by (simp add: matches_mk_seq star_Cons)
next
  case (Alt r q)
  then show ?case by (auto simp: matches_mk_alt intro: matches.intros)
qed (auto intro: matches.intros)

section \<open>The rules\<close>

definition code :: "char \<Rightarrow> int" where
  "code c = of_char c"

fun lit :: "int list \<Rightarrow> rexp" where
  "lit [] = Empty"
| "lit [c] = Chars [(c, c)]"
| "lit (c # cs) = Seq (Chars [(c, c)]) (lit cs)"

definition letter :: rexp where
  "letter = Chars [(97, 122), (65, 90), (95, 95)]"

definition digit :: rexp where
  "digit = Chars [(48, 57)]"

definition letter_digit :: rexp where
  "letter_digit = Chars [(97, 122), (65, 90), (95, 95), (48, 57)]"

definition any_char :: rexp where
  "any_char = Chars [(0, 9), (11, 255)]"

text \<open>A string literal: a quote, escaped characters or others, a quote.\<close>

definition string_tail :: rexp where
  "string_tail = Seq (Star (Alt (Seq (Chars [(92, 92)]) any_char) (Chars [(0, 33), (35, 91), (93, 255)]))) (Chars [(34, 34)])"

definition sign :: rexp where
  "sign = Alt (Chars [(45, 45)]) Empty"

definition float_tail :: rexp where
  "float_tail = Seq (Star digit) (Seq (Chars [(46, 46)]) (Seq digit (Star digit)))"

definition keyword_texts :: "string list" where
  "keyword_texts = [''create'', ''drop'', ''select'', ''insert'', ''delete'', ''update'', ''begin'', ''commit'', ''rollback'',
     ''quit'', ''execfile'', ''show'', ''use'', ''using'', ''database'', ''databases'', ''table'', ''tables'', ''index'',
     ''indexes'', ''on'', ''from'', ''where'', ''into'', ''set'', ''values'', ''primary'', ''key'', ''unique'', ''char'',
     ''int'', ''float'', ''and'', ''or'', ''not'', ''is'', ''null'']"

definition symbols :: "string list" where
  "symbols = [''='', ''<>'', ''<='', ''>='', '','', ''*'', '';'', [CHR 0x27], ''<'', ''>'', ''('', '')'']"

fun number_from :: "int \<Rightarrow> 'a list \<Rightarrow> (int \<times> 'a) list" where
  "number_from n [] = []"
| "number_from n (x # xs) = (n, x) # number_from (n + 1) xs"

definition lex_rules :: "(int \<times> rexp) list" where
  "lex_rules = number_from 1 ([Seq (Chars [(34, 34)]) string_tail] @ map (lit \<circ> map code) keyword_texts @
     [Seq letter (Star letter_digit), Seq sign float_tail, Seq sign (Star digit)] @ map (lit \<circ> map code) symbols @
     [Chars [(32, 32), (9, 9), (11, 11), (10, 10), (12, 12)], any_char])"

section \<open>The longest match\<close>

fun accepted :: "(int \<times> rexp) list \<Rightarrow> int" where
  "accepted [] = 0"
| "accepted ((k, r) # v) = (if nullable r then k else accepted v)"

fun advance :: "int \<Rightarrow> (int \<times> rexp) list \<Rightarrow> (int \<times> rexp) list" where
  "advance x [] = []"
| "advance x ((k, r) # v) = (let r' = deriv x r in if r' = Nothing then advance x v else (k, r') # advance x v)"

definition better :: "int \<Rightarrow> int \<Rightarrow> int \<times> int \<Rightarrow> int \<times> int" where
  "better k n best = (if k = 0 then best else (k, n))"

text \<open>\<open>munch v w n best\<close>: the rules left after \<open>n\<close> characters are \<open>v\<close>, the rest of the input is \<open>w\<close>.\<close>

fun munch :: "(int \<times> rexp) list \<Rightarrow> int list \<Rightarrow> int \<Rightarrow> int \<times> int \<Rightarrow> int \<times> int" where
  "munch v [] n best = better (accepted v) n best"
| "munch v (x # w) n best = munch (advance x v) w (n + 1) (better (accepted v) n best)"

definition longest :: "string \<Rightarrow> int \<times> int" where
  "longest s = munch lex_rules (map code s) 0 (0, 0)"

fun advances :: "int list \<Rightarrow> (int \<times> rexp) list \<Rightarrow> (int \<times> rexp) list" where
  "advances [] v = v"
| "advances (x # w) v = advances w (advance x v)"

lemma advances_Nil [simp]: "advances w [] = []"
  by (induction w) simp_all

lemma munch_Nil: "munch [] w n best = best"
  by (induction w arbitrary: n) (simp_all add: better_def)

lemma munch_cases:
  "munch v w n best = best \<and> (\<forall>m \<le> length w. accepted (advances (take m w) v) = 0) \<or>
   (\<exists>m \<le> length w. munch v w n best = (accepted (advances (take m w) v), n + int m) \<and>
     accepted (advances (take m w) v) \<noteq> 0 \<and> (\<forall>m'. m < m' \<longrightarrow> m' \<le> length w \<longrightarrow> accepted (advances (take m' w) v) = 0))"
proof (induction w arbitrary: v n best)
  case Nil
  then show ?case by (auto simp: better_def)
next
  case (Cons x w)
  let ?v = "advance x v" and ?best = "better (accepted v) n best"
  have later: "accepted (advances (take m (x # w)) v) = 0"
    if "\<forall>m \<le> length w. accepted (advances (take m w) ?v) = 0" "0 < m" "m \<le> length (x # w)" for m
    using that by (cases m) auto
  from Cons.IH [of ?v "n + 1" ?best] show ?case
  proof (elim disjE conjE exE)
    assume b: "munch ?v w (n + 1) ?best = ?best" and z: "\<forall>m \<le> length w. accepted (advances (take m w) ?v) = 0"
    show ?case
    proof (cases "accepted v = 0")
      case True
      then have "accepted (advances (take m (x # w)) v) = 0" if "m \<le> length (x # w)" for m
        using later [OF z _ that] by (cases "m = 0") simp_all
      then show ?thesis using b True by (simp add: better_def)
    next
      case False
      then show ?thesis using b later [OF z] by (intro disjI2 exI [of _ 0]) (simp add: better_def)
    qed
  next
    fix m assume m: "m \<le> length w" "munch ?v w (n + 1) ?best = (accepted (advances (take m w) ?v), n + 1 + int m)"
      "accepted (advances (take m w) ?v) \<noteq> 0"
      "\<forall>m'. m < m' \<longrightarrow> m' \<le> length w \<longrightarrow> accepted (advances (take m' w) ?v) = 0"
    have "accepted (advances (take m' (x # w)) v) = 0" if "Suc m < m'" "m' \<le> length (x # w)" for m'
      using m(4) that by (cases m') auto
    then show ?thesis using m by (intro disjI2 exI [of _ "Suc m"]) simp
  qed
qed

text \<open>The rule accepted after a prefix is the first one that matches it.\<close>

lemma set_advance: "set (advance x v) = (\<lambda>(k, r). (k, deriv x r)) ` {(k, r) \<in> set v. deriv x r \<noteq> Nothing}"
  by (induction x v rule: advance.induct) (auto simp: Let_def)

lemma fst_advance: "fst ` set (advance x v) \<subseteq> fst ` set v"
  by (force simp: set_advance)

lemma advance_sorted: "sorted (map fst v) \<Longrightarrow> sorted (map fst (advance x v))"
proof (induction x v rule: advance.induct)
  case (2 x k r v)
  have "\<forall>y \<in> fst ` set v. k \<le> y" "sorted (map fst v)" using 2(3) by auto
  then have "\<forall>y \<in> fst ` set (advance x v). k \<le> y" using fst_advance by blast
  then show ?case using 2 \<open>sorted (map fst v)\<close> by (auto simp: Let_def)
qed simp

definition some_nullable :: "int \<Rightarrow> (int \<times> rexp) list \<Rightarrow> bool" where
  "some_nullable k v \<longleftrightarrow> (\<exists>r. (k, r) \<in> set v \<and> nullable r)"

lemma advance_matches: "(\<exists>r. (k, r) \<in> set (advance x v) \<and> matches r w) \<longleftrightarrow> (\<exists>r. (k, r) \<in> set v \<and> matches r (x # w))"
proof
  assume "\<exists>r. (k, r) \<in> set (advance x v) \<and> matches r w"
  then show "\<exists>r. (k, r) \<in> set v \<and> matches r (x # w)" by (auto simp: set_advance matches_deriv)
next
  assume "\<exists>r. (k, r) \<in> set v \<and> matches r (x # w)"
  then obtain r where r: "(k, r) \<in> set v" "matches (deriv x r) w" by (auto simp: matches_deriv)
  then have "deriv x r \<noteq> Nothing" by auto
  then have "(k, deriv x r) \<in> set (advance x v)" using r(1) by (force simp: set_advance)
  then show "\<exists>r. (k, r) \<in> set (advance x v) \<and> matches r w" using r(2) by blast
qed

lemma advances_matches: "some_nullable k (advances w v) \<longleftrightarrow> (\<exists>r. (k, r) \<in> set v \<and> matches r w)"
  by (induction w arbitrary: v) (simp_all add: some_nullable_def matches_Nil advance_matches)

lemma advances_sorted: "sorted (map fst v) \<Longrightarrow> sorted (map fst (advances w v))"
  by (induction w arbitrary: v) (simp_all add: advance_sorted)

lemma fst_advances: "fst ` set (advances w v) \<subseteq> fst ` set v"
proof (induction w arbitrary: v)
  case (Cons x w)
  then show ?case using fst_advance [of x v] by (metis advances.simps(2) subset_trans)
qed simp

lemma accepted_nullable: "accepted v \<noteq> 0 \<Longrightarrow> some_nullable (accepted v) v"
  by (induction v rule: accepted.induct) (auto simp: some_nullable_def split: if_splits)

lemma accepted_first: "sorted (map fst v) \<Longrightarrow> some_nullable k v \<Longrightarrow> \<forall>y \<in> fst ` set v. 0 < y \<Longrightarrow> 0 < accepted v \<and> accepted v \<le> k"
  by (induction v rule: accepted.induct) (auto simp: some_nullable_def)

lemma lex_rules_sorted: "sorted (map fst lex_rules)" "\<forall>y \<in> fst ` set lex_rules. 0 < y"
  by code_simp+

definition rule_matches :: "int \<Rightarrow> int list \<Rightarrow> bool" where
  "rule_matches k w \<longleftrightarrow> (\<exists>r. (k, r) \<in> set lex_rules \<and> matches r w)"

lemma accepted_rule:
  "rule_matches k w \<Longrightarrow> 0 < accepted (advances w lex_rules) \<and> accepted (advances w lex_rules) \<le> k"
  "accepted (advances w lex_rules) \<noteq> 0 \<Longrightarrow> rule_matches (accepted (advances w lex_rules)) w"
proof -
  have pos: "\<forall>y \<in> fst ` set (advances w lex_rules). 0 < y" using lex_rules_sorted(2) fst_advances by blast
  show "rule_matches k w \<Longrightarrow> 0 < accepted (advances w lex_rules) \<and> accepted (advances w lex_rules) \<le> k"
    using accepted_first [OF advances_sorted [OF lex_rules_sorted(1)] _ pos, of k] by (simp add: rule_matches_def advances_matches)
  show "accepted (advances w lex_rules) \<noteq> 0 \<Longrightarrow> rule_matches (accepted (advances w lex_rules)) w"
    using accepted_nullable by (simp add: rule_matches_def advances_matches [symmetric])
qed

text \<open>Every character is matched by one of the last two rules.\<close>

lemma code_range: "0 \<le> code c \<and> code c \<le> 255"
proof -
  have "code c = int (of_char c)" by (simp only: code_def of_nat_of_char)
  then show ?thesis using nat_of_char_less_256 [of c] by linarith
qed

lemma last_rules: "(54, Chars [(32, 32), (9, 9), (11, 11), (10, 10), (12, 12)]) \<in> set lex_rules" "(55, any_char) \<in> set lex_rules"
  by code_simp+

lemma char_matched: "rule_matches 54 [code c] \<or> rule_matches 55 [code c]"
proof (cases "code c = 10")
  case True
  then show ?thesis using last_rules(1) m_chars [of "code c"] by (fastforce simp: rule_matches_def)
next
  case False
  then have "matches any_char [code c]" using code_range [of c] unfolding any_char_def by (intro m_chars) auto
  then show ?thesis using last_rules(2) by (auto simp: rule_matches_def)
qed

text \<open>
  On non-empty input the result is a rule and the length of a non-empty prefix that it matches; no rule
  matches a longer prefix, and no earlier rule matches this one.
\<close>

lemma munch_longest:
  assumes "longest s = (k, n)" "s \<noteq> []"
  shows "1 \<le> n" "n \<le> int (length s)" "rule_matches k (map code (take (nat n) s))"
    "\<And>m j. m \<le> length s \<Longrightarrow> rule_matches j (map code (take m s)) \<Longrightarrow> int m < n \<or> int m = n \<and> k \<le> j"
proof -
  let ?hit = "\<lambda>m. accepted (advances (take m (map code s)) lex_rules)"
  from assms(2) obtain c cs where s: "s = c # cs" by (cases s) auto
  have 1: "?hit 1 \<noteq> 0" using accepted_rule(1) [of _ "[code c]"] char_matched [of c] s by force
  have "1 \<le> length (map code s)" using s by simp
  with munch_cases [of lex_rules "map code s" 0 "(0, 0)"] 1 obtain m where
    m: "m \<le> length s" "(k, n) = (?hit m, int m)" "?hit m \<noteq> 0" "\<And>m'. m < m' \<Longrightarrow> m' \<le> length s \<Longrightarrow> ?hit m' = 0"
    using assms(1) unfolding longest_def by auto
  have "\<not> m < 1" using m(4) [of 1] 1 s by auto
  then show "1 \<le> n" "n \<le> int (length s)" using m by auto
  show "rule_matches k (map code (take (nat n) s))" using m accepted_rule(2) by (auto simp: take_map)
  fix m' j assume j: "m' \<le> length s" "rule_matches j (map code (take m' s))"
  then have "0 < ?hit m' \<and> ?hit m' \<le> j" using accepted_rule(1) by (simp add: take_map)
  then show "int m' < n \<or> int m' = n \<and> k \<le> j" using m(2) m(4) [of m'] j(1) by (cases m' m rule: linorder_cases) auto
qed

section \<open>Scanning a text\<close>

text \<open>What each rule makes of its text, and the number it returns to the parser; 0 where it returns nothing.\<close>

definition lexeme_of :: "int \<Rightarrow> string \<Rightarrow> lexeme" where
  "lexeme_of k t = (if k = 1 then Token (TString t) else if k = 39 then Token (TIdentifier t)
     else if k = 40 \<or> k = 41 then Token (TNumber t) else if k = 54 then Blank t else if k = 55 then Unrecognized t
     else Token (TPlain t))"

text \<open>
  The token that each case of the scanner's switch returns, as its number in \<^verbatim>\<open>yytokentype\<close>
  (\<^verbatim>\<open>CREATE\<close> is 258) or as the code of its character.
\<close>

definition literal_tokens :: "(int \<times> int) list" where
  "literal_tokens = [(1, 296), (39, 295), (40, 297), (41, 297)]"

definition statement_tokens :: "(int \<times> int) list" where
  "statement_tokens =
    [(2, 258), (3, 259), (4, 260), (5, 261), (6, 262), (7, 263), (8, 264), (9, 265), (10, 266), (11, 267),
     (12, 268), (13, 269), (14, 270), (15, 271), (16, 272), (17, 273), (18, 274), (19, 275)]"

definition clause_tokens :: "(int \<times> int) list" where
  "clause_tokens =
    [(20, 276), (21, 277), (22, 278), (23, 279), (24, 280), (25, 281), (26, 282), (27, 283), (28, 284),
     (29, 285), (30, 286), (31, 287), (32, 288), (33, 289), (34, 290), (35, 291), (36, 292), (37, 293),
     (38, 294)]"

definition symbol_tokens :: "(int \<times> int) list" where
  "symbol_tokens =
    [(42, 298), (43, 299), (44, 300), (45, 301), (46, 44), (47, 42), (48, 59), (49, 39), (50, 60), (51, 62),
     (52, 40), (53, 41)]"

definition token_number :: "int \<Rightarrow> int" where
  "token_number k = (case map_of (literal_tokens @ statement_tokens @ clause_tokens @ symbol_tokens) k of
     None \<Rightarrow> 0 | Some n \<Rightarrow> n)"

lemma no_token: "token_number 54 = 0" "token_number 55 = 0"
  by code_simp+

function scan :: "string \<Rightarrow> (int \<times> string) list" where
  "scan s = (if s = [] then [] else let (k, n) = longest s in
     if n \<le> 0 then [] else (k, take (nat n) s) # scan (drop (nat n) s))"
  by pat_completeness auto
termination by (relation "measure length") auto

declare scan.simps [simp del]

lemma scan_Nil [simp]: "scan [] = []"
  by (simp add: scan.simps)

lemma scan_step: "s \<noteq> [] \<Longrightarrow> longest s = (k, n) \<Longrightarrow> scan s = (k, take (nat n) s) # scan (drop (nat n) s)"
  using munch_longest(1) [of s k n] by (subst scan.simps) simp

text \<open>Scanning reaches the end of every input and loses nothing.\<close>

lemma scan_lossless: "concat (map snd (scan s)) = s"
proof (induction s rule: scan.induct)
  case (1 s)
  show ?case
  proof (cases "s = []")
    case False
    obtain k n where kn: "longest s = (k, n)" by fastforce
    then show ?thesis using 1 [OF False] munch_longest(1) [OF kn False] scan_step [OF False kn] by simp
  qed simp
qed

text \<open>
  What a list of rules and texts has to satisfy to be the tokens of a text: each text is the longest one
  that any rule matches at its place, and the rule is the first one that matches it.
\<close>

fun tokenized :: "string \<Rightarrow> (int \<times> string) list \<Rightarrow> bool" where
  "tokenized s [] = (s = [])"
| "tokenized s ((k, t) # ls) = (\<exists>r. s = t @ r \<and> t \<noteq> [] \<and> rule_matches k (map code t) \<and>
     (\<forall>m j. m \<le> length s \<longrightarrow> rule_matches j (map code (take m s)) \<longrightarrow> m < length t \<or> m = length t \<and> k \<le> j) \<and> tokenized r ls)"

lemma scan_tokenized: "tokenized s (scan s)"
proof (induction s rule: scan.induct)
  case (1 s)
  show ?case
  proof (cases "s = []")
    case False
    obtain k n where kn: "longest s = (k, n)" by fastforce
    note m = munch_longest [OF kn False]
    have l: "int (length (take (nat n) s)) = n" using m(1,2) by simp
    have "m' < length (take (nat n) s) \<or> m' = length (take (nat n) s) \<and> k \<le> j"
      if "m' \<le> length s" "rule_matches j (map code (take m' s))" for m' j using m(4) [OF that] l by linarith
    then show ?thesis using 1 [OF False kn [symmetric] refl] m(1,3) False
      unfolding scan_step [OF False kn] tokenized.simps by (intro exI [of _ "drop (nat n) s"]) auto
  qed simp
qed

lemma scan_example: "scan ''select * from t where a = 1;'' =
    [(4, ''select''), (54, '' ''), (47, ''*''), (54, '' ''), (23, ''from''), (54, '' ''), (39, ''t''), (54, '' ''),
     (24, ''where''), (54, '' ''), (39, ''a''), (54, '' ''), (42, ''=''), (54, '' ''), (41, ''1''), (48, '';'')]"
  by code_simp

end
