(* ===== verification/Table_Lookup.thy ===== *)
theory Table_Lookup
  imports Minisql_Prelude
begin

text \<open>
  Constant arrays of the generated scanner and parser: lists read at an integer index, where a read outside
  of the array is undefined behaviour. A table that equals \<open>map f [0..m]\<close> is read through \<open>f\<close>; the checks of
  the tables evaluate such an \<open>f\<close>, a decision tree, instead of walking along the list.
\<close>

definition tab :: "'a list \<Rightarrow> int \<Rightarrow> 'a" where
  "tab xs i = xs ! nat i"

lemma tab_Cons [code]: "tab (x # xs) i = (if i \<le> 0 then x else tab xs (i - 1))"
  by (simp add: tab_def nth_Cons nat_diff_distrib' split: nat.split)

fun len :: "'a list \<Rightarrow> int" where
  "len [] = 0"
| "len (x # xs) = 1 + len xs"

definition rd :: "'a list \<Rightarrow> int \<Rightarrow> 'a res" where
  "rd xs i = (if 0 \<le> i \<and> i < len xs then Inr (tab xs i) else Inl Undefined)"

lemma len_length: "len xs = int (length xs)"
  by (induction xs) simp_all

lemma rd_ok: "0 \<le> i \<Longrightarrow> i < len xs \<Longrightarrow> rd xs i = Inr (tab xs i)"
  by (simp add: rd_def)

lemma tab_in_set: "0 \<le> i \<Longrightarrow> i < len xs \<Longrightarrow> tab xs i \<in> set xs"
  by (simp add: tab_def len_length nat_less_iff)

lemma tab_upto: "0 \<le> i \<Longrightarrow> i \<le> m \<Longrightarrow> tab (map f [0..m]) i = f i"
  by (simp add: tab_def)

lemma rd_upto: "rd (map f [0..m]) i = (if 0 \<le> i \<and> i \<le> m then Inr (f i) else Inl Undefined)"
  by (auto simp: rd_def len_length tab_upto)

lemma uptoD: "\<forall>k \<in> set [a..b]. P k \<Longrightarrow> a \<le> k \<Longrightarrow> k \<le> b \<Longrightarrow> P k"
  by simp

lemma at_in_set: "xs = map f [0..m] \<Longrightarrow> 0 \<le> i \<Longrightarrow> i \<le> m \<Longrightarrow> f i \<in> set xs"
  by simp

end
