(* ===== verification/Flex_Tables.thy ===== *)
theory Flex_Tables
  imports Lex_Rules Table_Lookup
begin

text \<open>
  The tables flex generated for the scanner (src/MiniSQL/src/parser/minisql_lex.c, lines 377 to 555) and
  the proof that they implement the rules of include/parser/minisql.l. The transitions of the automaton are
  stored compressed, with default and template states; \<open>yy_next\<close> is the loop that finds a transition. Each
  state is annotated with what is left of the rules there (\<open>residual\<close>); by evaluation, every transition
  takes a state to the state annotated with the derivatives, and a state accepts the first rule whose rest
  matches the empty text.
\<close>

section \<open>Tables\<close>

text \<open>The rule a state accepts, 0 for none; 57 is the end of the buffer.\<close>

definition yy_accept :: "int list" where
  "yy_accept =
    [0, 41, 41, 57, 55, 54, 54, 55, 49, 52, 53, 47, 46, 41, 55, 41, 48, 50, 42, 51,
     39, 39, 39, 39, 39, 39, 39, 39, 39, 39, 39, 39, 39, 39, 39, 39, 39, 39, 39, 0,
     1, 0, 0, 41, 40, 44, 43, 45, 39, 39, 39, 39, 39, 39, 39, 39, 39, 39, 39, 39,
     39, 37, 39, 39, 39, 22, 35, 39, 39, 39, 39, 39, 39, 39, 39, 39, 39, 39, 34, 39,
     39, 39, 39, 39, 39, 39, 39, 39, 39, 39, 39, 32, 29, 36, 39, 39, 39, 39, 39, 26,
     39, 39, 39, 39, 14, 39, 39, 39, 39, 31, 39, 39, 39, 39, 3, 39, 39, 23, 39, 39,
     25, 38, 39, 11, 39, 39, 13, 39, 39, 39, 39, 39, 39, 8, 39, 39, 39, 39, 39, 33,
     20, 39, 39, 39, 39, 18, 39, 39, 15, 39, 24, 9, 2, 39, 6, 39, 39, 5, 39, 39,
     4, 19, 30, 7, 27, 39, 39, 21, 28, 39, 16, 12, 10, 17, 0]"

text \<open>The class of a character.\<close>

definition yy_ec :: "int list" where
  "yy_ec =
    [0, 1, 1, 1, 1, 1, 1, 1, 1, 2, 3, 2, 2, 1, 1, 1, 1, 1, 1, 1,
     1, 1, 1, 1, 1, 1, 1, 1, 1, 1, 1, 1, 2, 1, 4, 1, 1, 1, 1, 5,
     6, 7, 8, 1, 9, 10, 11, 1, 12, 12, 12, 12, 12, 12, 12, 12, 12, 12, 1, 13,
     14, 15, 16, 1, 1, 17, 17, 17, 17, 17, 17, 17, 17, 17, 17, 17, 17, 17, 17, 17,
     17, 17, 17, 17, 17, 17, 17, 17, 17, 17, 17, 1, 18, 1, 1, 17, 1, 19, 20, 21,
     22, 23, 24, 25, 26, 27, 17, 28, 29, 30, 31, 32, 33, 34, 35, 36, 37, 38, 39, 40,
     41, 42, 17, 1, 1, 1, 1, 1, 1, 1, 1, 1, 1, 1, 1, 1, 1, 1, 1, 1,
     1, 1, 1, 1, 1, 1, 1, 1, 1, 1, 1, 1, 1, 1, 1, 1, 1, 1, 1, 1,
     1, 1, 1, 1, 1, 1, 1, 1, 1, 1, 1, 1, 1, 1, 1, 1, 1, 1, 1, 1,
     1, 1, 1, 1, 1, 1, 1, 1, 1, 1, 1, 1, 1, 1, 1, 1, 1, 1, 1, 1,
     1, 1, 1, 1, 1, 1, 1, 1, 1, 1, 1, 1, 1, 1, 1, 1, 1, 1, 1, 1,
     1, 1, 1, 1, 1, 1, 1, 1, 1, 1, 1, 1, 1, 1, 1, 1, 1, 1, 1, 1,
     1, 1, 1, 1, 1, 1, 1, 1, 1, 1, 1, 1, 1, 1, 1, 1]"

text \<open>The class of a class in the template states.\<close>

definition yy_meta :: "int list" where
  "yy_meta =
    [0, 1, 1, 1, 1, 1, 1, 1, 1, 1, 1, 1, 2, 1, 1, 1, 1, 2, 1, 2,
     2, 2, 2, 2, 2, 2, 2, 2, 2, 2, 2, 2, 2, 2, 2, 2, 2, 2, 2, 2,
     2, 2, 2]"

text \<open>Where a state's entries begin, its default state, and the compressed transitions with their owners.\<close>

definition yy_base :: "int list" where
  "yy_base =
    [0, 0, 0, 188, 189, 189, 189, 39, 189, 189, 189, 189, 189, 33, 175, 35, 189, 33, 189, 171,
     0, 154, 161, 24, 32, 142, 23, 29, 159, 30, 35, 146, 142, 147, 38, 159, 38, 158, 150, 59,
     189, 172, 162, 42, 161, 189, 189, 189, 0, 150, 146, 151, 139, 145, 130, 137, 133, 141, 131, 130,
     50, 0, 119, 123, 130, 0, 0, 131, 130, 127, 44, 123, 134, 126, 130, 52, 122, 127, 0, 122,
     113, 117, 127, 126, 121, 110, 121, 122, 110, 116, 115, 105, 0, 0, 107, 105, 97, 104, 109, 0,
     91, 101, 95, 109, 0, 96, 88, 90, 93, 0, 96, 85, 101, 83, 0, 95, 81, 0, 76, 81,
     0, 0, 96, 0, 94, 92, 0, 89, 73, 73, 84, 85, 84, 0, 69, 82, 85, 80, 75, 0,
     78, 63, 64, 79, 60, 60, 72, 71, 0, 57, 0, 0, 0, 56, 0, 62, 54, 0, 43, 63,
     0, 0, 0, 0, 0, 60, 59, 0, 0, 52, 42, 0, 0, 0, 189, 87, 74]"

definition yy_def :: "int list" where
  "yy_def =
    [0, 174, 1, 174, 174, 174, 174, 175, 174, 174, 174, 174, 174, 174, 174, 174, 174, 174, 174, 174,
     176, 176, 176, 176, 176, 176, 176, 176, 176, 176, 176, 176, 176, 176, 176, 176, 176, 176, 176, 175,
     174, 175, 174, 174, 174, 174, 174, 174, 176, 176, 176, 176, 176, 176, 176, 176, 176, 176, 176, 176,
     176, 176, 176, 176, 176, 176, 176, 176, 176, 176, 176, 176, 176, 176, 176, 176, 176, 176, 176, 176,
     176, 176, 176, 176, 176, 176, 176, 176, 176, 176, 176, 176, 176, 176, 176, 176, 176, 176, 176, 176,
     176, 176, 176, 176, 176, 176, 176, 176, 176, 176, 176, 176, 176, 176, 176, 176, 176, 176, 176, 176,
     176, 176, 176, 176, 176, 176, 176, 176, 176, 176, 176, 176, 176, 176, 176, 176, 176, 176, 176, 176,
     176, 176, 176, 176, 176, 176, 176, 176, 176, 176, 176, 176, 176, 176, 176, 176, 176, 176, 176, 176,
     176, 176, 176, 176, 176, 176, 176, 176, 176, 176, 176, 176, 176, 176, 0, 174, 174]"

definition yy_nxt :: "int list" where
  "yy_nxt =
    [0, 4, 5, 6, 7, 8, 9, 10, 11, 12, 13, 14, 15, 16, 17, 18, 19, 20, 4, 21,
     22, 23, 24, 25, 26, 20, 20, 27, 28, 20, 20, 29, 30, 31, 32, 33, 34, 35, 36, 37,
     38, 20, 20, 40, 42, 43, 42, 43, 45, 46, 51, 54, 58, 42, 43, 55, 52, 41, 59, 53,
     60, 70, 63, 40, 71, 61, 65, 56, 64, 73, 66, 74, 89, 98, 75, 104, 48, 41, 173, 105,
     172, 99, 171, 170, 169, 168, 90, 91, 39, 39, 167, 166, 165, 164, 163, 162, 161, 160, 159, 158,
     157, 156, 155, 154, 153, 152, 151, 150, 149, 148, 147, 146, 145, 144, 143, 142, 141, 140, 139, 138,
     137, 136, 135, 134, 133, 132, 131, 130, 129, 128, 127, 126, 125, 124, 123, 122, 121, 120, 119, 118,
     117, 116, 115, 114, 113, 112, 111, 110, 109, 108, 107, 106, 103, 102, 101, 100, 97, 96, 95, 94,
     93, 92, 88, 87, 86, 85, 84, 83, 82, 81, 80, 79, 78, 44, 44, 174, 77, 76, 72, 69,
     68, 67, 62, 57, 50, 49, 47, 44, 174, 3, 174, 174, 174, 174, 174, 174, 174, 174, 174, 174,
     174, 174, 174, 174, 174, 174, 174, 174, 174, 174, 174, 174, 174, 174, 174, 174, 174, 174, 174, 174,
     174, 174, 174, 174, 174, 174, 174, 174, 174, 174, 174, 174]"

definition yy_chk :: "int list" where
  "yy_chk =
    [0, 1, 1, 1, 1, 1, 1, 1, 1, 1, 1, 1, 1, 1, 1, 1, 1, 1, 1, 1,
     1, 1, 1, 1, 1, 1, 1, 1, 1, 1, 1, 1, 1, 1, 1, 1, 1, 1, 1, 1,
     1, 1, 1, 7, 13, 13, 15, 15, 17, 17, 23, 24, 26, 43, 43, 24, 23, 7, 26, 23,
     27, 34, 29, 39, 34, 27, 30, 24, 29, 36, 30, 36, 60, 70, 36, 75, 176, 39, 170, 75,
     169, 70, 166, 165, 159, 158, 60, 60, 175, 175, 156, 155, 153, 149, 147, 146, 145, 144, 143, 142,
     141, 140, 138, 137, 136, 135, 134, 132, 131, 130, 129, 128, 127, 125, 124, 122, 119, 118, 116, 115,
     113, 112, 111, 110, 108, 107, 106, 105, 103, 102, 101, 100, 98, 97, 96, 95, 94, 91, 90, 89,
     88, 87, 86, 85, 84, 83, 82, 81, 80, 79, 77, 76, 74, 73, 72, 71, 69, 68, 67, 64,
     63, 62, 59, 58, 57, 56, 55, 54, 53, 52, 51, 50, 49, 44, 42, 41, 38, 37, 35, 33,
     32, 31, 28, 25, 22, 21, 19, 14, 3, 174, 174, 174, 174, 174, 174, 174, 174, 174, 174, 174,
     174, 174, 174, 174, 174, 174, 174, 174, 174, 174, 174, 174, 174, 174, 174, 174, 174, 174, 174, 174,
     174, 174, 174, 174, 174, 174, 174, 174, 174, 174, 174, 174]"

text \<open>The loop of \<^verbatim>\<open>yylex\<close> that follows default states until an entry belongs to the state.\<close>

partial_function (option) yy_next :: "int \<Rightarrow> int \<Rightarrow> int res option" where
  "yy_next s c = (case rd yy_base s of Inl e \<Rightarrow> Some (Inl e) | Inr b \<Rightarrow>
     (case rd yy_chk (b + c) of Inl e \<Rightarrow> Some (Inl e) | Inr k \<Rightarrow>
       if k = s then Some (rd yy_nxt (b + c))
       else (case rd yy_def s of Inl e \<Rightarrow> Some (Inl e) | Inr s' \<Rightarrow>
         if 175 \<le> s' then (case rd yy_meta c of Inl e \<Rightarrow> Some (Inl e) | Inr c' \<Rightarrow> yy_next s' c')
         else yy_next s' c)))"

section \<open>The tables as decision trees\<close>

definition accept_at :: "int \<Rightarrow> int" where
  "accept_at i =
     (if i < 87 then (if i < 43 then (if i < 21 then (if i < 10 then (if i < 5 then (if i < 2 then (if i < 1 then 0
     else 41) else if i < 3 then 41 else if i < 4 then 57 else 55) else if i < 7 then 54 else if i < 8 then 55 else
     if i < 9 then 49 else 52) else if i < 15 then (if i < 12 then (if i < 11 then 53 else 47) else if i < 13 then
     46 else if i < 14 then 41 else 55) else if i < 18 then (if i < 16 then 41 else if i < 17 then 48 else 50) else
     if i < 19 then 42 else if i < 20 then 51 else 39) else if i < 32 then 39 else if i < 37 then 39 else if i < 40
     then (if i < 38 then 39 else if i < 39 then 39 else 0) else if i < 41 then 1 else 0) else if i < 65 then (if i
     < 54 then (if i < 48 then (if i < 45 then (if i < 44 then 41 else 40) else if i < 46 then 44 else if i < 47
     then 43 else 45) else 39) else if i < 59 then 39 else if i < 62 then (if i < 60 then 39 else if i < 61 then 39
     else 37) else 39) else if i < 76 then (if i < 70 then (if i < 67 then (if i < 66 then 22 else 35) else 39) else
     39) else if i < 81 then (if i < 78 then 39 else if i < 79 then 34 else 39) else 39) else if i < 131 then (if i
     < 109 then (if i < 98 then (if i < 92 then (if i < 89 then 39 else if i < 90 then 39 else if i < 91 then 39
     else 32) else if i < 95 then (if i < 93 then 29 else if i < 94 then 36 else 39) else 39) else if i < 103 then
     (if i < 100 then (if i < 99 then 39 else 26) else 39) else if i < 106 then (if i < 104 then 39 else if i < 105
     then 14 else 39) else 39) else if i < 120 then (if i < 114 then (if i < 111 then (if i < 110 then 31 else 39)
     else 39) else if i < 117 then (if i < 115 then 3 else 39) else if i < 118 then 23 else 39) else if i < 125 then
     (if i < 122 then (if i < 121 then 25 else 38) else if i < 123 then 39 else if i < 124 then 11 else 39) else if
     i < 128 then (if i < 126 then 39 else if i < 127 then 13 else 39) else 39) else if i < 153 then (if i < 142
     then (if i < 136 then (if i < 133 then 39 else if i < 134 then 8 else 39) else if i < 139 then 39 else if i <
     140 then 33 else if i < 141 then 20 else 39) else if i < 147 then (if i < 144 then 39 else if i < 145 then 39
     else if i < 146 then 18 else 39) else if i < 150 then (if i < 148 then 39 else if i < 149 then 15 else 39) else
     if i < 151 then 24 else if i < 152 then 9 else 2) else if i < 164 then (if i < 158 then (if i < 155 then (if i
     < 154 then 39 else 6) else if i < 156 then 39 else if i < 157 then 39 else 5) else if i < 161 then (if i < 159
     then 39 else if i < 160 then 39 else 4) else if i < 162 then 19 else if i < 163 then 30 else 7) else if i < 169
     then (if i < 166 then (if i < 165 then 27 else 39) else if i < 167 then 39 else if i < 168 then 21 else 28)
     else if i < 172 then (if i < 170 then 39 else if i < 171 then 16 else 12) else if i < 173 then 10 else if i <
     174 then 17 else 0)"

definition ec_at :: "int \<Rightarrow> int" where
  "ec_at i =
     (if i < 128 then (if i < 64 then (if i < 32 then (if i < 16 then (if i < 8 then (if i < 4 then (if i < 2 then
     (if i < 1 then 0 else 1) else 1) else 1) else if i < 12 then (if i < 10 then (if i < 9 then 1 else 2) else if i
     < 11 then 3 else 2) else if i < 14 then (if i < 13 then 2 else 1) else 1) else 1) else if i < 48 then (if i <
     40 then (if i < 36 then (if i < 34 then (if i < 33 then 2 else 1) else if i < 35 then 4 else 1) else if i < 38
     then 1 else if i < 39 then 1 else 5) else if i < 44 then (if i < 42 then (if i < 41 then 6 else 7) else if i <
     43 then 8 else 1) else if i < 46 then (if i < 45 then 9 else 10) else if i < 47 then 11 else 1) else if i < 56
     then 12 else if i < 60 then (if i < 58 then 12 else if i < 59 then 1 else 13) else if i < 62 then (if i < 61
     then 14 else 15) else if i < 63 then 16 else 1) else if i < 96 then (if i < 80 then (if i < 72 then (if i < 68
     then (if i < 66 then (if i < 65 then 1 else 17) else 17) else 17) else 17) else if i < 88 then 17 else if i <
     92 then (if i < 90 then 17 else if i < 91 then 17 else 1) else if i < 94 then (if i < 93 then 18 else 1) else
     if i < 95 then 1 else 17) else if i < 112 then (if i < 104 then (if i < 100 then (if i < 98 then (if i < 97
     then 1 else 19) else if i < 99 then 20 else 21) else if i < 102 then (if i < 101 then 22 else 23) else if i <
     103 then 24 else 25) else if i < 108 then (if i < 106 then (if i < 105 then 26 else 27) else if i < 107 then 17
     else 28) else if i < 110 then (if i < 109 then 29 else 30) else if i < 111 then 31 else 32) else if i < 120
     then (if i < 116 then (if i < 114 then (if i < 113 then 33 else 34) else if i < 115 then 35 else 36) else if i
     < 118 then (if i < 117 then 37 else 38) else if i < 119 then 39 else 40) else if i < 124 then (if i < 122 then
     (if i < 121 then 41 else 42) else if i < 123 then 17 else 1) else 1) else 1)"

definition meta_at :: "int \<Rightarrow> int" where
  "meta_at i =
     (if i < 21 then (if i < 10 then (if i < 5 then (if i < 2 then (if i < 1 then 0 else 1) else 1) else 1) else if
     i < 15 then (if i < 12 then 1 else if i < 13 then 2 else 1) else if i < 18 then (if i < 16 then 1 else if i <
     17 then 1 else 2) else if i < 19 then 1 else 2) else 2)"

definition base_at :: "int \<Rightarrow> int" where
  "base_at i =
     (if i < 88 then (if i < 44 then (if i < 22 then (if i < 11 then (if i < 5 then (if i < 2 then 0 else if i < 3
     then 0 else if i < 4 then 188 else 189) else if i < 8 then (if i < 6 then 189 else if i < 7 then 189 else 39)
     else 189) else if i < 16 then (if i < 13 then 189 else if i < 14 then 33 else if i < 15 then 175 else 35) else
     if i < 19 then (if i < 17 then 189 else if i < 18 then 33 else 189) else if i < 20 then 171 else if i < 21 then
     0 else 154) else if i < 33 then (if i < 27 then (if i < 24 then (if i < 23 then 161 else 24) else if i < 25
     then 32 else if i < 26 then 142 else 23) else if i < 30 then (if i < 28 then 29 else if i < 29 then 159 else
     30) else if i < 31 then 35 else if i < 32 then 146 else 142) else if i < 38 then (if i < 35 then (if i < 34
     then 147 else 38) else if i < 36 then 159 else if i < 37 then 38 else 158) else if i < 41 then (if i < 39 then
     150 else if i < 40 then 59 else 189) else if i < 42 then 172 else if i < 43 then 162 else 42) else if i < 66
     then (if i < 55 then (if i < 49 then (if i < 46 then (if i < 45 then 161 else 189) else if i < 47 then 189 else
     if i < 48 then 189 else 0) else if i < 52 then (if i < 50 then 150 else if i < 51 then 146 else 151) else if i
     < 53 then 139 else if i < 54 then 145 else 130) else if i < 60 then (if i < 57 then (if i < 56 then 137 else
     133) else if i < 58 then 141 else if i < 59 then 131 else 130) else if i < 63 then (if i < 61 then 50 else if i
     < 62 then 0 else 119) else if i < 64 then 123 else if i < 65 then 130 else 0) else if i < 77 then (if i < 71
     then (if i < 68 then (if i < 67 then 0 else 131) else if i < 69 then 130 else if i < 70 then 127 else 44) else
     if i < 74 then (if i < 72 then 123 else if i < 73 then 134 else 126) else if i < 75 then 130 else if i < 76
     then 52 else 122) else if i < 82 then (if i < 79 then (if i < 78 then 127 else 0) else if i < 80 then 122 else
     if i < 81 then 113 else 117) else if i < 85 then (if i < 83 then 127 else if i < 84 then 126 else 121) else if
     i < 86 then 110 else if i < 87 then 121 else 122) else if i < 132 then (if i < 110 then (if i < 99 then (if i <
     93 then (if i < 90 then (if i < 89 then 110 else 116) else if i < 91 then 115 else if i < 92 then 105 else 0)
     else if i < 96 then (if i < 94 then 0 else if i < 95 then 107 else 105) else if i < 97 then 97 else if i < 98
     then 104 else 109) else if i < 104 then (if i < 101 then (if i < 100 then 0 else 91) else if i < 102 then 101
     else if i < 103 then 95 else 109) else if i < 107 then (if i < 105 then 0 else if i < 106 then 96 else 88) else
     if i < 108 then 90 else if i < 109 then 93 else 0) else if i < 121 then (if i < 115 then (if i < 112 then (if i
     < 111 then 96 else 85) else if i < 113 then 101 else if i < 114 then 83 else 0) else if i < 118 then (if i <
     116 then 95 else if i < 117 then 81 else 0) else if i < 119 then 76 else if i < 120 then 81 else 0) else if i <
     126 then (if i < 123 then (if i < 122 then 0 else 96) else if i < 124 then 0 else if i < 125 then 94 else 92)
     else if i < 129 then (if i < 127 then 0 else if i < 128 then 89 else 73) else if i < 130 then 73 else if i <
     131 then 84 else 85) else if i < 154 then (if i < 143 then (if i < 137 then (if i < 134 then (if i < 133 then
     84 else 0) else if i < 135 then 69 else if i < 136 then 82 else 85) else if i < 140 then (if i < 138 then 80
     else if i < 139 then 75 else 0) else if i < 141 then 78 else if i < 142 then 63 else 64) else if i < 148 then
     (if i < 145 then (if i < 144 then 79 else 60) else if i < 146 then 60 else if i < 147 then 72 else 71) else if
     i < 151 then (if i < 149 then 0 else if i < 150 then 57 else 0) else if i < 152 then 0 else if i < 153 then 0
     else 56) else if i < 165 then (if i < 159 then (if i < 156 then (if i < 155 then 0 else 62) else if i < 157
     then 54 else if i < 158 then 0 else 43) else if i < 162 then (if i < 160 then 63 else 0) else 0) else if i <
     171 then (if i < 168 then (if i < 166 then 60 else if i < 167 then 59 else 0) else if i < 169 then 0 else if i
     < 170 then 52 else 42) else if i < 174 then 0 else if i < 175 then 189 else if i < 176 then 87 else 74)"

definition def_at :: "int \<Rightarrow> int" where
  "def_at i =
     (if i < 88 then (if i < 44 then (if i < 22 then (if i < 11 then (if i < 5 then (if i < 2 then (if i < 1 then 0
     else 174) else if i < 3 then 1 else 174) else if i < 8 then (if i < 6 then 174 else if i < 7 then 174 else 175)
     else 174) else if i < 16 then 174 else if i < 19 then 174 else if i < 20 then 174 else 176) else if i < 33 then
     176 else if i < 38 then 176 else if i < 41 then (if i < 39 then 176 else if i < 40 then 175 else 174) else if i
     < 42 then 175 else 174) else if i < 66 then (if i < 55 then (if i < 49 then (if i < 46 then 174 else if i < 47
     then 174 else if i < 48 then 174 else 176) else 176) else 176) else 176) else if i < 132 then 176 else if i <
     154 then 176 else if i < 165 then 176 else if i < 171 then 176 else if i < 174 then 176 else if i < 175 then 0
     else 174)"

definition nxt_at :: "int \<Rightarrow> int" where
  "nxt_at i =
     (if i < 116 then (if i < 58 then (if i < 29 then (if i < 14 then (if i < 7 then (if i < 3 then (if i < 1 then 0
     else if i < 2 then 4 else 5) else if i < 5 then (if i < 4 then 6 else 7) else if i < 6 then 8 else 9) else if i
     < 10 then (if i < 8 then 10 else if i < 9 then 11 else 12) else if i < 12 then (if i < 11 then 13 else 14) else
     if i < 13 then 15 else 16) else if i < 21 then (if i < 17 then (if i < 15 then 17 else if i < 16 then 18 else
     19) else if i < 19 then (if i < 18 then 20 else 4) else if i < 20 then 21 else 22) else if i < 25 then (if i <
     23 then (if i < 22 then 23 else 24) else if i < 24 then 25 else 26) else if i < 27 then 20 else if i < 28 then
     27 else 28) else if i < 43 then (if i < 36 then (if i < 32 then (if i < 30 then 20 else if i < 31 then 20 else
     29) else if i < 34 then (if i < 33 then 30 else 31) else if i < 35 then 32 else 33) else if i < 39 then (if i <
     37 then 34 else if i < 38 then 35 else 36) else if i < 41 then (if i < 40 then 37 else 38) else 20) else if i <
     50 then (if i < 46 then (if i < 44 then 40 else if i < 45 then 42 else 43) else if i < 48 then (if i < 47 then
     42 else 43) else if i < 49 then 45 else 46) else if i < 54 then (if i < 52 then (if i < 51 then 51 else 54)
     else if i < 53 then 58 else 42) else if i < 56 then (if i < 55 then 43 else 55) else if i < 57 then 52 else 41)
     else if i < 87 then (if i < 72 then (if i < 65 then (if i < 61 then (if i < 59 then 59 else if i < 60 then 53
     else 60) else if i < 63 then (if i < 62 then 70 else 63) else if i < 64 then 40 else 71) else if i < 68 then
     (if i < 66 then 61 else if i < 67 then 65 else 56) else if i < 70 then (if i < 69 then 64 else 73) else if i <
     71 then 66 else 74) else if i < 79 then (if i < 75 then (if i < 73 then 89 else if i < 74 then 98 else 75) else
     if i < 77 then (if i < 76 then 104 else 48) else if i < 78 then 41 else 173) else if i < 83 then (if i < 81
     then (if i < 80 then 105 else 172) else if i < 82 then 99 else 171) else if i < 85 then (if i < 84 then 170
     else 169) else if i < 86 then 168 else 90) else if i < 101 then (if i < 94 then (if i < 90 then (if i < 88 then
     91 else 39) else if i < 92 then (if i < 91 then 167 else 166) else if i < 93 then 165 else 164) else if i < 97
     then (if i < 95 then 163 else if i < 96 then 162 else 161) else if i < 99 then (if i < 98 then 160 else 159)
     else if i < 100 then 158 else 157) else if i < 108 then (if i < 104 then (if i < 102 then 156 else if i < 103
     then 155 else 154) else if i < 106 then (if i < 105 then 153 else 152) else if i < 107 then 151 else 150) else
     if i < 112 then (if i < 110 then (if i < 109 then 149 else 148) else if i < 111 then 147 else 146) else if i <
     114 then (if i < 113 then 145 else 144) else if i < 115 then 143 else 142) else if i < 174 then (if i < 145
     then (if i < 130 then (if i < 123 then (if i < 119 then (if i < 117 then 141 else if i < 118 then 140 else 139)
     else if i < 121 then (if i < 120 then 138 else 137) else if i < 122 then 136 else 135) else if i < 126 then (if
     i < 124 then 134 else if i < 125 then 133 else 132) else if i < 128 then (if i < 127 then 131 else 130) else if
     i < 129 then 129 else 128) else if i < 137 then (if i < 133 then (if i < 131 then 127 else if i < 132 then 126
     else 125) else if i < 135 then (if i < 134 then 124 else 123) else if i < 136 then 122 else 121) else if i <
     141 then (if i < 139 then (if i < 138 then 120 else 119) else if i < 140 then 118 else 117) else if i < 143
     then (if i < 142 then 116 else 115) else if i < 144 then 114 else 113) else if i < 159 then (if i < 152 then
     (if i < 148 then (if i < 146 then 112 else if i < 147 then 111 else 110) else if i < 150 then (if i < 149 then
     109 else 108) else if i < 151 then 107 else 106) else if i < 155 then (if i < 153 then 103 else if i < 154 then
     102 else 101) else if i < 157 then (if i < 156 then 100 else 97) else if i < 158 then 96 else 95) else if i <
     166 then (if i < 162 then (if i < 160 then 94 else if i < 161 then 93 else 92) else if i < 164 then (if i < 163
     then 88 else 87) else if i < 165 then 86 else 85) else if i < 170 then (if i < 168 then (if i < 167 then 84
     else 83) else if i < 169 then 82 else 81) else if i < 172 then (if i < 171 then 80 else 79) else if i < 173
     then 78 else 44) else if i < 203 then (if i < 188 then (if i < 181 then (if i < 177 then (if i < 175 then 44
     else if i < 176 then 174 else 77) else if i < 179 then (if i < 178 then 76 else 72) else if i < 180 then 69
     else 68) else if i < 184 then (if i < 182 then 67 else if i < 183 then 62 else 57) else if i < 186 then (if i <
     185 then 50 else 49) else if i < 187 then 47 else 44) else if i < 195 then (if i < 191 then (if i < 189 then
     174 else if i < 190 then 3 else 174) else 174) else 174) else 174)"

definition chk_at :: "int \<Rightarrow> int" where
  "chk_at i =
     (if i < 116 then (if i < 58 then (if i < 29 then (if i < 14 then (if i < 7 then (if i < 3 then (if i < 1 then 0
     else 1) else 1) else 1) else 1) else if i < 43 then 1 else if i < 50 then (if i < 46 then (if i < 44 then 7
     else 13) else if i < 48 then 15 else 17) else if i < 54 then (if i < 52 then (if i < 51 then 23 else 24) else
     if i < 53 then 26 else 43) else if i < 56 then (if i < 55 then 43 else 24) else if i < 57 then 23 else 7) else
     if i < 87 then (if i < 72 then (if i < 65 then (if i < 61 then (if i < 59 then 26 else if i < 60 then 23 else
     27) else if i < 63 then (if i < 62 then 34 else 29) else if i < 64 then 39 else 34) else if i < 68 then (if i <
     66 then 27 else if i < 67 then 30 else 24) else if i < 70 then (if i < 69 then 29 else 36) else if i < 71 then
     30 else 36) else if i < 79 then (if i < 75 then (if i < 73 then 60 else if i < 74 then 70 else 36) else if i <
     77 then (if i < 76 then 75 else 176) else if i < 78 then 39 else 170) else if i < 83 then (if i < 81 then (if i
     < 80 then 75 else 169) else if i < 82 then 70 else 166) else if i < 85 then (if i < 84 then 165 else 159) else
     if i < 86 then 158 else 60) else if i < 101 then (if i < 94 then (if i < 90 then (if i < 88 then 60 else 175)
     else if i < 92 then (if i < 91 then 156 else 155) else if i < 93 then 153 else 149) else if i < 97 then (if i <
     95 then 147 else if i < 96 then 146 else 145) else if i < 99 then (if i < 98 then 144 else 143) else if i < 100
     then 142 else 141) else if i < 108 then (if i < 104 then (if i < 102 then 140 else if i < 103 then 138 else
     137) else if i < 106 then (if i < 105 then 136 else 135) else if i < 107 then 134 else 132) else if i < 112
     then (if i < 110 then (if i < 109 then 131 else 130) else if i < 111 then 129 else 128) else if i < 114 then
     (if i < 113 then 127 else 125) else if i < 115 then 124 else 122) else if i < 174 then (if i < 145 then (if i <
     130 then (if i < 123 then (if i < 119 then (if i < 117 then 119 else if i < 118 then 118 else 116) else if i <
     121 then (if i < 120 then 115 else 113) else if i < 122 then 112 else 111) else if i < 126 then (if i < 124
     then 110 else if i < 125 then 108 else 107) else if i < 128 then (if i < 127 then 106 else 105) else if i < 129
     then 103 else 102) else if i < 137 then (if i < 133 then (if i < 131 then 101 else if i < 132 then 100 else 98)
     else if i < 135 then (if i < 134 then 97 else 96) else if i < 136 then 95 else 94) else if i < 141 then (if i <
     139 then (if i < 138 then 91 else 90) else if i < 140 then 89 else 88) else if i < 143 then (if i < 142 then 87
     else 86) else if i < 144 then 85 else 84) else if i < 159 then (if i < 152 then (if i < 148 then (if i < 146
     then 83 else if i < 147 then 82 else 81) else if i < 150 then (if i < 149 then 80 else 79) else if i < 151 then
     77 else 76) else if i < 155 then (if i < 153 then 74 else if i < 154 then 73 else 72) else if i < 157 then (if
     i < 156 then 71 else 69) else if i < 158 then 68 else 67) else if i < 166 then (if i < 162 then (if i < 160
     then 64 else if i < 161 then 63 else 62) else if i < 164 then (if i < 163 then 59 else 58) else if i < 165 then
     57 else 56) else if i < 170 then (if i < 168 then (if i < 167 then 55 else 54) else if i < 169 then 53 else 52)
     else if i < 172 then (if i < 171 then 51 else 50) else if i < 173 then 49 else 44) else if i < 203 then (if i <
     188 then (if i < 181 then (if i < 177 then (if i < 175 then 42 else if i < 176 then 41 else 38) else if i < 179
     then (if i < 178 then 37 else 35) else if i < 180 then 33 else 32) else if i < 184 then (if i < 182 then 31
     else if i < 183 then 28 else 25) else if i < 186 then (if i < 185 then 22 else 21) else if i < 187 then 19 else
     14) else if i < 195 then (if i < 191 then (if i < 189 then 3 else 174) else 174) else 174) else 174)"

lemma flex_tables_as_trees:
  "yy_accept = map accept_at [0..174]" "yy_ec = map ec_at [0..255]" "yy_meta = map meta_at [0..42]"
  "yy_base = map base_at [0..176]" "yy_def = map def_at [0..176]"
  "yy_nxt = map nxt_at [0..231]" "yy_chk = map chk_at [0..231]"
  by code_simp+

section \<open>What is left of the rules in a state\<close>

definition residual :: "int \<Rightarrow> (int \<times> rexp) list" where
  "residual i =
     (if i < 88 then (if i < 44 then (if i < 22 then (if i < 11 then (if i < 6 then (if i < 3 then (if i < 2 then
     [(1, Seq (lit [34]) string_tail), (2, lit [99, 114, 101, 97, 116, 101]), (3, lit [100, 114, 111, 112]), (4, lit
     [115, 101, 108, 101, 99, 116]), (5, lit [105, 110, 115, 101, 114, 116]), (6, lit [100, 101, 108, 101, 116,
     101]), (7, lit [117, 112, 100, 97, 116, 101]), (8, lit [98, 101, 103, 105, 110]), (9, lit [99, 111, 109, 109,
     105, 116]), (10, lit [114, 111, 108, 108, 98, 97, 99, 107]), (11, lit [113, 117, 105, 116]), (12, lit [101,
     120, 101, 99, 102, 105, 108, 101]), (13, lit [115, 104, 111, 119]), (14, lit [117, 115, 101]), (15, lit [117,
     115, 105, 110, 103]), (16, lit [100, 97, 116, 97, 98, 97, 115, 101]), (17, lit [100, 97, 116, 97, 98, 97, 115,
     101, 115]), (18, lit [116, 97, 98, 108, 101]), (19, lit [116, 97, 98, 108, 101, 115]), (20, lit [105, 110, 100,
     101, 120]), (21, lit [105, 110, 100, 101, 120, 101, 115]), (22, lit [111, 110]), (23, lit [102, 114, 111,
     109]), (24, lit [119, 104, 101, 114, 101]), (25, lit [105, 110, 116, 111]), (26, lit [115, 101, 116]), (27, lit
     [118, 97, 108, 117, 101, 115]), (28, lit [112, 114, 105, 109, 97, 114, 121]), (29, lit [107, 101, 121]), (30,
     lit [117, 110, 105, 113, 117, 101]), (31, lit [99, 104, 97, 114]), (32, lit [105, 110, 116]), (33, lit [102,
     108, 111, 97, 116]), (34, lit [97, 110, 100]), (35, lit [111, 114]), (36, lit [110, 111, 116]), (37, lit [105,
     115]), (38, lit [110, 117, 108, 108]), (39, Seq letter (Star letter_digit)), (40, Seq sign float_tail), (41,
     Seq sign (Star digit)), (42, lit [61]), (43, lit [60, 62]), (44, lit [60, 61]), (45, lit [62, 61]), (46, lit
     [44]), (47, lit [42]), (48, lit [59]), (49, lit [39]), (50, lit [60]), (51, lit [62]), (52, lit [40]), (53, lit
     [41]), (54, Chars [(32, 32), (9, 9), (11, 11), (10, 10), (12, 12)]), (55, any_char)] else []) else if i < 4
     then [] else if i < 5 then [(55, Empty)] else [(54, Empty), (55, Empty)]) else if i < 8 then (if i < 7 then
     [(54, Empty)] else [(1, string_tail), (55, Empty)]) else if i < 9 then [(49, Empty), (55, Empty)] else if i <
     10 then [(52, Empty), (55, Empty)] else [(53, Empty), (55, Empty)]) else if i < 16 then (if i < 13 then (if i <
     12 then [(47, Empty), (55, Empty)] else [(46, Empty), (55, Empty)]) else if i < 14 then [(40, float_tail), (41,
     Star digit), (55, Empty)] else if i < 15 then [(40, Seq digit (Star digit)), (55, Empty)] else [(40,
     float_tail), (41, Star digit), (55, Empty)]) else if i < 19 then (if i < 17 then [(48, Empty), (55, Empty)]
     else if i < 18 then [(43, lit [62]), (44, lit [61]), (50, Empty), (55, Empty)] else [(42, Empty), (55, Empty)])
     else if i < 20 then [(45, lit [61]), (51, Empty), (55, Empty)] else if i < 21 then [(39, Star letter_digit),
     (55, Empty)] else [(34, lit [110, 100]), (39, Star letter_digit), (55, Empty)]) else if i < 33 then (if i < 27
     then (if i < 24 then (if i < 23 then [(8, lit [101, 103, 105, 110]), (39, Star letter_digit), (55, Empty)] else
     [(2, lit [114, 101, 97, 116, 101]), (9, lit [111, 109, 109, 105, 116]), (31, lit [104, 97, 114]), (39, Star
     letter_digit), (55, Empty)]) else if i < 25 then [(3, lit [114, 111, 112]), (6, lit [101, 108, 101, 116, 101]),
     (16, lit [97, 116, 97, 98, 97, 115, 101]), (17, lit [97, 116, 97, 98, 97, 115, 101, 115]), (39, Star
     letter_digit), (55, Empty)] else if i < 26 then [(12, lit [120, 101, 99, 102, 105, 108, 101]), (39, Star
     letter_digit), (55, Empty)] else [(23, lit [114, 111, 109]), (33, lit [108, 111, 97, 116]), (39, Star
     letter_digit), (55, Empty)]) else if i < 30 then (if i < 28 then [(5, lit [110, 115, 101, 114, 116]), (20, lit
     [110, 100, 101, 120]), (21, lit [110, 100, 101, 120, 101, 115]), (25, lit [110, 116, 111]), (32, lit [110,
     116]), (37, lit [115]), (39, Star letter_digit), (55, Empty)] else if i < 29 then [(29, lit [101, 121]), (39,
     Star letter_digit), (55, Empty)] else [(36, lit [111, 116]), (38, lit [117, 108, 108]), (39, Star
     letter_digit), (55, Empty)]) else if i < 31 then [(22, lit [110]), (35, lit [114]), (39, Star letter_digit),
     (55, Empty)] else if i < 32 then [(28, lit [114, 105, 109, 97, 114, 121]), (39, Star letter_digit), (55,
     Empty)] else [(11, lit [117, 105, 116]), (39, Star letter_digit), (55, Empty)]) else if i < 38 then (if i < 35
     then (if i < 34 then [(10, lit [111, 108, 108, 98, 97, 99, 107]), (39, Star letter_digit), (55, Empty)] else
     [(4, lit [101, 108, 101, 99, 116]), (13, lit [104, 111, 119]), (26, lit [101, 116]), (39, Star letter_digit),
     (55, Empty)]) else if i < 36 then [(18, lit [97, 98, 108, 101]), (19, lit [97, 98, 108, 101, 115]), (39, Star
     letter_digit), (55, Empty)] else if i < 37 then [(7, lit [112, 100, 97, 116, 101]), (14, lit [115, 101]), (15,
     lit [115, 105, 110, 103]), (30, lit [110, 105, 113, 117, 101]), (39, Star letter_digit), (55, Empty)] else
     [(27, lit [97, 108, 117, 101, 115]), (39, Star letter_digit), (55, Empty)]) else if i < 41 then (if i < 39 then
     [(24, lit [104, 101, 114, 101]), (39, Star letter_digit), (55, Empty)] else if i < 40 then [(1, string_tail)]
     else [(1, Empty)]) else if i < 42 then [(1, Seq (Seq any_char (Star (Alt (Seq (lit [92]) any_char) (Chars [(0,
     33), (35, 91), (93, 255)])))) (lit [34]))] else if i < 43 then [(40, Seq digit (Star digit))] else [(40,
     float_tail), (41, Star digit)]) else if i < 66 then (if i < 55 then (if i < 49 then (if i < 46 then (if i < 45
     then [(40, Star digit)] else [(44, Empty)]) else if i < 47 then [(43, Empty)] else if i < 48 then [(45, Empty)]
     else [(39, Star letter_digit)]) else if i < 52 then (if i < 50 then [(34, lit [100]), (39, Star letter_digit)]
     else if i < 51 then [(8, lit [103, 105, 110]), (39, Star letter_digit)] else [(31, lit [97, 114]), (39, Star
     letter_digit)]) else if i < 53 then [(9, lit [109, 109, 105, 116]), (39, Star letter_digit)] else if i < 54
     then [(2, lit [101, 97, 116, 101]), (39, Star letter_digit)] else [(16, lit [116, 97, 98, 97, 115, 101]), (17,
     lit [116, 97, 98, 97, 115, 101, 115]), (39, Star letter_digit)]) else if i < 60 then (if i < 57 then (if i < 56
     then [(6, lit [108, 101, 116, 101]), (39, Star letter_digit)] else [(3, lit [111, 112]), (39, Star
     letter_digit)]) else if i < 58 then [(12, lit [101, 99, 102, 105, 108, 101]), (39, Star letter_digit)] else if
     i < 59 then [(33, lit [111, 97, 116]), (39, Star letter_digit)] else [(23, lit [111, 109]), (39, Star
     letter_digit)]) else if i < 63 then (if i < 61 then [(5, lit [115, 101, 114, 116]), (20, lit [100, 101, 120]),
     (21, lit [100, 101, 120, 101, 115]), (25, lit [116, 111]), (32, lit [116]), (39, Star letter_digit)] else if i
     < 62 then [(37, Empty), (39, Star letter_digit)] else [(29, lit [121]), (39, Star letter_digit)]) else if i <
     64 then [(36, lit [116]), (39, Star letter_digit)] else if i < 65 then [(38, lit [108, 108]), (39, Star
     letter_digit)] else [(22, Empty), (39, Star letter_digit)]) else if i < 77 then (if i < 71 then (if i < 68 then
     (if i < 67 then [(35, Empty), (39, Star letter_digit)] else [(28, lit [105, 109, 97, 114, 121]), (39, Star
     letter_digit)]) else if i < 69 then [(11, lit [105, 116]), (39, Star letter_digit)] else if i < 70 then [(10,
     lit [108, 108, 98, 97, 99, 107]), (39, Star letter_digit)] else [(4, lit [108, 101, 99, 116]), (26, lit [116]),
     (39, Star letter_digit)]) else if i < 74 then (if i < 72 then [(13, lit [111, 119]), (39, Star letter_digit)]
     else if i < 73 then [(18, lit [98, 108, 101]), (19, lit [98, 108, 101, 115]), (39, Star letter_digit)] else
     [(30, lit [105, 113, 117, 101]), (39, Star letter_digit)]) else if i < 75 then [(7, lit [100, 97, 116, 101]),
     (39, Star letter_digit)] else if i < 76 then [(14, lit [101]), (15, lit [105, 110, 103]), (39, Star
     letter_digit)] else [(27, lit [108, 117, 101, 115]), (39, Star letter_digit)]) else if i < 82 then (if i < 79
     then (if i < 78 then [(24, lit [101, 114, 101]), (39, Star letter_digit)] else [(34, Empty), (39, Star
     letter_digit)]) else if i < 80 then [(8, lit [105, 110]), (39, Star letter_digit)] else if i < 81 then [(31,
     lit [114]), (39, Star letter_digit)] else [(9, lit [109, 105, 116]), (39, Star letter_digit)]) else if i < 85
     then (if i < 83 then [(2, lit [97, 116, 101]), (39, Star letter_digit)] else if i < 84 then [(16, lit [97, 98,
     97, 115, 101]), (17, lit [97, 98, 97, 115, 101, 115]), (39, Star letter_digit)] else [(6, lit [101, 116, 101]),
     (39, Star letter_digit)]) else if i < 86 then [(3, lit [112]), (39, Star letter_digit)] else if i < 87 then
     [(12, lit [99, 102, 105, 108, 101]), (39, Star letter_digit)] else [(33, lit [97, 116]), (39, Star
     letter_digit)]) else if i < 131 then (if i < 109 then (if i < 98 then (if i < 93 then (if i < 90 then (if i <
     89 then [(23, lit [109]), (39, Star letter_digit)] else [(20, lit [101, 120]), (21, lit [101, 120, 101, 115]),
     (39, Star letter_digit)]) else if i < 91 then [(5, lit [101, 114, 116]), (39, Star letter_digit)] else if i <
     92 then [(25, lit [111]), (32, Empty), (39, Star letter_digit)] else [(29, Empty), (39, Star letter_digit)])
     else if i < 95 then (if i < 94 then [(36, Empty), (39, Star letter_digit)] else [(38, lit [108]), (39, Star
     letter_digit)]) else if i < 96 then [(28, lit [109, 97, 114, 121]), (39, Star letter_digit)] else if i < 97
     then [(11, lit [116]), (39, Star letter_digit)] else [(10, lit [108, 98, 97, 99, 107]), (39, Star
     letter_digit)]) else if i < 103 then (if i < 100 then (if i < 99 then [(4, lit [101, 99, 116]), (39, Star
     letter_digit)] else [(26, Empty), (39, Star letter_digit)]) else if i < 101 then [(13, lit [119]), (39, Star
     letter_digit)] else if i < 102 then [(18, lit [108, 101]), (19, lit [108, 101, 115]), (39, Star letter_digit)]
     else [(30, lit [113, 117, 101]), (39, Star letter_digit)]) else if i < 106 then (if i < 104 then [(7, lit [97,
     116, 101]), (39, Star letter_digit)] else if i < 105 then [(14, Empty), (39, Star letter_digit)] else [(15, lit
     [110, 103]), (39, Star letter_digit)]) else if i < 107 then [(27, lit [117, 101, 115]), (39, Star
     letter_digit)] else if i < 108 then [(24, lit [114, 101]), (39, Star letter_digit)] else [(8, lit [110]), (39,
     Star letter_digit)]) else if i < 120 then (if i < 114 then (if i < 111 then (if i < 110 then [(31, Empty), (39,
     Star letter_digit)] else [(9, lit [105, 116]), (39, Star letter_digit)]) else if i < 112 then [(2, lit [116,
     101]), (39, Star letter_digit)] else if i < 113 then [(16, lit [98, 97, 115, 101]), (17, lit [98, 97, 115, 101,
     115]), (39, Star letter_digit)] else [(6, lit [116, 101]), (39, Star letter_digit)]) else if i < 117 then (if i
     < 115 then [(3, Empty), (39, Star letter_digit)] else if i < 116 then [(12, lit [102, 105, 108, 101]), (39,
     Star letter_digit)] else [(33, lit [116]), (39, Star letter_digit)]) else if i < 118 then [(23, Empty), (39,
     Star letter_digit)] else if i < 119 then [(20, lit [120]), (21, lit [120, 101, 115]), (39, Star letter_digit)]
     else [(5, lit [114, 116]), (39, Star letter_digit)]) else if i < 125 then (if i < 122 then (if i < 121 then
     [(25, Empty), (39, Star letter_digit)] else [(38, Empty), (39, Star letter_digit)]) else if i < 123 then [(28,
     lit [97, 114, 121]), (39, Star letter_digit)] else if i < 124 then [(11, Empty), (39, Star letter_digit)] else
     [(10, lit [98, 97, 99, 107]), (39, Star letter_digit)]) else if i < 128 then (if i < 126 then [(4, lit [99,
     116]), (39, Star letter_digit)] else if i < 127 then [(13, Empty), (39, Star letter_digit)] else [(18, lit
     [101]), (19, lit [101, 115]), (39, Star letter_digit)]) else if i < 129 then [(30, lit [117, 101]), (39, Star
     letter_digit)] else if i < 130 then [(7, lit [116, 101]), (39, Star letter_digit)] else [(15, lit [103]), (39,
     Star letter_digit)]) else if i < 153 then (if i < 142 then (if i < 136 then (if i < 133 then (if i < 132 then
     [(27, lit [101, 115]), (39, Star letter_digit)] else [(24, lit [101]), (39, Star letter_digit)]) else if i <
     134 then [(8, Empty), (39, Star letter_digit)] else if i < 135 then [(9, lit [116]), (39, Star letter_digit)]
     else [(2, lit [101]), (39, Star letter_digit)]) else if i < 139 then (if i < 137 then [(16, lit [97, 115,
     101]), (17, lit [97, 115, 101, 115]), (39, Star letter_digit)] else if i < 138 then [(6, lit [101]), (39, Star
     letter_digit)] else [(12, lit [105, 108, 101]), (39, Star letter_digit)]) else if i < 140 then [(33, Empty),
     (39, Star letter_digit)] else if i < 141 then [(20, Empty), (21, lit [101, 115]), (39, Star letter_digit)] else
     [(5, lit [116]), (39, Star letter_digit)]) else if i < 147 then (if i < 144 then (if i < 143 then [(28, lit
     [114, 121]), (39, Star letter_digit)] else [(10, lit [97, 99, 107]), (39, Star letter_digit)]) else if i < 145
     then [(4, lit [116]), (39, Star letter_digit)] else if i < 146 then [(18, Empty), (19, lit [115]), (39, Star
     letter_digit)] else [(30, lit [101]), (39, Star letter_digit)]) else if i < 150 then (if i < 148 then [(7, lit
     [101]), (39, Star letter_digit)] else if i < 149 then [(15, Empty), (39, Star letter_digit)] else [(27, lit
     [115]), (39, Star letter_digit)]) else if i < 151 then [(24, Empty), (39, Star letter_digit)] else if i < 152
     then [(9, Empty), (39, Star letter_digit)] else [(2, Empty), (39, Star letter_digit)]) else if i < 164 then (if
     i < 158 then (if i < 155 then (if i < 154 then [(16, lit [115, 101]), (17, lit [115, 101, 115]), (39, Star
     letter_digit)] else [(6, Empty), (39, Star letter_digit)]) else if i < 156 then [(12, lit [108, 101]), (39,
     Star letter_digit)] else if i < 157 then [(21, lit [115]), (39, Star letter_digit)] else [(5, Empty), (39, Star
     letter_digit)]) else if i < 161 then (if i < 159 then [(28, lit [121]), (39, Star letter_digit)] else if i <
     160 then [(10, lit [99, 107]), (39, Star letter_digit)] else [(4, Empty), (39, Star letter_digit)]) else if i <
     162 then [(19, Empty), (39, Star letter_digit)] else if i < 163 then [(30, Empty), (39, Star letter_digit)]
     else [(7, Empty), (39, Star letter_digit)]) else if i < 169 then (if i < 166 then (if i < 165 then [(27,
     Empty), (39, Star letter_digit)] else [(16, lit [101]), (17, lit [101, 115]), (39, Star letter_digit)]) else if
     i < 167 then [(12, lit [101]), (39, Star letter_digit)] else if i < 168 then [(21, Empty), (39, Star
     letter_digit)] else [(28, Empty), (39, Star letter_digit)]) else if i < 172 then (if i < 170 then [(10, lit
     [107]), (39, Star letter_digit)] else if i < 171 then [(16, Empty), (17, lit [115]), (39, Star letter_digit)]
     else [(12, Empty), (39, Star letter_digit)]) else if i < 173 then [(10, Empty), (39, Star letter_digit)] else
     if i < 174 then [(17, Empty), (39, Star letter_digit)] else [])"

text \<open>A character of each class.\<close>

definition rep_at :: "int \<Rightarrow> int" where
  "rep_at i =
     (if i < 22 then (if i < 11 then (if i < 6 then (if i < 3 then (if i < 2 then 1 else 9) else if i < 4 then 10
     else if i < 5 then 34 else 39) else if i < 8 then (if i < 7 then 40 else 41) else if i < 9 then 42 else if i <
     10 then 44 else 45) else if i < 16 then (if i < 13 then (if i < 12 then 46 else 48) else if i < 14 then 59 else
     if i < 15 then 60 else 61) else if i < 19 then (if i < 17 then 62 else if i < 18 then 65 else 92) else if i <
     20 then 97 else if i < 21 then 98 else 99) else if i < 32 then (if i < 27 then (if i < 24 then (if i < 23 then
     100 else 101) else if i < 25 then 102 else if i < 26 then 103 else 104) else if i < 29 then (if i < 28 then 105
     else 107) else if i < 30 then 108 else if i < 31 then 109 else 110) else if i < 37 then (if i < 34 then (if i <
     33 then 111 else 112) else if i < 35 then 113 else if i < 36 then 114 else 115) else if i < 40 then (if i < 38
     then 116 else if i < 39 then 117 else 118) else if i < 41 then 119 else if i < 42 then 120 else 121)"


lemma residual_1: "residual 1 = lex_rules"
  by code_simp

text \<open>The transition found after at most two default states.\<close>

definition entry2 :: "int \<Rightarrow> int \<Rightarrow> int" where
  "entry2 s i = (if chk_at i = s then nxt_at i else -1)"

definition default2 :: "int \<Rightarrow> int \<Rightarrow> int" where
  "default2 s c = entry2 s (base_at s + (if 175 \<le> s then meta_at c else c))"

definition entry1 :: "int \<Rightarrow> int \<Rightarrow> int \<Rightarrow> int" where
  "entry1 s c i = (if chk_at i = s then nxt_at i else default2 (def_at s) c)"

definition sel1 :: "int \<Rightarrow> int \<Rightarrow> int" where
  "sel1 s c = entry1 s c (base_at s + c)"

definition default1 :: "int \<Rightarrow> int \<Rightarrow> int" where
  "default1 s c = sel1 s (if 175 \<le> s then meta_at c else c)"

definition entry0 :: "int \<Rightarrow> int \<Rightarrow> int \<Rightarrow> int" where
  "entry0 s c i = (if chk_at i = s then nxt_at i else default1 (def_at s) c)"

definition delta :: "int \<Rightarrow> int \<Rightarrow> int" where
  "delta s c = entry0 s c (base_at s + c)"

section \<open>Checks\<close>

definition edge_ok :: "int \<Rightarrow> int \<Rightarrow> int \<Rightarrow> (int \<times> rexp) list \<Rightarrow> bool" where
  "edge_ok b c t v = (0 < t \<and> t \<le> 174 \<and> t \<noteq> 2 \<and> t \<noteq> 3 \<and> v = residual t \<and> (b = 189 \<longrightarrow> t = 174))"

fun row_ok :: "int \<Rightarrow> (int \<times> rexp) list \<Rightarrow> int \<Rightarrow> int list \<Rightarrow> bool" where
  "row_ok s v b [] = True"
| "row_ok s v b (c # cs) = (edge_ok b c (delta s c) (advance (rep_at c) v) \<and> row_ok s v b cs)"

fun rows_ok :: "int list \<Rightarrow> bool" where
  "rows_ok [] = True"
| "rows_ok (s # ss) = (accept_at s = accepted (residual s) \<and> delta s 0 = 3 \<and> row_ok s (residual s) (base_at s) [1..42] \<and> rows_ok ss)"

lemma row_1_checked: "rows_ok [1]"
  by code_simp

lemma rows_4_checked: "rows_ok [4..30]"
  by code_simp

lemma rows_31_checked: "rows_ok [31..65]"
  by code_simp

lemma rows_66_checked: "rows_ok [66..100]"
  by code_simp

lemma rows_101_checked: "rows_ok [101..135]"
  by code_simp

lemma rows_136_checked: "rows_ok [136..174]"
  by code_simp

definition dfa_state :: "int \<Rightarrow> bool" where
  "dfa_state s \<longleftrightarrow> s = 1 \<or> 4 \<le> s \<and> s \<le> 174"

lemma rows_okD: "rows_ok ss \<Longrightarrow> s \<in> set ss \<Longrightarrow>
    accept_at s = accepted (residual s) \<and> delta s 0 = 3 \<and> row_ok s (residual s) (base_at s) [1..42]"
  by (induction ss rule: rows_ok.induct) auto

lemma row_okD: "row_ok s v b cs \<Longrightarrow> c \<in> set cs \<Longrightarrow> edge_ok b c (delta s c) (advance (rep_at c) v)"
  by (induction s v b cs rule: row_ok.induct) auto

lemma rows_okD':
  assumes "rows_ok [a..b]" "a \<le> s" "s \<le> b"
  shows "accept_at s = accepted (residual s) \<and> delta s 0 = 3 \<and> row_ok s (residual s) (base_at s) [1..42]"
  by (rule rows_okD [OF assms(1)]) (use assms(2,3) in \<open>simp only: set_upto atLeastAtMost_iff\<close>)

lemma state_checked:
  assumes "dfa_state s"
  shows "accept_at s = accepted (residual s)" "delta s 0 = 3" "row_ok s (residual s) (base_at s) [1..42]"
proof -
  consider "s = 1" | "4 \<le> s" "s \<le> 30" | "31 \<le> s" "s \<le> 65" | "66 \<le> s" "s \<le> 100" | "101 \<le> s" "s \<le> 135" | "136 \<le> s" "s \<le> 174"
    using assms unfolding dfa_state_def by linarith
  then have "accept_at s = accepted (residual s) \<and> delta s 0 = 3 \<and> row_ok s (residual s) (base_at s) [1..42]"
  proof cases
    case 1
    then show ?thesis using rows_okD [OF row_1_checked] by simp
  qed (rule rows_okD' [OF rows_4_checked] rows_okD' [OF rows_31_checked] rows_okD' [OF rows_66_checked]
      rows_okD' [OF rows_101_checked] rows_okD' [OF rows_136_checked]; assumption)+
  then show "accept_at s = accepted (residual s)" "delta s 0 = 3" "row_ok s (residual s) (base_at s) [1..42]" by auto
qed

lemma edge_checked:
  assumes "dfa_state s" "1 \<le> c" "c \<le> 42"
  shows "dfa_state (delta s c)" "advance (rep_at c) (residual s) = residual (delta s c)" "base_at s = 189 \<Longrightarrow> delta s c = 174"
proof -
  have "edge_ok (base_at s) c (delta s c) (advance (rep_at c) (residual s))"
    by (rule row_okD [OF state_checked(3) [OF assms(1)]]) (use assms(2,3) in \<open>simp only: set_upto atLeastAtMost_iff\<close>)
  then show "dfa_state (delta s c)" "advance (rep_at c) (residual s) = residual (delta s c)" "base_at s = 189 \<Longrightarrow> delta s c = 174"
    by (auto simp: edge_ok_def dfa_state_def)
qed

section \<open>Characters of one class\<close>

fun ranges :: "rexp \<Rightarrow> (int \<times> int) list list" where
  "ranges (Chars rs) = [rs]"
| "ranges (Seq r q) = ranges r @ ranges q"
| "ranges (Alt r q) = ranges r @ ranges q"
| "ranges (Star r) = ranges r"
| "ranges _ = []"

lemma ranges_mk_seq: "set (ranges (mk_seq r q)) \<subseteq> set (ranges r) \<union> set (ranges q)"
  by (cases r) auto

lemma ranges_mk_alt: "set (ranges (mk_alt r q)) \<subseteq> set (ranges r) \<union> set (ranges q)"
  by (cases r) auto

lemma ranges_deriv: "set (ranges (deriv x r)) \<subseteq> set (ranges r)"
proof (induction r)
  case (Seq r q)
  then show ?case using ranges_mk_seq [of "deriv x r" q] ranges_mk_alt [of "mk_seq (deriv x r) q" "deriv x q"] by auto
next
  case (Alt r q)
  then show ?case using ranges_mk_alt [of "deriv x r" "deriv x q"] by auto
next
  case (Star r)
  then show ?case using ranges_mk_seq [of "deriv x r" "Star r"] by auto
qed simp_all

lemma deriv_same: "\<forall>rs \<in> set (ranges r). in_ranges x rs = in_ranges y rs \<Longrightarrow> deriv x r = deriv y r"
  by (induction r) auto

definition all_ranges :: "(int \<times> rexp) list \<Rightarrow> (int \<times> int) list set" where
  "all_ranges v = (\<Union>(k, r) \<in> set v. set (ranges r))"

lemma all_ranges_Cons: "all_ranges ((k, r) # v) = set (ranges r) \<union> all_ranges v"
  by (simp add: all_ranges_def)

lemma advance_same: "\<forall>rs \<in> all_ranges v. in_ranges x rs = in_ranges y rs \<Longrightarrow> advance x v = advance y v"
proof (induction v)
  case (Cons a v)
  obtain k r where a: "a = (k, r)" by (cases a)
  have "deriv x r = deriv y r" using Cons.prems a by (intro deriv_same) (simp add: all_ranges_Cons)
  moreover have "advance x v = advance y v" using Cons a by (simp add: all_ranges_Cons)
  ultimately show ?case using a by (simp add: Let_def)
qed simp

lemma all_ranges_advance: "all_ranges (advance x v) \<subseteq> all_ranges v"
  using ranges_deriv by (fastforce simp: all_ranges_def set_advance)

lemma all_ranges_advances: "all_ranges (advances w v) \<subseteq> all_ranges v"
proof (induction w arbitrary: v)
  case (Cons x w)
  then show ?case using all_ranges_advance [of x v] by (metis advances.simps(2) subset_trans)
qed simp

definition rule_ranges :: "(int \<times> int) list list" where
  "rule_ranges = remdups (concat (map (ranges \<circ> snd) lex_rules))"

lemma all_ranges_rules: "all_ranges lex_rules = set rule_ranges"
  by (auto simp: all_ranges_def rule_ranges_def)

fun same_ranges :: "int \<Rightarrow> int \<Rightarrow> (int \<times> int) list list \<Rightarrow> bool" where
  "same_ranges x y [] = True"
| "same_ranges x y (rs # rss) = (in_ranges x rs = in_ranges y rs \<and> same_ranges x y rss)"

fun chars_ok :: "(int \<times> int) list list \<Rightarrow> int list \<Rightarrow> bool" where
  "chars_ok rss [] = True"
| "chars_ok rss (x # xs) = (1 \<le> ec_at x \<and> ec_at x \<le> 42 \<and> same_ranges x (rep_at (ec_at x)) rss \<and> chars_ok rss xs)"

lemma chars_checked: "chars_ok rule_ranges [1..255]"
  by code_simp

lemma same_rangesD: "same_ranges x y rss \<Longrightarrow> rs \<in> set rss \<Longrightarrow> in_ranges x rs = in_ranges y rs"
  by (induction x y rss rule: same_ranges.induct) auto

lemma chars_okD: "chars_ok rss xs \<Longrightarrow> x \<in> set xs \<Longrightarrow> 1 \<le> ec_at x \<and> ec_at x \<le> 42 \<and> same_ranges x (rep_at (ec_at x)) rss"
  by (induction rss xs rule: chars_ok.induct) auto

definition plain_char :: "int \<Rightarrow> bool" where
  "plain_char x \<longleftrightarrow> 1 \<le> x \<and> x \<le> 255"

lemma class_checked:
  assumes "plain_char x"
  shows "1 \<le> ec_at x" "ec_at x \<le> 42" "advance x (advances w lex_rules) = advance (rep_at (ec_at x)) (advances w lex_rules)"
proof -
  have c: "1 \<le> ec_at x \<and> ec_at x \<le> 42 \<and> same_ranges x (rep_at (ec_at x)) rule_ranges"
    by (rule chars_okD [OF chars_checked]) (use assms in \<open>simp only: plain_char_def set_upto atLeastAtMost_iff\<close>)
  then show "1 \<le> ec_at x" "ec_at x \<le> 42" by auto
  show "advance x (advances w lex_rules) = advance (rep_at (ec_at x)) (advances w lex_rules)"
    using c all_ranges_advances [of w lex_rules] all_ranges_rules same_rangesD by (intro advance_same) blast
qed

section \<open>The automaton computes the longest match\<close>

fun dfa_scan :: "int \<Rightarrow> int list \<Rightarrow> int \<Rightarrow> int \<times> int \<Rightarrow> int \<times> int" where
  "dfa_scan s [] n best = better (accept_at s) n best"
| "dfa_scan s (x # w) n best = (if base_at s = 189 then better (accept_at s) n best
     else dfa_scan (delta s (ec_at x)) w (n + 1) (better (accept_at s) n best))"

lemma advances_snoc: "advances (u @ [x]) v = advance x (advances u v)"
  by (induction u arbitrary: v) simp_all

lemma residual_174: "residual 174 = []"
  by code_simp

lemma dfa_step:
  assumes "dfa_state s" "residual s = advances u lex_rules" "plain_char x"
  shows "dfa_state (delta s (ec_at x))" "residual (delta s (ec_at x)) = advances (u @ [x]) lex_rules"
    "base_at s = 189 \<Longrightarrow> advances (u @ [x]) lex_rules = []"
  using edge_checked [OF assms(1) class_checked(1,2) [OF assms(3)]] class_checked(3) [OF assms(3), of u] assms(2) residual_174
  by (simp_all add: advances_snoc)

lemma dfa_scan_munch:
  "dfa_state s \<Longrightarrow> residual s = advances u lex_rules \<Longrightarrow> \<forall>x \<in> set w. plain_char x \<Longrightarrow>
   dfa_scan s w n best = munch (advances u lex_rules) w n best"
proof (induction w arbitrary: s u n best)
  case Nil
  then show ?case using state_checked(1) by simp
next
  case (Cons x w)
  then have x: "plain_char x" by simp
  note step = dfa_step [OF Cons.prems(1,2) x]
  have acc: "accept_at s = accepted (advances u lex_rules)" using state_checked(1) Cons.prems(1,2) by simp
  show ?case
  proof (cases "base_at s = 189")
    case True
    then show ?thesis using step(3) acc by (simp add: advances_snoc munch_Nil)
  next
    case False
    then show ?thesis using Cons.IH [OF step(1,2)] Cons.prems(3) acc by (simp add: advances_snoc)
  qed
qed

lemma dfa_longest: "\<forall>x \<in> set (map code s). plain_char x \<Longrightarrow> dfa_scan 1 (map code s) 0 (0, 0) = longest s"
  using dfa_scan_munch [of 1 "[]" "map code s" 0 "(0, 0)"] residual_1 by (simp add: dfa_state_def longest_def)

section \<open>The loop over default states\<close>

lemma flex_bounds:
  "\<forall>b \<in> set yy_base. 0 \<le> b \<and> b \<le> 189" "\<forall>d \<in> set yy_def. 0 \<le> d \<and> d \<le> 176" "\<forall>m \<in> set yy_meta. 0 \<le> m \<and> m \<le> 42"
  by code_simp+

lemma base_range: "0 \<le> s \<Longrightarrow> s \<le> 176 \<Longrightarrow> 0 \<le> base_at s \<and> base_at s \<le> 189"
  by (rule bspec [OF flex_bounds(1) at_in_set [OF flex_tables_as_trees(4)]])

lemma def_range: "0 \<le> s \<Longrightarrow> s \<le> 176 \<Longrightarrow> 0 \<le> def_at s \<and> def_at s \<le> 176"
  by (rule bspec [OF flex_bounds(2) at_in_set [OF flex_tables_as_trees(5)]])

lemma meta_range: "0 \<le> c \<Longrightarrow> c \<le> 42 \<Longrightarrow> 0 \<le> meta_at c \<and> meta_at c \<le> 42"
  by (rule bspec [OF flex_bounds(3) at_in_set [OF flex_tables_as_trees(3)]])

lemma yy_next_step:
  assumes "0 \<le> s" "s \<le> 176" "0 \<le> c" "c \<le> 42"
  shows "yy_next s c = (if chk_at (base_at s + c) = s then Some (Inr (nxt_at (base_at s + c)))
    else yy_next (def_at s) (if 175 \<le> def_at s then meta_at c else c))"
  using assms base_range [of s] def_range [of s]
  by (subst yy_next.simps) (simp add: flex_tables_as_trees rd_upto)

lemma yy_next_delta:
  assumes "0 \<le> s" "s \<le> 176" "0 \<le> c" "c \<le> 42" "delta s c \<noteq> -1"
  shows "yy_next s c = Some (Inr (delta s c))"
proof -
  let ?c1 = "if 175 \<le> def_at s then meta_at c else c" and ?s1 = "def_at s"
  let ?c2 = "if 175 \<le> def_at ?s1 then meta_at ?c1 else ?c1" and ?s2 = "def_at ?s1"
  have 1: "0 \<le> ?s1" "?s1 \<le> 176" "0 \<le> ?c1" "?c1 \<le> 42" using assms(1-4) def_range [of s] meta_range [of c] by auto
  have 2: "0 \<le> ?s2" "?s2 \<le> 176" "0 \<le> ?c2" "?c2 \<le> 42" using 1 def_range [of ?s1] meta_range [of ?c1] by auto
  show ?thesis
    using assms(5) unfolding yy_next_step [OF assms(1-4)] yy_next_step [OF 1] yy_next_step [OF 2]
    by (auto simp: delta_def entry0_def default1_def sel1_def entry1_def default2_def entry2_def)
qed

lemma yy_next_dfa:
  assumes "dfa_state s"
  shows "plain_char x \<Longrightarrow> yy_next s (ec_at x) = Some (Inr (delta s (ec_at x)))" "yy_next s 0 = Some (Inr 3)"
proof -
  have s: "0 \<le> s" "s \<le> 176" using assms by (auto simp: dfa_state_def)
  show "yy_next s 0 = Some (Inr 3)" using yy_next_delta [OF s, of 0] state_checked(2) [OF assms] by simp
  assume x: "plain_char x"
  note c = class_checked(1,2) [OF x]
  then have "delta s (ec_at x) \<noteq> -1" using edge_checked(1) [OF assms c] by (auto simp: dfa_state_def)
  then show "yy_next s (ec_at x) = Some (Inr (delta s (ec_at x)))" using yy_next_delta [OF s, of "ec_at x"] c by simp
qed

lemma yy_next_3: "yy_next 3 0 = Some (Inr 174)"
  by (rule trans [OF yy_next_delta]) code_simp+

end
