(* ===== verification/Flex_Buffers.thy ===== *)
theory Flex_Buffers
  imports Flex_Tables
begin

text \<open>
  The buffers of the scanner flex generated, src/MiniSQL/src/parser/minisql_lex.c: the stack of buffers,
  buffers that hold a text and buffers that are filled from a file, pushing characters back and reading
  them one by one. Buffers are records at addresses, pointers into a buffer's characters are offsets.
  What the scanner gets from outside is a record: the characters that can still be read from each file,
  which files are terminals, and what fresh memory holds; allocation and reading do not fail. The line and
  column counts of a buffer, which nothing reads, are left out.
\<close>

section \<open>State\<close>

datatype buffer_status = YY_BUFFER_NEW | YY_BUFFER_NORMAL | YY_BUFFER_EOF_PENDING

type_synonym file_ptr = "nat option"

record yy_buffer =
  yy_input_file :: file_ptr
  yy_ch_buf :: string
  yy_buf_pos :: int
  yy_buf_size :: int
  buf_n_chars :: int
  yy_is_our_buffer :: bool
  yy_is_interactive :: bool
  yy_at_bol :: bool
  yy_fill_buffer :: bool
  yy_buffer_status :: buffer_status

record environment =
  streams :: "nat \<Rightarrow> string"
  is_tty :: "nat \<Rightarrow> bool"
  fresh_char :: "nat \<Rightarrow> char"

record flex =
  buffers :: "nat \<Rightarrow> yy_buffer option"
  next_buffer :: nat
  yy_buffer_stack :: "nat option list option"
  yy_buffer_stack_top :: nat
  yy_n_chars :: int
  yyleng :: int
  yy_c_buf_p :: int
  yytext_ptr :: int
  yy_hold_char :: char
  yy_init :: bool
  yy_start :: int
  yy_did_buffer_switch_on_eof :: bool
  yy_last_accepting_state :: int
  yy_last_accepting_cpos :: int
  yyin :: file_ptr
  yyout :: file_ptr
  yylineno :: int
  yy_flex_debug :: int
  env :: environment

text \<open>\<^verbatim>\<open>stdin\<close> and \<^verbatim>\<open>stdout\<close>, and the state at the start of the program.\<close>

definition stdin_file :: file_ptr where
  "stdin_file = Some 0"

definition stdout_file :: file_ptr where
  "stdout_file = Some 1"

definition flex_globals :: "environment \<Rightarrow> flex" where
  "flex_globals e = \<lparr>buffers = Map.empty, next_buffer = 0, yy_buffer_stack = None, yy_buffer_stack_top = 0, yy_n_chars = 0, yyleng = 0,
     yy_c_buf_p = 0, yytext_ptr = 0, yy_hold_char = CHR 0x00, yy_init = False, yy_start = 0, yy_did_buffer_switch_on_eof = False,
     yy_last_accepting_state = 0, yy_last_accepting_cpos = 0, yyin = None, yyout = None, yylineno = 1, yy_flex_debug = 0, env = e\<rparr>"

definition YY_END_OF_BUFFER_CHAR :: char where
  "YY_END_OF_BUFFER_CHAR = CHR 0x00"

definition YY_BUF_SIZE :: nat where
  "YY_BUF_SIZE = 16384"

definition YY_READ_BUF_SIZE :: int where
  "YY_READ_BUF_SIZE = 8192"

section \<open>The stack of buffers\<close>

text \<open>\<^verbatim>\<open>YY_CURRENT_BUFFER\<close>, and assigning to it. The size of the array is \<^verbatim>\<open>yy_buffer_stack_max\<close>.\<close>

definition current_buffer :: "flex \<Rightarrow> nat option" where
  "current_buffer f = (case yy_buffer_stack f of None \<Rightarrow> None
     | Some st \<Rightarrow> if yy_buffer_stack_top f < length st then st ! yy_buffer_stack_top f else None)"

definition set_current_buffer :: "nat option \<Rightarrow> flex \<Rightarrow> flex res" where
  "set_current_buffer p f = (case yy_buffer_stack f of None \<Rightarrow> Inl NullDeref
     | Some st \<Rightarrow> if yy_buffer_stack_top f < length st then Inr (f\<lparr>yy_buffer_stack := Some (st[yy_buffer_stack_top f := p])\<rparr>)
         else Inl Undefined)"

definition yyensure_buffer_stack :: "flex \<Rightarrow> flex" where
  "yyensure_buffer_stack f = (case yy_buffer_stack f of
     None \<Rightarrow> f\<lparr>yy_buffer_stack := Some [None], yy_buffer_stack_top := 0\<rparr>
   | Some st \<Rightarrow> if st \<noteq> [] \<and> length st - 1 \<le> yy_buffer_stack_top f then f\<lparr>yy_buffer_stack := Some (st @ replicate 8 None)\<rparr> else f)"

definition current :: "flex \<Rightarrow> yy_buffer res" where
  "current f = (case current_buffer f of None \<Rightarrow> Inl NullDeref
     | Some p \<Rightarrow> (case buffers f p of None \<Rightarrow> Inl Undefined | Some b \<Rightarrow> Inr b))"

definition set_current :: "yy_buffer \<Rightarrow> flex \<Rightarrow> flex" where
  "set_current b f = (case current_buffer f of None \<Rightarrow> f | Some p \<Rightarrow> f\<lparr>buffers := (buffers f)(p \<mapsto> b)\<rparr>)"

text \<open>Reading and writing through a pointer into the characters of the current buffer.\<close>

definition getc :: "flex \<Rightarrow> int \<Rightarrow> char res" where
  "getc f i = res_bind (current f) (\<lambda>b. rd (yy_ch_buf b) i)"

definition putc :: "flex \<Rightarrow> int \<Rightarrow> char \<Rightarrow> flex res" where
  "putc f i c = res_bind (current f) (\<lambda>b. if 0 \<le> i \<and> i < len (yy_ch_buf b)
     then Inr (set_current (b\<lparr>yy_ch_buf := (yy_ch_buf b)[nat i := c]\<rparr>) f) else Inl Undefined)"

definition yy_load_buffer_state :: "flex \<Rightarrow> flex res" where
  "yy_load_buffer_state f = res_bind (current f) (\<lambda>b. res_bind (rd (yy_ch_buf b) (yy_buf_pos b)) (\<lambda>c.
     Inr (f\<lparr>yy_n_chars := buf_n_chars b, yytext_ptr := yy_buf_pos b, yy_c_buf_p := yy_buf_pos b, yyin := yy_input_file b, yy_hold_char := c\<rparr>)))"

definition flush_current :: "flex \<Rightarrow> flex res" where
  "flush_current f = (if current_buffer f = None then Inr f else
     res_bind (putc f (yy_c_buf_p f) (yy_hold_char f)) (\<lambda>f1. res_bind (current f1) (\<lambda>b.
       Inr (set_current (b\<lparr>yy_buf_pos := yy_c_buf_p f1, buf_n_chars := yy_n_chars f1\<rparr>) f1))))"

definition yy_switch_to_buffer :: "nat \<Rightarrow> flex \<Rightarrow> flex res" where
  "yy_switch_to_buffer p f0 = (let f = yyensure_buffer_stack f0 in
     if current_buffer f = Some p then Inr f
     else res_bind (flush_current f) (\<lambda>f1. res_bind (set_current_buffer (Some p) f1) (\<lambda>f2.
       res_bind (yy_load_buffer_state f2) (\<lambda>f3. Inr (f3\<lparr>yy_did_buffer_switch_on_eof := True\<rparr>)))))"

definition yy_delete_buffer :: "nat option \<Rightarrow> flex \<Rightarrow> flex res" where
  "yy_delete_buffer b f = (case b of None \<Rightarrow> Inr f
     | Some p \<Rightarrow> res_bind (if current_buffer f = Some p then set_current_buffer None f else Inr f) (\<lambda>f1.
         if buffers f1 p = None then Inl Undefined else Inr (f1\<lparr>buffers := (buffers f1)(p := None)\<rparr>)))"

definition yypush_buffer_state :: "nat option \<Rightarrow> flex \<Rightarrow> flex res" where
  "yypush_buffer_state new_buffer f0 = (case new_buffer of None \<Rightarrow> Inr f0 | Some p \<Rightarrow>
     let f = yyensure_buffer_stack f0 in
     res_bind (flush_current f) (\<lambda>f1.
     let f2 = (if current_buffer f1 \<noteq> None then f1\<lparr>yy_buffer_stack_top := yy_buffer_stack_top f1 + 1\<rparr> else f1) in
     res_bind (set_current_buffer (Some p) f2) (\<lambda>f3.
     res_bind (yy_load_buffer_state f3) (\<lambda>f4. Inr (f4\<lparr>yy_did_buffer_switch_on_eof := True\<rparr>)))))"

definition yypop_buffer_state :: "flex \<Rightarrow> flex res" where
  "yypop_buffer_state f = (if current_buffer f = None then Inr f
     else res_bind (yy_delete_buffer (current_buffer f) f) (\<lambda>f1. res_bind (set_current_buffer None f1) (\<lambda>f2.
       let f3 = (if 0 < yy_buffer_stack_top f2 then f2\<lparr>yy_buffer_stack_top := yy_buffer_stack_top f2 - 1\<rparr> else f2) in
       if current_buffer f3 \<noteq> None
       then res_bind (yy_load_buffer_state f3) (\<lambda>f4. Inr (f4\<lparr>yy_did_buffer_switch_on_eof := True\<rparr>))
       else Inr f3)))"

definition yy_init_globals :: "flex \<Rightarrow> flex" where
  "yy_init_globals f = f\<lparr>yylineno := 1, yy_buffer_stack := None, yy_buffer_stack_top := 0, yy_c_buf_p := 0, yy_init := False, yy_start := 0,
     yyin := None, yyout := None\<rparr>"

partial_function (option) destroy_loop :: "flex \<Rightarrow> flex res option" where
  "destroy_loop f = (if current_buffer f = None then Some (Inr f)
     else ro_bind (Some (yy_delete_buffer (current_buffer f) f)) (\<lambda>f1. ro_bind (Some (set_current_buffer None f1)) (\<lambda>f2.
       ro_bind (Some (yypop_buffer_state f2)) destroy_loop)))"

definition yylex_destroy :: "flex \<Rightarrow> flex res option" where
  "yylex_destroy f = ro_bind (destroy_loop f) (\<lambda>f1. Some (Inr (yy_init_globals (f1\<lparr>yy_buffer_stack := None\<rparr>))))"

section \<open>Buffers that hold a text\<close>

definition yy_scan_buffer :: "string \<Rightarrow> flex \<Rightarrow> (nat option \<times> flex) res" where
  "yy_scan_buffer base f = (let size = len base in
     if size < 2 \<or> tab base (size - 2) \<noteq> YY_END_OF_BUFFER_CHAR \<or> tab base (size - 1) \<noteq> YY_END_OF_BUFFER_CHAR then Inr (None, f)
     else let p = next_buffer f;
              b = \<lparr>yy_input_file = None, yy_ch_buf = base, yy_buf_pos = 0, yy_buf_size = size - 2, buf_n_chars = size - 2,
                yy_is_our_buffer = False, yy_is_interactive = False, yy_at_bol = True, yy_fill_buffer = False, yy_buffer_status = YY_BUFFER_NEW\<rparr>
       in res_bind (yy_switch_to_buffer p (f\<lparr>buffers := (buffers f)(p \<mapsto> b), next_buffer := p + 1\<rparr>)) (\<lambda>f1. Inr (Some p, f1)))"

text \<open>\<^verbatim>\<open>YY_FATAL_ERROR\<close> ends the program.\<close>

definition yy_scan_bytes :: "string \<Rightarrow> flex \<Rightarrow> (nat \<times> flex) res" where
  "yy_scan_bytes bytes f = res_bind (yy_scan_buffer (bytes @ [YY_END_OF_BUFFER_CHAR, YY_END_OF_BUFFER_CHAR]) f) (\<lambda>(b, f1).
     case b of None \<Rightarrow> Inl LogicError
     | Some p \<Rightarrow> (case buffers f1 p of None \<Rightarrow> Inl Undefined
         | Some b \<Rightarrow> Inr (p, f1\<lparr>buffers := (buffers f1)(p \<mapsto> b\<lparr>yy_is_our_buffer := True\<rparr>)\<rparr>)))"

definition yy_scan_string :: "string \<Rightarrow> flex \<Rightarrow> (nat \<times> flex) res" where
  "yy_scan_string yystr f = yy_scan_bytes (takeWhile (\<lambda>c. c \<noteq> CHR 0x00) yystr) f"

section \<open>Buffers that are filled from a file\<close>

definition yy_flush_buffer :: "nat option \<Rightarrow> flex \<Rightarrow> flex res" where
  "yy_flush_buffer b f = (case b of None \<Rightarrow> Inr f
     | Some p \<Rightarrow> (case buffers f p of None \<Rightarrow> Inl Undefined
         | Some r \<Rightarrow> if length (yy_ch_buf r) < 2 then Inl Undefined
           else let r1 = r\<lparr>buf_n_chars := 0, yy_ch_buf := (yy_ch_buf r)[0 := YY_END_OF_BUFFER_CHAR, 1 := YY_END_OF_BUFFER_CHAR],
                      yy_buf_pos := 0, yy_at_bol := True, yy_buffer_status := YY_BUFFER_NEW\<rparr>;
                    f1 = f\<lparr>buffers := (buffers f)(p \<mapsto> r1)\<rparr>
                in if current_buffer f1 = Some p then yy_load_buffer_state f1 else Inr f1))"

definition yy_init_buffer :: "nat \<Rightarrow> file_ptr \<Rightarrow> flex \<Rightarrow> flex res" where
  "yy_init_buffer p file f = res_bind (yy_flush_buffer (Some p) f) (\<lambda>f1.
     case buffers f1 p of None \<Rightarrow> Inl Undefined
     | Some r \<Rightarrow> Inr (f1\<lparr>buffers := (buffers f1)(p \<mapsto> r\<lparr>yy_input_file := file, yy_fill_buffer := True,
         yy_is_interactive := (case file of None \<Rightarrow> False | Some n \<Rightarrow> is_tty (env f1) n)\<rparr>)\<rparr>))"

text \<open>What \<^verbatim>\<open>yyrealloc\<close> makes of an array.\<close>

definition resized :: "flex \<Rightarrow> nat \<Rightarrow> string \<Rightarrow> string" where
  "resized f n cs = take n cs @ map (fresh_char (env f)) [length cs..<n]"

definition yy_create_buffer :: "file_ptr \<Rightarrow> nat \<Rightarrow> flex \<Rightarrow> (nat \<times> flex) res" where
  "yy_create_buffer file n f = (let p = next_buffer f;
     b = \<lparr>yy_input_file = None, yy_ch_buf = resized f (n + 2) [], yy_buf_pos = 0, yy_buf_size = int n, buf_n_chars = 0,
       yy_is_our_buffer = True, yy_is_interactive = False, yy_at_bol = False, yy_fill_buffer = False, yy_buffer_status = YY_BUFFER_NEW\<rparr>
     in res_bind (yy_init_buffer p file (f\<lparr>buffers := (buffers f)(p \<mapsto> b), next_buffer := p + 1\<rparr>)) (\<lambda>f1. Inr (p, f1)))"

text \<open>A buffer for \<^verbatim>\<open>yyin\<close>, when there is none.\<close>

definition default_buffer :: "flex \<Rightarrow> flex res" where
  "default_buffer f = (if current_buffer f \<noteq> None then Inr f
     else let f1 = yyensure_buffer_stack f in
       res_bind (yy_create_buffer (yyin f1) YY_BUF_SIZE f1) (\<lambda>(p, f2). set_current_buffer (Some p) f2))"

definition yyrestart :: "file_ptr \<Rightarrow> flex \<Rightarrow> flex res" where
  "yyrestart file f = res_bind (default_buffer f) (\<lambda>f1. case current_buffer f1 of None \<Rightarrow> Inl NullDeref
     | Some p \<Rightarrow> res_bind (yy_init_buffer p file f1) yy_load_buffer_state)"

section \<open>Filling a buffer\<close>

datatype eob_act = EOB_ACT_CONTINUE_SCAN | EOB_ACT_END_OF_FILE | EOB_ACT_LAST_MATCH

text \<open>\<^verbatim>\<open>yy_size_t\<close> is unsigned.\<close>

definition size_t :: "int \<Rightarrow> int" where
  "size_t i = i mod 2 ^ 64"

text \<open>\<^verbatim>\<open>YY_INPUT\<close>: at most \<open>max_size\<close> characters, from a terminal at most a line, to offset \<open>i\<close> of the buffer.\<close>

definition YY_INPUT :: "int \<Rightarrow> int \<Rightarrow> flex \<Rightarrow> flex res" where
  "YY_INPUT i max_size f = res_bind (current f) (\<lambda>b. case yyin f of None \<Rightarrow> Inl NullDeref
     | Some file \<Rightarrow> let
         avail = take (nat max_size) (streams (env f) file);
         got = (if yy_is_interactive b then take (length (takeWhile (\<lambda>c. c \<noteq> CHR 0x0A) avail) + 1) avail else avail)
       in if i < 0 \<or> len (yy_ch_buf b) < i + len got then Inl Undefined
         else Inr ((set_current (b\<lparr>yy_ch_buf := take (nat i) (yy_ch_buf b) @ got @ drop (nat i + length got) (yy_ch_buf b)\<rparr>) f)
           \<lparr>yy_n_chars := len got, env := (env f)\<lparr>streams := (streams (env f))(file := drop (length got) (streams (env f) file))\<rparr>\<rparr>))"

text \<open>Moving \<open>n\<close> characters from \<open>source\<close> down to \<open>dest\<close>, one by one.\<close>

fun move_down :: "string \<Rightarrow> nat \<Rightarrow> nat \<Rightarrow> nat \<Rightarrow> string res" where
  "move_down cs dest source 0 = Inr cs"
| "move_down cs dest source (Suc n) = (if dest < length cs \<and> source < length cs
     then move_down (cs[dest := cs ! source]) (dest + 1) (source + 1) n else Inl Undefined)"

text \<open>
  Growing the buffer while there is no room; \<open>n\<close> characters are kept. Here and below, distances between pointers are
  converted to \<^verbatim>\<open>int\<close>.
\<close>

partial_function (option) grow_loop :: "int \<Rightarrow> int \<Rightarrow> flex \<Rightarrow> (int \<times> flex) res option" where
  "grow_loop n num_to_read f = (if num_to_read \<noteq> 0 then Some (Inr (num_to_read, f))
     else ro_bind (Some (current f)) (\<lambda>b. if \<not> yy_is_our_buffer b then Some (Inl LogicError)
       else let size = (if size_t (yy_buf_size b * 2) = 0 then size_t (yy_buf_size b + yy_buf_size b div 8) else size_t (yy_buf_size b * 2))
         in grow_loop n (size_t (size - n - 1)) (set_current (b\<lparr>yy_buf_size := size, yy_ch_buf := resized f (nat (size + 2)) (yy_ch_buf b)\<rparr>)
           (f\<lparr>yy_c_buf_p := to_int32 (yy_c_buf_p f)\<rparr>))))"

definition read_more :: "int \<Rightarrow> flex \<Rightarrow> flex res option" where
  "read_more n f = ro_bind (Some (current f)) (\<lambda>b.
     if yy_buffer_status b = YY_BUFFER_EOF_PENDING then Some (Inr ((set_current (b\<lparr>buf_n_chars := 0\<rparr>) f)\<lparr>yy_n_chars := 0\<rparr>))
     else ro_bind (grow_loop n (size_t (yy_buf_size b - n - 1)) f) (\<lambda>(num_to_read, f1).
       ro_bind (Some (YY_INPUT n (min num_to_read YY_READ_BUF_SIZE) f1)) (\<lambda>f2. ro_bind (Some (current f2)) (\<lambda>b2.
         Some (Inr (set_current (b2\<lparr>buf_n_chars := yy_n_chars f2\<rparr>) f2))))))"

text \<open>What the reading amounts to.\<close>

definition read_result :: "int \<Rightarrow> flex \<Rightarrow> (eob_act \<times> flex) res" where
  "read_result n f = (if yy_n_chars f \<noteq> 0 then Inr (EOB_ACT_CONTINUE_SCAN, f)
     else if n = 0 then res_bind (yyrestart (yyin f) f) (\<lambda>f1. Inr (EOB_ACT_END_OF_FILE, f1))
     else res_bind (current f) (\<lambda>b. Inr (EOB_ACT_LAST_MATCH, set_current (b\<lparr>yy_buffer_status := YY_BUFFER_EOF_PENDING\<rparr>) f)))"

definition end_buffer :: "int \<Rightarrow> flex \<Rightarrow> flex res" where
  "end_buffer n f = res_bind (current f) (\<lambda>b.
     let b1 = (if yy_buf_size b < yy_n_chars f + n
           then b\<lparr>yy_ch_buf := resized f (nat (yy_n_chars f + n + yy_n_chars f div 2)) (yy_ch_buf b)\<rparr> else b);
         f1 = (set_current b1 f)\<lparr>yy_n_chars := yy_n_chars f + n\<rparr> in
     res_bind (putc f1 (yy_n_chars f1) YY_END_OF_BUFFER_CHAR) (\<lambda>f2.
     res_bind (putc f2 (yy_n_chars f2 + 1) YY_END_OF_BUFFER_CHAR) (\<lambda>f3. Inr (f3\<lparr>yytext_ptr := 0\<rparr>))))"

definition yy_get_next_buffer :: "flex \<Rightarrow> (eob_act \<times> flex) res option" where
  "yy_get_next_buffer f = ro_bind (Some (current f)) (\<lambda>b.
     if yy_n_chars f + 1 < yy_c_buf_p f then Some (Inl LogicError)
     else if \<not> yy_fill_buffer b then Some (Inr (if yy_c_buf_p f - yytext_ptr f = 1 then EOB_ACT_END_OF_FILE else EOB_ACT_LAST_MATCH, f))
     else let n = to_int32 (yy_c_buf_p f - yytext_ptr f) - 1 in
       ro_bind (Some (move_down (yy_ch_buf b) 0 (nat (yytext_ptr f)) (nat n))) (\<lambda>cs.
       ro_bind (read_more n (set_current (b\<lparr>yy_ch_buf := cs\<rparr>) f)) (\<lambda>f1.
       ro_bind (Some (read_result n f1)) (\<lambda>(ret_val, f2).
       ro_bind (Some (end_buffer n f2)) (\<lambda>f3. Some (Inr (ret_val, f3)))))))"

section \<open>Characters given back and taken\<close>

text \<open>Moving the characters before \<open>source\<close> up to \<open>dest\<close>, from the last to the first.\<close>

fun move_up :: "string \<Rightarrow> nat \<Rightarrow> nat \<Rightarrow> string res" where
  "move_up cs dest 0 = Inr cs"
| "move_up cs dest (Suc source) = (if 0 < dest \<and> dest \<le> length cs \<and> source < length cs
     then move_up (cs[dest - 1 := cs ! source]) (dest - 1) source else Inl Undefined)"

definition yyunput :: "char \<Rightarrow> int \<Rightarrow> flex \<Rightarrow> flex res" where
  "yyunput c yy_bp f = res_bind (putc f (yy_c_buf_p f) (yy_hold_char f)) (\<lambda>f1. res_bind (current f1) (\<lambda>b.
     res_bind (if yy_c_buf_p f1 < 2
         then let number_to_move = yy_n_chars f1 + 2; d = to_int32 (yy_buf_size b + 2 - number_to_move) in
           res_bind (move_up (yy_ch_buf b) (nat (yy_buf_size b + 2)) (nat number_to_move)) (\<lambda>cs.
             if yy_c_buf_p f1 + d < 2 then Inl LogicError
             else Inr (yy_c_buf_p f1 + d, yy_bp + d,
               (set_current (b\<lparr>yy_ch_buf := cs, buf_n_chars := yy_buf_size b\<rparr>) f1)\<lparr>yy_n_chars := yy_buf_size b\<rparr>))
         else Inr (yy_c_buf_p f1, yy_bp, f1)) (\<lambda>(cp, bp, f2).
     res_bind (putc f2 (cp - 1) c) (\<lambda>f3.
       Inr (f3\<lparr>yylineno := (if c = CHR 0x0A then yylineno f3 - 1 else yylineno f3), yytext_ptr := bp, yy_hold_char := c, yy_c_buf_p := cp - 1\<rparr>)))))"

text \<open>\<^verbatim>\<open>yywrap\<close> says that there is no further file.\<close>

definition yywrap :: bool where [simp]:
  "yywrap = True"

definition take_char :: "flex \<Rightarrow> (int \<times> flex) res" where
  "take_char f = res_bind (getc f (yy_c_buf_p f)) (\<lambda>c. res_bind (putc f (yy_c_buf_p f) (CHR 0x00)) (\<lambda>f1.
     res_bind (getc f1 (yy_c_buf_p f1 + 1)) (\<lambda>h.
       Inr (code c, f1\<lparr>yy_c_buf_p := yy_c_buf_p f1 + 1, yy_hold_char := h, yylineno := (if c = CHR 0x0A then yylineno f1 + 1 else yylineno f1)\<rparr>))))"

partial_function (option) yyinput :: "flex \<Rightarrow> (int \<times> flex) res option" where
  "yyinput f = ro_bind (Some (putc f (yy_c_buf_p f) (yy_hold_char f))) (\<lambda>f1.
     if yy_hold_char f1 \<noteq> YY_END_OF_BUFFER_CHAR then Some (take_char f1)
     else if yy_c_buf_p f1 < yy_n_chars f1 then ro_bind (Some (putc f1 (yy_c_buf_p f1) (CHR 0x00))) (\<lambda>f2. Some (take_char f2))
     else let offset = yy_c_buf_p f1 - yytext_ptr f1 in
       ro_bind (yy_get_next_buffer (f1\<lparr>yy_c_buf_p := yy_c_buf_p f1 + 1\<rparr>)) (\<lambda>(act, f2).
         if act = EOB_ACT_CONTINUE_SCAN then Some (take_char (f2\<lparr>yy_c_buf_p := yytext_ptr f2 + offset\<rparr>))
         else ro_bind (Some (if act = EOB_ACT_LAST_MATCH then yyrestart (yyin f2) f2 else Inr f2)) (\<lambda>f3.
           if yywrap then Some (Inr (0, f3))
           else ro_bind (Some (if \<not> yy_did_buffer_switch_on_eof f3 then yyrestart (yyin f3) f3 else Inr f3)) yyinput)))"

section \<open>Variables that can be read and set\<close>

definition yyget_lineno :: "flex \<Rightarrow> int" where
  "yyget_lineno f = yylineno f"

definition yyget_in :: "flex \<Rightarrow> file_ptr" where
  "yyget_in f = yyin f"

definition yyget_out :: "flex \<Rightarrow> file_ptr" where
  "yyget_out f = yyout f"

definition yyget_leng :: "flex \<Rightarrow> int" where
  "yyget_leng f = yyleng f"

definition yyget_debug :: "flex \<Rightarrow> int" where
  "yyget_debug f = yy_flex_debug f"

definition yyset_lineno :: "int \<Rightarrow> flex \<Rightarrow> flex" where
  "yyset_lineno line_number f = f\<lparr>yylineno := line_number\<rparr>"

definition yyset_in :: "file_ptr \<Rightarrow> flex \<Rightarrow> flex" where
  "yyset_in in_str f = f\<lparr>yyin := in_str\<rparr>"

definition yyset_out :: "file_ptr \<Rightarrow> flex \<Rightarrow> flex" where
  "yyset_out out_str f = f\<lparr>yyout := out_str\<rparr>"

definition yyset_debug :: "int \<Rightarrow> flex \<Rightarrow> flex" where
  "yyset_debug bdebug f = f\<lparr>yy_flex_debug := bdebug\<rparr>"

section \<open>Facts about the current buffer\<close>

lemma current_buffer_frame [simp]:
  "current_buffer (f\<lparr>buffers := x\<rparr>) = current_buffer f" "current_buffer (f\<lparr>next_buffer := k\<rparr>) = current_buffer f"
  "current_buffer (f\<lparr>yy_n_chars := n\<rparr>) = current_buffer f" "current_buffer (f\<lparr>yyleng := n\<rparr>) = current_buffer f"
  "current_buffer (f\<lparr>yy_c_buf_p := n\<rparr>) = current_buffer f" "current_buffer (f\<lparr>yytext_ptr := n\<rparr>) = current_buffer f"
  "current_buffer (f\<lparr>yy_hold_char := c\<rparr>) = current_buffer f" "current_buffer (f\<lparr>yy_init := v\<rparr>) = current_buffer f"
  "current_buffer (f\<lparr>yy_start := n\<rparr>) = current_buffer f" "current_buffer (f\<lparr>yy_did_buffer_switch_on_eof := v\<rparr>) = current_buffer f"
  "current_buffer (f\<lparr>yy_last_accepting_state := n\<rparr>) = current_buffer f" "current_buffer (f\<lparr>yy_last_accepting_cpos := n\<rparr>) = current_buffer f"
  "current_buffer (f\<lparr>yyin := i\<rparr>) = current_buffer f" "current_buffer (f\<lparr>yyout := i\<rparr>) = current_buffer f"
  "current_buffer (f\<lparr>yylineno := n\<rparr>) = current_buffer f" "current_buffer (f\<lparr>env := e\<rparr>) = current_buffer f"
  by (simp_all add: current_buffer_def split: option.split)

lemma current_frame [simp]:
  "current (f\<lparr>yy_n_chars := n\<rparr>) = current f" "current (f\<lparr>yyleng := n\<rparr>) = current f" "current (f\<lparr>yy_c_buf_p := n\<rparr>) = current f"
  "current (f\<lparr>yytext_ptr := n\<rparr>) = current f" "current (f\<lparr>yy_hold_char := c\<rparr>) = current f" "current (f\<lparr>yy_init := v\<rparr>) = current f"
  "current (f\<lparr>yy_start := n\<rparr>) = current f" "current (f\<lparr>yy_did_buffer_switch_on_eof := v\<rparr>) = current f"
  "current (f\<lparr>yy_last_accepting_state := n\<rparr>) = current f" "current (f\<lparr>yy_last_accepting_cpos := n\<rparr>) = current f"
  "current (f\<lparr>yyin := i\<rparr>) = current f" "current (f\<lparr>yyout := i\<rparr>) = current f" "current (f\<lparr>yylineno := n\<rparr>) = current f"
  "current (f\<lparr>env := e\<rparr>) = current f"
  by (simp_all add: current_def split: option.split)

lemma current_set_current: "current f = Inr b \<Longrightarrow> current (set_current b' f) = Inr b'"
  by (auto simp: current_def set_current_def split: option.splits)

lemma set_current_fields [simp]:
  "current_buffer (set_current b f) = current_buffer f" "yy_n_chars (set_current b f) = yy_n_chars f" "yy_start (set_current b f) = yy_start f"
  "yy_init (set_current b f) = yy_init f" "yy_c_buf_p (set_current b f) = yy_c_buf_p f" "yytext_ptr (set_current b f) = yytext_ptr f"
  "yy_hold_char (set_current b f) = yy_hold_char f" "yy_last_accepting_state (set_current b f) = yy_last_accepting_state f"
  "yy_last_accepting_cpos (set_current b f) = yy_last_accepting_cpos f" "yyin (set_current b f) = yyin f" "env (set_current b f) = env f"
  "yylineno (set_current b f) = yylineno f"
  by (simp_all add: set_current_def split: option.split)

lemma putc_ok:
  assumes "current f = Inr b" "0 \<le> i" "i < len (yy_ch_buf b)"
  shows "putc f i c = Inr (set_current (b\<lparr>yy_ch_buf := (yy_ch_buf b)[nat i := c]\<rparr>) f)"
  using assms by (simp add: putc_def)

section \<open>What a buffer holds\<close>

text \<open>
  \<open>text_is f t s\<close>: the characters of the current buffer begin with \<open>t\<close>, and \<open>s\<close> is as long as the text that
  was read into it. \<open>holds_text f s\<close>: it holds the text \<open>s\<close> with its two end markers.
\<close>

definition padded :: "string \<Rightarrow> string" where
  "padded s = s @ [YY_END_OF_BUFFER_CHAR, YY_END_OF_BUFFER_CHAR]"

definition text_is :: "flex \<Rightarrow> string \<Rightarrow> string \<Rightarrow> bool" where
  "text_is f t s \<longleftrightarrow> (\<exists>b. current f = Inr b \<and> take (length t) (yy_ch_buf b) = t \<and> (yy_buffer_status b = YY_BUFFER_NEW \<longrightarrow> buf_n_chars b = len s)) \<and>
     yy_n_chars f = len s \<and> yy_start f = 1 \<and> yy_init f"

definition holds_text :: "flex \<Rightarrow> string \<Rightarrow> bool" where
  "holds_text f s \<longleftrightarrow> text_is f (padded s) s"

text \<open>
  What can still be read into the current buffer; and that reading works: a buffer of a text is never read
  into, one of a file has room for the text and its end, is as large as it says, and is marked as ended only when
  the file is. The bound on the text is that of the distances the code keeps in an \<^verbatim>\<open>int\<close>.
\<close>

definition unread :: "flex \<Rightarrow> string" where
  "unread f = (case current f of Inl e \<Rightarrow> [] | Inr b \<Rightarrow> if yy_fill_buffer b
     then (case yyin f of None \<Rightarrow> [] | Some k \<Rightarrow> streams (env f) k) else [])"

definition refillable :: "flex \<Rightarrow> string \<Rightarrow> bool" where
  "refillable f s \<longleftrightarrow> len s + len (unread f) + 1 < 2 ^ 31 \<and>
     (\<forall>b. current f = Inr b \<and> yy_fill_buffer b \<longrightarrow> yy_is_our_buffer b \<and> len s < yy_buf_size b \<and> yy_buf_size b < 2 ^ 64 \<and>
       len (yy_ch_buf b) = yy_buf_size b + 2 \<and> yyin f \<noteq> None \<and> (yy_buffer_status b = YY_BUFFER_EOF_PENDING \<longrightarrow> unread f = []))"

text \<open>Both depend only on the following, which scanning does not change.\<close>

definition input_source :: "flex \<Rightarrow> (int \<times> int \<times> bool \<times> bool \<times> bool) option \<times> file_ptr \<times> environment" where
  "input_source f = (case current f of Inl e \<Rightarrow> None
     | Inr b \<Rightarrow> Some (yy_buf_size b, len (yy_ch_buf b), yy_is_our_buffer b, yy_fill_buffer b, yy_buffer_status b = YY_BUFFER_EOF_PENDING), yyin f, env f)"

lemma source_unread: "input_source f = input_source g \<Longrightarrow> unread f = unread g"
  by (auto simp: input_source_def unread_def split: sum.splits option.splits)

lemma source_refillable:
  assumes "input_source f = input_source g"
  shows "refillable f s = refillable g s"
  using assms source_unread [OF assms] by (auto simp: input_source_def refillable_def split: sum.splits)

lemma source_frame [simp]:
  "input_source (f\<lparr>yy_n_chars := n\<rparr>) = input_source f" "input_source (f\<lparr>yyleng := n\<rparr>) = input_source f" "input_source (f\<lparr>yy_c_buf_p := n\<rparr>) = input_source f"
  "input_source (f\<lparr>yytext_ptr := n\<rparr>) = input_source f" "input_source (f\<lparr>yy_hold_char := c\<rparr>) = input_source f"
  "input_source (f\<lparr>yy_last_accepting_state := n\<rparr>) = input_source f" "input_source (f\<lparr>yy_last_accepting_cpos := n\<rparr>) = input_source f"
  "input_source (f\<lparr>yylineno := n\<rparr>) = input_source f"
  by (simp_all add: input_source_def split: sum.split)

lemma length_padded [simp]: "length (padded s) = length s + 2" "len (padded s) = len s + 2"
  by (simp_all add: padded_def len_length)

lemma padded_nth: "i < length s \<Longrightarrow> padded s ! i = s ! i" "padded s ! length s = CHR 0x00" "padded s ! Suc (length s) = CHR 0x00"
  by (simp_all add: padded_def nth_append YY_END_OF_BUFFER_CHAR_def)

section \<open>Refilling keeps the text\<close>

lemma move_down_ok:
  "dest \<le> source \<Longrightarrow> source + n \<le> length cs \<Longrightarrow> \<exists>cs'. move_down cs dest source n = Inr cs' \<and> length cs' = length cs \<and>
     take dest cs' = take dest cs \<and> take n (drop dest cs') = take n (drop source cs)"
proof (induction n arbitrary: cs dest source)
  case (Suc n)
  let ?cs = "cs[dest := cs ! source]"
  from Suc.IH [of "dest + 1" "source + 1" ?cs] Suc.prems obtain cs' where
    cs': "move_down ?cs (dest + 1) (source + 1) n = Inr cs'" "length cs' = length cs" "take (Suc dest) cs' = take (Suc dest) ?cs"
      "take n (drop (Suc dest) cs') = take n (drop (Suc source) ?cs)" by auto
  have d: "dest < length cs'" "dest < length cs" "source < length cs" using Suc.prems cs'(2) by auto
  have "cs' ! dest = ?cs ! dest" using cs'(3) d by (metis length_list_update lessI nth_take)
  moreover have "drop (Suc source) ?cs = drop (Suc source) cs" using Suc.prems(1) by simp
  moreover have "take dest cs' = take dest cs" using arg_cong [OF cs'(3), of "take dest"] by (simp add: take_update_swap [symmetric] min_def)
  ultimately show ?case using cs' d by (intro exI [of _ cs']) (simp add: Cons_nth_drop_Suc [symmetric])
qed simp

lemma set_current_twice [simp]: "set_current b (set_current b' f) = set_current b f"
  by (simp add: set_current_def split: option.split)

lemma set_current_self: "current f = Inr b \<Longrightarrow> set_current b f = f"
  by (cases f) (auto simp: current_def set_current_def fun_upd_idem split: option.splits)

lemma set_current_n_chars: "set_current b (f\<lparr>yy_n_chars := n\<rparr>) = (set_current b f)\<lparr>yy_n_chars := n\<rparr>"
  by (simp add: set_current_def split: option.split)

lemma resized_ok: "length cs \<le> n \<Longrightarrow> take (length cs) (resized f n cs) = cs" "length cs \<le> n \<Longrightarrow> length (resized f n cs) = n"
  by (simp_all add: resized_def)

text \<open>There is room after at most one step of growing.\<close>

lemma grow_loop_ok:
  assumes "current f = Inr b" "yy_is_our_buffer b" "0 \<le> n" "n < yy_buf_size b" "yy_buf_size b < 2 ^ 64" "n < 2 ^ 31" "len (yy_ch_buf b) = yy_buf_size b + 2"
    and c: "to_int32 (yy_c_buf_p f) = yy_c_buf_p f"
  shows "\<exists>sz cs. grow_loop n (size_t (yy_buf_size b - n - 1)) f = Some (Inr (sz - n - 1, set_current (b\<lparr>yy_buf_size := sz, yy_ch_buf := cs\<rparr>) f)) \<and>
    0 < sz - n - 1 \<and> sz < 2 ^ 64 \<and> len cs = sz + 2 \<and> take (length (yy_ch_buf b)) cs = yy_ch_buf b"
proof (cases "yy_buf_size b - n - 1 = 0")
  case False
  then have "size_t (yy_buf_size b - n - 1) = yy_buf_size b - n - 1" using assms(3-5) by (simp add: size_t_def)
  then show ?thesis using False assms set_current_self [OF assms(1)]
    by (intro exI [of _ "yy_buf_size b"] exI [of _ "yy_ch_buf b"]) (simp add: grow_loop.simps)
next
  case True
  let ?sz = "yy_buf_size b * 2"
  let ?cs = "resized f (nat (?sz + 2)) (yy_ch_buf b)"
  have n: "yy_buf_size b = n + 1" using True by simp
  have sz: "size_t ?sz = ?sz" "?sz \<noteq> 0" "size_t (?sz - n - 1) = ?sz - n - 1" "?sz - n - 1 \<noteq> 0" using assms(3,6) n by (simp_all add: size_t_def)
  have z: "size_t (yy_buf_size b - n - 1) = 0" using True by (simp add: size_t_def)
  have "length (yy_ch_buf b) \<le> nat (?sz + 2)" using assms(3,7) n by (simp add: len_length)
  moreover have "f\<lparr>yy_c_buf_p := to_int32 (yy_c_buf_p f)\<rparr> = f" unfolding c by (cases f) simp
  then have "grow_loop n 0 f = Some (Inr (?sz - n - 1, set_current (b\<lparr>yy_buf_size := ?sz, yy_ch_buf := ?cs\<rparr>) f))"
    using assms(1,2) sz by (subst grow_loop.simps) (simp add: Let_def grow_loop.simps [of n "?sz - n - 1"])
  ultimately show ?thesis using assms(3,6) n z resized_ok [of "yy_ch_buf b" "nat (?sz + 2)" f]
    by (intro exI [of _ ?sz] exI [of _ ?cs]) (simp add: len_length)
qed

lemma YY_INPUT_ok:
  assumes "current f = Inr b" "yyin f = Some k" "0 \<le> i" "0 < m" "i + m \<le> len (yy_ch_buf b)"
  shows "\<exists>got rest. streams (env f) k = got @ rest \<and> (got = [] \<longrightarrow> rest = []) \<and> len got \<le> m \<and>
    YY_INPUT i m f = Inr ((set_current (b\<lparr>yy_ch_buf := take (nat i) (yy_ch_buf b) @ got @ drop (nat i + length got) (yy_ch_buf b)\<rparr>) f)
      \<lparr>yy_n_chars := len got, env := (env f)\<lparr>streams := (streams (env f))(k := rest)\<rparr>\<rparr>)"
proof -
  let ?s = "streams (env f) k"
  let ?avail = "take (nat m) ?s"
  let ?got = "if yy_is_interactive b then take (length (takeWhile (\<lambda>c. c \<noteq> CHR 0x0A) ?avail) + 1) ?avail else ?avail"
  have "\<exists>j. ?got = take j ?s" by (simp only: take_take split: if_split) blast
  then obtain j where j: "?got = take j ?s" by blast
  have d: "drop (length ?got) ?s = drop j ?s" unfolding j by (simp add: min_def)
  have "length ?got \<le> length ?avail" by (simp add: min_def)
  then have len: "len ?got \<le> m" using assms(4) by (simp only: len_length length_take)
  have "?got = [] \<longrightarrow> ?s = []" using assms(4) by auto
  then have "?got = [] \<longrightarrow> drop (length ?got) ?s = []" by simp
  moreover have "?s = ?got @ drop (length ?got) ?s" unfolding d using j by simp
  moreover have "YY_INPUT i m f = Inr ((set_current (b\<lparr>yy_ch_buf := take (nat i) (yy_ch_buf b) @ ?got @ drop (nat i + length ?got) (yy_ch_buf b)\<rparr>) f)
      \<lparr>yy_n_chars := len ?got, env := (env f)\<lparr>streams := (streams (env f))(k := drop (length ?got) ?s)\<rparr>\<rparr>)"
    using assms len unfolding YY_INPUT_def Let_def by simp
  ultimately show ?thesis using len by (intro exI [of _ ?got] exI [of _ "drop (length ?got) ?s"] conjI)
qed

lemma end_buffer_ok:
  assumes "current f = Inr b" "0 \<le> yy_n_chars f" "0 \<le> n" "yy_n_chars f + n \<le> yy_buf_size b" "yy_n_chars f + n + 2 \<le> len (yy_ch_buf b)"
    and m: "m = nat (yy_n_chars f + n)"
  shows "end_buffer n f = Inr ((set_current (b\<lparr>yy_ch_buf := (yy_ch_buf b)[m := YY_END_OF_BUFFER_CHAR, Suc m := YY_END_OF_BUFFER_CHAR]\<rparr>) f)
    \<lparr>yy_n_chars := int m, yytext_ptr := 0\<rparr>)"
proof -
  let ?f = "f\<lparr>yy_n_chars := int m\<rparr>"
  let ?b = "b\<lparr>yy_ch_buf := (yy_ch_buf b)[m := YY_END_OF_BUFFER_CHAR]\<rparr>"
  have i: "yy_n_chars f + n = int m" "int m + 1 = int (Suc m)" using assms(2,3,6) by simp_all
  have c: "current ?f = Inr b" using assms(1) by simp
  have "putc ?f (int m) YY_END_OF_BUFFER_CHAR = Inr (set_current ?b ?f)"
    using putc_ok [OF c] assms(5) i by simp
  moreover have "putc (set_current ?b ?f) (int (Suc m)) YY_END_OF_BUFFER_CHAR =
      Inr (set_current (?b\<lparr>yy_ch_buf := (yy_ch_buf ?b)[nat (int (Suc m)) := YY_END_OF_BUFFER_CHAR]\<rparr>) (set_current ?b ?f))"
    using assms(5) i by (intro putc_ok [OF current_set_current [OF c]]) (simp_all add: len_length)
  then have "putc (set_current ?b ?f) (int m + 1) YY_END_OF_BUFFER_CHAR =
      Inr (set_current (b\<lparr>yy_ch_buf := (yy_ch_buf b)[m := YY_END_OF_BUFFER_CHAR, Suc m := YY_END_OF_BUFFER_CHAR]\<rparr>) ?f)"
    unfolding i(2) nat_int by simp
  ultimately show ?thesis using assms(1,4) i(1) set_current_self [OF assms(1)] unfolding end_buffer_def
    by (simp add: set_current_n_chars)
qed

lemma yyrestart_ok:
  assumes "current f = Inr b" "2 \<le> length (yy_ch_buf b)"
  shows "\<exists>g b'. yyrestart i f = Inr g \<and> current g = Inr b' \<and> yy_buf_size b' = yy_buf_size b \<and> length (yy_ch_buf b') = length (yy_ch_buf b) \<and>
    take 2 (yy_ch_buf b') = padded [] \<and> buf_n_chars b' = 0 \<and> yy_is_our_buffer b' = yy_is_our_buffer b \<and> yy_fill_buffer b' \<and>
    yy_buffer_status b' = YY_BUFFER_NEW \<and> yyin g = i \<and> env g = env f \<and> yy_n_chars g = 0 \<and> yy_hold_char g = CHR 0x00 \<and>
    yytext_ptr g = 0 \<and> yy_start g = yy_start f \<and> yy_init g = yy_init f \<and> yy_last_accepting_state g = yy_last_accepting_state f \<and>
    yy_last_accepting_cpos g = yy_last_accepting_cpos f \<and> current_buffer g = current_buffer f"
proof -
  from assms(1) obtain p where p: "current_buffer f = Some p" "buffers f p = Some b" by (auto simp: current_def split: option.splits)
  obtain c d cs where ch: "yy_ch_buf b = c # d # cs" using assms(2) by (cases "yy_ch_buf b" rule: remdups_adj.cases) auto
  show ?thesis using p ch
    by (simp add: yyrestart_def default_buffer_def yy_init_buffer_def yy_flush_buffer_def Let_def yy_load_buffer_state_def current_def rd_def tab_def
        len_length padded_def YY_END_OF_BUFFER_CHAR_def numeral_2_eq_2)
qed

definition same_scan :: "flex \<Rightarrow> flex \<Rightarrow> bool" where
  "same_scan f g \<longleftrightarrow> current_buffer g = current_buffer f \<and> yy_start g = yy_start f \<and> yy_init g = yy_init f \<and>
     yy_last_accepting_state g = yy_last_accepting_state f \<and> yy_last_accepting_cpos g = yy_last_accepting_cpos f"

lemma read_more_ok:
  assumes b: "current f = Inr b" "yy_is_our_buffer b" "yy_fill_buffer b" and k: "yyin f = Some k"
    and size: "int n < yy_buf_size b" "yy_buf_size b < 2 ^ 64" "len (yy_ch_buf b) = yy_buf_size b + 2" "int n < 2 ^ 31"
    and c: "to_int32 (yy_c_buf_p f) = yy_c_buf_p f"
    and pending: "yy_buffer_status b = YY_BUFFER_EOF_PENDING \<longrightarrow> streams (env f) k = []"
  shows "\<exists>g b1 got rest. read_more (int n) f = Some (Inr g) \<and> current g = Inr b1 \<and> streams (env f) k = got @ rest \<and> (got = [] \<longrightarrow> rest = []) \<and>
    streams (env g) k = rest \<and> yy_n_chars g = len got \<and> take (n + length got) (yy_ch_buf b1) = take n (yy_ch_buf b) @ got \<and>
    int n + len got < yy_buf_size b1 \<and> yy_buf_size b1 < 2 ^ 64 \<and> len (yy_ch_buf b1) = yy_buf_size b1 + 2 \<and> yy_is_our_buffer b1 \<and>
    yy_fill_buffer b1 \<and> yy_buffer_status b1 = yy_buffer_status b \<and> yyin g = Some k \<and> same_scan f g"
proof (cases "yy_buffer_status b = YY_BUFFER_EOF_PENDING")
  case True
  let ?b = "b\<lparr>buf_n_chars := 0\<rparr>"
  have "read_more (int n) f = Some (Inr ((set_current ?b f)\<lparr>yy_n_chars := 0\<rparr>))" using b(1) True by (simp add: read_more_def)
  then show ?thesis using assms True current_set_current [OF b(1), of ?b]
    by (intro exI [of _ "(set_current ?b f)\<lparr>yy_n_chars := 0\<rparr>"] exI [of _ ?b] exI [of _ "[]"]) (simp add: same_scan_def)
next
  case False
  from grow_loop_ok [OF b(1,2) _ size(1,2,4,3) c] obtain sz cs where
    g: "grow_loop (int n) (size_t (yy_buf_size b - int n - 1)) f = Some (Inr (sz - int n - 1, set_current (b\<lparr>yy_buf_size := sz, yy_ch_buf := cs\<rparr>) f))"
      "0 < sz - int n - 1" "sz < 2 ^ 64" "len cs = sz + 2" "take (length (yy_ch_buf b)) cs = yy_ch_buf b" by auto
  let ?b = "b\<lparr>yy_buf_size := sz, yy_ch_buf := cs\<rparr>" and ?m = "min (sz - int n - 1) YY_READ_BUF_SIZE"
  let ?f = "set_current ?b f"
  have cf: "current ?f = Inr ?b" by (rule current_set_current [OF b(1)])
  have m: "0 < ?m" "int n + ?m \<le> len (yy_ch_buf ?b)" using g(2,4) by (auto simp: YY_READ_BUF_SIZE_def)
  from YY_INPUT_ok [OF cf _ _ m, of k] k obtain got rest where
    got: "streams (env f) k = got @ rest" "got = [] \<longrightarrow> rest = []" "len got \<le> ?m" and
    y: "YY_INPUT (int n) ?m ?f = Inr ((set_current (?b\<lparr>yy_ch_buf := take n cs @ got @ drop (n + length got) cs\<rparr>) ?f)
      \<lparr>yy_n_chars := len got, env := (env f)\<lparr>streams := (streams (env f))(k := rest)\<rparr>\<rparr>)" by auto
  let ?ch = "take n cs @ got @ drop (n + length got) cs"
  let ?h = "(set_current (?b\<lparr>yy_ch_buf := ?ch\<rparr>) f)\<lparr>yy_n_chars := len got, env := (env f)\<lparr>streams := (streams (env f))(k := rest)\<rparr>\<rparr>"
  let ?b1 = "?b\<lparr>yy_ch_buf := ?ch, buf_n_chars := len got\<rparr>"
  have ch: "current ?h = Inr (?b\<lparr>yy_ch_buf := ?ch\<rparr>)" using current_set_current [OF b(1)] by simp
  have r: "read_more (int n) f = Some (Inr (set_current ?b1 ?h))" using b(1) False g(1) y ch by (simp add: read_more_def)
  have n: "n < length (yy_ch_buf b)" using size(1,3) by (simp add: len_length)
  then have "take n cs = take n (yy_ch_buf b)" using arg_cong [OF g(5), of "take n"] by (simp add: min_def)
  moreover have "n + length got \<le> length cs" using g(2,4) got(3) by (simp add: len_length)
  ultimately have "take (n + length got) ?ch = take n (yy_ch_buf b) @ got" "length ?ch = length cs" using n by simp_all
  then show ?thesis using r current_set_current [OF ch, of ?b1] got g(2-4) b(2,3) k n
    by (intro exI [of _ "set_current ?b1 ?h"] exI [of _ ?b1]) (rule exI [of _ got], rule exI [of _ rest], simp add: same_scan_def len_length)
qed

text \<open>
  The state after refilling at the end of the window \<open>w\<close>, whose token starts at \<open>p\<close>: the token is moved to
  the front and what was read follows it.
\<close>

definition refilled :: "flex \<Rightarrow> string \<Rightarrow> flex \<Rightarrow> bool" where
  "refilled f w g \<longleftrightarrow> holds_text g w \<and> refillable g w \<and> yytext_ptr g = 0 \<and> same_scan f g"

lemma end_marks:
  assumes "take m ch = w" "m + 2 \<le> length ch"
  shows "take (m + 2) (ch[m := YY_END_OF_BUFFER_CHAR, Suc m := YY_END_OF_BUFFER_CHAR]) = padded w"
proof -
  have w: "length w = m" using assms by auto
  have "2 \<le> length (drop m ch)" using assms(2) by simp
  then obtain c d r where "drop m ch = c # d # r" by (cases "drop m ch" rule: remdups_adj.cases) auto
  then have "ch = w @ c # d # r" using assms(1) append_take_drop_id [of m ch] by simp
  then show ?thesis using w by (simp add: padded_def list_update_append)
qed

lemma refill:
  assumes h: "holds_text f w" and r: "refillable f w" and b: "current f = Inr b" "yy_fill_buffer b" "yy_buffer_status b \<noteq> YY_BUFFER_NEW"
    and p: "yytext_ptr f = int p" "p \<le> length w" "yy_c_buf_p f = len w + 1"
  shows "\<exists>g got. unread f = got @ unread g \<and> (got = [] \<longrightarrow> unread f = []) \<and> refilled f (drop p w @ got) g \<and>
    yy_get_next_buffer f = Some (Inr (if got \<noteq> [] then EOB_ACT_CONTINUE_SCAN else if p = length w then EOB_ACT_END_OF_FILE else EOB_ACT_LAST_MATCH, g)) \<and>
    (got = [] \<and> p = length w \<longrightarrow> yy_hold_char g = CHR 0x00)"
proof -
  let ?ch = "yy_ch_buf b"
  obtain n where lw: "length w = p + n" using p(2) le_Suc_ex by blast
  from r b obtain k where k: "yy_is_our_buffer b" "len w < yy_buf_size b" "yy_buf_size b < 2 ^ 64" "len ?ch = yy_buf_size b + 2" "yyin f = Some k"
    "yy_buffer_status b = YY_BUFFER_EOF_PENDING \<longrightarrow> unread f = []" "len w + len (unread f) + 1 < 2 ^ 31" by (auto simp: refillable_def)
  have u: "unread f = streams (env f) k" using b k(5) by (simp add: unread_def)
  have t: "take (length w + 2) ?ch = padded w" "yy_n_chars f = len w" "yy_start f = 1" "yy_init f" using h b(1) by (auto simp: holds_text_def text_is_def)
  have l2: "length w + 2 \<le> length ?ch" using k(2,4) by (simp add: len_length)
  from move_down_ok [of 0 p n ?ch] lw l2 obtain cs where
    cs: "move_down ?ch 0 p n = Inr cs" "length cs = length ?ch" "take n cs = take n (drop p ?ch)" by auto
  have "take n (drop p ?ch) = take n (drop p (take (length w + 2) ?ch))" using lw by (simp add: drop_take take_take min_def)
  then have w: "take n cs = drop p w" using cs(3) t(1) lw by (simp add: padded_def)
  let ?b = "b\<lparr>yy_ch_buf := cs\<rparr>"
  let ?f = "set_current ?b f"
  have c: "current ?f = Inr ?b" by (rule current_set_current [OF b(1)])
  have n: "to_int32 (yy_c_buf_p f - yytext_ptr f) - 1 = int n" "nat (yytext_ptr f) = p" using p lw k(7) by (simp_all add: len_length)
  have cp: "to_int32 (yy_c_buf_p ?f) = yy_c_buf_p ?f" using p(3) k(7) by (simp add: len_length)
  have start: "yy_get_next_buffer f = ro_bind (read_more (int n) ?f) (\<lambda>f1. ro_bind (Some (read_result (int n) f1)) (\<lambda>(ret_val, f2).
       ro_bind (Some (end_buffer (int n) f2)) (\<lambda>f3. Some (Inr (ret_val, f3)))))"
    using b(1,2) t(2) p(3) cs(1) unfolding yy_get_next_buffer_def n Let_def nat_int by simp
  have "int n < yy_buf_size ?b" "int n < 2 ^ 31" using k(2,7) lw by (simp_all add: len_length)
  then obtain g b1 got rest where
    g: "read_more (int n) ?f = Some (Inr g)" "current g = Inr b1" "unread f = got @ rest" "got = [] \<longrightarrow> rest = []" "streams (env g) k = rest"
      "yy_n_chars g = len got" "take (n + length got) (yy_ch_buf b1) = drop p w @ got" "int n + len got < yy_buf_size b1" "yy_buf_size b1 < 2 ^ 64"
      "len (yy_ch_buf b1) = yy_buf_size b1 + 2" "yy_is_our_buffer b1" "yy_fill_buffer b1" "yy_buffer_status b1 = yy_buffer_status b" "yyin g = Some k"
      "same_scan f g"
    using read_more_ok [OF c _ _ _ _ _ _ _ cp, of k n] k b(2) cs(2) w u by (auto simp: len_length same_scan_def)
  have l: "len (drop p w @ got) + len rest + 1 < 2 ^ 31" using k(7) g(3) lw by (simp add: len_length)
  show ?thesis
  proof (cases "got = [] \<and> n = 0")
    case True
    from yyrestart_ok [OF g(2), of "yyin g"] g(8,10) obtain h b' where
      h: "yyrestart (yyin g) g = Inr h" "current h = Inr b'" "yy_buf_size b' = yy_buf_size b1" "length (yy_ch_buf b') = length (yy_ch_buf b1)"
        "take 2 (yy_ch_buf b') = padded []" "buf_n_chars b' = 0" "yy_is_our_buffer b'" "yy_fill_buffer b'" "yy_buffer_status b' = YY_BUFFER_NEW"
        "yyin h = Some k" "env h = env g" "yy_n_chars h = 0" "yy_hold_char h = CHR 0x00" "same_scan f h"
      using g(11,14,15) by (auto simp: len_length same_scan_def)
    let ?b' = "b'\<lparr>yy_ch_buf := (yy_ch_buf b')[0 := YY_END_OF_BUFFER_CHAR, Suc 0 := YY_END_OF_BUFFER_CHAR]\<rparr>"
    let ?h = "(set_current ?b' h)\<lparr>yy_n_chars := int 0, yytext_ptr := 0\<rparr>"
    have "2 \<le> length (yy_ch_buf b')" using h(4) g(8,10) by (simp add: len_length)
    then have e: "end_buffer 0 h = Inr ?h" "take 2 (yy_ch_buf ?b') = padded []"
      using end_buffer_ok [OF h(2), of 0 0] end_marks [of 0 "yy_ch_buf b'" "[]"] h(3,12) g(8) True by (simp_all add: len_length numeral_2_eq_2)
    have c': "current ?h = Inr ?b'" using current_set_current [OF h(2)] by simp
    have "unread ?h = []" using c' h(8,10,11) g(4,5) True by (simp add: unread_def)
    then have "refilled f [] ?h" using c' e(2) h t(3,4) g(8-10) True
      unfolding refilled_def holds_text_def text_is_def refillable_def same_scan_def by (simp add: len_length numeral_2_eq_2)
    moreover have "yy_get_next_buffer f = Some (Inr (EOB_ACT_END_OF_FILE, ?h))"
      using start g(1,6) h(1) e(1) True by (simp add: read_result_def)
    ultimately show ?thesis using True g(3,4) lw h(13) \<open>unread ?h = []\<close> by (intro exI [of _ ?h] exI [of _ "[]"]) simp
  next
    case False
    let ?w = "drop p w @ got"
    let ?b2 = "if got = [] then b1\<lparr>yy_buffer_status := YY_BUFFER_EOF_PENDING\<rparr> else b1"
    let ?m = "n + length got"
    let ?b3 = "?b2\<lparr>yy_ch_buf := (yy_ch_buf b1)[?m := YY_END_OF_BUFFER_CHAR, Suc ?m := YY_END_OF_BUFFER_CHAR]\<rparr>"
    let ?h = "(set_current ?b3 g)\<lparr>yy_n_chars := int ?m, yytext_ptr := 0\<rparr>"
    let ?act = "if got \<noteq> [] then EOB_ACT_CONTINUE_SCAN else EOB_ACT_LAST_MATCH"
    have r: "read_result (int n) g = Inr (?act, set_current ?b2 g)"
      using g(2,6) False set_current_self [OF g(2)] by (auto simp: read_result_def len_length)
    have m: "?m + 2 \<le> length (yy_ch_buf b1)" using g(8,10) by (simp add: len_length)
    have b2: "yy_buf_size ?b2 = yy_buf_size b1" "yy_ch_buf ?b2 = yy_ch_buf b1" by simp_all
    have "end_buffer (int n) (set_current ?b2 g) = Inr ((set_current (?b2\<lparr>yy_ch_buf := (yy_ch_buf ?b2)[?m := YY_END_OF_BUFFER_CHAR,
        Suc ?m := YY_END_OF_BUFFER_CHAR]\<rparr>) (set_current ?b2 g))\<lparr>yy_n_chars := int ?m, yytext_ptr := 0\<rparr>)"
      by (rule end_buffer_ok [OF current_set_current [OF g(2)]], unfold b2) (use g(6,8,10) in \<open>simp_all add: len_length\<close>)
    then have e: "end_buffer (int n) (set_current ?b2 g) = Inr ?h" unfolding set_current_twice b2 .
    have c': "current ?h = Inr ?b3" using current_set_current [OF g(2)] by simp
    have "take (length ?w + 2) (yy_ch_buf ?b3) = padded ?w" using end_marks [OF g(7) m] lw by simp
    moreover have ur: "unread ?h = rest" using c' g(5,12,14) by (simp add: unread_def)
    ultimately have "refilled f ?w ?h" using c' t(3,4) g(3,4,8-15) b(3) k(6) l lw False
      unfolding refilled_def holds_text_def text_is_def refillable_def same_scan_def by (simp add: len_length)
    moreover have "yy_get_next_buffer f = Some (Inr (?act, ?h))" using start g(1) r e by simp
    moreover have "got = [] \<longrightarrow> p \<noteq> length w" using False lw by auto
    ultimately show ?thesis using g(3,4) ur by (intro exI [of _ ?h] exI [of _ got]) auto
  qed
qed

section \<open>Round trips\<close>

text \<open>A character that is given back is the next that is read, and the place and the line are again those of before.\<close>

lemma unput_then_input:
  assumes b: "current f = Inr b" and cp: "2 \<le> yy_c_buf_p f" "yy_c_buf_p f < len (yy_ch_buf b)" and c: "c \<noteq> CHR 0x00"
  shows "\<exists>g h. yyunput c bp f = Inr g \<and> yyinput g = Some (Inr (code c, h)) \<and> yy_c_buf_p h = yy_c_buf_p f \<and>
    yy_hold_char h = yy_hold_char f \<and> yylineno h = yylineno f \<and> yytext_ptr h = bp"
proof -
  let ?i = "yy_c_buf_p f"
  let ?b1 = "b\<lparr>yy_ch_buf := (yy_ch_buf b)[nat ?i := yy_hold_char f]\<rparr>"
  let ?b2 = "b\<lparr>yy_ch_buf := (yy_ch_buf b)[nat ?i := yy_hold_char f, nat (?i - 1) := c]\<rparr>"
  let ?g = "(set_current ?b2 f)\<lparr>yylineno := (if c = CHR 0x0A then yylineno f - 1 else yylineno f), yytext_ptr := bp, yy_hold_char := c, yy_c_buf_p := ?i - 1\<rparr>"
  have p1: "putc f ?i (yy_hold_char f) = Inr (set_current ?b1 f)" using putc_ok [OF b] cp by simp
  have c1: "current (set_current ?b1 f) = Inr ?b1" by (rule current_set_current [OF b])
  have "putc (set_current ?b1 f) (?i - 1) c = Inr (set_current ?b2 f)" using putc_ok [OF c1, of "?i - 1" c] cp by (simp add: len_length)
  then have u: "yyunput c bp f = Inr ?g" unfolding yyunput_def using p1 c1 cp(1) by simp
  have c2: "current ?g = Inr ?b2" using current_set_current [OF b, of ?b2] by simp
  let ?g1 = "set_current ?b2 ?g"
  have n: "nat ?i < length (yy_ch_buf b)" "nat (?i - 1) < length (yy_ch_buf b)" "nat (?i - 1) \<noteq> nat ?i" using cp by (auto simp: len_length)
  have p2: "putc ?g (?i - 1) c = Inr ?g1" using putc_ok [OF c2, of "?i - 1" c] cp by (simp add: len_length)
  have g1: "getc ?g1 (?i - 1) = Inr c" using current_set_current [OF c2, of ?b2] n cp by (simp add: getc_def rd_def tab_def len_length)
  let ?b3 = "?b2\<lparr>yy_ch_buf := (yy_ch_buf ?b2)[nat (?i - 1) := CHR 0x00]\<rparr>"
  have p3: "putc ?g1 (?i - 1) (CHR 0x00) = Inr (set_current ?b3 ?g1)"
    using putc_ok [OF current_set_current [OF c2, of ?b2], of "?i - 1"] cp by (simp add: len_length)
  have g2: "getc (set_current ?b3 ?g1) ?i = Inr (yy_hold_char f)"
    using current_set_current [OF current_set_current [OF c2, of ?b2], of ?b3] n cp by (simp add: getc_def rd_def tab_def len_length)
  have "yyinput ?g = Some (take_char ?g1)" using p2 c by (subst yyinput.simps) (simp add: YY_END_OF_BUFFER_CHAR_def)
  moreover have "take_char ?g1 = Inr (code c, (set_current ?b3 ?g1)\<lparr>yy_c_buf_p := ?i, yy_hold_char := yy_hold_char f, yylineno := yylineno f\<rparr>)"
    unfolding take_char_def using g1 p3 g2 by simp
  ultimately show ?thesis using u by simp
qed

text \<open>After a buffer was pushed, and popped without being used, scanning goes on where it was.\<close>

lemma push_then_pop:
  assumes q: "current_buffer f = Some q" "buffers f q = Some b" "0 \<le> yy_c_buf_p f" "yy_c_buf_p f < len (yy_ch_buf b)"
    and p: "p \<noteq> q" "buffers f p = Some d" "0 \<le> yy_buf_pos d" "yy_buf_pos d < len (yy_ch_buf d)"
  shows "\<exists>g h. yypush_buffer_state (Some p) f = Inr g \<and> current_buffer g = Some p \<and> yypop_buffer_state g = Inr h \<and> current_buffer h = Some q \<and>
    buffers h p = None \<and> yy_c_buf_p h = yy_c_buf_p f \<and> yy_hold_char h = yy_hold_char f \<and> yy_n_chars h = yy_n_chars f \<and> yyin h = yy_input_file b"
proof -
  from q(1) obtain st where st: "yy_buffer_stack f = Some st" "yy_buffer_stack_top f < length st" "st ! yy_buffer_stack_top f = Some q"
    by (auto simp: current_buffer_def split: option.splits if_splits)
  let ?k = "yy_buffer_stack_top f"
  let ?st = "if length st - 1 \<le> ?k then st @ replicate 8 None else st"
  let ?e = "f\<lparr>yy_buffer_stack := Some ?st\<rparr>"
  let ?b = "b\<lparr>yy_ch_buf := (yy_ch_buf b)[nat (yy_c_buf_p f) := yy_hold_char f], yy_buf_pos := yy_c_buf_p f, buf_n_chars := yy_n_chars f\<rparr>"
  have k: "Suc ?k < length ?st" "?st ! ?k = Some q" using st by (auto simp: nth_append)
  have e: "yyensure_buffer_stack f = ?e" using st(1,2) by (cases f) (auto simp: yyensure_buffer_stack_def)
  have cb: "current_buffer ?e = Some q" using k unfolding current_buffer_def by (simp del: length_append split del: if_split)
  let ?f1 = "?e\<lparr>buffers := (buffers f)(q \<mapsto> ?b)\<rparr>"
  have "flush_current ?e = Inr ?f1" using cb q(2-4)
    by (simp add: flush_current_def putc_def current_def set_current_def split del: if_split)
  moreover have "current_buffer ?f1 = Some q" using cb by (simp split del: if_split)
  ultimately have psh: "yypush_buffer_state (Some p) f = res_bind (set_current_buffer (Some p) (?f1\<lparr>yy_buffer_stack_top := Suc ?k\<rparr>)) (\<lambda>f3.
      res_bind (yy_load_buffer_state f3) (\<lambda>f4. Inr (f4\<lparr>yy_did_buffer_switch_on_eof := True\<rparr>)))"
    unfolding yypush_buffer_state_def Let_def option.case e by (simp split del: if_split)
  define st1 where "st1 = ?st[Suc ?k := Some p]"
  have s1: "length st1 = length ?st" "st1 ! Suc ?k = Some p" "st1 ! ?k = Some q" using k by (simp_all add: st1_def split del: if_split)
  let ?f3 = "?f1\<lparr>yy_buffer_stack_top := Suc ?k, yy_buffer_stack := Some st1\<rparr>"
  let ?g = "?f3\<lparr>yy_n_chars := buf_n_chars d, yytext_ptr := yy_buf_pos d, yy_c_buf_p := yy_buf_pos d, yyin := yy_input_file d,
     yy_hold_char := yy_ch_buf d ! nat (yy_buf_pos d), yy_did_buffer_switch_on_eof := True\<rparr>"
  have "set_current_buffer (Some p) (?f1\<lparr>yy_buffer_stack_top := Suc ?k\<rparr>) = Inr ?f3" using k(1) by (simp add: set_current_buffer_def st1_def split del: if_split)
  moreover have c3: "current_buffer ?f3 = Some p" "current_buffer ?g = Some p" using s1 k(1) by (simp_all add: current_buffer_def split del: if_split)
  then have "yy_load_buffer_state ?f3 = Inr (?f3\<lparr>yy_n_chars := buf_n_chars d, yytext_ptr := yy_buf_pos d, yy_c_buf_p := yy_buf_pos d,
      yyin := yy_input_file d, yy_hold_char := yy_ch_buf d ! nat (yy_buf_pos d)\<rparr>)"
    using p by (simp add: yy_load_buffer_state_def current_def rd_def tab_def len_length split del: if_split)
  ultimately have g: "yypush_buffer_state (Some p) f = Inr ?g" unfolding psh by simp
  define st2 where "st2 = st1[Suc ?k := None]"
  have s2: "length st2 = length ?st" "st2 ! ?k = Some q" "st2[Suc ?k := None] = st2" using s1 by (simp_all add: st2_def)
  let ?d = "?g\<lparr>yy_buffer_stack := Some st2, buffers := (buffers ?g)(p := None)\<rparr>"
  have "yy_delete_buffer (Some p) ?g = Inr ?d" using c3(2) s1(1) k(1) p(1,2)
    by (simp add: yy_delete_buffer_def set_current_buffer_def st2_def split del: if_split)
  moreover have "set_current_buffer None ?d = Inr ?d" using s2 k(1) by (simp add: set_current_buffer_def split del: if_split)
  moreover have c4: "current_buffer (?d\<lparr>yy_buffer_stack_top := ?k\<rparr>) = Some q" using s2 k(1) by (simp add: current_buffer_def split del: if_split)
  ultimately have pop: "yypop_buffer_state ?g = res_bind (yy_load_buffer_state (?d\<lparr>yy_buffer_stack_top := ?k\<rparr>)) (\<lambda>f4. Inr (f4\<lparr>yy_did_buffer_switch_on_eof := True\<rparr>))"
    unfolding yypop_buffer_state_def c3(2) by simp
  have "buffers (?d\<lparr>yy_buffer_stack_top := ?k\<rparr>) q = Some ?b" using p(1) by simp
  then have "yy_load_buffer_state (?d\<lparr>yy_buffer_stack_top := ?k\<rparr>) = Inr (?d\<lparr>yy_buffer_stack_top := ?k, yy_n_chars := yy_n_chars f,
      yytext_ptr := yy_c_buf_p f, yy_c_buf_p := yy_c_buf_p f, yyin := yy_input_file b, yy_hold_char := yy_hold_char f\<rparr>)"
    using c4 q(3,4) by (simp add: yy_load_buffer_state_def current_def rd_def tab_def len_length)
  moreover have "current_buffer (f\<lparr>yy_buffer_stack := Some st2\<rparr>) = Some q" using s2 k(1) by (simp add: current_buffer_def split del: if_split)
  ultimately show ?thesis using g c3(2) pop by simp
qed

text \<open>
  \<^verbatim>\<open>yylex_destroy\<close> ends after the top of the stack: the buffers below it stay allocated, and the stack that held
  them is gone.
\<close>

lemma yylex_destroy_deletes_top:
  assumes "current_buffer f = Some p" "buffers f p = Some b"
  shows "\<exists>g. yylex_destroy f = Some (Inr g) \<and> buffers g = (buffers f)(p := None) \<and> yy_buffer_stack g = None"
proof -
  from assms(1) obtain st where st: "yy_buffer_stack f = Some st" "yy_buffer_stack_top f < length st"
    by (auto simp: current_buffer_def split: option.splits if_splits)
  let ?g = "f\<lparr>yy_buffer_stack := Some (st[yy_buffer_stack_top f := None]), buffers := (buffers f)(p := None)\<rparr>"
  have "yy_delete_buffer (Some p) f = Inr ?g" using assms st by (simp add: yy_delete_buffer_def set_current_buffer_def)
  moreover have "set_current_buffer None ?g = Inr ?g" using st(2) by (simp add: set_current_buffer_def)
  moreover have n: "current_buffer ?g = None" using st(2) by (simp add: current_buffer_def)
  then have "yypop_buffer_state ?g = Inr ?g" by (simp only: yypop_buffer_state_def if_True simp_thms)
  moreover have "destroy_loop ?g = Some (Inr ?g)" using n by (subst destroy_loop.simps) (simp only: if_True simp_thms)
  ultimately have "destroy_loop f = Some (Inr ?g)" using assms(1) by (subst destroy_loop.simps) simp
  then show ?thesis by (simp add: yylex_destroy_def yy_init_globals_def)
qed

end
