(* ===== verification/Flex_Scanner.thy ===== *)
theory Flex_Scanner
  imports Flex_Buffers
begin

text \<open>
  The scanner flex generated, \<^verbatim>\<open>yylex\<close> of src/MiniSQL/src/parser/minisql_lex.c, over the buffers of
  \<open>Flex_Buffers\<close>. The labels \<^verbatim>\<open>yy_match\<close> and \<^verbatim>\<open>yy_find_action\<close> that \<^verbatim>\<open>yylex\<close> jumps to are values of
  \<open>lex_pc\<close>. The result: called again and again, \<^verbatim>\<open>yylex\<close> performs the actions of exactly the rules that
  \<open>scan\<close> finds in the text, whether the text is in its buffer or is read from a file piece by piece.
\<close>

section \<open>The scanner\<close>

text \<open>The class of a character; \<^verbatim>\<open>YY_SC_TO_UI\<close> makes the character unsigned.\<close>

definition char_class :: "char \<Rightarrow> int res" where
  "char_class ch = rd yy_ec (code ch)"

definition note_accepting :: "int \<Rightarrow> int \<Rightarrow> flex \<Rightarrow> flex res" where
  "note_accepting s cp f = res_bind (rd yy_accept s) (\<lambda>a.
     Inr (if a \<noteq> 0 then f\<lparr>yy_last_accepting_state := s, yy_last_accepting_cpos := cp\<rparr> else f))"

partial_function (option) yy_match :: "int \<Rightarrow> int \<Rightarrow> flex \<Rightarrow> (int \<times> int \<times> flex) res option" where
  "yy_match s cp f = ro_bind (Some (res_bind (getc f cp) char_class)) (\<lambda>c.
     ro_bind (Some (note_accepting s cp f)) (\<lambda>f1.
     ro_bind (yy_next s c) (\<lambda>s1. ro_bind (Some (rd yy_base s1)) (\<lambda>b.
       if b \<noteq> 189 then yy_match s1 (cp + 1) f1 else Some (Inr (s1, cp + 1, f1))))))"

text \<open>\<^verbatim>\<open>yy_get_previous_state\<close>: the characters up to \<^verbatim>\<open>yy_c_buf_p\<close> once more, a zero being of class 1.\<close>

partial_function (option) previous_state_loop :: "int \<Rightarrow> int \<Rightarrow> flex \<Rightarrow> (int \<times> flex) res option" where
  "previous_state_loop s cp f = (if cp < yy_c_buf_p f then
     ro_bind (Some (res_bind (getc f cp) (\<lambda>ch. if ch = CHR 0x00 then Inr 1 else char_class ch))) (\<lambda>c.
     ro_bind (Some (note_accepting s cp f)) (\<lambda>f1. ro_bind (yy_next s c) (\<lambda>s1. previous_state_loop s1 (cp + 1) f1)))
   else Some (Inr (s, f)))"

definition yy_get_previous_state :: "flex \<Rightarrow> (int \<times> flex) res option" where
  "yy_get_previous_state f = previous_state_loop (yy_start f) (yytext_ptr f) f"

definition yy_try_NUL_trans :: "int \<Rightarrow> flex \<Rightarrow> (int \<times> flex) res option" where
  "yy_try_NUL_trans s f = ro_bind (Some (note_accepting s (yy_c_buf_p f) f)) (\<lambda>f1.
     ro_bind (yy_next s 1) (\<lambda>s1. Some (Inr (if s1 = 174 then 0 else s1, f1))))"

text \<open>\<^verbatim>\<open>yy_find_action\<close>: the rule of the state, or of the last accepting one.\<close>

definition yy_find_action :: "int \<Rightarrow> int \<Rightarrow> flex \<Rightarrow> (int \<times> int) res" where
  "yy_find_action s cp f = res_bind (rd yy_accept s) (\<lambda>a. if a \<noteq> 0 then Inr (a, cp)
     else res_bind (rd yy_accept (yy_last_accepting_state f)) (\<lambda>a. Inr (a, yy_last_accepting_cpos f)))"

definition YY_DO_BEFORE_ACTION :: "int \<Rightarrow> int \<Rightarrow> flex \<Rightarrow> flex res" where
  "YY_DO_BEFORE_ACTION bp cp f = res_bind (getc f cp) (\<lambda>h. res_bind (putc f cp (CHR 0x00)) (\<lambda>f1.
     Inr (f1\<lparr>yytext_ptr := bp, yyleng := cp - bp, yy_hold_char := h, yy_c_buf_p := cp\<rparr>)))"

definition yytext :: "flex \<Rightarrow> string res" where
  "yytext f = res_bind (current f) (\<lambda>b. Inr (take (nat (yy_c_buf_p f - yytext_ptr f)) (drop (nat (yytext_ptr f)) (yy_ch_buf b))))"

definition yyget_text :: "flex \<Rightarrow> string res" where
  "yyget_text f = yytext f"

definition yy_rule_can_match_eol :: "int \<Rightarrow> bool" where
  "yy_rule_can_match_eol a \<longleftrightarrow> a = 1 \<or> a = 54"

definition count_lines :: "int \<Rightarrow> string \<Rightarrow> flex \<Rightarrow> flex" where
  "count_lines a text f = (if yy_rule_can_match_eol a
     then f\<lparr>yylineno := yylineno f + int (length (filter (\<lambda>c. c = CHR 0x0A) text))\<rparr> else f)"

datatype lex_pc = LexNext | LexMatch int int int | LexFind int int int | LexReturn int

definition YY_END_OF_BUFFER :: int where
  "YY_END_OF_BUFFER = 57"

text \<open>A new buffer is in use from its first end on.\<close>

definition mark_normal :: "flex \<Rightarrow> flex res" where
  "mark_normal f = res_bind (current f) (\<lambda>b.
     Inr (if yy_buffer_status b = YY_BUFFER_NEW
       then (set_current (b\<lparr>yy_input_file := yyin f, yy_buffer_status := YY_BUFFER_NORMAL\<rparr>) f)\<lparr>yy_n_chars := buf_n_chars b\<rparr> else f))"

text \<open>What is done with the result of reading on, \<open>amount\<close> characters of the token being there already.\<close>

definition after_refill :: "int \<Rightarrow> eob_act \<times> flex \<Rightarrow> (lex_pc \<times> flex) res option" where
  "after_refill amount r = (let f = snd r in case fst r of
     EOB_ACT_END_OF_FILE \<Rightarrow> let f1 = f\<lparr>yy_did_buffer_switch_on_eof := False\<rparr> in
       if yywrap then Some (Inr (LexReturn 0, f1\<lparr>yy_c_buf_p := yytext_ptr f1\<rparr>))
       else ro_bind (Some (if \<not> yy_did_buffer_switch_on_eof f1 then yyrestart (yyin f1) f1 else Inr f1)) (\<lambda>f2. Some (Inr (LexNext, f2)))
   | EOB_ACT_CONTINUE_SCAN \<Rightarrow> ro_bind (yy_get_previous_state (f\<lparr>yy_c_buf_p := yytext_ptr f + amount\<rparr>)) (\<lambda>(s, f1).
       Some (Inr (LexMatch (yytext_ptr f1) s (yy_c_buf_p f1), f1)))
   | EOB_ACT_LAST_MATCH \<Rightarrow> ro_bind (yy_get_previous_state (f\<lparr>yy_c_buf_p := yy_n_chars f\<rparr>)) (\<lambda>(s, f1).
       Some (Inr (LexFind (yytext_ptr f1) s (yy_c_buf_p f1), f1))))"

text \<open>The end of the buffer, or a zero in the text.\<close>

definition end_of_buffer :: "int \<Rightarrow> flex \<Rightarrow> (lex_pc \<times> flex) res option" where
  "end_of_buffer cp f = (let amount = to_int32 (cp - yytext_ptr f) - 1 in
     ro_bind (Some (putc f cp (yy_hold_char f))) (\<lambda>f1. ro_bind (Some (mark_normal f1)) (\<lambda>f2.
     if yy_c_buf_p f2 \<le> yy_n_chars f2 then
       ro_bind (yy_get_previous_state (f2\<lparr>yy_c_buf_p := yytext_ptr f2 + amount\<rparr>)) (\<lambda>(s, f3).
       ro_bind (yy_try_NUL_trans s f3) (\<lambda>(s1, f4).
         Some (Inr (if s1 \<noteq> 0 then (LexMatch (yytext_ptr f4) s1 (yy_c_buf_p f4 + 1), f4\<lparr>yy_c_buf_p := yy_c_buf_p f4 + 1\<rparr>)
           else (LexFind (yytext_ptr f4) s (yy_c_buf_p f4), f4)))))
     else ro_bind (yy_get_next_buffer f2) (after_refill amount))))"

text \<open>The action of a rule; one that returns no token goes on with the next.\<close>

definition do_action :: "int \<Rightarrow> flex \<Rightarrow> yacc \<Rightarrow> (lex_pc \<times> flex \<times> yacc) res" where
  "do_action a f y = (if a < 1 \<or> 56 < a then Inl LogicError else if a = 56 then Inr (LexNext, f, y)
     else res_bind (yytext f) (\<lambda>text. res_bind (lex_action (lexeme_of a text) y) (\<lambda>y1.
       Inr (if token_number a = 0 then LexNext else LexReturn (token_number a), f, y1))))"

definition act_on :: "int \<Rightarrow> int \<Rightarrow> int \<Rightarrow> flex \<Rightarrow> yacc \<Rightarrow> (lex_pc \<times> flex \<times> yacc) res option" where
  "act_on bp a cp f y = ro_bind (Some (YY_DO_BEFORE_ACTION bp cp f)) (\<lambda>f1.
     if a = YY_END_OF_BUFFER then ro_bind (end_of_buffer cp f1) (\<lambda>(pc, f2). Some (Inr (pc, f2, y)))
     else if a = 0 then ro_bind (Some (putc f1 cp (yy_hold_char f1))) (\<lambda>f2.
       Some (Inr (LexFind bp (yy_last_accepting_state f2) (yy_last_accepting_cpos f2), f2, y)))
     else ro_bind (Some (yytext f1)) (\<lambda>text. Some (do_action a (count_lines a text f1) y)))"

definition lex_step :: "lex_pc \<Rightarrow> flex \<Rightarrow> yacc \<Rightarrow> (lex_pc \<times> flex \<times> yacc) res option" where
  "lex_step pc f y = (case pc of
     LexNext \<Rightarrow> ro_bind (Some (putc f (yy_c_buf_p f) (yy_hold_char f))) (\<lambda>f1.
       Some (Inr (LexMatch (yy_c_buf_p f1) (yy_start f1) (yy_c_buf_p f1), f1, y)))
   | LexMatch bp s cp \<Rightarrow> ro_bind (yy_match s cp f) (\<lambda>(s1, cp1, f1). Some (Inr (LexFind bp s1 cp1, f1, y)))
   | LexFind bp s cp \<Rightarrow> ro_bind (Some (yy_find_action s cp f)) (\<lambda>(a, cp1). act_on bp a cp1 f y)
   | LexReturn n \<Rightarrow> Some (Inr (pc, f, y)))"

partial_function (option) lex_loop :: "lex_pc \<Rightarrow> flex \<Rightarrow> yacc \<Rightarrow> (int \<times> flex \<times> yacc) res option" where
  "lex_loop pc f y = (case pc of LexReturn n \<Rightarrow> Some (Inr (n, f, y))
     | _ \<Rightarrow> ro_bind (lex_step pc f y) (\<lambda>(pc1, f1, y1). lex_loop pc1 f1 y1))"

text \<open>Without a buffer \<^verbatim>\<open>yylex\<close> makes one for \<^verbatim>\<open>yyin\<close>, which is the standard input by default.\<close>

definition yylex_init :: "flex \<Rightarrow> flex res" where
  "yylex_init f = res_bind (default_buffer (f\<lparr>yy_init := True, yy_start := (if yy_start f = 0 then 1 else yy_start f),
     yyin := (if yyin f = None then stdin_file else yyin f), yyout := (if yyout f = None then stdout_file else yyout f)\<rparr>)) yy_load_buffer_state"

definition yylex :: "flex \<Rightarrow> yacc \<Rightarrow> (int \<times> flex \<times> yacc) res option" where
  "yylex f y = (if yy_init f then lex_loop LexNext f y else ro_bind (Some (yylex_init f)) (\<lambda>f1. lex_loop LexNext f1 y))"

section \<open>Positions\<close>

text \<open>
  \<open>at f s p\<close>: between two tokens, at position \<open>p\<close> of the text \<open>s\<close> in the buffer; the character there may have
  been replaced by the zero that ends the last token's text, and is kept in \<^verbatim>\<open>yy_hold_char\<close>.
\<close>

definition at :: "flex \<Rightarrow> string \<Rightarrow> nat \<Rightarrow> bool" where
  "at f s p \<longleftrightarrow> p \<le> length s \<and> yy_c_buf_p f = int p \<and> 0 \<le> yy_last_accepting_state f \<and> yy_last_accepting_state f \<le> 174 \<and>
     (\<exists>t. text_is f t s \<and> length t = length s + 2 \<and> t[p := yy_hold_char f] = padded s)"

lemma text_is_nth: "take (length t) cs = t \<Longrightarrow> i < length t \<Longrightarrow> i < length cs \<and> cs ! i = t ! i"
  by (metis length_take min_less_iff_conj nth_take)

lemma getc_text: "holds_text f s \<Longrightarrow> i < length s + 2 \<Longrightarrow> getc f (int i) = Inr (padded s ! i)"
proof -
  assume "holds_text f s" and i: "i < length s + 2"
  then obtain b where b: "current f = Inr b" "take (length (padded s)) (yy_ch_buf b) = padded s" by (auto simp: holds_text_def text_is_def)
  then show ?thesis using text_is_nth [OF b(2), of i] i by (simp add: getc_def rd_def tab_def len_length)
qed

definition text_ok :: "string \<Rightarrow> bool" where
  "text_ok s \<longleftrightarrow> CHR 0x00 \<notin> set s"

lemma code_0: "code c = 0 \<longleftrightarrow> c = CHR 0x00"
proof
  have i: "code c = int (of_char c)" by (simp only: code_def of_nat_of_char)
  assume "code c = 0"
  then have "c = char_of (0 :: nat)" using i by (metis char_of_char of_nat_eq_0_iff)
  then show "c = CHR 0x00" by (simp add: char_of_def)
qed (simp add: code_def)

lemma text_plain: "text_ok s \<Longrightarrow> \<forall>x \<in> set (map code s). plain_char x"
proof (rule ballI)
  fix x assume "text_ok s" "x \<in> set (map code s)"
  then obtain c where c: "c \<in> set s" "x = code c" "c \<noteq> CHR 0x00" by (auto simp: text_ok_def)
  then show "plain_char x" using code_0 [of c] code_range [of c] by (auto simp: plain_char_def)
qed

lemma char_class_at: "char_class ch = Inr (ec_at (code ch))"
  using code_range [of ch] by (simp add: char_class_def flex_tables_as_trees(2) rd_upto)

lemma ec_0: "ec_at 0 = 0"
  by code_simp

section \<open>Matching\<close>

text \<open>The scanner with another last accepting state; \<open>last_match\<close> is the rule and position it stands for.\<close>

definition upd_last :: "int \<times> int \<Rightarrow> flex \<Rightarrow> flex" where
  "upd_last l f = f\<lparr>yy_last_accepting_state := fst l, yy_last_accepting_cpos := snd l\<rparr>"

definition last_match :: "int \<times> int \<Rightarrow> int \<times> int" where
  "last_match l = (accept_at (fst l), snd l)"

definition note_at :: "int \<Rightarrow> int \<Rightarrow> int \<times> int \<Rightarrow> int \<times> int" where
  "note_at s cp l = (if accept_at s \<noteq> 0 then (s, cp) else l)"

lemma upd_last_fields [simp]: "yy_c_buf_p (upd_last l f) = yy_c_buf_p f" "yytext_ptr (upd_last l f) = yytext_ptr f"
  "yy_start (upd_last l f) = yy_start f" "yy_n_chars (upd_last l f) = yy_n_chars f" "yy_init (upd_last l f) = yy_init f"
  "current (upd_last l f) = current f" "getc (upd_last l f) = getc f" "holds_text (upd_last l f) s = holds_text f s"
  "upd_last l (upd_last k f) = upd_last l f" "yy_last_accepting_state (upd_last l f) = fst l"
  "input_source (upd_last l f) = input_source f" "current_buffer (upd_last l f) = current_buffer f"
  by (auto simp: upd_last_def getc_def fun_eq_iff holds_text_def text_is_def)

lemma note_accepting_at:
  "0 \<le> s \<Longrightarrow> s \<le> 174 \<Longrightarrow> note_accepting s cp (upd_last l f) = Inr (upd_last (note_at s cp l) f)"
  by (simp add: note_accepting_def note_at_def flex_tables_as_trees(1) rd_upto upd_last_def)

lemma last_match_note: "last_match (note_at s cp l) = better (accept_at s) cp (last_match l)"
  by (simp add: last_match_def note_at_def better_def)

definition last_ok :: "int \<times> int \<Rightarrow> bool" where
  "last_ok l \<longleftrightarrow> 0 \<le> fst l \<and> fst l \<le> 174"

lemma last_ok_note: "last_ok l \<Longrightarrow> 0 \<le> s \<Longrightarrow> s \<le> 174 \<Longrightarrow> last_ok (note_at s cp l)"
  by (simp add: last_ok_def note_at_def)

lemma find_action_at:
  assumes "0 \<le> s" "s \<le> 174" "last_ok l"
  shows "yy_find_action s cp (upd_last l f) = Inr (better (accept_at s) cp (last_match l))"
  using assms by (simp add: yy_find_action_def flex_tables_as_trees(1) rd_upto better_def last_match_def upd_last_def last_ok_def)

lemma dfa_state_range: "dfa_state s \<Longrightarrow> 0 \<le> s \<and> s \<le> 174"
  by (auto simp: dfa_state_def)

lemma base_rd: "0 \<le> s \<Longrightarrow> s \<le> 174 \<Longrightarrow> rd yy_base s = Inr (base_at s)"
  by (simp add: flex_tables_as_trees(4) rd_upto)

lemma getc_class: "holds_text f s \<Longrightarrow> i < length s \<Longrightarrow> res_bind (getc f (int i)) char_class = Inr (ec_at (code (s ! i)))"
  by (simp add: getc_text padded_nth(1) char_class_at)

lemma getc_end: "holds_text f s \<Longrightarrow> res_bind (getc f (int (length s))) char_class = Inr 0"
  "holds_text f s \<Longrightarrow> res_bind (getc f (int (length s) + 1)) char_class = Inr 0"
  using getc_text [of f s "length s"] getc_text [of f s "Suc (length s)"] ec_0
  by (simp_all add: padded_nth char_class_at code_0 [THEN iffD2] add.commute)

lemma special_states: "accept_at 3 = 57" "base_at 3 = 188" "accept_at 174 = 0" "base_at 174 = 189" "accept_at 1 = 41" "base_at 1 = 0"
  by code_simp+

text \<open>At the end of the text the two markers lead to state 3 and then nowhere.\<close>

lemma yy_match_end:
  assumes "holds_text f s" "dfa_state st"
  shows "yy_match st (int (length s)) (upd_last l f) = Some (Inr (174, int (length s) + 2, upd_last (3, int (length s) + 1) f))"
  using assms getc_end [OF assms(1)] yy_next_dfa(2) [OF assms(2)] yy_next_3 dfa_state_range [OF assms(2)]
  by (simp add: yy_match.simps [of st] yy_match.simps [of 3] note_accepting_at base_rd special_states)
    (simp add: note_at_def special_states)

lemma yy_match_scan:
  assumes "holds_text f s" "text_ok s" "dfa_state st" "p \<le> length s" "last_ok l"
  shows "(\<exists>s1 cp l1. yy_match st (int p) (upd_last l f) = Some (Inr (s1, cp, upd_last l1 f)) \<and> 0 \<le> s1 \<and> s1 \<le> 174 \<and> last_ok l1 \<and> p < length s \<and>
      (\<forall>v. better (accept_at s1) cp (last_match l1) = dfa_scan st (map code (drop p s) @ v) (int p) (last_match l))) \<or>
    yy_match st (int p) (upd_last l f) = Some (Inr (174, int (length s) + 2, upd_last (3, int (length s) + 1) f))"
  using assms(3-5)
proof (induction "length s - p" arbitrary: st p l)
  case 0
  then show ?case using yy_match_end [OF assms(1) 0(2)] by simp
next
  case (Suc k)
  then have p: "p < length s" by simp
  let ?x = "code (s ! p)"
  let ?st = "delta st (ec_at ?x)" and ?l = "note_at st (int p) l"
  have x: "plain_char ?x" using text_plain [OF assms(2)] p by simp
  note edge = edge_checked [OF Suc(3) class_checked(1,2) [OF x]]
  have l: "last_ok ?l" using last_ok_note Suc dfa_state_range by blast
  have d: "map code (drop p s) = ?x # map code (drop (Suc p) s)" using p by (simp add: Cons_nth_drop_Suc [symmetric])
  have step: "yy_match st (int p) (upd_last l f) = (if base_at ?st \<noteq> 189 then yy_match ?st (int (Suc p)) (upd_last ?l f)
      else Some (Inr (?st, int (Suc p), upd_last ?l f)))"
    using getc_class [OF assms(1) p] yy_next_dfa(1) [OF Suc(3) x] dfa_state_range [OF Suc(3)] dfa_state_range [OF edge(1)]
    by (subst yy_match.simps) (simp add: note_accepting_at base_rd add.commute)
  show ?case
  proof (cases "base_at ?st = 189")
    case True
    have b: "dfa_scan ?st w n best = better (accept_at ?st) n best" for w n best using True by (cases w) simp_all
    have "better (accept_at ?st) (int (Suc p)) (last_match ?l) = dfa_scan st (map code (drop p s) @ v) (int p) (last_match l)" for v
      using b edge(3) special_states(3) unfolding d by (simp add: last_match_note add.commute better_def)
    then show ?thesis using step True l p dfa_state_range [OF edge(1)] by (intro disjI1 exI [of _ ?st] exI [of _ "int (Suc p)"] exI [of _ ?l]) simp
  next
    case False
    then have "base_at st \<noteq> 189" using edge(3) special_states(4) by auto
    then have "dfa_scan st (map code (drop p s) @ v) (int p) (last_match l) =
        dfa_scan ?st (map code (drop (Suc p) s) @ v) (int (Suc p)) (last_match ?l)" for v
      unfolding d by (simp add: last_match_note add.commute)
    then show ?thesis using Suc(1) [of "Suc p" ?st ?l] Suc(2) edge(1) l p step False by fastforce
  qed
qed

text \<open>The run over a part of the text that \<^verbatim>\<open>yy_get_previous_state\<close> makes.\<close>

lemma previous_state_munch:
  assumes "holds_text f s" "text_ok s" "yy_c_buf_p f = int m" "m \<le> length s" "dfa_state st" "residual st = advances u lex_rules" "p \<le> m" "last_ok l"
  shows "\<exists>s1 l1. previous_state_loop st (int p) (upd_last l f) = Some (Inr (s1, upd_last l1 f)) \<and> dfa_state s1 \<and> last_ok l1 \<and>
    residual s1 = advances (u @ map code (take (m - p) (drop p s))) lex_rules \<and>
    (\<forall>v. munch (advances u lex_rules) (map code (take (m - p) (drop p s)) @ v) (int p) (last_match l) =
      munch (advances (u @ map code (take (m - p) (drop p s))) lex_rules) v (int m) (last_match l1))"
  using assms(5-8)
proof (induction "m - p" arbitrary: st p l u)
  case 0
  then show ?case using assms(3) by (intro exI [of _ st] exI [of _ l]) (simp add: previous_state_loop.simps)
next
  case (Suc k)
  then have p: "p < length s" "p < m" using assms(4) by simp_all
  let ?x = "code (s ! p)"
  let ?st = "delta st (ec_at ?x)" and ?l = "note_at st (int p) l"
  have x: "plain_char ?x" using text_plain [OF assms(2)] p by simp
  note st = dfa_step(1,2) [OF Suc(3,4) x]
  have l: "last_ok ?l" using last_ok_note Suc dfa_state_range by blast
  have d: "take (m - p) (drop p s) = s ! p # take (m - Suc p) (drop (Suc p) s)"
    using p by (simp add: Cons_nth_drop_Suc [symmetric] Suc_diff_Suc [symmetric])
  have z: "s ! p \<noteq> CHR 0x00" using assms(2) p by (auto simp: text_ok_def in_set_conv_nth)
  have step: "previous_state_loop st (int p) (upd_last l f) = previous_state_loop ?st (int (Suc p)) (upd_last ?l f)"
    using getc_text [OF assms(1), of p] p z yy_next_dfa(1) [OF Suc(3) x] dfa_state_range [OF Suc(3)] assms(3)
    by (subst previous_state_loop.simps) (simp add: note_accepting_at padded_nth(1) char_class_at add.commute)
  have acc: "accept_at st = accepted (advances u lex_rules)" using state_checked(1) [OF Suc(3)] Suc(4) by simp
  have "k = m - Suc p" "Suc p \<le> m" using Suc(2) p by simp_all
  from Suc(1) [OF this(1) st this(2) l] obtain s1 l1 where
    r: "previous_state_loop ?st (int (Suc p)) (upd_last ?l f) = Some (Inr (s1, upd_last l1 f))" "dfa_state s1" "last_ok l1"
      "residual s1 = advances ((u @ [?x]) @ map code (take (m - Suc p) (drop (Suc p) s))) lex_rules"
      "\<forall>v. munch (advances (u @ [?x]) lex_rules) (map code (take (m - Suc p) (drop (Suc p) s)) @ v) (int (Suc p)) (last_match ?l) =
        munch (advances ((u @ [?x]) @ map code (take (m - Suc p) (drop (Suc p) s))) lex_rules) v (int m) (last_match l1)" by blast
  show ?case unfolding step d using r
    by (intro exI [of _ s1] exI [of _ l1]) (simp add: advances_snoc last_match_note acc add.commute)
qed

section \<open>One token\<close>

lemma putc_text:
  assumes "text_is f t s" "i < length t"
  shows "\<exists>b f1. putc f (int i) c = Inr f1 \<and> f1 = set_current b f \<and> text_is f1 (t[i := c]) s \<and> input_source f1 = input_source f"
proof -
  from assms obtain b where b: "current f = Inr b" "take (length t) (yy_ch_buf b) = t" "yy_buffer_status b = YY_BUFFER_NEW \<longrightarrow> buf_n_chars b = len s"
    "yy_n_chars f = len s" "yy_start f = 1" "yy_init f" by (auto simp: text_is_def)
  let ?b = "b\<lparr>yy_ch_buf := (yy_ch_buf b)[i := c]\<rparr>"
  have "putc f (int i) c = Inr (set_current ?b f)" using b(1) text_is_nth [OF b(2) assms(2)] by (simp add: putc_def len_length)
  moreover have "take (length (t[i := c])) (yy_ch_buf ?b) = t[i := c]" using b(2) by (simp add: take_update_swap)
  then have "text_is (set_current ?b f) (t[i := c]) s" using b current_set_current [OF b(1), of ?b] by (simp add: text_is_def)
  moreover have "input_source (set_current ?b f) = input_source f" using b(1) current_set_current [OF b(1), of ?b] by (simp add: input_source_def len_length)
  ultimately show ?thesis by blast
qed

lemma text_is_frame [simp]:
  "text_is (f\<lparr>yy_c_buf_p := n\<rparr>) t s = text_is f t s" "text_is (f\<lparr>yytext_ptr := n\<rparr>) t s = text_is f t s"
  "text_is (f\<lparr>yy_hold_char := c\<rparr>) t s = text_is f t s" "text_is (f\<lparr>yylineno := n\<rparr>) t s = text_is f t s"
  "text_is (f\<lparr>yyleng := n\<rparr>) t s = text_is f t s" "text_is (f\<lparr>yy_did_buffer_switch_on_eof := v\<rparr>) t s = text_is f t s"
  by (simp_all add: text_is_def)

lemma upd_last_self: "upd_last (yy_last_accepting_state f, yy_last_accepting_cpos f) f = f"
  by (simp add: upd_last_def)

text \<open>Results relative to the start of the token, and independent of what was accepted before.\<close>

lemma better_shift: "better k (n + d) (a, b + d) = (let (x, y) = better k n (a, b) in (x, y + d))"
  by (simp add: better_def)

lemma munch_shift: "munch v w (n + d) (a, b + d) = (let (x, y) = munch v w n (a, b) in (x, y + d))"
proof (induction w arbitrary: v n a b)
  case Nil
  then show ?case by (simp add: better_def)
next
  case (Cons x w)
  obtain a' b' where e: "better (accepted v) n (a, b) = (a', b')" by fastforce
  then have "better (accepted v) (n + d) (a, b + d) = (a', b' + d)" by (auto simp: better_def split: if_splits)
  then show ?case using Cons [of "advance x v" "n + 1" a' b'] e by (simp add: add.commute add.left_commute)
qed

lemma accepted_rules: "accepted lex_rules = 41"
  by code_simp

lemma munch_rules:
  assumes "longest t = (k, n)"
  shows "munch lex_rules (map code t) p best = (k, p + n)"
proof -
  have "munch lex_rules (map code t) p best = munch lex_rules (map code t) (0 + p) (0, 0 + p)"
    by (cases t) (simp_all add: better_def accepted_rules)
  also have "\<dots> = (k, p + n)" using munch_shift [of lex_rules "map code t" 0 p 0 0] assms
    by (simp add: longest_def add.commute)
  finally show ?thesis .
qed

lemma lex_loop_step: "lex_step pc f y = Some (Inr (pc1, f1, y1)) \<Longrightarrow> lex_loop pc f y = lex_loop pc1 f1 y1"
  by (cases pc) (simp_all add: lex_loop.simps lex_step_def)

lemma lex_loop_return [simp]: "lex_loop (LexReturn n) f y = Some (Inr (n, f, y))"
  by (simp add: lex_loop.simps)

lemma lex_loop_find: "lex_loop (LexFind bp s cp) f y = ro_bind (lex_step (LexFind bp s cp) f y) (\<lambda>(pc, g, z). lex_loop pc g z)"
  by (subst lex_loop.simps) simp

lemma lex_next:
  assumes "at f s p"
  shows "\<exists>f1. lex_loop LexNext f y = lex_loop (LexMatch (int p) 1 (int p)) f1 y \<and> holds_text f1 s \<and> input_source f1 = input_source f \<and>
    0 \<le> yy_last_accepting_state f1 \<and> yy_last_accepting_state f1 \<le> 174"
proof -
  from assms obtain t where t: "text_is f t s" "length t = length s + 2" "t[p := yy_hold_char f] = padded s" "p \<le> length s"
    "yy_c_buf_p f = int p" by (auto simp: at_def)
  from putc_text [OF t(1), of p "yy_hold_char f"] t obtain b where
    b: "putc f (int p) (yy_hold_char f) = Inr (set_current b f)" "text_is (set_current b f) (padded s) s"
      "input_source (set_current b f) = input_source f" by auto
  then have "lex_step LexNext f y = Some (Inr (LexMatch (int p) 1 (int p), set_current b f, y))"
    using t(5) by (simp add: lex_step_def text_is_def)
  then show ?thesis using lex_loop_step b(2,3) assms by (intro exI [of _ "set_current b f"]) (simp add: holds_text_def at_def)
qed

lemma padded_update: "(padded s)[Suc (length s) := CHR 0x00] = padded s"
  using padded_nth(3) [of s] by (metis list_update_id)

lemma before_action_end:
  assumes "holds_text f s"
  shows "\<exists>f1. YY_DO_BEFORE_ACTION (int p) (len s + 1) f = Inr f1 \<and> holds_text f1 s \<and> input_source f1 = input_source f \<and> yytext_ptr f1 = int p \<and>
    yy_hold_char f1 = CHR 0x00 \<and> yy_c_buf_p f1 = len s + 1 \<and> same_scan f f1"
proof -
  have i: "len s + 1 = int (Suc (length s))" by (simp add: len_length)
  from putc_text [OF assms [unfolded holds_text_def], of "Suc (length s)" "CHR 0x00"] obtain b where
    b: "putc f (int (Suc (length s))) (CHR 0x00) = Inr (set_current b f)" "text_is (set_current b f) (padded s) s"
      "input_source (set_current b f) = input_source f"
    by (auto simp: padded_update)
  show ?thesis unfolding i YY_DO_BEFORE_ACTION_def
    using b getc_text [OF assms, of "Suc (length s)"] padded_nth(3) [of s] by (simp add: holds_text_def same_scan_def)
qed

lemma mark_normal_text:
  assumes "holds_text f s"
  shows "\<exists>f1 b. mark_normal f = Inr f1 \<and> holds_text f1 s \<and> input_source f1 = input_source f \<and> current f1 = Inr b \<and>
    yy_buffer_status b \<noteq> YY_BUFFER_NEW \<and> yytext_ptr f1 = yytext_ptr f \<and> yy_c_buf_p f1 = yy_c_buf_p f \<and> yy_hold_char f1 = yy_hold_char f \<and> same_scan f f1"
proof -
  from assms obtain b where b: "current f = Inr b" "take (length s + 2) (yy_ch_buf b) = padded s" "yy_buffer_status b = YY_BUFFER_NEW \<longrightarrow> buf_n_chars b = len s"
    "yy_n_chars f = len s" "yy_start f = 1" "yy_init f" by (auto simp: holds_text_def text_is_def)
  let ?b = "b\<lparr>yy_input_file := yyin f, yy_buffer_status := YY_BUFFER_NORMAL\<rparr>"
  show ?thesis
  proof (cases "yy_buffer_status b = YY_BUFFER_NEW")
    case True
    have "current (set_current ?b f) = Inr ?b" using current_set_current [OF b(1)] .
    then show ?thesis using b True by (simp add: mark_normal_def holds_text_def text_is_def input_source_def same_scan_def)
  next
    case False
    then show ?thesis using b assms by (simp add: mark_normal_def same_scan_def)
  qed
qed

text \<open>At the end of the window the buffer is refilled.\<close>

lemma act_on_end:
  assumes "holds_text f s" "p \<le> length s" "len s + 1 < 2 ^ 31"
  shows "\<exists>f1 b. act_on (int p) 57 (len s + 1) f y = ro_bind (yy_get_next_buffer f1) (\<lambda>r. ro_bind (after_refill (int (length s - p)) r) (\<lambda>(pc, f2).
      Some (Inr (pc, f2, y)))) \<and> holds_text f1 s \<and> input_source f1 = input_source f \<and> current f1 = Inr b \<and> yy_buffer_status b \<noteq> YY_BUFFER_NEW \<and>
    yytext_ptr f1 = int p \<and> yy_hold_char f1 = CHR 0x00 \<and> yy_c_buf_p f1 = len s + 1 \<and> same_scan f f1"
proof -
  from before_action_end [OF assms(1), of p] obtain f1 where
    1: "YY_DO_BEFORE_ACTION (int p) (len s + 1) f = Inr f1" "holds_text f1 s" "input_source f1 = input_source f" "yytext_ptr f1 = int p"
      "yy_hold_char f1 = CHR 0x00" "yy_c_buf_p f1 = len s + 1" "same_scan f f1" by blast
  have i: "len s + 1 = int (Suc (length s))" by (simp add: len_length)
  from putc_text [OF 1(2) [unfolded holds_text_def], of "Suc (length s)" "CHR 0x00"] obtain b' where
    2: "putc f1 (len s + 1) (CHR 0x00) = Inr (set_current b' f1)" "text_is (set_current b' f1) (padded s) s"
      "input_source (set_current b' f1) = input_source f1"
    by (auto simp: padded_update i)
  let ?f = "set_current b' f1"
  from mark_normal_text [OF 2(2) [folded holds_text_def]] obtain f2 b where
    N: "mark_normal ?f = Inr f2" "holds_text f2 s" "input_source f2 = input_source f" "current f2 = Inr b" "yy_buffer_status b \<noteq> YY_BUFFER_NEW"
      "yytext_ptr f2 = int p" "yy_c_buf_p f2 = len s + 1" "yy_hold_char f2 = CHR 0x00" "same_scan f f2"
    using 1 2(3) by (auto simp: same_scan_def)
  have "yy_n_chars f2 = len s" using N(2) by (simp add: holds_text_def text_is_def)
  then have e: "end_of_buffer (len s + 1) f1 = ro_bind (yy_get_next_buffer f2) (after_refill (int (length s - p)))"
    using 1(4,5) 2(1) N(1,7) assms(2,3) unfolding end_of_buffer_def by (simp add: Let_def len_length of_nat_diff)
  have "act_on (int p) 57 (len s + 1) f y = ro_bind (yy_get_next_buffer f2) (\<lambda>r. ro_bind (after_refill (int (length s - p)) r) (\<lambda>(pc, f2).
      Some (Inr (pc, f2, y))))"
    using 1(1) e by (simp add: act_on_def YY_END_OF_BUFFER_def ro_bind_assoc)
  then show ?thesis using N by blast
qed

text \<open>Reading on, for a buffer of a text (which ends) and for one of a file alike: window \<open>w'\<close> at \<open>p'\<close> continues \<open>w\<close> at \<open>p\<close>.\<close>

lemma next_buffer:
  assumes "holds_text f w" "refillable f w" "current f = Inr b" "yy_buffer_status b \<noteq> YY_BUFFER_NEW" "yytext_ptr f = int p" "p \<le> length w"
    "yy_c_buf_p f = len w + 1" "yy_hold_char f = CHR 0x00"
  shows "\<exists>g got w' p'. unread f = got @ unread g \<and> (got = [] \<longrightarrow> unread f = []) \<and> drop p' w' = drop p w @ got \<and> p' \<le> length w' \<and>
    holds_text g w' \<and> refillable g w' \<and> yytext_ptr g = int p' \<and> same_scan f g \<and> set w' \<subseteq> set w \<union> set got \<and>
    yy_get_next_buffer f = Some (Inr (if got \<noteq> [] then EOB_ACT_CONTINUE_SCAN else if p = length w then EOB_ACT_END_OF_FILE else EOB_ACT_LAST_MATCH, g)) \<and>
    (got = [] \<and> p = length w \<longrightarrow> yy_hold_char g = CHR 0x00)"
proof (cases "yy_fill_buffer b")
  case True
  from refill [OF assms(1-3) True assms(4-7)] obtain g got where
    g: "unread f = got @ unread g" "got = [] \<longrightarrow> unread f = []" "refilled f (drop p w @ got) g" "got = [] \<and> p = length w \<longrightarrow> yy_hold_char g = CHR 0x00"
      "yy_get_next_buffer f = Some (Inr (if got \<noteq> [] then EOB_ACT_CONTINUE_SCAN else if p = length w then EOB_ACT_END_OF_FILE else EOB_ACT_LAST_MATCH, g))"
    by blast
  have "set (drop p w @ got) \<subseteq> set w \<union> set got" using set_drop_subset by fastforce
  then show ?thesis using g unfolding refilled_def by - (rule exI [of _ g], rule exI [of _ got], rule exI [of _ "drop p w @ got"], rule exI [of _ 0], simp)
next
  case False
  have "yy_n_chars f = len w" using assms(1) by (simp add: holds_text_def text_is_def)
  then have "yy_get_next_buffer f = Some (Inr (if p = length w then EOB_ACT_END_OF_FILE else EOB_ACT_LAST_MATCH, f))"
    using False assms(3,5,7) by (simp add: yy_get_next_buffer_def len_length)
  moreover have "unread f = []" using False assms(3) by (simp add: unread_def)
  ultimately show ?thesis using assms by - (rule exI [of _ f], rule exI [of _ "[]"], rule exI [of _ w], rule exI [of _ p], simp add: same_scan_def)
qed

text \<open>\<open>reads f w p\<close>: between two tokens, at position \<open>p\<close> of the window \<open>w\<close>; what remains is the rest of the window and of the file.\<close>

definition reads :: "flex \<Rightarrow> string \<Rightarrow> nat \<Rightarrow> bool" where
  "reads f w p \<longleftrightarrow> at f w p \<and> refillable f w \<and> text_ok w \<and> text_ok (unread f)"

lemma text_ok_append: "text_ok (s @ t) \<longleftrightarrow> text_ok s \<and> text_ok t"
  by (auto simp: text_ok_def)

lemma text_ok_drop: "text_ok s \<Longrightarrow> text_ok (drop n s)"
  by (auto simp: text_ok_def dest: in_set_dropD)

text \<open>The state in which a token that starts at \<open>p\<close> has been matched up to \<open>c\<close>.\<close>

definition matched :: "flex \<Rightarrow> string \<Rightarrow> nat \<Rightarrow> nat \<Rightarrow> int \<Rightarrow> int \<times> int \<Rightarrow> bool" where
  "matched g w p c st l \<longleftrightarrow> holds_text g w \<and> refillable g w \<and> text_ok w \<and> text_ok (unread g) \<and> p \<le> c \<and> c \<le> length w \<and> dfa_state st \<and>
     residual st = advances (map code (take (c - p) (drop p w))) lex_rules \<and> last_ok l \<and>
     (\<exists>best. \<forall>v. munch lex_rules (map code (drop p w) @ v) (int p) best =
       munch (advances (map code (take (c - p) (drop p w))) lex_rules) (map code (drop c w) @ v) (int c) (last_match l))"

text \<open>The end of the window is reached: the automaton runs into the two markers.\<close>

lemma refillable_len: "refillable g w \<Longrightarrow> len w + 1 < 2 ^ 31"
  by (simp add: refillable_def len_length)

lemma lex_find_end:
  assumes "holds_text g w" "p \<le> length w" "refillable g w"
  shows "\<exists>f1 b. lex_loop (LexFind (int p) 174 (int (length w) + 2)) (upd_last (3, int (length w) + 1) g) y =
      ro_bind (ro_bind (yy_get_next_buffer f1) (\<lambda>r. ro_bind (after_refill (int (length w - p)) r) (\<lambda>(pc, f2). Some (Inr (pc, f2, y)))))
        (\<lambda>(pc, f2, y2). lex_loop pc f2 y2) \<and>
    holds_text f1 w \<and> input_source f1 = input_source g \<and> current f1 = Inr b \<and> yy_buffer_status b \<noteq> YY_BUFFER_NEW \<and>
    yytext_ptr f1 = int p \<and> yy_hold_char f1 = CHR 0x00 \<and> yy_c_buf_p f1 = len w + 1 \<and> yy_last_accepting_state f1 = 3"
proof -
  let ?g = "upd_last (3, int (length w) + 1) g"
  have "yy_find_action 174 (int (length w) + 2) ?g = Inr (57, len w + 1)"
    using find_action_at [of 174 "(3, int (length w) + 1)"] by (simp add: last_ok_def better_def special_states last_match_def len_length)
  then have "lex_loop (LexFind (int p) 174 (int (length w) + 2)) ?g y = ro_bind (act_on (int p) 57 (len w + 1) ?g y) (\<lambda>(pc, f2, y2). lex_loop pc f2 y2)"
    by (simp add: lex_loop_find lex_step_def)
  moreover from act_on_end [of ?g w p y] assms refillable_len [OF assms(3)] obtain f1 b where
    "act_on (int p) 57 (len w + 1) ?g y = ro_bind (yy_get_next_buffer f1) (\<lambda>r. ro_bind (after_refill (int (length w - p)) r) (\<lambda>(pc, f2). Some (Inr (pc, f2, y))))"
    "holds_text f1 w" "input_source f1 = input_source g" "current f1 = Inr b" "yy_buffer_status b \<noteq> YY_BUFFER_NEW" "yytext_ptr f1 = int p"
    "yy_hold_char f1 = CHR 0x00" "yy_c_buf_p f1 = len w + 1" "same_scan ?g f1" by auto
  ultimately show ?thesis by (auto simp: same_scan_def)
qed

text \<open>After reading on, the part of the token that is there is matched again from its start.\<close>

lemma rematch:
  assumes h: "holds_text g w" "refillable g w" "text_ok w" "text_ok (unread g)" and p: "yytext_ptr g = int p" "p \<le> m" "m \<le> length w"
    and l: "0 \<le> yy_last_accepting_state g" "yy_last_accepting_state g \<le> 174"
  shows "\<exists>s1 l1. yy_get_previous_state (g\<lparr>yy_c_buf_p := int m\<rparr>) = Some (Inr (s1, upd_last l1 (g\<lparr>yy_c_buf_p := int m\<rparr>))) \<and>
    matched (g\<lparr>yy_c_buf_p := int m\<rparr>) w p m s1 l1"
proof -
  let ?g = "g\<lparr>yy_c_buf_p := int m\<rparr>" and ?k = "(yy_last_accepting_state g, yy_last_accepting_cpos g)"
  let ?u = "map code (take (m - p) (drop p w))"
  have h': "holds_text ?g w" "yy_start ?g = 1" using h(1) by (simp_all add: holds_text_def text_is_def)
  have u: "upd_last ?k ?g = ?g" by (simp add: upd_last_def)
  have 1: "dfa_state 1" "residual 1 = advances [] lex_rules" using residual_1 by (simp_all add: dfa_state_def)
  have k: "last_ok ?k" using l by (simp add: last_ok_def)
  from previous_state_munch [OF h'(1) h(3) _ p(3) 1 p(2) k] u obtain s1 l1 where
    q: "previous_state_loop 1 (int p) ?g = Some (Inr (s1, upd_last l1 ?g))" "dfa_state s1" "last_ok l1" "residual s1 = advances ?u lex_rules"
      "\<forall>v. munch lex_rules (?u @ v) (int p) (last_match ?k) = munch (advances ?u lex_rules) v (int m) (last_match l1)"
    by auto
  have s: "input_source ?g = input_source g" by simp
  have "drop p w = take (m - p) (drop p w) @ drop m w" using p(2) append_take_drop_id [of "m - p" "drop p w"] by simp
  then have "map code (drop p w) = ?u @ map code (drop m w)" by (metis map_append)
  then have "\<forall>v. munch lex_rules (map code (drop p w) @ v) (int p) (last_match ?k) = munch (advances ?u lex_rules) (map code (drop m w) @ v) (int m) (last_match l1)"
    using q(5) by simp
  then have "matched ?g w p m s1 l1"
    unfolding matched_def using h(2-4) h'(1) p(2,3) q(2-4) source_refillable [OF s] source_unread [OF s]
    by (intro conjI exI [of _ "last_match ?k"]) simp_all
  then show ?thesis using q(1) h'(2) p(1) by (intro exI [of _ s1] exI [of _ l1]) (simp add: yy_get_previous_state_def)
qed

text \<open>From the start of a token to the rule to apply, reading on as often as needed.\<close>

definition to_rule :: "string \<Rightarrow> int \<Rightarrow> int \<Rightarrow> lex_pc \<Rightarrow> flex \<Rightarrow> yacc \<Rightarrow> bool" where
  "to_rule t k n pc g y \<longleftrightarrow> (\<exists>s1 cp f1 w p. lex_loop pc g y = lex_loop (LexFind (int p) s1 cp) f1 y \<and> holds_text f1 w \<and> refillable f1 w \<and>
     text_ok w \<and> text_ok (unread f1) \<and> drop p w @ unread f1 = t \<and> yy_find_action s1 cp f1 = Inr (k, int p + n) \<and> int p + n \<le> len w \<and>
     0 \<le> yy_last_accepting_state f1 \<and> yy_last_accepting_state f1 \<le> 174)"

lemma matched_to_rule:
  assumes "matched g w p c st l" "drop p w @ unread g = t" "longest t = (k, n)" "t \<noteq> []"
  shows "to_rule t k n (LexMatch (int p) st (int c)) (upd_last l g) y"
  using assms(1,2)
proof (induction "length (unread g)" arbitrary: g w p c st l rule: less_induct)
  case less
  from less.prems(1) obtain best where
    M: "holds_text g w" "refillable g w" "text_ok w" "text_ok (unread g)" "p \<le> c" "c \<le> length w" "dfa_state st" "last_ok l"
      "residual st = advances (map code (take (c - p) (drop p w))) lex_rules"
      "\<And>v. munch lex_rules (map code (drop p w) @ v) (int p) best =
       munch (advances (map code (take (c - p) (drop p w))) lex_rules) (map code (drop c w) @ v) (int c) (last_match l)"
    unfolding matched_def by blast
  from yy_match_scan [OF M(1,3,7,6,8)] show ?case
  proof (elim disjE exE conjE)
    fix s1 cp l1
    assume m: "yy_match st (int c) (upd_last l g) = Some (Inr (s1, cp, upd_last l1 g))" "0 \<le> s1" "s1 \<le> 174" "last_ok l1" "c < length w"
      "\<forall>v. better (accept_at s1) cp (last_match l1) = dfa_scan st (map code (drop c w) @ v) (int c) (last_match l)"
    have ne: "drop p w \<noteq> []" using m(5) M(5) by simp
    have b: "better (accept_at s1) cp (last_match l1) = munch lex_rules (map code (drop p w) @ map code v) (int p) best" if "text_ok v" for v
    proof -
      have "\<forall>x \<in> set (map code (drop c w @ v)). plain_char x"
        by (rule text_plain) (use M(3) that text_ok_drop in \<open>simp add: text_ok_append\<close>)
      from dfa_scan_munch [OF M(7,9) this] show ?thesis using spec [OF m(6), of "map code v"] M(10) by simp
    qed
    have r: "better (accept_at s1) cp (last_match l1) = (k, int p + n)"
      using b [OF M(4)] munch_rules [OF assms(3)] less.prems(2) by (metis map_append)
    obtain k' n' where kn: "longest (drop p w) = (k', n')" by fastforce
    then have "(k', int p + n') = (k, int p + n)" using b [of "[]"] munch_rules [OF kn] r by (simp add: text_ok_def)
    then have n: "int p + n \<le> len w" using munch_longest(2) [OF kn ne] M(5,6) by (simp add: len_length)
    have "lex_loop (LexMatch (int p) st (int c)) (upd_last l g) y = lex_loop (LexFind (int p) s1 cp) (upd_last l1 g) y"
      using m(1) by (intro lex_loop_step) (simp add: lex_step_def)
    moreover have "yy_find_action s1 cp (upd_last l1 g) = Inr (k, int p + n)" using find_action_at [OF m(2-4)] r by simp
    moreover have "refillable (upd_last l1 g) w" "unread (upd_last l1 g) = unread g"
      using M(2) source_refillable [of "upd_last l1 g" g] source_unread [of "upd_last l1 g" g] by simp_all
    ultimately show ?case unfolding to_rule_def using M(1,3,4) less.prems(2) n m(4)
      by - (rule exI [of _ s1], rule exI [of _ cp], rule exI [of _ "upd_last l1 g"], rule exI [of _ w], rule exI [of _ p], simp add: last_ok_def)
  next
    assume m: "yy_match st (int c) (upd_last l g) = Some (Inr (174, int (length w) + 2, upd_last (3, int (length w) + 1) g))"
    have p: "p \<le> length w" using M(5,6) by simp
    from lex_find_end [OF M(1) p M(2), of y] obtain f1 b where
      f1: "lex_loop (LexFind (int p) 174 (int (length w) + 2)) (upd_last (3, int (length w) + 1) g) y =
      ro_bind (ro_bind (yy_get_next_buffer f1) (\<lambda>r. ro_bind (after_refill (int (length w - p)) r) (\<lambda>(pc, f2). Some (Inr (pc, f2, y)))))
        (\<lambda>(pc, f2, y2). lex_loop pc f2 y2)" "holds_text f1 w" "input_source f1 = input_source g" "current f1 = Inr b"
        "yy_buffer_status b \<noteq> YY_BUFFER_NEW" "yytext_ptr f1 = int p" "yy_hold_char f1 = CHR 0x00" "yy_c_buf_p f1 = len w + 1" "yy_last_accepting_state f1 = 3" by blast
    note src = source_refillable [OF f1(3)] source_unread [OF f1(3)]
    have rf: "refillable f1 w" using M(2) src(1) by simp
    from next_buffer [OF f1(2) rf f1(4-6) p f1(8,7), unfolded src(2)] obtain h got w' p' where
      h: "unread g = got @ unread h" "got = [] \<longrightarrow> unread g = []" "drop p' w' = drop p w @ got" "p' \<le> length w'" "holds_text h w'" "refillable h w'"
        "yytext_ptr h = int p'" "same_scan f1 h" "set w' \<subseteq> set w \<union> set got"
        "yy_get_next_buffer f1 = Some (Inr (if got \<noteq> [] then EOB_ACT_CONTINUE_SCAN else if p = length w then EOB_ACT_END_OF_FILE else EOB_ACT_LAST_MATCH, h))"
      by blast
    have a: "lex_loop (LexMatch (int p) st (int c)) (upd_last l g) y = lex_loop (LexFind (int p) 174 (int (length w) + 2)) (upd_last (3, int (length w) + 1) g) y"
      using m by (intro lex_loop_step) (simp add: lex_step_def)
    have ok: "text_ok w'" "text_ok (unread h)" using h(1,9) M(3,4) by (auto simp: text_ok_def)
    have las: "0 \<le> yy_last_accepting_state h" "yy_last_accepting_state h \<le> 174" using h(8) f1(9) by (simp_all add: same_scan_def)
    have rest: "drop p' w' @ unread h = t" using h(1,3) less.prems(2) by simp
    show ?case
    proof (cases "got = []")
      case False
      let ?m = "p' + (length w - p)"
      have "?m \<le> length w'" using arg_cong [OF h(3), of length] h(4) by simp
      from rematch [OF h(5,6) ok h(7) _ this las] obtain s1 l1 where
        r: "yy_get_previous_state (h\<lparr>yy_c_buf_p := int ?m\<rparr>) = Some (Inr (s1, upd_last l1 (h\<lparr>yy_c_buf_p := int ?m\<rparr>)))"
          "matched (h\<lparr>yy_c_buf_p := int ?m\<rparr>) w' p' ?m s1 l1" by auto
      let ?h = "h\<lparr>yy_c_buf_p := int ?m\<rparr>"
      have u: "unread ?h = unread h" by (rule source_unread) simp
      have "lex_loop (LexMatch (int p) st (int c)) (upd_last l g) y = lex_loop (LexMatch (int p') s1 (int ?m)) (upd_last l1 ?h) y"
        using a f1(1) h(7,10) r(1) False by (simp add: after_refill_def)
      moreover have "to_rule t k n (LexMatch (int p') s1 (int ?m)) (upd_last l1 ?h) y"
        by (rule less.hyps [OF _ r(2)]) (use u h(1) rest False in simp_all)
      ultimately show ?thesis unfolding to_rule_def by simp
    next
      case True
      then have t: "drop p w = t" "p \<noteq> length w" using h(1,2) less.prems(2) assms(4) by auto
      have nc: "yy_n_chars h = int (length w')" using h(5) by (simp add: holds_text_def text_is_def len_length)
      let ?h = "h\<lparr>yy_c_buf_p := int (length w')\<rparr>"
      from rematch [OF h(5,6) ok h(7,4) _ las] obtain s1 l1 where
        r: "yy_get_previous_state ?h = Some (Inr (s1, upd_last l1 ?h))" "matched ?h w' p' (length w') s1 l1" by auto
      then obtain best where
        s1: "dfa_state s1" "residual s1 = advances (map code (drop p' w')) lex_rules" "last_ok l1"
          "munch lex_rules (map code (drop p' w')) (int p') best = better (accepted (advances (map code (drop p' w')) lex_rules)) (int (length w')) (last_match l1)"
        unfolding matched_def by (metis (no_types, lifting) append.right_neutral drop_all length_drop list.map(1) munch.simps(1) order_refl take_all)
      have t': "drop p' w' = t" "unread h = []" using h(1,2,3) True t(1) by simp_all
      have "better (accept_at s1) (int (length w')) (last_match l1) = (k, int p' + n)"
        using s1(2,4) state_checked(1) [OF s1(1)] munch_rules [OF assms(3)] t'(1) by simp
      then have "yy_find_action s1 (int (length w')) (upd_last l1 ?h) = Inr (k, int p' + n)"
        using find_action_at [OF _ _ s1(3)] dfa_state_range [OF s1(1)] by simp
      moreover have "lex_loop (LexMatch (int p) st (int c)) (upd_last l g) y = lex_loop (LexFind (int p') s1 (int (length w'))) (upd_last l1 ?h) y"
        using a f1(1) h(7,10) r(1) True t(2) nc by (simp add: after_refill_def)
      moreover have "int p' + n \<le> len w'" using munch_longest(2) [OF assms(3,4)] t'(1) h(4) by (auto simp: len_length)
      moreover have "refillable (upd_last l1 ?h) w'" "unread (upd_last l1 ?h) = unread h" "holds_text (upd_last l1 ?h) w'"
        using h(6) r(2) source_refillable [of "upd_last l1 ?h" h] source_unread [of "upd_last l1 ?h" h] by (simp_all add: matched_def)
      ultimately show ?thesis unfolding to_rule_def using ok t' s1(3)
        by - (rule exI [of _ s1], rule exI [of _ "int (length w')"], rule exI [of _ "upd_last l1 ?h"], rule exI [of _ w'], rule exI [of _ p'], simp add: last_ok_def)
    qed
  qed
qed

lemma lex_rules_range: "\<forall>k \<in> fst ` set lex_rules. 1 \<le> k \<and> k \<le> 55"
  by code_simp

lemma longest_rule: "longest t = (k, n) \<Longrightarrow> t \<noteq> [] \<Longrightarrow> 1 \<le> k \<and> k \<le> 55"
  using munch_longest(3) [of t k n] lex_rules_range by (force simp: rule_matches_def)

lemma before_action_text:
  assumes "holds_text f s" "p \<le> q" "q \<le> length s" "0 \<le> yy_last_accepting_state f" "yy_last_accepting_state f \<le> 174"
  shows "\<exists>f1. YY_DO_BEFORE_ACTION (int p) (int q) f = Inr f1 \<and> at f1 s q \<and> input_source f1 = input_source f \<and> yytext f1 = Inr (take (q - p) (drop p s))"
proof -
  let ?t = "(padded s)[q := CHR 0x00]"
  from putc_text [OF assms(1) [unfolded holds_text_def], of q "CHR 0x00"] assms(3) obtain b where
    b: "putc f (int q) (CHR 0x00) = Inr (set_current b f)" "text_is (set_current b f) ?t s" "input_source (set_current b f) = input_source f" by auto
  let ?f = "(set_current b f)\<lparr>yytext_ptr := int p, yyleng := int q - int p, yy_hold_char := padded s ! q, yy_c_buf_p := int q\<rparr>"
  have "YY_DO_BEFORE_ACTION (int p) (int q) f = Inr ?f"
    using getc_text [OF assms(1), of q] b(1) assms(3) by (simp add: YY_DO_BEFORE_ACTION_def)
  moreover have t: "text_is ?f ?t s" using b(2) by simp
  then have "at ?f s q" using assms(3-5) unfolding at_def by (intro conjI exI [of _ ?t]) simp_all
  moreover from t obtain b' where b': "current ?f = Inr b'" "take (length s + 2) (yy_ch_buf b') = ?t" by (auto simp: text_is_def)
  have "take (q - p) (drop p (yy_ch_buf b')) = take (q - p) (drop p ?t)"
    unfolding b'(2) [symmetric] using assms(3) by (simp add: drop_take take_take min_def)
  then have "take (q - p) (drop p (yy_ch_buf b')) = take (q - p) (drop p s)"
    using assms(2,3) by (simp add: drop_update_swap padded_def list_update_append)
  then have "yytext ?f = Inr (take (q - p) (drop p s))" using b'(1) assms(2) by (simp add: yytext_def nat_diff_distrib')
  ultimately show ?thesis using b(3) by (intro exI [of _ ?f]) simp
qed

lemma at_count_lines [simp]: "at (count_lines a t f) s p = at f s p" "yytext (count_lines a t f) = yytext f"
    "input_source (count_lines a t f) = input_source f"
  by (simp_all add: count_lines_def at_def yytext_def)

lemma lex_start:
  assumes "reads f w p"
  shows "\<exists>g. lex_loop LexNext f y = lex_loop (LexMatch (int p) 1 (int p)) g y \<and> unread g = unread f \<and>
    matched g w p p 1 (yy_last_accepting_state g, yy_last_accepting_cpos g)"
proof -
  from lex_next [of f w p y] assms obtain g where
    g: "lex_loop LexNext f y = lex_loop (LexMatch (int p) 1 (int p)) g y" "holds_text g w" "input_source g = input_source f"
      "0 \<le> yy_last_accepting_state g" "yy_last_accepting_state g \<le> 174" by (auto simp: reads_def)
  have "dfa_state 1" "residual 1 = lex_rules" using residual_1 by (simp_all add: dfa_state_def)
  then have "matched g w p p 1 (yy_last_accepting_state g, yy_last_accepting_cpos g)"
    using g assms source_refillable [OF g(3)] source_unread [OF g(3)] unfolding matched_def reads_def
    by (intro conjI exI [of _ "last_match (yy_last_accepting_state g, yy_last_accepting_cpos g)"]) (simp_all add: at_def last_ok_def)
  then show ?thesis using g(1) source_unread [OF g(3)] by blast
qed

lemma lex_token:
  assumes "reads f w p" "drop p w @ unread f = t" "t \<noteq> []" "longest t = (k, n)"
  shows "\<exists>f1 w1 p1. reads f1 w1 p1 \<and> drop p1 w1 @ unread f1 = drop (nat n) t \<and>
    lex_loop LexNext f y = ro_bind (Some (lex_action (lexeme_of k (take (nat n) t)) y)) (\<lambda>y1.
    if token_number k = 0 then lex_loop LexNext f1 y1 else Some (Inr (token_number k, f1, y1)))"
proof -
  let ?t = "take (nat n) t"
  note L = munch_longest(1,2) [OF assms(4,3)]
  have k: "1 \<le> k" "k \<le> 55" using longest_rule [OF assms(4,3)] by auto
  from lex_start [OF assms(1), of y] obtain g where
    g: "lex_loop LexNext f y = lex_loop (LexMatch (int p) 1 (int p)) g y" "unread g = unread f"
      "matched g w p p 1 (yy_last_accepting_state g, yy_last_accepting_cpos g)" by blast
  from matched_to_rule [OF g(3) _ assms(4,3), of y] assms(2) g(2) obtain s1 cp h w1 p1 where
    h: "lex_loop (LexMatch (int p) 1 (int p)) g y = lex_loop (LexFind (int p1) s1 cp) h y" "holds_text h w1" "refillable h w1" "text_ok w1"
      "text_ok (unread h)" "drop p1 w1 @ unread h = t" "yy_find_action s1 cp h = Inr (k, int p1 + n)" "int p1 + n \<le> len w1"
      "0 \<le> yy_last_accepting_state h" "yy_last_accepting_state h \<le> 174"
    by (auto simp: to_rule_def upd_last_self)
  let ?q = "p1 + nat n"
  have q: "int p1 + n = int ?q" "?q \<le> length w1" using L h(8) by (auto simp: len_length)
  from before_action_text [OF h(2) _ q(2) h(9,10), of p1] obtain f1 where
    f1: "YY_DO_BEFORE_ACTION (int p1) (int ?q) h = Inr f1" "at f1 w1 ?q" "input_source f1 = input_source h"
      "yytext f1 = Inr (take (nat n) (drop p1 w1))" by auto
  have t: "take (nat n) (drop p1 w1) = ?t" "drop ?q w1 @ unread h = drop (nat n) t"
    using h(6) q(2) by (auto simp: add.commute)
  have fa: "yy_find_action s1 cp h = Inr (k, int ?q)" using h(7) q(1) by (simp only:)
  let ?h = "count_lines k ?t f1"
  have "lex_step (LexFind (int p1) s1 cp) h y = ro_bind (Some (lex_action (lexeme_of k ?t) y)) (\<lambda>y1.
      Some (Inr (if token_number k = 0 then LexNext else LexReturn (token_number k), ?h, y1)))"
    using fa f1 k t(1) by (cases "lex_action (lexeme_of k ?t) y")
      (simp_all add: lex_step_def act_on_def YY_END_OF_BUFFER_def do_action_def)
  then have "lex_loop (LexFind (int p1) s1 cp) h y = ro_bind (Some (lex_action (lexeme_of k ?t) y)) (\<lambda>y1.
      if token_number k = 0 then lex_loop LexNext ?h y1 else Some (Inr (token_number k, ?h, y1)))"
    unfolding lex_loop_find by (cases "lex_action (lexeme_of k ?t) y") simp_all
  moreover have s: "input_source ?h = input_source h" using f1(3) by simp
  have "reads ?h w1 ?q" "drop ?q w1 @ unread ?h = drop (nat n) t"
    using f1(2) h(3-5) t(2) source_refillable [OF s] source_unread [OF s] by (simp_all add: reads_def)
  ultimately show ?thesis using g(1) h(1) by - (rule exI [of _ ?h], rule exI [of _ w1], rule exI [of _ ?q], simp)
qed

lemma lex_end:
  assumes "reads f w p" "drop p w @ unread f = []"
  shows "\<exists>f1 w1 p1. reads f1 w1 p1 \<and> drop p1 w1 @ unread f1 = [] \<and> lex_loop LexNext f y = Some (Inr (0, f1, y))"
proof -
  have p: "p = length w" using assms by (simp add: reads_def at_def)
  from lex_start [OF assms(1), of y] obtain g where
    g: "lex_loop LexNext f y = lex_loop (LexMatch (int p) 1 (int p)) g y" "unread g = unread f"
      "matched g w p p 1 (yy_last_accepting_state g, yy_last_accepting_cpos g)" by blast
  have M: "holds_text g w" "refillable g w" "text_ok w" using g(3) by (simp_all add: matched_def)
  have "yy_match 1 (int p) (upd_last (yy_last_accepting_state g, yy_last_accepting_cpos g) g) = Some (Inr (174, int p + 2, upd_last (3, int p + 1) g))"
    unfolding p by (rule yy_match_end [OF M(1)]) (simp add: dfa_state_def)
  then have a: "lex_loop (LexMatch (int p) 1 (int p)) g y = lex_loop (LexFind (int p) 174 (int (length w) + 2)) (upd_last (3, int (length w) + 1) g) y"
    using p by (intro lex_loop_step) (simp add: lex_step_def upd_last_self)
  from lex_find_end [OF M(1) _ M(2), of p y] p obtain f1 b where
    f1: "lex_loop (LexFind (int p) 174 (int (length w) + 2)) (upd_last (3, int (length w) + 1) g) y =
      ro_bind (ro_bind (yy_get_next_buffer f1) (\<lambda>r. ro_bind (after_refill (int (length w - p)) r) (\<lambda>(pc, f2). Some (Inr (pc, f2, y)))))
        (\<lambda>(pc, f2, y2). lex_loop pc f2 y2)" "holds_text f1 w" "input_source f1 = input_source g" "current f1 = Inr b"
      "yy_buffer_status b \<noteq> YY_BUFFER_NEW" "yytext_ptr f1 = int p" "yy_hold_char f1 = CHR 0x00" "yy_c_buf_p f1 = len w + 1" "yy_last_accepting_state f1 = 3" by blast
  have rf: "refillable f1 w" "unread f1 = []" using M(2) source_refillable [OF f1(3)] source_unread [OF f1(3)] g(2) assms(2) by simp_all
  from next_buffer [OF f1(2) rf(1) f1(4-6) _ f1(8,7)] rf(2) p obtain h w' p' where
    h: "unread h = []" "drop p' w' = []" "p' \<le> length w'" "holds_text h w'" "refillable h w'" "yytext_ptr h = int p'" "same_scan f1 h" "set w' \<subseteq> set w"
      "yy_get_next_buffer f1 = Some (Inr (EOB_ACT_END_OF_FILE, h))" "yy_hold_char h = CHR 0x00" by fastforce
  let ?h = "h\<lparr>yy_did_buffer_switch_on_eof := False, yy_c_buf_p := int p'\<rparr>"
  have r: "lex_loop LexNext f y = Some (Inr (0, ?h, y))" using g(1) a f1(1) h(6,9) by (simp add: after_refill_def)
  have s: "input_source ?h = input_source h" by (simp add: input_source_def split: sum.split)
  have p': "p' = length w'" using h(2,3) by simp
  have "at ?h w' p'" using h(4,7,10) f1(9) padded_nth(2) [of w'] p' unfolding at_def holds_text_def same_scan_def
    by (intro conjI exI [of _ "padded w'"]) (simp_all, metis list_update_id)
  moreover have "text_ok w'" using h(8) M(3) by (auto simp: text_ok_def)
  ultimately have "reads ?h w' p'" "drop p' w' @ unread ?h = []"
    using h(1,2,5) source_refillable [OF s] source_unread [OF s] by (simp_all add: reads_def text_ok_def)
  then show ?thesis using r by blast
qed

section \<open>The scanner follows the rules\<close>

text \<open>What the rules found in a text do, up to the first that returns a token.\<close>

fun run_lexemes :: "(int \<times> string) list \<Rightarrow> yacc \<Rightarrow> (int \<times> (int \<times> string) list \<times> yacc) res" where
  "run_lexemes [] y = Inr (0, [], y)"
| "run_lexemes ((k, t) # ls) y = res_bind (lex_action (lexeme_of k t) y) (\<lambda>y1.
     if token_number k = 0 then run_lexemes ls y1 else Inr (token_number k, ls, y1))"

lemma lex_loop_scan:
  assumes "reads f w p" "drop p w @ unread f = t"
  shows "case run_lexemes (scan t) y of Inl e \<Rightarrow> lex_loop LexNext f y = Some (Inl e)
    | Inr (n, ls, y1) \<Rightarrow> \<exists>f1 w1 p1 j. lex_loop LexNext f y = Some (Inr (n, f1, y1)) \<and> reads f1 w1 p1 \<and> drop p1 w1 @ unread f1 = drop j t \<and>
        j \<le> length t \<and> ls = scan (drop j t)"
  using assms
proof (induction "length t" arbitrary: t w p f y rule: less_induct)
  case less
  show ?case
  proof (cases "t = []")
    case True
    from lex_end [OF less.prems(1), of y] less.prems(2) True show ?thesis by fastforce
  next
    case False
    obtain k n where kn: "longest t = (k, n)" by fastforce
    have n: "1 \<le> n" "nat n \<le> length t" using munch_longest(1,2) [OF kn False] by auto
    have sc: "scan t = (k, take (nat n) t) # scan (drop (nat n) t)" using scan_step [OF False kn] by simp
    from lex_token [OF less.prems False kn, of y] obtain f1 w1 p1 where
      f1: "reads f1 w1 p1" "drop p1 w1 @ unread f1 = drop (nat n) t"
        "lex_loop LexNext f y = ro_bind (Some (lex_action (lexeme_of k (take (nat n) t)) y)) (\<lambda>y1.
          if token_number k = 0 then lex_loop LexNext f1 y1 else Some (Inr (token_number k, f1, y1)))" by blast
    show ?thesis
    proof (cases "lex_action (lexeme_of k (take (nat n) t)) y")
      case (Inl e)
      then show ?thesis using sc f1(3) by simp
    next
      case (Inr y1)
      have "length (drop (nat n) t) < length t" using n False by simp
      note IH = less.hyps [OF this f1(1,2), of y1]
      have j: "\<exists>i. drop j (drop (nat n) t) = drop i t \<and> i \<le> length t" if "j \<le> length (drop (nat n) t)" for j
        using that n(2) by (intro exI [of _ "j + nat n"]) simp
      show ?thesis
      proof (cases "token_number k = 0")
        case True
        then show ?thesis using IH sc f1(3) Inr j by (auto split: sum.splits) metis
      next
        case False
        then show ?thesis using sc f1 Inr n(2) by auto
      qed
    qed
  qed
qed

text \<open>
  A scanner that is at place \<open>p\<close> of a text \<open>s\<close>, which is in its buffer or comes from a file: before its first
  token, and between tokens.
\<close>

definition ready :: "flex \<Rightarrow> string \<Rightarrow> nat \<Rightarrow> bool" where
  "ready f s p \<longleftrightarrow> p \<le> length s \<and> (if yy_init f then \<exists>w i. reads f w i \<and> drop i w @ unread f = drop p s
     else p = 0 \<and> (\<exists>g w. yylex_init f = Inr g \<and> yy_init g \<and> reads g w 0 \<and> w @ unread g = s))"

lemma reads_init: "reads f w p \<Longrightarrow> yy_init f"
  by (auto simp: reads_def at_def text_is_def)

lemma yylex_scan:
  assumes "ready f s p"
  shows "case run_lexemes (scan (drop p s)) y of Inl e \<Rightarrow> yylex f y = Some (Inl e)
    | Inr (n, ls, y1) \<Rightarrow> \<exists>f1 q. yylex f y = Some (Inr (n, f1, y1)) \<and> ready f1 s q \<and> ls = scan (drop q s)"
proof -
  have "\<exists>g w i. yylex f y = lex_loop LexNext g y \<and> reads g w i \<and> drop i w @ unread g = drop p s"
  proof (cases "yy_init f")
    case True
    then show ?thesis using assms by (auto simp: ready_def yylex_def)
  next
    case False
    then obtain g w where "p = 0" "yylex_init f = Inr g" "reads g w 0" "w @ unread g = s" using assms by (auto simp: ready_def)
    then show ?thesis using False by (intro exI [of _ g] exI [of _ w] exI [of _ 0]) (simp add: yylex_def)
  qed
  then obtain g w i where g: "yylex f y = lex_loop LexNext g y" "reads g w i" "drop i w @ unread g = drop p s" by blast
  have p: "p \<le> length s" using assms by (simp add: ready_def)
  have r: "ready f1 s (j + p) \<and> drop j (drop p s) = drop (j + p) s"
    if "reads f1 w1 p1" "drop p1 w1 @ unread f1 = drop j (drop p s)" "j \<le> length (drop p s)" for f1 w1 p1 j
    using that p reads_init [OF that(1)] by (auto simp: ready_def)
  from lex_loop_scan [OF g(2,3), of y] show ?thesis using g(1) r by (auto split: sum.splits) metis
qed

text \<open>Giving the scanner a text.\<close>

definition stack_ok :: "flex \<Rightarrow> bool" where
  "stack_ok f \<longleftrightarrow> (\<forall>st. yy_buffer_stack f = Some st \<longrightarrow> yy_buffer_stack_top f < length st)"

lemma ensure_ok:
  assumes "stack_ok f"
  shows "\<exists>st k. yyensure_buffer_stack f = f\<lparr>yy_buffer_stack := Some st, yy_buffer_stack_top := k\<rparr> \<and> k < length st \<and> st ! k = current_buffer f"
proof (cases "yy_buffer_stack f")
  case None
  then show ?thesis by (intro exI [of _ "[None]"] exI [of _ 0]) (simp add: yyensure_buffer_stack_def current_buffer_def)
next
  case (Some st)
  then have k: "yy_buffer_stack_top f < length st" using assms by (simp add: stack_ok_def)
  let ?st = "if st \<noteq> [] \<and> length st - 1 \<le> yy_buffer_stack_top f then st @ replicate 8 None else st"
  have "yyensure_buffer_stack f = f\<lparr>yy_buffer_stack := Some ?st, yy_buffer_stack_top := yy_buffer_stack_top f\<rparr>"
    using Some by (cases f) (simp add: yyensure_buffer_stack_def)
  then show ?thesis using Some k by (intro exI [of _ ?st] exI [of _ "yy_buffer_stack_top f"]) (simp add: current_buffer_def nth_append)
qed

lemma at_start:
  assumes "current g = Inr b" "take (length s + 2) (yy_ch_buf b) = padded s" "buf_n_chars b = len s" "yy_n_chars g = len s" "yy_c_buf_p g = 0"
    "yy_hold_char g = padded s ! 0" "yy_start g = 1" "yy_init g" "0 \<le> yy_last_accepting_state g" "yy_last_accepting_state g \<le> 174"
  shows "at g s 0"
  using assms unfolding at_def text_is_def by (intro conjI exI [of _ "padded s"]) simp_all

lemma text_ready:
  assumes "current_buffer f = Some p" "buffers f p = Some b" "take (length s + 2) (yy_ch_buf b) = padded s" "buf_n_chars b = len s" "yy_buf_pos b = 0"
    "\<not> yy_fill_buffer b" "\<not> yy_init f" "yy_start f = 0" "0 \<le> yy_last_accepting_state f" "yy_last_accepting_state f \<le> 174" "text_ok s" "len s + 1 < 2 ^ 31"
  shows "ready f s 0"
proof -
  let ?f = "f\<lparr>yy_init := True, yy_start := 1, yyin := if yyin f = None then stdin_file else yyin f, yyout := if yyout f = None then stdout_file else yyout f\<rparr>"
  let ?g = "?f\<lparr>yy_n_chars := len s, yytext_ptr := 0, yy_c_buf_p := 0, yyin := yy_input_file b, yy_hold_char := padded s ! 0\<rparr>"
  have c: "current ?g = Inr b" "current ?f = Inr b" "current_buffer ?f \<noteq> None" using assms(1,2) by (simp_all add: current_def)
  have "rd (yy_ch_buf b) 0 = Inr (padded s ! 0)" using text_is_nth [of "padded s" "yy_ch_buf b" 0] assms(3) by (simp add: rd_def tab_def len_length)
  then have "yylex_init f = Inr ?g" using c(2,3) assms(4,5,8) by (simp add: yylex_init_def default_buffer_def yy_load_buffer_state_def)
  moreover have "at ?g s 0" by (rule at_start [OF c(1)]) (use assms(3,4,9,10) in simp_all)
  moreover have "refillable ?g s" "unread ?g = []" using c(1) assms(6,12) by (simp_all add: refillable_def unread_def len_length)
  ultimately show ?thesis using assms(7,11) by (simp add: ready_def reads_def text_ok_def)
qed

lemma yy_scan_string_ready:
  assumes "stack_ok f" "current_buffer f = None" "\<not> yy_init f" "yy_start f = 0" "0 \<le> yy_last_accepting_state f" "yy_last_accepting_state f \<le> 174" "text_ok s"
    and len: "len s + 1 < 2 ^ 31"
  shows "\<exists>p f1 f2. yy_scan_string s f = Inr (p, f1) \<and> ready f1 s 0 \<and> current_buffer f1 = Some p \<and>
    yy_switch_to_buffer p f1 = Inr f2 \<and> ready f2 s 0 \<and> current_buffer f2 = Some p"
proof -
  let ?p = "next_buffer f"
  let ?b = "\<lparr>yy_input_file = None, yy_ch_buf = padded s, yy_buf_pos = 0, yy_buf_size = len s, buf_n_chars = len s, yy_is_our_buffer = False,
     yy_is_interactive = False, yy_at_bol = True, yy_fill_buffer = False, yy_buffer_status = YY_BUFFER_NEW\<rparr>"
  let ?f = "f\<lparr>buffers := (buffers f)(?p \<mapsto> ?b), next_buffer := ?p + 1\<rparr>"
  have "stack_ok ?f" using assms(1) by (simp add: stack_ok_def)
  from ensure_ok [OF this] obtain st k where
    e: "yyensure_buffer_stack ?f = ?f\<lparr>yy_buffer_stack := Some st, yy_buffer_stack_top := k\<rparr>" "k < length st" "st ! k = None" using assms(2) by auto
  let ?g = "?f\<lparr>yy_buffer_stack := Some (st[k := Some ?p]), yy_buffer_stack_top := k\<rparr>"
  let ?h = "?g\<lparr>yy_n_chars := len s, yytext_ptr := 0, yy_c_buf_p := 0, yyin := None, yy_hold_char := padded s ! 0, yy_did_buffer_switch_on_eof := True\<rparr>"
  let ?r = "?h\<lparr>buffers := (buffers ?h)(?p \<mapsto> ?b\<lparr>yy_is_our_buffer := True\<rparr>)\<rparr>"
  have t: "takeWhile (\<lambda>c. c \<noteq> CHR 0x00) s = s" using assms(7) by (auto simp: text_ok_def takeWhile_eq_all_conv)
  have n: "current_buffer (?f\<lparr>yy_buffer_stack := Some st, yy_buffer_stack_top := k\<rparr>) = None" "current_buffer ?g = Some ?p"
    using e(2,3) by (simp_all add: current_buffer_def)
  let ?l = "?g\<lparr>yy_n_chars := len s, yytext_ptr := 0, yy_c_buf_p := 0, yyin := None, yy_hold_char := padded s ! 0\<rparr>"
  have ld: "yy_load_buffer_state ?g = Inr ?l" using n(2) by (simp add: yy_load_buffer_state_def current_def rd_def tab_def len_length)
  have sc: "set_current_buffer (Some ?p) (?f\<lparr>yy_buffer_stack := Some st, yy_buffer_stack_top := k\<rparr>) = Inr ?g"
    using e(2) by (simp add: set_current_buffer_def)
  have fl: "flush_current (?f\<lparr>yy_buffer_stack := Some st, yy_buffer_stack_top := k\<rparr>) = Inr (?f\<lparr>yy_buffer_stack := Some st, yy_buffer_stack_top := k\<rparr>)"
    unfolding flush_current_def n(1) by simp
  have sw: "yy_switch_to_buffer ?p ?f = Inr ?h" unfolding yy_switch_to_buffer_def Let_def e(1) n(1) fl res_bind.simps sc ld by simp
  have m: "tab (padded s) (len s) = YY_END_OF_BUFFER_CHAR" "tab (padded s) (1 + len s) = YY_END_OF_BUFFER_CHAR"
    using padded_nth(2,3) [of s] by (simp_all add: tab_def len_length nat_add_distrib YY_END_OF_BUFFER_CHAR_def)
  have "yy_scan_buffer (padded s) f = Inr (Some ?p, ?h)" using sw m by (simp add: yy_scan_buffer_def Let_def len_length)
  then have sc: "yy_scan_string s f = Inr (?p, ?r)" unfolding yy_scan_string_def t yy_scan_bytes_def padded_def [symmetric] by simp
  have r: "current_buffer ?r = Some ?p" "buffers ?r ?p = Some (?b\<lparr>yy_is_our_buffer := True\<rparr>)" using e(2) by (simp_all add: current_buffer_def)
  have "ready ?r s 0" by (rule text_ready [OF r]) (use assms(3-7) len in \<open>simp_all\<close>)
  have "stack_ok ?r" using e(2) by (simp add: stack_ok_def)
  from ensure_ok [OF this] obtain st' k' where
    e': "yyensure_buffer_stack ?r = ?r\<lparr>yy_buffer_stack := Some st', yy_buffer_stack_top := k'\<rparr>" "k' < length st'" "st' ! k' = Some ?p" unfolding r(1) by blast
  let ?q = "?r\<lparr>yy_buffer_stack := Some st', yy_buffer_stack_top := k'\<rparr>"
  have q: "current_buffer ?q = Some ?p" "buffers ?q ?p = Some (?b\<lparr>yy_is_our_buffer := True\<rparr>)" using e'(2,3) by (simp_all add: current_buffer_def)
  have "ready ?q s 0" by (rule text_ready [OF q]) (use assms(3-7) len in \<open>simp_all\<close>)
  moreover have "yy_switch_to_buffer ?p ?r = Inr ?q" unfolding yy_switch_to_buffer_def e'(1) Let_def using q(1) by simp
  ultimately show ?thesis using sc r(1) q(1) \<open>ready ?r s 0\<close> by blast
qed

text \<open>Scanning stays in its buffer.\<close>

lemma putc_buffer: "putc f i c = Inr f' \<Longrightarrow> current_buffer f' = current_buffer f"
  by (auto simp: putc_def res_simps split: if_splits)

lemma note_accepting_buffer: "note_accepting s cp f = Inr f' \<Longrightarrow> current_buffer f' = current_buffer f"
  by (auto simp: note_accepting_def res_simps split: if_splits)

lemma ro_bind_Inr: "ro_bind m g = Some (Inr z) \<longleftrightarrow> (\<exists>x. m = Some (Inr x) \<and> g x = Some (Inr z))"
proof (cases m)
  case (Some x)
  then show ?thesis by (cases x) auto
qed simp

lemma yy_match_buffer:
  assumes "yy_match s cp f = Some r"
  shows "case r of Inl e \<Rightarrow> True | Inr (s1, cp1, f1) \<Rightarrow> current_buffer f1 = current_buffer f"
proof (rule yy_match.raw_induct [OF _ assms])
  fix rec s cp f r
  assume IH: "\<And>s cp f r. rec s cp f = Some r \<Longrightarrow> case r of Inl e \<Rightarrow> True | Inr (s1, cp1, f1) \<Rightarrow> current_buffer f1 = current_buffer f"
    and r: "ro_bind (Some (res_bind (getc f cp) char_class)) (\<lambda>c. ro_bind (Some (note_accepting s cp f)) (\<lambda>f1.
      ro_bind (yy_next s c) (\<lambda>s1. ro_bind (Some (rd yy_base s1)) (\<lambda>b.
       if b \<noteq> 189 then rec s1 (cp + 1) f1 else Some (Inr (s1, cp + 1, f1)))))) = Some r"
  show "case r of Inl e \<Rightarrow> True | Inr (s1, cp1, f1) \<Rightarrow> current_buffer f1 = current_buffer f"
  proof (cases r)
    case (Inr z)
    from r [unfolded Inr ro_bind_Inr] obtain f1 s1 where f1: "note_accepting s cp f = Inr f1"
      "rec s1 (cp + 1) f1 = Some (Inr z) \<or> z = (s1, cp + 1, f1)" by (auto split: if_splits)
    then show ?thesis using Inr IH [of s1 "cp + 1" f1 "Inr z"] note_accepting_buffer [OF f1(1)] by (cases z) auto
  qed simp
qed

lemma previous_state_buffer:
  assumes "previous_state_loop s cp f = Some r"
  shows "case r of Inl e \<Rightarrow> True | Inr (s1, f1) \<Rightarrow> current_buffer f1 = current_buffer f"
proof (rule previous_state_loop.raw_induct [OF _ assms])
  fix rec s cp f r
  assume IH: "\<And>s cp f r. rec s cp f = Some r \<Longrightarrow> case r of Inl e \<Rightarrow> True | Inr (s1, f1) \<Rightarrow> current_buffer f1 = current_buffer f"
    and r: "(if cp < yy_c_buf_p f then
      ro_bind (Some (res_bind (getc f cp) (\<lambda>ch. if ch = CHR 0x00 then Inr 1 else char_class ch))) (\<lambda>c.
      ro_bind (Some (note_accepting s cp f)) (\<lambda>f1. ro_bind (yy_next s c) (\<lambda>s1. rec s1 (cp + 1) f1)))
      else Some (Inr (s, f))) = Some r"
  show "case r of Inl e \<Rightarrow> True | Inr (s1, f1) \<Rightarrow> current_buffer f1 = current_buffer f"
  proof (cases r)
    case (Inr z)
    from r [unfolded Inr ro_bind_Inr] consider "z = (s, f)" | f1 s1 where "note_accepting s cp f = Inr f1" "rec s1 (cp + 1) f1 = Some (Inr z)"
      by (auto simp: ro_bind_Inr split: if_splits)
    then show ?thesis
    proof cases
      case 2
      then show ?thesis using Inr IH [OF 2(2)] note_accepting_buffer [OF 2(1)] by (cases z) auto
    qed (use Inr in simp)
  qed simp
qed

lemma try_NUL_buffer: "yy_try_NUL_trans s f = Some (Inr (s1, f1)) \<Longrightarrow> current_buffer f1 = current_buffer f"
  by (auto simp: yy_try_NUL_trans_def ro_bind_Inr dest: note_accepting_buffer)

lemma mark_normal_buffer: "mark_normal f = Inr f' \<Longrightarrow> current_buffer f' = current_buffer f"
  by (auto simp: mark_normal_def res_simps)

lemma grow_loop_buffer:
  assumes "grow_loop n m f = Some r"
  shows "case r of Inl e \<Rightarrow> True | Inr (k, f1) \<Rightarrow> current_buffer f1 = current_buffer f"
proof (rule grow_loop.raw_induct [OF _ assms])
  fix rec :: "int \<Rightarrow> int \<Rightarrow> flex \<Rightarrow> (int \<times> flex) res option" and n m f r
  let ?step = "\<lambda>b. let size = if size_t (yy_buf_size b * 2) = 0 then size_t (yy_buf_size b + yy_buf_size b div 8) else size_t (yy_buf_size b * 2)
    in rec n (size_t (size - n - 1)) (set_current (b\<lparr>yy_buf_size := size, yy_ch_buf := resized f (nat (size + 2)) (yy_ch_buf b)\<rparr>)
      (f\<lparr>yy_c_buf_p := to_int32 (yy_c_buf_p f)\<rparr>))"
  assume IH: "\<And>n m f r. rec n m f = Some r \<Longrightarrow> case r of Inl e \<Rightarrow> True | Inr (k, f1) \<Rightarrow> current_buffer f1 = current_buffer f"
    and r: "(if m \<noteq> 0 then Some (Inr (m, f)) else ro_bind (Some (current f)) (\<lambda>b. if \<not> yy_is_our_buffer b then Some (Inl LogicError) else ?step b)) = Some r"
  show "case r of Inl e \<Rightarrow> True | Inr (k, f1) \<Rightarrow> current_buffer f1 = current_buffer f"
  proof (cases r)
    case (Inr z)
    show ?thesis
    proof (cases "m = 0")
      case True
      with r Inr obtain b where "current f = Inr b" by (cases "current f") auto
      with r True Inr have "?step b = Some (Inr z)" by (cases "yy_is_our_buffer b") simp_all
      from IH [OF this [unfolded Let_def]] show ?thesis using Inr by (cases z) simp
    qed (use r Inr in auto)
  qed simp
qed

lemma load_buffer: "yy_load_buffer_state f = Inr g \<Longrightarrow> current_buffer g = current_buffer f"
  by (auto simp: yy_load_buffer_state_def res_simps)

lemma yyrestart_buffer: "current_buffer f \<noteq> None \<Longrightarrow> yyrestart i f = Inr g \<Longrightarrow> current_buffer g = current_buffer f"
  by (auto simp: yyrestart_def default_buffer_def yy_init_buffer_def yy_flush_buffer_def Let_def res_simps split: option.splits if_splits dest!: load_buffer)

lemma YY_INPUT_buffer: "YY_INPUT i m f = Inr g \<Longrightarrow> current_buffer g = current_buffer f"
  by (auto simp: YY_INPUT_def Let_def res_simps split: option.splits if_splits)

lemma read_more_buffer: "read_more n f = Some (Inr g) \<Longrightarrow> current_buffer g = current_buffer f"
  by (auto simp: read_more_def ro_bind_Inr split: if_splits dest!: grow_loop_buffer YY_INPUT_buffer)

lemma end_buffer_buffer: "end_buffer n f = Inr g \<Longrightarrow> current_buffer g = current_buffer f"
  by (auto simp: end_buffer_def Let_def res_simps split: if_splits dest!: putc_buffer)

lemma read_result_buffer: "current_buffer f \<noteq> None \<Longrightarrow> read_result n f = Inr (r, g) \<Longrightarrow> current_buffer g = current_buffer f"
  using yyrestart_buffer [of f "yyin f" g] by (auto simp: read_result_def res_simps split: if_splits)

lemma next_buffer_buffer:
  assumes "yy_get_next_buffer f = Some (Inr (r, g))"
  shows "current_buffer g = current_buffer f"
proof -
  have c: "current_buffer f \<noteq> None" using assms by (cases "current_buffer f") (simp_all add: yy_get_next_buffer_def current_def)
  from assms show ?thesis unfolding yy_get_next_buffer_def Let_def
    by (auto simp: ro_bind_Inr split: if_splits dest!: read_more_buffer end_buffer_buffer read_result_buffer [rotated]) (use c in simp_all)
qed

lemma after_refill_buffer: "after_refill n (r, f) = Some (Inr (pc, g)) \<Longrightarrow> current_buffer g = current_buffer f"
  by (cases r) (auto simp: after_refill_def ro_bind_Inr yy_get_previous_state_def dest!: previous_state_buffer)

lemma end_of_buffer_buffer: "end_of_buffer cp f = Some (Inr (pc, f1)) \<Longrightarrow> current_buffer f1 = current_buffer f"
  unfolding end_of_buffer_def Let_def ro_bind_Inr yy_get_previous_state_def
  by (auto simp: ro_bind_Inr split: if_splits
      dest!: putc_buffer mark_normal_buffer previous_state_buffer try_NUL_buffer next_buffer_buffer after_refill_buffer)

lemma act_on_buffer:
  assumes "act_on bp a cp f y = Some (Inr (pc, f1, y1))"
  shows "current_buffer f1 = current_buffer f"
proof -
  from assms [unfolded act_on_def ro_bind_Inr] obtain g where g: "YY_DO_BEFORE_ACTION bp cp f = Inr g" and
    r: "(if a = YY_END_OF_BUFFER then ro_bind (end_of_buffer cp g) (\<lambda>(pc, f2). Some (Inr (pc, f2, y)))
     else if a = 0 then ro_bind (Some (putc g cp (yy_hold_char g))) (\<lambda>f2.
       Some (Inr (LexFind bp (yy_last_accepting_state f2) (yy_last_accepting_cpos f2), f2, y)))
     else ro_bind (Some (yytext g)) (\<lambda>text. Some (do_action a (count_lines a text g) y))) = Some (Inr (pc, f1, y1))" by auto
  have "current_buffer g = current_buffer f" using g by (auto simp: YY_DO_BEFORE_ACTION_def res_simps dest!: putc_buffer)
  moreover have "current_buffer f1 = current_buffer g"
    using r by (auto simp: ro_bind_Inr do_action_def count_lines_def res_simps dest!: putc_buffer end_of_buffer_buffer split: if_splits)
  ultimately show ?thesis by simp
qed

lemma lex_step_buffer: "lex_step pc f y = Some (Inr (pc1, f1, y1)) \<Longrightarrow> current_buffer f1 = current_buffer f"
  by (cases pc) (auto simp: lex_step_def ro_bind_Inr dest!: putc_buffer yy_match_buffer act_on_buffer)

lemma lex_loop_buffer:
  assumes "lex_loop pc f y = Some r"
  shows "case r of Inl e \<Rightarrow> True | Inr (n, f1, y1) \<Rightarrow> current_buffer f1 = current_buffer f"
proof (rule lex_loop.raw_induct [OF _ assms])
  fix rec pc f y r
  assume IH: "\<And>pc f y r. rec pc f y = Some r \<Longrightarrow> case r of Inl e \<Rightarrow> True | Inr (n, f1, y1) \<Rightarrow> current_buffer f1 = current_buffer f"
    and r: "(case pc of LexReturn n \<Rightarrow> Some (Inr (n, f, y)) | _ \<Rightarrow> ro_bind (lex_step pc f y) (\<lambda>(pc1, f1, y1). rec pc1 f1 y1)) = Some r"
  show "case r of Inl e \<Rightarrow> True | Inr (n, f1, y1) \<Rightarrow> current_buffer f1 = current_buffer f"
  proof (cases r)
    case (Inr z)
    with r consider n where "z = (n, f, y)" | pc1 f1 y1 where "lex_step pc f y = Some (Inr (pc1, f1, y1))" "rec pc1 f1 y1 = Some (Inr z)"
      by (cases pc) (auto simp: ro_bind_Inr)
    then show ?thesis
    proof cases
      case 2
      then show ?thesis using Inr IH [OF 2(2)] lex_step_buffer [OF 2(1)] by (cases z) auto
    qed (use Inr in simp)
  qed simp
qed

lemma yylex_buffer:
  assumes "current_buffer f = Some p" "yylex f y = Some (Inr (n, f1, y1))"
  shows "current_buffer f1 = Some p"
proof -
  have "yylex_init f = Inr g \<Longrightarrow> current_buffer g = Some p" for g
    using assms(1) by (auto simp: yylex_init_def default_buffer_def res_simps dest!: load_buffer)
  then show ?thesis using assms by (auto simp: yylex_def ro_bind_Inr dest!: lex_loop_buffer split: if_splits)
qed

text \<open>Between two texts. A scanner without a buffer reads the file of \<^verbatim>\<open>yyin\<close>, or the standard input.\<close>

definition scanner_idle :: "flex \<Rightarrow> bool" where
  "scanner_idle f \<longleftrightarrow> stack_ok f \<and> current_buffer f = None \<and> \<not> yy_init f \<and> yy_start f = 0 \<and> 0 \<le> yy_last_accepting_state f \<and>
     yy_last_accepting_state f \<le> 174"

lemma scanner_idle_again:
  assumes "ready f s q" "current_buffer f = Some p"
  shows "\<exists>f1 f2. yy_delete_buffer (Some p) f = Inr f1 \<and> yylex_destroy f1 = Some (Inr f2) \<and> scanner_idle f2"
proof -
  obtain g b where g: "current g = Inr b" "current_buffer g = current_buffer f" "buffers g = buffers f" "yy_last_accepting_state g = yy_last_accepting_state f"
    "0 \<le> yy_last_accepting_state g" "yy_last_accepting_state g \<le> 174"
  proof (cases "yy_init f")
    case True
    then show ?thesis using assms(1) that [of f] by (auto simp: ready_def reads_def at_def text_is_def)
  next
    case False
    then obtain g w where g: "yylex_init f = Inr g" "reads g w 0" using assms(1) by (auto simp: ready_def)
    have "current_buffer g = current_buffer f \<and> buffers g = buffers f \<and> yy_last_accepting_state g = yy_last_accepting_state f"
      using g(1) assms(2) by (auto simp: yylex_init_def default_buffer_def yy_load_buffer_state_def res_simps)
    then show ?thesis using g(2) that [of g] by (auto simp: reads_def at_def text_is_def)
  qed
  then have b: "buffers f p = Some b" "0 \<le> yy_last_accepting_state f" "yy_last_accepting_state f \<le> 174"
    using assms(2) by (auto simp: current_def split: option.splits)
  from assms(2) obtain st where st: "yy_buffer_stack f = Some st" "yy_buffer_stack_top f < length st" "st ! yy_buffer_stack_top f = Some p"
    by (auto simp: current_buffer_def split: option.splits if_splits)
  let ?f = "f\<lparr>yy_buffer_stack := Some (st[yy_buffer_stack_top f := None]), buffers := (buffers f)(p := None)\<rparr>"
  have "yy_delete_buffer (Some p) f = Inr ?f" using assms(2) st b(1) by (auto simp: yy_delete_buffer_def set_current_buffer_def)
  moreover have "current_buffer ?f = None" using st(2) by (simp add: current_buffer_def)
  then have "yylex_destroy ?f = Some (Inr (yy_init_globals (?f\<lparr>yy_buffer_stack := None\<rparr>)))" by (simp add: yylex_destroy_def destroy_loop.simps)
  moreover have "scanner_idle (yy_init_globals (?f\<lparr>yy_buffer_stack := None\<rparr>))"
    using b by (simp add: yy_init_globals_def scanner_idle_def stack_ok_def current_buffer_def)
  ultimately show ?thesis by blast
qed

lemma two_zeros:
  assumes "2 \<le> length cs"
  shows "take 2 (cs[0 := CHR 0x00, 1 := CHR 0x00]) = padded []" "cs[0 := CHR 0x00, 1 := CHR 0x00] ! 0 = CHR 0x00"
  using assms by (cases cs rule: remdups_adj.cases; simp add: padded_def YY_END_OF_BUFFER_CHAR_def)+

definition input_file :: "flex \<Rightarrow> nat" where
  "input_file f = (case yyin f of None \<Rightarrow> 0 | Some k \<Rightarrow> k)"

lemma file_ready:
  assumes "scanner_idle f" "text_ok (streams (env f) (input_file f))" "len (streams (env f) (input_file f)) + 1 < 2 ^ 31"
  shows "ready f (streams (env f) (input_file f)) 0"
proof -
  let ?k = "input_file f"
  let ?f = "f\<lparr>yy_init := True, yy_start := 1, yyin := Some ?k, yyout := (if yyout f = None then stdout_file else yyout f)\<rparr>"
  have i: "stack_ok ?f" "current_buffer ?f = None" "(if yyin f = None then stdin_file else yyin f) = Some ?k" "yy_start f = 0" "\<not> yy_init f"
    using assms(1) by (auto simp: scanner_idle_def stack_ok_def input_file_def stdin_file_def)
  from ensure_ok [OF i(1)] obtain st k where
    e: "yyensure_buffer_stack ?f = ?f\<lparr>yy_buffer_stack := Some st, yy_buffer_stack_top := k\<rparr>" "k < length st" "st ! k = None" unfolding i(2) by blast
  let ?e = "?f\<lparr>yy_buffer_stack := Some st, yy_buffer_stack_top := k\<rparr>"
  let ?p = "next_buffer f"
  let ?cs = "(resized ?e (YY_BUF_SIZE + 2) [])[0 := YY_END_OF_BUFFER_CHAR, 1 := YY_END_OF_BUFFER_CHAR]"
  let ?b = "\<lparr>yy_input_file = Some ?k, yy_ch_buf = ?cs, yy_buf_pos = 0, yy_buf_size = int YY_BUF_SIZE, buf_n_chars = 0, yy_is_our_buffer = True,
     yy_is_interactive = is_tty (env f) ?k, yy_at_bol = True, yy_fill_buffer = True, yy_buffer_status = YY_BUFFER_NEW\<rparr>"
  let ?c = "?e\<lparr>buffers := (buffers f)(?p \<mapsto> ?b), next_buffer := ?p + 1\<rparr>"
  let ?d = "?c\<lparr>yy_buffer_stack := Some (st[k := Some ?p])\<rparr>"
  let ?g = "?d\<lparr>yy_n_chars := 0, yytext_ptr := 0, yy_c_buf_p := 0, yyin := Some ?k, yy_hold_char := CHR 0x00\<rparr>"
  have len: "length (resized ?e (YY_BUF_SIZE + 2) []) = YY_BUF_SIZE + 2" by (rule resized_ok) simp
  have "current_buffer ?e = None" using e(2,3) by (simp add: current_buffer_def)
  then have "yy_create_buffer (Some ?k) YY_BUF_SIZE ?e = Inr (?p, ?c)" using len
    by (simp add: yy_create_buffer_def yy_init_buffer_def yy_flush_buffer_def Let_def)
  moreover have "set_current_buffer (Some ?p) ?c = Inr ?d" using e(2) by (simp add: set_current_buffer_def)
  ultimately have db: "default_buffer ?f = Inr ?d" unfolding default_buffer_def Let_def e(1) using i(2) by simp
  have cb: "current_buffer ?d = Some ?p" "current_buffer ?g = Some ?p" using e(2) by (simp_all add: current_buffer_def)
  then have c: "current ?d = Inr ?b" "current ?g = Inr ?b" by (simp_all add: current_def)
  have cs: "length ?cs = YY_BUF_SIZE + 2" "take 2 ?cs = padded []" "?cs ! 0 = CHR 0x00"
    using len two_zeros [of "resized ?e (YY_BUF_SIZE + 2) []"] by (simp_all only: length_list_update YY_END_OF_BUFFER_CHAR_def le_add2)
  have "rd ?cs 0 = Inr (CHR 0x00)" using cs(1,3) by (simp add: rd_def tab_def len_length)
  then have "yylex_init f = Inr ?g" unfolding yylex_init_def i(3) using i(4) db c(1) by (simp add: yy_load_buffer_state_def)
  moreover have "at ?g [] 0" by (rule at_start [OF c(2)]) (use cs(2) assms(1) in \<open>simp_all add: scanner_idle_def numeral_2_eq_2 padded_nth(2) [of "[]", simplified]\<close>)
  moreover have u: "unread ?g = streams (env f) ?k" using c(2) by (simp add: unread_def)
  moreover have "refillable ?g []" using c(2) cs(1) assms(3) u by (simp add: refillable_def len_length YY_BUF_SIZE_def)
  ultimately show ?thesis using i(5) assms(2) by (simp add: ready_def reads_def text_ok_def)
qed

text \<open>
  C23 (equivalence). The generated scanner is a scanner for its rules: with a text to read, in its buffer or
  in a file that it reads piece by piece, a call of \<^verbatim>\<open>yylex\<close> performs the actions of the next rules of
  the text's tokens, up to the first that returns a token, and returns that token's number (0 at the end),
  ready for the tokens after it. The tokens are those of the longest match at each place, by the first rule
  among those with it; the texts together are the whole text.
\<close>

theorem scanner_follows_rules:
  assumes "ready f s p"
  shows "tokenized (drop p s) (scan (drop p s)) \<and>
    (case run_lexemes (scan (drop p s)) y of Inl e \<Rightarrow> yylex f y = Some (Inl e)
     | Inr (n, ls, y1) \<Rightarrow> \<exists>f1 q. yylex f y = Some (Inr (n, f1, y1)) \<and> ready f1 s q \<and> ls = scan (drop q s))"
  using scan_tokenized yylex_scan [OF assms] by blast

definition scanner_start :: yacc where
  "scanner_start = \<lparr>value_stack = [], yylval = None, parser = parser_globals (\<lambda>n. n + 1)\<rparr>"

definition example_line :: string where
  "example_line = ''selection<=-4.25?''"

text \<open>The line comes from a terminal at the standard input.\<close>

definition example_environment :: environment where
  "example_environment = \<lparr>streams = (\<lambda>_. [])(0 := example_line), is_tty = (\<lambda>_. True), fresh_char = (\<lambda>_. CHR 0x41)\<rparr>"

lemma globals_idle: "scanner_idle (flex_globals e)"
  by (simp add: flex_globals_def scanner_idle_def stack_ok_def current_buffer_def)

theorem scanner_follows_rules_witness:
  "scan example_line = [(39, ''selection''), (44, ''<=''), (40, ''-4.25''), (55, ''?'')] \<and>
   ready (flex_globals example_environment) example_line 0 \<and>
   (\<exists>p f. yy_scan_string example_line (flex_globals example_environment) = Inr (p, f) \<and> ready f example_line 0 \<and>
    (\<forall>g\<in>{f, flex_globals example_environment}. tokenized example_line (scan example_line) \<and>
     (case run_lexemes (scan example_line) scanner_start of Inl e \<Rightarrow> yylex g scanner_start = Some (Inl e)
      | Inr (n, ls, y1) \<Rightarrow> \<exists>f1 q. yylex g scanner_start = Some (Inr (n, f1, y1)) \<and> ready f1 example_line q \<and> ls = scan (drop q example_line))))"
proof -
  let ?g = "flex_globals example_environment"
  have t: "text_ok example_line" by (simp add: text_ok_def example_line_def)
  have l: "len example_line + 1 < 2 ^ 31" by (simp add: example_line_def len_length)
  from yy_scan_string_ready [OF _ _ _ _ _ _ t l, of ?g] globals_idle [of example_environment] obtain p f where
    f: "yy_scan_string example_line ?g = Inr (p, f)" "ready f example_line 0" by (auto simp: scanner_idle_def)
  have "input_file ?g = 0" "streams (env ?g) 0 = example_line" by (simp_all add: flex_globals_def example_environment_def input_file_def)
  with file_ready [OF globals_idle, of example_environment] t have g: "ready ?g example_line 0" by (simp add: example_line_def len_length)
  have "scan example_line = [(39, ''selection''), (44, ''<=''), (40, ''-4.25''), (55, ''?'')]" by code_simp
  then show ?thesis using scanner_follows_rules [OF f(2), of scanner_start] scanner_follows_rules [OF g, of scanner_start] f g by simp
qed

end
