(* ===== verification/Lalr_Tables.thy ===== *)
theory Lalr_Tables
  imports Table_Lookup
begin

text \<open>
  The tables bison generated for include/parser/minisql.y (src/MiniSQL/src/parser/minisql_yacc.c, lines 426
  to 720), the grammar they were made from, and what the parser does in a state: \<open>yyaction\<close> is the
  decision at \<^verbatim>\<open>yybackup\<close> and \<^verbatim>\<open>yydefault\<close>, \<open>yygoto\<close> the state after a reduction. Reading a table out of
  its bounds is undefined behaviour and a value of the result.
\<close>

section \<open>Tables\<close>

definition YYFINAL :: int where
  "YYFINAL = 53"

definition YYLAST :: int where
  "YYLAST = 106"

definition YYNTOKENS :: int where
  "YYNTOKENS = 54"

definition YYNRULES :: int where
  "YYNRULES = 77"

definition YYNSTATES :: int where
  "YYNSTATES = 134"

definition YYUNDEFTOK :: int where
  "YYUNDEFTOK = 2"

definition YYMAXUTOK :: int where
  "YYMAXUTOK = 301"

definition YYPACT_NINF :: int where
  "YYPACT_NINF = -85"

definition YYTABLE_NINF :: int where
  "YYTABLE_NINF = -1"

text \<open>\<^verbatim>\<open>yytranslate\<close>: the symbol number of each token number.\<close>

definition yytranslate :: "int list" where
  "yytranslate =
    [0, 2, 2, 2, 2, 2, 2, 2, 2, 2, 2, 2, 2, 2, 2, 2, 2, 2, 2, 2,
     2, 2, 2, 2, 2, 2, 2, 2, 2, 2, 2, 2, 2, 2, 2, 2, 2, 2, 2, 2,
     48, 49, 51, 2, 50, 2, 2, 2, 2, 2, 2, 2, 2, 2, 2, 2, 2, 2, 2, 47,
     52, 2, 53, 2, 2, 2, 2, 2, 2, 2, 2, 2, 2, 2, 2, 2, 2, 2, 2, 2,
     2, 2, 2, 2, 2, 2, 2, 2, 2, 2, 2, 2, 2, 2, 2, 2, 2, 2, 2, 2,
     2, 2, 2, 2, 2, 2, 2, 2, 2, 2, 2, 2, 2, 2, 2, 2, 2, 2, 2, 2,
     2, 2, 2, 2, 2, 2, 2, 2, 2, 2, 2, 2, 2, 2, 2, 2, 2, 2, 2, 2,
     2, 2, 2, 2, 2, 2, 2, 2, 2, 2, 2, 2, 2, 2, 2, 2, 2, 2, 2, 2,
     2, 2, 2, 2, 2, 2, 2, 2, 2, 2, 2, 2, 2, 2, 2, 2, 2, 2, 2, 2,
     2, 2, 2, 2, 2, 2, 2, 2, 2, 2, 2, 2, 2, 2, 2, 2, 2, 2, 2, 2,
     2, 2, 2, 2, 2, 2, 2, 2, 2, 2, 2, 2, 2, 2, 2, 2, 2, 2, 2, 2,
     2, 2, 2, 2, 2, 2, 2, 2, 2, 2, 2, 2, 2, 2, 2, 2, 2, 2, 2, 2,
     2, 2, 2, 2, 2, 2, 2, 2, 2, 2, 2, 2, 2, 2, 2, 2, 1, 2, 3, 4,
     5, 6, 7, 8, 9, 10, 11, 12, 13, 14, 15, 16, 17, 18, 19, 20, 21, 22, 23, 24,
     25, 26, 27, 28, 29, 30, 31, 32, 33, 34, 35, 36, 37, 38, 39, 40, 41, 42, 43, 44,
     45, 46]"

text \<open>The grammar as bison prints it: the right-hand sides, each ended by \<open>-1\<close>, and where each rule's begins.\<close>

definition yyprhs :: "int list" where
  "yyprhs =
    [0, 0, 3, 6, 8, 10, 12, 14, 16, 18, 20, 22, 24, 26, 28, 30, 32, 34, 36, 38,
     40, 42, 44, 48, 52, 55, 58, 61, 68, 72, 74, 78, 80, 86, 90, 93, 95, 97, 102, 106,
     115, 126, 130, 133, 138, 145, 147, 149, 153, 155, 157, 159, 163, 165, 167, 169, 171, 173, 175, 177,
     179, 181, 183, 185, 193, 197, 199, 203, 209, 214, 221, 225, 227, 231, 233, 235, 237, 239]"

definition yyrhs :: "int list" where
  "yyrhs =
    [55, 0, -1, 56, 47, -1, 57, -1, 58, -1, 59, -1, 60, -1, 61, -1, 62, -1, 67, -1,
     68, -1, 69, -1, 70, -1, 71, -1, 78, -1, 80, -1, 81, -1, 84, -1, 85, -1, 86, -1,
     87, -1, 88, -1, 3, 17, 40, -1, 4, 17, 40, -1, 14, 18, -1, 15, 40, -1, 14, 20,
     -1, 3, 19, 40, 48, 64, 49, -1, 40, 50, 63, -1, 40, -1, 65, 50, 64, -1, 65, -1,
     29, 30, 48, 63, 49, -1, 40, 66, 31, -1, 40, 66, -1, 33, -1, 34, -1, 32, 48, 42,
     49, -1, 4, 19, 40, -1, 3, 21, 40, 23, 40, 48, 63, 49, -1, 3, 21, 40, 23, 40,
     48, 63, 49, 16, 40, -1, 4, 21, 40, -1, 14, 22, -1, 5, 72, 24, 40, -1, 5, 72,
     24, 40, 25, 73, -1, 51, -1, 63, -1, 73, 74, 75, -1, 75, -1, 35, -1, 36, -1, 40,
     77, 76, -1, 41, -1, 42, -1, 39, -1, 43, -1, 44, -1, 45, -1, 46, -1, 52, -1, 53,
     -1, 38, -1, 37, -1, 6, 26, 40, 28, 48, 79, 49, -1, 76, 50, 79, -1, 76, -1, 7,
     24, 40, -1, 7, 24, 40, 25, 73, -1, 8, 40, 27, 82, -1, 8, 40, 27, 82, 25, 73,
     -1, 83, 50, 82, -1, 83, -1, 40, 43, 76, -1, 9, -1, 10, -1, 11, -1, 12, -1, 13,
     41, -1]"

text \<open>\<^verbatim>\<open>yyr1\<close>: the nonterminal each rule defines.\<close>

definition yyr1 :: "int list" where
  "yyr1 =
    [0, 54, 55, 56, 56, 56, 56, 56, 56, 56, 56, 56, 56, 56, 56, 56, 56, 56, 56, 56,
     56, 56, 57, 58, 59, 60, 61, 62, 63, 63, 64, 64, 64, 65, 65, 66, 66, 66, 67, 68,
     68, 69, 70, 71, 71, 72, 72, 73, 73, 74, 74, 75, 76, 76, 76, 77, 77, 77, 77, 77,
     77, 77, 77, 78, 79, 79, 80, 80, 81, 81, 82, 82, 83, 84, 85, 86, 87, 88]"

text \<open>The rule to reduce by default in each state; 0 is an error.\<close>

definition yydefact :: "int list" where
  "yydefact =
    [0, 0, 0, 0, 0, 0, 0, 73, 74, 75, 76, 0, 0, 0, 0, 0, 3, 4, 5, 6,
     7, 8, 9, 10, 11, 12, 13, 14, 15, 16, 17, 18, 19, 20, 21, 0, 0, 0, 0, 0,
     0, 29, 45, 46, 0, 0, 0, 0, 77, 24, 26, 42, 25, 1, 2, 22, 0, 0, 23, 38,
     41, 0, 0, 0, 66, 0, 0, 0, 28, 43, 0, 0, 0, 68, 71, 0, 0, 0, 31, 0,
     0, 0, 0, 67, 48, 0, 0, 0, 0, 0, 35, 36, 34, 27, 0, 0, 44, 54, 52, 53,
     65, 0, 62, 61, 55, 56, 57, 58, 59, 60, 0, 49, 50, 0, 72, 69, 70, 0, 0, 33,
     30, 0, 0, 63, 51, 47, 0, 0, 39, 64, 32, 37, 0, 40]"

text \<open>The default state after a reduction, per nonterminal.\<close>

definition yydefgoto :: "int list" where
  "yydefgoto =
    [-1, 14, 15, 16, 17, 18, 19, 20, 21, 43, 77, 78, 92, 22, 23, 24, 25, 26, 44, 83,
     113, 84, 100, 110, 27, 101, 28, 29, 73, 74, 30, 31, 32, 33, 34]"

text \<open>Where a state's row begins in \<^verbatim>\<open>yytable\<close>, and a nonterminal's column.\<close>

definition yypact :: "int list" where
  "yypact =
    [32, 2, 3, -36, -19, 8, -7, -85, -85, -85, -85, 10, 7, 12, 53, 11, -85, -85, -85, -85,
     -85, -85, -85, -85, -85, -85, -85, -85, -85, -85, -85, -85, -85, -85, -85, 14, 15, 17, 19, 20,
     21, 13, -85, -85, 38, 24, 25, 39, -85, -85, -85, -85, -85, -85, -85, -85, 22, 44, -85, -85,
     -85, 28, 29, 43, 47, 33, -24, 34, -85, 50, 30, 36, 37, 52, 31, 49, 16, 35, 40, 41,
     36, -11, -35, -22, -85, -11, 36, 33, 45, 46, -85, -85, 51, -85, -24, 28, -22, -85, -85, -85,
     42, 48, -85, -85, -85, -85, -85, -85, -85, -85, -11, -85, -85, 36, -85, -22, -85, 28, 54, -85,
     -85, 55, -11, -85, -85, -85, 56, 57, 67, -85, -85, -85, 58, -85]"

definition yypgoto :: "int list" where
  "yypgoto =
    [-85, -85, -85, -85, -85, -85, -85, -85, -85, -61, -9, -85, -85, -85, -85, -85, -85, -85, -85, -74,
     -85, -27, -84, -85, -85, -34, -85, -85, 0, -85, -85, -85, -85, -85, -85]"

text \<open>The compressed action and goto tables, and the token or state each entry belongs to.\<close>

definition yytable :: "int list" where
  "yytable =
    [68, 114, 102, 103, 41, 75, 96, 45, 104, 105, 106, 107, 115, 111, 112, 42, 76, 108, 109, 35,
     38, 36, 39, 37, 40, 49, 124, 50, 97, 51, 98, 99, 46, 47, 121, 1, 2, 3, 4, 5,
     6, 7, 8, 9, 10, 11, 12, 13, 89, 90, 91, 48, 52, 53, 55, 56, 126, 57, 54, 58,
     59, 60, 62, 61, 63, 64, 65, 67, 41, 69, 66, 70, 71, 72, 79, 80, 82, 86, 81, 88,
     85, 87, 119, 132, 93, 120, 125, 116, 129, 95, 94, 0, 122, 117, 118, 0, 127, 123, 133, 0,
     0, 0, 0, 0, 128, 130, 131]"

definition yycheck :: "int list" where
  "yycheck =
    [61, 85, 37, 38, 40, 29, 80, 26, 43, 44, 45, 46, 86, 35, 36, 51, 40, 52, 53, 17,
     17, 19, 19, 21, 21, 18, 110, 20, 39, 22, 41, 42, 24, 40, 95, 3, 4, 5, 6, 7,
     8, 9, 10, 11, 12, 13, 14, 15, 32, 33, 34, 41, 40, 0, 40, 40, 117, 40, 47, 40,
     40, 40, 24, 50, 40, 40, 27, 23, 40, 40, 48, 28, 25, 40, 40, 25, 40, 25, 48, 30,
     43, 50, 31, 16, 49, 94, 113, 87, 122, 48, 50, -1, 50, 48, 48, -1, 42, 49, 40, -1,
     -1, -1, -1, -1, 49, 49, 49]"

text \<open>\<^verbatim>\<open>yystos\<close>: the symbol every transition into a state is made on.\<close>

definition yystos :: "int list" where
  "yystos =
    [0, 3, 4, 5, 6, 7, 8, 9, 10, 11, 12, 13, 14, 15, 55, 56, 57, 58, 59, 60,
     61, 62, 67, 68, 69, 70, 71, 78, 80, 81, 84, 85, 86, 87, 88, 17, 19, 21, 17, 19,
     21, 40, 51, 63, 72, 26, 24, 40, 41, 18, 20, 22, 40, 0, 47, 40, 40, 40, 40, 40,
     40, 50, 24, 40, 40, 27, 48, 23, 63, 40, 28, 25, 40, 82, 83, 29, 40, 64, 65, 40,
     25, 48, 40, 73, 75, 43, 25, 50, 30, 32, 33, 34, 66, 49, 50, 48, 73, 39, 41, 42,
     76, 79, 37, 38, 43, 44, 45, 46, 52, 53, 77, 35, 36, 74, 76, 73, 82, 48, 48, 31,
     64, 63, 50, 49, 76, 75, 63, 42, 49, 79, 49, 49, 16, 40]"

section \<open>What the parser does in a state\<close>

text \<open>\<^verbatim>\<open>YYTRANSLATE\<close>; a token number is never negative where it is used.\<close>

definition YYTRANSLATE :: "int \<Rightarrow> int res" where
  "YYTRANSLATE x = (if 0 \<le> x \<and> x \<le> YYMAXUTOK then rd yytranslate x else Inr YYUNDEFTOK)"

datatype act = DoShift int | DoReduce int | DoAccept | DoError

definition yydefault :: "int \<Rightarrow> act res" where
  "yydefault yystate = res_bind (rd yydefact yystate) (\<lambda>yyn. Inr (if yyn = 0 then DoError else DoReduce yyn))"

definition yyaction :: "int \<Rightarrow> int \<Rightarrow> act res" where
  "yyaction yystate yytoken = res_bind (rd yypact yystate) (\<lambda>p.
     let yyn = p + yytoken in
     if p = YYPACT_NINF \<or> yyn < 0 \<or> YYLAST < yyn then yydefault yystate
     else res_bind (rd yycheck yyn) (\<lambda>c. if c \<noteq> yytoken then yydefault yystate
     else res_bind (rd yytable yyn) (\<lambda>yyn.
       Inr (if yyn \<le> 0 then (if yyn = 0 \<or> yyn = YYTABLE_NINF then DoError else DoReduce (- yyn))
            else if yyn = YYFINAL then DoAccept else DoShift yyn))))"

text \<open>The state after a reduction to the nonterminal \<open>yyn\<close>, with \<open>s\<close> on top of the stack.\<close>

definition yygoto :: "int \<Rightarrow> int \<Rightarrow> int res" where
  "yygoto s yyn = res_bind (rd yypgoto (yyn - YYNTOKENS)) (\<lambda>p.
     let yystate = p + s in
     if 0 \<le> yystate \<and> yystate \<le> YYLAST then
       res_bind (rd yycheck yystate) (\<lambda>c. if c = s then rd yytable yystate else rd yydefgoto (yyn - YYNTOKENS))
     else rd yydefgoto (yyn - YYNTOKENS))"

section \<open>The grammar\<close>

text \<open>Symbols below \<^verbatim>\<open>YYNTOKENS\<close> are tokens. Rules are numbered from 1; rule 1 is \<^verbatim>\<open>$accept: start $end\<close>.\<close>

fun skip :: "int \<Rightarrow> int list \<Rightarrow> int list" where
  "skip i [] = []"
| "skip i (x # xs) = (if i \<le> 0 then x # xs else skip (i - 1) xs)"

definition rule_rhs :: "int \<Rightarrow> int list" where
  "rule_rhs n = takeWhile (\<lambda>x. x \<noteq> -1) (skip (tab yyprhs n) yyrhs)"

definition rule_lhs :: "int \<Rightarrow> int" where
  "rule_lhs n = tab yyr1 n"

definition start_symbol :: int where
  "start_symbol = 55"

text \<open>Parse trees: a leaf is a token with its symbol, a node is made by a rule.\<close>

datatype 'a dtree = Leaf int 'a | Rule int "'a dtree list"

fun root :: "'a dtree \<Rightarrow> int" where
  "root (Leaf x a) = x"
| "root (Rule n ds) = rule_lhs n"

fun fringe :: "'a dtree \<Rightarrow> (int \<times> 'a) list" where
  "fringe (Leaf x a) = [(x, a)]"
| "fringe (Rule n ds) = concat (map fringe ds)"

fun parse_tree :: "'a dtree \<Rightarrow> bool" where
  "parse_tree (Leaf x a) = (0 < x \<and> x < YYNTOKENS)"
| "parse_tree (Rule n ds) = (1 < n \<and> n \<le> YYNRULES \<and> map root ds = rule_rhs n \<and> (\<forall>d \<in> set ds. parse_tree d))"

text \<open>A tree of the grammar for a list of tokens.\<close>

definition parses :: "(int \<times> 'a) list \<Rightarrow> 'a dtree \<Rightarrow> bool" where
  "parses ts d \<longleftrightarrow> parse_tree d \<and> root d = start_symbol \<and> fringe d = ts"

end
