(* ===== verification/Lalr_Annotations.thy ===== *)
theory Lalr_Annotations
  imports Lalr_Tables
begin

text \<open>
  The tables of \<^verbatim>\<open>yyparse\<close> checked by evaluation. Each table is given a second time as a decision tree,
  in which single entries are evaluated quickly, and proved equal to the array. Three annotations then
  describe the automaton: which states can lie below a state, with which tokens a nonterminal can begin,
  and the LALR(1) items of a state. The checks say that the compressed tables agree with them.
\<close>

section \<open>The tables as decision trees\<close>

definition pact_at :: "int \<Rightarrow> int" where
  "pact_at i =
     (if i < 67 then (if i < 33 then (if i < 16 then (if i < 8 then (if i < 4 then (if i < 2 then (if i < 1 then 32
     else 2) else if i < 3 then 3 else -36) else if i < 6 then (if i < 5 then -19 else 8) else if i < 7 then -7 else
     -85) else if i < 12 then (if i < 10 then -85 else if i < 11 then -85 else 10) else if i < 14 then (if i < 13
     then 7 else 12) else if i < 15 then 53 else 11) else -85) else if i < 50 then (if i < 41 then (if i < 37 then
     (if i < 35 then -85 else if i < 36 then 14 else 15) else if i < 39 then (if i < 38 then 17 else 19) else if i <
     40 then 20 else 21) else if i < 45 then (if i < 43 then (if i < 42 then 13 else -85) else if i < 44 then -85
     else 38) else if i < 47 then (if i < 46 then 24 else 25) else if i < 48 then 39 else -85) else if i < 58 then
     (if i < 54 then -85 else if i < 56 then -85 else if i < 57 then 22 else 44) else if i < 62 then (if i < 60 then
     -85 else if i < 61 then -85 else 28) else if i < 64 then (if i < 63 then 29 else 43) else if i < 65 then 47
     else if i < 66 then 33 else -24) else if i < 100 then (if i < 83 then (if i < 75 then (if i < 71 then (if i <
     69 then (if i < 68 then 34 else -85) else if i < 70 then 50 else 30) else if i < 73 then (if i < 72 then 36
     else 37) else if i < 74 then 52 else 31) else if i < 79 then (if i < 77 then (if i < 76 then 49 else 16) else
     if i < 78 then 35 else 40) else if i < 81 then (if i < 80 then 41 else 36) else if i < 82 then -11 else -35)
     else if i < 91 then (if i < 87 then (if i < 85 then (if i < 84 then -22 else -85) else if i < 86 then -11 else
     36) else if i < 89 then (if i < 88 then 33 else 45) else if i < 90 then 46 else -85) else if i < 95 then (if i
     < 93 then (if i < 92 then -85 else 51) else if i < 94 then -85 else -24) else if i < 97 then (if i < 96 then 28
     else -22) else -85) else if i < 117 then (if i < 108 then (if i < 104 then (if i < 102 then (if i < 101 then 42
     else 48) else -85) else -85) else if i < 112 then (if i < 110 then -85 else if i < 111 then -11 else -85) else
     if i < 114 then (if i < 113 then -85 else 36) else if i < 115 then -85 else if i < 116 then -22 else -85) else
     if i < 125 then (if i < 121 then (if i < 119 then (if i < 118 then 28 else 54) else -85) else if i < 123 then
     (if i < 122 then 55 else -11) else -85) else if i < 129 then (if i < 127 then (if i < 126 then -85 else 56)
     else if i < 128 then 57 else 67) else if i < 131 then -85 else if i < 132 then -85 else if i < 133 then 58 else
     -85)"

definition defact_at :: "int \<Rightarrow> int" where
  "defact_at i =
     (if i < 67 then (if i < 33 then (if i < 16 then (if i < 8 then (if i < 4 then 0 else if i < 6 then 0 else if i
     < 7 then 0 else 73) else if i < 12 then (if i < 10 then (if i < 9 then 74 else 75) else if i < 11 then 76 else
     0) else 0) else if i < 24 then (if i < 20 then (if i < 18 then (if i < 17 then 3 else 4) else if i < 19 then 5
     else 6) else if i < 22 then (if i < 21 then 7 else 8) else if i < 23 then 9 else 10) else if i < 28 then (if i
     < 26 then (if i < 25 then 11 else 12) else if i < 27 then 13 else 14) else if i < 30 then (if i < 29 then 15
     else 16) else if i < 31 then 17 else if i < 32 then 18 else 19) else if i < 50 then (if i < 41 then (if i < 37
     then (if i < 35 then (if i < 34 then 20 else 21) else 0) else 0) else if i < 45 then (if i < 43 then (if i < 42
     then 29 else 45) else if i < 44 then 46 else 0) else if i < 47 then 0 else if i < 48 then 0 else if i < 49 then
     77 else 24) else if i < 58 then (if i < 54 then (if i < 52 then (if i < 51 then 26 else 42) else if i < 53 then
     25 else 1) else if i < 56 then (if i < 55 then 2 else 22) else 0) else if i < 62 then (if i < 60 then (if i <
     59 then 23 else 38) else if i < 61 then 41 else 0) else if i < 64 then 0 else if i < 65 then 66 else 0) else if
     i < 100 then (if i < 83 then (if i < 75 then (if i < 71 then (if i < 69 then (if i < 68 then 0 else 28) else if
     i < 70 then 43 else 0) else if i < 73 then 0 else if i < 74 then 68 else 71) else if i < 79 then (if i < 77
     then 0 else if i < 78 then 0 else 31) else 0) else if i < 91 then (if i < 87 then (if i < 85 then (if i < 84
     then 67 else 48) else 0) else if i < 89 then 0 else if i < 90 then 0 else 35) else if i < 95 then (if i < 93
     then (if i < 92 then 36 else 34) else if i < 94 then 27 else 0) else if i < 97 then (if i < 96 then 0 else 44)
     else if i < 98 then 54 else if i < 99 then 52 else 53) else if i < 117 then (if i < 108 then (if i < 104 then
     (if i < 102 then (if i < 101 then 65 else 0) else if i < 103 then 62 else 61) else if i < 106 then (if i < 105
     then 55 else 56) else if i < 107 then 57 else 58) else if i < 112 then (if i < 110 then (if i < 109 then 59
     else 60) else if i < 111 then 0 else 49) else if i < 114 then (if i < 113 then 50 else 0) else if i < 115 then
     72 else if i < 116 then 69 else 70) else if i < 125 then (if i < 121 then (if i < 119 then 0 else if i < 120
     then 33 else 30) else if i < 123 then 0 else if i < 124 then 63 else 51) else if i < 129 then (if i < 127 then
     (if i < 126 then 47 else 0) else if i < 128 then 0 else 39) else if i < 131 then (if i < 130 then 64 else 32)
     else if i < 132 then 37 else if i < 133 then 0 else 40)"

definition stos_at :: "int \<Rightarrow> int" where
  "stos_at i =
     (if i < 67 then (if i < 33 then (if i < 16 then (if i < 8 then (if i < 4 then (if i < 2 then (if i < 1 then 0
     else 3) else if i < 3 then 4 else 5) else if i < 6 then (if i < 5 then 6 else 7) else if i < 7 then 8 else 9)
     else if i < 12 then (if i < 10 then (if i < 9 then 10 else 11) else if i < 11 then 12 else 13) else if i < 14
     then (if i < 13 then 14 else 15) else if i < 15 then 55 else 56) else if i < 24 then (if i < 20 then (if i < 18
     then (if i < 17 then 57 else 58) else if i < 19 then 59 else 60) else if i < 22 then (if i < 21 then 61 else
     62) else if i < 23 then 67 else 68) else if i < 28 then (if i < 26 then (if i < 25 then 69 else 70) else if i <
     27 then 71 else 78) else if i < 30 then (if i < 29 then 80 else 81) else if i < 31 then 84 else if i < 32 then
     85 else 86) else if i < 50 then (if i < 41 then (if i < 37 then (if i < 35 then (if i < 34 then 87 else 88)
     else if i < 36 then 17 else 19) else if i < 39 then (if i < 38 then 21 else 17) else if i < 40 then 19 else 21)
     else if i < 45 then (if i < 43 then (if i < 42 then 40 else 51) else if i < 44 then 63 else 72) else if i < 47
     then (if i < 46 then 26 else 24) else if i < 48 then 40 else if i < 49 then 41 else 18) else if i < 58 then (if
     i < 54 then (if i < 52 then (if i < 51 then 20 else 22) else if i < 53 then 40 else 0) else if i < 56 then (if
     i < 55 then 47 else 40) else 40) else if i < 62 then (if i < 60 then 40 else if i < 61 then 40 else 50) else if
     i < 64 then (if i < 63 then 24 else 40) else if i < 65 then 40 else if i < 66 then 27 else 48) else if i < 100
     then (if i < 83 then (if i < 75 then (if i < 71 then (if i < 69 then (if i < 68 then 23 else 63) else if i < 70
     then 40 else 28) else if i < 73 then (if i < 72 then 25 else 40) else if i < 74 then 82 else 83) else if i < 79
     then (if i < 77 then (if i < 76 then 29 else 40) else if i < 78 then 64 else 65) else if i < 81 then (if i < 80
     then 40 else 25) else if i < 82 then 48 else 40) else if i < 91 then (if i < 87 then (if i < 85 then (if i < 84
     then 73 else 75) else if i < 86 then 43 else 25) else if i < 89 then (if i < 88 then 50 else 30) else if i < 90
     then 32 else 33) else if i < 95 then (if i < 93 then (if i < 92 then 34 else 66) else if i < 94 then 49 else
     50) else if i < 97 then (if i < 96 then 48 else 73) else if i < 98 then 39 else if i < 99 then 41 else 42) else
     if i < 117 then (if i < 108 then (if i < 104 then (if i < 102 then (if i < 101 then 76 else 79) else if i < 103
     then 37 else 38) else if i < 106 then (if i < 105 then 43 else 44) else if i < 107 then 45 else 46) else if i <
     112 then (if i < 110 then (if i < 109 then 52 else 53) else if i < 111 then 77 else 35) else if i < 114 then
     (if i < 113 then 36 else 74) else if i < 115 then 76 else if i < 116 then 73 else 82) else if i < 125 then (if
     i < 121 then (if i < 119 then 48 else if i < 120 then 31 else 64) else if i < 123 then (if i < 122 then 63 else
     50) else if i < 124 then 49 else 76) else if i < 129 then (if i < 127 then (if i < 126 then 75 else 63) else if
     i < 128 then 42 else 49) else if i < 131 then (if i < 130 then 79 else 49) else if i < 132 then 49 else if i <
     133 then 16 else 40)"

definition table_at :: "int \<Rightarrow> int" where
  "table_at i =
     (if i < 53 then (if i < 26 then (if i < 13 then (if i < 6 then (if i < 3 then (if i < 1 then 68 else if i < 2
     then 114 else 102) else if i < 4 then 103 else if i < 5 then 41 else 75) else if i < 9 then (if i < 7 then 96
     else if i < 8 then 45 else 104) else if i < 11 then (if i < 10 then 105 else 106) else if i < 12 then 107 else
     115) else if i < 19 then (if i < 16 then (if i < 14 then 111 else if i < 15 then 112 else 42) else if i < 17
     then 76 else if i < 18 then 108 else 109) else if i < 22 then (if i < 20 then 35 else if i < 21 then 38 else
     36) else if i < 24 then (if i < 23 then 39 else 37) else if i < 25 then 40 else 49) else if i < 39 then (if i <
     32 then (if i < 29 then (if i < 27 then 124 else if i < 28 then 50 else 97) else if i < 30 then 51 else if i <
     31 then 98 else 99) else if i < 35 then (if i < 33 then 46 else if i < 34 then 47 else 121) else if i < 37 then
     (if i < 36 then 1 else 2) else if i < 38 then 3 else 4) else if i < 46 then (if i < 42 then (if i < 40 then 5
     else if i < 41 then 6 else 7) else if i < 44 then (if i < 43 then 8 else 9) else if i < 45 then 10 else 11)
     else if i < 49 then (if i < 47 then 12 else if i < 48 then 13 else 89) else if i < 51 then (if i < 50 then 90
     else 91) else if i < 52 then 48 else 52) else if i < 80 then (if i < 66 then (if i < 59 then (if i < 56 then
     (if i < 54 then 53 else if i < 55 then 55 else 56) else if i < 57 then 126 else if i < 58 then 57 else 54) else
     if i < 62 then (if i < 60 then 58 else if i < 61 then 59 else 60) else if i < 64 then (if i < 63 then 62 else
     61) else if i < 65 then 63 else 64) else if i < 73 then (if i < 69 then (if i < 67 then 65 else if i < 68 then
     67 else 41) else if i < 71 then (if i < 70 then 69 else 66) else if i < 72 then 70 else 71) else if i < 76 then
     (if i < 74 then 72 else if i < 75 then 79 else 80) else if i < 78 then (if i < 77 then 82 else 86) else if i <
     79 then 81 else 88) else if i < 93 then (if i < 86 then (if i < 83 then (if i < 81 then 85 else if i < 82 then
     87 else 119) else if i < 84 then 132 else if i < 85 then 93 else 120) else if i < 89 then (if i < 87 then 125
     else if i < 88 then 116 else 129) else if i < 91 then (if i < 90 then 95 else 94) else if i < 92 then 0 else
     122) else if i < 100 then (if i < 96 then (if i < 94 then 117 else if i < 95 then 118 else 0) else if i < 98
     then (if i < 97 then 127 else 123) else if i < 99 then 133 else 0) else if i < 103 then 0 else if i < 105 then
     (if i < 104 then 0 else 128) else if i < 106 then 130 else 131)"

definition check_at :: "int \<Rightarrow> int" where
  "check_at i =
     (if i < 53 then (if i < 26 then (if i < 13 then (if i < 6 then (if i < 3 then (if i < 1 then 61 else if i < 2
     then 85 else 37) else if i < 4 then 38 else if i < 5 then 40 else 29) else if i < 9 then (if i < 7 then 80 else
     if i < 8 then 26 else 43) else if i < 11 then (if i < 10 then 44 else 45) else if i < 12 then 46 else 86) else
     if i < 19 then (if i < 16 then (if i < 14 then 35 else if i < 15 then 36 else 51) else if i < 17 then 40 else
     if i < 18 then 52 else 53) else if i < 22 then (if i < 20 then 17 else if i < 21 then 17 else 19) else if i <
     24 then (if i < 23 then 19 else 21) else if i < 25 then 21 else 18) else if i < 39 then (if i < 32 then (if i <
     29 then (if i < 27 then 110 else if i < 28 then 20 else 39) else if i < 30 then 22 else if i < 31 then 41 else
     42) else if i < 35 then (if i < 33 then 24 else if i < 34 then 40 else 95) else if i < 37 then (if i < 36 then
     3 else 4) else if i < 38 then 5 else 6) else if i < 46 then (if i < 42 then (if i < 40 then 7 else if i < 41
     then 8 else 9) else if i < 44 then (if i < 43 then 10 else 11) else if i < 45 then 12 else 13) else if i < 49
     then (if i < 47 then 14 else if i < 48 then 15 else 32) else if i < 51 then (if i < 50 then 33 else 34) else if
     i < 52 then 41 else 40) else if i < 80 then (if i < 66 then (if i < 59 then (if i < 56 then (if i < 54 then 0
     else 40) else if i < 57 then 117 else if i < 58 then 40 else 47) else if i < 62 then 40 else if i < 64 then (if
     i < 63 then 24 else 50) else 40) else if i < 73 then (if i < 69 then (if i < 67 then 27 else if i < 68 then 23
     else 40) else if i < 71 then (if i < 70 then 40 else 48) else if i < 72 then 28 else 25) else if i < 76 then
     (if i < 74 then 40 else if i < 75 then 40 else 25) else if i < 78 then (if i < 77 then 40 else 25) else if i <
     79 then 48 else 30) else if i < 93 then (if i < 86 then (if i < 83 then (if i < 81 then 43 else if i < 82 then
     50 else 31) else if i < 84 then 16 else if i < 85 then 49 else 94) else if i < 89 then (if i < 87 then 113 else
     if i < 88 then 87 else 122) else if i < 91 then (if i < 90 then 48 else 50) else if i < 92 then -1 else 50)
     else if i < 100 then (if i < 96 then (if i < 94 then 48 else if i < 95 then 48 else -1) else if i < 98 then (if
     i < 97 then 42 else 49) else if i < 99 then 40 else -1) else if i < 103 then -1 else if i < 105 then (if i <
     104 then -1 else 49) else 49)"

definition pgoto_at :: "int \<Rightarrow> int" where
  "pgoto_at i =
     (if i < 17 then (if i < 8 then -85 else if i < 12 then (if i < 10 then (if i < 9 then -85 else -61) else if i <
     11 then -9 else -85) else -85) else if i < 26 then (if i < 21 then (if i < 19 then -85 else if i < 20 then -74
     else -85) else if i < 23 then (if i < 22 then -27 else -84) else if i < 24 then -85 else if i < 25 then -85
     else -34) else if i < 30 then (if i < 28 then -85 else if i < 29 then 0 else -85) else -85)"

definition defgoto_at :: "int \<Rightarrow> int" where
  "defgoto_at i =
     (if i < 17 then (if i < 8 then (if i < 4 then (if i < 2 then (if i < 1 then -1 else 14) else if i < 3 then 15
     else 16) else if i < 6 then (if i < 5 then 17 else 18) else if i < 7 then 19 else 20) else if i < 12 then (if i
     < 10 then (if i < 9 then 21 else 43) else if i < 11 then 77 else 78) else if i < 14 then (if i < 13 then 92
     else 22) else if i < 15 then 23 else if i < 16 then 24 else 25) else if i < 26 then (if i < 21 then (if i < 19
     then (if i < 18 then 26 else 44) else if i < 20 then 83 else 113) else if i < 23 then (if i < 22 then 84 else
     100) else if i < 24 then 110 else if i < 25 then 27 else 101) else if i < 30 then (if i < 28 then (if i < 27
     then 28 else 29) else if i < 29 then 73 else 74) else if i < 32 then (if i < 31 then 30 else 31) else if i < 33
     then 32 else if i < 34 then 33 else 34)"

definition r1_at :: "int \<Rightarrow> int" where
  "r1_at i =
     (if i < 39 then (if i < 19 then (if i < 9 then (if i < 4 then (if i < 2 then (if i < 1 then 0 else 54) else if
     i < 3 then 55 else 56) else 56) else 56) else if i < 29 then (if i < 24 then (if i < 21 then 56 else if i < 22
     then 56 else if i < 23 then 57 else 58) else if i < 26 then (if i < 25 then 59 else 60) else if i < 27 then 61
     else if i < 28 then 62 else 63) else if i < 34 then (if i < 31 then (if i < 30 then 63 else 64) else if i < 32
     then 64 else if i < 33 then 64 else 65) else if i < 36 then (if i < 35 then 65 else 66) else if i < 37 then 66
     else if i < 38 then 66 else 67) else if i < 58 then (if i < 48 then (if i < 43 then (if i < 41 then 68 else if
     i < 42 then 69 else 70) else if i < 45 then 71 else if i < 46 then 72 else if i < 47 then 72 else 73) else if i
     < 53 then (if i < 50 then (if i < 49 then 73 else 74) else if i < 51 then 74 else if i < 52 then 75 else 76)
     else if i < 55 then 76 else 77) else if i < 68 then (if i < 63 then 77 else if i < 65 then (if i < 64 then 78
     else 79) else if i < 66 then 79 else 80) else if i < 73 then (if i < 70 then 81 else if i < 71 then 82 else if
     i < 72 then 82 else 83) else if i < 75 then (if i < 74 then 84 else 85) else if i < 76 then 86 else if i < 77
     then 87 else 88)"

definition rhs_at :: "int \<Rightarrow> int list" where
  "rhs_at i =
     (if i < 39 then (if i < 20 then (if i < 10 then (if i < 5 then (if i < 3 then (if i < 2 then [55, 0] else [56,
     47]) else if i < 4 then [57] else [58]) else if i < 7 then (if i < 6 then [59] else [60]) else if i < 8 then
     [61] else if i < 9 then [62] else [67]) else if i < 15 then (if i < 12 then (if i < 11 then [68] else [69])
     else if i < 13 then [70] else if i < 14 then [71] else [78]) else if i < 17 then (if i < 16 then [80] else
     [81]) else if i < 18 then [84] else if i < 19 then [85] else [86]) else if i < 29 then (if i < 24 then (if i <
     22 then (if i < 21 then [87] else [88]) else if i < 23 then [3, 17, 40] else [4, 17, 40]) else if i < 26 then
     (if i < 25 then [14, 18] else [15, 40]) else if i < 27 then [14, 20] else if i < 28 then [3, 19, 40, 48, 64,
     49] else [40, 50, 63]) else if i < 34 then (if i < 31 then (if i < 30 then [40] else [65, 50, 64]) else if i <
     32 then [65] else if i < 33 then [29, 30, 48, 63, 49] else [40, 66, 31]) else if i < 36 then (if i < 35 then
     [40, 66] else [33]) else if i < 37 then [34] else if i < 38 then [32, 48, 42, 49] else [4, 19, 40]) else if i <
     58 then (if i < 48 then (if i < 43 then (if i < 41 then (if i < 40 then [3, 21, 40, 23, 40, 48, 63, 49] else
     [3, 21, 40, 23, 40, 48, 63, 49, 16, 40]) else if i < 42 then [4, 21, 40] else [14, 22]) else if i < 45 then (if
     i < 44 then [5, 72, 24, 40] else [5, 72, 24, 40, 25, 73]) else if i < 46 then [51] else if i < 47 then [63]
     else [73, 74, 75]) else if i < 53 then (if i < 50 then (if i < 49 then [75] else [35]) else if i < 51 then [36]
     else if i < 52 then [40, 77, 76] else [41]) else if i < 55 then (if i < 54 then [42] else [39]) else if i < 56
     then [43] else if i < 57 then [44] else [45]) else if i < 68 then (if i < 63 then (if i < 60 then (if i < 59
     then [46] else [52]) else if i < 61 then [53] else if i < 62 then [38] else [37]) else if i < 65 then (if i <
     64 then [6, 26, 40, 28, 48, 79, 49] else [76, 50, 79]) else if i < 66 then [76] else if i < 67 then [7, 24, 40]
     else [7, 24, 40, 25, 73]) else if i < 73 then (if i < 70 then (if i < 69 then [8, 40, 27, 82] else [8, 40, 27,
     82, 25, 73]) else if i < 71 then [83, 50, 82] else if i < 72 then [83] else [40, 43, 76]) else if i < 75 then
     (if i < 74 then [9] else [10]) else if i < 76 then [11] else if i < 77 then [12] else [13, 41])"

lemma tables_as_trees:
  "yypact = map pact_at [0..133]" "yydefact = map defact_at [0..133]" "yystos = map stos_at [0..133]"
  "yytable = map table_at [0..106]" "yycheck = map check_at [0..106]"
  "yypgoto = map pgoto_at [0..34]" "yydefgoto = map defgoto_at [0..34]" "yyr1 = map r1_at [0..77]"
  by code_simp+

lemma rules_as_tree: "\<forall>n \<in> set [1..77]. rule_rhs n = rhs_at n"
  by code_simp

lemma rule_lhs_at: "0 \<le> n \<Longrightarrow> n \<le> 77 \<Longrightarrow> rule_lhs n = r1_at n"
  by (simp add: rule_lhs_def tables_as_trees tab_upto)

lemma rule_rhs_at: "1 \<le> n \<Longrightarrow> n \<le> 77 \<Longrightarrow> rule_rhs n = rhs_at n"
  by (rule uptoD [OF rules_as_tree])

definition action_at :: "int \<Rightarrow> int \<Rightarrow> act" where
  "action_at s t = (let p = pact_at s; k = p + t in
     if p = -85 \<or> k < 0 \<or> 106 < k \<or> check_at k \<noteq> t then (let n = defact_at s in if n = 0 then DoError else DoReduce n)
     else let n = table_at k in if n \<le> 0 then (if n = 0 \<or> n = -1 then DoError else DoReduce (- n))
       else if n = 53 then DoAccept else DoShift n)"

definition goto_at :: "int \<Rightarrow> int \<Rightarrow> int" where
  "goto_at s a = (let k = pgoto_at (a - 54) + s in
     if 0 \<le> k \<and> k \<le> 106 \<and> check_at k = s then table_at k else defgoto_at (a - 54))"

definition state :: "int \<Rightarrow> bool" where
  "state s \<longleftrightarrow> 0 \<le> s \<and> s \<le> 133"

lemma yyaction_at: "state s \<Longrightarrow> yyaction s t = Inr (action_at s t)"
  by (auto simp: state_def yyaction_def yydefault_def action_at_def tables_as_trees rd_upto Let_def YYPACT_NINF_def
      YYLAST_def YYTABLE_NINF_def YYFINAL_def)

lemma yygoto_at: "54 \<le> a \<Longrightarrow> a \<le> 88 \<Longrightarrow> yygoto s a = Inr (goto_at s a)"
  by (auto simp: yygoto_def goto_at_def tables_as_trees rd_upto Let_def YYNTOKENS_def YYLAST_def)

section \<open>Annotations\<close>

text \<open>The states that can be directly below a state.\<close>

definition preds :: "int \<Rightarrow> int list" where
  "preds i =
     (if i < 67 then (if i < 33 then (if i < 16 then (if i < 8 then (if i < 4 then (if i < 2 then (if i < 1 then []
     else [0]) else [0]) else [0]) else [0]) else [0]) else if i < 50 then (if i < 41 then (if i < 37 then (if i <
     35 then [0] else [1]) else if i < 39 then (if i < 38 then [1] else [2]) else [2]) else if i < 45 then (if i <
     43 then (if i < 42 then [3, 61, 95, 117] else [3]) else [3]) else if i < 47 then (if i < 46 then [4] else [5])
     else if i < 48 then [6] else if i < 49 then [11] else [12]) else if i < 58 then (if i < 54 then (if i < 52 then
     [12] else if i < 53 then [13] else []) else if i < 56 then (if i < 55 then [15] else [35]) else if i < 57 then
     [36] else [37]) else if i < 62 then (if i < 60 then (if i < 59 then [38] else [39]) else if i < 61 then [40]
     else [41]) else if i < 64 then (if i < 63 then [44] else [45]) else if i < 65 then [46] else if i < 66 then
     [47] else [56]) else if i < 100 then (if i < 83 then (if i < 75 then (if i < 71 then (if i < 69 then (if i < 68
     then [57] else [61]) else if i < 70 then [62] else [63]) else if i < 73 then (if i < 72 then [64] else [65,
     87]) else if i < 74 then [65] else [65, 87]) else if i < 79 then (if i < 77 then [66, 94] else if i < 78 then
     [66] else [66, 94]) else if i < 81 then (if i < 80 then [67] else [69]) else if i < 82 then [70] else [71, 80,
     86, 113]) else if i < 91 then (if i < 87 then (if i < 85 then (if i < 84 then [71] else [71, 80, 86]) else if i
     < 86 then [72] else [73]) else if i < 89 then (if i < 88 then [74] else [75]) else [76]) else if i < 95 then
     (if i < 93 then [76] else if i < 94 then [77] else [78]) else if i < 97 then (if i < 96 then [79] else [80])
     else [81, 85, 110, 122]) else if i < 117 then (if i < 108 then (if i < 104 then (if i < 102 then (if i < 101
     then [81, 122] else [81]) else [82]) else [82]) else if i < 112 then (if i < 110 then [82] else if i < 111 then
     [82] else [83, 96, 115]) else if i < 114 then [83, 96, 115] else if i < 115 then [85] else if i < 116 then [86]
     else [87]) else if i < 125 then (if i < 121 then (if i < 119 then (if i < 118 then [88] else [89]) else if i <
     120 then [92] else [94]) else if i < 123 then (if i < 122 then [95] else [100]) else if i < 124 then [101] else
     [110]) else if i < 129 then (if i < 127 then (if i < 126 then [113] else [117]) else if i < 128 then [118] else
     [121]) else if i < 131 then (if i < 130 then [122] else [126]) else if i < 132 then [127] else if i < 133 then
     [128] else [132])"

text \<open>The tokens with which a nonterminal begins.\<close>

definition nonterminal_first :: "int \<Rightarrow> int list" where
  "nonterminal_first i =
     (if i < 71 then (if i < 62 then (if i < 58 then (if i < 56 then [3, 4, 5, 6, 7, 8, 9, 10, 11, 12, 13, 14, 15]
     else if i < 57 then [3, 4, 5, 6, 7, 8, 9, 10, 11, 12, 13, 14, 15] else [3]) else if i < 60 then (if i < 59 then
     [4] else [14]) else if i < 61 then [15] else [14]) else if i < 66 then (if i < 64 then (if i < 63 then [3] else
     [40]) else if i < 65 then [29, 40] else [40]) else if i < 68 then (if i < 67 then [32, 33, 34] else [4]) else
     if i < 69 then [3] else if i < 70 then [4] else [14]) else if i < 80 then (if i < 75 then (if i < 73 then (if i
     < 72 then [5] else [40, 51]) else if i < 74 then [40] else [35, 36]) else if i < 77 then (if i < 76 then [40]
     else [39, 41, 42]) else if i < 78 then [37, 38, 43, 44, 45, 46, 52, 53] else if i < 79 then [6] else [39, 41,
     42]) else if i < 84 then (if i < 82 then (if i < 81 then [7] else [8]) else [40]) else if i < 86 then (if i <
     85 then [9] else [10]) else if i < 87 then [11] else if i < 88 then [12] else [13])"

text \<open>The items of a state: a rule, what is left of its right-hand side, and the tokens that can follow it.\<close>

definition items :: "int \<Rightarrow> (int \<times> int list \<times> int list) list" where
  "items i =
     (if i < 67 then (if i < 33 then (if i < 16 then (if i < 8 then (if i < 4 then (if i < 2 then (if i < 1 then
     [(1, [55, 0], []), (2, [56, 47], [0]), (3, [57], [47]), (4, [58], [47]), (5, [59], [47]), (6, [60], [47]), (7,
     [61], [47]), (8, [62], [47]), (9, [67], [47]), (10, [68], [47]), (11, [69], [47]), (12, [70], [47]), (13, [71],
     [47]), (14, [78], [47]), (15, [80], [47]), (16, [81], [47]), (17, [84], [47]), (18, [85], [47]), (19, [86],
     [47]), (20, [87], [47]), (21, [88], [47]), (22, [3, 17, 40], [47]), (23, [4, 17, 40], [47]), (24, [14, 18],
     [47]), (25, [15, 40], [47]), (26, [14, 20], [47]), (27, [3, 19, 40, 48, 64, 49], [47]), (38, [4, 19, 40],
     [47]), (39, [3, 21, 40, 23, 40, 48, 63, 49], [47]), (40, [3, 21, 40, 23, 40, 48, 63, 49, 16, 40], [47]), (41,
     [4, 21, 40], [47]), (42, [14, 22], [47]), (43, [5, 72, 24, 40], [47]), (44, [5, 72, 24, 40, 25, 73], [47]),
     (63, [6, 26, 40, 28, 48, 79, 49], [47]), (66, [7, 24, 40], [47]), (67, [7, 24, 40, 25, 73], [47]), (68, [8, 40,
     27, 82], [47]), (69, [8, 40, 27, 82, 25, 73], [47]), (73, [9], [47]), (74, [10], [47]), (75, [11], [47]), (76,
     [12], [47]), (77, [13, 41], [47])] else [(22, [17, 40], [47]), (27, [19, 40, 48, 64, 49], [47]), (39, [21, 40,
     23, 40, 48, 63, 49], [47]), (40, [21, 40, 23, 40, 48, 63, 49, 16, 40], [47])]) else if i < 3 then [(23, [17,
     40], [47]), (38, [19, 40], [47]), (41, [21, 40], [47])] else [(43, [72, 24, 40], [47]), (44, [72, 24, 40, 25,
     73], [47]), (28, [40, 50, 63], [24]), (29, [40], [24]), (45, [51], [24]), (46, [63], [24])]) else if i < 6 then
     (if i < 5 then [(63, [26, 40, 28, 48, 79, 49], [47])] else [(66, [24, 40], [47]), (67, [24, 40, 25, 73],
     [47])]) else if i < 7 then [(68, [40, 27, 82], [47]), (69, [40, 27, 82, 25, 73], [47])] else [(73, [], [47])])
     else if i < 12 then (if i < 10 then (if i < 9 then [(74, [], [47])] else [(75, [], [47])]) else if i < 11 then
     [(76, [], [47])] else [(77, [41], [47])]) else if i < 14 then (if i < 13 then [(24, [18], [47]), (26, [20],
     [47]), (42, [22], [47])] else [(25, [40], [47])]) else if i < 15 then [(1, [0], [])] else [(2, [47], [0])])
     else if i < 24 then (if i < 20 then (if i < 18 then (if i < 17 then [(3, [], [47])] else [(4, [], [47])]) else
     if i < 19 then [(5, [], [47])] else [(6, [], [47])]) else if i < 22 then (if i < 21 then [(7, [], [47])] else
     [(8, [], [47])]) else if i < 23 then [(9, [], [47])] else [(10, [], [47])]) else if i < 28 then (if i < 26 then
     (if i < 25 then [(11, [], [47])] else [(12, [], [47])]) else if i < 27 then [(13, [], [47])] else [(14, [],
     [47])]) else if i < 30 then (if i < 29 then [(15, [], [47])] else [(16, [], [47])]) else if i < 31 then [(17,
     [], [47])] else if i < 32 then [(18, [], [47])] else [(19, [], [47])]) else if i < 50 then (if i < 41 then (if
     i < 37 then (if i < 35 then (if i < 34 then [(20, [], [47])] else [(21, [], [47])]) else if i < 36 then [(22,
     [40], [47])] else [(27, [40, 48, 64, 49], [47])]) else if i < 39 then (if i < 38 then [(39, [40, 23, 40, 48,
     63, 49], [47]), (40, [40, 23, 40, 48, 63, 49, 16, 40], [47])] else [(23, [40], [47])]) else if i < 40 then
     [(38, [40], [47])] else [(41, [40], [47])]) else if i < 45 then (if i < 43 then (if i < 42 then [(28, [50, 63],
     [24, 49]), (29, [], [24, 49])] else [(45, [], [24])]) else if i < 44 then [(46, [], [24])] else [(43, [24, 40],
     [47]), (44, [24, 40, 25, 73], [47])]) else if i < 47 then (if i < 46 then [(63, [40, 28, 48, 79, 49], [47])]
     else [(66, [40], [47]), (67, [40, 25, 73], [47])]) else if i < 48 then [(68, [27, 82], [47]), (69, [27, 82, 25,
     73], [47])] else if i < 49 then [(77, [], [47])] else [(24, [], [47])]) else if i < 58 then (if i < 54 then (if
     i < 52 then (if i < 51 then [(26, [], [47])] else [(42, [], [47])]) else if i < 53 then [(25, [], [47])] else
     []) else if i < 56 then (if i < 55 then [(2, [], [0])] else [(22, [], [47])]) else if i < 57 then [(27, [48,
     64, 49], [47])] else [(39, [23, 40, 48, 63, 49], [47]), (40, [23, 40, 48, 63, 49, 16, 40], [47])]) else if i <
     62 then (if i < 60 then (if i < 59 then [(23, [], [47])] else [(38, [], [47])]) else if i < 61 then [(41, [],
     [47])] else [(28, [63], [24, 49]), (28, [40, 50, 63], [24, 49]), (29, [40], [24, 49])]) else if i < 64 then (if
     i < 63 then [(43, [40], [47]), (44, [40, 25, 73], [47])] else [(63, [28, 48, 79, 49], [47])]) else if i < 65
     then [(66, [], [47]), (67, [25, 73], [47])] else if i < 66 then [(68, [82], [47]), (69, [82, 25, 73], [47]),
     (70, [83, 50, 82], [25, 47]), (71, [83], [25, 47]), (72, [40, 43, 76], [25, 47, 50])] else [(27, [64, 49],
     [47]), (30, [65, 50, 64], [49]), (31, [65], [49]), (32, [29, 30, 48, 63, 49], [49]), (33, [40, 66, 31], [49,
     50]), (34, [40, 66], [49, 50])]) else if i < 100 then (if i < 83 then (if i < 75 then (if i < 71 then (if i <
     69 then (if i < 68 then [(39, [40, 48, 63, 49], [47]), (40, [40, 48, 63, 49, 16, 40], [47])] else [(28, [],
     [24, 49])]) else if i < 70 then [(43, [], [47]), (44, [25, 73], [47])] else [(63, [48, 79, 49], [47])]) else if
     i < 73 then (if i < 72 then [(67, [73], [47]), (47, [73, 74, 75], [35, 36, 47]), (48, [75], [35, 36, 47]), (51,
     [40, 77, 76], [35, 36, 47])] else [(72, [43, 76], [25, 47, 50])]) else if i < 74 then [(68, [], [47]), (69,
     [25, 73], [47])] else [(70, [50, 82], [25, 47]), (71, [], [25, 47])]) else if i < 79 then (if i < 77 then (if i
     < 76 then [(32, [30, 48, 63, 49], [49])] else [(33, [66, 31], [49, 50]), (34, [66], [49, 50]), (35, [33], [31,
     49, 50]), (36, [34], [31, 49, 50]), (37, [32, 48, 42, 49], [31, 49, 50])]) else if i < 78 then [(27, [49],
     [47])] else [(30, [50, 64], [49]), (31, [], [49])]) else if i < 81 then (if i < 80 then [(39, [48, 63, 49],
     [47]), (40, [48, 63, 49, 16, 40], [47])] else [(44, [73], [47]), (47, [73, 74, 75], [35, 36, 47]), (48, [75],
     [35, 36, 47]), (51, [40, 77, 76], [35, 36, 47])]) else if i < 82 then [(63, [79, 49], [47]), (52, [41], [49,
     50]), (53, [42], [49, 50]), (54, [39], [49, 50]), (64, [76, 50, 79], [49]), (65, [76], [49])] else [(51, [77,
     76], [35, 36, 47]), (55, [43], [39, 41, 42]), (56, [44], [39, 41, 42]), (57, [45], [39, 41, 42]), (58, [46],
     [39, 41, 42]), (59, [52], [39, 41, 42]), (60, [53], [39, 41, 42]), (61, [38], [39, 41, 42]), (62, [37], [39,
     41, 42])]) else if i < 91 then (if i < 87 then (if i < 85 then (if i < 84 then [(47, [74, 75], [35, 36, 47]),
     (67, [], [47]), (49, [35], [40]), (50, [36], [40])] else [(48, [], [35, 36, 47])]) else if i < 86 then [(72,
     [76], [25, 47, 50]), (52, [41], [25, 47, 50]), (53, [42], [25, 47, 50]), (54, [39], [25, 47, 50])] else [(69,
     [73], [47]), (47, [73, 74, 75], [35, 36, 47]), (48, [75], [35, 36, 47]), (51, [40, 77, 76], [35, 36, 47])])
     else if i < 89 then (if i < 88 then [(70, [82], [25, 47]), (70, [83, 50, 82], [25, 47]), (71, [83], [25, 47]),
     (72, [40, 43, 76], [25, 47, 50])] else [(32, [48, 63, 49], [49])]) else if i < 90 then [(37, [48, 42, 49], [31,
     49, 50])] else [(35, [], [31, 49, 50])]) else if i < 95 then (if i < 93 then (if i < 92 then [(36, [], [31, 49,
     50])] else [(33, [31], [49, 50]), (34, [], [49, 50])]) else if i < 94 then [(27, [], [47])] else [(30, [64],
     [49]), (30, [65, 50, 64], [49]), (31, [65], [49]), (32, [29, 30, 48, 63, 49], [49]), (33, [40, 66, 31], [49,
     50]), (34, [40, 66], [49, 50])]) else if i < 97 then (if i < 96 then [(39, [63, 49], [47]), (40, [63, 49, 16,
     40], [47]), (28, [40, 50, 63], [49]), (29, [40], [49])] else [(44, [], [47]), (47, [74, 75], [35, 36, 47]),
     (49, [35], [40]), (50, [36], [40])]) else if i < 98 then [(54, [], [25, 35, 36, 47, 49, 50])] else if i < 99
     then [(52, [], [25, 35, 36, 47, 49, 50])] else [(53, [], [25, 35, 36, 47, 49, 50])]) else if i < 117 then (if i
     < 108 then (if i < 104 then (if i < 102 then (if i < 101 then [(64, [50, 79], [49]), (65, [], [49])] else [(63,
     [49], [47])]) else if i < 103 then [(62, [], [39, 41, 42])] else [(61, [], [39, 41, 42])]) else if i < 106 then
     (if i < 105 then [(55, [], [39, 41, 42])] else [(56, [], [39, 41, 42])]) else if i < 107 then [(57, [], [39,
     41, 42])] else [(58, [], [39, 41, 42])]) else if i < 112 then (if i < 110 then (if i < 109 then [(59, [], [39,
     41, 42])] else [(60, [], [39, 41, 42])]) else if i < 111 then [(51, [76], [35, 36, 47]), (52, [41], [35, 36,
     47]), (53, [42], [35, 36, 47]), (54, [39], [35, 36, 47])] else [(49, [], [40])]) else if i < 114 then (if i <
     113 then [(50, [], [40])] else [(47, [75], [35, 36, 47]), (51, [40, 77, 76], [35, 36, 47])]) else if i < 115
     then [(72, [], [25, 47, 50])] else if i < 116 then [(47, [74, 75], [35, 36, 47]), (69, [], [47]), (49, [35],
     [40]), (50, [36], [40])] else [(70, [], [25, 47])]) else if i < 125 then (if i < 121 then (if i < 119 then (if
     i < 118 then [(32, [63, 49], [49]), (28, [40, 50, 63], [49]), (29, [40], [49])] else [(37, [42, 49], [31, 49,
     50])]) else if i < 120 then [(33, [], [49, 50])] else [(30, [], [49])]) else if i < 123 then (if i < 122 then
     [(39, [49], [47]), (40, [49, 16, 40], [47])] else [(64, [79], [49]), (52, [41], [49, 50]), (53, [42], [49,
     50]), (54, [39], [49, 50]), (64, [76, 50, 79], [49]), (65, [76], [49])]) else if i < 124 then [(63, [], [47])]
     else [(51, [], [35, 36, 47])]) else if i < 129 then (if i < 127 then (if i < 126 then [(47, [], [35, 36, 47])]
     else [(32, [49], [49])]) else if i < 128 then [(37, [49], [31, 49, 50])] else [(39, [], [47]), (40, [16, 40],
     [47])]) else if i < 131 then (if i < 130 then [(64, [], [49])] else [(32, [], [49])]) else if i < 132 then
     [(37, [], [31, 49, 50])] else if i < 133 then [(40, [40], [47])] else [(40, [], [47])])"

definition first :: "int \<Rightarrow> int list" where
  "first x = (if x < 54 then [x] else nonterminal_first x)"

definition follow :: "int list \<Rightarrow> int list \<Rightarrow> int list" where
  "follow xs la = (case xs of [] \<Rightarrow> la | x # _ \<Rightarrow> first x)"

text \<open>A rule with one symbol on its right-hand side has a smaller rank on its left.\<close>

definition rank :: "int \<Rightarrow> nat" where
  "rank x = (if x < 54 then 2 else if x \<in> {56, 64, 72, 73, 79, 82} then 0 else 1)"

section \<open>Checks\<close>

text \<open>Every shift leads to a state that is entered by its token; only state 14 accepts, at the end of the input.\<close>

definition action_ok :: "int \<Rightarrow> int \<Rightarrow> bool" where
  "action_ok s t = (case action_at s t of
     DoShift n \<Rightarrow> 0 < t \<and> 0 < n \<and> n \<le> 133 \<and> s \<in> set (preds n) \<and> stos_at n = t
   | DoAccept \<Rightarrow> s = 14 \<and> t = 0
   | DoReduce n \<Rightarrow> n = defact_at s
   | DoError \<Rightarrow> True)"

text \<open>Popping a rule's symbols from any stack that ends in the state, and what is pushed then.\<close>

fun back_ok :: "int list \<Rightarrow> int \<Rightarrow> int \<Rightarrow> bool" where
  "back_ok [] s a = (let g = goto_at s a in 0 < g \<and> g \<le> 133 \<and> s \<in> set (preds g) \<and> stos_at g = a)"
| "back_ok (x # xs) s a = (s \<noteq> 0 \<and> stos_at s = x \<and> (\<forall>p \<in> set (preds s). back_ok xs p a))"

definition reduce_ok :: "int \<Rightarrow> bool" where
  "reduce_ok s = (let n = defact_at s in n = 0 \<or> preds s = [] \<or>
     1 < n \<and> n \<le> 77 \<and> back_ok (rev (rhs_at n)) s (r1_at n))"

definition rule_ok :: "int \<Rightarrow> bool" where
  "rule_ok n = (let r = rhs_at n in r \<noteq> [] \<and> 54 \<le> r1_at n \<and> r1_at n \<le> 88 \<and>
     (\<forall>b \<in> set (first (hd r)). b \<in> set (first (r1_at n))) \<and> (length r = 1 \<longrightarrow> rank (r1_at n) < rank (hd r)))"

fun has_item :: "int \<Rightarrow> int list \<Rightarrow> int list \<Rightarrow> (int \<times> int list \<times> int list) list \<Rightarrow> bool" where
  "has_item n r la [] = False"
| "has_item n r la ((m, q, la') # is) = (if m = n \<and> q = r then \<forall>b \<in> set la. b \<in> set la' else has_item n r la is)"

definition closure_ok :: "int \<Rightarrow> int \<Rightarrow> int list \<Rightarrow> bool" where
  "closure_ok s x la = (\<forall>n \<in> set [2..77]. r1_at n \<noteq> x \<or> has_item n (rhs_at n) la (items s))"

fun item_ok :: "int \<Rightarrow> int \<times> int list \<times> int list \<Rightarrow> bool" where
  "item_ok s (n, [], la) = (\<forall>b \<in> set la. action_at s b = DoReduce n)"
| "item_ok s (n, x # xs, la) =
     (if x = 0 then action_at s 0 = DoAccept
      else if x < 54 then (case action_at s x of DoShift g \<Rightarrow> has_item n xs la (items g) | _ \<Rightarrow> False)
      else state (goto_at s x) \<and> has_item n xs la (items (goto_at s x)) \<and> closure_ok s x (follow xs la))"

lemma actions_checked: "\<forall>s \<in> set [0..133]. \<forall>t \<in> set [0..53]. action_ok s t"
  by code_simp

lemma reductions_checked: "\<forall>s \<in> set [0..133]. reduce_ok s"
  by code_simp

lemma rules_checked: "\<forall>n \<in> set [2..77]. rule_ok n"
  by code_simp

lemma items_checked: "\<forall>s \<in> set [0..133]. \<forall>i \<in> set (items s). item_ok s i"
  by code_simp

lemma preds_checked: "\<forall>s \<in> set [0..133]. \<forall>p \<in> set (preds s). 0 \<le> p \<and> p \<le> 133"
  by code_simp

lemma action_ok: "state s \<Longrightarrow> 0 \<le> t \<Longrightarrow> t < 54 \<Longrightarrow> action_ok s t"
  using uptoD [OF uptoD [OF actions_checked]] by (simp add: state_def)

lemma reduce_ok: "state s \<Longrightarrow> reduce_ok s"
  using uptoD [OF reductions_checked] by (simp add: state_def)

lemma rule_ok: "1 < n \<Longrightarrow> n \<le> 77 \<Longrightarrow> rule_ok n"
  using uptoD [OF rules_checked] by simp

lemma item_ok: "state s \<Longrightarrow> i \<in> set (items s) \<Longrightarrow> item_ok s i"
  using uptoD [OF items_checked, of s] by (simp add: state_def)

lemma preds_state: "state s \<Longrightarrow> p \<in> set (preds s) \<Longrightarrow> state p"
  using uptoD [OF preds_checked, of s] by (simp add: state_def)

end
