(* ===== verification/Lalr_Parser.thy ===== *)
theory Lalr_Parser
  imports Lalr_Annotations
begin

text \<open>
  The automaton of \<^verbatim>\<open>yyparse\<close> on a list of tokens, building parse trees where the parser runs the semantic
  actions: shifts, reductions and gotos as parser/minisql_yacc.c makes them at \<^verbatim>\<open>yybackup\<close>,
  \<^verbatim>\<open>yydefault\<close> and \<^verbatim>\<open>yyreduce\<close>. From the checks of the tables follow: the automaton always stops and
  never reads outside a table or below its stack; what it accepts is a sentence of the grammar and the
  tree it builds is a parse tree of it; and it accepts every sentence of the grammar.
\<close>

section \<open>The automaton\<close>

type_synonym 'a config = "int list \<times> 'a dtree list \<times> (int \<times> 'a) list"

datatype 'a outcome = Go "'a config" | Accepted "'a dtree" | Rejected | Failed err

definition lookahead :: "(int \<times> 'a) list \<Rightarrow> int" where
  "lookahead ts = (case ts of [] \<Rightarrow> 0 | t # _ \<Rightarrow> fst t)"

fun lr_act :: "act \<Rightarrow> 'a config \<Rightarrow> 'a outcome" where
  "lr_act (DoShift n) (ss, ds, ts) = (case ts of [] \<Rightarrow> Failed Undefined
     | (x, a) # ts' \<Rightarrow> Go (n # ss, Leaf x a # ds, ts'))"
| "lr_act (DoReduce n) (ss, ds, ts) = (let k = length (rule_rhs n) in
     case drop k ss of [] \<Rightarrow> Failed Undefined
     | s # _ \<Rightarrow> (case yygoto s (rule_lhs n) of Inl e \<Rightarrow> Failed e
         | Inr g \<Rightarrow> Go (g # drop k ss, Rule n (rev (take k ds)) # drop k ds, ts)))"
| "lr_act DoAccept (ss, ds, ts) = (case ds of [] \<Rightarrow> Failed Undefined | d # _ \<Rightarrow> Accepted d)"
| "lr_act DoError c = Rejected"

fun lr_step :: "'a config \<Rightarrow> 'a outcome" where
  "lr_step ([], ds, ts) = Failed Undefined"
| "lr_step (s # ss, ds, ts) = (case yyaction s (lookahead ts) of
     Inl e \<Rightarrow> Failed e | Inr a \<Rightarrow> lr_act a (s # ss, ds, ts))"

partial_function (option) lr_run :: "'a config \<Rightarrow> 'a outcome option" where
  "lr_run c = (case lr_step c of Go c' \<Rightarrow> lr_run c' | r \<Rightarrow> Some r)"

definition lr_parse :: "(int \<times> 'a) list \<Rightarrow> 'a outcome option" where
  "lr_parse ts = lr_run ([0], [], ts)"

section \<open>What the checks say\<close>

lemma action_shift: "state s \<Longrightarrow> 0 \<le> t \<Longrightarrow> t < 54 \<Longrightarrow> action_at s t = DoShift n \<Longrightarrow>
    0 < t \<and> state n \<and> n \<noteq> 0 \<and> s \<in> set (preds n) \<and> stos_at n = t"
  using action_ok [of s t] by (simp add: state_def action_ok_def)

lemma action_accept: "state s \<Longrightarrow> 0 \<le> t \<Longrightarrow> t < 54 \<Longrightarrow> action_at s t = DoAccept \<Longrightarrow> s = 14 \<and> t = 0"
  using action_ok [of s t] by (simp add: state_def action_ok_def)

lemma action_reduce:
  assumes "state s" "0 \<le> t" "t < 54" "action_at s t = DoReduce n" "preds s \<noteq> []"
  shows "1 < n \<and> n \<le> 77 \<and> back_ok (rev (rhs_at n)) s (r1_at n)"
proof -
  have "action_ok s t" "reduce_ok s" using assms(1-3) by (simp_all add: action_ok reduce_ok)
  moreover have "n \<noteq> 0" using assms(4) by (auto simp: action_at_def Let_def split: if_splits)
  ultimately show ?thesis using assms(4,5) by (auto simp: action_ok_def reduce_ok_def Let_def)
qed

lemma rule_facts:
  assumes "1 < n" "n \<le> 77"
  shows "rhs_at n \<noteq> []" "54 \<le> r1_at n" "r1_at n \<le> 88" "set (first (hd (rhs_at n))) \<subseteq> set (first (r1_at n))"
    "length (rhs_at n) = 1 \<Longrightarrow> rank (r1_at n) < rank (hd (rhs_at n))"
proof -
  have "rule_ok n" using assms by (rule rule_ok)
  then show "rhs_at n \<noteq> []" "54 \<le> r1_at n" "r1_at n \<le> 88" "set (first (hd (rhs_at n))) \<subseteq> set (first (r1_at n))"
    "length (rhs_at n) = 1 \<Longrightarrow> rank (r1_at n) < rank (hd (rhs_at n))"
    by (auto simp: rule_ok_def Let_def)
qed

section \<open>Stacks\<close>

text \<open>A stack of states that the automaton can reach, and the trees of the symbols on it.\<close>

fun linked :: "int list \<Rightarrow> bool" where
  "linked [] = False"
| "linked [s] = (s = 0)"
| "linked (s # p # ss) = (s \<noteq> 0 \<and> state s \<and> p \<in> set (preds s) \<and> linked (p # ss))"

definition sound :: "(int \<times> 'a) list \<Rightarrow> 'a config \<Rightarrow> bool" where
  "sound ts0 c \<longleftrightarrow> (case c of (ss, ds, ts) \<Rightarrow> linked ss \<and> map stos_at (butlast ss) = map root ds \<and>
     (\<forall>d \<in> set ds. parse_tree d) \<and> concat (map fringe (rev ds)) @ ts = ts0)"

lemma linked_state: "linked (s # ss) \<Longrightarrow> state s"
  by (cases ss) (auto simp: state_def)

lemma preds_0: "preds 0 = []"
  by code_simp

lemma linked_top: "linked (s # ss) \<Longrightarrow> s = 0 \<longleftrightarrow> ss = []"
  by (cases ss) auto

lemma back_ok_linked:
  "back_ok xs s a \<Longrightarrow> linked (s # ss) \<Longrightarrow>
   length xs \<le> length ss \<and> map stos_at (take (length xs) (s # ss)) = xs \<and>
   (\<exists>p ps. drop (length xs) (s # ss) = p # ps \<and> linked (p # ps) \<and> 0 < goto_at p a \<and> state (goto_at p a) \<and>
      p \<in> set (preds (goto_at p a)) \<and> stos_at (goto_at p a) = a)"
proof (induction xs arbitrary: s ss)
  case Nil
  then show ?case by (auto simp: Let_def state_def)
next
  case (Cons x xs)
  then obtain p ps where ss: "ss = p # ps" using linked_top by (cases ss) auto
  then have "back_ok xs p a" "linked (p # ps)" "stos_at s = x" using Cons.prems by auto
  then show ?case using Cons.IH [of p ps] ss by auto
qed


section \<open>Soundness and termination\<close>

definition tokens_ok :: "(int \<times> 'a) list \<Rightarrow> bool" where
  "tokens_ok ts \<longleftrightarrow> (\<forall>t \<in> set ts. 0 < fst t \<and> fst t < YYNTOKENS)"

lemma lookahead_range: "tokens_ok ts \<Longrightarrow> 0 \<le> lookahead ts \<and> lookahead ts < 54"
  by (cases ts) (auto simp: lookahead_def tokens_ok_def YYNTOKENS_def)

lemma lookahead_0: "tokens_ok ts \<Longrightarrow> lookahead ts = 0 \<Longrightarrow> ts = []"
  by (cases ts) (auto simp: lookahead_def tokens_ok_def)

text \<open>Input left, then the height of the stack, then the rank of the topmost symbol.\<close>

definition lr_less :: "('a config \<times> 'a config) set" where
  "lr_less = measures [\<lambda>(ss, ds, ts). length ts, \<lambda>(ss, ds, ts). length ss, \<lambda>(ss, ds, ts). rank (stos_at (hd ss))]"

lemma wf_lr_less: "wf lr_less"
  by (simp add: lr_less_def)

lemma no_reduce_at_0: "0 \<le> t \<Longrightarrow> t < 54 \<Longrightarrow> action_at 0 t \<noteq> DoReduce n"
proof
  assume t: "0 \<le> t" "t < 54" and a: "action_at 0 t = DoReduce n"
  have "defact_at 0 = 0" by code_simp
  moreover have "action_ok 0 t" using t by (simp add: action_ok state_def)
  ultimately have "n = 0" using a by (simp add: action_ok_def)
  then show False using a by (auto simp: action_at_def Let_def split: if_splits)
qed

lemma sound_shift:
  assumes "sound ts0 (s # ss, ds, ts)" "tokens_ok ts" "action_at s (lookahead ts) = DoShift n"
  shows "\<exists>x a ts'. ts = (x, a) # ts' \<and> sound ts0 (n # s # ss, Leaf x a # ds, ts')"
proof -
  have l: "linked (s # ss)" using assms(1) by (simp add: sound_def)
  from action_shift [OF linked_state [OF l] _ _ assms(3)] lookahead_range [OF assms(2)]
  have n: "0 < lookahead ts" "state n" "n \<noteq> 0" "s \<in> set (preds n)" "stos_at n = lookahead ts" by auto
  then obtain x a ts' where ts: "ts = (x, a) # ts'" by (cases ts) (auto simp: lookahead_def)
  then have "0 < x" "x < YYNTOKENS" using assms(2) by (auto simp: tokens_ok_def)
  then show ?thesis using assms(1) n l ts by (auto simp: sound_def lookahead_def)
qed

lemma rev_append_take_drop: "concat (map f (rev (drop k xs))) @ concat (map f (rev (take k xs))) = concat (map f (rev xs))"
  by (metis append_take_drop_id concat_append map_append rev_append)

lemma sound_reduce:
  assumes c: "sound ts0 (s # ss, ds, ts)" and t: "tokens_ok ts" and a: "action_at s (lookahead ts) = DoReduce n"
  shows "\<exists>c'. lr_act (DoReduce n) (s # ss, ds, ts) = Go c' \<and> sound ts0 c' \<and> (c', (s # ss, ds, ts)) \<in> lr_less"
proof -
  have l: "linked (s # ss)" using c by (simp add: sound_def)
  have "s \<noteq> 0" using a no_reduce_at_0 lookahead_range [OF t] by blast
  then have "ss \<noteq> []" using linked_top [OF l] by simp
  then have "preds s \<noteq> []" using l by (cases ss) auto
  from action_reduce [OF linked_state [OF l] _ _ a this] lookahead_range [OF t]
  have n: "1 < n" "n \<le> 77" "back_ok (rev (rhs_at n)) s (r1_at n)" by auto
  let ?k = "length (rhs_at n)" and ?A = "r1_at n"
  from back_ok_linked [OF n(3) l] obtain p ps where k: "?k \<le> length ss"
    "map stos_at (take ?k (s # ss)) = rev (rhs_at n)" and d: "drop ?k (s # ss) = p # ps" "linked (p # ps)"
    "0 < goto_at p ?A" "state (goto_at p ?A)" "p \<in> set (preds (goto_at p ?A))" "stos_at (goto_at p ?A) = ?A" by auto
  note r = rule_facts [OF n(1,2)]
  have R: "rule_rhs n = rhs_at n" "rule_lhs n = ?A" using n by (simp_all add: rule_rhs_at rule_lhs_at)
  let ?g = "goto_at p ?A" and ?d = "Rule n (rev (take ?k ds))"
  have step: "lr_act (DoReduce n) (s # ss, ds, ts) = Go (?g # p # ps, ?d # drop ?k ds, ts)"
    using d(1) by (simp add: R Let_def yygoto_at [OF r(2,3)])
  have m: "map stos_at (butlast (s # ss)) = map root ds" using c by (simp add: sound_def)
  then have lds: "length ds = length ss" by (metis length_butlast length_map diff_Suc_1 length_Cons)
  have "map root (take ?k ds) = take ?k (map stos_at (butlast (s # ss)))" by (simp only: m take_map)
  also have "\<dots> = map stos_at (take ?k (s # ss))"
    using k(1) take_butlast [of ?k "s # ss"] by (simp only: take_map length_Cons less_Suc_eq_le)
  finally have roots: "map root (rev (take ?k ds)) = rule_rhs n" using k(2) R by (simp add: rev_map [symmetric])
  have "map root (drop ?k ds) = drop ?k (map stos_at (butlast (s # ss)))" by (simp only: m drop_map)
  also have "\<dots> = map stos_at (butlast (p # ps))" by (simp only: d(1) [symmetric] drop_map drop_butlast)
  finally have below: "map root (drop ?k ds) = map stos_at (butlast (p # ps))" .
  have tr: "\<forall>d \<in> set ds. parse_tree d" using c by (simp add: sound_def)
  then have "parse_tree ?d" using n roots by (auto simp: YYNRULES_def dest: in_set_takeD)
  moreover have "\<forall>d \<in> set (drop ?k ds). parse_tree d" using tr by (auto dest: in_set_dropD)
  moreover have "concat (map fringe (rev (?d # drop ?k ds))) @ ts = ts0"
    using c rev_append_take_drop [of fringe ?k ds] by (simp add: sound_def)
  ultimately have "sound ts0 (?g # p # ps, ?d # drop ?k ds, ts)"
    using d below R by (simp add: sound_def)
  moreover have "((?g # p # ps, ?d # drop ?k ds, ts), (s # ss, ds, ts)) \<in> lr_less"
  proof -
    have len: "length (p # ps) = length (s # ss) - ?k" using d(1) by (metis length_drop)
    have "?k \<noteq> 0" using r(1) by simp
    then consider "2 \<le> ?k" | "?k = 1" by linarith
    then show ?thesis
    proof cases
      case 1
      then have "length (p # ps) < length (s # ss) - 1 \<or> length (p # ps) = length (s # ss) - ?k" "length (p # ps) < length (s # ss)"
        using len k(1) by auto
      then have "length (?g # p # ps) < length (s # ss)" using len k(1) 1 by auto
      then show ?thesis by (simp add: lr_less_def)
    next
      case 2
      then obtain x where x: "rhs_at n = [x]" by (cases "rhs_at n") auto
      then show ?thesis using 2 len k d r(5) by (simp add: lr_less_def)
    qed
  qed
  ultimately show ?thesis using step by blast
qed

lemma lr_step_sound:
  assumes c: "sound ts0 c" and t: "tokens_ok ts0"
  shows "(\<exists>c'. lr_step c = Go c' \<and> sound ts0 c' \<and> (c', c) \<in> lr_less) \<or>
    (\<exists>d. lr_step c = Accepted d \<and> parses ts0 d) \<or> lr_step c = Rejected"
proof -
  obtain ss' ds ts where c': "c = (ss', ds, ts)" by (cases c)
  then obtain s ss where ss: "ss' = s # ss" using c by (cases ss') (auto simp: sound_def)
  have l: "linked (s # ss)" and cat: "concat (map fringe (rev ds)) @ ts = ts0"
    using c c' ss by (auto simp: sound_def)
  have t': "tokens_ok ts" using t cat by (auto simp: tokens_ok_def)
  have step: "lr_step c = lr_act (action_at s (lookahead ts)) (s # ss, ds, ts)"
    using c' ss by (simp add: yyaction_at [OF linked_state [OF l]])
  show ?thesis
  proof (cases "action_at s (lookahead ts)")
    case (DoShift n)
    from sound_shift [OF c [unfolded c' ss] t' this] show ?thesis
      using step DoShift c' ss by (auto simp: lr_less_def)
  next
    case (DoReduce n)
    from sound_reduce [OF c [unfolded c' ss] t' this] show ?thesis using step DoReduce c' ss by auto
  next
    case DoAccept
    from action_accept [OF linked_state [OF l] _ _ this] lookahead_range [OF t']
    have s: "s = 14" "lookahead ts = 0" by auto
    have "preds 14 = [0]" "stos_at 14 = 55" by code_simp+
    then have "ss = [0]" using l s(1) by (cases ss rule: linked.cases) (auto simp: preds_0)
    then obtain d where "ds = [d]" "root d = 55"
      using c c' ss s(1) \<open>stos_at 14 = 55\<close> by (auto simp: sound_def)
    then show ?thesis using step DoAccept c c' lookahead_0 [OF t' s(2)]
      by (auto simp: sound_def parses_def start_symbol_def)
  next
    case DoError
    then show ?thesis using step by simp
  qed
qed

lemma lr_run_sound:
  "sound ts0 c \<Longrightarrow> tokens_ok ts0 \<Longrightarrow> (\<exists>d. lr_run c = Some (Accepted d) \<and> parses ts0 d) \<or> lr_run c = Some Rejected"
proof (induction c rule: wf_induct_rule [OF wf_lr_less])
  case (1 c)
  from lr_step_sound [OF 1(2,3)] show ?case
  proof (elim disjE exE conjE)
    fix c' assume "lr_step c = Go c'" "sound ts0 c'" "(c', c) \<in> lr_less"
    then show ?thesis using 1 by (simp add: lr_run.simps [of c])
  qed (auto simp: lr_run.simps [of c])
qed

lemma sound_start: "sound ts ([0], [], ts)"
  by (simp add: sound_def)

section \<open>Completeness\<close>

inductive lr_steps :: "'a config \<Rightarrow> 'a config \<Rightarrow> bool" where
  lr_refl: "lr_steps c c"
| lr_more: "lr_step c = Go c' \<Longrightarrow> lr_steps c' c'' \<Longrightarrow> lr_steps c c''"

lemma lr_steps_trans: "lr_steps a b \<Longrightarrow> lr_steps b c \<Longrightarrow> lr_steps a c"
  by (induction rule: lr_steps.induct) (auto intro: lr_steps.intros)

lemma lr_steps_run: "lr_steps c c' \<Longrightarrow> lr_run c = lr_run c'"
  by (induction rule: lr_steps.induct) (simp_all add: lr_run.simps)

lemma root_token: "parse_tree d \<Longrightarrow> root d < 54 \<Longrightarrow> \<exists>a. d = Leaf (root d) a \<and> 0 < root d"
proof (cases d)
  case (Rule n ds)
  assume "parse_tree d" "root d < 54"
  then show ?thesis using Rule rule_facts(2) [of n] rule_lhs_at [of n] by (simp add: YYNRULES_def)
qed auto

lemma fringe_first: "parse_tree d \<Longrightarrow> \<exists>x a ts. fringe d = (x, a) # ts \<and> x \<in> set (first (root d))"
proof (induction d)
  case (Leaf x a)
  then show ?case by (simp add: first_def YYNTOKENS_def)
next
  case (Rule n ds)
  then have n: "1 < n" "n \<le> 77" and r: "map root ds = rhs_at n" and v: "\<forall>d \<in> set ds. parse_tree d"
    by (auto simp: YYNRULES_def rule_rhs_at)
  note f = rule_facts [OF n]
  then obtain e es where ds: "ds = e # es" using r by (cases ds) auto
  then obtain x a ts where x: "fringe e = (x, a) # ts" "x \<in> set (first (root e))" using Rule.IH [of e] v by auto
  have "hd (rhs_at n) = root e" using r ds by (metis list.sel(1) list.simps(9))
  then show ?case using x ds f(4) n by (auto simp: rule_lhs_at)
qed

lemma lookahead_follow:
  assumes "\<forall>d \<in> set ds. parse_tree d" "ds = [] \<Longrightarrow> lookahead ts \<in> set la"
  shows "lookahead (concat (map fringe ds) @ ts) \<in> set (follow (map root ds) la)"
proof (cases ds)
  case (Cons d es)
  then show ?thesis using assms(1) fringe_first [of d] by (auto simp: lookahead_def follow_def)
qed (use assms in \<open>simp add: follow_def\<close>)

lemma has_itemD: "has_item n r la its \<Longrightarrow> \<exists>la'. (n, r, la') \<in> set its \<and> set la \<subseteq> set la'"
  by (induction n r la its rule: has_item.induct) (auto split: if_splits)

text \<open>The state after a symbol.\<close>

definition after :: "int \<Rightarrow> int \<Rightarrow> int" where
  "after s x = (if x < 54 then (case action_at s x of DoShift n \<Rightarrow> n | _ \<Rightarrow> 0) else goto_at s x)"

lemma item_advance:
  assumes "state s" "(n, x # xs, la) \<in> set (items s)" "x \<noteq> 0"
  shows "\<exists>la'. (n, xs, la') \<in> set (items (after s x)) \<and> set la \<subseteq> set la'"
proof -
  have "item_ok s (n, x # xs, la)" using assms(1,2) by (rule item_ok)
  then have "has_item n xs la (items (after s x))"
    using assms(3) by (auto simp: after_def split: if_splits act.splits)
  then show ?thesis by (rule has_itemD)
qed

lemma item_closure:
  assumes "state s" "(n, x # xs, la) \<in> set (items s)" "54 \<le> x" "1 < m" "m \<le> 77" "r1_at m = x"
  shows "\<exists>la'. (m, rhs_at m, la') \<in> set (items s) \<and> set (follow xs la) \<subseteq> set la'"
proof -
  have "item_ok s (n, x # xs, la)" using assms(1,2) by (rule item_ok)
  then have "closure_ok s x (follow xs la)" using assms(3) by simp
  then have "has_item m (rhs_at m) (follow xs la) (items s)"
    using uptoD [of 2 77 "\<lambda>n. r1_at n \<noteq> x \<or> has_item n (rhs_at n) (follow xs la) (items s)" m] assms(4-6)
    unfolding closure_ok_def by simp
  then show ?thesis by (rule has_itemD)
qed

text \<open>
  In a state that has an item with the root of a tree next, the automaton reads the tree's fringe and pushes
  the tree. \<open>reads d\<close> says so; for the children of a node it is used one after the other.
\<close>

definition reads :: "'a dtree \<Rightarrow> bool" where
  "reads d \<longleftrightarrow> (\<forall>s ss ds ts n xs la. state s \<longrightarrow> (n, root d # xs, la) \<in> set (items s) \<longrightarrow> lookahead ts \<in> set (follow xs la) \<longrightarrow>
     state (after s (root d)) \<and> lr_steps (s # ss, ds, fringe d @ ts) (after s (root d) # s # ss, d # ds, ts))"

lemma readsD: "reads d \<Longrightarrow> state s \<Longrightarrow> (n, root d # xs, la) \<in> set (items s) \<Longrightarrow> lookahead ts \<in> set (follow xs la) \<Longrightarrow>
    state (after s (root d)) \<and> lr_steps (s # ss, ds, fringe d @ ts) (after s (root d) # s # ss, d # ds, ts)"
  unfolding reads_def by blast

lemma reads_children:
  assumes "\<forall>d \<in> set es. parse_tree d \<and> reads d" "state s" "(n, map root es, la) \<in> set (items s)" "lookahead ts \<in> set la"
  shows "\<exists>ps s' ps' la'. ps @ s # ss = s' # ps' \<and> length ps = length es \<and> state s' \<and> (n, [], la') \<in> set (items s') \<and> set la \<subseteq> set la' \<and>
    lr_steps (s # ss, ds, concat (map fringe es) @ ts) (ps @ s # ss, rev es @ ds, ts)"
  using assms
proof (induction es arbitrary: s ss ds la)
  case Nil
  then show ?case by (auto intro: lr_refl)
next
  case (Cons e es)
  have e: "parse_tree e" "reads e" using Cons.prems(1) by auto
  let ?s = "after s (root e)"
  have "lookahead (concat (map fringe es) @ ts) \<in> set (follow (map root es) la)"
    using Cons.prems(1,4) by (intro lookahead_follow) auto
  with e(2) Cons.prems(2,3) have 1: "state ?s"
    "lr_steps (s # ss, ds, fringe e @ concat (map fringe es) @ ts) (?s # s # ss, e # ds, concat (map fringe es) @ ts)"
    unfolding reads_def by auto
  have "root e \<noteq> 0" using root_token [OF e(1)] by auto
  with item_advance [OF Cons.prems(2)] Cons.prems(3) obtain la' where
    la': "(n, map root es, la') \<in> set (items ?s)" "set la \<subseteq> set la'" by fastforce
  have es: "\<forall>d \<in> set es. parse_tree d \<and> reads d" and "lookahead ts \<in> set la'" using Cons.prems(1,4) la'(2) by auto
  from Cons.IH [OF es 1(1) la'(1) this(2), of "s # ss" "e # ds"] obtain ps s' ps' la'' where
    2: "ps @ ?s # s # ss = s' # ps'" "length ps = length es" "state s'" "(n, [], la'') \<in> set (items s')"
    "set la' \<subseteq> set la''"
    "lr_steps (?s # s # ss, e # ds, concat (map fringe es) @ ts) (ps @ ?s # s # ss, rev es @ e # ds, ts)" by blast
  have "lr_steps (s # ss, ds, concat (map fringe (e # es)) @ ts) ((ps @ [?s]) @ s # ss, rev (e # es) @ ds, ts)"
    using lr_steps_trans [OF 1(2) 2(6)] by simp
  moreover have "(ps @ [?s]) @ s # ss = s' # ps'" "length (ps @ [?s]) = length (e # es)" using 2 by simp_all
  ultimately show ?case using 2(3,4,5) la'(2) by blast
qed

lemma tree_read:
  fixes d :: "'a dtree"
  shows "parse_tree d \<Longrightarrow> reads d"
proof (induction d)
  case (Leaf x a)
  show ?case unfolding reads_def
  proof (intro allI impI)
    fix s ss ds ts n xs la
    assume s: "state s" "(n, root (Leaf x a) # xs, la) \<in> set (items s)"
    have x: "0 < x" "x < 54" using Leaf by (auto simp: YYNTOKENS_def)
    have "item_ok s (n, x # xs, la)" using item_ok [OF s(1) s(2)] by (simp only: root.simps)
    then obtain g where g: "action_at s x = DoShift g" using x by (auto split: act.splits)
    have "state g" using action_shift [OF s(1) _ _ g] x by simp
    moreover have "lr_step (s # ss, ds, (x, a) # ts) = Go (g # s # ss, Leaf x a # ds, ts)"
      using g by (simp add: lookahead_def yyaction_at [OF s(1)])
    ultimately show "state (after s (root (Leaf x a))) \<and>
        lr_steps (s # ss, ds, fringe (Leaf x a) @ ts) (after s (root (Leaf x a)) # s # ss, Leaf x a # ds, ts)"
      using g x by (auto simp: after_def intro: lr_steps.intros)
  qed
next
  case (Rule m es)
  then have m: "1 < m" "m \<le> 77" and r: "map root es = rhs_at m" and v: "\<forall>d \<in> set es. parse_tree d \<and> reads d"
    by (auto simp: YYNRULES_def rule_rhs_at)
  note f = rule_facts [OF m]
  have A: "rule_lhs m = r1_at m" "rule_rhs m = rhs_at m" using m by (simp_all add: rule_lhs_at rule_rhs_at)
  show ?case unfolding reads_def
  proof (intro allI impI)
    fix s ss n xs la and ds :: "'a dtree list" and ts :: "(int \<times> 'a) list"
    assume s: "state s" "(n, root (Rule m es) # xs, la) \<in> set (items s)" and l: "lookahead ts \<in> set (follow xs la)"
    from item_closure [OF s(1) _ f(2) m, of n xs la] s(2) A obtain la' where
      la': "(m, map root es, la') \<in> set (items s)" "set (follow xs la) \<subseteq> set la'" using r by auto
    from reads_children [OF v s(1) la'(1), of ts ss ds] l la'(2) obtain ps s' ps' la'' where
      2: "ps @ s # ss = s' # ps'" "length ps = length es" "state s'" "(m, [], la'') \<in> set (items s')" "set la' \<subseteq> set la''"
      "lr_steps (s # ss, ds, concat (map fringe es) @ ts) (ps @ s # ss, rev es @ ds, ts)" by blast
    have "action_at s' (lookahead ts) = DoReduce m" using item_ok [OF 2(3,4)] 2(5) la'(2) l by auto
    moreover have k: "length (rule_rhs m) = length es" using r A by (metis length_map)
    ultimately have "lr_step (ps @ s # ss, rev es @ ds, ts) = Go (goto_at s (r1_at m) # s # ss, Rule m es # ds, ts)"
      using 2(1,2) by (simp add: yyaction_at [OF 2(3)] Let_def) (simp add: 2(1) [symmetric] A yygoto_at [OF f(2,3)])
    moreover have "state (goto_at s (r1_at m))" using item_ok [OF s] f(2) A by simp
    ultimately show "state (after s (root (Rule m es))) \<and>
        lr_steps (s # ss, ds, fringe (Rule m es) @ ts) (after s (root (Rule m es)) # s # ss, Rule m es # ds, ts)"
      using lr_steps_trans [OF 2(6) lr_more [OF _ lr_refl]] f(2) A by (simp add: after_def)
  qed
qed

lemma lr_complete:
  assumes "parses ts d"
  shows "lr_parse ts = Some (Accepted d)"
proof -
  have d: "parse_tree d" "root d = 55" "fringe d = ts" using assms by (auto simp: parses_def start_symbol_def)
  have i: "(1, [55, 0], []) \<in> set (items 0)" by code_simp
  have g: "goto_at 0 55 = 14" "action_at 14 0 = DoAccept" by code_simp+
  have "lr_steps ([0], [], fringe d @ []) (after 0 (root d) # [0], [d], [])"
    using readsD [OF tree_read [OF d(1)], of 0 1 "[0]" "[]" "[]" "[]" "[]"] i d(2)
    by (simp add: state_def lookahead_def follow_def first_def)
  then have "lr_steps ([0], [], ts) ([14, 0], [d], [])" using d g by (simp add: after_def)
  moreover have "lr_step ([14, 0], [d], []) = Accepted d"
    using g by (simp add: lookahead_def yyaction_at state_def)
  ultimately show ?thesis by (simp add: lr_parse_def lr_steps_run lr_run.simps [of "([14, 0], [d], [])"])
qed

text \<open>
  The automaton decides the grammar: it stops on every list of tokens, with a tree exactly when it is the
  parse tree of the list, and rejects exactly the lists that have none.
\<close>

lemma lr_parse_decides:
  assumes "tokens_ok ts"
  shows "(\<exists>d. lr_parse ts = Some (Accepted d) \<and> parses ts d) \<or> lr_parse ts = Some Rejected \<and> (\<forall>d. \<not> parses ts d)"
proof -
  from lr_run_sound [OF sound_start assms]
  have "(\<exists>d. lr_parse ts = Some (Accepted d) \<and> parses ts d) \<or> lr_parse ts = Some Rejected"
    by (simp add: lr_parse_def)
  then show ?thesis using lr_complete [of ts] by fastforce
qed

lemma parse_tree_unique: "parses ts d \<Longrightarrow> parses ts d' \<Longrightarrow> d = d'"
  using lr_complete [of ts d] lr_complete [of ts d'] by simp

text \<open>
  C21 (equivalence). The compressed tables of the generated parser are correct for the grammar they come with:
  on every list of tokens the automaton stops without reading outside a table or below its stack, builds
  exactly the parse trees of the list, and rejects exactly the lists that have none.
\<close>

theorem tables_decide_grammar:
  assumes "tokens_ok ts"
  shows "\<exists>r. lr_parse ts = Some r \<and> (\<forall>d. r = Accepted d \<longleftrightarrow> parses ts d) \<and> (r = Rejected \<longleftrightarrow> (\<nexists>d. parses ts d))"
proof -
  from lr_parse_decides [OF assms] show ?thesis
  proof (elim disjE exE conjE)
    fix d assume a: "lr_parse ts = Some (Accepted d)" and p: "parses ts d"
    have "Accepted d = Accepted d' \<longleftrightarrow> parses ts d'" for d' using p parse_tree_unique [OF _ p, of d'] by blast
    then show ?thesis using a p by (intro exI [of _ "Accepted d"]) (simp, blast)
  next
    assume "lr_parse ts = Some Rejected" "\<forall>d. \<not> parses ts d"
    then show ?thesis by (intro exI [of _ Rejected]) simp
  qed
qed

definition example_tokens :: "(int \<times> unit) list" where
  "example_tokens = map (\<lambda>x. (x, ())) [7, 24, 40, 25, 40, 43, 42, 35, 40, 52, 41, 47]"

definition example_dtree :: "unit dtree" where
  "example_dtree = (let l = (\<lambda>x. Leaf x ()) in Rule 2 [Rule 15 [Rule 67 [l 7, l 24, l 40, l 25,
     Rule 47 [Rule 48 [Rule 51 [l 40, Rule 55 [l 43], Rule 53 [l 42]]], Rule 49 [l 35],
       Rule 51 [l 40, Rule 59 [l 52], Rule 52 [l 41]]]]], l 47])"

theorem tables_decide_grammar_witness:
  "tokens_ok example_tokens \<and> parses example_tokens example_dtree \<and> lr_parse example_tokens = Some (Accepted example_dtree)"
proof -
  have t: "tokens_ok example_tokens" and p: "parses example_tokens example_dtree" by code_simp+
  from tables_decide_grammar [OF t] obtain r where
    "lr_parse example_tokens = Some r" "\<forall>d. r = Accepted d \<longleftrightarrow> parses example_tokens d" by blast
  with t p show ?thesis by simp
qed

end
