(* ===== verification/Yyparse.thy ===== *)
theory Yyparse
  imports Flex_Scanner Lalr_Parser
begin

text \<open>
  The parser bison generated, \<^verbatim>\<open>yyparse\<close> of src/MiniSQL/src/parser/minisql_yacc.c, as one step from
  \<^verbatim>\<open>yysetstate\<close> to the next: the growing stacks, the lookahead read by \<^verbatim>\<open>yylex\<close> only in states that need
  one, shifts, reductions with their semantic actions, and error recovery. The state and value stacks are
  lists with the top first; allocation of a larger stack succeeds. \<^verbatim>\<open>yydestruct\<close> does nothing for any
  symbol. The result: on every text \<^verbatim>\<open>yyparse\<close> returns, with 0 exactly for the sentences of the grammar,
  and then the root node represents the tree that the actions mean on the parse tree.
\<close>

section \<open>The parser\<close>

definition YYINITDEPTH :: nat where
  "YYINITDEPTH = 200"

definition YYMAXDEPTH :: nat where
  "YYMAXDEPTH = 10000"

definition YYEMPTY :: int where
  "YYEMPTY = -2"

definition YYEOF :: int where
  "YYEOF = 0"

definition YYTERROR :: int where
  "YYTERROR = 1"

record lr =
  yyss :: "int list"
  yystacksize :: nat
  yychar :: int
  yyerrstatus :: int
  yynerrs :: int
  lexer :: flex
  sem :: yacc

datatype yynext = Continue | Return int

text \<open>\<^verbatim>\<open>yysetstate\<close>: a full stack is doubled, up to the maximal depth.\<close>

definition yysetstate :: "lr \<Rightarrow> yynext \<times> lr" where
  "yysetstate p = (if yystacksize p \<le> length (yyss p) then
       if YYMAXDEPTH \<le> yystacksize p
       then (Return 2, p\<lparr>sem := (sem p)\<lparr>parser := yyerror ''memory exhausted'' (parser (sem p))\<rparr>\<rparr>)
       else let n = min YYMAXDEPTH (2 * yystacksize p)
         in (if n \<le> length (yyss p) then Return 1 else Continue, p\<lparr>yystacksize := n\<rparr>)
     else (Continue, p))"

text \<open>The lookahead as a symbol; \<^verbatim>\<open>yylex\<close> is called when there is none.\<close>

definition yylookahead :: "lr \<Rightarrow> (int \<times> lr) res option" where
  "yylookahead p = ro_bind
     (if yychar p = YYEMPTY then ro_bind (yylex (lexer p) (sem p)) (\<lambda>(n, f, y).
        Some (Inr (p\<lparr>yychar := n, lexer := f, sem := y\<rparr>))) else Some (Inr p)) (\<lambda>p.
     if yychar p \<le> YYEOF then Some (Inr (YYEOF, p\<lparr>yychar := YYEOF\<rparr>))
     else ro_bind (Some (YYTRANSLATE (yychar p))) (\<lambda>t. Some (Inr (t, p))))"

definition yyshift :: "int \<Rightarrow> lr \<Rightarrow> lr" where
  "yyshift n p = p\<lparr>yyerrstatus := (if yyerrstatus p \<noteq> 0 then yyerrstatus p - 1 else 0),
     yychar := (if yychar p \<noteq> YYEOF then YYEMPTY else yychar p),
     sem := (sem p)\<lparr>value_stack := yylval (sem p) # value_stack (sem p)\<rparr>, yyss := n # yyss p\<rparr>"

text \<open>\<^verbatim>\<open>yyreduce\<close>: the action, then the state after the reduction.\<close>

definition yyreduce_goto :: "int \<Rightarrow> lr \<Rightarrow> (yynext \<times> lr) res option" where
  "yyreduce_goto n p = ro_bind (yyreduce (nat n) (sem p)) (\<lambda>y.
     case drop (yyr2 ! nat n) (yyss p) of [] \<Rightarrow> Some (Inl Undefined)
     | s # ss \<Rightarrow> ro_bind (Some (res_bind (rd yyr1 n) (yygoto s))) (\<lambda>g.
         Some (Inr (Continue, p\<lparr>yyss := g # s # ss, sem := y\<rparr>))))"

text \<open>\<^verbatim>\<open>yyerrlab1\<close>: states are popped until one can shift the error token.\<close>

definition error_shift :: "int \<Rightarrow> int option res" where
  "error_shift s = res_bind (rd yypact s) (\<lambda>p.
     let yyn = p + YYTERROR in
     if p = YYPACT_NINF \<or> yyn < 0 \<or> YYLAST < yyn then Inr None
     else res_bind (rd yycheck yyn) (\<lambda>c. if c \<noteq> YYTERROR then Inr None
     else res_bind (rd yytable yyn) (\<lambda>yyn. Inr (if 0 < yyn then Some yyn else None))))"

fun error_pop :: "int list \<Rightarrow> node_ptr list \<Rightarrow> (int \<times> int list \<times> node_ptr list) option res" where
  "error_pop [] vs = Inl Undefined"
| "error_pop (s # ss) vs = res_bind (error_shift s) (\<lambda>e. case e of
     Some n \<Rightarrow> Inr (Some (n, s # ss, vs))
   | None \<Rightarrow> if ss = [] then Inr None else error_pop ss (tl vs))"

definition yyerrlab1 :: "lr \<Rightarrow> (yynext \<times> lr) res option" where
  "yyerrlab1 p = (let p = p\<lparr>yyerrstatus := 3\<rparr> in
     ro_bind (Some (error_pop (yyss p) (value_stack (sem p)))) (\<lambda>e. Some (Inr (case e of
       None \<Rightarrow> (Return 1, p)
     | Some (n, ss, vs) \<Rightarrow> if n = YYFINAL then (Return 0, p)
         else (Continue, p\<lparr>yyss := n # ss, sem := (sem p)\<lparr>value_stack := yylval (sem p) # vs\<rparr>\<rparr>)))))"

definition yyerrlab :: "lr \<Rightarrow> (yynext \<times> lr) res option" where
  "yyerrlab p = (let p = (if yyerrstatus p = 0
       then p\<lparr>yynerrs := yynerrs p + 1, sem := (sem p)\<lparr>parser := yyerror ''syntax error'' (parser (sem p))\<rparr>\<rparr> else p)
     in if yyerrstatus p = 3 then
          if yychar p \<le> YYEOF then (if yychar p = YYEOF then Some (Inr (Return 1, p)) else yyerrlab1 p)
          else yyerrlab1 (p\<lparr>yychar := YYEMPTY\<rparr>)
        else yyerrlab1 p)"

fun yydo :: "act \<Rightarrow> lr \<Rightarrow> (yynext \<times> lr) res option" where
  "yydo (DoShift n) p = Some (Inr (Continue, yyshift n p))"
| "yydo (DoReduce n) p = yyreduce_goto n p"
| "yydo DoAccept p = Some (Inr (Return 0, p))"
| "yydo DoError p = yyerrlab p"

text \<open>\<^verbatim>\<open>yybackup\<close>: without a lookahead where the state's default action is its only one.\<close>

definition yybackup :: "lr \<Rightarrow> (yynext \<times> lr) res option" where
  "yybackup p = (case yyss p of [] \<Rightarrow> Some (Inl Undefined)
     | s # _ \<Rightarrow> ro_bind (Some (rd yypact s)) (\<lambda>yyn.
         if yyn = YYPACT_NINF then ro_bind (Some (yydefault s)) (\<lambda>a. yydo a p)
         else ro_bind (yylookahead p) (\<lambda>(t, p1). ro_bind (Some (yyaction s t)) (\<lambda>a. yydo a p1))))"

definition yyparse_step :: "lr \<Rightarrow> (yynext \<times> lr) res option" where
  "yyparse_step p = (case yysetstate p of (Return n, p1) \<Rightarrow> Some (Inr (Return n, p1)) | (Continue, p1) \<Rightarrow> yybackup p1)"

partial_function (option) yyparse_loop :: "lr \<Rightarrow> (int \<times> lr) res option" where
  "yyparse_loop p = ro_bind (yyparse_step p) (\<lambda>(r, p1). case r of
     Return n \<Rightarrow> Some (Inr (n, p1)) | Continue \<Rightarrow> yyparse_loop p1)"

text \<open>\<^verbatim>\<open>yyparse\<close>; the stacks are its local variables.\<close>

definition yyparse :: "flex \<Rightarrow> yacc \<Rightarrow> (int \<times> flex \<times> yacc) res option" where
  "yyparse f y = ro_bind (yyparse_loop \<lparr>yyss = [0], yystacksize = YYINITDEPTH, yychar = YYEMPTY, yyerrstatus = 0, yynerrs = 0,
       lexer = f, sem = y\<lparr>value_stack := []\<rparr>\<rparr>) (\<lambda>(n, p).
     Some (Inr (n, lexer p, (sem p)\<lparr>value_stack := []\<rparr>)))"

section \<open>Tokens\<close>

text \<open>What the parser gets of a scanned text: the symbol of each token and the token itself.\<close>

fun tokens_of :: "(int \<times> string) list \<Rightarrow> (int \<times> token) list" where
  "tokens_of [] = []"
| "tokens_of ((k, t) # ls) = (case lexeme_of k t of
     Token w \<Rightarrow> (tab yytranslate (token_number k), w) # tokens_of ls | _ \<Rightarrow> tokens_of ls)"

definition token_value :: "token \<Rightarrow> ast list option" where
  "token_value w = (case token_node w of None \<Rightarrow> None
     | Some ty \<Rightarrow> (case node_value ty (Some (token_text w)) of Inl e \<Rightarrow> None | Inr v \<Rightarrow> Some [Node ty v []]))"

text \<open>The trees the semantic actions make of a parse tree.\<close>

fun tree_val :: "token dtree \<Rightarrow> ast list option" where
  "tree_val (Leaf x w) = token_value w"
| "tree_val (Rule n ds) = (case spec_reduce (nat n) (rev (map tree_val ds)) of Some (v # _) \<Rightarrow> v | _ \<Rightarrow> None)"

section \<open>Every action has a meaning\<close>

text \<open>
  The registers that hold a non-empty list of trees, before and after a statement. Checked for all rules:
  their actions use and give away only such registers, and end with a value.
\<close>

fun ab_stmt :: "stmt \<Rightarrow> reg list \<Rightarrow> reg list option" where
  "ab_stmt (Copy r s) B = (if s \<in> set B then Some (r # removeAll s B) else None)"
| "ab_stmt (Create r ty v) B = (if ty = kNodeString then None else Some (r # B))"
| "ab_stmt (AddChildren r s) B = (if r \<in> set B \<and> s \<in> set B \<and> r \<noteq> s then Some (removeAll s B) else None)"
| "ab_stmt (AddSibling r s) B = (if r \<in> set B \<and> s \<in> set B \<and> r \<noteq> s then Some (removeAll s B) else None)"
| "ab_stmt (SetRoot r) B = Some B"

fun ab_code :: "stmt list \<Rightarrow> reg list \<Rightarrow> reg list option" where
  "ab_code [] B = Some B"
| "ab_code (c # cs) B = (case ab_stmt c B of None \<Rightarrow> None | Some B' \<Rightarrow> ab_code cs B')"

definition valued :: "int \<Rightarrow> bool" where
  "valued x \<longleftrightarrow> 40 \<le> x \<and> x \<le> 42 \<or> 54 \<le> x"

fun valued_args :: "nat \<Rightarrow> int list \<Rightarrow> reg list" where
  "valued_args i [] = []"
| "valued_args i (x # xs) = (if valued x then Arg i # valued_args (i + 1) xs else valued_args (i + 1) xs)"

definition value_rule :: "int \<Rightarrow> bool" where
  "value_rule n \<longleftrightarrow> yyr2 ! nat n = length (rhs_at n) \<and>
     (case ab_code (action (nat n)) (valued_args 1 (rhs_at n)) of None \<Rightarrow> False | Some B \<Rightarrow> Res \<in> set B)"

lemma value_rules: "\<forall>n \<in> set [2..77]. value_rule n"
  by code_simp

lemma value_rule: "1 < n \<Longrightarrow> n \<le> 77 \<Longrightarrow> value_rule n"
  using uptoD [OF value_rules] by simp

definition holds_trees :: "(reg \<Rightarrow> ast list option) \<Rightarrow> reg list \<Rightarrow> bool" where
  "holds_trees F B \<longleftrightarrow> (\<forall>r \<in> set B. \<exists>t ts. F r = Some (t # ts))"

lemma holds_treesD: "holds_trees F B \<Longrightarrow> r \<in> set B \<Longrightarrow> \<exists>t ts. F r = Some (t # ts)"
  by (auto simp: holds_trees_def)

lemma ab_stmt_spec:
  assumes "holds_trees F B" "ab_stmt c B = Some B'"
  shows "\<exists>F'. spec_stmt c F = Some F' \<and> holds_trees F' B'"
proof (cases c)
  case (Copy r s)
  then have "s \<in> set B" using assms(2) by (auto split: if_splits)
  from holds_treesD [OF assms(1) this] show ?thesis using assms Copy by (auto simp: holds_trees_def split: if_splits)
next
  case (Create r ty v)
  then have "\<exists>w. node_value ty v = Inr w" using assms(2) by (auto simp: node_value_def split: if_splits option.splits)
  then show ?thesis using assms Create by (auto simp: holds_trees_def split: if_splits)
next
  case (AddChildren r s)
  then have "r \<in> set B" "s \<in> set B" "r \<noteq> s" using assms(2) by (auto split: if_splits)
  then obtain t ts u us where "F r = Some (t # ts)" "F s = Some (u # us)" using holds_treesD [OF assms(1)] by blast
  then show ?thesis using assms AddChildren by (cases t) (auto simp: holds_trees_def split: if_splits)
next
  case (AddSibling r s)
  then have "r \<in> set B" "s \<in> set B" "r \<noteq> s" using assms(2) by (auto split: if_splits)
  then obtain t ts u us where "F r = Some (t # ts)" "F s = Some (u # us)" using holds_treesD [OF assms(1)] by blast
  then show ?thesis using assms AddSibling by (auto simp: holds_trees_def split: if_splits)
next
  case (SetRoot r)
  then show ?thesis using assms by auto
qed

lemma ab_code_spec: "holds_trees F B \<Longrightarrow> ab_code cs B = Some B' \<Longrightarrow> \<exists>F'. spec_code cs F = Some F' \<and> holds_trees F' B'"
proof (induction cs arbitrary: F B)
  case (Cons c cs)
  from Cons.prems(2) obtain B1 where B1: "ab_stmt c B = Some B1" "ab_code cs B1 = Some B'" by (auto split: option.splits)
  from ab_stmt_spec [OF Cons.prems(1) B1(1)] obtain F1 where "spec_stmt c F = Some F1" "holds_trees F1 B1" by blast
  then show ?case using Cons.IH [OF _ B1(2)] by auto
qed simp

text \<open>Values that fit the symbols of a right-hand side.\<close>

definition fits :: "int \<Rightarrow> ast list option \<Rightarrow> bool" where
  "fits x v \<longleftrightarrow> (valued x \<longrightarrow> (\<exists>t ts. v = Some (t # ts)))"

lemma valued_args_arg: "r \<in> set (valued_args i xs) \<Longrightarrow> \<exists>j < length xs. r = Arg (i + j) \<and> valued (xs ! j)"
proof (induction i xs rule: valued_args.induct)
  case (2 i x xs)
  then show ?case
  proof (cases "r = Arg i \<and> valued x")
    case False
    then have "r \<in> set (valued_args (i + 1) xs)" using 2(3) by (auto split: if_splits)
    then obtain j where "j < length xs" "r = Arg (i + 1 + j)" "valued (xs ! j)" using 2(1,2) by (cases "valued x") auto
    then show ?thesis by (intro exI [of _ "Suc j"]) simp
  qed auto
qed simp

lemma spec_reduce_fits:
  assumes n: "1 < n" "n \<le> 77" and v: "list_all2 fits (rhs_at n) vs"
  shows "\<exists>t ts. spec_reduce (nat n) (rev vs @ us) = Some (Some (t # ts) # us)"
proof -
  from value_rule [OF n] obtain B where k: "yyr2 ! nat n = length (rhs_at n)" and
    B: "ab_code (action (nat n)) (valued_args 1 (rhs_at n)) = Some B" "Res \<in> set B"
    by (auto simp: value_rule_def split: option.splits)
  have l: "length vs = length (rhs_at n)" using v by (simp add: list_all2_lengthD)
  have "\<exists>t ts. arg_values None (nat n) (rev vs @ us) r = Some (t # ts)" if "r \<in> set (valued_args 1 (rhs_at n))" for r
  proof -
    from valued_args_arg [OF that] obtain j where j: "j < length (rhs_at n)" "r = Arg (1 + j)" "valued (rhs_at n ! j)" by blast
    then have "fits (rhs_at n ! j) (vs ! j)" using list_all2_nthD [OF v] by blast
    then show ?thesis using j k l by (simp add: arg_values_def fits_def Let_def)
  qed
  then have "holds_trees (arg_values None (nat n) (rev vs @ us)) (valued_args 1 (rhs_at n))" by (simp add: holds_trees_def)
  from ab_code_spec [OF this B(1)] obtain F where F: "spec_code (action (nat n)) (arg_values None (nat n) (rev vs @ us)) = Some F"
    "holds_trees F B" by blast
  from holds_treesD [OF F(2) B(2)] show ?thesis using F(1) k l by (auto simp: spec_reduce_def)
qed

lemma spec_reduce_local:
  assumes "1 < n" "n \<le> 77" "length vs = length (rhs_at n)"
  shows "arg_values None (nat n) (rev vs @ us) = arg_values None (nat n) (rev vs)"
  using value_rule [OF assms(1,2)] assms(3) by (auto simp: fun_eq_iff arg_values_def value_rule_def)

definition leaf_ok :: "int \<times> token \<Rightarrow> bool" where
  "leaf_ok l \<longleftrightarrow> fits (fst l) (token_value (snd l))"

lemma tree_val_fits:
  "parse_tree d \<Longrightarrow> \<forall>l \<in> set (fringe d). leaf_ok l \<Longrightarrow> fits (root d) (tree_val d)"
proof (induction d)
  case (Leaf x a)
  then show ?case by (simp add: leaf_ok_def)
next
  case (Rule n ds)
  then have n: "1 < n" "n \<le> 77" "map root ds = rhs_at n" by (auto simp: YYNRULES_def rule_rhs_at)
  have "fits (root d) (tree_val d)" if "d \<in> set ds" for d using Rule that by auto
  then have "list_all2 fits (rhs_at n) (map tree_val ds)"
    unfolding n(3) [symmetric] by (simp add: list_all2_conv_all_nth)
  from spec_reduce_fits [OF n(1,2) this, of "[]"] show ?case by (auto simp: fits_def)
qed

lemma spec_reduce_trees:
  assumes "parse_tree (Rule n ds)" "\<forall>l \<in> set (fringe (Rule n ds)). leaf_ok l"
  shows "spec_reduce (nat n) (rev (map tree_val ds) @ us) = Some (tree_val (Rule n ds) # us)"
proof -
  have n: "1 < n" "n \<le> 77" "map root ds = rhs_at n" using assms(1) by (auto simp: YYNRULES_def rule_rhs_at)
  have "fits (root d) (tree_val d)" if "d \<in> set ds" for d using tree_val_fits [of d] assms that by auto
  then have v: "list_all2 fits (rhs_at n) (map tree_val ds)"
    unfolding n(3) [symmetric] by (simp add: list_all2_conv_all_nth)
  have l: "length (map tree_val ds) = length (rhs_at n)" using n(3) by (metis length_map)
  from spec_reduce_fits [OF n(1,2) v, of us] obtain t ts where
    1: "spec_reduce (nat n) (rev (map tree_val ds) @ us) = Some (Some (t # ts) # us)" by blast
  from spec_reduce_fits [OF n(1,2) v, of "[]"] obtain t' ts' where
    2: "spec_reduce (nat n) (rev (map tree_val ds)) = Some [Some (t' # ts')]" by auto
  have "Some (t # ts) = Some (t' # ts')"
    using 1 2 spec_reduce_local [OF n(1,2) l, of us]
    by (auto simp: spec_reduce_def bind_eq_Some_conv split: if_splits option.splits)
  then show ?thesis using 1 2 by simp
qed

section \<open>Reading tokens\<close>

definition lexeme_ok :: "int \<times> string \<Rightarrow> bool" where
  "lexeme_ok l \<longleftrightarrow> 1 \<le> fst l \<and> fst l \<le> 55 \<and> (fst l = 1 \<longrightarrow> 2 \<le> length (snd l))"

lemma string_length: "rule_matches 1 w \<Longrightarrow> 2 \<le> length w"
proof -
  have 1: "list_all (\<lambda>l. 2 \<le> fst l) (tl lex_rules)" "lex_rules \<noteq> []" "hd lex_rules = (1, Seq (Chars [(34, 34)]) string_tail)"
    by code_simp+
  assume "rule_matches 1 w"
  then obtain r where r: "(1, r) \<in> set lex_rules" "matches r w" by (auto simp: rule_matches_def)
  then have "(1, r) \<in> set (tl lex_rules) \<or> (1, r) = hd lex_rules" using 1(2) by (metis list.collapse set_ConsD)
  then have "matches (Seq (Chars [(34, 34)]) string_tail) w" using 1 r(2) by (auto simp: list_all_iff)
  then show ?thesis unfolding string_tail_def by auto
qed

lemma scan_lexemes: "l \<in> set (scan s) \<Longrightarrow> lexeme_ok l"
proof (induction s rule: scan.induct)
  case (1 s)
  show ?case
  proof (cases "s = []")
    case False
    obtain k n where kn: "longest s = (k, n)" by fastforce
    note m = munch_longest [OF kn False]
    have "rule_matches k (map code (take (nat n) s))" "1 \<le> k" "k \<le> 55" using m(3) longest_rule [OF kn False] by auto
    then have "lexeme_ok (k, take (nat n) s)" using string_length [of "map code (take (nat n) s)"] by (auto simp: lexeme_ok_def)
    moreover have "l = (k, take (nat n) s) \<or> l \<in> set (scan (drop (nat n) s))" using 1(2) scan_step [OF False kn] by simp
    ultimately show ?thesis using 1(1) [OF False kn [symmetric] refl] m(1) by auto
  qed (use 1 in simp)
qed

definition symbol_ok :: "int \<Rightarrow> bool" where
  "symbol_ok k \<longleftrightarrow> (let n = token_number k; x = tab yytranslate n in
     0 < n \<and> YYTRANSLATE n = Inr x \<and> 0 < x \<and> x < 54 \<and> (valued x \<longrightarrow> k = 1 \<or> 39 \<le> k \<and> k \<le> 41))"

lemma symbols_ok: "\<forall>k \<in> set [1..53]. symbol_ok k"
  by code_simp

lemma symbol_ok: "1 \<le> k \<Longrightarrow> k \<le> 53 \<Longrightarrow> symbol_ok k"
  using uptoD [OF symbols_ok] by simp

lemma lexeme_token: "lexeme_ok (k, t) \<Longrightarrow> lexeme_of k t = Token w \<longleftrightarrow> k \<le> 53 \<and> lexeme_of k t = Token w"
  by (auto simp: lexeme_ok_def lexeme_of_def)

lemma token_facts:
  assumes "lexeme_ok (k, t)" "lexeme_of k t = Token w"
  shows "0 < token_number k" "YYTRANSLATE (token_number k) = Inr (tab yytranslate (token_number k))"
    "0 < tab yytranslate (token_number k)" "tab yytranslate (token_number k) < 54" "leaf_ok (tab yytranslate (token_number k), w)"
    "token_node w \<noteq> None \<Longrightarrow> \<exists>v. node_value (the (token_node w)) (Some (token_text w)) = Inr v"
proof -
  have k: "symbol_ok k" using assms lexeme_token [OF assms(1)] symbol_ok [of k] by (auto simp: lexeme_ok_def)
  then show "0 < token_number k" "YYTRANSLATE (token_number k) = Inr (tab yytranslate (token_number k))"
    "0 < tab yytranslate (token_number k)" "tab yytranslate (token_number k) < 54" by (auto simp: symbol_ok_def Let_def)
  show n: "\<exists>v. node_value (the (token_node w)) (Some (token_text w)) = Inr v" if "token_node w \<noteq> None"
    using assms that by (auto simp: lexeme_of_def lexeme_ok_def node_value_def split: if_splits)
  have "token_node w \<noteq> None" if "k = 1 \<or> 39 \<le> k \<and> k \<le> 41" using that assms(2) by (auto simp: lexeme_of_def split: if_splits)
  then show "leaf_ok (tab yytranslate (token_number k), w)"
    using k n by (auto simp: symbol_ok_def Let_def leaf_ok_def fits_def token_value_def)
qed

lemma tokens_facts:
  assumes "\<forall>l \<in> set ls. lexeme_ok l"
  shows "tokens_ok (tokens_of ls)" "\<forall>l \<in> set (tokens_of ls). leaf_ok l" "length (tokens_of ls) \<le> length ls"
proof -
  have "(\<forall>l \<in> set ls. lexeme_ok l) \<Longrightarrow> tokens_ok (tokens_of ls) \<and> (\<forall>l \<in> set (tokens_of ls). leaf_ok l) \<and> length (tokens_of ls) \<le> length ls"
    using token_facts(3-5) by (induction ls rule: tokens_of.induct) (auto simp: tokens_ok_def YYNTOKENS_def split: lexeme.splits)
  then show "tokens_ok (tokens_of ls)" "\<forall>l \<in> set (tokens_of ls). leaf_ok l" "length (tokens_of ls) \<le> length ls"
    using assms by blast+
qed

lemma tokens_of_scan: "tokens_ok (tokens_of (scan s))" "\<forall>l \<in> set (tokens_of (scan s)). leaf_ok l"
  using tokens_facts [of "scan s"] scan_lexemes by blast+

lemma length_scan: "length (scan s) \<le> length s"
proof (induction s rule: scan.induct)
  case (1 s)
  show ?case
  proof (cases "s = []")
    case False
    obtain k n where kn: "longest s = (k, n)" by fastforce
    note m = munch_longest [OF kn False]
    then show ?thesis using 1(1) [OF False kn [symmetric] refl] scan_step [OF False kn] by auto
  qed simp
qed

text \<open>
  A lexeme whose node has a value that stays in its block; and an unrecognized character. Before the parser
  itself reports an error, an error can only be that of an unrecognized character, whose message is an array
  of the scanner's action.
\<close>

definition lexeme_fits :: "(nat \<Rightarrow> nat) \<Rightarrow> int \<times> string \<Rightarrow> bool" where
  "lexeme_fits m l \<longleftrightarrow> (case lexeme_of (fst l) (snd l) of
     Token w \<Rightarrow> (case token_node w of None \<Rightarrow> True | Some ty \<Rightarrow> copy_fits m ty (Some (token_text w))) | _ \<Rightarrow> True)"

definition values_fit :: "(nat \<Rightarrow> nat) \<Rightarrow> (int \<times> string) list \<Rightarrow> bool" where
  "values_fit m ls \<longleftrightarrow> (\<forall>l \<in> set ls. lexeme_fits m l)"

definition scan_error :: "parser_state \<Rightarrow> bool" where
  "scan_error st \<longleftrightarrow> (error_flag st \<noteq> 0 \<longrightarrow> (\<exists>m. error_message st = Some (Local m)))"

definition unrecognized :: "(int \<times> string) list \<Rightarrow> bool" where
  "unrecognized ls \<longleftrightarrow> (\<exists>l \<in> set ls. fst l = 55)"

lemma MovePos_frame: "root_node (MinisqlParserMovePos st s) = root_node st" "error_flag (MinisqlParserMovePos st s) = error_flag st"
  "error_message (MinisqlParserMovePos st s) = error_message st"
  by (induction s arbitrary: st) (simp_all add: MinisqlParserMovePos_def move_char_def)

lemma Create_frame: "CreateSyntaxNode st ty v = Inr (a, st') \<Longrightarrow>
    root_node st' = root_node st \<and> error_flag st' = error_flag st \<and> error_message st' = error_message st \<and> block_size st' = block_size st"
  by (auto simp: CreateSyntaxNode_def Let_def res_simps split: if_splits)

lemma lex_action_token:
  assumes "yacc_rep y (vs, None)" "lexeme_ok (k, t)" "lexeme_of k t = Token w" "lexeme_fits (block_size (parser y)) (k, t)"
  shows "\<exists>y1. lex_action (Token w) y = Inr y1 \<and> yacc_rep y1 (vs, token_value w) \<and> value_stack y1 = value_stack y \<and>
    root_node (parser y1) = root_node (parser y) \<and> error_flag (parser y1) = error_flag (parser y) \<and>
    error_message (parser y1) = error_message (parser y) \<and> block_size (parser y1) = block_size (parser y)"
proof (cases "token_node w")
  case None
  then show ?thesis using assms(1) by (simp add: token_value_def MovePos_frame MovePos_store Let_def)
next
  case (Some ty)
  with token_facts(6) [OF assms(2,3)] obtain v where v: "node_value ty (Some (token_text w)) = Inr v" by auto
  have "stack_owns (MinisqlParserMovePos (parser y) (token_text w)) (yylval y # value_stack y) (None # vs)" using assms(1) by simp
  moreover have "copy_fits (block_size (MinisqlParserMovePos (parser y) (token_text w))) ty (Some (token_text w))"
    using assms(3,4) Some by (simp add: lexeme_fits_def MovePos_store)
  ultimately obtain q st' where
    q: "CreateSyntaxNode (MinisqlParserMovePos (parser y) (token_text w)) ty (Some (token_text w)) = Inr (q, st')"
      "stack_owns st' (q # value_stack y) (Some [Node ty v []] # vs)" using stack_owns_create v by blast
  then show ?thesis using Some v Create_frame [OF q(1)] by (simp add: token_value_def MovePos_frame MovePos_store Let_def)
qed

lemma run_lexemes_tokens:
  assumes "yacc_rep y (vs, None)" "\<forall>l \<in> set ls. lexeme_ok l" "values_fit (block_size (parser y)) ls"
  shows "\<exists>n ls' y'. run_lexemes ls y = Inr (n, ls', y') \<and> value_stack y' = value_stack y \<and>
    root_node (parser y') = root_node (parser y) \<and> block_size (parser y') = block_size (parser y) \<and>
    values_fit (block_size (parser y)) ls' \<and> (scan_error (parser y) \<longrightarrow> scan_error (parser y')) \<and>
    (error_flag (parser y') \<noteq> 0 \<or> unrecognized ls' \<longleftrightarrow> error_flag (parser y) \<noteq> 0 \<or> unrecognized ls) \<and>
    (case tokens_of ls of [] \<Rightarrow> n = 0 \<and> ls' = [] \<and> yacc_rep y' (vs, None)
     | (x, w) # ts \<Rightarrow> 0 < n \<and> YYTRANSLATE n = Inr x \<and> ts = tokens_of ls' \<and> yacc_rep y' (vs, token_value w))"
  using assms
proof (induction ls arbitrary: y)
  case Nil
  then show ?case by simp
next
  case (Cons l ls)
  obtain k t where l: "l = (k, t)" by (cases l)
  have ok: "lexeme_ok (k, t)" "\<forall>l \<in> set ls. lexeme_ok l" "lexeme_fits (block_size (parser y)) (k, t)"
    "values_fit (block_size (parser y)) ls" using Cons.prems(2,3) l by (auto simp: values_fit_def)
  show ?case
  proof (cases "lexeme_of k t")
    case (Token w)
    from lex_action_token [OF Cons.prems(1) ok(1) Token ok(3)] obtain y1 where
      y1: "lex_action (Token w) y = Inr y1" "yacc_rep y1 (vs, token_value w)" "value_stack y1 = value_stack y"
        "root_node (parser y1) = root_node (parser y)" "error_flag (parser y1) = error_flag (parser y)"
        "error_message (parser y1) = error_message (parser y)" "block_size (parser y1) = block_size (parser y)" by blast
    have "k \<noteq> 55" using Token by (auto simp: lexeme_of_def)
    moreover note token_facts(1,2) [OF ok(1) Token]
    ultimately show ?thesis using y1 l Token by (intro exI [of _ "token_number k"] exI [of _ ls] exI [of _ y1]) (simp add: unrecognized_def scan_error_def ok(4))
  next
    case (Blank b)
    then have k: "k = 54" by (auto simp: lexeme_of_def split: if_splits)
    have "yacc_rep (y\<lparr>parser := MinisqlParserMovePos (parser y) b\<rparr>) (vs, None)" using Cons.prems(1) by simp
    from Cons.IH [OF this ok(2)] ok(4) show ?thesis using l k Blank by (simp add: no_token MovePos_frame MovePos_store unrecognized_def scan_error_def)
  next
    case (Unrecognized b)
    then have k: "k = 55" by (auto simp: lexeme_of_def split: if_splits)
    let ?y = "y\<lparr>parser := MinisqlParserSetError (parser y) (Local (''Unrecognized token ['' @ b @ ''] in input sql.''))\<rparr>"
    have "yacc_rep ?y (vs, None)" using Cons.prems(1) by simp
    moreover have "error_flag (parser ?y) \<noteq> 0" "root_node (parser ?y) = root_node (parser y)"
      "block_size (parser ?y) = block_size (parser y)" "scan_error (parser y) \<longrightarrow> scan_error (parser ?y)"
      by (simp_all add: MinisqlParserSetError_def scan_error_def)
    ultimately show ?thesis using Cons.IH [of ?y] ok(2,4) l k Unrecognized by (auto simp: no_token unrecognized_def)
  qed
qed

end
