(* ===== verification/Yyparse_Correct.thy ===== *)
theory Yyparse_Correct
  imports Yyparse
begin

text \<open>
  \<^verbatim>\<open>yyparse\<close> is the automaton of \<open>Lalr_Parser\<close> run on the tokens of the scanned text, with the values of the
  trees on its value stack. A simulation step by step, and with it: \<^verbatim>\<open>yyparse\<close> returns on every text,
  decides the grammar, and leaves the tree of the statement at the root.
\<close>

section \<open>What reading and reducing keep\<close>

text \<open>The nodes of the store have different numbers, below the counter from which the next one is taken.\<close>

definition ids_ok :: "parser_state \<Rightarrow> bool" where
  "ids_ok st \<longleftrightarrow> (\<forall>a n. store st a = Some n \<longrightarrow> n_id n < debug_node_count st) \<and>
     (\<forall>a b n m. store st a = Some n \<and> store st b = Some m \<and> n_id n = n_id m \<longrightarrow> a = b)"

lemma ids_ok_upd: "ids_ok st \<Longrightarrow> store st a = Some n \<Longrightarrow> n_id m = n_id n \<Longrightarrow> ids_ok (st\<lparr>store := (store st)(a \<mapsto> m)\<rparr>)"
  unfolding ids_ok_def by (auto split: if_splits)

lemma ids_ok_create:
  "ids_ok st \<Longrightarrow> store st' = (store st)(a \<mapsto> m) \<Longrightarrow> n_id m = debug_node_count st \<Longrightarrow> debug_node_count st' = debug_node_count st + 1 \<Longrightarrow> ids_ok st'"
  unfolding ids_ok_def by (fastforce split: if_splits)

text \<open>Every node in the store is in the list of nodes, once, so that all can be freed; an error has a message.\<close>

definition heap_ok :: "parser_state \<Rightarrow> bool" where
  "heap_ok st \<longleftrightarrow> store_ok st \<and> distinct (node_list st) \<and> set (node_list st) = dom (store st) \<and>
     (error_flag st \<noteq> 0 \<longrightarrow> error_message st \<noteq> None) \<and> ids_ok st"

text \<open>\<open>kept st st'\<close>: the error and the allocator are the same, and the list of nodes still describes the store.\<close>

definition kept :: "parser_state \<Rightarrow> parser_state \<Rightarrow> bool" where
  "kept st st' \<longleftrightarrow> error_flag st' = error_flag st \<and> error_message st' = error_message st \<and> block_size st' = block_size st \<and>
     (heap_ok st \<longrightarrow> heap_ok st')"

lemma kept_refl: "kept st st"
  by (simp add: kept_def)

lemma kept_trans: "kept a b \<Longrightarrow> kept b c \<Longrightarrow> kept a c"
  by (simp add: kept_def)

lemma kept_upd: "store st a = Some n \<Longrightarrow> n_id m = n_id n \<Longrightarrow> kept st (st\<lparr>store := (store st)(a \<mapsto> m)\<rparr>)"
  using ids_ok_upd [of st a n m] by (auto simp: kept_def heap_ok_def store_ok_def)

lemma link_next_keeps: "link_next st p q = Inr st' \<Longrightarrow> kept st st' \<and> root_node st' = root_node st"
  by (auto simp: link_next_def deref_def res_simps intro: kept_upd split: option.splits)

lemma append_to_last_keeps: "append_to_last st p q = Some (Inr st') \<Longrightarrow> kept st st' \<and> root_node st' = root_node st"
  by (auto simp: append_to_last_def res_simps bind_eq_Some_conv dest: link_next_keeps)

lemma AddChildren_keeps: "SyntaxNodeAddChildren st p q = Some (Inr st') \<Longrightarrow> kept st st' \<and> root_node st' = root_node st"
  by (auto simp: SyntaxNodeAddChildren_def intro: kept_upd dest: append_to_last_keeps split: option.splits)

lemma AddSibling_keeps: "SyntaxNodeAddSibling st p q = Some (Inr st') \<Longrightarrow> kept st st' \<and> root_node st' = root_node st"
  by (auto simp: SyntaxNodeAddSibling_def intro: kept_refl dest: link_next_keeps append_to_last_keeps split: option.splits if_splits)

lemma Create_keeps: "CreateSyntaxNode st ty v = Inr (a, st') \<Longrightarrow> kept st st' \<and> root_node st' = root_node st"
  by (auto simp: CreateSyntaxNode_def Let_def res_simps kept_def heap_ok_def store_ok_def split: if_splits
      dest: subsetD [OF _ domI] elim: ids_ok_create)

lemma SetRoot_keeps: "kept st (MinisqlParserSetRoot st p)"
  by (simp add: kept_def heap_ok_def store_ok_def MinisqlParserSetRoot_def ids_ok_def)

fun sets_root :: "stmt \<Rightarrow> bool" where
  "sets_root (SetRoot r) = True"
| "sets_root _ = False"

lemma run_stmt_keeps:
  "run_stmt c e st = Some (Inr (e', st')) \<Longrightarrow> kept st st' \<and> (\<not> sets_root c \<longrightarrow> root_node st' = root_node st)"
  by (cases c) (auto simp: res_simps intro: kept_refl SetRoot_keeps dest: Create_keeps AddChildren_keeps AddSibling_keeps)

lemma run_code_keeps:
  "run_code cs e st = Some (Inr (e', st')) \<Longrightarrow> kept st st' \<and> (\<not> list_ex sets_root cs \<longrightarrow> root_node st' = root_node st)"
proof (induction cs arbitrary: e st)
  case (Cons c cs)
  from Cons.prems obtain e1 st1 where 1: "run_stmt c e st = Some (Inr (e1, st1))" "run_code cs e1 st1 = Some (Inr (e', st'))"
    by (auto split: option.splits sum.splits)
  from run_stmt_keeps [OF 1(1)] Cons.IH [OF 1(2)] show ?case using kept_trans by auto
qed (simp add: kept_refl)

lemma yyreduce_keeps:
  "yyreduce n y = Some (Inr y') \<Longrightarrow> kept (parser y) (parser y') \<and>
    (\<not> list_ex sets_root (action n) \<longrightarrow> root_node (parser y') = root_node (parser y))"
  by (auto simp: yyreduce_def Let_def res_simps dest: run_code_keeps)

text \<open>The actions of the scanner keep the list of nodes too.\<close>

lemma heap_ok_MovePos: "heap_ok (MinisqlParserMovePos st s) = heap_ok st"
proof -
  have "node_list (MinisqlParserMovePos st s) = node_list st" "debug_node_count (MinisqlParserMovePos st s) = debug_node_count st"
    by (induction s arbitrary: st) (simp_all add: MinisqlParserMovePos_def move_char_def)
  then show ?thesis by (simp add: heap_ok_def store_ok_def MovePos_store MovePos_frame ids_ok_def)
qed

lemma heap_ok_SetError: "heap_ok st \<Longrightarrow> heap_ok (MinisqlParserSetError st s)"
  by (simp add: heap_ok_def store_ok_def MinisqlParserSetError_def ids_ok_def)

lemma lex_action_heap: "lex_action l y = Inr y' \<Longrightarrow> heap_ok (parser y) \<Longrightarrow> heap_ok (parser y')"
proof (cases l)
  case (Token w)
  assume "lex_action l y = Inr y'" "heap_ok (parser y)"
  then show ?thesis using Token
    by (auto simp: Let_def res_simps heap_ok_MovePos kept_def split: option.splits dest!: Create_keeps)
qed (auto simp: heap_ok_MovePos heap_ok_SetError)

lemma run_lexemes_heap: "run_lexemes ls y = Inr (n, ls', y') \<Longrightarrow> heap_ok (parser y) \<Longrightarrow> heap_ok (parser y')"
  by (induction ls y rule: run_lexemes.induct) (auto simp: res_simps lex_action_heap split: if_splits)

text \<open>Only rule 2 sets the root, and only it makes the start symbol; no state can shift the error token.\<close>

lemma root_rules: "\<forall>n \<in> set [2..77]. n = 2 \<or> r1_at n \<noteq> 55 \<and> \<not> list_ex sets_root (action (nat n))"
  by code_simp

lemma root_rule: "1 < n \<Longrightarrow> n \<le> 77 \<Longrightarrow> n = 2 \<or> r1_at n \<noteq> 55 \<and> \<not> list_ex sets_root (action (nat n))"
  using uptoD [OF root_rules] by simp

lemma start_rule: "r1_at 2 = 55" "len yyr1 = 78"
  by code_simp+

lemma no_error_shifts: "\<forall>s \<in> set [0..133]. error_shift s = Inr None"
  by code_simp

lemma no_error_shift: "state s \<Longrightarrow> error_shift s = Inr None"
  using uptoD [OF no_error_shifts] by (simp add: state_def)

lemma start_states: "\<forall>s \<in> set [0..133]. stos_at s = 55 \<longrightarrow> s = 14"
  by code_simp

lemma start_state: "state s \<Longrightarrow> stos_at s = 55 \<Longrightarrow> s = 14"
  using uptoD [OF start_states] by (simp add: state_def)

definition final_act :: "act \<Rightarrow> bool" where
  "final_act a \<longleftrightarrow> a = DoAccept \<or> a = DoError"

lemma start_actions: "\<forall>t \<in> set [0..53]. final_act (action_at 14 t)"
  by code_simp

lemma start_action: "0 \<le> t \<Longrightarrow> t < 54 \<Longrightarrow> final_act (action_at 14 t)"
  using uptoD [OF start_actions, of t] by simp

lemma linked_states: "linked ss \<Longrightarrow> s \<in> set ss \<Longrightarrow> state s"
  by (induction ss rule: linked.induct) (auto simp: state_def)

lemma error_pop_all: "linked ss \<Longrightarrow> error_pop ss vs = Inr None"
proof (induction ss arbitrary: vs rule: linked.induct)
  case (2 s)
  then show ?case using no_error_shift [of s] by (simp add: state_def)
next
  case (3 s p ss)
  then show ?case using no_error_shift [of s] by simp
qed simp

section \<open>The simulation\<close>

text \<open>
  \<open>looks p ts rest l\<close>: with the lookahead \<^verbatim>\<open>yychar\<close> and the rest of the tokens, the tokens left are
  \<open>ts\<close>; \<open>l\<close> is the value of the lookahead.
\<close>

definition looks :: "int \<Rightarrow> (int \<times> token) list \<Rightarrow> (int \<times> string) list \<Rightarrow> ast list option \<Rightarrow> bool" where
  "looks ch ts ls l \<longleftrightarrow> ch = YYEMPTY \<and> ts = tokens_of ls \<and> l = None \<or>
     ch = YYEOF \<and> ts = [] \<and> ls = [] \<and> l = None \<or>
     0 < ch \<and> (\<exists>x w. ts = (x, w) # tokens_of ls \<and> YYTRANSLATE ch = Inr x \<and> l = token_value w)"

definition root_ok :: "token dtree list \<Rightarrow> yacc \<Rightarrow> bool" where
  "root_ok ds y \<longleftrightarrow> root_node (parser y) = (if ds \<noteq> [] \<and> root (hd ds) = 55 then hd (value_stack y) else None)"

definition input_rep :: "(nat \<Rightarrow> nat) \<Rightarrow> string \<Rightarrow> flex \<Rightarrow> yacc \<Rightarrow> int \<Rightarrow> token dtree list \<Rightarrow> (int \<times> token) list \<Rightarrow> bool" where
  "input_rep m s f y ch ds ts \<longleftrightarrow> (\<exists>q l. ready f s q \<and>
     (error_flag (parser y) \<noteq> 0 \<or> unrecognized (scan (drop q s)) \<longleftrightarrow> unrecognized (scan s)) \<and> scan_error (parser y) \<and>
     block_size (parser y) = m \<and> values_fit m (scan (drop q s)) \<and>
     looks ch ts (scan (drop q s)) l \<and> yacc_rep y (map tree_val ds, l))"

definition sim :: "(nat \<Rightarrow> nat) \<Rightarrow> string \<Rightarrow> lr \<Rightarrow> token config \<Rightarrow> bool" where
  "sim m s p c \<longleftrightarrow> (case c of (ss, ds, ts) \<Rightarrow> yyss p = ss \<and> YYINITDEPTH \<le> yystacksize p \<and> yystacksize p \<le> YYMAXDEPTH \<and> length ss \<le> yystacksize p \<and>
     yyerrstatus p = 0 \<and> root_ok ds (sem p) \<and> heap_ok (parser (sem p)) \<and> input_rep m s (lexer p) (sem p) (yychar p) ds ts)"

lemma simD:
  assumes "sim m s p (ss, ds, ts)"
  obtains q l where "ready (lexer p) s q" "looks (yychar p) ts (scan (drop q s)) l" "yacc_rep (sem p) (map tree_val ds, l)"
    "error_flag (parser (sem p)) \<noteq> 0 \<or> unrecognized (scan (drop q s)) \<longleftrightarrow> unrecognized (scan s)"
    "scan_error (parser (sem p))" "block_size (parser (sem p)) = m" "values_fit m (scan (drop q s))"
  using assms unfolding sim_def input_rep_def by blast

lemma sound_leaves: "sound ts0 (ss, ds, ts) \<Longrightarrow> set ts0 = (\<Union>d \<in> set ds. set (fringe d)) \<union> set ts"
  by (auto simp: sound_def)

lemma yylookahead_sim:
  assumes "sim m s p (ss, ds, ts)"
  shows "\<exists>p'. yylookahead p = Some (Inr (lookahead ts, p')) \<and> sim m s p' (ss, ds, ts) \<and> yystacksize p' = yystacksize p \<and>
    (yychar p' = YYEOF \<and> ts = [] \<or> 0 < yychar p')"
proof -
  from assms(1) obtain q l where q: "ready (lexer p) s q" "looks (yychar p) ts (scan (drop q s)) l"
    "yacc_rep (sem p) (map tree_val ds, l)"
    "error_flag (parser (sem p)) \<noteq> 0 \<or> unrecognized (scan (drop q s)) \<longleftrightarrow> unrecognized (scan s)"
    "scan_error (parser (sem p))" "block_size (parser (sem p)) = m" "values_fit m (scan (drop q s))" by (rule simD)
  show ?thesis
  proof (cases "yychar p = YYEMPTY")
    case False
    then consider "yychar p = 0" "ts = []" | x w where "0 < yychar p" "ts = (x, w) # tokens_of (scan (drop q s))" "YYTRANSLATE (yychar p) = Inr x"
      using q(2) by (auto simp: looks_def YYEOF_def)
    then show ?thesis
    proof cases
      case 1
      then have "sim m s (p\<lparr>yychar := 0\<rparr>) (ss, ds, [])" using assms(1) by (simp add: sim_def)
      then show ?thesis using assms(1) 1 by (simp add: yylookahead_def YYEMPTY_def YYEOF_def lookahead_def)
    next
      case 2
      then show ?thesis using assms(1) by (simp add: yylookahead_def YYEMPTY_def YYEOF_def lookahead_def)
    qed
  next
    case True
    then have l: "l = None" "ts = tokens_of (scan (drop q s))" using q(2) by (auto simp: looks_def YYEMPTY_def YYEOF_def)
    have "\<forall>l \<in> set (scan (drop q s)). lexeme_ok l" using scan_lexemes by blast
    from run_lexemes_tokens [OF q(3) [unfolded l(1)] this q(7) [folded q(6)]] obtain n ls y where
      r: "run_lexemes (scan (drop q s)) (sem p) = Inr (n, ls, y)" "value_stack y = value_stack (sem p)"
        "root_node (parser y) = root_node (parser (sem p))"
        "error_flag (parser y) \<noteq> 0 \<or> unrecognized ls \<longleftrightarrow> unrecognized (scan s)"
        "case ts of [] \<Rightarrow> n = 0 \<and> ls = [] \<and> yacc_rep y (map tree_val ds, None)
         | (x, w) # ts' \<Rightarrow> 0 < n \<and> YYTRANSLATE n = Inr x \<and> ts' = tokens_of ls \<and> yacc_rep y (map tree_val ds, token_value w)"
        "scan_error (parser y)" "block_size (parser y) = m" "values_fit m ls"
      unfolding l(2) using q(4-6) by (elim exE conjE) metis
    from yylex_scan [OF q(1), of "sem p"] r(1) obtain f q' where
      f: "yylex (lexer p) (sem p) = Some (Inr (n, f, y))" "ready f s q'" "ls = scan (drop q' s)" by auto
    let ?p = "p\<lparr>yychar := n, lexer := f, sem := y\<rparr>"
    have "\<exists>l. looks n ts ls l \<and> yacc_rep y (map tree_val ds, l)"
      using r(5) by (cases ts) (auto simp: looks_def YYEOF_def)
    then have "input_rep m s f y n ds ts" unfolding input_rep_def using r(4,6-8) f(2,3) by blast
    then have sim: "sim m s ?p (ss, ds, ts)" using assms(1) r(2,3) run_lexemes_heap [OF r(1)] by (simp add: sim_def root_ok_def)
    show ?thesis
    proof (cases ts)
      case Nil
      then have "n = 0" using r(5) by simp
      then have "yylookahead p = Some (Inr (lookahead ts, ?p))"
        using True f(1) Nil by (simp add: yylookahead_def YYEOF_def lookahead_def)
      then show ?thesis using sim Nil \<open>n = 0\<close> by (intro exI [of _ ?p]) (simp add: YYEOF_def)
    next
      case (Cons t ts')
      obtain x w where t: "t = (x, w)" by (cases t)
      then have "0 < n" "YYTRANSLATE n = Inr x" using r(5) Cons by auto
      then have "yylookahead p = Some (Inr (lookahead ts, ?p))"
        using True f(1) Cons t by (simp add: yylookahead_def YYEOF_def lookahead_def)
      then show ?thesis using sim \<open>0 < n\<close> by (intro exI [of _ ?p]) simp
    qed
  qed
qed

lemma yyshift_sim:
  assumes "sim m s p (ss, ds, (x, w) # ts)" "length ss < yystacksize p" "0 < yychar p" "root_node (parser (sem p)) = None" "x \<noteq> 55"
  shows "sim m s (yyshift n p) (n # ss, Leaf x w # ds, ts)"
proof -
  from assms(1) obtain q l where q: "ready (lexer p) s q" "looks (yychar p) ((x, w) # ts) (scan (drop q s)) l"
    "yacc_rep (sem p) (map tree_val ds, l)"
    "error_flag (parser (sem p)) \<noteq> 0 \<or> unrecognized (scan (drop q s)) \<longleftrightarrow> unrecognized (scan s)"
    "scan_error (parser (sem p))" "block_size (parser (sem p)) = m" "values_fit m (scan (drop q s))" by (rule simD)
  have l: "ts = tokens_of (scan (drop q s))" "l = token_value w" using q(2) assms(3) by (auto simp: looks_def YYEMPTY_def YYEOF_def)
  let ?y = "(sem p)\<lparr>value_stack := yylval (sem p) # value_stack (sem p)\<rparr>"
  have "yacc_rep ?y (map tree_val (Leaf x w # ds), None)" using q(3) l(2) by (auto intro: stack_owns_shift)
  moreover have "looks YYEMPTY ts (scan (drop q s)) None" using l(1) by (simp add: looks_def)
  ultimately have "input_rep m s (lexer p) ?y YYEMPTY (Leaf x w # ds) ts" using q(1,4-7) unfolding input_rep_def
    by (intro exI [of _ q] exI [of _ None]) simp
  then show ?thesis using assms by (simp add: sim_def yyshift_def root_ok_def YYEOF_def)
qed

lemma yyreduce_sim:
  assumes sim: "sim m s p (ss, ds, ts)" and c: "sound (tokens_of (scan s)) (ss, ds, ts)" and st: "length ss < yystacksize p"
    and t: "tokens_ok ts" and ss: "ss = s0 # ss0" and a: "action_at s0 (lookahead ts) = DoReduce n"
    and g: "lr_act (DoReduce n) (ss, ds, ts) = Go c'" and c': "sound (tokens_of (scan s)) c'" and r: "root_node (parser (sem p)) = None"
  shows "\<exists>p'. yyreduce_goto n p = Some (Inr (Continue, p')) \<and> sim m s p' c'"
proof -
  have l: "linked (s0 # ss0)" using c ss by (simp add: sound_def)
  have "s0 \<noteq> 0" using a no_reduce_at_0 lookahead_range [OF t] by blast
  then have "preds s0 \<noteq> []" using l linked_top [OF l] by (cases ss0) auto
  from action_reduce [OF linked_state [OF l] _ _ a this] lookahead_range [OF t] have n: "1 < n" "n \<le> 77" by auto
  let ?k = "length (rhs_at n)"
  have k: "length (rule_rhs n) = ?k" "yyr2 ! nat n = ?k" "rule_lhs n = r1_at n"
    using n value_rule [OF n] by (simp_all add: rule_rhs_at rule_lhs_at value_rule_def)
  from g k obtain x xs h where x: "drop ?k ss = x # xs" "yygoto x (r1_at n) = Inr h"
    "c' = (h # x # xs, Rule n (rev (take ?k ds)) # drop ?k ds, ts)" by (auto simp: Let_def split: list.splits sum.splits)
  let ?d = "Rule n (rev (take ?k ds))"
  have d: "parse_tree ?d" "\<forall>l \<in> set (fringe ?d). leaf_ok l" using c' x(3) tokens_of_scan(2) [of s] sound_leaves [of "tokens_of (scan s)" "h # x # xs" "?d # drop ?k ds" ts]
    by (auto simp: sound_def)
  have len: "length xs < length ss" using x(1) by (metis Suc_le_lessD length_Cons length_drop diff_le_self)
  from sim obtain q l' where q: "ready (lexer p) s q" "looks (yychar p) ts (scan (drop q s)) l'"
    "yacc_rep (sem p) (map tree_val ds, l')"
    "error_flag (parser (sem p)) \<noteq> 0 \<or> unrecognized (scan (drop q s)) \<longleftrightarrow> unrecognized (scan s)"
    "scan_error (parser (sem p))" "block_size (parser (sem p)) = m" "values_fit m (scan (drop q s))" by (rule simD)
  have "map tree_val ds = rev (map tree_val (rev (take ?k ds))) @ map tree_val (drop ?k ds)"
    by (simp only: rev_map rev_rev_ident map_append [symmetric] append_take_drop_id)
  with spec_reduce_trees [OF d, of "map tree_val (drop ?k ds)"]
  have "spec_reduce (nat n) (map tree_val ds) = Some (map tree_val (?d # drop ?k ds))" by simp
  from yyreduce_refines [OF q(3) this] obtain y where y: "yyreduce (nat n) (sem p) = Some (Inr y)"
    "yacc_rep y (map tree_val (?d # drop ?k ds), l')" "nat n = 2 \<Longrightarrow> root_node (parser y) = hd (value_stack y)" by blast
  let ?p = "p\<lparr>yyss := h # x # xs, sem := y\<rparr>"
  have "rd yyr1 n = Inr (r1_at n)" using k(3) n by (simp add: rule_lhs_def rd_def start_rule)
  then have "yyreduce_goto n p = Some (Inr (Continue, ?p))"
    using y(1) k x sim by (simp add: yyreduce_goto_def sim_def)
  moreover have "root_ok (?d # drop ?k ds) y"
    using y(3) yyreduce_keeps [OF y(1)] root_rule [OF n] k(3) r by (auto simp: root_ok_def start_rule)
  moreover have "error_flag (parser y) = error_flag (parser (sem p))" "error_message (parser y) = error_message (parser (sem p))"
    "block_size (parser y) = block_size (parser (sem p))" using yyreduce_keeps [OF y(1)] by (simp_all add: kept_def)
  then have "input_rep m s (lexer p) y (yychar p) (?d # drop ?k ds) ts"
    using q(1,2,4-7) y(2) unfolding scan_error_def input_rep_def by (intro exI [of _ q] exI [of _ l']) simp
  ultimately show ?thesis using sim x(3) len st yyreduce_keeps [OF y(1)] by (intro exI [of _ ?p]) (simp add: sim_def kept_def)
qed

text \<open>
  What the parser reports: an error with a message, which can be read unless an unrecognized character was
  reported before.
\<close>

definition reported :: "(nat \<Rightarrow> nat) \<Rightarrow> string \<Rightarrow> flex \<Rightarrow> parser_state \<Rightarrow> bool" where
  "reported m s f st \<longleftrightarrow> (\<exists>q. ready f s q) \<and> heap_ok st \<and> error_flag st \<noteq> 0 \<and>
     block_size st = m \<and>
     ((\<exists>msg. error_message st = Some (Literal msg)) \<or> unrecognized (scan s))"

lemma yyerror_sim:
  assumes "sim m s p c"
  shows "reported m s (lexer p) (yyerror msg (parser (sem p)))" "root_node (yyerror msg (parser (sem p))) = root_node (parser (sem p))"
proof -
  have "heap_ok (yyerror msg (parser (sem p)))" using assms by (auto simp: sim_def yyerror_def heap_ok_SetError split: prod.splits)
  moreover have "\<exists>q. ready (lexer p) s q" "error_flag (parser (sem p)) \<noteq> 0 \<Longrightarrow> unrecognized (scan s)" "block_size (parser (sem p)) = m"
    using assms by (auto simp: sim_def input_rep_def split: prod.splits)
  ultimately show "reported m s (lexer p) (yyerror msg (parser (sem p)))"
    by (auto simp: reported_def yyerror_def MinisqlParserSetError_def)
qed (simp add: yyerror_def MinisqlParserSetError_def)

lemma yyerrlab_sim:
  assumes "sim m s p (ss, ds, ts)" "linked ss"
  shows "\<exists>p'. yyerrlab p = Some (Inr (Return 1, p')) \<and> reported m s (lexer p') (parser (sem p')) \<and>
    root_node (parser (sem p')) = root_node (parser (sem p))"
  using yyerror_sim [OF assms(1), of "''syntax error''"] assms error_pop_all [of ss]
  by (simp add: sim_def yyerrlab_def yyerrlab1_def Let_def)

section \<open>A step\<close>

lemma fringe_length: "\<forall>d \<in> set ds. parse_tree d \<Longrightarrow> length ds \<le> length (concat (map fringe (rev ds)))"
proof (induction ds)
  case (Cons d ds)
  then show ?case using fringe_first [of d] by auto
qed simp

lemma stack_bound:
  assumes "sound ts0 (ss, ds, ts)"
  shows "length ss \<le> length ts0 + 1"
proof -
  have l: "linked ss" "map stos_at (butlast ss) = map root ds" "\<forall>d \<in> set ds. parse_tree d"
    "concat (map fringe (rev ds)) @ ts = ts0" using assms by (auto simp: sound_def)
  have "length (butlast ss) = length ds" using l(2) by (metis length_map)
  then show ?thesis using fringe_length [OF l(3)] l(4) by auto
qed

lemma yysetstate_sim:
  assumes "sim m s p (ss, ds, ts)" "length ss < YYMAXDEPTH"
  shows "\<exists>p'. yysetstate p = (Continue, p') \<and> sim m s p' (ss, ds, ts) \<and> length ss < yystacksize p'"
proof (cases "yystacksize p \<le> length ss")
  case True
  let ?n = "min YYMAXDEPTH (2 * yystacksize p)"
  have "length ss = yystacksize p" "0 < yystacksize p" "yyss p = ss" using assms(1) True by (auto simp: sim_def YYINITDEPTH_def)
  then have n: "length ss < ?n" "\<not> ?n \<le> length ss" "\<not> YYMAXDEPTH \<le> yystacksize p" "YYINITDEPTH \<le> ?n"
    using assms by (auto simp: sim_def YYMAXDEPTH_def YYINITDEPTH_def)
  then have "yysetstate p = (Continue, p\<lparr>yystacksize := ?n\<rparr>)" using True \<open>yyss p = ss\<close> by (simp add: yysetstate_def Let_def)
  then show ?thesis using assms(1) n by (simp add: sim_def)
next
  case False
  then show ?thesis using assms(1) by (simp add: sim_def yysetstate_def)
qed

text \<open>What \<^verbatim>\<open>yybackup\<close> does is the automaton's action, with the lookahead read when it is needed.\<close>

lemma yybackup_sim:
  assumes "sim m s p (s0 # ss, ds, ts)" "state s0"
  shows "\<exists>p'. yybackup p = yydo (action_at s0 (lookahead ts)) p' \<and> sim m s p' (s0 # ss, ds, ts) \<and> yystacksize p' = yystacksize p \<and>
    ((\<forall>n. action_at s0 (lookahead ts) \<noteq> DoReduce n) \<longrightarrow> action_at s0 (lookahead ts) \<noteq> DoError \<longrightarrow>
      yychar p' = YYEOF \<and> ts = [] \<or> 0 < yychar p')"
proof -
  have p: "yyss p = s0 # ss" using assms(1) by (simp add: sim_def)
  obtain b where b: "rd yypact s0 = Inr b"
    using yyaction_at [OF assms(2), of "lookahead ts"] by (cases "rd yypact s0") (auto simp: yyaction_def)
  show ?thesis
  proof (cases "b = YYPACT_NINF")
    case True
    then have "yydefault s0 = Inr (action_at s0 (lookahead ts))"
      using yyaction_at [OF assms(2), of "lookahead ts"] b by (simp add: yyaction_def Let_def)
    moreover from this have "action_at s0 (lookahead ts) = DoError \<or> (\<exists>n. action_at s0 (lookahead ts) = DoReduce n)"
      by (cases "action_at s0 (lookahead ts)") (auto simp: yydefault_def res_simps split: if_splits)
    ultimately show ?thesis using assms(1) p b True by (intro exI [of _ p]) (auto simp: yybackup_def)
  next
    case False
    from yylookahead_sim [OF assms(1)] obtain p' where
      "yylookahead p = Some (Inr (lookahead ts, p'))" "sim m s p' (s0 # ss, ds, ts)" "yystacksize p' = yystacksize p"
      "yychar p' = YYEOF \<and> ts = [] \<or> 0 < yychar p'" by blast
    then show ?thesis using p b False yyaction_at [OF assms(2), of "lookahead ts"]
      by (intro exI [of _ p']) (simp add: yybackup_def)
  qed
qed

text \<open>The states \<^verbatim>\<open>yyparse\<close> ends in.\<close>

definition parsed :: "(nat \<Rightarrow> nat) \<Rightarrow> string \<Rightarrow> lr \<Rightarrow> token dtree \<Rightarrow> bool" where
  "parsed m s p d \<longleftrightarrow> (\<exists>ss. sim m s p (ss, [d], []) \<and> root d = 55 \<and> yychar p = YYEOF)"

definition refused :: "(nat \<Rightarrow> nat) \<Rightarrow> string \<Rightarrow> lr \<Rightarrow> bool" where
  "refused m s p \<longleftrightarrow> reported m s (lexer p) (parser (sem p)) \<and>
     (root_node (parser (sem p)) = None \<or> (\<exists>d t ts. parse_tree d \<and> root d = 55 \<and> fringe d @ t # ts = tokens_of (scan s)))"

lemma yysetstate_full:
  assumes "sim m s p (ss, ds, ts)" "YYMAXDEPTH \<le> length ss"
  shows "\<exists>p'. yysetstate p = (Return 2, p') \<and> reported m s (lexer p') (parser (sem p'))"
proof -
  have "yyss p = ss" "length ss \<le> yystacksize p" "yystacksize p \<le> YYMAXDEPTH" using assms(1) by (simp_all add: sim_def)
  then show ?thesis using assms(2) yyerror_sim(1) [OF assms(1)] by (simp add: yysetstate_def)
qed

lemma root_clear:
  assumes "sim m s p (s0 # ss, ds, ts)" "sound ts0 (s0 # ss, ds, ts)" "tokens_ok ts" "\<not> final_act (action_at s0 (lookahead ts))"
  shows "root_node (parser (sem p)) = None"
proof (rule ccontr)
  assume "root_node (parser (sem p)) \<noteq> None"
  then obtain d ds' where d: "ds = d # ds'" "root d = 55" using assms(1) by (cases ds) (auto simp: sim_def root_ok_def split: if_splits)
  then have "stos_at s0 = 55" "state s0" using assms(2) linked_state [of s0 ss] by (auto simp: sound_def split: if_splits)
  then have "s0 = 14" using start_state by simp
  then show False using assms(4) start_action lookahead_range [OF assms(3)] by auto
qed

lemma sound_root:
  assumes "sound ts0 (s0 # ss, d # ds, ts)" "root d = 55"
  shows "s0 = 14 \<and> ss = [0] \<and> ds = [] \<and> parse_tree d \<and> fringe d @ ts = ts0"
proof -
  have l: "linked (s0 # ss)" "map stos_at (butlast (s0 # ss)) = map root (d # ds)" using assms(1) by (auto simp: sound_def)
  then have "stos_at s0 = 55" using assms(2) by (auto split: if_splits)
  then have s0: "s0 = 14" using start_state linked_state [OF l(1)] by simp
  have "preds 14 = [0]" by code_simp
  then have "ss = [0]" using l(1) s0 by (cases ss rule: linked.cases) (auto simp: preds_0)
  then show ?thesis using assms(1) s0 l(2) by (auto simp: sound_def)
qed

lemma yyparse_step_sim:
  assumes "sim m s p c" and c: "sound (tokens_of (scan s)) c" and len: "length (fst c) < YYMAXDEPTH"
  shows "case lr_step c of Go c' \<Rightarrow> \<exists>p'. yyparse_step p = Some (Inr (Continue, p')) \<and> sim m s p' c'
    | Accepted d \<Rightarrow> \<exists>p'. yyparse_step p = Some (Inr (Return 0, p')) \<and> parsed m s p' d
    | Rejected \<Rightarrow> \<exists>p'. yyparse_step p = Some (Inr (Return 1, p')) \<and> refused m s p' | Failed e \<Rightarrow> False"
proof -
  let ?ts0 = "tokens_of (scan s)"
  obtain s0 ss ds ts where cc: "c = (s0 # ss, ds, ts)" using c by (cases c; cases "fst c") (auto simp: sound_def)
  note c = c [unfolded cc] and sim = assms(1) [unfolded cc]
  have l: "linked (s0 # ss)" using c by (simp add: sound_def)
  note st = linked_state [OF l]
  have t: "tokens_ok ts" using tokens_of_scan(1) [of s] sound_leaves [OF c] by (auto simp: tokens_ok_def)
  have "length (s0 # ss) < YYMAXDEPTH" using len cc by simp
  from yysetstate_sim [OF sim this] obtain p1 where p1: "yysetstate p = (Continue, p1)" "sim m s p1 (s0 # ss, ds, ts)"
    "length (s0 # ss) < yystacksize p1" by blast
  let ?a = "action_at s0 (lookahead ts)"
  from yybackup_sim [OF p1(2) st] obtain p2 where p2: "yybackup p1 = yydo ?a p2" "sim m s p2 (s0 # ss, ds, ts)"
    "yystacksize p2 = yystacksize p1"
    "(\<forall>n. ?a \<noteq> DoReduce n) \<Longrightarrow> ?a \<noteq> DoError \<Longrightarrow> yychar p2 = YYEOF \<and> ts = [] \<or> 0 < yychar p2" by blast
  have size: "length (s0 # ss) < yystacksize p2" using p1(3) p2(3) by simp
  have step: "yyparse_step p = yydo ?a p2" "lr_step c = lr_act ?a c"
    using p1(1) p2(1) cc yyaction_at [OF st] by (simp_all add: yyparse_step_def)
  note clear = root_clear [OF p2(2) c t]
  show ?thesis
  proof (cases ?a)
    case (DoShift n)
    from sound_shift [OF c t this] obtain x w ts' where x: "ts = (x, w) # ts'" by blast
    moreover have "x < 54" using t x by (auto simp: tokens_ok_def YYNTOKENS_def)
    ultimately have "sim m s (yyshift n p2) (n # s0 # ss, Leaf x w # ds, ts')"
      using yyshift_sim [of m s p2 "s0 # ss" ds x w ts' n] p2(2,4) size DoShift clear by (auto simp: final_act_def)
    then show ?thesis using step x DoShift cc by simp
  next
    case (DoReduce n)
    from sound_reduce [OF c t this] obtain c' where c': "lr_act (DoReduce n) (s0 # ss, ds, ts) = Go c'" "sound ?ts0 c'" by blast
    from yyreduce_sim [OF p2(2) c size t refl DoReduce c'] clear DoReduce show ?thesis using step c'(1) cc by (auto simp: final_act_def)
  next
    case DoAccept
    from lr_step_sound [OF c tokens_of_scan(1)] obtain d where d: "lr_step c = Accepted d" "parses ?ts0 d"
      using step(2) DoAccept cc by (auto split: list.splits)
    have "lookahead ts = 0" using action_accept [OF st _ _ DoAccept] lookahead_range [OF t] by simp
    then have ts: "ts = []" by (rule lookahead_0 [OF t])
    then have "yychar p2 = YYEOF" using p2(2,4) DoAccept by (auto simp: sim_def input_rep_def looks_def YYEMPTY_def YYEOF_def)
    moreover obtain ds' where ds: "ds = d # ds'" using d(1) step(2) DoAccept cc by (auto split: list.splits)
    moreover have "root d = 55" using d(2) by (simp add: parses_def start_symbol_def)
    moreover from this have "ds' = []" using sound_root [OF c [unfolded ds]] by simp
    ultimately have "parsed m s p2 d" using p2(2) ts by (auto simp: parsed_def)
    then show ?thesis using step(1) d(1) DoAccept by simp
  next
    case DoError
    from yyerrlab_sim [OF p2(2) l] obtain p' where p': "yyerrlab p2 = Some (Inr (Return 1, p'))" "reported m s (lexer p') (parser (sem p'))"
      "root_node (parser (sem p')) = root_node (parser (sem p2))" by blast
    have "root_node (parser (sem p2)) = None \<or> (\<exists>d t ts. parse_tree d \<and> root d = 55 \<and> fringe d @ t # ts = ?ts0)"
    proof (cases "ds \<noteq> [] \<and> root (hd ds) = 55")
      case True
      then obtain d ds' where d: "ds = d # ds'" "root d = 55" by (cases ds) auto
      note r = sound_root [OF c [unfolded d(1)] d(2)]
      have "action_at 14 0 = DoAccept" by code_simp
      then obtain t' ts' where "ts = t' # ts'" using DoError r by (cases ts) (auto simp: lookahead_def)
      then show ?thesis using r d(2) by blast
    qed (use p2(2) in \<open>auto simp: sim_def root_ok_def\<close>)
    then have "refused m s p'" using p' by (auto simp: refused_def)
    then show ?thesis using step DoError p'(1) cc by simp
  qed
qed

section \<open>The whole run\<close>

lemma yyparse_loop_sim:
  assumes "sim m s p c" "sound (tokens_of (scan s)) c"
  shows "(YYMAXDEPTH \<le> length (tokens_of (scan s)) + 1 \<and> (\<exists>p'. yyparse_loop p = Some (Inr (2, p')) \<and> reported m s (lexer p') (parser (sem p')))) \<or>
    (\<exists>d p'. lr_run c = Some (Accepted d) \<and> yyparse_loop p = Some (Inr (0, p')) \<and> parsed m s p' d) \<or>
    (\<exists>p'. lr_run c = Some Rejected \<and> yyparse_loop p = Some (Inr (1, p')) \<and> refused m s p')"
  using assms
proof (induction c arbitrary: p rule: wf_induct_rule [OF wf_lr_less])
  case (1 c)
  show ?case
  proof (cases "YYMAXDEPTH \<le> length (fst c)")
    case True
    obtain ss ds ts where c: "c = (ss, ds, ts)" by (cases c)
    from yysetstate_full [OF 1(2) [unfolded c]] True c obtain p' where
      "yysetstate p = (Return 2, p')" "reported m s (lexer p') (parser (sem p'))" by auto
    moreover have "YYMAXDEPTH \<le> length (tokens_of (scan s)) + 1" using stack_bound [OF 1(3) [unfolded c]] True c by simp
    ultimately show ?thesis by (simp add: yyparse_loop.simps [of p] yyparse_step_def)
  next
    case False
    then have "length (fst c) < YYMAXDEPTH" by simp
    note step = yyparse_step_sim [OF 1(2,3) this]
  from lr_step_sound [OF 1(3) tokens_of_scan(1)] show ?thesis
  proof (elim disjE exE conjE)
    fix c' assume c': "lr_step c = Go c'" "sound (tokens_of (scan s)) c'" "(c', c) \<in> lr_less"
    then obtain p' where "yyparse_step p = Some (Inr (Continue, p'))" "sim m s p' c'" using step by auto
    then show ?thesis using 1(1) [OF c'(3) _ c'(2), of p'] c'(1) by (simp add: lr_run.simps [of c] yyparse_loop.simps [of p])
  qed (use step in \<open>auto simp: lr_run.simps [of c] yyparse_loop.simps [of p]\<close>)
  qed
qed

text \<open>
  The state after \<^verbatim>\<open>yyparse\<close> for a text that is a sentence with the tree \<open>d\<close>, and for one that is not: then
  the root is null, unless a sentence is followed by more tokens.
\<close>

definition parsed_state :: "(nat \<Rightarrow> nat) \<Rightarrow> string \<Rightarrow> token dtree \<Rightarrow> flex \<Rightarrow> yacc \<Rightarrow> bool" where
  "parsed_state m s d f y \<longleftrightarrow> (\<exists>q. ready f s q) \<and> heap_ok (parser y) \<and> (error_flag (parser y) \<noteq> 0 \<longleftrightarrow> unrecognized (scan s)) \<and>
     scan_error (parser y) \<and> block_size (parser y) = m \<and>
     (\<exists>ts A. tree_val d = Some ts \<and> forest (store (parser y)) (root_node (parser y)) ts A)"

definition refused_state :: "(nat \<Rightarrow> nat) \<Rightarrow> string \<Rightarrow> flex \<Rightarrow> yacc \<Rightarrow> bool" where
  "refused_state m s f y \<longleftrightarrow> reported m s f (parser y) \<and>
     (root_node (parser y) = None \<or> (\<exists>d t ts. parse_tree d \<and> root d = 55 \<and> fringe d @ t # ts = tokens_of (scan s)))"

lemma parsed_parsed_state:
  assumes "parsed m s p d" "parses (tokens_of (scan s)) d"
  shows "parsed_state m s d (lexer p) ((sem p)\<lparr>value_stack := []\<rparr>)"
proof -
  from assms(1) obtain ss where sim: "sim m s p (ss, [d], [])" and d: "root d = 55" "yychar p = YYEOF" by (auto simp: parsed_def)
  from sim obtain q l where q: "ready (lexer p) s q" "looks (yychar p) [] (scan (drop q s)) l" "yacc_rep (sem p) (map tree_val [d], l)"
    "error_flag (parser (sem p)) \<noteq> 0 \<or> unrecognized (scan (drop q s)) \<longleftrightarrow> unrecognized (scan s)"
    "scan_error (parser (sem p))" "block_size (parser (sem p)) = m" "values_fit m (scan (drop q s))" by (rule simD)
  have "scan (drop q s) = []" using q(2) d(2) by (auto simp: looks_def YYEOF_def YYEMPTY_def)
  then have e: "error_flag (parser (sem p)) \<noteq> 0 \<longleftrightarrow> unrecognized (scan s)" using q(4) by (simp add: unrecognized_def)
  have "fits 55 (tree_val d)" using tree_val_fits [of d] assms(2) tokens_of_scan(2) [of s] d(1) by (auto simp: parses_def)
  then obtain t ts where v: "tree_val d = Some (t # ts)" by (auto simp: fits_def valued_def)
  from q(3) obtain P where P: "length (value_stack (sem p)) = 1"
    "owned_by (store (parser (sem p))) (slot (yylval (sem p) # value_stack (sem p))) (slot [l, Some (t # ts)]) P"
    using v by (auto simp: stack_owns_def)
  from owned_byD(1) [OF P(2), of 1] P(1)
  have "forest (store (parser (sem p))) (hd (value_stack (sem p))) (t # ts) (P 1)"
    by (cases "value_stack (sem p)") (auto simp: slot_Cons)
  moreover have "root_node (parser (sem p)) = hd (value_stack (sem p))" "heap_ok (parser (sem p))"
    using sim d(1) by (auto simp: sim_def root_ok_def)
  ultimately show ?thesis using e v q(1,5,6) by (auto simp: parsed_state_def)
qed

lemma sim_start:
  assumes "ready f s 0" "heap_ok (parser y)" "error_flag (parser y) = 0" "root_node (parser y) = None"
    "block_size (parser y) = m" "values_fit m (scan s)"
  shows "sim m s \<lparr>yyss = [0], yystacksize = YYINITDEPTH, yychar = YYEMPTY, yyerrstatus = 0, yynerrs = 0,
    lexer = f, sem = y\<lparr>value_stack := []\<rparr>\<rparr> ([0], [], tokens_of (scan s))"
proof -
  have "yacc_rep (y\<lparr>value_stack := []\<rparr>) ([], None)"
    using assms(2) by (auto simp: stack_owns_def heap_ok_def owned_by_def slot_def)
  then have "input_rep m s f (y\<lparr>value_stack := []\<rparr>) YYEMPTY [] (tokens_of (scan s))"
    unfolding input_rep_def using assms(1,3,5,6) by (intro exI [of _ 0] exI [of _ None]) (simp add: looks_def scan_error_def)
  then show ?thesis using assms(2,4) by (simp add: sim_def root_ok_def YYINITDEPTH_def YYMAXDEPTH_def)
qed

lemma yyparse_correct:
  assumes "ready f s 0" "heap_ok (parser y)" "error_flag (parser y) = 0" "root_node (parser y) = None"
    "block_size (parser y) = m" "values_fit m (scan s)"
  shows "(YYMAXDEPTH \<le> length s + 1 \<and> (\<exists>f' y'. yyparse f y = Some (Inr (2, f', y')) \<and> reported m s f' (parser y'))) \<or>
    (\<exists>d f' y'. parses (tokens_of (scan s)) d \<and> yyparse f y = Some (Inr (0, f', y')) \<and> parsed_state m s d f' y') \<or>
    (\<exists>f' y'. (\<forall>d. \<not> parses (tokens_of (scan s)) d) \<and> yyparse f y = Some (Inr (1, f', y')) \<and> refused_state m s f' y')"
proof -
  let ?ts = "tokens_of (scan s)"
  have "length ?ts \<le> length s" using tokens_facts(3) [of "scan s"] length_scan [of s] scan_lexemes by (meson le_trans)
  note l = this
  from lr_parse_decides [OF tokens_of_scan(1), of s] yyparse_loop_sim [OF sim_start [OF assms] sound_start]
  show ?thesis unfolding lr_parse_def
  proof (elim disjE exE conjE)
    fix p' assume "YYMAXDEPTH \<le> length ?ts + 1" "reported m s (lexer p') (parser (sem p'))"
      "yyparse_loop \<lparr>yyss = [0], yystacksize = YYINITDEPTH, yychar = YYEMPTY, yyerrstatus = 0, yynerrs = 0,
        lexer = f, sem = y\<lparr>value_stack := []\<rparr>\<rparr> = Some (Inr (2, p'))"
    then show ?thesis using l
      by (intro disjI1 conjI exI [of _ "lexer p'"] exI [of _ "(sem p')\<lparr>value_stack := []\<rparr>"]) (simp_all add: yyparse_def)
  next
    fix p' assume "YYMAXDEPTH \<le> length ?ts + 1" "reported m s (lexer p') (parser (sem p'))"
      "yyparse_loop \<lparr>yyss = [0], yystacksize = YYINITDEPTH, yychar = YYEMPTY, yyerrstatus = 0, yynerrs = 0,
        lexer = f, sem = y\<lparr>value_stack := []\<rparr>\<rparr> = Some (Inr (2, p'))"
    then show ?thesis using l
      by (intro disjI1 conjI exI [of _ "lexer p'"] exI [of _ "(sem p')\<lparr>value_stack := []\<rparr>"]) (simp_all add: yyparse_def)
  next
    fix d d' p' assume "lr_run ([0], [], ?ts) = Some (Accepted d)" "lr_run ([0], [], ?ts) = Some (Accepted d')" "parses ?ts d"
      "yyparse_loop \<lparr>yyss = [0], yystacksize = YYINITDEPTH, yychar = YYEMPTY, yyerrstatus = 0, yynerrs = 0,
        lexer = f, sem = y\<lparr>value_stack := []\<rparr>\<rparr> = Some (Inr (0, p'))" "parsed m s p' d'"
    then show ?thesis using parsed_parsed_state [of m s p' d]
      by (intro disjI2 disjI1 exI [of _ d] exI [of _ "lexer p'"] exI [of _ "(sem p')\<lparr>value_stack := []\<rparr>"]) (simp add: yyparse_def)
  next
    fix p' assume "\<forall>d. \<not> parses ?ts d" "yyparse_loop \<lparr>yyss = [0], yystacksize = YYINITDEPTH, yychar = YYEMPTY, yyerrstatus = 0, yynerrs = 0,
        lexer = f, sem = y\<lparr>value_stack := []\<rparr>\<rparr> = Some (Inr (1, p'))" "refused m s p'"
    then show ?thesis
      by (intro disjI2 exI [of _ "lexer p'"] exI [of _ "(sem p')\<lparr>value_stack := []\<rparr>"]) (simp add: yyparse_def refused_state_def refused_def)
  qed simp_all
qed

text \<open>Parsing stays in the scanner's buffer.\<close>

lemma yylookahead_buffer:
  "current_buffer (lexer p) = Some b \<Longrightarrow> yylookahead p = Some (Inr (t, p1)) \<Longrightarrow> current_buffer (lexer p1) = Some b"
  using yylex_buffer [of "lexer p" b "sem p"] by (auto simp: yylookahead_def ro_bind_Inr split: if_splits)

lemma yyerrlab1_lexer: "yyerrlab1 p = Some (Inr (r, p1)) \<Longrightarrow> lexer p1 = lexer p"
proof -
  assume e: "yyerrlab1 p = Some (Inr (r, p1))"
  show "lexer p1 = lexer p"
  proof (cases "error_pop (yyss p) (value_stack (sem p))")
    case (Inr x)
    then show ?thesis using e by (cases x) (auto simp: yyerrlab1_def Let_def split: prod.splits if_splits)
  qed (use e in \<open>simp add: yyerrlab1_def Let_def\<close>)
qed

lemma yyreduce_goto_lexer: "yyreduce_goto n p = Some (Inr (r, p1)) \<Longrightarrow> lexer p1 = lexer p"
  by (cases "drop (yyr2 ! nat n) (yyss p)") (auto simp: yyreduce_goto_def ro_bind_Inr)

lemma yydo_lexer: "yydo a p = Some (Inr (r, p1)) \<Longrightarrow> lexer p1 = lexer p"
  by (cases a) (auto simp: yyshift_def yyerrlab_def Let_def dest!: yyerrlab1_lexer yyreduce_goto_lexer split: if_splits)

lemma yybackup_buffer:
  "current_buffer (lexer p) = Some b \<Longrightarrow> yybackup p = Some (Inr (r, p1)) \<Longrightarrow> current_buffer (lexer p1) = Some b"
  using yylookahead_buffer [of p b] by (auto simp: yybackup_def ro_bind_Inr dest!: yydo_lexer split: list.splits if_splits)

lemma yyparse_step_buffer:
  assumes "current_buffer (lexer p) = Some b" "yyparse_step p = Some (Inr (r, p1))"
  shows "current_buffer (lexer p1) = Some b"
proof -
  have "lexer (snd (yysetstate p)) = lexer p" by (simp add: yysetstate_def Let_def)
  then show ?thesis using assms yybackup_buffer [of "snd (yysetstate p)" b] by (auto simp: yyparse_step_def split: prod.splits yynext.splits)
qed

lemma yyparse_loop_buffer:
  assumes "yyparse_loop p = Some r"
  shows "current_buffer (lexer p) = Some b \<Longrightarrow> case r of Inl e \<Rightarrow> True | Inr (n, p1) \<Rightarrow> current_buffer (lexer p1) = Some b"
proof (rule yyparse_loop.raw_induct [where P = "\<lambda>p r. current_buffer (lexer p) = Some b \<longrightarrow>
    (case r of Inl e \<Rightarrow> True | Inr (n, p1) \<Rightarrow> current_buffer (lexer p1) = Some b)", OF _ assms, THEN mp])
  fix rec p r
  assume IH: "\<And>p r. rec p = Some r \<Longrightarrow> current_buffer (lexer p) = Some b \<longrightarrow> (case r of Inl e \<Rightarrow> True | Inr (n, p1) \<Rightarrow> current_buffer (lexer p1) = Some b)"
    and r: "ro_bind (yyparse_step p) (\<lambda>(q, p1). case q of Return n \<Rightarrow> Some (Inr (n, p1)) | Continue \<Rightarrow> rec p1) = Some r"
  show "current_buffer (lexer p) = Some b \<longrightarrow> (case r of Inl e \<Rightarrow> True | Inr (n, p1) \<Rightarrow> current_buffer (lexer p1) = Some b)"
  proof (cases r)
    case (Inr z)
    from r [unfolded Inr ro_bind_Inr] obtain q p1 where q: "yyparse_step p = Some (Inr (q, p1))"
      "(case q of Return n \<Rightarrow> Some (Inr (n, p1)) | Continue \<Rightarrow> rec p1) = Some (Inr z)" by auto
    then show ?thesis using Inr IH [of p1 "Inr z"] yyparse_step_buffer [OF _ q(1)] by (cases q; cases z) auto
  qed simp
qed

lemma yyparse_buffer: "current_buffer f = Some b \<Longrightarrow> yyparse f y = Some (Inr (n, f1, y1)) \<Longrightarrow> current_buffer f1 = Some b"
  by (auto simp: yyparse_def ro_bind_Inr dest!: yyparse_loop_buffer [where b = b])

section \<open>Commands\<close>

text \<open>A text whose only semicolon is its last character, as \<^verbatim>\<open>InputCommand\<close> reads it, is refused with a null root.\<close>

lemma scan_matches: "l \<in> set (scan s) \<Longrightarrow> snd l \<noteq> [] \<and> rule_matches (fst l) (map code (snd l))"
proof (induction s rule: scan.induct)
  case (1 s)
  show ?case
  proof (cases "s = []")
    case False
    obtain k n where kn: "longest s = (k, n)" by fastforce
    note m = munch_longest [OF kn False]
    have "l = (k, take (nat n) s) \<or> l \<in> set (scan (drop (nat n) s))" using 1(2) scan_step [OF False kn] by simp
    then show ?thesis using 1(1) [OF False kn [symmetric] refl] m(1,3) False by auto
  qed (use 1 in simp)
qed

definition semicolon :: "string \<Rightarrow> bool" where
  "semicolon t \<longleftrightarrow> CHR '';'' \<in> set t"

lemma semicolon_rules: "list_all (\<lambda>l. fst l = 48 \<longrightarrow> snd l = Chars [(59, 59)]) lex_rules"
  by code_simp

lemma semicolon_symbols: "\<forall>k \<in> set [1..53]. tab yytranslate (token_number k) = 47 \<longrightarrow> k = 48"
  by code_simp

lemma code_59: "code c = 59 \<longleftrightarrow> c = CHR '';''"
proof
  have i: "code c = int (of_char c)" by (simp only: code_def of_nat_of_char)
  assume "code c = 59"
  then have "(of_char c :: nat) = 59" using i by linarith
  moreover have "(of_char (CHR '';'') :: nat) = 59" by simp
  ultimately show "c = CHR '';''" by (metis char_of_char)
qed (simp add: code_def)

lemma semicolon_lexeme: "l \<in> set (scan s) \<Longrightarrow> fst l = 48 \<Longrightarrow> semicolon (snd l)"
proof -
  assume "l \<in> set (scan s)" "fst l = 48"
  then have "rule_matches 48 (map code (snd l))" using scan_matches by metis
  then have "matches (Chars [(59, 59)]) (map code (snd l))"
    using semicolon_rules by (auto simp: rule_matches_def list_all_iff)
  then show "semicolon (snd l)" by (auto simp: semicolon_def code_59)
qed

lemma tokens_of_split:
  "\<forall>l \<in> set ls. lexeme_ok l \<Longrightarrow> tokens_of ls = a @ (47, w) # b \<Longrightarrow> \<exists>ls1 t ls2. ls = ls1 @ (48, t) # ls2 \<and> tokens_of ls2 = b"
proof (induction ls arbitrary: a rule: tokens_of.induct)
  case (2 k t ls)
  have ok: "lexeme_ok (k, t)" "\<forall>l \<in> set ls. lexeme_ok l" using 2 by auto
  show ?case
  proof (cases "\<exists>v. lexeme_of k t = Token v \<and> a = []")
    case True
    then obtain v where v: "lexeme_of k t = Token v" "a = []" by blast
    have "1 \<le> k" "k \<le> 53" using ok(1) v(1) lexeme_token [OF ok(1)] by (auto simp: lexeme_ok_def)
    moreover have "tab yytranslate (token_number k) = 47" "tokens_of ls = b" using 2 v by auto
    ultimately have "k = 48" using uptoD [OF semicolon_symbols, of k] by simp
    then show ?thesis using \<open>tokens_of ls = b\<close> by (metis append_Nil)
  next
    case False
    then obtain a' where "tokens_of ls = a' @ (47, w) # b"
      using 2 by (cases a) (auto split: lexeme.splits)
    then have "\<exists>ls1 u ls2. ls = ls1 @ (48, u) # ls2 \<and> tokens_of ls2 = b" using 2 ok(2) by (cases "lexeme_of k t") auto
    then show ?thesis by (metis append_Cons)
  qed
qed simp

lemma last_semicolon:
  assumes "\<not> semicolon (butlast s)" "tokens_of (scan s) = a @ (47, w) # b"
  shows "b = []"
proof (rule ccontr)
  assume "b \<noteq> []"
  have "\<forall>l \<in> set (scan s). lexeme_ok l" using scan_lexemes by blast
  from tokens_of_split [OF this assms(2)] obtain ls1 t ls2 where l: "scan s = ls1 @ (48, t) # ls2" "tokens_of ls2 = b" by blast
  then obtain l ls3 where ls2: "ls2 = l # ls3" using \<open>b \<noteq> []\<close> by (cases ls2) auto
  then have "snd l \<noteq> []" "semicolon t" using scan_matches [of l s] semicolon_lexeme [of "(48, t)" s] l(1) by auto
  moreover have "s = concat (map snd ls1) @ t @ snd l @ concat (map snd ls3)"
    using scan_lossless [of s] l(1) ls2 by simp
  ultimately have "semicolon (butlast s)" by (auto simp: semicolon_def butlast_append)
  then show False using assms(1) by simp
qed

lemma refused_null:
  assumes "refused_state m s f y" "\<not> semicolon (butlast s)"
  shows "root_node (parser y) = None"
proof (rule ccontr)
  assume "root_node (parser y) \<noteq> None"
  then obtain d t ts where d: "parse_tree d" "root d = 55" "fringe d @ t # ts = tokens_of (scan s)"
    using assms(1) by (auto simp: refused_state_def)
  have "\<not> root d < 54" using d(2) by simp
  then obtain n ds where n: "d = Rule n ds" using d(1) by (cases d) (auto simp: YYNTOKENS_def)
  then have "1 < n" "n \<le> 77" "r1_at n = 55" using d(1,2) by (auto simp: YYNRULES_def rule_lhs_at)
  then have "n = 2" using root_rule by blast
  moreover have "rule_rhs 2 = [56, 47]" by code_simp
  ultimately have ds: "map root ds = [56, 47]" "\<forall>d \<in> set ds. parse_tree d" using n d(1) by auto
  then obtain d1 d2 where "ds = [d1, d2]" "root d2 = 47" by auto
  then obtain w where "ds = [d1, Leaf 47 w]" using root_token [of d2] ds by auto
  then have "tokens_of (scan s) = fringe d1 @ (47, w) # t # ts" using d(3) n by simp
  from last_semicolon [OF assms(2) this] show False by simp
qed


definition example_text :: string where
  "example_text = ''insert into t values (1, \"a\");''"

text \<open>Blocks as an allocator hands them out that rounds to multiples of 16 bytes and keeps 8 for itself.\<close>

definition example_blocks :: "nat \<Rightarrow> nat" where
  "example_blocks n = max 24 ((n + 23) div 16 * 16 - 8)"

definition example_parser :: yacc where
  "example_parser = \<lparr>value_stack = [], yylval = None, parser = MinisqlParserInit (parser_globals example_blocks)\<rparr>"

lemma example_blocks_small: "n \<le> 15 \<Longrightarrow> n < example_blocks n"
  by (simp add: example_blocks_def)


text \<open>
  The allocator of the example has no byte to spare for some sizes: an identifier of 23 letters is written past
  its block.
\<close>

lemma long_identifier_overflows:
  assumes "block_size st = example_blocks" "length s = 23"
  shows "CreateSyntaxNode st kNodeIdentifier (Some s) = Inl Undefined"
  using assms by (simp add: CreateSyntaxNode_def node_value_def copy_fits_def example_blocks_def Let_def)

end
