(* ===== verification/Field_Types.thy ===== *)
theory Field_Types
  imports Minisql_Prelude
begin

text \<open>
  Field values and their types: src/MiniSQL/src/include/record/type_id.h, record/types.h and
  record/field.h of the include directory, and record/types.cpp. The union \<^verbatim>\<open>Field::Val\<close> is a datatype
  with one constructor per member; a \<^verbatim>\<open>char *\<close> is the list of bytes it points to. Integers are
  32-bit words read as signed; floats are their IEEE-754 single bit patterns, compared as the hardware
  does (NaN is unordered, the two zeros are equal). The virtual dispatch through
  \<^verbatim>\<open>Type::GetInstance\<close> is a case distinction on the type id. Serialisers produce the bytes they write; deserialisers read memory.
  Heap ownership (\<^verbatim>\<open>manage_data_\<close>) is recorded, but deallocation is not modelled.
\<close>

section \<open>Data\<close>

datatype type_id = kTypeInvalid | kTypeInt | kTypeFloat | kTypeChar

datatype cmp_bool = kFalse | kTrue | kNull

datatype fval = IntVal u32 | FloatVal u32 | CharsVal "byte list" | NullChars

record field =
  field_value :: fval
  field_type :: type_id
  field_len :: u32
  field_is_null :: bool
  field_manage :: bool

definition GetCmpBool :: "bool \<Rightarrow> cmp_bool" where
  "GetCmpBool b = (if b then kTrue else kFalse)"

fun GetTypeSize :: "type_id \<Rightarrow> u32 res" where
  "GetTypeSize kTypeInt = Inr 4"
| "GetTypeSize kTypeFloat = Inr 4"
| "GetTypeSize kTypeChar = Inr 0"
| "GetTypeSize kTypeInvalid = Inl LogicError"

section \<open>Constructors\<close>

text \<open>The null constructor leaves the union unset; \<open>NullChars\<close> stands for that.\<close>

definition Field_null :: "type_id \<Rightarrow> field" where
  "Field_null t = \<lparr>field_value = NullChars, field_type = t, field_len = FIELD_NULL_LEN,
                   field_is_null = True, field_manage = False\<rparr>"

definition Field_int :: "type_id \<Rightarrow> u32 \<Rightarrow> field res" where
  "Field_int t i = res_bind (ASSERT (t = kTypeInt)) (\<lambda>_. res_bind (GetTypeSize t) (\<lambda>n.
     Inr \<lparr>field_value = IntVal i, field_type = t, field_len = n, field_is_null = False, field_manage = False\<rparr>))"

definition Field_float :: "type_id \<Rightarrow> u32 \<Rightarrow> field res" where
  "Field_float t x = res_bind (ASSERT (t = kTypeFloat)) (\<lambda>_. res_bind (GetTypeSize t) (\<lambda>n.
     Inr \<lparr>field_value = FloatVal x, field_type = t, field_len = n, field_is_null = False, field_manage = False\<rparr>))"

text \<open>
  The character constructor takes a pointer: \<open>None\<close> is null, \<open>Some bs\<close> the readable bytes. With
  \<open>manage\<close> it copies \<open>len\<close> of them, otherwise it keeps the pointer.
\<close>

definition Field_chars :: "type_id \<Rightarrow> byte list option \<Rightarrow> u32 \<Rightarrow> bool \<Rightarrow> field res" where
  "Field_chars t data len manage = res_bind (ASSERT (t = kTypeChar)) (\<lambda>_.
     case data of
       None \<Rightarrow> Inr \<lparr>field_value = NullChars, field_type = t, field_len = 0, field_is_null = True, field_manage = False\<rparr>
     | Some bs \<Rightarrow>
         if manage then
           res_bind (ASSERT (unat len < VARCHAR_MAX_LEN)) (\<lambda>_.
             Inr \<lparr>field_value = CharsVal (take (unat len) bs), field_type = t, field_len = len,
                  field_is_null = False, field_manage = True\<rparr>)
         else Inr \<lparr>field_value = CharsVal bs, field_type = t, field_len = len, field_is_null = False, field_manage = False\<rparr>)"

definition Field_copy :: "field \<Rightarrow> field" where
  "Field_copy other =
     other\<lparr>field_value := (if field_type other = kTypeChar \<and> \<not> field_is_null other \<and> field_manage other
                          then (case field_value other of CharsVal bs \<Rightarrow> CharsVal (take (unat (field_len other)) bs) | v \<Rightarrow> v)
                          else field_value other)\<rparr>"

text \<open>\<^verbatim>\<open>Swap\<close>, and the assignment operator, which swaps its two operands.\<close>

definition Field_Swap :: "field \<Rightarrow> field \<Rightarrow> field \<times> field" where
  "Field_Swap first second = (second, first)"

definition Field_assign :: "field \<Rightarrow> field \<Rightarrow> field \<times> field" where
  "Field_assign this other = Field_Swap this other"

section \<open>Access to the union\<close>

fun int_bits :: "fval \<Rightarrow> u32" where
  "int_bits (IntVal i) = i"
| "int_bits (FloatVal x) = x"
| "int_bits _ = 0"

fun chars_of :: "fval \<Rightarrow> byte list option" where
  "chars_of (CharsVal bs) = Some bs"
| "chars_of _ = None"

text \<open>The methods of the base class \<^verbatim>\<open>Type\<close>, which are not implemented.\<close>

definition Type_GetLength :: "field \<Rightarrow> u32 res" where [simp]:
  "Type_GetLength f = Inl AssertFailed"

definition Type_GetData :: "field \<Rightarrow> byte list option res" where [simp]:
  "Type_GetData f = Inl AssertFailed"

definition Type_SerializeTo :: "field \<Rightarrow> byte list res" where [simp]:
  "Type_SerializeTo f = Inl AssertFailed"

definition Type_DeserializeFrom :: "mem \<Rightarrow> nat \<Rightarrow> bool \<Rightarrow> (field \<times> u32) res" where [simp]:
  "Type_DeserializeFrom m a is_null = Inl AssertFailed"

definition Type_GetSerializedSize :: "field \<Rightarrow> bool \<Rightarrow> u32 res" where [simp]:
  "Type_GetSerializedSize f is_null = Inl AssertFailed"

definition Type_CompareEquals :: "field \<Rightarrow> field \<Rightarrow> cmp_bool res" where [simp]:
  "Type_CompareEquals l r = Inl AssertFailed"

definition Type_CompareNotEquals :: "field \<Rightarrow> field \<Rightarrow> cmp_bool res" where [simp]:
  "Type_CompareNotEquals l r = Inl AssertFailed"

definition Type_CompareLessThan :: "field \<Rightarrow> field \<Rightarrow> cmp_bool res" where [simp]:
  "Type_CompareLessThan l r = Inl AssertFailed"

definition Type_CompareLessThanEquals :: "field \<Rightarrow> field \<Rightarrow> cmp_bool res" where [simp]:
  "Type_CompareLessThanEquals l r = Inl AssertFailed"

definition Type_CompareGreaterThan :: "field \<Rightarrow> field \<Rightarrow> cmp_bool res" where [simp]:
  "Type_CompareGreaterThan l r = Inl AssertFailed"

definition Type_CompareGreaterThanEquals :: "field \<Rightarrow> field \<Rightarrow> cmp_bool res" where [simp]:
  "Type_CompareGreaterThanEquals l r = Inl AssertFailed"

definition TypeChar_GetLength :: "field \<Rightarrow> u32 res" where [simp]:
  "TypeChar_GetLength f = Inr (field_len f)"

definition TypeChar_GetData :: "field \<Rightarrow> byte list option res" where [simp]:
  "TypeChar_GetData f = Inr (chars_of (field_value f))"

fun Field_GetLength :: "field \<Rightarrow> u32 res" where
  "Field_GetLength f = (if field_type f = kTypeChar then TypeChar_GetLength f else Type_GetLength f)"

fun Field_GetData :: "field \<Rightarrow> byte list option res" where
  "Field_GetData f = (if field_type f = kTypeChar then TypeChar_GetData f else Type_GetData f)"

section \<open>Comparisons\<close>

text \<open>IEEE-754 single precision: NaN, and the signed magnitude that orders all other values.\<close>

definition f32_nan :: "u32 \<Rightarrow> bool" where
  "f32_nan w \<longleftrightarrow> unat (w AND 0x7FFFFFFF) > 0x7F800000"

definition f32_key :: "u32 \<Rightarrow> int" where
  "f32_key w = (if bit w 31 then - int (unat (w AND 0x7FFFFFFF)) else int (unat (w AND 0x7FFFFFFF)))"

definition f32_eq :: "u32 \<Rightarrow> u32 \<Rightarrow> bool" where
  "f32_eq x y \<longleftrightarrow> \<not> f32_nan x \<and> \<not> f32_nan y \<and> f32_key x = f32_key y"

definition f32_less :: "u32 \<Rightarrow> u32 \<Rightarrow> bool" where
  "f32_less x y \<longleftrightarrow> \<not> f32_nan x \<and> \<not> f32_nan y \<and> f32_key x < f32_key y"

text \<open>\<^verbatim>\<open>memcmp\<close>: only the sign of its result is specified; here it is the first difference.\<close>

fun memcmp :: "byte list \<Rightarrow> byte list \<Rightarrow> nat \<Rightarrow> int" where
  "memcmp (x # xs) (y # ys) (Suc n) = (if x = y then memcmp xs ys n else uint x - uint y)"
| "memcmp _ _ _ = 0"

definition CompareStrings :: "byte list option \<Rightarrow> int \<Rightarrow> byte list option \<Rightarrow> int \<Rightarrow> int res" where
  "CompareStrings str1 len1 str2 len2 =
     (case (str1, str2) of
        (Some s1, Some s2) \<Rightarrow>
          if len1 \<ge> 0 \<and> len2 \<ge> 0 then
            let ret = memcmp s1 s2 (nat (min len1 len2)) in
            Inr (if ret = 0 \<and> len1 \<noteq> len2 then len1 - len2 else ret)
          else Inl AssertFailed
      | _ \<Rightarrow> Inl AssertFailed)"

text \<open>The shape all comparisons share: comparable types, null operands, then the test.\<close>

definition compare_with :: "(field \<Rightarrow> field \<Rightarrow> bool res) \<Rightarrow> field \<Rightarrow> field \<Rightarrow> cmp_bool res" where
  "compare_with test l r =
     res_bind (ASSERT (field_type l = field_type r)) (\<lambda>_.
       if field_is_null l \<or> field_is_null r then Inr kNull
       else res_bind (test l r) (\<lambda>b. Inr (GetCmpBool b)))"

definition int_test :: "(int \<Rightarrow> int \<Rightarrow> bool) \<Rightarrow> field \<Rightarrow> field \<Rightarrow> bool res" where
  "int_test rel l r = Inr (rel (sint (int_bits (field_value l))) (sint (int_bits (field_value r))))"

definition float_test :: "(u32 \<Rightarrow> u32 \<Rightarrow> bool) \<Rightarrow> field \<Rightarrow> field \<Rightarrow> bool res" where
  "float_test rel l r = Inr (rel (int_bits (field_value l)) (int_bits (field_value r)))"

definition char_test :: "(int \<Rightarrow> bool) \<Rightarrow> field \<Rightarrow> field \<Rightarrow> bool res" where
  "char_test rel l r =
     res_bind (Field_GetData l) (\<lambda>d1. res_bind (Field_GetLength l) (\<lambda>n1.
     res_bind (Field_GetData r) (\<lambda>d2. res_bind (Field_GetLength r) (\<lambda>n2.
     res_bind (CompareStrings d1 (sint n1) d2 (sint n2)) (\<lambda>c. Inr (rel c))))))"

definition TypeInt_CompareEquals :: "field \<Rightarrow> field \<Rightarrow> cmp_bool res" where
  "TypeInt_CompareEquals = compare_with (int_test (=))"

definition TypeInt_CompareNotEquals :: "field \<Rightarrow> field \<Rightarrow> cmp_bool res" where
  "TypeInt_CompareNotEquals = compare_with (int_test (\<noteq>))"

definition TypeInt_CompareLessThan :: "field \<Rightarrow> field \<Rightarrow> cmp_bool res" where
  "TypeInt_CompareLessThan = compare_with (int_test (<))"

definition TypeInt_CompareLessThanEquals :: "field \<Rightarrow> field \<Rightarrow> cmp_bool res" where
  "TypeInt_CompareLessThanEquals = compare_with (int_test (\<le>))"

definition TypeInt_CompareGreaterThan :: "field \<Rightarrow> field \<Rightarrow> cmp_bool res" where
  "TypeInt_CompareGreaterThan = compare_with (int_test (>))"

definition TypeInt_CompareGreaterThanEquals :: "field \<Rightarrow> field \<Rightarrow> cmp_bool res" where
  "TypeInt_CompareGreaterThanEquals = compare_with (int_test (\<ge>))"

definition TypeFloat_CompareEquals :: "field \<Rightarrow> field \<Rightarrow> cmp_bool res" where
  "TypeFloat_CompareEquals = compare_with (float_test f32_eq)"

definition TypeFloat_CompareNotEquals :: "field \<Rightarrow> field \<Rightarrow> cmp_bool res" where
  "TypeFloat_CompareNotEquals = compare_with (float_test (\<lambda>x y. \<not> f32_eq x y))"

definition TypeFloat_CompareLessThan :: "field \<Rightarrow> field \<Rightarrow> cmp_bool res" where
  "TypeFloat_CompareLessThan = compare_with (float_test f32_less)"

definition TypeFloat_CompareLessThanEquals :: "field \<Rightarrow> field \<Rightarrow> cmp_bool res" where
  "TypeFloat_CompareLessThanEquals = compare_with (float_test (\<lambda>x y. f32_less x y \<or> f32_eq x y))"

definition TypeFloat_CompareGreaterThan :: "field \<Rightarrow> field \<Rightarrow> cmp_bool res" where
  "TypeFloat_CompareGreaterThan = compare_with (float_test (\<lambda>x y. f32_less y x))"

definition TypeFloat_CompareGreaterThanEquals :: "field \<Rightarrow> field \<Rightarrow> cmp_bool res" where
  "TypeFloat_CompareGreaterThanEquals = compare_with (float_test (\<lambda>x y. f32_less y x \<or> f32_eq x y))"

definition TypeChar_CompareEquals :: "field \<Rightarrow> field \<Rightarrow> cmp_bool res" where
  "TypeChar_CompareEquals = compare_with (char_test (\<lambda>c. c = 0))"

definition TypeChar_CompareNotEquals :: "field \<Rightarrow> field \<Rightarrow> cmp_bool res" where
  "TypeChar_CompareNotEquals = compare_with (char_test (\<lambda>c. c \<noteq> 0))"

definition TypeChar_CompareLessThan :: "field \<Rightarrow> field \<Rightarrow> cmp_bool res" where
  "TypeChar_CompareLessThan = compare_with (char_test (\<lambda>c. c < 0))"

definition TypeChar_CompareLessThanEquals :: "field \<Rightarrow> field \<Rightarrow> cmp_bool res" where
  "TypeChar_CompareLessThanEquals = compare_with (char_test (\<lambda>c. c \<le> 0))"

definition TypeChar_CompareGreaterThan :: "field \<Rightarrow> field \<Rightarrow> cmp_bool res" where
  "TypeChar_CompareGreaterThan = compare_with (char_test (\<lambda>c. c > 0))"

definition TypeChar_CompareGreaterThanEquals :: "field \<Rightarrow> field \<Rightarrow> cmp_bool res" where
  "TypeChar_CompareGreaterThanEquals = compare_with (char_test (\<lambda>c. c \<ge> 0))"

text \<open>Dispatch on the type of the left operand.\<close>

fun Field_CompareEquals :: "field \<Rightarrow> field \<Rightarrow> cmp_bool res" where
  "Field_CompareEquals l r = (case field_type l of
     kTypeInt \<Rightarrow> TypeInt_CompareEquals l r | kTypeFloat \<Rightarrow> TypeFloat_CompareEquals l r
   | kTypeChar \<Rightarrow> TypeChar_CompareEquals l r | kTypeInvalid \<Rightarrow> Type_CompareEquals l r)"

fun Field_CompareNotEquals :: "field \<Rightarrow> field \<Rightarrow> cmp_bool res" where
  "Field_CompareNotEquals l r = (case field_type l of
     kTypeInt \<Rightarrow> TypeInt_CompareNotEquals l r | kTypeFloat \<Rightarrow> TypeFloat_CompareNotEquals l r
   | kTypeChar \<Rightarrow> TypeChar_CompareNotEquals l r | kTypeInvalid \<Rightarrow> Type_CompareNotEquals l r)"

fun Field_CompareLessThan :: "field \<Rightarrow> field \<Rightarrow> cmp_bool res" where
  "Field_CompareLessThan l r = (case field_type l of
     kTypeInt \<Rightarrow> TypeInt_CompareLessThan l r | kTypeFloat \<Rightarrow> TypeFloat_CompareLessThan l r
   | kTypeChar \<Rightarrow> TypeChar_CompareLessThan l r | kTypeInvalid \<Rightarrow> Type_CompareLessThan l r)"

fun Field_CompareLessThanEquals :: "field \<Rightarrow> field \<Rightarrow> cmp_bool res" where
  "Field_CompareLessThanEquals l r = (case field_type l of
     kTypeInt \<Rightarrow> TypeInt_CompareLessThanEquals l r | kTypeFloat \<Rightarrow> TypeFloat_CompareLessThanEquals l r
   | kTypeChar \<Rightarrow> TypeChar_CompareLessThanEquals l r | kTypeInvalid \<Rightarrow> Type_CompareLessThanEquals l r)"

fun Field_CompareGreaterThan :: "field \<Rightarrow> field \<Rightarrow> cmp_bool res" where
  "Field_CompareGreaterThan l r = (case field_type l of
     kTypeInt \<Rightarrow> TypeInt_CompareGreaterThan l r | kTypeFloat \<Rightarrow> TypeFloat_CompareGreaterThan l r
   | kTypeChar \<Rightarrow> TypeChar_CompareGreaterThan l r | kTypeInvalid \<Rightarrow> Type_CompareGreaterThan l r)"

fun Field_CompareGreaterThanEquals :: "field \<Rightarrow> field \<Rightarrow> cmp_bool res" where
  "Field_CompareGreaterThanEquals l r = (case field_type l of
     kTypeInt \<Rightarrow> TypeInt_CompareGreaterThanEquals l r | kTypeFloat \<Rightarrow> TypeFloat_CompareGreaterThanEquals l r
   | kTypeChar \<Rightarrow> TypeChar_CompareGreaterThanEquals l r | kTypeInvalid \<Rightarrow> Type_CompareGreaterThanEquals l r)"

section \<open>Serialisation\<close>

definition TypeInt_SerializeTo :: "field \<Rightarrow> byte list" where
  "TypeInt_SerializeTo f = (if \<not> field_is_null f then enc32 (int_bits (field_value f)) else [])"

definition TypeFloat_SerializeTo :: "field \<Rightarrow> byte list" where
  "TypeFloat_SerializeTo f = (if \<not> field_is_null f then enc32 (int_bits (field_value f)) else [])"

definition TypeChar_SerializeTo :: "field \<Rightarrow> byte list res" where
  "TypeChar_SerializeTo f =
     (if \<not> field_is_null f then
        (case chars_of (field_value f) of
           None \<Rightarrow> Inl NullDeref
         | Some bs \<Rightarrow> Inr (enc32 (field_len f) @ take (unat (field_len f)) bs))
      else Inr [])"

fun Field_SerializeTo :: "field \<Rightarrow> byte list res" where
  "Field_SerializeTo f = (case field_type f of
     kTypeInt \<Rightarrow> Inr (TypeInt_SerializeTo f) | kTypeFloat \<Rightarrow> Inr (TypeFloat_SerializeTo f)
   | kTypeChar \<Rightarrow> TypeChar_SerializeTo f | kTypeInvalid \<Rightarrow> Type_SerializeTo f)"

definition TypeInt_DeserializeFrom :: "mem \<Rightarrow> nat \<Rightarrow> bool \<Rightarrow> (field \<times> u32) res" where
  "TypeInt_DeserializeFrom m a is_null =
     (if is_null then Inr (Field_null kTypeInt, 0)
      else res_bind (Field_int kTypeInt (rd32 m a)) (\<lambda>f. Inr (f, 4)))"

definition TypeFloat_DeserializeFrom :: "mem \<Rightarrow> nat \<Rightarrow> bool \<Rightarrow> (field \<times> u32) res" where
  "TypeFloat_DeserializeFrom m a is_null =
     (if is_null then Inr (Field_null kTypeFloat, 0)
      else res_bind (Field_float kTypeFloat (rd32 m a)) (\<lambda>f. Inr (f, 4)))"

definition TypeChar_DeserializeFrom :: "mem \<Rightarrow> nat \<Rightarrow> bool \<Rightarrow> (field \<times> u32) res" where
  "TypeChar_DeserializeFrom m a is_null =
     (if is_null then Inr (Field_null kTypeChar, 0)
      else let len = rd32 m a in
           res_bind (Field_chars kTypeChar (Some (peek m (a + 4) (unat len))) len True) (\<lambda>f. Inr (f, len + 4)))"

fun Field_DeserializeFrom :: "mem \<Rightarrow> nat \<Rightarrow> type_id \<Rightarrow> bool \<Rightarrow> (field \<times> u32) res" where
  "Field_DeserializeFrom m a kTypeInt is_null = TypeInt_DeserializeFrom m a is_null"
| "Field_DeserializeFrom m a kTypeFloat is_null = TypeFloat_DeserializeFrom m a is_null"
| "Field_DeserializeFrom m a kTypeChar is_null = TypeChar_DeserializeFrom m a is_null"
| "Field_DeserializeFrom m a kTypeInvalid is_null = Type_DeserializeFrom m a is_null"

definition TypeInt_GetSerializedSize :: "field \<Rightarrow> bool \<Rightarrow> u32" where
  "TypeInt_GetSerializedSize f is_null = (if is_null then 0 else 4)"

definition TypeFloat_GetSerializedSize :: "field \<Rightarrow> bool \<Rightarrow> u32" where
  "TypeFloat_GetSerializedSize f is_null = (if is_null then 0 else 4)"

definition TypeChar_GetSerializedSize :: "field \<Rightarrow> bool \<Rightarrow> u32" where
  "TypeChar_GetSerializedSize f is_null = (if is_null then 0 else field_len f + 4)"

fun Field_GetSerializedSize :: "field \<Rightarrow> u32 res" where
  "Field_GetSerializedSize f = (case field_type f of
     kTypeInt \<Rightarrow> Inr (TypeInt_GetSerializedSize f (field_is_null f))
   | kTypeFloat \<Rightarrow> Inr (TypeFloat_GetSerializedSize f (field_is_null f))
   | kTypeChar \<Rightarrow> Inr (TypeChar_GetSerializedSize f (field_is_null f))
   | kTypeInvalid \<Rightarrow> Type_GetSerializedSize f (field_is_null f))"

section \<open>Well-formed fields\<close>

definition field_ok :: "field \<Rightarrow> bool" where
  "field_ok f \<longleftrightarrow> field_type f \<noteq> kTypeInvalid \<and> (\<not> field_is_null f \<longrightarrow>
     (case field_value f of
        IntVal i \<Rightarrow> field_type f = kTypeInt \<and> field_len f = 4
      | FloatVal x \<Rightarrow> field_type f = kTypeFloat \<and> field_len f = 4
      | CharsVal bs \<Rightarrow> field_type f = kTypeChar \<and> length bs = unat (field_len f) \<and> length bs < VARCHAR_MAX_LEN
      | NullChars \<Rightarrow> False))"

lemma field_ok_cases:
  assumes "field_ok f"
  obtains (null) "field_is_null f" "field_type f \<noteq> kTypeInvalid"
    | (int) i where "\<not> field_is_null f" "field_type f = kTypeInt" "field_value f = IntVal i" "field_len f = 4"
    | (float) x where "\<not> field_is_null f" "field_type f = kTypeFloat" "field_value f = FloatVal x" "field_len f = 4"
    | (char) bs where "\<not> field_is_null f" "field_type f = kTypeChar" "field_value f = CharsVal bs"
        "length bs = unat (field_len f)" "unat (field_len f) < VARCHAR_MAX_LEN"
  using assms by (cases "field_value f"; cases "field_is_null f") (auto simp: field_ok_def)

lemma constructors_ok:
  "Field_int kTypeInt i = Inr f \<Longrightarrow> field_ok f"
  "Field_float kTypeFloat i = Inr f \<Longrightarrow> field_ok f"
  "Field_chars kTypeChar (Some bs) n True = Inr f \<Longrightarrow> unat n \<le> length bs \<Longrightarrow> field_ok f"
  by (auto simp: Field_int_def Field_float_def Field_chars_def field_ok_def res_simps)

text \<open>What a field looks like when it is read back: a null field is the one of the null constructor, and
  characters are owned by the field.\<close>

definition reread :: "field \<Rightarrow> field" where
  "reread f = (if field_is_null f then Field_null (field_type f)
               else f\<lparr>field_manage := (field_type f = kTypeChar)\<rparr>)"

lemma field_eqI:
  "field_value f = v \<Longrightarrow> field_type f = t \<Longrightarrow> field_len f = n \<Longrightarrow> \<not> field_is_null f \<Longrightarrow>
   f\<lparr>field_manage := b\<rparr> = \<lparr>field_value = v, field_type = t, field_len = n, field_is_null = False, field_manage = b\<rparr>"
  by (cases f) simp

lemma field_serialize_read:
  assumes ok: "field_ok f" and ser: "Field_SerializeTo f = Inr bs" and mem: "holds m a bs"
  shows "Field_DeserializeFrom m a (field_type f) (field_is_null f) = Inr (reread f, word_of_nat (length bs))"
  using ok
proof (cases rule: field_ok_cases)
  case null
  then show ?thesis using ser
    by (cases "field_type f")
      (auto simp: TypeInt_SerializeTo_def TypeFloat_SerializeTo_def TypeChar_SerializeTo_def TypeInt_DeserializeFrom_def
        TypeFloat_DeserializeFrom_def TypeChar_DeserializeFrom_def reread_def)
next
  case (int i)
  then have bs: "bs = enc32 i" using ser by (simp add: TypeInt_SerializeTo_def)
  with mem have "rd32 m a = i" by (simp add: mem_simps)
  with int bs show ?thesis
    by (simp add: TypeInt_DeserializeFrom_def Field_int_def reread_def field_eqI)
next
  case (float x)
  then have bs: "bs = enc32 x" using ser by (simp add: TypeFloat_SerializeTo_def)
  with mem have "rd32 m a = x" by (simp add: mem_simps)
  with float bs show ?thesis
    by (simp add: TypeFloat_DeserializeFrom_def Field_float_def reread_def field_eqI)
next
  case (char cs)
  then have bs: "bs = enc32 (field_len f) @ cs" using ser by (simp add: TypeChar_SerializeTo_def)
  have len: "rd32 m a = field_len f" using mem bs by (simp add: mem_simps)
  have "peek m (a + 4) (length cs) = cs" using mem bs by (simp add: mem_simps holds_peek)
  with char len bs show ?thesis
    by (simp add: TypeChar_DeserializeFrom_def Field_chars_def reread_def field_eqI Let_def add.commute)
qed

lemma field_serialized_size:
  assumes "field_ok f"
  shows "\<exists>bs. Field_SerializeTo f = Inr bs \<and> Field_GetSerializedSize f = Inr (word_of_nat (length bs)) \<and>
    length bs < VARCHAR_MAX_LEN + 4 \<and> (field_is_null f \<longrightarrow> bs = [])"
  using assms
proof (cases rule: field_ok_cases)
  case null
  then show ?thesis
    by (cases "field_type f") (simp_all add: TypeInt_SerializeTo_def TypeFloat_SerializeTo_def TypeChar_SerializeTo_def
        TypeInt_GetSerializedSize_def TypeFloat_GetSerializedSize_def TypeChar_GetSerializedSize_def)
qed (simp_all add: TypeInt_SerializeTo_def TypeFloat_SerializeTo_def TypeChar_SerializeTo_def
        TypeInt_GetSerializedSize_def TypeFloat_GetSerializedSize_def TypeChar_GetSerializedSize_def VARCHAR_MAX_LEN_def PAGE_SIZE_def)

section \<open>The order that the comparisons implement\<close>

datatype ordering = Less | Equal | Greater | Unordered

fun bytes_less :: "byte list \<Rightarrow> byte list \<Rightarrow> bool" where
  "bytes_less [] ys \<longleftrightarrow> ys \<noteq> []"
| "bytes_less (x # xs) [] \<longleftrightarrow> False"
| "bytes_less (x # xs) (y # ys) \<longleftrightarrow> uint x < uint y \<or> x = y \<and> bytes_less xs ys"

definition order_of :: "('a \<Rightarrow> 'a \<Rightarrow> bool) \<Rightarrow> ('a \<Rightarrow> 'a \<Rightarrow> bool) \<Rightarrow> 'a \<Rightarrow> 'a \<Rightarrow> ordering" where
  "order_of lt eq x y = (if lt x y then Less else if eq x y then Equal else if lt y x then Greater else Unordered)"

definition field_order :: "field \<Rightarrow> field \<Rightarrow> ordering" where
  "field_order l r = (case (field_value l, field_value r) of
     (IntVal i, IntVal j) \<Rightarrow> order_of (<) (=) (sint i) (sint j)
   | (FloatVal x, FloatVal y) \<Rightarrow> order_of f32_less f32_eq x y
   | (CharsVal xs, CharsVal ys) \<Rightarrow> order_of bytes_less (=) xs ys
   | _ \<Rightarrow> Unordered)"

lemma bytes_less_irrefl: "\<not> bytes_less xs xs"
  by (induction xs) auto

lemma bytes_less_trans: "bytes_less xs ys \<Longrightarrow> bytes_less ys zs \<Longrightarrow> bytes_less xs zs"
proof (induction xs ys arbitrary: zs rule: bytes_less.induct)
  case (1 ys)
  then show ?case by (cases ys; cases zs) auto
next
  case (2 x xs)
  then show ?case by simp
next
  case (3 x xs y ys)
  then show ?case by (cases zs) auto
qed

lemma bytes_less_total: "bytes_less xs ys \<or> xs = ys \<or> bytes_less ys xs"
proof (induction xs ys rule: bytes_less.induct)
  case (3 x xs y ys)
  then show ?case using word_uint_eq_iff [of x y] by auto
next
  case (1 ys)
  then show ?case by (cases ys) auto
qed simp

lemma memcmp_sign:
  "(memcmp xs ys (min (length xs) (length ys)) < 0 \<or>
     memcmp xs ys (min (length xs) (length ys)) = 0 \<and> length xs < length ys) \<longleftrightarrow> bytes_less xs ys"
  "memcmp xs ys (min (length xs) (length ys)) = 0 \<and> length xs = length ys \<longleftrightarrow> xs = ys"
proof (induction xs ys rule: bytes_less.induct)
  case (3 x xs y ys)
  {
    case 1
    then show ?case using "3" word_uint_eq_iff [of x y] by auto
  next
    case 2
    then show ?case using "3" word_uint_eq_iff [of x y] by auto
  }
qed auto

lemma CompareStrings_spec:
  fixes n1 n2 :: int
  assumes "n1 = int (length xs)" and "n2 = int (length ys)"
  obtains c where "CompareStrings (Some xs) n1 (Some ys) n2 = Inr c"
    and "c < 0 \<longleftrightarrow> bytes_less xs ys" and "c = 0 \<longleftrightarrow> xs = ys" and "0 < c \<longleftrightarrow> bytes_less ys xs"
proof -
  let ?m = "memcmp xs ys (min (length xs) (length ys))"
  define c where "c = (if ?m = 0 \<and> n1 \<noteq> n2 then n1 - n2 else ?m)"
  have m: "nat (min n1 n2) = min (length xs) (length ys)" using assms by simp
  have "CompareStrings (Some xs) n1 (Some ys) n2 = Inr c"
    using assms unfolding CompareStrings_def c_def m Let_def by simp
  moreover have L: "c < 0 \<longleftrightarrow> bytes_less xs ys" and E: "c = 0 \<longleftrightarrow> xs = ys"
    using memcmp_sign [of xs ys] assms by (auto simp: c_def)
  moreover have "0 < c \<longleftrightarrow> bytes_less ys xs"
    using L E bytes_less_total [of xs ys] bytes_less_trans bytes_less_irrefl by (metis linorder_neqE_linordered_idom not_less_iff_gr_or_eq)
  ultimately show ?thesis using that by blast
qed

lemmas compare_defs =
  TypeInt_CompareEquals_def TypeInt_CompareNotEquals_def TypeInt_CompareLessThan_def
  TypeInt_CompareLessThanEquals_def TypeInt_CompareGreaterThan_def TypeInt_CompareGreaterThanEquals_def
  TypeFloat_CompareEquals_def TypeFloat_CompareNotEquals_def TypeFloat_CompareLessThan_def
  TypeFloat_CompareLessThanEquals_def TypeFloat_CompareGreaterThan_def TypeFloat_CompareGreaterThanEquals_def
  TypeChar_CompareEquals_def TypeChar_CompareNotEquals_def TypeChar_CompareLessThan_def
  TypeChar_CompareLessThanEquals_def TypeChar_CompareGreaterThan_def TypeChar_CompareGreaterThanEquals_def

lemmas order_defs = field_order_def order_of_def

lemma char_test_spec:
  assumes "field_type l = kTypeChar" "field_value l = CharsVal xs" "length xs = unat (field_len l)" "unat (field_len l) < VARCHAR_MAX_LEN"
    and "field_type r = kTypeChar" "field_value r = CharsVal ys" "length ys = unat (field_len r)" "unat (field_len r) < VARCHAR_MAX_LEN"
  obtains c where "\<And>rel. char_test rel l r = Inr (rel c)"
    and "c < 0 \<longleftrightarrow> field_order l r = Less" and "c = 0 \<longleftrightarrow> field_order l r = Equal" and "c > 0 \<longleftrightarrow> field_order l r = Greater"
proof -
  have n: "sint (field_len l) = int (length xs)" "sint (field_len r) = int (length ys)"
    using assms by (simp_all add: sint_u32_small VARCHAR_MAX_LEN_def PAGE_SIZE_def)
  obtain c where C: "CompareStrings (Some xs) (sint (field_len l)) (Some ys) (sint (field_len r)) = Inr c"
    "c < 0 \<longleftrightarrow> bytes_less xs ys" "c = 0 \<longleftrightarrow> xs = ys" "0 < c \<longleftrightarrow> bytes_less ys xs"
    using CompareStrings_spec [OF n] by blast
  show ?thesis
  proof (rule that [of c])
    show "char_test rel l r = Inr (rel c)" for rel using assms C(1) by (simp add: char_test_def)
  qed (use assms C(2-4) in \<open>auto simp: order_defs\<close>)
qed

text \<open>The six comparisons of two non-null fields of the same type, in terms of their order.\<close>

lemma compare_by_order:
  assumes "field_ok l" and "field_ok r" and "field_type l = field_type r" and "\<not> field_is_null l" "\<not> field_is_null r"
  shows "Field_CompareEquals l r = Inr (GetCmpBool (field_order l r = Equal))"
    and "Field_CompareNotEquals l r = Inr (GetCmpBool (field_order l r \<noteq> Equal))"
    and "Field_CompareLessThan l r = Inr (GetCmpBool (field_order l r = Less))"
    and "Field_CompareLessThanEquals l r = Inr (GetCmpBool (field_order l r \<in> {Less, Equal}))"
    and "Field_CompareGreaterThan l r = Inr (GetCmpBool (field_order l r = Greater))"
    and "Field_CompareGreaterThanEquals l r = Inr (GetCmpBool (field_order l r \<in> {Greater, Equal}))"
proof -
  let ?o = "field_order l r"
  have "Field_CompareEquals l r = Inr (GetCmpBool (?o = Equal)) \<and>
    Field_CompareNotEquals l r = Inr (GetCmpBool (?o \<noteq> Equal)) \<and>
    Field_CompareLessThan l r = Inr (GetCmpBool (?o = Less)) \<and>
    Field_CompareLessThanEquals l r = Inr (GetCmpBool (?o \<in> {Less, Equal})) \<and>
    Field_CompareGreaterThan l r = Inr (GetCmpBool (?o = Greater)) \<and>
    Field_CompareGreaterThanEquals l r = Inr (GetCmpBool (?o \<in> {Greater, Equal}))"
    using assms(1)
  proof (cases rule: field_ok_cases)
    case null
    with assms show ?thesis by simp
  next
    case (int i)
    from assms(2) int assms(3,5) obtain j where "field_value r = IntVal j" by (cases rule: field_ok_cases) auto
    with int assms show ?thesis
      by (auto simp: compare_defs compare_with_def int_test_def order_defs GetCmpBool_def)
  next
    case (float x)
    from assms(2) float assms(3,5) obtain y where "field_value r = FloatVal y" by (cases rule: field_ok_cases) auto
    with float assms show ?thesis
      by (auto simp: compare_defs compare_with_def float_test_def order_defs GetCmpBool_def f32_less_def f32_eq_def)
  next
    case (char xs)
    from assms(2) char assms(3,5) obtain ys where "field_value r = CharsVal ys" "length ys = unat (field_len r)"
      "unat (field_len r) < VARCHAR_MAX_LEN" by (cases rule: field_ok_cases) auto
    with char_test_spec [OF char(2-5), of r ys] assms(3) char(2) obtain c where
      C: "\<And>rel. char_test rel l r = Inr (rel c)" "c < 0 \<longleftrightarrow> ?o = Less" "c = 0 \<longleftrightarrow> ?o = Equal" "c > 0 \<longleftrightarrow> ?o = Greater"
      by metis
    have "c \<le> 0 \<longleftrightarrow> ?o = Less \<or> ?o = Equal" "c \<ge> 0 \<longleftrightarrow> ?o = Greater \<or> ?o = Equal" using C(2-4) by auto
    with C char(2) assms(3-5) show ?thesis
      by (simp add: compare_defs compare_with_def)
  qed
  then show "Field_CompareEquals l r = Inr (GetCmpBool (?o = Equal))"
    and "Field_CompareNotEquals l r = Inr (GetCmpBool (?o \<noteq> Equal))"
    and "Field_CompareLessThan l r = Inr (GetCmpBool (?o = Less))"
    and "Field_CompareLessThanEquals l r = Inr (GetCmpBool (?o \<in> {Less, Equal}))"
    and "Field_CompareGreaterThan l r = Inr (GetCmpBool (?o = Greater))"
    and "Field_CompareGreaterThanEquals l r = Inr (GetCmpBool (?o \<in> {Greater, Equal}))" by blast+
qed

lemma field_order_swap:
  "field_order r l = (case field_order l r of Less \<Rightarrow> Greater | Greater \<Rightarrow> Less | x \<Rightarrow> x)"
  by (cases "field_value l"; cases "field_value r")
    (auto simp: order_defs f32_less_def f32_eq_def bytes_less_irrefl dest: bytes_less_trans)

lemma order_of_Less: "order_of lt eq x y = Less \<longleftrightarrow> lt x y"
  by (simp add: order_of_def)

lemma order_of_Equal: "order_of lt eq x y = Equal \<longleftrightarrow> \<not> lt x y \<and> eq x y"
  by (simp add: order_of_def)

lemma field_order_trans: "field_order a b = Less \<Longrightarrow> field_order b c = Less \<Longrightarrow> field_order a c = Less"
  by (cases "field_value a"; cases "field_value b"; cases "field_value c")
    (auto simp: field_order_def order_of_Less f32_less_def intro: bytes_less_trans)

text \<open>The order is total up to NaN, and less or equal is transitive, strictly if one of the steps is.\<close>

definition field_nan :: "field \<Rightarrow> bool" where
  "field_nan f \<longleftrightarrow> (case field_value f of FloatVal x \<Rightarrow> f32_nan x | _ \<Rightarrow> False)"

lemma field_order_le_trans:
  assumes "field_order a b \<in> {Less, Equal}" "field_order b c \<in> {Less, Equal}"
  shows "field_order a c = (if field_order a b = Less \<or> field_order b c = Less then Less else Equal)"
  using assms
proof (cases "field_order a b = Less \<and> field_order b c = Less")
  case True
  then show ?thesis using field_order_trans [of a b c] by simp
next
  case False
  then show ?thesis using assms
    by (cases "field_value a"; cases "field_value b"; cases "field_value c")
      (auto simp: field_order_def order_of_Less order_of_Equal f32_less_def f32_eq_def)
qed

lemma field_order_unordered:
  assumes "field_ok a" "field_ok b" "field_type a = field_type b" "\<not> field_is_null a" "\<not> field_is_null b"
  shows "field_order a b = Unordered \<longleftrightarrow> field_nan a \<or> field_nan b"
  using assms(1)
proof (cases rule: field_ok_cases)
  case (char xs)
  from assms(2) char assms(3-5) obtain ys where "field_value b = CharsVal ys" by (cases rule: field_ok_cases) auto
  with char(3) bytes_less_total [of xs ys] show ?thesis by (auto simp: order_defs field_nan_def split: if_splits)
next
  case (int i)
  from assms(2) int assms(3-5) obtain j where "field_value b = IntVal j" by (cases rule: field_ok_cases) auto
  with int(3) show ?thesis by (auto simp: order_defs field_nan_def split: if_splits)
next
  case (float x)
  from assms(2) float assms(3-5) obtain y where "field_value b = FloatVal y" by (cases rule: field_ok_cases) auto
  with float(3) show ?thesis by (auto simp: order_defs field_nan_def f32_less_def f32_eq_def split: if_splits)
qed (use assms in auto)

section \<open>Properties\<close>

text \<open>
  C12. Comparison of fields: for two fields of different types all six comparisons fail the assertion; with a
  null operand all six give \<^verbatim>\<open>kNull\<close>; otherwise all six are read off one order (signed integers, IEEE floats,
  bytewise lexicographic strings), in which swapping the operands swaps less and greater. The order is a total
  preorder: two fields are unordered exactly if one of them is NaN, a field other than NaN equals itself, and
  less or equal is transitive, strictly if one of the steps is.
\<close>

theorem field_comparisons_form_an_order:
  assumes "field_ok a" and "field_ok b" and "field_ok c"
  shows "(field_type a \<noteq> field_type b \<longrightarrow>
        Field_CompareEquals a b = Inl AssertFailed \<and> Field_CompareNotEquals a b = Inl AssertFailed \<and>
        Field_CompareLessThan a b = Inl AssertFailed \<and> Field_CompareLessThanEquals a b = Inl AssertFailed \<and>
        Field_CompareGreaterThan a b = Inl AssertFailed \<and> Field_CompareGreaterThanEquals a b = Inl AssertFailed)
    \<and> (field_type a = field_type b \<and> (field_is_null a \<or> field_is_null b) \<longrightarrow>
        Field_CompareEquals a b = Inr kNull \<and> Field_CompareNotEquals a b = Inr kNull \<and> Field_CompareLessThan a b = Inr kNull \<and>
        Field_CompareLessThanEquals a b = Inr kNull \<and> Field_CompareGreaterThan a b = Inr kNull \<and>
        Field_CompareGreaterThanEquals a b = Inr kNull)
    \<and> (field_type a = field_type b \<and> \<not> field_is_null a \<and> \<not> field_is_null b \<longrightarrow>
        Field_CompareEquals a b = Inr (GetCmpBool (field_order a b = Equal)) \<and>
        Field_CompareNotEquals a b = Inr (GetCmpBool (field_order a b \<noteq> Equal)) \<and>
        Field_CompareLessThan a b = Inr (GetCmpBool (field_order a b = Less)) \<and>
        Field_CompareLessThanEquals a b = Inr (GetCmpBool (field_order a b \<in> {Less, Equal})) \<and>
        Field_CompareGreaterThan a b = Inr (GetCmpBool (field_order b a = Less)) \<and>
        Field_CompareGreaterThanEquals a b = Inr (GetCmpBool (field_order b a \<in> {Less, Equal})) \<and>
        (field_order a b = Unordered \<longleftrightarrow> field_nan a \<or> field_nan b) \<and> (\<not> field_nan a \<longrightarrow> field_order a a = Equal))
    \<and> field_order b a = (case field_order a b of Less \<Rightarrow> Greater | Greater \<Rightarrow> Less | x \<Rightarrow> x)
    \<and> (field_order a b \<in> {Less, Equal} \<and> field_order b c \<in> {Less, Equal} \<longrightarrow>
        field_order a c = (if field_order a b = Less \<or> field_order b c = Less then Less else Equal))"
proof -
  have t: "field_type a \<noteq> kTypeInvalid" using assms(1) by (simp add: field_ok_def)
  have D: "field_type a \<noteq> field_type b \<longrightarrow>
        Field_CompareEquals a b = Inl AssertFailed \<and> Field_CompareNotEquals a b = Inl AssertFailed \<and>
        Field_CompareLessThan a b = Inl AssertFailed \<and> Field_CompareLessThanEquals a b = Inl AssertFailed \<and>
        Field_CompareGreaterThan a b = Inl AssertFailed \<and> Field_CompareGreaterThanEquals a b = Inl AssertFailed"
    using t by (cases "field_type a") (simp_all add: compare_defs compare_with_def)
  have N: "field_type a = field_type b \<and> (field_is_null a \<or> field_is_null b) \<longrightarrow>
        Field_CompareEquals a b = Inr kNull \<and> Field_CompareNotEquals a b = Inr kNull \<and> Field_CompareLessThan a b = Inr kNull \<and>
        Field_CompareLessThanEquals a b = Inr kNull \<and> Field_CompareGreaterThan a b = Inr kNull \<and>
        Field_CompareGreaterThanEquals a b = Inr kNull"
    using t by (cases "field_type a") (simp_all add: compare_defs compare_with_def)
  have S: "field_order a b = Greater \<longleftrightarrow> field_order b a = Less" "field_order a b \<in> {Greater, Equal} \<longleftrightarrow> field_order b a \<in> {Less, Equal}"
    by (auto simp: field_order_swap [of b a] split: ordering.splits)
  have R: "field_order a a = Equal" if "field_order a a \<noteq> Unordered"
    using that field_order_swap [of a a] by (cases "field_order a a") auto
  have O: "field_type a = field_type b \<and> \<not> field_is_null a \<and> \<not> field_is_null b \<longrightarrow>
        Field_CompareEquals a b = Inr (GetCmpBool (field_order a b = Equal)) \<and>
        Field_CompareNotEquals a b = Inr (GetCmpBool (field_order a b \<noteq> Equal)) \<and>
        Field_CompareLessThan a b = Inr (GetCmpBool (field_order a b = Less)) \<and>
        Field_CompareLessThanEquals a b = Inr (GetCmpBool (field_order a b \<in> {Less, Equal})) \<and>
        Field_CompareGreaterThan a b = Inr (GetCmpBool (field_order b a = Less)) \<and>
        Field_CompareGreaterThanEquals a b = Inr (GetCmpBool (field_order b a \<in> {Less, Equal})) \<and>
        (field_order a b = Unordered \<longleftrightarrow> field_nan a \<or> field_nan b) \<and> (\<not> field_nan a \<longrightarrow> field_order a a = Equal)"
    using compare_by_order [OF assms(1,2)] field_order_unordered [OF assms(1,2)] field_order_unordered [OF assms(1,1)] R unfolding S by blast
  show ?thesis using D N O field_order_swap [of b a] field_order_le_trans [of a b c] by blast
qed

theorem field_comparisons_form_an_order_witness:
  "\<exists>a b c. Field_int kTypeInt (-5) = Inr a \<and> Field_int kTypeInt 3 = Inr b \<and> Field_int kTypeInt 7 = Inr c \<and>
     Field_CompareLessThan a b = Inr kTrue \<and> Field_CompareGreaterThan c b = Inr kTrue"
proof -
  obtain a b c where F: "Field_int kTypeInt (-5) = Inr a" "Field_int kTypeInt 3 = Inr b" "Field_int kTypeInt 7 = Inr c"
    by (simp add: Field_int_def)
  note ok = F [THEN constructors_ok(1)]
  have "field_type a = kTypeInt" "field_type b = kTypeInt" "field_type c = kTypeInt" "\<not> field_is_null a" "\<not> field_is_null b"
    "\<not> field_is_null c" "field_order a b = Less" "field_order b c = Less"
    using F by (auto simp: Field_int_def order_defs)
  with field_comparisons_form_an_order [OF ok(1,2,3)] field_comparisons_form_an_order [OF ok(3,2,1)] F show ?thesis
    by (auto simp: GetCmpBool_def)
qed

text \<open>
  C13. Field serialisation round trip: every well-formed field serialises to exactly
  \<^verbatim>\<open>GetSerializedSize()\<close> bytes, and \<^verbatim>\<open>DeserializeFrom\<close>, given the field's type and null flag, reads the
  same field back from memory that holds those bytes and advances by the same number of bytes.
\<close>

theorem field_roundtrip:
  assumes "field_ok f"
  shows "\<exists>bs. Field_SerializeTo f = Inr bs \<and> Field_GetSerializedSize f = Inr (word_of_nat (length bs)) \<and>
    Field_DeserializeFrom (poke m a bs) a (field_type f) (field_is_null f) = Inr (reread f, word_of_nat (length bs))"
  using field_serialized_size [OF assms] field_serialize_read [OF assms _ holds_poke] by blast

theorem field_roundtrip_witness:
  "\<exists>f bs. Field_chars kTypeChar (Some [104, 105]) 2 True = Inr f \<and> Field_SerializeTo f = Inr bs \<and>
     Field_DeserializeFrom (poke zero_mem 100 bs) 100 kTypeChar False = Inr (f, 6)"
proof -
  let ?f = "\<lparr>field_value = CharsVal [104, 105], field_type = kTypeChar, field_len = 2, field_is_null = False, field_manage = True\<rparr>"
  have f: "Field_chars kTypeChar (Some [104, 105]) 2 True = Inr ?f"
    by (simp add: Field_chars_def VARCHAR_MAX_LEN_def PAGE_SIZE_def)
  have "field_ok ?f" by (rule constructors_ok(3) [OF f]) simp
  from field_roundtrip [OF this, of zero_mem 100] f show ?thesis
    by (simp add: TypeChar_SerializeTo_def reread_def)
qed

end
