(* ===== verification/Schema_Codec.thy ===== *)
theory Schema_Codec
  imports Field_Types
begin

text \<open>
  Columns and schemas: src/MiniSQL/src/include/record/column.h, record/schema.h of the include
  directory, record/column.cpp and record/schema.cpp. A \<^verbatim>\<open>Column *\<close> is an optional column (null is
  \<open>None\<close>, which \<^verbatim>\<open>Column::DeserializeFrom\<close> produces for an unknown type). Serialisers produce the
  bytes written, deserialisers read memory at an address and return the offset they advanced by, kept
  at its 32 bits. The main results are the round trips and the exactness of the two size functions.
\<close>

section \<open>Columns\<close>

definition bool_byte :: "bool \<Rightarrow> byte" where
  "bool_byte b = (if b then 1 else 0)"

lemma bool_byte_iff [simp]: "bool_byte b \<noteq> 0 \<longleftrightarrow> b"
  by (simp add: bool_byte_def)

record column =
  col_name :: string
  col_type :: type_id
  col_len :: u32
  col_table_ind :: u32
  col_nullable :: bool
  col_unique :: bool

definition COLUMN_MAGIC_NUM :: u32 where
  "COLUMN_MAGIC_NUM = 210928"

definition Column_num :: "string \<Rightarrow> type_id \<Rightarrow> u32 \<Rightarrow> bool \<Rightarrow> bool \<Rightarrow> column res" where
  "Column_num name t ind nullable uniq = res_bind (ASSERT (t \<noteq> kTypeChar)) (\<lambda>_.
     case t of
       kTypeInt \<Rightarrow> Inr \<lparr>col_name = name, col_type = t, col_len = 4, col_table_ind = ind, col_nullable = nullable, col_unique = uniq\<rparr>
     | kTypeFloat \<Rightarrow> Inr \<lparr>col_name = name, col_type = t, col_len = 4, col_table_ind = ind, col_nullable = nullable, col_unique = uniq\<rparr>
     | _ \<Rightarrow> Inl AssertFailed)"

definition Column_char :: "string \<Rightarrow> type_id \<Rightarrow> u32 \<Rightarrow> u32 \<Rightarrow> bool \<Rightarrow> bool \<Rightarrow> column res" where
  "Column_char name t len ind nullable uniq = res_bind (ASSERT (t = kTypeChar)) (\<lambda>_.
     Inr \<lparr>col_name = name, col_type = t, col_len = len, col_table_ind = ind, col_nullable = nullable, col_unique = uniq\<rparr>)"

definition Column_copy :: "column \<Rightarrow> column" where
  "Column_copy other = \<lparr>col_name = col_name other, col_type = col_type other, col_len = col_len other,
     col_table_ind = col_table_ind other, col_nullable = col_nullable other, col_unique = col_unique other\<rparr>"

definition SetTableInd :: "column \<Rightarrow> u32 \<Rightarrow> column" where
  "SetTableInd c ind = c\<lparr>col_table_ind := ind\<rparr>"

text \<open>The enumeration \<^verbatim>\<open>TypeId\<close> as the 32-bit integer that is stored.\<close>

fun type_code :: "type_id \<Rightarrow> u32" where
  "type_code kTypeInvalid = 0"
| "type_code kTypeInt = 1"
| "type_code kTypeFloat = 2"
| "type_code kTypeChar = 3"

definition Column_SerializeTo :: "column \<Rightarrow> byte list" where
  "Column_SerializeTo c =
     enc32 COLUMN_MAGIC_NUM @ enc32 (word_of_nat (length (col_name c))) @ name_bytes (col_name c) @
     enc32 (type_code (col_type c)) @ enc32 (col_len c) @ enc32 (col_table_ind c) @
     [bool_byte (col_nullable c)] @ [bool_byte (col_unique c)]"

definition Column_GetSerializedSize :: "column \<Rightarrow> u32" where
  "Column_GetSerializedSize c = 4 * 4 + word_of_nat (length (col_name c)) + 4 + 2 * 1"

definition Column_DeserializeFrom :: "mem \<Rightarrow> nat \<Rightarrow> (column option \<times> u32) res" where
  "Column_DeserializeFrom m buf =
     res_bind (ASSERT (rd32 m buf = COLUMN_MAGIC_NUM)) (\<lambda>_.
       let strSize = rd32 m (buf + 4);
           name = read_name m (buf + 8) (unat strSize);
           ofs = 8 + strSize;
           t = rd32 m (buf + unat ofs);
           len = rd32 m (buf + unat (ofs + 4));
           ind = rd32 m (buf + unat (ofs + 8));
           nullable = (m (buf + unat (ofs + 12)) \<noteq> 0);
           uniq = (m (buf + unat (ofs + 13)) \<noteq> 0)
       in res_bind
            (if t = type_code kTypeChar then res_bind (Column_char name kTypeChar len ind nullable uniq) (\<lambda>c. Inr (Some c))
             else if t = type_code kTypeInt then res_bind (Column_num name kTypeInt ind nullable uniq) (\<lambda>c. Inr (Some c))
             else if t = type_code kTypeFloat then res_bind (Column_num name kTypeFloat ind nullable uniq) (\<lambda>c. Inr (Some c))
             else Inr None)
            (\<lambda>c. Inr (c, ofs + 14)))"

definition column_ok :: "column \<Rightarrow> bool" where
  "column_ok c \<longleftrightarrow> col_type c \<noteq> kTypeInvalid \<and> (col_type c \<noteq> kTypeChar \<longrightarrow> col_len c = 4) \<and> length (col_name c) < 2 ^ 16"

lemma length_Column_SerializeTo [simp]: "length (Column_SerializeTo c) = 22 + length (col_name c)"
  by (simp add: Column_SerializeTo_def)

lemma Column_size_exact: "Column_GetSerializedSize c = word_of_nat (length (Column_SerializeTo c))"
  by (simp add: Column_GetSerializedSize_def)

lemma unat_small_sum:
  "n < 2 ^ 31 \<Longrightarrow> k < 2 ^ 16 \<Longrightarrow> unat (word_of_nat n + word_of_nat k :: u32) = n + k"
  by (simp flip: of_nat_add)

lemma Column_read:
  assumes ok: "column_ok c" and mem: "holds m a (Column_SerializeTo c)"
  shows "Column_DeserializeFrom m a = Inr (Some c, word_of_nat (length (Column_SerializeTo c)))"
proof -
  let ?n = "length (col_name c)"
  have n: "?n < 2 ^ 16" using ok by (simp add: column_ok_def)
  have u: "unat (8 + word_of_nat ?n + word_of_nat k :: u32) = 8 + ?n + k" if "k < 2 ^ 16" for k
    using n that unat_small_sum [of "8 + ?n" k] by (simp add: add.assoc)
  have R: "rd32 m a = COLUMN_MAGIC_NUM" "rd32 m (a + 4) = word_of_nat ?n" "holds m (a + 8) (name_bytes (col_name c))"
    "rd32 m (a + (8 + ?n)) = type_code (col_type c)" "rd32 m (a + (8 + ?n + 4)) = col_len c"
    "rd32 m (a + (8 + ?n + 8)) = col_table_ind c" "m (a + (8 + ?n + 12)) = bool_byte (col_nullable c)"
    "m (a + (8 + ?n + 13)) = bool_byte (col_unique c)"
    using mem by (simp_all add: Column_SerializeTo_def mem_simps ac_simps)
  have U: "unat (8 + word_of_nat ?n :: u32) = 8 + ?n" "unat (8 + word_of_nat ?n + 4 :: u32) = 8 + ?n + 4"
    "unat (8 + word_of_nat ?n + 8 :: u32) = 8 + ?n + 8" "unat (8 + word_of_nat ?n + 12 :: u32) = 8 + ?n + 12"
    "unat (8 + word_of_nat ?n + 13 :: u32) = 8 + ?n + 13"
    using u [of 0] u [of 4] u [of 8] u [of 12] u [of 13] by simp_all
  have name: "read_name m (a + 8) (unat (word_of_nat ?n :: u32)) = col_name c"
    using read_name_holds [OF R(3)] n by simp
  show ?thesis
    using ok unfolding Column_DeserializeFrom_def Let_def R(1,2) U name R(4-8)
    by (cases "col_type c"; cases c)
      (simp_all add: Column_char_def Column_num_def column_ok_def)
qed

section \<open>Schemas\<close>

record schema =
  columns :: "column option list"
  schema_is_manage :: bool

definition SCHEMA_MAGIC_NUM :: u32 where
  "SCHEMA_MAGIC_NUM = 200715"

definition GetColumnCount :: "schema \<Rightarrow> u32" where
  "GetColumnCount s = word_of_nat (length (columns s))"

text \<open>\<^verbatim>\<open>columns_[i]\<close> through a null column or out of range does not return.\<close>

definition GetColumn :: "schema \<Rightarrow> nat \<Rightarrow> column res" where
  "GetColumn s i = (if i < length (columns s)
     then (case columns s ! i of None \<Rightarrow> Inl NullDeref | Some c \<Rightarrow> Inr c) else Inl Undefined)"

text \<open>The first column with the name; the result is the status and the index, if it was set.\<close>

fun find_column :: "column option list \<Rightarrow> string \<Rightarrow> nat \<Rightarrow> nat option res" where
  "find_column [] name i = Inr None"
| "find_column (None # cs) name i = Inl NullDeref"
| "find_column (Some c # cs) name i = (if col_name c = name then Inr (Some i) else find_column cs name (Suc i))"

definition GetColumnIndex :: "schema \<Rightarrow> string \<Rightarrow> (dberr \<times> nat option) res" where
  "GetColumnIndex s name = res_bind (find_column (columns s) name 0) (\<lambda>r.
     Inr (case r of None \<Rightarrow> (DB_COLUMN_NAME_NOT_EXIST, None) | Some i \<Rightarrow> (DB_SUCCESS, Some i)))"

fun select_columns :: "column option list \<Rightarrow> nat list \<Rightarrow> column option list res" where
  "select_columns cs [] = Inr []"
| "select_columns cs (i # is) = (if i < length cs then res_bind (select_columns cs is) (\<lambda>r. Inr (cs ! i # r)) else Inl Undefined)"

definition ShallowCopySchema :: "schema \<Rightarrow> nat list \<Rightarrow> schema res" where
  "ShallowCopySchema s attrs = res_bind (select_columns (columns s) attrs) (\<lambda>cs.
     Inr \<lparr>columns = cs, schema_is_manage = False\<rparr>)"

fun copy_columns :: "column option list \<Rightarrow> column option list res" where
  "copy_columns [] = Inr []"
| "copy_columns (None # cs) = Inl NullDeref"
| "copy_columns (Some c # cs) = res_bind (copy_columns cs) (\<lambda>r. Inr (Some (Column_copy c) # r))"

definition DeepCopySchema :: "schema \<Rightarrow> schema res" where
  "DeepCopySchema s = res_bind (copy_columns (columns s)) (\<lambda>cs. Inr \<lparr>columns = cs, schema_is_manage = True\<rparr>)"

fun serialize_columns :: "column option list \<Rightarrow> byte list res" where
  "serialize_columns [] = Inr []"
| "serialize_columns (None # cs) = Inl NullDeref"
| "serialize_columns (Some c # cs) = res_bind (serialize_columns cs) (\<lambda>bs. Inr (Column_SerializeTo c @ bs))"

definition Schema_SerializeTo :: "schema \<Rightarrow> byte list res" where
  "Schema_SerializeTo s = res_bind (serialize_columns (columns s)) (\<lambda>bs.
     Inr (enc32 SCHEMA_MAGIC_NUM @ enc32 (word_of_nat (length (columns s))) @ bs @ [bool_byte (schema_is_manage s)]))"

fun columns_size :: "column option list \<Rightarrow> u32 res" where
  "columns_size [] = Inr 0"
| "columns_size (None # cs) = Inl NullDeref"
| "columns_size (Some c # cs) = res_bind (columns_size cs) (\<lambda>n. Inr (Column_GetSerializedSize c + n))"

definition Schema_GetSerializedSize :: "schema \<Rightarrow> u32 res" where
  "Schema_GetSerializedSize s = res_bind (columns_size (columns s)) (\<lambda>n. Inr (2 * 4 + n + 1))"

fun read_columns :: "mem \<Rightarrow> nat \<Rightarrow> u32 \<Rightarrow> nat \<Rightarrow> (column option list \<times> u32) res" where
  "read_columns m buf ofs 0 = Inr ([], ofs)"
| "read_columns m buf ofs (Suc n) =
     res_bind (Column_DeserializeFrom m (buf + unat ofs)) (\<lambda>(c, k).
     res_bind (read_columns m buf (ofs + k) n) (\<lambda>(cs, ofs'). Inr (c # cs, ofs')))"

definition Schema_DeserializeFrom :: "mem \<Rightarrow> nat \<Rightarrow> (schema \<times> u32) res" where
  "Schema_DeserializeFrom m buf =
     res_bind (ASSERT (rd32 m buf = SCHEMA_MAGIC_NUM)) (\<lambda>_.
     res_bind (read_columns m buf 8 (unat (rd32 m (buf + 4)))) (\<lambda>(cs, ofs).
       Inr (\<lparr>columns = cs, schema_is_manage = (m (buf + unat ofs) \<noteq> 0)\<rparr>, ofs + 1)))"

text \<open>Bounds under which no 32-bit offset wraps: at most 2^12 columns, names below 2^16 bytes.\<close>

definition schema_ok :: "schema \<Rightarrow> bool" where
  "schema_ok s \<longleftrightarrow> length (columns s) < 2 ^ 12 \<and> (\<forall>c \<in> set (columns s). \<exists>d. c = Some d \<and> column_ok d)"

lemma serialize_columns_ok:
  assumes "\<forall>c \<in> set cs. \<exists>d. c = Some d \<and> column_ok d"
  obtains bs where "serialize_columns cs = Inr bs" and "columns_size cs = Inr (word_of_nat (length bs))"
    and "length bs \<le> length cs * (2 ^ 16 + 22)"
  using assms
proof (induction cs arbitrary: thesis)
  case Nil
  then show ?case by simp
next
  case (Cons c cs)
  then obtain d where d: "c = Some d" "column_ok d" by auto
  obtain bs where bs: "serialize_columns cs = Inr bs" "columns_size cs = Inr (word_of_nat (length bs))"
    "length bs \<le> length cs * (2 ^ 16 + 22)" using Cons by auto
  from d(2) have "length (Column_SerializeTo d) \<le> 2 ^ 16 + 22" by (simp add: column_ok_def)
  with bs d show ?case
    by (intro Cons.prems(1) [of "Column_SerializeTo d @ bs"]) (simp_all add: Column_size_exact del: length_Column_SerializeTo)
qed

lemma read_columns_ok:
  assumes "\<forall>c \<in> set cs. \<exists>d. c = Some d \<and> column_ok d" and "serialize_columns cs = Inr bs"
    and "holds m (buf + k) bs" and "k + length bs < 2 ^ 32"
  shows "read_columns m buf (word_of_nat k) (length cs) = Inr (cs, word_of_nat (k + length bs))"
  using assms
proof (induction cs arbitrary: bs k)
  case Nil
  then show ?case by simp
next
  case (Cons c cs)
  then obtain d where d: "c = Some d" "column_ok d" by auto
  with Cons.prems(2) obtain cb where cb: "serialize_columns cs = Inr cb" "bs = Column_SerializeTo d @ cb"
    by (auto simp: res_simps)
  have k: "unat (word_of_nat k :: u32) = k" using Cons.prems(4) by simp
  have H: "holds m (buf + k) (Column_SerializeTo d)" "holds m (buf + (k + length (Column_SerializeTo d))) cb"
    using Cons.prems(3) cb(2) by (simp_all add: mem_simps add.assoc)
  have IH: "read_columns m buf (word_of_nat (k + length (Column_SerializeTo d))) (length cs) =
      Inr (cs, word_of_nat (k + length (Column_SerializeTo d) + length cb))"
    using Cons.IH [OF _ cb(1) H(2)] Cons.prems(1,4) cb(2) by (simp add: add.assoc)
  show ?case
    using Column_read [OF d(2) H(1)] IH d cb(2) by (simp add: k add.assoc del: length_Column_SerializeTo)
qed

lemma Schema_serialize_ok:
  assumes ok: "schema_ok s"
  obtains bs where "Schema_SerializeTo s = Inr bs" and "Schema_GetSerializedSize s = Inr (word_of_nat (length bs))"
    and "length bs < 2 ^ 31"
    and "\<And>m a. holds m a bs \<Longrightarrow> Schema_DeserializeFrom m a = Inr (s, word_of_nat (length bs))"
proof -
  have all: "\<forall>c \<in> set (columns s). \<exists>d. c = Some d \<and> column_ok d" and n: "length (columns s) < 2 ^ 12"
    using ok by (simp_all add: schema_ok_def)
  obtain cb where cb: "serialize_columns (columns s) = Inr cb" "columns_size (columns s) = Inr (word_of_nat (length cb))"
    "length cb \<le> length (columns s) * (2 ^ 16 + 22)" using serialize_columns_ok [OF all] .
  then have lt: "length cb < 2 ^ 30" using n by simp
  let ?bs = "enc32 SCHEMA_MAGIC_NUM @ enc32 (word_of_nat (length (columns s))) @ cb @ [bool_byte (schema_is_manage s)]"
  have "Schema_DeserializeFrom m a = Inr (s, word_of_nat (length ?bs))" if "holds m a ?bs" for m a
  proof -
    have H: "rd32 m a = SCHEMA_MAGIC_NUM" "rd32 m (a + 4) = word_of_nat (length (columns s))" "holds m (a + 8) cb"
      "m (a + (8 + length cb)) = bool_byte (schema_is_manage s)"
      using that by (simp_all add: mem_simps add.assoc)
    have cnt: "unat (rd32 m (a + 4)) = length (columns s)" using n by (simp add: H(2))
    have u: "unat (word_of_nat (8 + length cb) :: u32) = 8 + length cb" using lt unat_u32_of_nat [of "8 + length cb"] by simp
    have rc: "read_columns m a 8 (length (columns s)) = Inr (columns s, word_of_nat (8 + length cb))"
      using read_columns_ok [OF all cb(1), of m a 8] H(3) lt by simp
    show ?thesis
      unfolding Schema_DeserializeFrom_def H(1) cnt rc using u H(4) by simp
  qed
  with that [of ?bs] cb lt show ?thesis
    by (simp add: Schema_SerializeTo_def Schema_GetSerializedSize_def)
qed

definition has_name :: "column option list \<Rightarrow> string \<Rightarrow> nat \<Rightarrow> bool" where
  "has_name cs name i \<longleftrightarrow> i < length cs \<and> (\<exists>c. cs ! i = Some c \<and> col_name c = name)"

lemma find_column_first:
  assumes "\<forall>c \<in> set cs. c \<noteq> None"
  shows "(\<exists>i. find_column cs name k = Inr (Some (k + i)) \<and> has_name cs name i \<and> (\<forall>j < i. \<not> has_name cs name j)) \<or>
    (find_column cs name k = Inr None \<and> (\<forall>j. \<not> has_name cs name j))"
  using assms
proof (induction cs arbitrary: k)
  case Nil
  then show ?case by (simp add: has_name_def)
next
  case (Cons x cs)
  then obtain c where x: "x = Some c" by auto
  have step: "has_name (x # cs) name j = (if j = 0 then col_name c = name else has_name cs name (j - 1))" for j
    by (cases j) (auto simp: has_name_def x)
  show ?case
  proof (cases "col_name c = name")
    case True
    then show ?thesis by (auto simp: x step [unfolded x])
  next
    case False
    from Cons have IH: "(\<exists>i. find_column cs name (Suc k) = Inr (Some (Suc k + i)) \<and> has_name cs name i \<and> (\<forall>j < i. \<not> has_name cs name j)) \<or>
      (find_column cs name (Suc k) = Inr None \<and> (\<forall>j. \<not> has_name cs name j))" by (intro Cons.IH) simp
    then show ?thesis
    proof
      assume "\<exists>i. find_column cs name (Suc k) = Inr (Some (Suc k + i)) \<and> has_name cs name i \<and> (\<forall>j < i. \<not> has_name cs name j)"
      then obtain i where "find_column cs name (Suc k) = Inr (Some (Suc k + i))" "has_name cs name i" "\<forall>j < i. \<not> has_name cs name j"
        by blast
      with False show ?thesis by (intro disjI1 exI [of _ "Suc i"]) (auto simp: x step [unfolded x])
    qed (use False in \<open>auto simp: x step [unfolded x]\<close>)
  qed
qed

section \<open>Properties\<close>

text \<open>
  C14. Schema serialisation round trip: a schema with fewer than 2^12 well-formed columns serialises to
  exactly \<^verbatim>\<open>GetSerializedSize()\<close> bytes, from which \<^verbatim>\<open>DeserializeFrom\<close> reads back the same schema (names,
  types, lengths, positions, flags) and the same offset; memory that does not start with the magic
  number fails the assertion.
\<close>

theorem schema_roundtrip:
  assumes "schema_ok s"
  shows "\<exists>bs. Schema_SerializeTo s = Inr bs \<and> Schema_GetSerializedSize s = Inr (word_of_nat (length bs)) \<and>
    length bs < 2 ^ 31 \<and> Schema_DeserializeFrom (poke m a bs) a = Inr (s, word_of_nat (length bs)) \<and>
    (rd32 m' a' \<noteq> SCHEMA_MAGIC_NUM \<longrightarrow> Schema_DeserializeFrom m' a' = Inl AssertFailed)"
proof -
  obtain bs where B: "Schema_SerializeTo s = Inr bs" "Schema_GetSerializedSize s = Inr (word_of_nat (length bs))"
    "length bs < 2 ^ 31" "\<And>m a. holds m a bs \<Longrightarrow> Schema_DeserializeFrom m a = Inr (s, word_of_nat (length bs))"
    using Schema_serialize_ok [OF assms] by blast
  show ?thesis using B(1-3) B(4) [OF holds_poke] by (auto simp: Schema_DeserializeFrom_def)
qed

definition example_schema :: schema where
  "example_schema = \<lparr>columns =
     [Some \<lparr>col_name = ''id'', col_type = kTypeInt, col_len = 4, col_table_ind = 0, col_nullable = False, col_unique = True\<rparr>,
      Some \<lparr>col_name = ''name'', col_type = kTypeChar, col_len = 64, col_table_ind = 1, col_nullable = True, col_unique = False\<rparr>],
     schema_is_manage = True\<rparr>"

lemma example_schema_ok: "schema_ok example_schema"
  by (simp add: schema_ok_def example_schema_def column_ok_def)

theorem schema_roundtrip_witness:
  "\<exists>bs. Schema_SerializeTo example_schema = Inr bs \<and> length bs = 59 \<and>
     Schema_DeserializeFrom (poke zero_mem 8 bs) 8 = Inr (example_schema, 59)"
proof -
  have "Schema_GetSerializedSize example_schema = Inr 59"
    by (simp add: Schema_GetSerializedSize_def example_schema_def Column_GetSerializedSize_def)
  moreover obtain bs where B: "Schema_SerializeTo example_schema = Inr bs"
    "Schema_GetSerializedSize example_schema = Inr (word_of_nat (length bs))" "length bs < 2 ^ 31"
    "Schema_DeserializeFrom (poke zero_mem 8 bs) 8 = Inr (example_schema, word_of_nat (length bs))"
    using schema_roundtrip [OF example_schema_ok, of zero_mem 8] by blast
  ultimately have w: "word_of_nat (length bs) = (59 :: u32)" by simp
  then have "unat (word_of_nat (length bs) :: u32) = 59" by (simp only:) simp
  moreover have "unat (word_of_nat (length bs) :: u32) = length bs" using B(3) by (intro unat_u32_of_nat) simp
  ultimately show ?thesis using B w by simp
qed

text \<open>
  \<^verbatim>\<open>GetColumnIndex\<close> finds the first column of that name, and reports
  \<^verbatim>\<open>DB_COLUMN_NAME_NOT_EXIST\<close> exactly when no column has it; \<^verbatim>\<open>DeepCopySchema\<close> yields the same columns.
\<close>

theorem column_lookup_and_copy:
  assumes "schema_ok s"
  shows "((\<exists>i. GetColumnIndex s name = Inr (DB_SUCCESS, Some i) \<and> has_name (columns s) name i \<and>
           (\<forall>j < i. \<not> has_name (columns s) name j)) \<or>
         (GetColumnIndex s name = Inr (DB_COLUMN_NAME_NOT_EXIST, None) \<and> (\<forall>j. \<not> has_name (columns s) name j)))
    \<and> DeepCopySchema s = Inr (s\<lparr>schema_is_manage := True\<rparr>)"
proof -
  have n: "\<forall>c \<in> set (columns s). c \<noteq> None" using assms by (auto simp: schema_ok_def)
  have "copy_columns cs = Inr cs" if "\<forall>c \<in> set cs. c \<noteq> None" for cs
    using that by (induction cs rule: copy_columns.induct) (simp_all add: Column_copy_def)
  from this [OF n] have "DeepCopySchema s = Inr (s\<lparr>schema_is_manage := True\<rparr>)"
    by (cases s) (simp add: DeepCopySchema_def)
  with find_column_first [OF n, of name 0] show ?thesis by (auto simp: GetColumnIndex_def)
qed

theorem column_lookup_and_copy_witness:
  "GetColumnIndex example_schema ''name'' = Inr (DB_SUCCESS, Some 1) \<and>
   GetColumnIndex example_schema ''age'' = Inr (DB_COLUMN_NAME_NOT_EXIST, None) \<and>
   DeepCopySchema example_schema = Inr example_schema"
  using column_lookup_and_copy [OF example_schema_ok, of "''name''"] column_lookup_and_copy [OF example_schema_ok, of "''age''"]
  by (simp add: GetColumnIndex_def example_schema_def)

end
