(* ===== verification/Row_Codec.thy ===== *)
theory Row_Codec
  imports Schema_Codec
begin

text \<open>
  Row ids and rows: src/MiniSQL/src/include/common/rowid.h, record/row.h of the include directory and
  record/row.cpp. A row is its row id and its fields. The null bitmap is built with the bitwise updates
  of the code; reading tests the same bits. The round trip is proved for rows whose fields are
  well-formed and have the types of the schema's columns, with fewer than 2^20 fields so that no
  32-bit offset wraps.
\<close>

section \<open>Row ids\<close>

record rowid =
  rid_page_id :: page_id
  rid_slot_num :: u32

definition RowId :: "page_id \<Rightarrow> u32 \<Rightarrow> rowid" where
  "RowId p n = \<lparr>rid_page_id = p, rid_slot_num = n\<rparr>"

definition INVALID_ROWID :: rowid where
  "INVALID_ROWID = RowId INVALID_PAGE_ID 0"

text \<open>The 64-bit form: \<^verbatim>\<open>Get\<close> and the constructor from \<^verbatim>\<open>int64_t\<close>.\<close>

definition RowId_Get :: "rowid \<Rightarrow> 64 word" where
  "RowId_Get r = push_bit 32 (word_of_int (rid_page_id r)) OR ucast (rid_slot_num r)"

definition RowId_of :: "64 word \<Rightarrow> rowid" where
  "RowId_of w = RowId (sint (ucast (drop_bit 32 w) :: u32)) (ucast w)"

definition RowId_bytes :: "rowid \<Rightarrow> byte list" where
  "RowId_bytes r = enc32 (word_of_int (rid_page_id r)) @ enc32 (rid_slot_num r)"

definition RowId_read :: "mem \<Rightarrow> nat \<Rightarrow> rowid" where
  "RowId_read m a = RowId (sint (rd32 m a)) (rd32 m (a + 4))"

definition rowid_ok :: "rowid \<Rightarrow> bool" where
  "rowid_ok r \<longleftrightarrow> - (2 ^ 31) \<le> rid_page_id r \<and> rid_page_id r < 2 ^ 31"

lemma RowId_read_holds: "rowid_ok r \<Longrightarrow> holds m a (RowId_bytes r) \<Longrightarrow> RowId_read m a = r"
proof -
  assume ok: "rowid_ok r" and h: "holds m a (RowId_bytes r)"
  have "rd32 m a = word_of_int (rid_page_id r)" "rd32 m (a + 4) = rid_slot_num r"
    using h by (simp_all add: RowId_bytes_def mem_simps)
  with ok show ?thesis by (simp add: RowId_read_def RowId_def rowid_ok_def sint_word_of_int_id)
qed

lemma length_RowId_bytes [simp]: "length (RowId_bytes r) = 8"
  by (simp add: RowId_bytes_def)

section \<open>Rows\<close>

record row =
  rid :: rowid
  row_fields :: "field list"

definition Row :: "field list \<Rightarrow> row" where
  "Row fs = \<lparr>rid = INVALID_ROWID, row_fields = map Field_copy fs\<rparr>"

definition Row_empty :: row where
  "Row_empty = \<lparr>rid = INVALID_ROWID, row_fields = []\<rparr>"

definition Row_at :: "rowid \<Rightarrow> row" where
  "Row_at r = \<lparr>rid = r, row_fields = []\<rparr>"

definition Row_copy :: "row \<Rightarrow> row" where
  "Row_copy other = \<lparr>rid = rid other, row_fields = map Field_copy (row_fields other)\<rparr>"

definition Row_destroy :: "row \<Rightarrow> row" where
  "Row_destroy r = r\<lparr>row_fields := []\<rparr>"

text \<open>\<^verbatim>\<open>operator=\<close>; \<open>self\<close> says whether both sides are the same object, which is destroyed before it is read.\<close>

definition Row_assign :: "bool \<Rightarrow> row \<Rightarrow> row \<Rightarrow> row" where
  "Row_assign self r other = (let r1 = Row_destroy r; source = if self then r1 else other in
     r1\<lparr>rid := rid source, row_fields := row_fields r1 @ map Field_copy (row_fields source)\<rparr>)"

lemma Row_assign_result: "Row_assign False r other = Row_copy other" "Row_assign True r other = \<lparr>rid = rid r, row_fields = []\<rparr>"
  by (simp_all add: Row_assign_def Row_destroy_def Row_copy_def)

definition SetRowId :: "row \<Rightarrow> rowid \<Rightarrow> row" where
  "SetRowId r i = r\<lparr>rid := i\<rparr>"

definition GetField :: "row \<Rightarrow> nat \<Rightarrow> field res" where
  "GetField r i = res_bind (ASSERT (i < length (row_fields r))) (\<lambda>_. Inr (row_fields r ! i))"

text \<open>The null bitmap after the first \<open>n\<close> iterations of the loop.\<close>

fun null_bits :: "field list \<Rightarrow> nat \<Rightarrow> byte list" where
  "null_bits fs 0 = replicate (length fs div 8 + 1) 0"
| "null_bits fs (Suc i) =
     (let bm = null_bits fs i in
      if field_is_null (fs ! i) then bm[i div 8 := bm ! (i div 8) OR push_bit (i mod 8) 1] else bm)"

definition null_bitmap :: "field list \<Rightarrow> byte list" where
  "null_bitmap fs = null_bits fs (length fs)"

fun serialize_fields :: "field list \<Rightarrow> byte list res" where
  "serialize_fields [] = Inr []"
| "serialize_fields (f # fs) =
     (if \<not> field_is_null f then
        res_bind (Field_SerializeTo f) (\<lambda>b. res_bind (serialize_fields fs) (\<lambda>bs. Inr (b @ bs)))
      else serialize_fields fs)"

definition Row_SerializeTo :: "row \<Rightarrow> schema option \<Rightarrow> byte list res" where
  "Row_SerializeTo r sch =
     res_bind (ASSERT (sch \<noteq> None)) (\<lambda>_.
     res_bind (ASSERT (unat (GetColumnCount (the sch)) = length (row_fields r))) (\<lambda>_.
     res_bind (serialize_fields (row_fields r)) (\<lambda>bs.
       Inr (RowId_bytes (rid r) @ enc32 (word_of_nat (length (row_fields r))) @ null_bitmap (row_fields r) @ bs))))"

fun fields_size :: "field list \<Rightarrow> u32 res" where
  "fields_size [] = Inr 0"
| "fields_size (f # fs) =
     (if \<not> field_is_null f then
        res_bind (Field_GetSerializedSize f) (\<lambda>n. res_bind (fields_size fs) (\<lambda>k. Inr (n + k)))
      else fields_size fs)"

definition Row_GetSerializedSize :: "row \<Rightarrow> schema option \<Rightarrow> u32 res" where
  "Row_GetSerializedSize r sch =
     res_bind (ASSERT (sch \<noteq> None)) (\<lambda>_.
     res_bind (ASSERT (unat (GetColumnCount (the sch)) = length (row_fields r))) (\<lambda>_.
     res_bind (fields_size (row_fields r)) (\<lambda>n.
       Inr (8 + 4 + word_of_nat (length (row_fields r) div 8 + 1) + n))))"

definition null_at :: "mem \<Rightarrow> nat \<Rightarrow> nat \<Rightarrow> bool" where
  "null_at m bmap i \<longleftrightarrow> m (bmap + i div 8) AND push_bit (i mod 8) 1 \<noteq> 0"

text \<open>Fields \<open>i\<close> to \<open>i + n - 1\<close>, with the bitmap at \<open>bmap\<close> and the data at \<open>buf + ofs\<close>.\<close>

fun read_fields :: "mem \<Rightarrow> nat \<Rightarrow> nat \<Rightarrow> u32 \<Rightarrow> schema \<Rightarrow> nat \<Rightarrow> nat \<Rightarrow> (field list \<times> u32) res" where
  "read_fields m buf bmap ofs sch i 0 = Inr ([], ofs)"
| "read_fields m buf bmap ofs sch i (Suc n) =
     res_bind (GetColumn sch i) (\<lambda>c.
       if null_at m bmap i then
         res_bind (read_fields m buf bmap ofs sch (Suc i) n) (\<lambda>(fs, o'). Inr (Field_null (col_type c) # fs, o'))
       else
         res_bind (Field_DeserializeFrom m (buf + unat ofs) (col_type c) False) (\<lambda>(f, k).
         res_bind (read_fields m buf bmap (ofs + k) sch (Suc i) n) (\<lambda>(fs, o'). Inr (f # fs, o'))))"

definition Row_DeserializeFrom :: "row \<Rightarrow> mem \<Rightarrow> nat \<Rightarrow> schema option \<Rightarrow> (row \<times> u32) res" where
  "Row_DeserializeFrom r m buf sch =
     res_bind (ASSERT (sch \<noteq> None)) (\<lambda>_.
     res_bind (ASSERT (row_fields r = [])) (\<lambda>_.
       let vctSize = rd32 m (buf + 8);
           ofs = 12 + (word_of_nat (unat vctSize div 8 + 1) :: u32)
       in res_bind (read_fields m buf (buf + 12) ofs (the sch) 0 (unat vctSize)) (\<lambda>(fs, o').
            Inr (\<lparr>rid = RowId_read m buf, row_fields = fs\<rparr>, o'))))"

text \<open>
  \<^verbatim>\<open>GetKeyFromRow\<close>: the status of \<^verbatim>\<open>GetColumnIndex\<close> is ignored, so an unknown name reuses the last
  index; \<open>idx\<close> starts with the indeterminate value of the local variable.
\<close>

fun key_fields :: "row \<Rightarrow> schema \<Rightarrow> column option list \<Rightarrow> nat \<Rightarrow> field list res" where
  "key_fields r sch [] idx = Inr []"
| "key_fields r sch (None # cs) idx = Inl NullDeref"
| "key_fields r sch (Some c # cs) idx =
     res_bind (GetColumnIndex sch (col_name c)) (\<lambda>(_, found).
       let idx' = (case found of None \<Rightarrow> idx | Some i \<Rightarrow> i) in
       res_bind (GetField r idx') (\<lambda>f. res_bind (key_fields r sch cs idx') (\<lambda>fs. Inr (Field_copy f # fs))))"

definition GetKeyFromRow :: "row \<Rightarrow> schema \<Rightarrow> schema \<Rightarrow> nat \<Rightarrow> row res" where
  "GetKeyFromRow r sch key_schema idx =
     res_bind (key_fields r sch (columns key_schema) idx) (\<lambda>fs. Inr (Row_copy (Row fs)))"

section \<open>The null bitmap\<close>

lemma length_null_bits [simp]: "length (null_bits fs n) = length fs div 8 + 1"
  by (induction n) (simp_all add: Let_def)

lemma length_null_bitmap [simp]: "length (null_bitmap fs) = length fs div 8 + 1"
  by (simp add: null_bitmap_def)

lemma null_bits_bit:
  "n \<le> length fs \<Longrightarrow> j < length fs \<Longrightarrow>
   bit (null_bits fs n ! (j div 8)) (j mod 8) \<longleftrightarrow> j < n \<and> field_is_null (fs ! j)"
proof (induction n)
  case 0
  then have "j div 8 < length fs div 8 + 1" by (simp add: div_le_mono le_imp_less_Suc)
  then show ?case by (simp only: null_bits.simps nth_replicate) simp
next
  case (Suc n)
  have "n div 8 < length (null_bits fs n)" using Suc.prems by (simp add: div_le_mono le_imp_less_Suc)
  moreover have "j mod 8 = n mod 8 \<and> n div 8 = j div 8 \<longleftrightarrow> j = n" using div_mod_8_eq [of j n] by auto
  ultimately show ?case using Suc
    by (auto simp: Let_def nth_list_update set_bit_or less_Suc_eq)
qed

lemma null_at_holds:
  assumes "holds m bmap (null_bitmap fs)" and "j < length fs"
  shows "null_at m bmap j \<longleftrightarrow> field_is_null (fs ! j)"
proof -
  have lt: "j div 8 < length fs div 8 + 1" using assms(2) by (simp add: div_le_mono le_imp_less_Suc)
  have "peek m bmap (length fs div 8 + 1) ! (j div 8) = null_bitmap fs ! (j div 8)"
    using assms(1) by (simp add: holds_def)
  then have "m (bmap + j div 8) = null_bitmap fs ! (j div 8)" using lt by simp
  then show ?thesis
    using null_bits_bit [of "length fs" fs j] assms(2)
    unfolding null_at_def by (simp only: bit_iff_and_push_bit_not_eq_0 [symmetric] null_bitmap_def) simp
qed

section \<open>Round trip\<close>

text \<open>A row that fits a schema: as many fields as columns, well-formed and of the columns' types.\<close>

definition row_ok :: "schema \<Rightarrow> row \<Rightarrow> bool" where
  "row_ok sch r \<longleftrightarrow> rowid_ok (rid r) \<and> length (row_fields r) = length (columns sch) \<and> length (row_fields r) < 2 ^ 20 \<and>
     (\<forall>i < length (row_fields r). field_ok (row_fields r ! i) \<and>
        (\<exists>c. columns sch ! i = Some c \<and> field_type (row_fields r ! i) = col_type c))"

lemma serialize_fields_ok:
  assumes "\<forall>f \<in> set fs. field_ok f"
  obtains bs where "serialize_fields fs = Inr bs" and "fields_size fs = Inr (word_of_nat (length bs))"
    and "length bs \<le> length fs * 2052"
  using assms
proof (induction fs arbitrary: thesis)
  case Nil
  then show ?case by simp
next
  case (Cons f fs)
  obtain bs where bs: "serialize_fields fs = Inr bs" "fields_size fs = Inr (word_of_nat (length bs))"
    "length bs \<le> length fs * 2052" using Cons by auto
  obtain b where b: "Field_SerializeTo f = Inr b" "Field_GetSerializedSize f = Inr (word_of_nat (length b))"
    "length b < VARCHAR_MAX_LEN + 4" using field_serialized_size [of f] Cons.prems(2) by auto
  then have "length b \<le> 2052" by (simp add: VARCHAR_MAX_LEN_def PAGE_SIZE_def)
  with b bs Cons.prems(1) [of "if field_is_null f then bs else b @ bs"] show ?case
    by (simp del: Field_SerializeTo.simps Field_GetSerializedSize.simps)
qed

lemma read_fields_ok:
  assumes "\<And>j. j < length fs \<Longrightarrow> null_at m bmap (i + j) = field_is_null (fs ! j)"
    and "\<And>j. j < length fs \<Longrightarrow> field_ok (fs ! j) \<and> (\<exists>c. GetColumn sch (i + j) = Inr c \<and> field_type (fs ! j) = col_type c)"
    and "serialize_fields fs = Inr bs" and "holds m (buf + k) bs" and "k + length bs < 2 ^ 32"
  shows "read_fields m buf bmap (word_of_nat k) sch i (length fs) = Inr (map reread fs, word_of_nat (k + length bs))"
  using assms
proof (induction fs arbitrary: i k bs)
  case Nil
  then show ?case by simp
next
  case (Cons f fs)
  have P: "null_at m bmap i = field_is_null f" "field_ok f" using Cons.prems(1,2) [of 0] by simp_all
  obtain c where c: "GetColumn sch i = Inr c" "field_type f = col_type c" using Cons.prems(2) [of 0] by auto
  have N: "\<And>j. j < length fs \<Longrightarrow> null_at m bmap (Suc i + j) = field_is_null (fs ! j)"
    "\<And>j. j < length fs \<Longrightarrow> field_ok (fs ! j) \<and> (\<exists>c. GetColumn sch (Suc i + j) = Inr c \<and> field_type (fs ! j) = col_type c)"
    using Cons.prems(1,2) [of "Suc j" for j] by auto
  show ?case
  proof (cases "field_is_null f")
    case True
    then have ser: "serialize_fields fs = Inr bs" using Cons.prems(3) by simp
    from Cons.IH [OF N ser Cons.prems(4,5)] True P c show ?thesis by (simp add: reread_def)
  next
    case False
    then obtain b rest where b: "Field_SerializeTo f = Inr b" "serialize_fields fs = Inr rest" "bs = b @ rest"
      using Cons.prems(3) by (auto simp: res_simps simp del: Field_SerializeTo.simps)
    have k: "unat (word_of_nat k :: u32) = k" using Cons.prems(5) by simp
    have H: "holds m (buf + k) b" "holds m (buf + (k + length b)) rest"
      using Cons.prems(4) b(3) by (simp_all add: mem_simps add.assoc)
    have rd: "Field_DeserializeFrom m (buf + k) (col_type c) False = Inr (reread f, word_of_nat (length b))"
      using field_serialize_read [OF P(2) b(1) H(1)] False c by simp
    have "read_fields m buf bmap (word_of_nat (k + length b)) sch (Suc i) (length fs) =
        Inr (map reread fs, word_of_nat (k + length b + length rest))"
      using Cons.IH [OF N b(2) H(2)] Cons.prems(5) b(3) by (simp add: add.assoc)
    with rd False P c b(3) k show ?thesis by (simp add: add.assoc)
  qed
qed

lemma Row_serialize_ok:
  assumes ok: "row_ok sch r" 
  obtains bs where "Row_SerializeTo r (Some sch) = Inr bs" and "Row_GetSerializedSize r (Some sch) = Inr (word_of_nat (length bs))"
    and "length bs < 2 ^ 32" and "13 \<le> length bs"
    and "\<forall>m a x. row_fields x = [] \<and> holds m a bs \<longrightarrow>
      Row_DeserializeFrom x m a (Some sch) = Inr (\<lparr>rid = rid r, row_fields = map reread (row_fields r)\<rparr>, word_of_nat (length bs))"
proof -
  let ?fs = "row_fields r" and ?n = "length (row_fields r)"
  have n: "?n = length (columns sch)" "?n < 2 ^ 20" "rowid_ok (rid r)" using ok by (simp_all add: row_ok_def)
  have "\<forall>f \<in> set ?fs. field_ok f" using ok by (auto simp: row_ok_def in_set_conv_nth)
  then obtain fb where fb: "serialize_fields ?fs = Inr fb" "fields_size ?fs = Inr (word_of_nat (length fb))"
    "length fb \<le> ?n * 2052" using serialize_fields_ok by blast
  let ?bs = "RowId_bytes (rid r) @ enc32 (word_of_nat ?n) @ null_bitmap ?fs @ fb"
  have "?n div 8 < 2 ^ 20" using n(2) by (meson div_le_dividend le_less_trans)
  then have lt: "length ?bs < 2 ^ 32" using fb(3) n(2) by simp
  have cnt: "unat (GetColumnCount sch) = ?n" using n(1,2) by (simp add: GetColumnCount_def)
  have "Row_DeserializeFrom x m a (Some sch) = Inr (\<lparr>rid = rid r, row_fields = map reread ?fs\<rparr>, word_of_nat (length ?bs))"
    if x: "row_fields x = []" and mem: "holds m a ?bs" for m a x
  proof -
    have H: "holds m a (RowId_bytes (rid r))" "rd32 m (a + 8) = word_of_nat ?n" "holds m (a + 12) (null_bitmap ?fs)"
      "holds m (a + (12 + (?n div 8 + 1))) fb"
      using mem by (simp_all add: mem_simps ac_simps)
    have u: "unat (rd32 m (a + 8)) = ?n" using n(2) by (simp add: H(2))
    have col: "field_ok (?fs ! j) \<and> (\<exists>c. GetColumn sch (0 + j) = Inr c \<and> field_type (?fs ! j) = col_type c)" if "j < ?n" for j
      using ok that n(1) by (fastforce simp: row_ok_def GetColumn_def)
    have nul: "null_at m (a + 12) (0 + j) = field_is_null (?fs ! j)" if "j < ?n" for j
      using null_at_holds [OF H(3) that] by simp
    have ofs: "12 + (word_of_nat (?n div 8 + 1) :: u32) = word_of_nat (12 + (?n div 8 + 1))" by simp
    have rf: "read_fields m a (a + 12) (word_of_nat (12 + (?n div 8 + 1))) sch 0 ?n =
        Inr (map reread ?fs, word_of_nat (12 + (?n div 8 + 1) + length fb))"
      by (rule read_fields_ok [OF nul col fb(1) H(4)]) (use lt in simp_all)
    show ?thesis
      unfolding Row_DeserializeFrom_def Let_def u ofs using rf RowId_read_holds [OF n(3) H(1)] x
      by (simp add: add.assoc)
  qed
  with that [of ?bs] fb lt cnt show ?thesis
    by (simp add: Row_SerializeTo_def Row_GetSerializedSize_def)
qed

lemma RowId_Get_of:
  assumes "rowid_ok r"
  shows "RowId_of (RowId_Get r) = r"
proof -
  let ?p = "word_of_int (rid_page_id r) :: u32"
  have hi: "ucast (drop_bit 32 (RowId_Get r)) = ?p"
    unfolding RowId_Get_def by (rule bit_word_eqI) (auto simp: bit_simps dest: bit_imp_le_length)
  have lo: "ucast (RowId_Get r) = rid_slot_num r"
    unfolding RowId_Get_def by (rule bit_word_eqI) (auto simp: bit_simps)
  have "sint ?p = rid_page_id r" using assms by (intro sint_word_of_int_id) (simp_all add: rowid_ok_def)
  then show ?thesis by (simp add: RowId_of_def hi lo RowId_def)
qed

section \<open>Properties\<close>

text \<open>
  C16. Row serialisation round trip: a row that fits its schema serialises to exactly
  \<^verbatim>\<open>GetSerializedSize(schema)\<close> bytes, and \<^verbatim>\<open>DeserializeFrom\<close> into an empty row reads back the row id
  and every field, null fields included, advancing by the same number of bytes. A row whose field count
  differs from the schema's column count fails the assertion.
\<close>

theorem row_roundtrip:
  assumes "row_ok sch r" and "row_fields x = []"
  shows "\<exists>bs. Row_SerializeTo r (Some sch) = Inr bs \<and> Row_GetSerializedSize r (Some sch) = Inr (word_of_nat (length bs)) \<and>
    Row_DeserializeFrom x (poke m a bs) a (Some sch) =
      Inr (\<lparr>rid = rid r, row_fields = map reread (row_fields r)\<rparr>, word_of_nat (length bs)) \<and>
    (length (columns sch') < 2 ^ 32 \<and> length (row_fields r) \<noteq> length (columns sch') \<longrightarrow>
      Row_SerializeTo r (Some sch') = Inl AssertFailed)"
proof -
  have P: "holds (poke m a bs) a bs" for bs by simp
  obtain bs where B: "Row_SerializeTo r (Some sch) = Inr bs" "Row_GetSerializedSize r (Some sch) = Inr (word_of_nat (length bs))"
    "length bs < 2 ^ 32" "13 \<le> length bs"
    "\<forall>m a x. row_fields x = [] \<and> holds m a bs \<longrightarrow>
      Row_DeserializeFrom x m a (Some sch) = Inr (\<lparr>rid = rid r, row_fields = map reread (row_fields r)\<rparr>, word_of_nat (length bs))"
    using Row_serialize_ok [OF assms(1)] .
  have "Row_SerializeTo r (Some sch') = Inl AssertFailed"
    if "length (columns sch') < 2 ^ 32" "length (row_fields r) \<noteq> length (columns sch')"
    using that unat_u32_of_nat [OF that(1)] by (simp add: Row_SerializeTo_def GetColumnCount_def)
  with B(1,2) B(5) [rule_format, OF conjI [OF assms(2) P]] show ?thesis by blast
qed

definition example_row :: row where
  "example_row = \<lparr>rid = RowId 3 1, row_fields =
     [\<lparr>field_value = IntVal 42, field_type = kTypeInt, field_len = 4, field_is_null = False, field_manage = False\<rparr>,
      Field_null kTypeChar]\<rparr>"

lemma example_row_ok: "row_ok example_schema example_row"
  by (auto simp: row_ok_def example_schema_def example_row_def rowid_ok_def RowId_def field_ok_def Field_null_def less_Suc_eq)

theorem row_roundtrip_witness:
  "\<exists>bs. Row_SerializeTo example_row (Some example_schema) = Inr bs \<and>
     Row_DeserializeFrom Row_empty (poke zero_mem 40 bs) 40 (Some example_schema) = Inr (example_row, word_of_nat (length bs))"
  using row_roundtrip [OF example_row_ok, of Row_empty zero_mem 40]
  by (auto simp: Row_empty_def example_row_def reread_def Field_null_def)

text \<open>
  The 64-bit form of a row id is faithful: for every row id whose page id is an \<^verbatim>\<open>int32_t\<close>, also the
  negative \<^verbatim>\<open>INVALID_ROWID\<close>, the constructor from \<^verbatim>\<open>int64_t\<close> inverts \<^verbatim>\<open>Get()\<close>.
\<close>

theorem rowid_int64_roundtrip:
  assumes "- (2 ^ 31) \<le> p" and "p < 2 ^ 31"
  shows "RowId_of (RowId_Get (RowId p n)) = RowId p n"
  using RowId_Get_of [of "RowId p n"] assms by (simp add: rowid_ok_def RowId_def)

theorem rowid_int64_roundtrip_witness: "RowId_of (RowId_Get INVALID_ROWID) = INVALID_ROWID"
  using rowid_int64_roundtrip [of "-1" 0] by (simp add: INVALID_ROWID_def INVALID_PAGE_ID_def)

end
