(* ===== verification/Expressions.thy ===== *)
theory Expressions
  imports Row_Codec
begin

text \<open>
  The expressions of the planner (src/MiniSQL/src/include/planner/expressions/): column values,
  constants, comparisons and the connectives \<^verbatim>\<open>and\<close> and \<^verbatim>\<open>or\<close>, with their evaluation on a row and on a
  pair of rows. A row pointer may be null (the values executor passes null). A comparison yields an
  integer field that holds the code of its three-valued result.
\<close>

section \<open>Expressions\<close>

datatype LogicType = And | Or

datatype expr =
    ColumnValue nat nat type_id
  | ConstantValue field
  | Comparison expr expr string
  | Logic expr expr LogicType

fun GetReturnType :: "expr \<Rightarrow> type_id" where
  "GetReturnType (ColumnValue row_idx col_idx t) = t"
| "GetReturnType (ConstantValue f) = field_type f"
| "GetReturnType (Comparison l r op) = kTypeInt"
| "GetReturnType (Logic l r lt) = kTypeInt"

definition LogicExpression :: "expr \<Rightarrow> expr \<Rightarrow> LogicType \<Rightarrow> expr res" where
  "LogicExpression l r lt = (if GetReturnType l \<noteq> kTypeInt \<or> GetReturnType r \<noteq> kTypeInt
     then Inl LogicError else Inr (Logic l r lt))"

definition Char2Type :: "string \<Rightarrow> LogicType res" where
  "Char2Type v = (if v = ''and'' then Inr And else if v = ''or'' then Inr Or else Inl LogicError)"

definition PerformComparison :: "string \<Rightarrow> field \<Rightarrow> field \<Rightarrow> cmp_bool res" where
  "PerformComparison comp_type l r =
     (if comp_type = ''='' then Field_CompareEquals l r
      else if comp_type = ''<>'' then Field_CompareNotEquals l r
      else if comp_type = ''<'' then Field_CompareLessThan l r
      else if comp_type = ''<='' then Field_CompareLessThanEquals l r
      else if comp_type = ''>'' then Field_CompareGreaterThan l r
      else if comp_type = ''>='' then Field_CompareGreaterThanEquals l r
      else if comp_type = ''is'' then Inr (GetCmpBool (field_is_null l))
      else if comp_type = ''not'' then Inr (GetCmpBool (\<not> field_is_null l))
      else Inl LogicError)"

definition GetFieldAsCmpBool :: "field \<Rightarrow> cmp_bool res" where
  "GetFieldAsCmpBool v = (if field_is_null v then Inr kNull else
     res_bind (Field_int kTypeInt 1) (\<lambda>one. res_bind (Field_CompareEquals v one) (\<lambda>b.
       Inr (if b \<noteq> kFalse then kTrue else kFalse))))"

fun connect :: "LogicType \<Rightarrow> cmp_bool \<Rightarrow> cmp_bool \<Rightarrow> cmp_bool" where
  "connect And l r = (if l = kFalse \<or> r = kFalse then kFalse
     else if l = kTrue \<and> r = kTrue then kTrue else kNull)"
| "connect Or l r = (if l = kFalse \<and> r = kFalse then kFalse
     else if l = kTrue \<or> r = kTrue then kTrue else kNull)"

definition PerformComputation :: "LogicType \<Rightarrow> field \<Rightarrow> field \<Rightarrow> cmp_bool res" where
  "PerformComputation lt lhs rhs = res_bind (GetFieldAsCmpBool lhs) (\<lambda>l.
     res_bind (GetFieldAsCmpBool rhs) (\<lambda>r. Inr (connect lt l r)))"

fun cmp_code :: "cmp_bool \<Rightarrow> u32" where
  "cmp_code kFalse = 0"
| "cmp_code kTrue = 1"
| "cmp_code kNull = 2"

definition field_at :: "row option \<Rightarrow> nat \<Rightarrow> field res" where
  "field_at row i = (case row of None \<Rightarrow> Inl NullDeref
     | Some r \<Rightarrow> res_bind (GetField r i) (\<lambda>f. Inr (Field_copy f)))"

fun Evaluate :: "expr \<Rightarrow> row option \<Rightarrow> field res" where
  "Evaluate (ColumnValue row_idx col_idx t) row = field_at row col_idx"
| "Evaluate (ConstantValue f) row = Inr (Field_copy f)"
| "Evaluate (Comparison l r op) row =
     res_bind (Evaluate l row) (\<lambda>lhs. res_bind (Evaluate r row) (\<lambda>rhs.
     res_bind (PerformComparison op lhs rhs) (\<lambda>b. Field_int kTypeInt (cmp_code b))))"
| "Evaluate (Logic l r lt) row =
     res_bind (Evaluate l row) (\<lambda>lhs. res_bind (Evaluate r row) (\<lambda>rhs.
     res_bind (PerformComputation lt lhs rhs) (\<lambda>b. Field_int kTypeInt (cmp_code b))))"

fun EvaluateJoin :: "expr \<Rightarrow> row option \<Rightarrow> row option \<Rightarrow> field res" where
  "EvaluateJoin (ColumnValue row_idx col_idx t) lrow rrow =
     (if row_idx = 0 then field_at lrow col_idx else field_at rrow col_idx)"
| "EvaluateJoin (ConstantValue f) lrow rrow = Inr (Field_copy f)"
| "EvaluateJoin (Comparison l r op) lrow rrow =
     res_bind (EvaluateJoin l lrow rrow) (\<lambda>lhs. res_bind (EvaluateJoin r lrow rrow) (\<lambda>rhs.
     res_bind (PerformComparison op lhs rhs) (\<lambda>b. Field_int kTypeInt (cmp_code b))))"
| "EvaluateJoin (Logic l r lt) lrow rrow =
     res_bind (EvaluateJoin l lrow rrow) (\<lambda>lhs. res_bind (EvaluateJoin r lrow rrow) (\<lambda>rhs.
     res_bind (PerformComputation lt lhs rhs) (\<lambda>b. Field_int kTypeInt (cmp_code b))))"

section \<open>Predicates and their SQL meaning\<close>

text \<open>
  The shape of a \<^verbatim>\<open>where\<close> clause, and its truth value in SQL's three-valued logic: a comparison with a
  null operand is unknown, and the connectives are Kleene's, for which false is below unknown and unknown below
  true: a conjunction is as true as its falser part, a disjunction as its truer part.
\<close>

definition comparison_types :: "string list" where
  "comparison_types = [''='', ''<>'', ''<'', ''<='', ''>'', ''>='', ''is'', ''not'']"

fun is_predicate :: "schema \<Rightarrow> expr \<Rightarrow> bool" where
  "is_predicate sch (Comparison (ColumnValue row_idx col_idx t) (ConstantValue f) op) \<longleftrightarrow>
     row_idx = 0 \<and> op \<in> set comparison_types \<and> field_ok f \<and> field_type f = t \<and>
     (case GetColumn sch col_idx of Inl e \<Rightarrow> False | Inr c \<Rightarrow> col_type c = t)"
| "is_predicate sch (Logic l r lt) \<longleftrightarrow> is_predicate sch l \<and> is_predicate sch r"
| "is_predicate sch e \<longleftrightarrow> False"

fun compare3 :: "string \<Rightarrow> field \<Rightarrow> field \<Rightarrow> cmp_bool" where
  "compare3 op x y =
     (if op = ''is'' then GetCmpBool (field_is_null x)
      else if op = ''not'' then GetCmpBool (\<not> field_is_null x)
      else if field_is_null x \<or> field_is_null y then kNull
      else GetCmpBool (
        (op = ''='' \<and> field_order x y = Equal) \<or> (op = ''<>'' \<and> field_order x y \<noteq> Equal) \<or>
        (op = ''<'' \<and> field_order x y = Less) \<or> (op = ''<='' \<and> field_order x y \<in> {Less, Equal}) \<or>
        (op = ''>'' \<and> field_order x y = Greater) \<or> (op = ''>='' \<and> field_order x y \<in> {Greater, Equal})))"

fun truth_rank :: "cmp_bool \<Rightarrow> nat" where
  "truth_rank kFalse = 0"
| "truth_rank kNull = 1"
| "truth_rank kTrue = 2"

definition kleene_and :: "cmp_bool \<Rightarrow> cmp_bool \<Rightarrow> cmp_bool" where
  "kleene_and a b = (if truth_rank a \<le> truth_rank b then a else b)"

definition kleene_or :: "cmp_bool \<Rightarrow> cmp_bool \<Rightarrow> cmp_bool" where
  "kleene_or a b = (if truth_rank a \<le> truth_rank b then b else a)"

fun truth3 :: "expr \<Rightarrow> row \<Rightarrow> cmp_bool" where
  "truth3 (Comparison (ColumnValue row_idx col_idx t) (ConstantValue f) op) r = compare3 op (row_fields r ! col_idx) f"
| "truth3 (Logic l r And) w = kleene_and (truth3 l w) (truth3 r w)"
| "truth3 (Logic l r Or) w = kleene_or (truth3 l w) (truth3 r w)"
| "truth3 e r = kNull"

lemma connect_kleene: "connect And a b = kleene_and a b" "connect Or a b = kleene_or a b"
  by (cases a; cases b; simp add: kleene_and_def kleene_or_def)+

lemma truth3_Logic: "truth3 (Logic l r lt) w = connect lt (truth3 l w) (truth3 r w)"
  by (cases lt) (simp_all add: connect_kleene del: connect.simps)

lemma Field_copy_ok: "field_ok f \<Longrightarrow> Field_copy f = f"
  by (erule field_ok_cases) (auto simp: Field_copy_def)

lemma compare_null:
  assumes "field_ok x" "field_type x = field_type y" "field_is_null x \<or> field_is_null y"
  shows "Field_CompareEquals x y = Inr kNull" "Field_CompareNotEquals x y = Inr kNull"
    "Field_CompareLessThan x y = Inr kNull" "Field_CompareLessThanEquals x y = Inr kNull"
    "Field_CompareGreaterThan x y = Inr kNull" "Field_CompareGreaterThanEquals x y = Inr kNull"
proof -
  have t: "field_type x \<noteq> kTypeInvalid" using assms(1) by (simp add: field_ok_def)
  show "Field_CompareEquals x y = Inr kNull" "Field_CompareNotEquals x y = Inr kNull"
    "Field_CompareLessThan x y = Inr kNull" "Field_CompareLessThanEquals x y = Inr kNull"
    "Field_CompareGreaterThan x y = Inr kNull" "Field_CompareGreaterThanEquals x y = Inr kNull"
    using t assms(2,3) by (cases "field_type x"; simp add: compare_defs compare_with_def)+
qed

lemma PerformComparison_compare3:
  assumes "field_ok x" "field_ok y" "field_type x = field_type y" "op \<in> set comparison_types"
  shows "PerformComparison op x y = Inr (compare3 op x y)"
proof (cases "field_is_null x \<or> field_is_null y")
  case True
  then show ?thesis using assms(4) compare_null [OF assms(1,3) True]
    by (auto simp: PerformComparison_def comparison_types_def)
next
  case False
  then show ?thesis using assms(4) compare_by_order [OF assms(1-3)]
    by (auto simp: PerformComparison_def comparison_types_def)
qed

text \<open>The field a comparison or connective returns, and how a connective reads it back.\<close>

definition truth_field :: "cmp_bool \<Rightarrow> field" where
  "truth_field b = \<lparr>field_value = IntVal (cmp_code b), field_type = kTypeInt, field_len = 4,
     field_is_null = False, field_manage = False\<rparr>"

lemma Field_int_truth: "Field_int kTypeInt (cmp_code b) = Inr (truth_field b)"
  by (simp add: Field_int_def truth_field_def)

definition forget_null :: "cmp_bool \<Rightarrow> cmp_bool" where
  "forget_null b = (if b = kTrue then kTrue else kFalse)"

lemma read_truth_field: "GetFieldAsCmpBool (truth_field b) = Inr (forget_null b)"
  by (cases b) (simp_all add: GetFieldAsCmpBool_def truth_field_def Field_int_def compare_defs
      compare_with_def int_test_def GetCmpBool_def forget_null_def)

lemma connect_forget: "connect lt (forget_null a) (forget_null b) = kTrue \<longleftrightarrow> connect lt a b = kTrue"
  by (cases lt; cases a; cases b) (simp_all add: forget_null_def)

lemma connect_forget_arg: "forget_null a = forget_null a' \<Longrightarrow> forget_null b = forget_null b' \<Longrightarrow>
  connect lt (forget_null a) (forget_null b) = kTrue \<longleftrightarrow> connect lt a' b' = kTrue"
  using connect_forget [of lt a' b'] by simp

lemma predicate_evaluates:
  "is_predicate sch e \<Longrightarrow> row_ok sch r \<Longrightarrow>
   \<exists>b. Evaluate e (Some r) = Inr (truth_field b) \<and> forget_null b = forget_null (truth3 e r)"
proof (induction sch e rule: is_predicate.induct)
  case (1 sch ri ci t f op)
  then obtain c where c: "GetColumn sch ci = Inr c" "col_type c = t" "op \<in> set comparison_types"
    "field_ok f" "field_type f = t" by (auto split: sum.splits)
  then have ci: "ci < length (columns sch)" "columns sch ! ci = Some c"
    by (auto simp: GetColumn_def split: if_splits option.splits)
  then have x: "ci < length (row_fields r)" "field_ok (row_fields r ! ci)" "field_type (row_fields r ! ci) = t"
    using 1(2) c(2) by (auto simp: row_ok_def)
  then have "PerformComparison op (row_fields r ! ci) f = Inr (compare3 op (row_fields r ! ci) f)"
    using c by (intro PerformComparison_compare3) auto
  then show ?case using x c(4)
    by (auto simp: field_at_def GetField_def Field_copy_ok Field_int_truth simp del: compare3.simps)
next
  case (2 sch l s lt)
  then obtain a b where "Evaluate l (Some r) = Inr (truth_field a)" "forget_null a = forget_null (truth3 l r)"
    "Evaluate s (Some r) = Inr (truth_field b)" "forget_null b = forget_null (truth3 s r)" by auto
  moreover from this have "forget_null (connect lt (forget_null a) (forget_null b)) = forget_null (truth3 (Logic l s lt) r)"
    using connect_forget_arg [of a "truth3 l r" b "truth3 s r" lt] by (simp add: truth3_Logic forget_null_def [of "connect _ _ _"])
  ultimately show ?case
    by (intro exI [of _ "connect lt (forget_null a) (forget_null b)"])
      (simp add: PerformComputation_def read_truth_field Field_int_truth)
qed auto

lemma predicate_join:
  "is_predicate sch e \<Longrightarrow> EvaluateJoin e (Some r) s = Evaluate e (Some r)"
  by (induction sch e rule: is_predicate.induct) (auto split: sum.splits)

section \<open>Properties\<close>

text \<open>
  C39 (equivalence). A predicate over a row that fits the schema evaluates without failure to a non-null
  integer field holding 0, 1 or 2, and it is 1 exactly when the predicate is true in SQL's three-valued
  logic; so a filter that keeps the rows with 1 keeps the rows SQL keeps, although the code lets a
  connective read the code 2 of an unknown comparison as false. Evaluating on the left row of a join
  gives the same.
\<close>

theorem predicate_follows_sql_logic:
  assumes "is_predicate sch e" and "row_ok sch r"
  shows "\<exists>f i. Evaluate e (Some r) = Inr f \<and> EvaluateJoin e (Some r) s = Inr f \<and> field_ok f \<and>
    \<not> field_is_null f \<and> field_type f = GetReturnType e \<and> field_value f = IntVal i \<and> i \<in> {0, 1, 2} \<and>
    (i = 1 \<longleftrightarrow> truth3 e r = kTrue)"
proof -
  from predicate_evaluates [OF assms] obtain b where
    b: "Evaluate e (Some r) = Inr (truth_field b)" "forget_null b = forget_null (truth3 e r)" by blast
  have t: "GetReturnType e = kTypeInt" using assms(1) by (cases e) auto
  have "cmp_code b \<in> {0, 1, 2}" "cmp_code b = 1 \<longleftrightarrow> b = kTrue" by (cases b; simp)+
  moreover have "b = kTrue \<longleftrightarrow> truth3 e r = kTrue" using b(2) by (auto simp: forget_null_def split: if_splits)
  moreover have "field_ok (truth_field b)" by (simp add: truth_field_def field_ok_def)
  ultimately show ?thesis using b(1) t predicate_join [OF assms(1)]
    by (intro exI [of _ "truth_field b"] exI [of _ "cmp_code b"]) (simp add: truth_field_def)
qed

text \<open>\<^verbatim>\<open>id >= 40 or name = "bob"\<close> on a row whose name is null.\<close>

definition example_predicate :: expr where
  "example_predicate = Logic
     (Comparison (ColumnValue 0 0 kTypeInt) (ConstantValue \<lparr>field_value = IntVal 40, field_type = kTypeInt,
        field_len = 4, field_is_null = False, field_manage = False\<rparr>) ''>='')
     (Comparison (ColumnValue 0 1 kTypeChar) (ConstantValue \<lparr>field_value = CharsVal [98, 111, 98], field_type = kTypeChar,
        field_len = 3, field_is_null = False, field_manage = True\<rparr>) ''='') Or"

theorem predicate_follows_sql_logic_witness:
  "is_predicate example_schema example_predicate \<and> row_ok example_schema example_row \<and>
   (\<exists>f. Evaluate example_predicate (Some example_row) = Inr f \<and> field_value f = IntVal 1)"
proof -
  have p: "is_predicate example_schema example_predicate"
    by (simp add: example_predicate_def example_schema_def comparison_types_def field_ok_def GetColumn_def VARCHAR_MAX_LEN_def PAGE_SIZE_def)
  have "truth3 example_predicate example_row = kTrue"
    by (simp add: example_predicate_def example_row_def GetCmpBool_def order_defs kleene_or_def)
  with predicate_follows_sql_logic [OF p example_row_ok, of None] p example_row_ok show ?thesis by auto
qed

end
