(* ===== verification/Page_Allocator.thy ===== *)
theory Page_Allocator
  imports Minisql_Prelude
begin

text \<open>
  The contract that the two page allocators of MiniSQL share: the bitmap of one extent
  (page/bitmap_page.cpp) and the disk manager built from many of them (storage/disk_manager.cpp).
  An allocator hands out a key that is not in use, and releasing a key makes exactly that key free
  again. What a client needs follows once and for all: a run of allocations never hands out the same
  key twice, and never touches a key that was in use before.
\<close>

primrec alloc_many :: "('s \<Rightarrow> ('k \<times> 's) option) \<Rightarrow> nat \<Rightarrow> 's \<Rightarrow> ('k list \<times> 's) option" where
  "alloc_many alloc 0 s = Some ([], s)"
| "alloc_many alloc (Suc n) s =
     (case alloc s of
        None \<Rightarrow> None
      | Some (k, s1) \<Rightarrow>
          (case alloc_many alloc n s1 of
             None \<Rightarrow> None
           | Some (ks, s2) \<Rightarrow> Some (k # ks, s2)))"

locale page_allocator =
  fixes inv :: "'s \<Rightarrow> bool"
    and used :: "'s \<Rightarrow> 'k set"
    and alloc :: "'s \<Rightarrow> ('k \<times> 's) option"
    and release :: "'k \<Rightarrow> 's \<Rightarrow> 's"
  assumes alloc_fresh: "inv s \<Longrightarrow> alloc s = Some (k, s') \<Longrightarrow> k \<notin> used s"
    and alloc_used: "inv s \<Longrightarrow> alloc s = Some (k, s') \<Longrightarrow> used s' = insert k (used s)"
    and alloc_inv: "inv s \<Longrightarrow> alloc s = Some (k, s') \<Longrightarrow> inv s'"
    and release_used: "inv s \<Longrightarrow> k \<in> used s \<Longrightarrow> used (release k s) = used s - {k}"
    and release_inv: "inv s \<Longrightarrow> k \<in> used s \<Longrightarrow> inv (release k s)"
begin

lemma alloc_many_spec:
  assumes "inv s" and "alloc_many alloc n s = Some (ks, s')"
  shows "distinct ks \<and> length ks = n \<and> set ks \<inter> used s = {} \<and> used s' = used s \<union> set ks \<and> inv s'"
  using assms
proof (induction n arbitrary: s ks)
  case 0
  then show ?case by simp
next
  case (Suc n)
  from Suc.prems(2) obtain k s1 ks1 where a: "alloc s = Some (k, s1)"
    and r: "alloc_many alloc n s1 = Some (ks1, s')" and ks: "ks = k # ks1"
    by (auto split: option.splits)
  have IH: "distinct ks1 \<and> length ks1 = n \<and> set ks1 \<inter> used s1 = {} \<and> used s' = used s1 \<union> set ks1 \<and> inv s'"
    using Suc.IH [OF alloc_inv [OF Suc.prems(1) a] r] .
  show ?case
    using IH alloc_fresh [OF Suc.prems(1) a] alloc_used [OF Suc.prems(1) a] ks by auto
qed

lemma release_fresh_undo:
  assumes "inv s" and "alloc s = Some (k, s')"
  shows "used (release k s') = used s"
proof -
  have "k \<in> used s'" using alloc_used [OF assms] by simp
  with alloc_inv [OF assms] have "used (release k s') = used s' - {k}" by (rule release_used)
  then show ?thesis using alloc_used [OF assms] alloc_fresh [OF assms] by auto
qed

end

end
