(* ===== verification/Bitmap_Page.thy ===== *)
theory Bitmap_Page
  imports Page_Allocator
begin

text \<open>
  The free-page bitmap of one extent: \<^verbatim>\<open>BitmapPage<PageSize>\<close> of
  src/MiniSQL/src/include/page/bitmap_page.h and page/bitmap_page.cpp. The template parameter
  \<^verbatim>\<open>PageSize\<close> is the argument \<open>ps\<close>. The page is a record of its three members; \<open>bitmap_load\<close>
  and \<open>bitmap_store\<close> are the two directions of the \<^verbatim>\<open>reinterpret_cast\<close> between it and a raw buffer.
  The abstract view \<open>allocated_set\<close> is the set of offsets whose bit is one; the lemmas show that
  allocation and deallocation are set insertion and removal, that the counter is the cardinality,
  and that a hint \<open>next_free_page\<close> that is free is always re-established while the extent has room.
\<close>

record bitmap_page =
  page_allocated :: u32
  next_free_page :: u32
  bytes :: "nat \<Rightarrow> byte"

definition MAX_CHARS :: "nat \<Rightarrow> nat" where
  "MAX_CHARS ps = ps - 2 * 4"

definition GetMaxSupportedSize :: "nat \<Rightarrow> nat" where
  "GetMaxSupportedSize ps = 8 * MAX_CHARS ps"

definition bitmap_load :: "mem \<Rightarrow> bitmap_page" where
  "bitmap_load m = \<lparr>page_allocated = rd32 m 0, next_free_page = rd32 m 4, bytes = (\<lambda>i. m (8 + i))\<rparr>"

definition bitmap_store :: "bitmap_page \<Rightarrow> mem" where
  "bitmap_store b = wr32 (wr32 (\<lambda>i. bytes b (i - 8)) 0 (page_allocated b)) 4 (next_free_page b)"

definition IsPageFreeLow :: "bitmap_page \<Rightarrow> nat \<Rightarrow> nat \<Rightarrow> bool" where
  "IsPageFreeLow b byte_index bit_index \<longleftrightarrow> drop_bit bit_index (bytes b byte_index) AND 1 = 0"

definition bitmap_IsPageFree :: "bitmap_page \<Rightarrow> nat \<Rightarrow> bool" where
  "bitmap_IsPageFree b page_offset = IsPageFreeLow b (page_offset div 8) (page_offset mod 8)"

text \<open>The linear search of \<^verbatim>\<open>AllocatePage\<close>, from \<open>i\<close> upwards: the first free offset, if any.\<close>

function search_free :: "nat \<Rightarrow> bitmap_page \<Rightarrow> nat \<Rightarrow> nat option" where
  "search_free ps b i =
     (if i < MAX_CHARS ps * 8 \<and> unat (page_allocated b) < MAX_CHARS ps * 8 then
        if bitmap_IsPageFree b i then Some i else search_free ps b (Suc i)
      else None)"
  by pat_completeness auto
termination
  by (relation "measure (\<lambda>(ps, b, i). MAX_CHARS ps * 8 - i)") auto

declare search_free.simps [simp del]

text \<open>Setting the bit of a page that is taken, clearing it (by subtraction) when it is given back.\<close>

definition mark_page :: "bitmap_page \<Rightarrow> nat \<Rightarrow> bitmap_page" where
  "mark_page b k = b\<lparr>bytes := (bytes b)(k div 8 := bytes b (k div 8) OR push_bit (k mod 8) 1),
                     page_allocated := page_allocated b + 1\<rparr>"

definition unmark_page :: "bitmap_page \<Rightarrow> nat \<Rightarrow> bitmap_page" where
  "unmark_page b k = b\<lparr>bytes := (bytes b)(k div 8 := bytes b (k div 8) - push_bit (k mod 8) 1),
                       page_allocated := page_allocated b - 1\<rparr>"

text \<open>\<^verbatim>\<open>AllocatePage\<close> returns the flag, the offset it stored in its reference argument and the page.\<close>

definition bitmap_AllocatePage :: "nat \<Rightarrow> bitmap_page \<Rightarrow> bool \<times> u32 \<times> bitmap_page" where
  "bitmap_AllocatePage ps b =
     (let page_offset = next_free_page b; k = unat page_offset in
      if bitmap_IsPageFree b k then
        let b1 = mark_page b k in
        (case search_free ps b1 0 of
           None \<Rightarrow> (True, page_offset, b1)
         | Some i \<Rightarrow> (True, page_offset, b1\<lparr>next_free_page := word_of_nat i\<rparr>))
      else (False, page_offset, b))"

definition bitmap_DeAllocatePage :: "bitmap_page \<Rightarrow> u32 \<Rightarrow> bool \<times> bitmap_page" where
  "bitmap_DeAllocatePage b page_offset =
     (let k = unat page_offset in
      if \<not> bitmap_IsPageFree b k then
        (True, (unmark_page b k)\<lparr>next_free_page := page_offset\<rparr>)
      else (False, b))"

section \<open>Abstract view and well-formedness\<close>

definition allocated_set :: "nat \<Rightarrow> bitmap_page \<Rightarrow> nat set" where
  "allocated_set ps b = {k. k < GetMaxSupportedSize ps \<and> \<not> bitmap_IsPageFree b k}"

definition bitmap_ok :: "nat \<Rightarrow> bitmap_page \<Rightarrow> bool" where
  "bitmap_ok ps b \<longleftrightarrow>
     unat (page_allocated b) = card (allocated_set ps b) \<and>
     unat (next_free_page b) < GetMaxSupportedSize ps \<and>
     (unat (page_allocated b) < GetMaxSupportedSize ps \<longrightarrow>
        bitmap_IsPageFree b (unat (next_free_page b)))"

lemma bitmap_IsPageFree_bit: "bitmap_IsPageFree b k \<longleftrightarrow> \<not> bit (bytes b (k div 8)) (k mod 8)"
  by (simp add: bitmap_IsPageFree_def IsPageFreeLow_def bit_iff_odd_drop_bit and_one_eq
      even_iff_mod_2_eq_zero)

lemma clear_bit_minus:
  fixes w :: byte
  assumes "bit w n"
  shows "bit (w - 2 ^ n) j \<longleftrightarrow> bit w j \<and> j \<noteq> n"
proof -
  have "w - 2 ^ n = unset_bit n w"
    using assms by (simp add: unset_bit_eq)
  then show ?thesis by (auto simp: bit_unset_bit_iff)
qed

section \<open>The search\<close>

lemma search_free_Some:
  "search_free ps b i = Some j \<Longrightarrow> i \<le> j \<and> j < GetMaxSupportedSize ps \<and> bitmap_IsPageFree b j"
proof (induction ps b i rule: search_free.induct)
  case (1 ps b i)
  then show ?case
    by (force simp: search_free.simps [of ps b i] GetMaxSupportedSize_def split: if_splits)
qed

lemma search_free_None:
  "search_free ps b i = None \<Longrightarrow> unat (page_allocated b) < GetMaxSupportedSize ps \<Longrightarrow>
   i \<le> j \<Longrightarrow> j < GetMaxSupportedSize ps \<Longrightarrow> \<not> bitmap_IsPageFree b j"
proof (induction ps b i rule: search_free.induct)
  case (1 ps b i)
  show ?case
  proof (cases "j = i")
    case True
    with "1.prems" show ?thesis
      by (subst (asm) search_free.simps) (auto simp: GetMaxSupportedSize_def split: if_splits)
  next
    case False
    with "1.prems" have "Suc i \<le> j" and "\<not> bitmap_IsPageFree b i" and "search_free ps b (Suc i) = None"
      by (auto simp: search_free.simps [of ps b i] GetMaxSupportedSize_def split: if_splits)
    with "1.prems" show ?thesis
      by (intro "1.IH") (auto simp: GetMaxSupportedSize_def)
  qed
qed

section \<open>Effect of allocation and release on the set of allocated offsets\<close>

lemma free_mark_page: "bitmap_IsPageFree (mark_page b k) j \<longleftrightarrow> bitmap_IsPageFree b j \<and> j \<noteq> k"
  using div_mod_8_eq [of k j]
  by (auto simp: mark_page_def bitmap_IsPageFree_bit set_bit_or)

lemma free_unmark_page:
  "\<not> bitmap_IsPageFree b k \<Longrightarrow>
   bitmap_IsPageFree (unmark_page b k) j \<longleftrightarrow> bitmap_IsPageFree b j \<or> j = k"
  using div_mod_8_eq [of k j]
  by (auto simp: unmark_page_def bitmap_IsPageFree_bit clear_bit_minus)

lemma mark_page_sel [simp]:
  "page_allocated (mark_page b k) = page_allocated b + 1" "next_free_page (mark_page b k) = next_free_page b"
  "page_allocated (unmark_page b k) = page_allocated b - 1"
  by (simp_all add: mark_page_def unmark_page_def)

lemma free_next_free_page [simp]:
  "bitmap_IsPageFree (b\<lparr>next_free_page := w\<rparr>) j = bitmap_IsPageFree b j"
  by (simp add: bitmap_IsPageFree_bit)

lemma allocated_set_next_free [simp]:
  "allocated_set ps (b\<lparr>next_free_page := w\<rparr>) = allocated_set ps b"
  by (simp add: allocated_set_def)

lemma finite_allocated_set [simp]: "finite (allocated_set ps b)"
  by (simp add: allocated_set_def)

lemma card_allocated_set_le: "card (allocated_set ps b) \<le> GetMaxSupportedSize ps"
proof -
  have "allocated_set ps b \<subseteq> {..<GetMaxSupportedSize ps}" by (auto simp: allocated_set_def)
  then show ?thesis using card_mono [of "{..<GetMaxSupportedSize ps}"] by simp
qed

lemma not_full_has_free:
  "card (allocated_set ps b) < GetMaxSupportedSize ps \<Longrightarrow>
   \<exists>j < GetMaxSupportedSize ps. bitmap_IsPageFree b j"
proof (rule ccontr)
  assume lt: "card (allocated_set ps b) < GetMaxSupportedSize ps"
    and no: "\<not> (\<exists>j < GetMaxSupportedSize ps. bitmap_IsPageFree b j)"
  from no have "allocated_set ps b = {..<GetMaxSupportedSize ps}" by (auto simp: allocated_set_def)
  with lt show False by simp
qed

lemma full_none_free:
  "card (allocated_set ps b) = GetMaxSupportedSize ps \<Longrightarrow> j < GetMaxSupportedSize ps \<Longrightarrow>
   \<not> bitmap_IsPageFree b j"
proof -
  assume c: "card (allocated_set ps b) = GetMaxSupportedSize ps" and j: "j < GetMaxSupportedSize ps"
  have sub: "allocated_set ps b \<subseteq> {..<GetMaxSupportedSize ps}" by (auto simp: allocated_set_def)
  have "allocated_set ps b = {..<GetMaxSupportedSize ps}"
    by (rule card_subset_eq [OF _ sub]) (simp_all add: c)
  with j show ?thesis by (auto simp: allocated_set_def)
qed

lemma unat_plus_one: "unat (w :: u32) < n \<Longrightarrow> n < 2 ^ 32 \<Longrightarrow> unat (w + 1) = unat w + 1"
  by (simp add: unat_word_ariths)

lemma unat_minus_one_pos: "0 < unat (w :: u32) \<Longrightarrow> unat (w - 1) = unat w - 1"
  by (metis unat_gt_0 unat_minus_one)

lemma bitmap_AllocatePage_spec:
  assumes ok: "bitmap_ok ps b" and room: "unat (page_allocated b) < GetMaxSupportedSize ps"
    and small: "GetMaxSupportedSize ps < 2 ^ 32"
    and call: "bitmap_AllocatePage ps b = (r, off, b')"
  shows "r \<and> off = next_free_page b \<and> unat off < GetMaxSupportedSize ps \<and> unat off \<notin> allocated_set ps b
    \<and> allocated_set ps b' = insert (unat off) (allocated_set ps b) \<and> bitmap_ok ps b'"
proof -
  define k b1 where "k = unat (next_free_page b)" and "b1 = mark_page b k"
  from ok room have free: "bitmap_IsPageFree b k" and k: "k < GetMaxSupportedSize ps"
    and cnt: "unat (page_allocated b) = card (allocated_set ps b)"
    by (auto simp: bitmap_ok_def k_def)
  have set1: "allocated_set ps b1 = insert k (allocated_set ps b)"
    using k by (auto simp: allocated_set_def b1_def free_mark_page)
  have notin: "k \<notin> allocated_set ps b" using free by (simp add: allocated_set_def)
  have cnt1: "unat (page_allocated b1) = card (allocated_set ps b1)"
    using unat_plus_one [OF room small] cnt notin by (simp add: set1) (simp add: b1_def)
  have nxt1: "next_free_page b1 = next_free_page b" by (simp add: b1_def)
  have call': "(r, off, b') = (case search_free ps b1 0 of None \<Rightarrow> (True, next_free_page b, b1)
      | Some i \<Rightarrow> (True, next_free_page b, b1\<lparr>next_free_page := word_of_nat i\<rparr>))"
    using call free by (simp add: bitmap_AllocatePage_def Let_def flip: k_def b1_def)
  show ?thesis
  proof (cases "search_free ps b1 0")
    case None
    have "\<not> unat (page_allocated b1) < GetMaxSupportedSize ps"
    proof
      assume lt: "unat (page_allocated b1) < GetMaxSupportedSize ps"
      then have "\<forall>j < GetMaxSupportedSize ps. \<not> bitmap_IsPageFree b1 j"
        using search_free_None [OF None] by simp
      with not_full_has_free [of ps b1] cnt1 lt show False by auto
    qed
    with None call' cnt1 set1 notin k nxt1 show ?thesis
      by (simp add: bitmap_ok_def flip: k_def)
  next
    case (Some i)
    then have i: "i < GetMaxSupportedSize ps" "bitmap_IsPageFree b1 i"
      using search_free_Some by blast+
    then have "unat (word_of_nat i :: u32) = i" using small by simp
    with Some call' cnt1 set1 notin k i show ?thesis
      by (simp add: bitmap_ok_def flip: k_def)
  qed
qed

lemma bitmap_AllocatePage_full:
  assumes "bitmap_ok ps b" and "unat (page_allocated b) = GetMaxSupportedSize ps"
  shows "bitmap_AllocatePage ps b = (False, next_free_page b, b)"
proof -
  have "\<not> bitmap_IsPageFree b (unat (next_free_page b))"
    using assms full_none_free by (metis bitmap_ok_def)
  then show ?thesis by (simp add: bitmap_AllocatePage_def Let_def)
qed

lemma bitmap_DeAllocatePage_spec:
  assumes ok: "bitmap_ok ps b" and off: "unat off \<in> allocated_set ps b"
    and call: "bitmap_DeAllocatePage b off = (r, b')"
  shows "r \<and> allocated_set ps b' = allocated_set ps b - {unat off} \<and> bitmap_ok ps b'
    \<and> next_free_page b' = off"
proof -
  define k b1 where "k = unat off" and "b1 = unmark_page b k"
  have nf: "\<not> bitmap_IsPageFree b k" and k: "k < GetMaxSupportedSize ps"
    using off by (simp_all add: allocated_set_def k_def)
  have f1: "bitmap_IsPageFree b1 j \<longleftrightarrow> bitmap_IsPageFree b j \<or> j = k" for j
    unfolding b1_def by (rule free_unmark_page [OF nf])
  have set1: "allocated_set ps b1 = allocated_set ps b - {k}"
    by (auto simp: allocated_set_def f1)
  have pos: "0 < unat (page_allocated b)"
    using ok off by (auto simp: bitmap_ok_def card_gt_0_iff)
  have "unat (page_allocated b1) = card (allocated_set ps b1)"
    using unat_minus_one_pos [OF pos] ok off
    by (simp add: set1 bitmap_ok_def k_def) (simp add: b1_def)
  moreover have "r" and "b' = b1\<lparr>next_free_page := off\<rparr>"
    using call nf by (simp_all add: bitmap_DeAllocatePage_def Let_def flip: k_def b1_def)
  ultimately show ?thesis using set1 k f1
    by (simp add: bitmap_ok_def flip: k_def)
qed

lemma bitmap_DeAllocatePage_free:
  "bitmap_IsPageFree b (unat off) \<Longrightarrow> bitmap_DeAllocatePage b off = (False, b)"
  by (simp add: bitmap_DeAllocatePage_def)

text \<open>An all-zero page is the bitmap of an empty extent.\<close>

lemma bitmap_load_zero: "0 < GetMaxSupportedSize ps \<Longrightarrow> bitmap_ok ps (bitmap_load zero_mem)"
  by (simp add: bitmap_ok_def bitmap_load_def allocated_set_def bitmap_IsPageFree_bit)
    (simp add: zero_mem_def)

lemma allocated_set_zero: "allocated_set ps (bitmap_load zero_mem) = {}"
  by (simp add: allocated_set_def bitmap_load_def bitmap_IsPageFree_bit zero_mem_def)

lemma bitmap_load_store: "bitmap_load (bitmap_store b) = b"
  by (simp add: bitmap_load_def bitmap_store_def mem_simps)

section \<open>The bitmap as a page allocator\<close>

definition bitmap_alloc :: "bitmap_page \<Rightarrow> (nat \<times> bitmap_page) option" where
  "bitmap_alloc b = (case bitmap_AllocatePage PAGE_SIZE b of
     (r, off, b') \<Rightarrow> if r then Some (unat off, b') else None)"

definition bitmap_release :: "nat \<Rightarrow> bitmap_page \<Rightarrow> bitmap_page" where
  "bitmap_release k b = snd (bitmap_DeAllocatePage b (word_of_nat k))"

lemma PAGE_bitmap_size [simp]: "GetMaxSupportedSize PAGE_SIZE = 32704"
  by (simp add: GetMaxSupportedSize_def MAX_CHARS_def PAGE_SIZE_def)

lemma bitmap_alloc_facts:
  assumes ok: "bitmap_ok PAGE_SIZE b" and a: "bitmap_alloc b = Some (k, b')"
  shows "k \<notin> allocated_set PAGE_SIZE b \<and> allocated_set PAGE_SIZE b' = insert k (allocated_set PAGE_SIZE b)
    \<and> bitmap_ok PAGE_SIZE b'"
proof (cases "unat (page_allocated b) < GetMaxSupportedSize PAGE_SIZE")
  case True
  obtain r off b1 where call: "bitmap_AllocatePage PAGE_SIZE b = (r, off, b1)" by (metis prod_cases3)
  show ?thesis using bitmap_AllocatePage_spec [OF ok True _ call] a call
    by (auto simp: bitmap_alloc_def split: if_splits)
next
  case False
  then have "unat (page_allocated b) = GetMaxSupportedSize PAGE_SIZE"
    using ok card_allocated_set_le [of PAGE_SIZE b] by (simp add: bitmap_ok_def)
  from bitmap_AllocatePage_full [OF ok this] a show ?thesis by (simp add: bitmap_alloc_def)
qed

lemma bitmap_release_facts:
  assumes ok: "bitmap_ok PAGE_SIZE b" and k: "k \<in> allocated_set PAGE_SIZE b"
  shows "allocated_set PAGE_SIZE (bitmap_release k b) = allocated_set PAGE_SIZE b - {k}
    \<and> bitmap_ok PAGE_SIZE (bitmap_release k b)"
proof -
  have u: "unat (word_of_nat k :: u32) = k"
    using k by (simp add: allocated_set_def)
  obtain r b1 where call: "bitmap_DeAllocatePage b (word_of_nat k) = (r, b1)" by (metis prod.exhaust)
  show ?thesis using bitmap_DeAllocatePage_spec [OF ok _ call] k u call
    by (simp add: bitmap_release_def)
qed

interpretation bm: page_allocator "bitmap_ok PAGE_SIZE" "allocated_set PAGE_SIZE" bitmap_alloc bitmap_release
  by unfold_locales (simp_all add: bitmap_alloc_facts bitmap_release_facts)

end
