(* ===== verification/Disk_Manager.thy ===== *)
theory Disk_Manager
  imports Bitmap_Page
begin

text \<open>
  The disk manager: src/MiniSQL/src/include/storage/disk_manager.h, storage/disk_manager.cpp and the
  in-memory meta page of page/disk_file_meta_page.h. The database file is its bytes and its size; the
  \<^verbatim>\<open>std::fstream\<close> is modelled with its fail state, which nothing in the code clears. Page ids are
  \<^verbatim>\<open>int32_t\<close> values, and every conversion between \<^verbatim>\<open>int\<close> and \<^verbatim>\<open>size_t\<close> of the code is written
  out. Files are read and written in whole pages, as in \<^verbatim>\<open>ReadPhysicalPage\<close> and
  \<^verbatim>\<open>WritePhysicalPage\<close>. The invariant \<open>disk_ok\<close> ties the meta page to the bitmaps on disk; under it
  the disk manager is again a \<open>page_allocator\<close>. The bound of 16 extents is where the byte offset of a
  page still fits the \<^verbatim>\<open>int offset\<close> of \<^verbatim>\<open>ReadPhysicalPage\<close>.
\<close>

section \<open>State\<close>

record disk_file_meta_page =
  num_allocated_pages :: u32
  num_extents :: u32
  extent_used_page :: "nat \<Rightarrow> u32"

definition meta_load :: "mem \<Rightarrow> disk_file_meta_page" where
  "meta_load m = \<lparr>num_allocated_pages = rd32 m 0, num_extents = rd32 m 4,
                  extent_used_page = (\<lambda>i. rd32 m (8 + 4 * i))\<rparr>"

definition GetExtentUsedPage :: "disk_file_meta_page \<Rightarrow> nat \<Rightarrow> u32" where
  "GetExtentUsedPage m extent_id =
     (if extent_id \<ge> unat (num_extents m) then 0 else extent_used_page m extent_id)"

record disk_manager =
  db_file :: "nat \<Rightarrow> byte"
  file_size :: nat
  io_failed :: bool
  closed :: bool
  meta_data :: disk_file_meta_page

abbreviation BITMAP_SIZE :: int where
  "BITMAP_SIZE \<equiv> int (GetMaxSupportedSize PAGE_SIZE)"

section \<open>Physical pages\<close>

definition GetFileSize :: "disk_manager \<Rightarrow> int" where
  "GetFileSize s = to_int32 (int (file_size s))"

definition ReadPhysicalPage :: "disk_manager \<Rightarrow> page_id \<Rightarrow> mem \<Rightarrow> disk_manager \<times> mem" where
  "ReadPhysicalPage s physical_page_id page_data =
     (let offset = to_int32 (physical_page_id * int PAGE_SIZE) in
      if offset \<ge> GetFileSize s then (s, memset0 page_data PAGE_SIZE)
      else if offset < 0 \<or> io_failed s \<or> closed s then
        (s\<lparr>io_failed := True\<rparr>, memset0 page_data PAGE_SIZE)
      else
        let read_count = min PAGE_SIZE (file_size s - nat offset) in
        (s\<lparr>io_failed := (read_count < PAGE_SIZE)\<rparr>,
         (\<lambda>i. if i < read_count then db_file s (nat offset + i)
              else if i < PAGE_SIZE then 0 else page_data i)))"

definition WritePhysicalPage :: "disk_manager \<Rightarrow> page_id \<Rightarrow> mem \<Rightarrow> disk_manager" where
  "WritePhysicalPage s physical_page_id page_data =
     (if physical_page_id < 0 \<or> io_failed s \<or> closed s then s\<lparr>io_failed := True\<rparr>
      else
        let offset = nat physical_page_id * PAGE_SIZE in
        s\<lparr>db_file := (\<lambda>i. if offset \<le> i \<and> i < offset + PAGE_SIZE then page_data (i - offset)
                          else if i < file_size s then db_file s i else 0),
          file_size := max (file_size s) (offset + PAGE_SIZE)\<rparr>)"

text \<open>
  Opening the file: an absent file is created empty, then the meta page is read. Nothing in
  disk_manager.cpp ever writes \<^verbatim>\<open>meta_data_\<close> back; \<^verbatim>\<open>Close\<close> only closes the stream.
\<close>

definition DiskManager_open :: "(nat \<Rightarrow> byte) \<Rightarrow> nat \<Rightarrow> disk_manager" where
  "DiskManager_open content len =
     (let s = \<lparr>db_file = content, file_size = len, io_failed = False, closed = False,
               meta_data = meta_load zero_mem\<rparr>;
          (s1, buf) = ReadPhysicalPage s META_PAGE_ID zero_mem
      in s1\<lparr>meta_data := meta_load buf\<rparr>)"

definition DiskManager_Close :: "disk_manager \<Rightarrow> disk_manager" where
  "DiskManager_Close s = (if \<not> closed s then s\<lparr>closed := True\<rparr> else s)"

section \<open>Logical pages\<close>

definition MapPageId :: "page_id \<Rightarrow> page_id" where
  "MapPageId logical_page_id =
     (let u = to_size_t logical_page_id
      in to_int32 (to_size_t (u div BITMAP_SIZE + u + 2)))"

definition DiskManager_ReadPage :: "disk_manager \<Rightarrow> page_id \<Rightarrow> mem \<Rightarrow> (disk_manager \<times> mem) res" where
  "DiskManager_ReadPage s logical_page_id page_data =
     res_bind (ASSERT (logical_page_id \<ge> 0))
       (\<lambda>_. Inr (ReadPhysicalPage s (MapPageId logical_page_id) page_data))"

definition DiskManager_WritePage :: "disk_manager \<Rightarrow> page_id \<Rightarrow> mem \<Rightarrow> disk_manager res" where
  "DiskManager_WritePage s logical_page_id page_data =
     res_bind (ASSERT (logical_page_id \<ge> 0))
       (\<lambda>_. Inr (WritePhysicalPage s (MapPageId logical_page_id) page_data))"

function scan_extents :: "disk_file_meta_page \<Rightarrow> nat \<Rightarrow> nat \<times> bool" where
  "scan_extents m i =
     (if i < unat (num_extents m) then
        if unat (GetExtentUsedPage m i) < GetMaxSupportedSize PAGE_SIZE then (i, True)
        else scan_extents m (Suc i)
      else (i, False))"
  by pat_completeness auto
termination
  by (relation "measure (\<lambda>(m, i). unat (num_extents m) - i)") auto

declare scan_extents.simps [simp del]

definition bitmap_addr :: "nat \<Rightarrow> page_id" where
  "bitmap_addr extentIndex = to_int32 (to_size_t ((BITMAP_SIZE + 1) * int extentIndex + 1))"

definition DiskManager_AllocatePage :: "disk_manager \<Rightarrow> page_id \<times> disk_manager" where
  "DiskManager_AllocatePage s =
     (let m = meta_data s;
          (extentIndex, extent_found) = scan_extents m 0;
          m1 = m\<lparr>num_allocated_pages := num_allocated_pages m + 1\<rparr>;
          m2 = m1\<lparr>extent_used_page := (extent_used_page m1)(extentIndex := extent_used_page m1 extentIndex + 1)\<rparr>;
          BMAddr = bitmap_addr extentIndex
      in if extent_found then
           let (s1, currBMap) = ReadPhysicalPage s BMAddr zero_mem;
               (_, ofs, bm) = bitmap_AllocatePage PAGE_SIZE (bitmap_load currBMap);
               s2 = WritePhysicalPage (s1\<lparr>meta_data := m2\<rparr>) BMAddr (bitmap_store bm)
           in (to_int32 (to_size_t (uint ofs + BITMAP_SIZE * int extentIndex)), s2)
         else
           let m3 = m2\<lparr>num_extents := num_extents m2 + 1\<rparr>;
               (_, ofs, bm) = bitmap_AllocatePage PAGE_SIZE (bitmap_load zero_mem);
               s2 = WritePhysicalPage (s\<lparr>meta_data := m3\<rparr>) BMAddr (bitmap_store bm)
           in (to_int32 (to_size_t (uint ofs + BITMAP_SIZE * int extentIndex)), s2))"

text \<open>The extent and the offset within it of a logical page, both \<^verbatim>\<open>uint32_t\<close>.\<close>

definition extent_of :: "page_id \<Rightarrow> nat" where
  "extent_of p = nat ((to_size_t p div BITMAP_SIZE) mod 2 ^ 32)"

definition offset_of :: "page_id \<Rightarrow> nat" where
  "offset_of p = nat ((to_size_t p mod BITMAP_SIZE) mod 2 ^ 32)"

definition DiskManager_DeAllocatePage :: "disk_manager \<Rightarrow> page_id \<Rightarrow> disk_manager" where
  "DiskManager_DeAllocatePage s logical_page_id =
     (let extentIndex = extent_of logical_page_id; ofs = offset_of logical_page_id;
          (s1, currBMap) = ReadPhysicalPage s (bitmap_addr extentIndex) zero_mem;
          (ok, bm) = bitmap_DeAllocatePage (bitmap_load currBMap) (word_of_nat ofs)
      in if \<not> ok then s1
         else
           let s2 = WritePhysicalPage s1 (bitmap_addr extentIndex) (bitmap_store bm);
               m = meta_data s2
           in s2\<lparr>meta_data := m\<lparr>num_allocated_pages := num_allocated_pages m - 1,
                 extent_used_page := (extent_used_page m)(extentIndex := extent_used_page m extentIndex - 1)\<rparr>\<rparr>)"

definition DiskManager_IsPageFree :: "disk_manager \<Rightarrow> page_id \<Rightarrow> bool \<times> disk_manager" where
  "DiskManager_IsPageFree s logical_page_id =
     (let (s1, currBMap) = ReadPhysicalPage s (bitmap_addr (extent_of logical_page_id)) zero_mem
      in (bitmap_IsPageFree (bitmap_load currBMap) (offset_of logical_page_id), s1))"

section \<open>The file as an array of pages\<close>

definition MAX_PHYS :: int where
  "MAX_PHYS = 524287"

definition io_ok :: "disk_manager \<Rightarrow> bool" where
  "io_ok s \<longleftrightarrow> \<not> closed s \<and> \<not> io_failed s \<and> file_size s mod PAGE_SIZE = 0 \<and> file_size s < 2 ^ 31"

text \<open>The content of physical page \<open>p\<close>: zeros past the end of the file.\<close>

definition phys_page :: "disk_manager \<Rightarrow> int \<Rightarrow> mem" where
  "phys_page s p = (\<lambda>i. if i < PAGE_SIZE \<and> nat p * PAGE_SIZE < file_size s
                        then db_file s (nat p * PAGE_SIZE + i) else 0)"

lemma phys_offset: "0 \<le> p \<Longrightarrow> p < MAX_PHYS \<Longrightarrow> to_int32 (p * int PAGE_SIZE) = p * int PAGE_SIZE"
  by (simp add: MAX_PHYS_def PAGE_SIZE_def)

lemma page_inside:
  assumes "n mod PAGE_SIZE = 0" and "k * PAGE_SIZE < n"
  shows "k * PAGE_SIZE + PAGE_SIZE \<le> n"
proof -
  obtain q where q: "n = q * PAGE_SIZE"
    using assms(1) div_mult_mod_eq [of n PAGE_SIZE] by (metis add.right_neutral)
  with assms(2) have "k < q" by simp
  then have "Suc k * PAGE_SIZE \<le> q * PAGE_SIZE" by (intro mult_le_mono1) simp
  with q show ?thesis by simp
qed

lemma ReadPhysicalPage_ok:
  assumes io: "io_ok s" and p: "0 \<le> p" "p < MAX_PHYS"
  shows "ReadPhysicalPage s p buf = (s, \<lambda>i. if i < PAGE_SIZE then phys_page s p i else buf i)"
proof -
  define k where "k = nat p"
  have pk: "p = int k" using p by (simp add: k_def)
  have off: "to_int32 (p * int PAGE_SIZE) = int (k * PAGE_SIZE)"
    using phys_offset [OF p] by (simp add: pk)
  have fs: "GetFileSize s = int (file_size s)" using io by (simp add: GetFileSize_def io_ok_def)
  show ?thesis
  proof (cases "k * PAGE_SIZE < file_size s")
    case True
    from page_inside [OF _ True] io have "min PAGE_SIZE (file_size s - k * PAGE_SIZE) = PAGE_SIZE"
      by (simp add: io_ok_def min_def)
    with True io show ?thesis
      by (simp add: ReadPhysicalPage_def off fs io_ok_def phys_page_def k_def [symmetric] fun_eq_iff Let_def
          del: of_nat_mult)
  next
    case False
    then show ?thesis
      by (simp add: ReadPhysicalPage_def off fs phys_page_def k_def [symmetric] memset0_def fun_eq_iff Let_def
          del: of_nat_mult)
  qed
qed

lemma WritePhysicalPage_io_ok:
  assumes "io_ok s" and "0 \<le> p" "p < MAX_PHYS"
  shows "io_ok (WritePhysicalPage s p d)"
proof -
  have "(nat p * PAGE_SIZE + PAGE_SIZE) mod PAGE_SIZE = 0" by simp
  moreover have "nat p * PAGE_SIZE + PAGE_SIZE < 2 ^ 31"
    using assms by (simp add: MAX_PHYS_def PAGE_SIZE_def)
  ultimately show ?thesis using assms by (simp add: WritePhysicalPage_def io_ok_def Let_def max_def)
qed

lemma phys_page_write_same:
  assumes "io_ok s" and "0 \<le> p"
  shows "phys_page (WritePhysicalPage s p d) p = (\<lambda>i. if i < PAGE_SIZE then d i else 0)"
proof (rule ext)
  fix i
  have "nat p * PAGE_SIZE < max (file_size s) (nat p * PAGE_SIZE + PAGE_SIZE)"
    by (simp add: PAGE_SIZE_def)
  then show "phys_page (WritePhysicalPage s p d) p i = (if i < PAGE_SIZE then d i else 0)"
    using assms by (simp add: phys_page_def WritePhysicalPage_def io_ok_def Let_def)
qed

lemma page_disjoint: "j \<noteq> k \<Longrightarrow> i < n \<Longrightarrow> \<not> (k * n \<le> j * n + i \<and> j * n + i < k * n + n)" for i j k n :: nat
proof (cases "j < k")
  case True
  assume "i < n"
  from True have "Suc j * n \<le> k * n" by (intro mult_le_mono1) simp
  with \<open>i < n\<close> show ?thesis by simp
next
  case False
  assume "j \<noteq> k"
  with False have "Suc k * n \<le> j * n" by (intro mult_le_mono1) simp
  then show ?thesis by simp
qed

lemma phys_page_write_other:
  assumes io: "io_ok s" and pq: "0 \<le> p" "0 \<le> q" "p \<noteq> q"
  shows "phys_page (WritePhysicalPage s p d) q = phys_page s q"
proof (rule ext)
  fix i
  define j k where "j = nat q" and "k = nat p"
  have jk: "j \<noteq> k" using pq by (simp add: j_def k_def)
  have pg: "io_failed s = False" "closed s = False" "\<not> p < 0"
    using io pq by (simp_all add: io_ok_def)
  show "phys_page (WritePhysicalPage s p d) q i = phys_page s q i"
  proof (cases "i < PAGE_SIZE \<and> j * PAGE_SIZE < file_size s")
    case True
    then have "j * PAGE_SIZE + i < file_size s"
      using page_inside [of "file_size s" j] io by (simp add: io_ok_def)
    with True page_disjoint [OF jk, of i PAGE_SIZE] pg show ?thesis
      by (auto simp: phys_page_def WritePhysicalPage_def Let_def j_def [symmetric] k_def [symmetric])
  next
    case False
    with page_disjoint [OF jk, of i PAGE_SIZE] pg show ?thesis
      by (auto simp: phys_page_def WritePhysicalPage_def Let_def j_def [symmetric] k_def [symmetric])
  qed
qed

section \<open>Logical to physical page numbers\<close>

definition MAX_LOGICAL :: int where
  "MAX_LOGICAL = 16 * BITMAP_SIZE"

lemma MapPageId_eq:
  "0 \<le> p \<Longrightarrow> p < MAX_LOGICAL \<Longrightarrow> MapPageId p = p div BITMAP_SIZE + p + 2"
proof -
  assume p: "0 \<le> p" "p < MAX_LOGICAL"
  then have "0 \<le> p div 32704" "p div 32704 < 16" by (auto simp: MAX_LOGICAL_def)
  with p show ?thesis by (simp add: MapPageId_def MAX_LOGICAL_def)
qed

text \<open>The formula the commented-out line of \<^verbatim>\<open>MapPageId\<close> gives: extent base, its bitmap, its slot.\<close>

lemma MapPageId_extent:
  assumes "0 \<le> p" "p < MAX_LOGICAL"
  shows "MapPageId p = (BITMAP_SIZE + 1) * (p div BITMAP_SIZE) + 1 + (p mod BITMAP_SIZE + 1)"
proof -
  have "p = BITMAP_SIZE * (p div BITMAP_SIZE) + p mod BITMAP_SIZE" by simp
  then show ?thesis unfolding MapPageId_eq [OF assms] by (simp add: algebra_simps)
qed

lemma MapPageId_bounds: "0 \<le> p \<Longrightarrow> p < MAX_LOGICAL \<Longrightarrow> 2 \<le> MapPageId p \<and> MapPageId p < MAX_PHYS"
  by (simp add: MapPageId_eq MAX_LOGICAL_def MAX_PHYS_def)

lemma MapPageId_mono:
  assumes "0 \<le> p" "p < q" "q < MAX_LOGICAL"
  shows "MapPageId p < MapPageId q"
proof -
  have "p div BITMAP_SIZE \<le> q div BITMAP_SIZE" using assms by (intro zdiv_mono1) auto
  with assms show ?thesis by (simp add: MapPageId_eq)
qed

lemma MapPageId_inj:
  "0 \<le> p \<Longrightarrow> p < MAX_LOGICAL \<Longrightarrow> 0 \<le> q \<Longrightarrow> q < MAX_LOGICAL \<Longrightarrow> MapPageId p = MapPageId q \<Longrightarrow> p = q"
  using MapPageId_mono [of p q] MapPageId_mono [of q p] by linarith

lemma bitmap_addr_eq: "e < 16 \<Longrightarrow> bitmap_addr e = (BITMAP_SIZE + 1) * int e + 1"
  by (simp add: bitmap_addr_def)

lemma bitmap_addr_bounds: "e < 16 \<Longrightarrow> 1 \<le> bitmap_addr e \<and> bitmap_addr e < MAX_PHYS"
  by (simp add: bitmap_addr_eq MAX_PHYS_def)

lemma bitmap_addr_inj: "e < 16 \<Longrightarrow> f < 16 \<Longrightarrow> bitmap_addr e = bitmap_addr f \<Longrightarrow> e = f"
  by (simp add: bitmap_addr_eq)

lemma MapPageId_not_bitmap:
  assumes p: "0 \<le> p" "p < MAX_LOGICAL" and e: "e < 16"
  shows "MapPageId p \<noteq> bitmap_addr e"
proof
  assume "MapPageId p = bitmap_addr e"
  then have "32705 * (p div 32704) + 1 + (p mod 32704 + 1) = 32705 * int e + 1"
    using MapPageId_extent [OF p] bitmap_addr_eq [OF e] by simp
  moreover have "0 \<le> p mod 32704" and "p mod 32704 < 32704" by simp_all
  ultimately show False by (cases "int e \<le> p div 32704") linarith+
qed

lemma extent_of_eq: "0 \<le> p \<Longrightarrow> p < MAX_LOGICAL \<Longrightarrow> extent_of p = nat (p div BITMAP_SIZE)"
  by (simp add: extent_of_def MAX_LOGICAL_def)

lemma offset_of_eq: "0 \<le> p \<Longrightarrow> p < MAX_LOGICAL \<Longrightarrow> offset_of p = nat (p mod BITMAP_SIZE)"
  by (simp add: offset_of_def MAX_LOGICAL_def)

lemma extent_of_less: "0 \<le> p \<Longrightarrow> p < MAX_LOGICAL \<Longrightarrow> extent_of p < 16"
  by (auto simp: extent_of_eq MAX_LOGICAL_def)

lemma offset_of_less: "0 \<le> p \<Longrightarrow> p < MAX_LOGICAL \<Longrightarrow> offset_of p < GetMaxSupportedSize PAGE_SIZE"
  by (simp add: offset_of_eq nat_less_iff)

lemma extent_offset_join:
  "e < 16 \<Longrightarrow> k < GetMaxSupportedSize PAGE_SIZE \<Longrightarrow>
   0 \<le> int k + BITMAP_SIZE * int e \<and> int k + BITMAP_SIZE * int e < MAX_LOGICAL \<and>
   extent_of (int k + BITMAP_SIZE * int e) = e \<and> offset_of (int k + BITMAP_SIZE * int e) = k"
proof -
  assume e: "e < 16" and k: "k < GetMaxSupportedSize PAGE_SIZE"
  then have b: "0 \<le> int k + BITMAP_SIZE * int e" "int k + BITMAP_SIZE * int e < MAX_LOGICAL"
    by (simp_all add: MAX_LOGICAL_def)
  have "(int k + BITMAP_SIZE * int e) div BITMAP_SIZE = int e" using k by simp
  moreover have "(int k + BITMAP_SIZE * int e) mod BITMAP_SIZE = int k" using k by simp
  ultimately show ?thesis using b by (simp add: extent_of_eq offset_of_eq del: PAGE_bitmap_size)
qed

lemma page_of_parts: "0 \<le> p \<Longrightarrow> p < MAX_LOGICAL \<Longrightarrow> int (offset_of p) + BITMAP_SIZE * int (extent_of p) = p"
  by (simp add: extent_of_eq offset_of_eq pos_imp_zdiv_nonneg_iff)

section \<open>Bitmaps on disk\<close>

definition ext_bitmap :: "disk_manager \<Rightarrow> nat \<Rightarrow> bitmap_page" where
  "ext_bitmap s e = bitmap_load (phys_page s (bitmap_addr e))"

definition clip_bitmap :: "bitmap_page \<Rightarrow> bitmap_page" where
  "clip_bitmap b = b\<lparr>bytes := (\<lambda>i. if i < MAX_CHARS PAGE_SIZE then bytes b i else 0)\<rparr>"

lemma MAX_CHARS_PAGE [simp]: "MAX_CHARS PAGE_SIZE = 4088"
  by (simp add: MAX_CHARS_def PAGE_SIZE_def)

lemma clip_bitmap_free [simp]:
  "j < GetMaxSupportedSize PAGE_SIZE \<Longrightarrow> bitmap_IsPageFree (clip_bitmap b) j = bitmap_IsPageFree b j"
  by (simp add: clip_bitmap_def bitmap_IsPageFree_bit) linarith

lemma clip_bitmap_set [simp]: "allocated_set PAGE_SIZE (clip_bitmap b) = allocated_set PAGE_SIZE b"
  by (auto simp: allocated_set_def)

lemma clip_bitmap_sel [simp]:
  "page_allocated (clip_bitmap b) = page_allocated b" "next_free_page (clip_bitmap b) = next_free_page b"
  by (simp_all add: clip_bitmap_def)

lemma clip_bitmap_ok [simp]: "bitmap_ok PAGE_SIZE b \<Longrightarrow> bitmap_ok PAGE_SIZE (clip_bitmap b)"
  by (simp add: bitmap_ok_def)

lemma bitmap_load_clip:
  "bitmap_load (\<lambda>i. if i < PAGE_SIZE then bitmap_store b i else 0) = clip_bitmap b"
proof -
  let ?m = "\<lambda>i. if i < PAGE_SIZE then bitmap_store b i else 0"
  have "rd32 ?m 0 = rd32 (bitmap_store b) 0" and "rd32 ?m 4 = rd32 (bitmap_store b) 4"
    by (rule rd32_cong, simp add: PAGE_SIZE_def)+
  moreover have "?m (8 + i) = (if i < 4088 then bytes b i else 0)" for i
    by (simp add: bitmap_store_def mem_simps PAGE_SIZE_def)
  ultimately show ?thesis
    by (simp add: bitmap_load_def clip_bitmap_def) (simp add: bitmap_store_def mem_simps)
qed

lemma phys_page_meta [simp]: "phys_page (s\<lparr>meta_data := m\<rparr>) p = phys_page s p"
  by (simp add: phys_page_def cong: if_cong)

lemma io_ok_meta [simp]: "io_ok (s\<lparr>meta_data := m\<rparr>) = io_ok s"
  by (simp add: io_ok_def)

lemma ext_bitmap_meta [simp]: "ext_bitmap (s\<lparr>meta_data := m\<rparr>) e = ext_bitmap s e"
  by (simp add: ext_bitmap_def)

lemma meta_WritePhysicalPage [simp]: "meta_data (WritePhysicalPage s p d) = meta_data s"
  by (simp add: WritePhysicalPage_def Let_def)

lemma ReadPhysicalPage_zero:
  "io_ok s \<Longrightarrow> 0 \<le> p \<Longrightarrow> p < MAX_PHYS \<Longrightarrow> ReadPhysicalPage s p zero_mem = (s, phys_page s p)"
  by (auto simp: ReadPhysicalPage_ok zero_mem_def phys_page_def fun_eq_iff)

lemma read_ext_bitmap:
  "io_ok s \<Longrightarrow> e < 16 \<Longrightarrow> ReadPhysicalPage s (bitmap_addr e) zero_mem = (s, phys_page s (bitmap_addr e))"
  using bitmap_addr_bounds [of e] by (intro ReadPhysicalPage_zero) auto

lemma ext_bitmap_write:
  assumes "io_ok s" and "e < 16" and "f < 16"
  shows "ext_bitmap (WritePhysicalPage s (bitmap_addr e) (bitmap_store bm)) f =
    (if f = e then clip_bitmap bm else ext_bitmap s f)"
proof (cases "f = e")
  case True
  then show ?thesis using assms bitmap_addr_bounds [of e]
    by (simp add: ext_bitmap_def phys_page_write_same bitmap_load_clip)
next
  case False
  then have "bitmap_addr e \<noteq> bitmap_addr f" using bitmap_addr_inj assms by blast
  with False show ?thesis using assms bitmap_addr_bounds [of e] bitmap_addr_bounds [of f]
    by (simp add: ext_bitmap_def phys_page_write_other)
qed

section \<open>Invariant and abstract view\<close>

definition disk_ok :: "disk_manager \<Rightarrow> bool" where
  "disk_ok s \<longleftrightarrow> io_ok s \<and> unat (num_extents (meta_data s)) \<le> 16 \<and>
     (\<forall>e < 16. bitmap_ok PAGE_SIZE (ext_bitmap s e) \<and>
        unat (extent_used_page (meta_data s) e) = card (allocated_set PAGE_SIZE (ext_bitmap s e)) \<and>
        (unat (num_extents (meta_data s)) \<le> e \<longrightarrow> allocated_set PAGE_SIZE (ext_bitmap s e) = {}))"

definition disk_used :: "disk_manager \<Rightarrow> page_id set" where
  "disk_used s = {p. 0 \<le> p \<and> p < MAX_LOGICAL \<and>
     offset_of p \<in> allocated_set PAGE_SIZE (ext_bitmap s (extent_of p))}"

definition disk_room :: "disk_manager \<Rightarrow> bool" where
  "disk_room s \<longleftrightarrow> fst (scan_extents (meta_data s) 0) < 16"

lemma disk_okD:
  assumes "disk_ok s"
  shows "io_ok s" and "unat (num_extents (meta_data s)) \<le> 16"
    and "e < 16 \<Longrightarrow> bitmap_ok PAGE_SIZE (ext_bitmap s e)"
    and "e < 16 \<Longrightarrow> unat (extent_used_page (meta_data s) e) = card (allocated_set PAGE_SIZE (ext_bitmap s e))"
    and "e < 16 \<Longrightarrow> unat (num_extents (meta_data s)) \<le> e \<Longrightarrow> allocated_set PAGE_SIZE (ext_bitmap s e) = {}"
  using assms by (auto simp: disk_ok_def)

lemma scan_extents_found:
  "scan_extents m i = (e, True) \<Longrightarrow>
   e < unat (num_extents m) \<and> unat (extent_used_page m e) < GetMaxSupportedSize PAGE_SIZE"
proof (induction m i rule: scan_extents.induct)
  case (1 m i)
  then show ?case
    by (auto simp: scan_extents.simps [of m i] GetExtentUsedPage_def split: if_splits)
qed

lemma scan_extents_not_found:
  "scan_extents m i = (e, False) \<Longrightarrow> i \<le> unat (num_extents m) \<Longrightarrow> e = unat (num_extents m)"
proof (induction m i rule: scan_extents.induct)
  case (1 m i)
  then show ?case by (auto simp: scan_extents.simps [of m i] split: if_splits)
qed

text \<open>How the set of used pages follows a change of one bitmap.\<close>

lemma disk_used_change:
  assumes "e < 16"
    and "\<And>f. f < 16 \<Longrightarrow> allocated_set PAGE_SIZE (ext_bitmap s' f) =
      (if f = e then A else allocated_set PAGE_SIZE (ext_bitmap s f))"
  shows "disk_used s' = {p. 0 \<le> p \<and> p < MAX_LOGICAL \<and>
     (if extent_of p = e then offset_of p \<in> A else p \<in> disk_used s)}"
  using assms extent_of_less by (auto simp: disk_used_def split: if_splits)

lemma disk_used_insert:
  assumes e: "e < 16" and k: "k < GetMaxSupportedSize PAGE_SIZE"
    and ch: "\<And>f. f < 16 \<Longrightarrow> allocated_set PAGE_SIZE (ext_bitmap s' f) =
      (if f = e then insert k (allocated_set PAGE_SIZE (ext_bitmap s f))
       else allocated_set PAGE_SIZE (ext_bitmap s f))"
  shows "disk_used s' = insert (int k + BITMAP_SIZE * int e) (disk_used s)"
proof -
  have "disk_used s' = {p. 0 \<le> p \<and> p < MAX_LOGICAL \<and> (if extent_of p = e then
      offset_of p \<in> insert k (allocated_set PAGE_SIZE (ext_bitmap s e)) else p \<in> disk_used s)}"
    by (rule disk_used_change [OF e]) (simp add: ch)
  also have "\<dots> = insert (int k + BITMAP_SIZE * int e) (disk_used s)"
    using extent_offset_join [OF e k] page_of_parts
    by (auto simp: disk_used_def simp del: PAGE_bitmap_size split: if_splits)
  finally show ?thesis .
qed

lemma disk_used_remove:
  assumes p: "0 \<le> p" "p < MAX_LOGICAL"
    and ch: "\<And>f. f < 16 \<Longrightarrow> allocated_set PAGE_SIZE (ext_bitmap s' f) =
      (if f = extent_of p then allocated_set PAGE_SIZE (ext_bitmap s f) - {offset_of p}
       else allocated_set PAGE_SIZE (ext_bitmap s f))"
  shows "disk_used s' = disk_used s - {p}"
proof -
  have e: "extent_of p < 16" using extent_of_less [OF p] .
  have "disk_used s' = {q. 0 \<le> q \<and> q < MAX_LOGICAL \<and> (if extent_of q = extent_of p then
      offset_of q \<in> allocated_set PAGE_SIZE (ext_bitmap s (extent_of p)) - {offset_of p} else q \<in> disk_used s)}"
    by (rule disk_used_change [OF e]) (simp add: ch)
  also have "\<dots> = disk_used s - {p}"
    using page_of_parts [OF p] page_of_parts
    by (auto simp: disk_used_def simp del: PAGE_bitmap_size split: if_splits) metis+
  finally show ?thesis .
qed

section \<open>Allocation, release and the free test\<close>

lemma card_zero_if_empty: "allocated_set ps b = {} \<Longrightarrow> card (allocated_set ps b) = 0"
  by simp

text \<open>Every physical page that holds no bitmap (the meta page and the data pages) is as before.\<close>

definition data_pages_kept :: "disk_manager \<Rightarrow> disk_manager \<Rightarrow> bool" where
  "data_pages_kept s s' \<longleftrightarrow>
     (\<forall>q \<ge> 0. (\<forall>e < 16. q \<noteq> bitmap_addr e) \<longrightarrow> phys_page s' q = phys_page s q)"

lemma data_pages_kept_logical:
  "data_pages_kept s s' \<Longrightarrow> 0 \<le> p \<Longrightarrow> p < MAX_LOGICAL \<Longrightarrow>
   phys_page s' (MapPageId p) = phys_page s (MapPageId p)"
  using MapPageId_bounds [of p] MapPageId_not_bitmap [of p] by (simp add: data_pages_kept_def)

lemma data_pages_kept_meta: "data_pages_kept s s' \<Longrightarrow> phys_page s' META_PAGE_ID = phys_page s META_PAGE_ID"
  using bitmap_addr_bounds by (fastforce simp: data_pages_kept_def META_PAGE_ID_def)

lemma data_pages_kept_metas [simp]:
  "data_pages_kept (s\<lparr>meta_data := m\<rparr>) t = data_pages_kept s t"
  "data_pages_kept s (t\<lparr>meta_data := m\<rparr>) = data_pages_kept s t"
  by (simp_all add: data_pages_kept_def)

lemma data_pages_kept_write:
  assumes "io_ok s" and "e < 16"
  shows "data_pages_kept s (WritePhysicalPage s (bitmap_addr e) d)"
  unfolding data_pages_kept_def
proof (intro allI impI)
  fix q :: int assume "0 \<le> q" and "\<forall>e < 16. q \<noteq> bitmap_addr e"
  then show "phys_page (WritePhysicalPage s (bitmap_addr e) d) q = phys_page s q"
    using bitmap_addr_bounds [OF assms(2)] assms by (intro phys_page_write_other) auto
qed

text \<open>The bitmap an allocation starts from: the extent's own, or a fresh all-zero one.\<close>

definition start_bitmap :: "disk_manager \<Rightarrow> nat \<Rightarrow> bool \<Rightarrow> bitmap_page" where
  "start_bitmap s e found = (if found then ext_bitmap s e else bitmap_load zero_mem)"

definition alloc_meta :: "disk_file_meta_page \<Rightarrow> nat \<Rightarrow> bool \<Rightarrow> disk_file_meta_page" where
  "alloc_meta m e found = m\<lparr>num_allocated_pages := num_allocated_pages m + 1,
     extent_used_page := (extent_used_page m)(e := extent_used_page m e + 1),
     num_extents := (if found then num_extents m else num_extents m + 1)\<rparr>"

lemma DiskManager_AllocatePage_eq:
  assumes io: "io_ok s" and scan: "scan_extents (meta_data s) 0 = (e, found)" and e: "e < 16"
    and bm: "bitmap_AllocatePage PAGE_SIZE (start_bitmap s e found) = (r, ofs, b)"
    and k: "unat ofs < GetMaxSupportedSize PAGE_SIZE"
  shows "DiskManager_AllocatePage s =
    (int (unat ofs) + BITMAP_SIZE * int e,
     WritePhysicalPage (s\<lparr>meta_data := alloc_meta (meta_data s) e found\<rparr>) (bitmap_addr e) (bitmap_store b))"
proof -
  have u: "to_int32 (to_size_t (uint ofs + BITMAP_SIZE * int e)) = int (unat ofs) + BITMAP_SIZE * int e"
  proof -
    have le: "int (unat ofs) + BITMAP_SIZE * int e < MAX_LOGICAL" using extent_offset_join [OF e k] by simp
    have eq: "uint ofs + BITMAP_SIZE * int e = int (unat ofs) + BITMAP_SIZE * int e" by simp
    have ge: "0 \<le> int (unat ofs) + BITMAP_SIZE * int e" by (intro add_nonneg_nonneg mult_nonneg_nonneg of_nat_0_le_iff)
    have b: "MAX_LOGICAL < 2 ^ 31" "MAX_LOGICAL < 2 ^ 64" by (simp_all add: MAX_LOGICAL_def)
    have "to_size_t (int (unat ofs) + BITMAP_SIZE * int e) = int (unat ofs) + BITMAP_SIZE * int e"
      by (rule to_size_t_id [OF ge]) (use le b in linarith)
    moreover have "to_int32 (int (unat ofs) + BITMAP_SIZE * int e) = int (unat ofs) + BITMAP_SIZE * int e"
      by (rule to_int32_id) (use ge le b in linarith)+
    ultimately show ?thesis unfolding eq by (simp only:)
  qed
  show ?thesis
    using bm unfolding DiskManager_AllocatePage_def
    by (cases found)
      (simp_all add: Let_def scan read_ext_bitmap [OF io e] start_bitmap_def alloc_meta_def
        u [simplified] ext_bitmap_def [symmetric])
qed

lemma start_bitmap_ok:
  assumes ok: "disk_ok s" and scan: "scan_extents (meta_data s) 0 = (e, found)" and e: "e < 16"
  shows "bitmap_ok PAGE_SIZE (start_bitmap s e found)"
    and "allocated_set PAGE_SIZE (start_bitmap s e found) = allocated_set PAGE_SIZE (ext_bitmap s e)"
    and "unat (page_allocated (start_bitmap s e found)) < GetMaxSupportedSize PAGE_SIZE"
    and "unat (extent_used_page (meta_data s) e) < GetMaxSupportedSize PAGE_SIZE"
proof -
  have z: "bitmap_ok PAGE_SIZE (bitmap_load zero_mem)" by (rule bitmap_load_zero) simp
  have new: "allocated_set PAGE_SIZE (ext_bitmap s e) = {}" if "\<not> found"
    using that scan_extents_not_found [of "meta_data s" 0 e] scan disk_okD(5) [OF ok e] by simp
  show ok1: "bitmap_ok PAGE_SIZE (start_bitmap s e found)"
    using z disk_okD(3) [OF ok e] by (simp add: start_bitmap_def)
  show same: "allocated_set PAGE_SIZE (start_bitmap s e found) = allocated_set PAGE_SIZE (ext_bitmap s e)"
    using new by (simp add: start_bitmap_def allocated_set_zero)
  show lt: "unat (extent_used_page (meta_data s) e) < GetMaxSupportedSize PAGE_SIZE"
    using scan_extents_found [of "meta_data s" 0 e] scan new disk_okD(4) [OF ok e] by (cases found) auto
  show "unat (page_allocated (start_bitmap s e found)) < GetMaxSupportedSize PAGE_SIZE"
    using ok1 lt disk_okD(4) [OF ok e] same by (simp add: bitmap_ok_def)
qed

lemma DiskManager_AllocatePage_spec:
  assumes ok: "disk_ok s" and room: "disk_room s" and call: "DiskManager_AllocatePage s = (p, s')"
  shows "p \<notin> disk_used s \<and> disk_used s' = insert p (disk_used s) \<and> disk_ok s' \<and>
    0 \<le> p \<and> p < MAX_LOGICAL \<and>
    data_pages_kept s s'"
proof -
  obtain e found where scan: "scan_extents (meta_data s) 0 = (e, found)" by (metis prod.exhaust)
  with room have e: "e < 16" by (simp add: disk_room_def)
  obtain r ofs b where bm: "bitmap_AllocatePage PAGE_SIZE (start_bitmap s e found) = (r, ofs, b)"
    by (metis prod_cases3)
  note st = start_bitmap_ok [OF ok scan e]
  note io = disk_okD(1) [OF ok]
  have small: "GetMaxSupportedSize PAGE_SIZE < 2 ^ 32" by simp
  have B: "unat ofs < GetMaxSupportedSize PAGE_SIZE" "unat ofs \<notin> allocated_set PAGE_SIZE (ext_bitmap s e)"
    "allocated_set PAGE_SIZE b = insert (unat ofs) (allocated_set PAGE_SIZE (ext_bitmap s e))"
    "bitmap_ok PAGE_SIZE b"
    using bitmap_AllocatePage_spec [OF st(1,3) small bm, unfolded st(2)] by blast+
  have p: "p = int (unat ofs) + BITMAP_SIZE * int e"
    and s': "s' = WritePhysicalPage (s\<lparr>meta_data := alloc_meta (meta_data s) e found\<rparr>) (bitmap_addr e) (bitmap_store b)"
    using DiskManager_AllocatePage_eq [OF io scan e bm B(1)] call by simp_all
  have ext: "ext_bitmap s' f = (if f = e then clip_bitmap b else ext_bitmap s f)" if "f < 16" for f
    using ext_bitmap_write [OF _ e that, of "s\<lparr>meta_data := alloc_meta (meta_data s) e found\<rparr>" b] io
    by (simp add: s')
  have used: "disk_used s' = insert p (disk_used s)"
    unfolding p by (rule disk_used_insert [OF e B(1)]) (simp add: ext B(3))
  have J: "0 \<le> p" "p < MAX_LOGICAL" "extent_of p = e" "offset_of p = unat ofs"
    using extent_offset_join [OF e B(1)] by (simp_all add: p)
  have fresh: "p \<notin> disk_used s" using J B(2) by (simp add: disk_used_def)
  have io': "io_ok s'" using io bitmap_addr_bounds [OF e] by (simp add: s' WritePhysicalPage_io_ok)
  have cnt: "unat (extent_used_page (meta_data s) e + 1) = unat (extent_used_page (meta_data s) e) + 1"
    using unat_plus_one [OF st(4)] by simp
  have usedf: "extent_used_page (meta_data s') f =
      (if f = e then extent_used_page (meta_data s) e + 1 else extent_used_page (meta_data s) f)" for f
    by (simp add: s' alloc_meta_def)
  have N: "unat (num_extents (meta_data s')) =
      (if found then unat (num_extents (meta_data s)) else unat (num_extents (meta_data s)) + 1)"
    using disk_okD(2) [OF ok] unat_plus_one [of "num_extents (meta_data s)" 17]
    by (simp add: s' alloc_meta_def)
  have eN: "e < unat (num_extents (meta_data s'))" "unat (num_extents (meta_data s')) \<le> 16"
    using scan_extents_found [of "meta_data s" 0 e] scan_extents_not_found [of "meta_data s" 0 e]
      scan N e disk_okD(2) [OF ok] by (cases found; simp)+
  have "disk_ok s'"
    unfolding disk_ok_def
  proof (intro conjI allI impI)
    fix f assume f: "f < (16 :: nat)"
    show "bitmap_ok PAGE_SIZE (ext_bitmap s' f)" using disk_okD(3) [OF ok f] B(4) by (simp add: ext [OF f])
    show "unat (extent_used_page (meta_data s') f) = card (allocated_set PAGE_SIZE (ext_bitmap s' f))"
      using disk_okD(4) [OF ok f] disk_okD(4) [OF ok e] B(2,3) cnt by (simp add: ext [OF f] usedf)
    assume "unat (num_extents (meta_data s')) \<le> f"
    with eN N have "f \<noteq> e" "unat (num_extents (meta_data s)) \<le> f" by (auto split: if_splits)
    then show "allocated_set PAGE_SIZE (ext_bitmap s' f) = {}"
      using disk_okD(5) [OF ok f] by (simp add: ext [OF f])
  qed (use io' eN in auto)
  moreover have "data_pages_kept s s'"
    using data_pages_kept_write [OF _ e, of "s\<lparr>meta_data := alloc_meta (meta_data s) e found\<rparr>"] io
    by (simp add: s')
  ultimately show ?thesis using used fresh J by blast
qed

lemma DiskManager_IsPageFree_spec:
  assumes ok: "disk_ok s" and p: "0 \<le> p" "p < MAX_LOGICAL"
  shows "DiskManager_IsPageFree s p = (p \<notin> disk_used s, s)"
  using p offset_of_less [OF p]
  by (simp add: DiskManager_IsPageFree_def read_ext_bitmap [OF disk_okD(1) [OF ok] extent_of_less [OF p]]
      ext_bitmap_def [symmetric] disk_used_def allocated_set_def)

lemma DiskManager_DeAllocatePage_free:
  assumes ok: "disk_ok s" and p: "0 \<le> p" "p < MAX_LOGICAL" and un: "p \<notin> disk_used s"
  shows "DiskManager_DeAllocatePage s p = s"
proof -
  have lt: "offset_of p < GetMaxSupportedSize PAGE_SIZE" using offset_of_less [OF p] .
  then have "bitmap_IsPageFree (ext_bitmap s (extent_of p)) (unat (word_of_nat (offset_of p) :: u32))"
    using un p by (simp add: disk_used_def allocated_set_def)
  from bitmap_DeAllocatePage_free [OF this] show ?thesis
    by (simp add: DiskManager_DeAllocatePage_def read_ext_bitmap [OF disk_okD(1) [OF ok] extent_of_less [OF p]]
        ext_bitmap_def [symmetric])
qed

lemma DiskManager_DeAllocatePage_spec:
  assumes ok: "disk_ok s" and used: "p \<in> disk_used s"
  defines "s' \<equiv> DiskManager_DeAllocatePage s p"
  shows "disk_used s' = disk_used s - {p} \<and> disk_ok s' \<and>
    data_pages_kept s s'"
proof -
  have p: "0 \<le> p" "p < MAX_LOGICAL" and mem: "offset_of p \<in> allocated_set PAGE_SIZE (ext_bitmap s (extent_of p))"
    using used by (simp_all add: disk_used_def)
  define e where "e = extent_of p"
  define m where "m = meta_data s"
  have e: "e < 16" using extent_of_less [OF p] by (simp add: e_def)
  note io = disk_okD(1) [OF ok]
  have u: "unat (word_of_nat (offset_of p) :: u32) = offset_of p" using offset_of_less [OF p] by simp
  obtain r b where bm: "bitmap_DeAllocatePage (ext_bitmap s e) (word_of_nat (offset_of p)) = (r, b)"
    by (metis prod.exhaust)
  have B: "r" "allocated_set PAGE_SIZE b = allocated_set PAGE_SIZE (ext_bitmap s e) - {offset_of p}"
    "bitmap_ok PAGE_SIZE b"
    using bitmap_DeAllocatePage_spec [OF disk_okD(3) [OF ok e] _ bm] mem u by (simp_all add: e_def)
  define m' where "m' = m\<lparr>num_allocated_pages := num_allocated_pages m - 1,
      extent_used_page := (extent_used_page m)(e := extent_used_page m e - 1)\<rparr>"
  have s': "s' = (WritePhysicalPage s (bitmap_addr e) (bitmap_store b))\<lparr>meta_data := m'\<rparr>"
    using bm B(1) unfolding s'_def DiskManager_DeAllocatePage_def m'_def m_def
    by (simp add: Let_def read_ext_bitmap [OF io e] ext_bitmap_def [symmetric] flip: e_def)
  have ext: "ext_bitmap s' f = (if f = e then clip_bitmap b else ext_bitmap s f)" if "f < 16" for f
    using ext_bitmap_write [OF io e that] by (simp add: s')
  have "disk_used s' = disk_used s - {p}"
    by (rule disk_used_remove [OF p]) (simp add: ext B(2) e_def)
  moreover have "disk_ok s'"
    unfolding disk_ok_def
  proof (intro conjI allI impI)
    show "io_ok s'" using io bitmap_addr_bounds [OF e] by (simp add: s' WritePhysicalPage_io_ok)
    show "unat (num_extents (meta_data s')) \<le> 16" using disk_okD(2) [OF ok] by (simp add: s' m'_def m_def)
    fix f assume f: "f < (16 :: nat)"
    show "bitmap_ok PAGE_SIZE (ext_bitmap s' f)" using disk_okD(3) [OF ok f] B(3) by (simp add: ext [OF f])
    have usedf: "extent_used_page (meta_data s') f =
        (if f = e then extent_used_page m e - 1 else extent_used_page (meta_data s) f)"
      by (simp add: s' m'_def m_def)
    have pos: "0 < unat (extent_used_page m e)"
      using disk_okD(4) [OF ok e] mem by (auto simp: m_def e_def card_gt_0_iff)
    show "unat (extent_used_page (meta_data s') f) = card (allocated_set PAGE_SIZE (ext_bitmap s' f))"
      using disk_okD(4) [OF ok f] disk_okD(4) [OF ok e] B(2) unat_minus_one_pos [OF pos] mem
      by (simp add: ext [OF f] usedf) (simp add: e_def m_def)
    assume "unat (num_extents (meta_data s')) \<le> f"
    then have "allocated_set PAGE_SIZE (ext_bitmap s f) = {}"
      using disk_okD(5) [OF ok f] by (simp add: s' m'_def m_def)
    then show "allocated_set PAGE_SIZE (ext_bitmap s' f) = {}" using B(2) by (auto simp: ext [OF f])
  qed
  moreover have "data_pages_kept s s'"
    using data_pages_kept_write [OF io e] by (simp add: s')
  ultimately show ?thesis by blast
qed

definition disk_alloc :: "disk_manager \<Rightarrow> (page_id \<times> disk_manager) option" where
  "disk_alloc s = (if disk_room s then Some (DiskManager_AllocatePage s) else None)"

definition disk_release :: "page_id \<Rightarrow> disk_manager \<Rightarrow> disk_manager" where
  "disk_release p s = DiskManager_DeAllocatePage s p"

lemma disk_alloc_facts:
  assumes "disk_ok s" and "disk_alloc s = Some (p, s')"
  shows "p \<notin> disk_used s" and "disk_used s' = insert p (disk_used s)" and "disk_ok s'"
  using DiskManager_AllocatePage_spec [OF assms(1), of p s'] assms(2)
  by (auto simp: disk_alloc_def split: if_splits)

interpretation dm: page_allocator disk_ok disk_used disk_alloc disk_release
  by unfold_locales (use disk_alloc_facts DiskManager_DeAllocatePage_spec in \<open>auto simp: disk_release_def\<close>)

section \<open>Reading and writing data pages\<close>

definition logical_page :: "disk_manager \<Rightarrow> page_id \<Rightarrow> mem" where
  "logical_page s p = phys_page s (MapPageId p)"

lemma DiskManager_ReadPage_ok:
  assumes "disk_ok s" and "0 \<le> p" "p < MAX_LOGICAL"
  shows "DiskManager_ReadPage s p buf = Inr (s, \<lambda>i. if i < PAGE_SIZE then logical_page s p i else buf i)"
  using assms MapPageId_bounds [of p] disk_okD(1) [of s]
  by (simp add: DiskManager_ReadPage_def ReadPhysicalPage_ok logical_page_def cong: if_cong)

lemma DiskManager_WritePage_ok:
  assumes ok: "disk_ok s" and p: "0 \<le> p" "p < MAX_LOGICAL"
  obtains s' where "DiskManager_WritePage s p d = Inr s'" and "disk_ok s'" and "disk_used s' = disk_used s"
    and "meta_data s' = meta_data s"
    and "logical_page s' p = (\<lambda>i. if i < PAGE_SIZE then d i else 0)"
    and "phys_page s' META_PAGE_ID = phys_page s META_PAGE_ID"
    and "\<And>q. 0 \<le> q \<Longrightarrow> q < MAX_LOGICAL \<Longrightarrow> q \<noteq> p \<Longrightarrow> logical_page s' q = logical_page s q"
proof -
  define s' where "s' = WritePhysicalPage s (MapPageId p) d"
  note io = disk_okD(1) [OF ok] and mb = MapPageId_bounds [OF p]
  have call: "DiskManager_WritePage s p d = Inr s'" using p by (simp add: DiskManager_WritePage_def s'_def)
  have ext: "ext_bitmap s' e = ext_bitmap s e" if "e < 16" for e
    using phys_page_write_other [OF io, of "MapPageId p" "bitmap_addr e" d] mb bitmap_addr_bounds [OF that]
      MapPageId_not_bitmap [OF p that] by (simp add: ext_bitmap_def s'_def)
  have io': "io_ok s'" using WritePhysicalPage_io_ok [OF io] mb by (simp add: s'_def)
  have meta: "meta_data s' = meta_data s" by (simp add: s'_def)
  have ok': "disk_ok s'" using ok io' meta ext by (simp add: disk_ok_def)
  have used: "disk_used s' = disk_used s" using ext extent_of_less by (auto simp: disk_used_def)
  have same: "logical_page s' p = (\<lambda>i. if i < PAGE_SIZE then d i else 0)"
    unfolding logical_page_def s'_def using mb by (intro phys_page_write_same [OF io]) simp
  have other: "logical_page s' q = logical_page s q" if "0 \<le> q" "q < MAX_LOGICAL" "q \<noteq> p" for q
    unfolding logical_page_def s'_def
    by (rule phys_page_write_other [OF io]) (use mb MapPageId_bounds [OF that(1,2)] MapPageId_inj [OF that(1,2) p] that in auto)
  have m0: "phys_page s' META_PAGE_ID = phys_page s META_PAGE_ID"
    unfolding s'_def by (rule phys_page_write_other [OF io]) (use mb in \<open>auto simp: META_PAGE_ID_def\<close>)
  show ?thesis using that [OF call ok' used meta same m0 other] .
qed

section \<open>Reachable disks\<close>

text \<open>
  The disks a program can produce from a new file with the public operations, as long as the file
  stays within 16 extents.
\<close>

inductive disk_reachable :: "disk_manager \<Rightarrow> bool" where
  dr_open: "disk_reachable (DiskManager_open content 0)"
| dr_alloc: "disk_reachable s \<Longrightarrow> disk_room s \<Longrightarrow> disk_reachable (snd (DiskManager_AllocatePage s))"
| dr_dealloc: "disk_reachable s \<Longrightarrow> 0 \<le> p \<Longrightarrow> p < MAX_LOGICAL \<Longrightarrow>
    disk_reachable (DiskManager_DeAllocatePage s p)"
| dr_write: "disk_reachable s \<Longrightarrow> p < MAX_LOGICAL \<Longrightarrow> DiskManager_WritePage s p d = Inr s' \<Longrightarrow>
    disk_reachable s'"

lemma open_empty_eq:
  "DiskManager_open content 0 = \<lparr>db_file = content, file_size = 0, io_failed = False, closed = False,
     meta_data = meta_load zero_mem\<rparr>"
  by (simp add: DiskManager_open_def ReadPhysicalPage_def META_PAGE_ID_def GetFileSize_def memset0_def
      zero_mem_def)

lemma phys_page_open_empty: "phys_page (DiskManager_open content 0) p = zero_mem"
  by (simp add: open_empty_eq phys_page_def zero_mem_def)

lemma open_empty_ok: "disk_ok (DiskManager_open content 0)"
  using bitmap_load_zero [of PAGE_SIZE] allocated_set_zero [of PAGE_SIZE]
  by (simp add: disk_ok_def io_ok_def ext_bitmap_def phys_page_open_empty)
    (simp add: open_empty_eq meta_load_def)

lemma open_empty_used: "disk_used (DiskManager_open content 0) = {}"
  by (simp add: disk_used_def ext_bitmap_def phys_page_open_empty allocated_set_zero)

lemma disk_reachable_inv: "disk_reachable s \<Longrightarrow> disk_ok s \<and> phys_page s META_PAGE_ID = zero_mem"
proof (induction rule: disk_reachable.induct)
  case (dr_open content)
  then show ?case by (simp add: open_empty_ok phys_page_open_empty)
next
  case (dr_alloc s)
  then show ?case
    using DiskManager_AllocatePage_spec [of s "fst (DiskManager_AllocatePage s)" "snd (DiskManager_AllocatePage s)"]
      data_pages_kept_meta [of s "snd (DiskManager_AllocatePage s)"] by auto
next
  case (dr_dealloc s p)
  then show ?case
    using DiskManager_DeAllocatePage_spec [of s p] DiskManager_DeAllocatePage_free [of s p]
      data_pages_kept_meta [of s "DiskManager_DeAllocatePage s p"]
    by (cases "p \<in> disk_used s") auto
next
  case (dr_write s p d s')
  then have "0 \<le> p" by (auto simp: DiskManager_WritePage_def res_simps)
  with dr_write show ?case by (elim conjE) (rule DiskManager_WritePage_ok [of s p d], auto)
qed

lemma reopen_meta:
  assumes "io_ok s" and "phys_page s META_PAGE_ID = zero_mem"
  shows "DiskManager_open (db_file s) (file_size s) =
    \<lparr>db_file = db_file s, file_size = file_size s, io_failed = False, closed = False,
     meta_data = meta_load zero_mem\<rparr>"
proof -
  let ?o = "\<lparr>db_file = db_file s, file_size = file_size s, io_failed = False, closed = False,
     meta_data = meta_load zero_mem\<rparr>"
  have io: "io_ok ?o" using assms(1) by (simp add: io_ok_def)
  have pg: "phys_page ?o META_PAGE_ID = zero_mem" using assms(2) by (simp add: phys_page_def cong: if_cong)
  have "ReadPhysicalPage ?o META_PAGE_ID zero_mem = (?o, zero_mem)"
    using ReadPhysicalPage_zero [OF io, of META_PAGE_ID] pg by (simp add: META_PAGE_ID_def MAX_PHYS_def)
  then show ?thesis by (simp add: DiskManager_open_def Let_def)
qed

lemma scan_extents_full:
  "scan_extents m i = (e, False) \<Longrightarrow> i \<le> f \<Longrightarrow> f < unat (num_extents m) \<Longrightarrow>
   GetMaxSupportedSize PAGE_SIZE \<le> unat (extent_used_page m f)"
proof (induction m i rule: scan_extents.induct)
  case (1 m i)
  then show ?case
    by (cases "f = i") (auto simp: scan_extents.simps [of m i] GetExtentUsedPage_def split: if_splits)
qed

lemma disk_room_if_free:
  assumes ok: "disk_ok s" and p: "0 \<le> p" "p < MAX_LOGICAL" "p \<notin> disk_used s"
  shows "disk_room s"
proof (rule ccontr)
  assume no: "\<not> disk_room s"
  obtain e found where scan: "scan_extents (meta_data s) 0 = (e, found)" by (metis prod.exhaust)
  with no have e: "16 \<le> e" by (simp add: disk_room_def)
  with scan scan_extents_found [of "meta_data s" 0 e] disk_okD(2) [OF ok] have nf: "\<not> found"
    by (cases found) auto
  with scan e scan_extents_not_found [of "meta_data s" 0 e] disk_okD(2) [OF ok]
  have N: "unat (num_extents (meta_data s)) = 16" by simp
  note x = extent_of_less [OF p(1,2)]
  have "GetMaxSupportedSize PAGE_SIZE \<le> card (allocated_set PAGE_SIZE (ext_bitmap s (extent_of p)))"
    using scan_extents_full [of "meta_data s" 0 e "extent_of p"] scan nf N x disk_okD(4) [OF ok x] by simp
  then have "card (allocated_set PAGE_SIZE (ext_bitmap s (extent_of p))) = GetMaxSupportedSize PAGE_SIZE"
    using card_allocated_set_le le_antisym by blast
  from full_none_free [OF this offset_of_less [OF p(1,2)]] p offset_of_less [OF p(1,2)]
  show False by (simp add: disk_used_def allocated_set_def)
qed

lemma first_allocation_page_zero:
  assumes "io_ok s" and "meta_data s = meta_load zero_mem"
  shows "fst (DiskManager_AllocatePage s) = 0"
proof -
  have scan: "scan_extents (meta_data s) 0 = (0, False)"
    by (subst scan_extents.simps) (simp add: assms(2) meta_load_def)
  obtain r ofs b where bm: "bitmap_AllocatePage PAGE_SIZE (bitmap_load zero_mem) = (r, ofs, b)"
    by (metis prod_cases3)
  have "ofs = next_free_page (bitmap_load zero_mem)"
    using bitmap_AllocatePage_spec [OF bitmap_load_zero _ _ bm] by (simp add: bitmap_load_def)
  then have "ofs = 0" by (simp add: bitmap_load_def)
  with DiskManager_AllocatePage_eq [OF assms(1) scan, of r ofs b] bm show ?thesis
    by (simp add: start_bitmap_def)
qed

section \<open>Properties\<close>

text \<open>
  C1. While some page number below the 16-extent bound is unused, \<^verbatim>\<open>DiskManager::AllocatePage\<close> on a
  reachable disk returns a page that was not in use, marks exactly that page as used, and changes the
  content of no data page.
\<close>

theorem disk_allocate_fresh:
  assumes "disk_reachable s" and "\<exists>q. 0 \<le> q \<and> q < MAX_LOGICAL \<and> q \<notin> disk_used s"
  shows "\<exists>p s'. DiskManager_AllocatePage s = (p, s') \<and> 0 \<le> p \<and> p < MAX_LOGICAL \<and> p \<notin> disk_used s
    \<and> disk_used s' = insert p (disk_used s) \<and> disk_reachable s'
    \<and> (\<forall>q. 0 \<le> q \<and> q < MAX_LOGICAL \<longrightarrow> logical_page s' q = logical_page s q)"
proof -
  have ok: "disk_ok s" using disk_reachable_inv [OF assms(1)] by simp
  then have room: "disk_room s" using assms(2) disk_room_if_free by blast
  obtain p s' where call: "DiskManager_AllocatePage s = (p, s')" by (metis prod.exhaust)
  from dr_alloc [OF assms(1) room] call have "disk_reachable s'" by simp
  with DiskManager_AllocatePage_spec [OF ok room call] call data_pages_kept_logical [of s s']
  show ?thesis by (auto simp: logical_page_def)
qed

theorem disk_allocate_fresh_witness:
  "disk_reachable (DiskManager_open zero_mem 0) \<and>
   (\<exists>p s'. DiskManager_AllocatePage (DiskManager_open zero_mem 0) = (p, s') \<and> disk_used s' = {p})"
proof -
  have "\<exists>q. 0 \<le> q \<and> q < MAX_LOGICAL \<and> q \<notin> disk_used (DiskManager_open zero_mem 0)"
    by (intro exI [of _ 0]) (simp add: open_empty_used MAX_LOGICAL_def)
  from disk_allocate_fresh [OF dr_open this] dr_open show ?thesis by (auto simp: open_empty_used)
qed

text \<open>
  A run of allocations on a reachable disk never hands out the same page twice, nor a page that
  was in use, and ends with exactly the pages handed out added to those in use.
\<close>

theorem disk_allocations_distinct:
  assumes "disk_reachable s" and "alloc_many disk_alloc n s = Some (ps, s')"
  shows "distinct ps \<and> length ps = n \<and> set ps \<inter> disk_used s = {} \<and> disk_used s' = disk_used s \<union> set ps
    \<and> disk_ok s'"
  using dm.alloc_many_spec [OF _ assms(2)] disk_reachable_inv [OF assms(1)] by blast

theorem disk_allocations_distinct_witness:
  "\<exists>ps s'. alloc_many disk_alloc 1 (DiskManager_open zero_mem 0) = Some (ps, s') \<and> distinct ps \<and>
     length ps = 1 \<and> disk_used s' = set ps"
proof -
  let ?s = "DiskManager_open zero_mem 0"
  have "disk_room ?s"
    by (rule disk_room_if_free [OF open_empty_ok, of 0]) (simp_all add: open_empty_used MAX_LOGICAL_def)
  then obtain ps s' where run: "alloc_many disk_alloc 1 ?s = Some (ps, s')"
    by (cases "DiskManager_AllocatePage (DiskManager_open zero_mem 0)") (auto simp: disk_alloc_def)
  from disk_allocations_distinct [OF dr_open run] run show ?thesis by (auto simp: open_empty_used)
qed

text \<open>
  C3. \<^verbatim>\<open>DeAllocatePage\<close> of a page in range removes exactly that page from the used ones (nothing
  changes when it was free already), keeps the content of every data page, and afterwards
  \<^verbatim>\<open>IsPageFree\<close> reports precisely the pages that are not in use.
\<close>

theorem disk_deallocate_and_free_test:
  assumes "disk_reachable s" and "0 \<le> p" "p < MAX_LOGICAL" and "0 \<le> q" "q < MAX_LOGICAL"
  shows "disk_used (DiskManager_DeAllocatePage s p) = disk_used s - {p}
    \<and> logical_page (DiskManager_DeAllocatePage s p) q = logical_page s q
    \<and> (p \<notin> disk_used s \<longrightarrow> DiskManager_DeAllocatePage s p = s)
    \<and> DiskManager_IsPageFree (DiskManager_DeAllocatePage s p) q =
       (q \<notin> disk_used s \<or> q = p, DiskManager_DeAllocatePage s p)"
proof -
  have ok: "disk_ok s" using disk_reachable_inv [OF assms(1)] by simp
  show ?thesis
  proof (cases "p \<in> disk_used s")
    case True
    note D = DiskManager_DeAllocatePage_spec [OF ok True]
    with DiskManager_IsPageFree_spec [OF _ assms(4,5), of "DiskManager_DeAllocatePage s p"] True
      data_pages_kept_logical [OF _ assms(4,5), of s "DiskManager_DeAllocatePage s p"]
    show ?thesis by (auto simp: logical_page_def)
  next
    case False
    with DiskManager_DeAllocatePage_free [OF ok assms(2,3)] DiskManager_IsPageFree_spec [OF ok assms(4,5)]
    show ?thesis by auto
  qed
qed

theorem disk_deallocate_and_free_test_witness:
  "disk_used (DiskManager_DeAllocatePage (DiskManager_open zero_mem 0) 7) = {} \<and>
   fst (DiskManager_IsPageFree (DiskManager_DeAllocatePage (DiskManager_open zero_mem 0) 7) 40000)"
  using disk_deallocate_and_free_test [OF dr_open [of zero_mem], of 7 40000]
  by (auto simp: open_empty_used MAX_LOGICAL_def)

text \<open>
  C4. Data pages are independent cells: after \<^verbatim>\<open>WritePage(p, d)\<close> on a reachable disk,
  \<^verbatim>\<open>ReadPage(p)\<close> returns the \<open>PAGE_SIZE\<close> bytes written, \<^verbatim>\<open>ReadPage(q)\<close> of another page returns what
  it returned before, and the set of used pages is unchanged; both calls fail their assertion for a negative page id.
\<close>

theorem disk_write_read:
  assumes "disk_reachable s" and "p < MAX_LOGICAL" and "0 \<le> q" "q < MAX_LOGICAL"
  shows "if p < 0 then DiskManager_WritePage s p d = Inl AssertFailed \<and> DiskManager_ReadPage s p buf = Inl AssertFailed
    else (\<exists>s'. DiskManager_WritePage s p d = Inr s' \<and> disk_reachable s' \<and> disk_used s' = disk_used s \<and>
      DiskManager_ReadPage s' q buf =
        Inr (s', \<lambda>i. if i < PAGE_SIZE then (if q = p then d i else logical_page s q i) else buf i) \<and>
      DiskManager_ReadPage s q buf = Inr (s, \<lambda>i. if i < PAGE_SIZE then logical_page s q i else buf i))"
proof (cases "p < 0")
  case True
  then show ?thesis by (simp add: DiskManager_WritePage_def DiskManager_ReadPage_def)
next
  case False
  have ok: "disk_ok s" using disk_reachable_inv [OF assms(1)] by simp
  from False have p0: "0 \<le> p" by simp
  obtain s' where W: "DiskManager_WritePage s p d = Inr s'" "disk_ok s'" "disk_used s' = disk_used s"
    "logical_page s' p = (\<lambda>i. if i < PAGE_SIZE then d i else 0)"
    "q \<noteq> p \<Longrightarrow> logical_page s' q = logical_page s q"
    using DiskManager_WritePage_ok [OF ok p0 assms(2), of d] assms(3,4) by metis
  have "DiskManager_ReadPage s' q buf =
      Inr (s', \<lambda>i. if i < PAGE_SIZE then (if q = p then d i else logical_page s q i) else buf i)"
    using DiskManager_ReadPage_ok [OF W(2) assms(3,4)] W(4,5) by (cases "q = p") (simp_all cong: if_cong)
  moreover have "disk_reachable s'" using dr_write [OF assms(1,2) W(1)] .
  ultimately show ?thesis using W DiskManager_ReadPage_ok [OF ok assms(3,4)] False by auto
qed

theorem disk_write_read_witness:
  "\<exists>s'. DiskManager_WritePage (DiskManager_open zero_mem 0) 32704 (\<lambda>i. of_nat i) = Inr s' \<and>
     DiskManager_ReadPage s' 32704 zero_mem = Inr (s', \<lambda>i. if i < PAGE_SIZE then of_nat i else 0) \<and>
     DiskManager_ReadPage (DiskManager_open zero_mem 0) (-1) zero_mem = Inl AssertFailed"
  using disk_write_read [OF dr_open [of zero_mem], of "-1" 0 "\<lambda>i. of_nat i" zero_mem] disk_write_read [OF dr_open [of zero_mem], of 32704 32704 "\<lambda>i. of_nat i" zero_mem]
  by (auto simp: MAX_LOGICAL_def zero_mem_def cong: if_cong)

text \<open>
  The meta page is never written back: whatever happened before, a reachable disk's physical page 0
  holds zeros, so after the file is closed and opened again the first \<^verbatim>\<open>AllocatePage\<close> returns page 0,
  even when page 0 is in use.
\<close>

theorem reopen_reallocates_page_zero:
  assumes "disk_reachable s"
  shows "num_extents (meta_data (DiskManager_open (db_file s) (file_size s))) = 0
    \<and> fst (DiskManager_AllocatePage (DiskManager_open (db_file s) (file_size s))) = 0"
proof -
  have io: "io_ok s" and z: "phys_page s META_PAGE_ID = zero_mem"
    using disk_reachable_inv [OF assms] by (auto dest: disk_okD(1))
  show ?thesis
    using io by (simp add: reopen_meta [OF io z] first_allocation_page_zero io_ok_def)
      (simp add: meta_load_def)
qed

theorem reopen_reallocates_page_zero_witness:
  "\<exists>s. disk_reachable s \<and> 0 \<in> disk_used s
     \<and> fst (DiskManager_AllocatePage (DiskManager_open (db_file s) (file_size s))) = 0"
proof -
  let ?o = "DiskManager_open zero_mem 0"
  let ?s = "snd (DiskManager_AllocatePage ?o)"
  have room: "disk_room ?o"
    by (rule disk_room_if_free [OF open_empty_ok, of 0]) (simp_all add: open_empty_used MAX_LOGICAL_def)
  have r: "disk_reachable ?s" using dr_alloc [OF dr_open room] .
  have "fst (DiskManager_AllocatePage ?o) = 0"
    using disk_okD(1) [OF open_empty_ok, of zero_mem]
    by (intro first_allocation_page_zero) (simp_all add: open_empty_eq)
  then have "0 \<in> disk_used ?s"
    using DiskManager_AllocatePage_spec [OF open_empty_ok room, of 0 ?s] by (simp add: prod_eq_iff)
  with r reopen_reallocates_page_zero [OF r] show ?thesis by blast
qed

end
