(* ===== verification/Lru_Replacer.thy ===== *)
theory Lru_Replacer
  imports Minisql_Prelude
begin

text \<open>
  The page replacement policy: the interface \<^verbatim>\<open>Replacer\<close> (src/MiniSQL/src/include/buffer/replacer.h)
  as a locale, and \<^verbatim>\<open>LRUReplacer\<close> (include/buffer/lru_replacer.h, buffer/lru_replacer.cpp) as its
  interpretation. The \<^verbatim>\<open>std::list\<close> keeps the identity of its nodes, because \<^verbatim>\<open>lru_table_\<close> stores
  iterators into it: a node is an address and a frame id, an iterator is an address. The invariant says
  that the table holds exactly the iterator of each listed frame; the abstract view is the list of
  frames, oldest first. The recursive mutex is never locked by the code and is not modelled.
\<close>

record lru_replacer =
  lru_list :: "(nat \<times> frame_id) list"
  lru_table :: "frame_id \<rightharpoonup> nat"
  next_node :: nat

definition LRUReplacer :: "nat \<Rightarrow> lru_replacer" where
  "LRUReplacer num_pages = \<lparr>lru_list = [], lru_table = Map.empty, next_node = 0\<rparr>"

definition LRUReplacer_Size :: "lru_replacer \<Rightarrow> nat" where
  "LRUReplacer_Size r = length (lru_list r)"

definition LRUReplacer_Victim :: "lru_replacer \<Rightarrow> frame_id option \<times> lru_replacer" where
  "LRUReplacer_Victim r =
     (if LRUReplacer_Size r = 0 then (None, r)
      else (Some (snd (hd (lru_list r))),
            r\<lparr>lru_table := (lru_table r)(snd (hd (lru_list r)) := None), lru_list := tl (lru_list r)\<rparr>))"

definition list_erase :: "nat \<Rightarrow> (nat \<times> frame_id) list \<Rightarrow> (nat \<times> frame_id) list" where
  "list_erase it xs = filter (\<lambda>n. fst n \<noteq> it) xs"

definition LRUReplacer_Pin :: "frame_id \<Rightarrow> lru_replacer \<Rightarrow> lru_replacer" where
  "LRUReplacer_Pin f r =
     (case lru_table r f of
        None \<Rightarrow> r
      | Some it \<Rightarrow> r\<lparr>lru_list := list_erase it (lru_list r), lru_table := (lru_table r)(f := None)\<rparr>)"

definition LRUReplacer_Unpin :: "frame_id \<Rightarrow> lru_replacer \<Rightarrow> lru_replacer" where
  "LRUReplacer_Unpin f r =
     (case lru_table r f of
        Some it \<Rightarrow> r
      | None \<Rightarrow> r\<lparr>lru_list := lru_list r @ [(next_node r, f)],
                  lru_table := (lru_table r)(f \<mapsto> next_node r), next_node := Suc (next_node r)\<rparr>)"

section \<open>The contract of a replacer\<close>

text \<open>
  The calls a client makes, and the abstract replacer: a queue of frames without duplicates, whose head is the
  next victim; pinning takes a frame out wherever it stands, unpinning appends a frame that is not in the queue.
\<close>

datatype replacer_call = Evict | PinFrame frame_id | UnpinFrame frame_id | AskSize

datatype replacer_reply = Frame "frame_id option" | Done | Count nat

fun queue_call :: "replacer_call \<Rightarrow> frame_id list \<Rightarrow> replacer_reply \<times> frame_id list" where
  "queue_call Evict [] = (Frame None, [])"
| "queue_call Evict (f # fs) = (Frame (Some f), fs)"
| "queue_call (PinFrame f) fs = (Done, filter (\<lambda>g. g \<noteq> f) fs)"
| "queue_call (UnpinFrame f) fs = (Done, if f \<in> set fs then fs else fs @ [f])"
| "queue_call AskSize fs = (Count (length fs), fs)"

fun serve :: "('c \<Rightarrow> 's \<Rightarrow> 'o \<times> 's) \<Rightarrow> 'c list \<Rightarrow> 's \<Rightarrow> 'o list \<times> 's" where
  "serve call [] s = ([], s)"
| "serve call (c # cs) s = (case call c s of (a, s1) \<Rightarrow> case serve call cs s1 of (as, s2) \<Rightarrow> (a # as, s2))"

locale replacer =
  fixes inv :: "'r \<Rightarrow> bool"
    and frames :: "'r \<Rightarrow> frame_id list"
    and victim :: "'r \<Rightarrow> frame_id option \<times> 'r"
    and pin :: "frame_id \<Rightarrow> 'r \<Rightarrow> 'r"
    and unpin :: "frame_id \<Rightarrow> 'r \<Rightarrow> 'r"
    and size_of :: "'r \<Rightarrow> nat"
  assumes frames_distinct: "inv r \<Longrightarrow> distinct (frames r)"
    and victim_none: "inv r \<Longrightarrow> frames r = [] \<Longrightarrow> victim r = (None, r)"
    and victim_some: "inv r \<Longrightarrow> frames r = f # fs \<Longrightarrow>
      \<exists>r'. victim r = (Some f, r') \<and> inv r' \<and> frames r' = fs"
    and pin_inv: "inv r \<Longrightarrow> inv (pin f r)"
    and pin_frames: "inv r \<Longrightarrow> frames (pin f r) = filter (\<lambda>g. g \<noteq> f) (frames r)"
    and unpin_inv: "inv r \<Longrightarrow> inv (unpin f r)"
    and unpin_frames: "inv r \<Longrightarrow>
      frames (unpin f r) = (if f \<in> set (frames r) then frames r else frames r @ [f])"
    and size_frames: "inv r \<Longrightarrow> size_of r = length (frames r)"
begin

lemma victim_cases:
  assumes "inv r"
  obtains (none) "frames r = []" and "victim r = (None, r)"
    | (some) f r' where "victim r = (Some f, r')" and "inv r'" and "frames r = f # frames r'"
      and "f \<notin> set (frames r')"
proof (cases "frames r")
  case Nil
  then show ?thesis using none victim_none [OF assms] by blast
next
  case (Cons f fs)
  with victim_some [OF assms Cons] frames_distinct [OF assms] show ?thesis using some by auto
qed

fun call_of :: "replacer_call \<Rightarrow> 'r \<Rightarrow> replacer_reply \<times> 'r" where
  "call_of Evict r = (case victim r of (f, r') \<Rightarrow> (Frame f, r'))"
| "call_of (PinFrame f) r = (Done, pin f r)"
| "call_of (UnpinFrame f) r = (Done, unpin f r)"
| "call_of AskSize r = (Count (size_of r), r)"

lemma call_refines:
  assumes "inv r"
  shows "\<exists>r'. call_of c r = (fst (queue_call c (frames r)), r') \<and> inv r' \<and> frames r' = snd (queue_call c (frames r))"
proof (cases c)
  case Evict
  from assms show ?thesis by (cases rule: victim_cases) (use assms Evict in auto)
qed (use assms in \<open>auto simp: pin_inv pin_frames unpin_inv unpin_frames size_frames\<close>)

lemma serve_refines:
  "inv r \<Longrightarrow> \<exists>r'. serve call_of cs r = (fst (serve queue_call cs (frames r)), r') \<and> inv r' \<and>
    frames r' = snd (serve queue_call cs (frames r))"
proof (induction cs arbitrary: r)
  case (Cons c cs)
  from call_refines [OF Cons.prems, of c] obtain r1 where
    r1: "call_of c r = (fst (queue_call c (frames r)), r1)" "inv r1" "frames r1 = snd (queue_call c (frames r))" by blast
  from Cons.IH [OF r1(2)] r1 show ?case by (auto split: prod.splits)
qed simp

lemma pinned_not_listed: "inv r \<Longrightarrow> f \<notin> set (frames (pin f r))"
  by (simp add: pin_frames)

end

section \<open>The LRU list and its table of iterators\<close>

definition lru_inv :: "lru_replacer \<Rightarrow> bool" where
  "lru_inv r \<longleftrightarrow> distinct (map fst (lru_list r)) \<and> distinct (map snd (lru_list r)) \<and>
     (\<forall>n f. (n, f) \<in> set (lru_list r) \<longrightarrow> n < next_node r) \<and>
     (\<forall>f n. lru_table r f = Some n \<longleftrightarrow> (n, f) \<in> set (lru_list r))"

definition lru_frames :: "lru_replacer \<Rightarrow> frame_id list" where
  "lru_frames r = map snd (lru_list r)"

lemma lru_invD:
  assumes "lru_inv r"
  shows "distinct (map fst (lru_list r))" and "distinct (map snd (lru_list r))"
    and "(n, f) \<in> set (lru_list r) \<Longrightarrow> n < next_node r"
    and "lru_table r f = Some n \<longleftrightarrow> (n, f) \<in> set (lru_list r)"
  using assms unfolding lru_inv_def by blast+

lemma lru_table_None: "lru_inv r \<Longrightarrow> lru_table r f = None \<longleftrightarrow> f \<notin> set (lru_frames r)"
proof -
  assume inv: "lru_inv r"
  have "f \<in> set (lru_frames r) \<longleftrightarrow> (\<exists>n. (n, f) \<in> set (lru_list r))" by (force simp: lru_frames_def)
  then show ?thesis using lru_invD(4) [OF inv, of f] by (cases "lru_table r f") auto
qed

lemma distinct_map_inj: "distinct (map g xs) \<Longrightarrow> x \<in> set xs \<Longrightarrow> y \<in> set xs \<Longrightarrow> g x = g y \<Longrightarrow> x = y"
  by (meson distinct_map inj_onD)

lemma distinct_map_filter: "distinct (map g xs) \<Longrightarrow> distinct (map g (filter P xs))"
  by (induction xs) auto

lemma lru_Victim_refines:
  assumes inv: "lru_inv r" and fs: "lru_frames r = f # fs"
  shows "\<exists>r'. LRUReplacer_Victim r = (Some f, r') \<and> lru_inv r' \<and> lru_frames r' = fs"
proof -
  obtain n xs where xs: "lru_list r = (n, f) # xs" "fs = map snd xs"
    using fs by (cases "lru_list r") (auto simp: lru_frames_def)
  let ?r = "r\<lparr>lru_table := (lru_table r)(f := None), lru_list := xs\<rparr>"
  have call: "LRUReplacer_Victim r = (Some f, ?r)"
    by (simp add: LRUReplacer_Victim_def LRUReplacer_Size_def xs)
  have d: "(m, f) \<notin> set xs" for m using lru_invD(2) [OF inv] xs by (force simp: image_iff)
  have "lru_inv ?r"
    using lru_invD(1,2,3) [OF inv] lru_invD(4) [OF inv] d unfolding lru_inv_def by (auto simp: xs)
  with call xs show ?thesis by (auto simp: lru_frames_def)
qed

lemma lru_erase_frames:
  assumes inv: "lru_inv r" and t: "(it, f) \<in> set (lru_list r)"
  shows "list_erase it (lru_list r) = filter (\<lambda>n. snd n \<noteq> f) (lru_list r)"
  unfolding list_erase_def
proof (rule filter_cong [OF refl])
  fix x assume x: "x \<in> set (lru_list r)"
  show "(fst x \<noteq> it) = (snd x \<noteq> f)"
    using distinct_map_inj [OF lru_invD(1) [OF inv] x t] distinct_map_inj [OF lru_invD(2) [OF inv] x t]
    by (cases x) auto
qed

lemma lru_Pin_refines:
  assumes inv: "lru_inv r"
  shows "lru_inv (LRUReplacer_Pin f r) \<and> lru_frames (LRUReplacer_Pin f r) = filter (\<lambda>g. g \<noteq> f) (lru_frames r)"
proof (cases "lru_table r f")
  case None
  with lru_table_None [OF inv] have "filter (\<lambda>g. g \<noteq> f) (lru_frames r) = lru_frames r"
    by (intro filter_True) auto
  with None inv show ?thesis by (simp add: LRUReplacer_Pin_def)
next
  case (Some it)
  then have t: "(it, f) \<in> set (lru_list r)" using lru_invD(4) [OF inv] by simp
  let ?xs = "filter (\<lambda>n. snd n \<noteq> f) (lru_list r)"
  have call: "LRUReplacer_Pin f r = r\<lparr>lru_list := ?xs, lru_table := (lru_table r)(f := None)\<rparr>"
    by (simp add: LRUReplacer_Pin_def Some lru_erase_frames [OF inv t])
  have "lru_inv (LRUReplacer_Pin f r)"
    using lru_invD(3) [OF inv] lru_invD(4) [OF inv]
    by (auto simp: call lru_inv_def distinct_map_filter lru_invD(1,2) [OF inv])
  moreover have "map snd ?xs = filter (\<lambda>g. g \<noteq> f) (map snd (lru_list r))"
    by (simp add: filter_map o_def)
  ultimately show ?thesis by (simp add: call lru_frames_def)
qed

lemma lru_Unpin_refines:
  assumes inv: "lru_inv r"
  shows "lru_inv (LRUReplacer_Unpin f r) \<and> lru_frames (LRUReplacer_Unpin f r) =
    (if f \<in> set (lru_frames r) then lru_frames r else lru_frames r @ [f])"
proof (cases "lru_table r f")
  case (Some it)
  with lru_table_None [OF inv, of f] inv show ?thesis by (simp add: LRUReplacer_Unpin_def)
next
  case None
  then have f: "f \<notin> set (lru_frames r)" using lru_table_None [OF inv] by simp
  have fresh: "(next_node r, g) \<notin> set (lru_list r)" for g using lru_invD(3) [OF inv, of "next_node r" g] by auto
  have "lru_inv (LRUReplacer_Unpin f r)"
    using f fresh lru_invD(1,2) [OF inv] lru_invD(3) [OF inv] lru_invD(4) [OF inv]
    by (auto simp: LRUReplacer_Unpin_def None lru_inv_def lru_frames_def less_Suc_eq image_iff)
  with f show ?thesis by (simp add: LRUReplacer_Unpin_def None lru_frames_def)
qed

interpretation lru: replacer lru_inv lru_frames LRUReplacer_Victim LRUReplacer_Pin LRUReplacer_Unpin
  LRUReplacer_Size
proof unfold_locales
  show "lru_inv r \<Longrightarrow> distinct (lru_frames r)" for r by (simp add: lru_frames_def lru_invD(2))
  show "lru_inv r \<Longrightarrow> lru_frames r = [] \<Longrightarrow> LRUReplacer_Victim r = (None, r)" for r
    by (simp add: LRUReplacer_Victim_def LRUReplacer_Size_def lru_frames_def)
  show "lru_inv r \<Longrightarrow> LRUReplacer_Size r = length (lru_frames r)" for r
    by (simp add: LRUReplacer_Size_def lru_frames_def)
qed (simp_all add: lru_Victim_refines lru_Pin_refines lru_Unpin_refines)

lemma lru_new: "lru_inv (LRUReplacer n)" "lru_frames (LRUReplacer n) = []"
  by (simp_all add: LRUReplacer_def lru_inv_def lru_frames_def)

section \<open>Properties\<close>

text \<open>One call of a client on the replacer of the program.\<close>

fun lru_call :: "replacer_call \<Rightarrow> lru_replacer \<Rightarrow> replacer_reply \<times> lru_replacer" where
  "lru_call Evict r = (case LRUReplacer_Victim r of (f, r') \<Rightarrow> (Frame f, r'))"
| "lru_call (PinFrame f) r = (Done, LRUReplacer_Pin f r)"
| "lru_call (UnpinFrame f) r = (Done, LRUReplacer_Unpin f r)"
| "lru_call AskSize r = (Count (LRUReplacer_Size r), r)"

lemma lru_call_of: "lru.call_of = lru_call"
proof (intro ext)
  show "lru.call_of c r = lru_call c r" for c r by (cases c) (simp_all add: lru.call_of.simps)
qed

text \<open>
  C6 (refinement). The replacer is a queue without duplicates: whatever sequence of \<^verbatim>\<open>Victim\<close>, \<^verbatim>\<open>Pin\<close>, \<^verbatim>\<open>Unpin\<close>
  and \<^verbatim>\<open>Size\<close> calls is made on a fresh replacer, in any order and with any frames, it gives the replies of the
  abstract queue, in which the victim is the frame that has been evictable longest, a pinned frame leaves the
  queue wherever it stands and can be unpinned again, and an evictable frame that is unpinned keeps its place.
  After the calls its list holds the frames of the queue.
\<close>

theorem lru_refines_queue:
  "\<exists>r. serve lru_call calls (LRUReplacer n) = (fst (serve queue_call calls []), r) \<and>
     map snd (lru_list r) = snd (serve queue_call calls []) \<and> distinct (snd (serve queue_call calls []))"
  using lru.serve_refines [OF lru_new(1), of calls n, unfolded lru_call_of lru_new(2)] lru.frames_distinct
  by (metis lru_frames_def)

end
