(* ===== verification/Buffer_Pool.thy ===== *)
theory Buffer_Pool
  imports Disk_Manager Lru_Replacer
begin

text \<open>
  The buffer pool: \<^verbatim>\<open>Page\<close> (src/MiniSQL/src/include/page/page.h) and \<^verbatim>\<open>BufferPoolManager\<close>
  (include/buffer/buffer_pool_manager.h, buffer/buffer_pool_manager.cpp) over the disk manager and the
  LRU replacer. A \<^verbatim>\<open>Page *\<close> is the index of its frame in the array \<^verbatim>\<open>pages_\<close>, \<^verbatim>\<open>nullptr\<close> is
  \<open>None\<close>, and a failed assertion in the disk manager is \<open>Inl\<close>. The pin count is an unbounded
  \<open>int\<close>: it would take 2^31 nested pins to leave the range of \<^verbatim>\<open>int\<close>. The page latch is in
  the theory of the reader-writer latch; the pool's mutex is never locked. The invariant \<open>bpm_ok\<close> is
  kept by every operation except \<^verbatim>\<open>DeletePage\<close> of an unpinned resident page, for which a theorem
  shows how it breaks, and what it needs of the clients is stated; \<open>pool_safe\<close> is kept for every client; the abstract view is the content of every page number, cached or not.
\<close>

section \<open>State and operations\<close>

record page =
  page_data :: mem
  page_id_of :: page_id
  pin_count :: int
  is_dirty :: bool

definition Page :: page where
  "Page = \<lparr>page_data = zero_mem, page_id_of = INVALID_PAGE_ID, pin_count = 0, is_dirty = False\<rparr>"

definition ResetMemory :: "page \<Rightarrow> page" where
  "ResetMemory pg = pg\<lparr>page_data := memset0 (page_data pg) PAGE_SIZE\<rparr>"

definition OFFSET_LSN :: nat where
  "OFFSET_LSN = 4"

definition GetLSN :: "page \<Rightarrow> u32" where
  "GetLSN pg = rd32 (page_data pg) OFFSET_LSN"

definition SetLSN :: "page \<Rightarrow> u32 \<Rightarrow> page" where
  "SetLSN pg lsn = pg\<lparr>page_data := wr32 (page_data pg) OFFSET_LSN lsn\<rparr>"

record bpm =
  pool_size :: nat
  pages :: "page list"
  disk :: disk_manager
  page_table :: "page_id \<rightharpoonup> frame_id"
  repl :: lru_replacer
  free_list :: "frame_id list"

definition BufferPoolManager :: "nat \<Rightarrow> disk_manager \<Rightarrow> bpm" where
  "BufferPoolManager n d =
     \<lparr>pool_size = n, pages = replicate n Page, disk = d, page_table = Map.empty,
      repl = LRUReplacer n, free_list = [0..<n]\<rparr>"

definition upd_page :: "frame_id \<Rightarrow> (page \<Rightarrow> page) \<Rightarrow> bpm \<Rightarrow> bpm" where
  "upd_page f g b = b\<lparr>pages := (pages b)[f := g (pages b ! f)]\<rparr>"

text \<open>The choice of a frame, the same in \<^verbatim>\<open>FetchPage\<close> and \<^verbatim>\<open>NewPage\<close>: the free list first.\<close>

definition pick_frame :: "bpm \<Rightarrow> frame_id option \<times> bpm" where
  "pick_frame b =
     (case free_list b of
        f # fs \<Rightarrow> (Some f, b\<lparr>free_list := fs\<rparr>)
      | [] \<Rightarrow> (case LRUReplacer_Victim (repl b) of (v, r) \<Rightarrow> (v, b\<lparr>repl := r\<rparr>)))"

definition write_page :: "page_id \<Rightarrow> mem \<Rightarrow> bpm \<Rightarrow> bpm res" where
  "write_page p d b = res_bind (DiskManager_WritePage (disk b) p d) (\<lambda>s. Inr (b\<lparr>disk := s\<rparr>))"

definition read_page :: "frame_id \<Rightarrow> page_id \<Rightarrow> bpm \<Rightarrow> bpm res" where
  "read_page f p b = res_bind (DiskManager_ReadPage (disk b) p (page_data (pages b ! f)))
     (\<lambda>(s, d). Inr (upd_page f (\<lambda>pg. pg\<lparr>page_data := d\<rparr>) (b\<lparr>disk := s\<rparr>)))"

text \<open>Frame \<open>f\<close> changes from the page it held to page \<open>p\<close> in the page table.\<close>

definition retable :: "frame_id \<Rightarrow> page_id \<Rightarrow> bpm \<Rightarrow> bpm" where
  "retable f p b = b\<lparr>page_table := ((page_table b)(page_id_of (pages b ! f) := None))(p \<mapsto> f)\<rparr>"

definition FetchPage :: "bpm \<Rightarrow> page_id \<Rightarrow> (frame_id option \<times> bpm) res" where
  "FetchPage b p =
     (case page_table b p of
        None \<Rightarrow>
          (case pick_frame b of
             (None, b1) \<Rightarrow> Inr (None, b1)
           | (Some f, b1) \<Rightarrow>
               res_bind (if is_dirty (pages b1 ! f)
                         then write_page (page_id_of (pages b1 ! f)) (page_data (pages b1 ! f)) b1
                         else Inr b1)
                 (\<lambda>b2. res_bind
                    (read_page f p (upd_page f (\<lambda>pg. pg\<lparr>pin_count := pin_count pg + 1, page_id_of := p,
                                                         is_dirty := False\<rparr>) (retable f p b2)))
                    (\<lambda>b3. Inr (Some f, b3\<lparr>repl := LRUReplacer_Pin f (repl b3)\<rparr>))))
      | Some f \<Rightarrow>
          let b1 = upd_page f (\<lambda>pg. pg\<lparr>pin_count := pin_count pg + 1\<rparr>) b
          in Inr (Some f, b1\<lparr>repl := LRUReplacer_Pin f (repl b1)\<rparr>))"

definition NewPage :: "bpm \<Rightarrow> ((frame_id \<times> page_id) option \<times> bpm) res" where
  "NewPage b =
     (if \<forall>pg \<in> set (pages b). pin_count pg \<noteq> 0 then Inr (None, b)
      else
        case pick_frame b of
          (None, b1) \<Rightarrow> Inr (None, b1)
        | (Some f, b1) \<Rightarrow>
            let (p, s) = DiskManager_AllocatePage (disk b1); b2 = b1\<lparr>disk := s\<rparr> in
            res_bind (if is_dirty (pages b2 ! f)
                      then write_page (page_id_of (pages b2 ! f)) zero_mem b2
                      else Inr b2)
              (\<lambda>b3. Inr (Some (f, p),
                 upd_page f (\<lambda>pg. (ResetMemory pg)\<lparr>is_dirty := False, page_id_of := p,
                                                    pin_count := pin_count pg + 1\<rparr>) (retable f p b3))))"

definition DeletePage :: "bpm \<Rightarrow> page_id \<Rightarrow> bool \<times> bpm" where
  "DeletePage b p =
     (let b1 = b\<lparr>disk := DiskManager_DeAllocatePage (disk b) p\<rparr> in
      case page_table b1 p of
        None \<Rightarrow> (True, b1)
      | Some f \<Rightarrow>
          if pin_count (pages b1 ! f) \<noteq> 0 then (False, b1)
          else (True, (upd_page f (\<lambda>pg. pg\<lparr>pin_count := 0, is_dirty := False, page_id_of := INVALID_PAGE_ID\<rparr>)
                         (b1\<lparr>page_table := (page_table b1)(p := None), free_list := free_list b1 @ [f]\<rparr>))))"

definition UnpinPage :: "bpm \<Rightarrow> page_id \<Rightarrow> bool \<Rightarrow> bool \<times> bpm" where
  "UnpinPage b p dirty =
     (case page_table b p of
        None \<Rightarrow> (True, b)
      | Some f \<Rightarrow>
          let b1 = upd_page f (\<lambda>pg. pg\<lparr>is_dirty := (is_dirty pg \<or> dirty)\<rparr>) b in
          if pin_count (pages b1 ! f) = 0 then (False, b1)
          else
            let b2 = upd_page f (\<lambda>pg. pg\<lparr>pin_count := pin_count pg - 1\<rparr>) b1 in
            if pin_count (pages b2 ! f) = 0 then (True, b2\<lparr>repl := LRUReplacer_Unpin f (repl b2)\<rparr>)
            else (True, b2))"

definition FlushPage :: "bpm \<Rightarrow> page_id \<Rightarrow> (bool \<times> bpm) res" where
  "FlushPage b p =
     (case page_table b p of
        None \<Rightarrow> Inr (False, b)
      | Some f \<Rightarrow> res_bind (write_page p (page_data (pages b ! f)) b)
                    (\<lambda>b1. Inr (True, upd_page f (\<lambda>pg. pg\<lparr>is_dirty := False\<rparr>) b1)))"

text \<open>
  The destructor flushes every page of the page table; \<open>ps\<close> is the order in which the
  \<^verbatim>\<open>unordered_map\<close> is traversed.
\<close>

fun flush_all :: "bpm \<Rightarrow> page_id list \<Rightarrow> bpm res" where
  "flush_all b [] = Inr b"
| "flush_all b (p # ps) = res_bind (FlushPage b p) (\<lambda>(_, b1). flush_all b1 ps)"

definition BPM_IsPageFree :: "bpm \<Rightarrow> page_id \<Rightarrow> bool \<times> bpm" where
  "BPM_IsPageFree b p = (case DiskManager_IsPageFree (disk b) p of (r, s) \<Rightarrow> (r, b\<lparr>disk := s\<rparr>))"

definition CheckAllUnpinned :: "bpm \<Rightarrow> bool" where
  "CheckAllUnpinned b \<longleftrightarrow> (\<forall>pg \<in> set (take (pool_size b) (pages b)). pin_count pg = 0)"

text \<open>A client stores into the page it holds, through \<^verbatim>\<open>GetData()\<close>.\<close>

definition store_page :: "frame_id \<Rightarrow> mem \<Rightarrow> bpm \<Rightarrow> bpm" where
  "store_page f d b =
     upd_page f (\<lambda>pg. pg\<lparr>page_data := (\<lambda>i. if i < PAGE_SIZE then d i else page_data pg i)\<rparr>) b"

section \<open>Invariant\<close>

definition clipped :: "mem \<Rightarrow> bool" where
  "clipped m \<longleftrightarrow> (\<forall>i. PAGE_SIZE \<le> i \<longrightarrow> m i = 0)"

definition valid_pid :: "page_id \<Rightarrow> bool" where
  "valid_pid p \<longleftrightarrow> 0 \<le> p \<and> p < MAX_LOGICAL"

text \<open>What a frame must satisfy: a free one is blank, any other is the one the table gives for its page.\<close>

definition frame_ok :: "bpm \<Rightarrow> frame_id \<Rightarrow> bool" where
  "frame_ok b f \<longleftrightarrow> 0 \<le> pin_count (pages b ! f) \<and> clipped (page_data (pages b ! f)) \<and>
     (if f \<in> set (free_list b)
      then pin_count (pages b ! f) = 0 \<and> \<not> is_dirty (pages b ! f) \<and> page_id_of (pages b ! f) = INVALID_PAGE_ID
      else valid_pid (page_id_of (pages b ! f)) \<and> page_table b (page_id_of (pages b ! f)) = Some f)"

definition bpm_ok :: "bpm \<Rightarrow> bool" where
  "bpm_ok b \<longleftrightarrow> length (pages b) = pool_size b \<and> disk_ok (disk b) \<and> lru_inv (repl b) \<and>
     distinct (free_list b) \<and> set (free_list b) \<subseteq> {..<pool_size b} \<and>
     (\<forall>f < pool_size b. frame_ok b f) \<and>
     (\<forall>p f. page_table b p = Some f \<longrightarrow> f < pool_size b \<and> f \<notin> set (free_list b) \<and> page_id_of (pages b ! f) = p) \<and>
     set (lru_frames (repl b)) = {f. f < pool_size b \<and> f \<notin> set (free_list b) \<and> pin_count (pages b ! f) = 0}"

text \<open>Unpinned clean pages agree with the disk; clients keep this by unpinning what they changed as dirty.\<close>

definition synced :: "bpm \<Rightarrow> bool" where
  "synced b \<longleftrightarrow> (\<forall>f < pool_size b. f \<notin> set (free_list b) \<and> pin_count (pages b ! f) = 0 \<and> \<not> is_dirty (pages b ! f)
     \<longrightarrow> page_data (pages b ! f) = logical_page (disk b) (page_id_of (pages b ! f)))"

text \<open>The abstract content of a page: its cached copy when there is one, the disk otherwise.\<close>

definition page_view :: "bpm \<Rightarrow> page_id \<Rightarrow> mem" where
  "page_view b p = (case page_table b p of Some f \<Rightarrow> page_data (pages b ! f) | None \<Rightarrow> logical_page (disk b) p)"

lemma bpm_okD:
  assumes "bpm_ok b"
  shows "length (pages b) = pool_size b" and "disk_ok (disk b)" and "lru_inv (repl b)"
    and "distinct (free_list b)" and "set (free_list b) \<subseteq> {..<pool_size b}"
    and "f < pool_size b \<Longrightarrow> frame_ok b f"
    and "page_table b p = Some f \<Longrightarrow> f < pool_size b \<and> f \<notin> set (free_list b) \<and> page_id_of (pages b ! f) = p"
    and "set (lru_frames (repl b)) = {f. f < pool_size b \<and> f \<notin> set (free_list b) \<and> pin_count (pages b ! f) = 0}"
  using assms unfolding bpm_ok_def by blast+

lemma resident_facts:
  assumes ok: "bpm_ok b" and t: "page_table b p = Some f"
  shows "f < pool_size b" and "f < length (pages b)" and "f \<notin> set (free_list b)" and "page_id_of (pages b ! f) = p" and "valid_pid p"
    and "0 \<le> pin_count (pages b ! f)" and "clipped (page_data (pages b ! f))"
  using bpm_okD(7) [OF ok t] bpm_okD(6) [OF ok, of f] bpm_okD(1) [OF ok] by (auto simp: frame_ok_def)

lemma upd_page_sel [simp]:
  "pool_size (upd_page f g b) = pool_size b" "disk (upd_page f g b) = disk b"
  "page_table (upd_page f g b) = page_table b" "repl (upd_page f g b) = repl b"
  "free_list (upd_page f g b) = free_list b" "length (pages (upd_page f g b)) = length (pages b)"
  by (simp_all add: upd_page_def)

lemma pages_upd_page [simp]:
  "f < length (pages b) \<Longrightarrow> pages (upd_page f g b) ! h = (if h = f then g (pages b ! f) else pages b ! h)"
  by (simp add: upd_page_def nth_list_update)

text \<open>A change of one resident frame that keeps its page id keeps the invariant, given the right replacer.\<close>

lemma upd_resident_ok:
  assumes ok: "bpm_ok b" and t: "page_table b p = Some f"
    and g: "page_id_of (g (pages b ! f)) = p" "0 \<le> pin_count (g (pages b ! f))" "clipped (page_data (g (pages b ! f)))"
    and r: "lru_inv r" "set (lru_frames r) =
      (if pin_count (g (pages b ! f)) = 0 then insert f (set (lru_frames (repl b))) else set (lru_frames (repl b)) - {f})"
    and d: "disk_ok d"
  shows "bpm_ok ((upd_page f g b)\<lparr>repl := r, disk := d\<rparr>)"
proof -
  note R = resident_facts [OF ok t]
  have F: "frame_ok ((upd_page f g b)\<lparr>repl := r, disk := d\<rparr>) h" if "h < pool_size b" for h
    using bpm_okD(6) [OF ok that] bpm_okD(6) [OF ok R(1)] R g by (auto simp: frame_ok_def t)
  show ?thesis
    unfolding bpm_ok_def
    using bpm_okD(1,4,5) [OF ok] bpm_okD(7) [OF ok] bpm_okD(8) [OF ok] R g r d F
    by (auto simp: upd_page_def [of f g b, symmetric] split: if_splits)
qed

section \<open>Choosing and filling a frame\<close>

definition evictable :: "bpm \<Rightarrow> frame_id \<Rightarrow> lru_replacer \<Rightarrow> frame_id list \<Rightarrow> bool" where
  "evictable b f r fl \<longleftrightarrow> f < pool_size b \<and> pin_count (pages b ! f) = 0 \<and> distinct fl \<and>
     set fl = set (free_list b) - {f} \<and> lru_inv r \<and> set (lru_frames r) = set (lru_frames (repl b)) - {f}"

lemma pick_frame_cases:
  assumes ok: "bpm_ok b"
  obtains (full) "pick_frame b = (None, b)" and "\<And>f. f < pool_size b \<Longrightarrow> pin_count (pages b ! f) \<noteq> 0"
    | (picked) f r fl where "pick_frame b = (Some f, b\<lparr>repl := r, free_list := fl\<rparr>)" and "evictable b f r fl"
proof (cases "free_list b")
  case (Cons f fs)
  have f: "f < pool_size b" "f \<in> set (free_list b)" using bpm_okD(5) [OF ok] Cons by auto
  have "evictable b f (repl b) fs"
    using f bpm_okD(6) [OF ok f(1)] bpm_okD(3,4,8) [OF ok] Cons by (auto simp: evictable_def frame_ok_def)
  moreover have "pick_frame b = (Some f, b\<lparr>repl := repl b, free_list := fs\<rparr>)" by (simp add: pick_frame_def Cons)
  ultimately show ?thesis using picked by blast
next
  case Nil
  from bpm_okD(3) [OF ok] show ?thesis
  proof (cases rule: lru.victim_cases)
    case none
    then have "pick_frame b = (None, b)" by (simp add: pick_frame_def Nil)
    moreover have "pin_count (pages b ! f) \<noteq> 0" if "f < pool_size b" for f
      using bpm_okD(8) [OF ok] none Nil that by auto
    ultimately show ?thesis using full by blast
  next
    case (some f r')
    have "f \<in> set (lru_frames (repl b))" using some by simp
    then have "evictable b f r' []"
      using bpm_okD(8) [OF ok] some Nil by (auto simp: evictable_def)
    moreover have "pick_frame b = (Some f, b\<lparr>repl := r', free_list := []\<rparr>)"
      using some by (simp add: pick_frame_def Nil)
    ultimately show ?thesis using picked by blast
  qed
qed

text \<open>The pool after frame \<open>f\<close> has received the page \<open>pg\<close>.\<close>

definition install :: "frame_id \<Rightarrow> page \<Rightarrow> disk_manager \<Rightarrow> lru_replacer \<Rightarrow> frame_id list \<Rightarrow> bpm \<Rightarrow> bpm" where
  "install f pg d r fl b = b\<lparr>pages := (pages b)[f := pg], disk := d,
     page_table := ((page_table b)(page_id_of (pages b ! f) := None))(page_id_of pg \<mapsto> f),
     repl := r, free_list := fl\<rparr>"

lemma install_sel [simp]:
  "pool_size (install f pg d r fl b) = pool_size b" "disk (install f pg d r fl b) = d"
  "repl (install f pg d r fl b) = r" "free_list (install f pg d r fl b) = fl"
  "length (pages (install f pg d r fl b)) = length (pages b)"
  "page_table (install f pg d r fl b) =
     ((page_table b)(page_id_of (pages b ! f) := None))(page_id_of pg \<mapsto> f)"
  by (simp_all add: install_def)

lemma install_pages [simp]:
  "f < length (pages b) \<Longrightarrow> pages (install f pg d r fl b) ! h = (if h = f then pg else pages b ! h)"
  by (simp add: install_def nth_list_update)

lemma other_page_id:
  assumes ok: "bpm_ok b" and "f < pool_size b" "h < pool_size b" "h \<noteq> f" "h \<notin> set (free_list b)"
  shows "page_id_of (pages b ! h) \<noteq> page_id_of (pages b ! f)"
  using bpm_okD(6) [OF ok assms(2)] bpm_okD(6) [OF ok assms(3)] assms
  by (auto simp: frame_ok_def valid_pid_def INVALID_PAGE_ID_def split: if_splits)

lemma table_page_id:
  assumes ok: "bpm_ok b" and t: "page_table b q = Some h" and f: "f < pool_size b"
  shows "q = page_id_of (pages b ! f) \<longleftrightarrow> h = f"
proof -
  note R = resident_facts [OF ok t]
  show ?thesis using other_page_id [OF ok f R(1) _ R(3)] R(4) by auto
qed

lemma install_ok:
  assumes ok: "bpm_ok b" and ev: "evictable b f r fl" and d: "disk_ok d"
    and new: "page_table b (page_id_of pg) = None" "valid_pid (page_id_of pg)" "pin_count pg = 1"
      "clipped (page_data pg)"
  shows "bpm_ok (install f pg d r fl b)"
proof -
  have f: "f < pool_size b" "f < length (pages b)" and fl: "set fl = set (free_list b) - {f}" "distinct fl"
    and r: "lru_inv r" "set (lru_frames r) = set (lru_frames (repl b)) - {f}"
    using ev bpm_okD(1) [OF ok] by (auto simp: evictable_def)
  let ?b = "install f pg d r fl b"
  have F: "frame_ok ?b h" if h: "h < pool_size b" for h
  proof (cases "h = f")
    case True
    then show ?thesis using new fl f by (simp add: frame_ok_def)
  next
    case False
    have "page_id_of (pages b ! h) \<noteq> page_id_of pg" if "h \<notin> set (free_list b)"
      using bpm_okD(6) [OF ok h] new(1) that by (auto simp: frame_ok_def)
    with other_page_id [OF ok f(1) h False] bpm_okD(6) [OF ok h] False fl f
    show ?thesis by (auto simp: frame_ok_def)
  qed
  have T: "h < pool_size b \<and> h \<notin> set fl \<and> page_id_of (pages ?b ! h) = q" if "page_table ?b q = Some h" for q h
  proof (cases "q = page_id_of pg")
    case True
    then show ?thesis using that f fl by auto
  next
    case False
    with that have t: "page_table b q = Some h" and ne: "q \<noteq> page_id_of (pages b ! f)"
      by (auto split: if_splits)
    from resident_facts [OF ok t] table_page_id [OF ok t f(1)] ne fl f show ?thesis by auto
  qed
  have L: "set (lru_frames r) = {h. h < pool_size b \<and> h \<notin> set fl \<and> pin_count (pages ?b ! h) = 0}"
    using r(2) bpm_okD(8) [OF ok] fl new(3) f by auto
  show ?thesis unfolding bpm_ok_def
    using bpm_okD(1,5) [OF ok] F T L d r(1) fl f by auto
qed

text \<open>What the eviction of frame \<open>f\<close> leaves on disk when \<open>w\<close> is written for a dirty page.\<close>

definition evicted_disk :: "bpm \<Rightarrow> frame_id \<Rightarrow> mem \<Rightarrow> disk_manager \<Rightarrow> disk_manager \<Rightarrow> bool" where
  "evicted_disk b f w s d \<longleftrightarrow> disk_ok d \<and> disk_used d = disk_used s \<and>
     (\<forall>q. valid_pid q \<longrightarrow> logical_page d q =
        (if is_dirty (pages b ! f) \<and> q = page_id_of (pages b ! f) then w else logical_page s q))"

lemma clip_id: "clipped w \<Longrightarrow> (\<lambda>i. if i < PAGE_SIZE then w i else 0) = w"
  by (auto simp: clipped_def fun_eq_iff)

lemma write_back:
  assumes ok: "bpm_ok b" and f: "f < pool_size b" and s: "disk_ok s" and w: "clipped w"
  obtains d where "(if is_dirty (pages b ! f) then DiskManager_WritePage s (page_id_of (pages b ! f)) w else Inr s) = Inr d"
    and "evicted_disk b f w s d"
proof (cases "is_dirty (pages b ! f)")
  case False
  then show ?thesis using that [of s] s by (simp add: evicted_disk_def)
next
  case True
  then have v: "0 \<le> page_id_of (pages b ! f)" "page_id_of (pages b ! f) < MAX_LOGICAL"
    using bpm_okD(6) [OF ok f] by (auto simp: frame_ok_def valid_pid_def split: if_splits)
  show ?thesis
  proof (rule DiskManager_WritePage_ok [OF s v, of w])
    fix d assume D: "DiskManager_WritePage s (page_id_of (pages b ! f)) w = Inr d" "disk_ok d" "disk_used d = disk_used s"
      "logical_page d (page_id_of (pages b ! f)) = (\<lambda>i. if i < PAGE_SIZE then w i else 0)"
      "\<And>q. 0 \<le> q \<Longrightarrow> q < MAX_LOGICAL \<Longrightarrow> q \<noteq> page_id_of (pages b ! f) \<Longrightarrow> logical_page d q = logical_page s q"
    have "evicted_disk b f w s d"
      unfolding evicted_disk_def using True D(2,3,4) D(5) w by (simp add: valid_pid_def clip_id)
    with True D(1) that [of d] show ?thesis by simp
  qed
qed

section \<open>FetchPage\<close>

lemma clipped_logical_page [simp]: "clipped (logical_page s p)"
  by (simp add: clipped_def logical_page_def phys_page_def)

lemma ReadPage_clipped:
  assumes "disk_ok s" and "valid_pid p" and "clipped buf"
  shows "DiskManager_ReadPage s p buf = Inr (s, logical_page s p)"
proof -
  have "(\<lambda>i. if i < PAGE_SIZE then logical_page s p i else buf i) = logical_page s p"
    using assms(3) clipped_logical_page [of s p] by (auto simp: clipped_def fun_eq_iff)
  then show ?thesis using DiskManager_ReadPage_ok [OF assms(1), of p buf] assms(2) by (simp add: valid_pid_def)
qed

lemma page_fill:
  "pg\<lparr>pin_count := c, page_id_of := p, is_dirty := x, page_data := d\<rparr> =
   \<lparr>page_data = d, page_id_of = p, pin_count = c, is_dirty = x\<rparr>"
  "pg\<lparr>page_data := d, is_dirty := x, page_id_of := p, pin_count := c\<rparr> =
   \<lparr>page_data = d, page_id_of = p, pin_count = c, is_dirty = x\<rparr>"
  by (cases pg, simp)+

lemma pin_evicted:
  assumes "evictable b f r fl"
  shows "evictable b f (LRUReplacer_Pin f r) fl"
  using assms lru.pin_inv [of r f] lru.pin_frames [of r f] by (auto simp: evictable_def)

lemma FetchPage_miss:
  assumes ok: "bpm_ok b" and t: "page_table b p = None" and v: "valid_pid p"
    and pick: "pick_frame b = (Some f, b\<lparr>repl := r, free_list := fl\<rparr>)" and ev: "evictable b f r fl"
  obtains d where "evicted_disk b f (page_data (pages b ! f)) (disk b) d"
    and "FetchPage b p = Inr (Some f, install f \<lparr>page_data = logical_page d p, page_id_of = p, pin_count = 1, is_dirty = False\<rparr>
           d (LRUReplacer_Pin f r) fl b)"
proof -
  have f: "f < pool_size b" "pin_count (pages b ! f) = 0" using ev by (simp_all add: evictable_def)
  have cl: "clipped (page_data (pages b ! f))" using bpm_okD(6) [OF ok f(1)] by (simp add: frame_ok_def)
  obtain d where d: "(if is_dirty (pages b ! f) then DiskManager_WritePage (disk b) (page_id_of (pages b ! f)) (page_data (pages b ! f))
      else Inr (disk b)) = Inr d" and e: "evicted_disk b f (page_data (pages b ! f)) (disk b) d"
    by (rule write_back [OF ok f(1) bpm_okD(2) [OF ok] cl])
  have dok: "disk_ok d" using e by (simp add: evicted_disk_def)
  have len: "f < length (pages b)" using f bpm_okD(1) [OF ok] by simp
  have "FetchPage b p = Inr (Some f, install f \<lparr>page_data = logical_page d p, page_id_of = p, pin_count = 1, is_dirty = False\<rparr>
           d (LRUReplacer_Pin f r) fl b)"
    using d f(2) len ReadPage_clipped [OF dok v cl]
    by (cases "is_dirty (pages b ! f)")
      (simp_all add: FetchPage_def t pick write_page_def read_page_def retable_def upd_page_def install_def page_fill)
  with e that show ?thesis by blast
qed

lemma FetchPage_hit:
  assumes ok: "bpm_ok b" and t: "page_table b p = Some f"
  shows "FetchPage b p = Inr (Some f, (upd_page f (\<lambda>pg. pg\<lparr>pin_count := pin_count pg + 1\<rparr>) b)
           \<lparr>repl := LRUReplacer_Pin f (repl b), disk := disk b\<rparr>)"
  by (simp add: FetchPage_def t Let_def)

lemma page_view_install:
  assumes ok: "bpm_ok b" and sy: "synced b" and ev: "evictable b f r fl" and t: "page_table b (page_id_of pg) = None"
    and e: "evicted_disk b f (page_data (pages b ! f)) (disk b) d" and q: "valid_pid q"
  shows "page_view (install f pg d r' fl' b) q = (if q = page_id_of pg then page_data pg else page_view b q)"
proof -
  have f: "f < pool_size b" "f < length (pages b)" using ev bpm_okD(1) [OF ok] by (auto simp: evictable_def)
  have D: "logical_page d q = (if is_dirty (pages b ! f) \<and> q = page_id_of (pages b ! f) then page_data (pages b ! f)
      else logical_page (disk b) q)"
    using e q by (simp add: evicted_disk_def)
  consider "q = page_id_of pg" | "q \<noteq> page_id_of pg" "q = page_id_of (pages b ! f)"
    | "q \<noteq> page_id_of pg" "q \<noteq> page_id_of (pages b ! f)" by blast
  then show ?thesis
  proof cases
    case 1
    then show ?thesis using f by (simp add: page_view_def)
  next
    case 2
    with bpm_okD(6) [OF ok f(1)] q have nf: "f \<notin> set (free_list b)" "page_table b q = Some f"
      by (auto simp: frame_ok_def valid_pid_def INVALID_PAGE_ID_def split: if_splits)
    with sy f ev have "\<not> is_dirty (pages b ! f) \<Longrightarrow> page_data (pages b ! f) = logical_page (disk b) q"
      unfolding 2(2) synced_def evictable_def by blast
    with 2 nf D show ?thesis by (simp add: page_view_def)
  next
    case 3
    then show ?thesis using D f table_page_id [OF ok _ f(1), of q]
      by (auto simp: page_view_def split: option.splits)
  qed
qed

lemma synced_install:
  assumes ok: "bpm_ok b" and sy: "synced b" and ev: "evictable b f r fl"
    and e: "evicted_disk b f w (disk b) d" and pg: "pin_count pg = 1"
  shows "synced (install f pg d r' fl b)"
  unfolding synced_def
proof (intro allI impI)
  fix h assume h: "h < pool_size (install f pg d r' fl b)"
    and A: "h \<notin> set (free_list (install f pg d r' fl b)) \<and> pin_count (pages (install f pg d r' fl b) ! h) = 0
      \<and> \<not> is_dirty (pages (install f pg d r' fl b) ! h)"
  have f: "f < pool_size b" "f < length (pages b)" "set fl = set (free_list b) - {f}"
    using ev bpm_okD(1) [OF ok] by (auto simp: evictable_def)
  have hf: "h \<noteq> f" using A pg install_pages [OF f(2), of pg d r' fl h] by (cases "h = f") simp_all
  have H: "h < pool_size b" "h \<notin> set (free_list b)" "pin_count (pages b ! h) = 0" "\<not> is_dirty (pages b ! h)"
    using h A hf f(3) install_pages [OF f(2), of pg d r' fl h] by simp_all
  have "valid_pid (page_id_of (pages b ! h))" using bpm_okD(6) [OF ok H(1)] H(2) by (simp add: frame_ok_def)
  with other_page_id [OF ok f(1) H(1) hf H(2)] e sy H hf f
  show "page_data (pages (install f pg d r' fl b) ! h) =
      logical_page (disk (install f pg d r' fl b)) (page_id_of (pages (install f pg d r' fl b) ! h))"
    by (simp add: evicted_disk_def synced_def)
qed

section \<open>NewPage\<close>

definition table_used :: "bpm \<Rightarrow> bool" where
  "table_used b \<longleftrightarrow> dom (page_table b) \<subseteq> disk_used (disk b)"

definition all_pinned :: "bpm \<Rightarrow> bool" where
  "all_pinned b \<longleftrightarrow> (\<forall>pg \<in> set (pages b). pin_count pg \<noteq> 0)"

lemma all_pinned_nth: "bpm_ok b \<Longrightarrow> all_pinned b \<longleftrightarrow> (\<forall>f < pool_size b. pin_count (pages b ! f) \<noteq> 0)"
  using bpm_okD(1) [of b] by (auto simp: all_pinned_def all_set_conv_all_nth)

lemma zero_page: "clipped m \<Longrightarrow> memset0 m PAGE_SIZE = zero_mem"
  by (auto simp: memset0_def zero_mem_def clipped_def fun_eq_iff)

lemma clipped_zero [simp]: "clipped zero_mem"
  by (simp add: clipped_def zero_mem_def)

abbreviation blank_page :: "page_id \<Rightarrow> page" where
  "blank_page p \<equiv> \<lparr>page_data = zero_mem, page_id_of = p, pin_count = 1, is_dirty = False\<rparr>"

lemma NewPage_full: "all_pinned b \<Longrightarrow> NewPage b = Inr (None, b)"
  by (simp add: NewPage_def all_pinned_def)

lemma NewPage_some:
  assumes ok: "bpm_ok b" and room: "disk_room (disk b)" and np: "\<not> all_pinned b"
  obtains f p r fl s d where "DiskManager_AllocatePage (disk b) = (p, s)" and "evictable b f r fl"
    and "pick_frame b = (Some f, b\<lparr>repl := r, free_list := fl\<rparr>)"
    and "evicted_disk b f zero_mem s d" and "NewPage b = Inr (Some (f, p), install f (blank_page p) d r fl b)"
  using ok
proof (cases rule: pick_frame_cases)
  case full
  with np all_pinned_nth [OF ok] show ?thesis by blast
next
  case (picked f r fl)
  obtain p s where a: "DiskManager_AllocatePage (disk b) = (p, s)" by (metis prod.exhaust)
  have f: "f < pool_size b" "pin_count (pages b ! f) = 0" using picked(2) by (simp_all add: evictable_def)
  have cl: "clipped (page_data (pages b ! f))" using bpm_okD(6) [OF ok f(1)] by (simp add: frame_ok_def)
  have s: "disk_ok s" using DiskManager_AllocatePage_spec [OF bpm_okD(2) [OF ok] room a] by simp
  obtain d where d: "(if is_dirty (pages b ! f) then DiskManager_WritePage s (page_id_of (pages b ! f)) zero_mem
      else Inr s) = Inr d" and e: "evicted_disk b f zero_mem s d"
    by (rule write_back [OF ok f(1) s clipped_zero])
  have "\<not> (\<forall>pg \<in> set (pages b). pin_count pg \<noteq> 0)" using np by (simp add: all_pinned_def)
  then have "NewPage b = Inr (Some (f, p), install f (blank_page p) d r fl b)"
    using d f(2) zero_page [OF cl]
    by (cases "is_dirty (pages b ! f)")
      (auto simp: NewPage_def picked(1) a write_page_def retable_def upd_page_def install_def ResetMemory_def page_fill)
  with a picked e that show ?thesis by blast
qed

lemma NewPage_fresh:
  assumes ok: "bpm_ok b" and room: "disk_room (disk b)" and tu: "table_used b"
    and a: "DiskManager_AllocatePage (disk b) = (p, s)"
  shows "page_table b p = None" and "valid_pid p" and "p \<notin> disk_used (disk b)"
    and "disk_used s = insert p (disk_used (disk b))" and "disk_ok s"
    and "valid_pid q \<Longrightarrow> logical_page s q = logical_page (disk b) q"
  using DiskManager_AllocatePage_spec [OF bpm_okD(2) [OF ok] room a] tu data_pages_kept_logical [of "disk b" s q]
  by (auto simp: table_used_def valid_pid_def logical_page_def dom_def)

lemma synced_disk_cong:
  "bpm_ok b \<Longrightarrow> synced b \<Longrightarrow> (\<And>q. valid_pid q \<Longrightarrow> logical_page s q = logical_page (disk b) q) \<Longrightarrow> synced (b\<lparr>disk := s\<rparr>)"
  using bpm_okD(6) [of b] by (auto simp: synced_def frame_ok_def)

lemma bpm_ok_disk: "bpm_ok b \<Longrightarrow> disk_ok s \<Longrightarrow> bpm_ok (b\<lparr>disk := s\<rparr>)"
  by (simp add: bpm_ok_def frame_ok_def)

lemma install_disk: "install f pg d r fl (b\<lparr>disk := s\<rparr>) = install f pg d r fl b"
  by (simp add: install_def)

lemma evict_disk_field:
  "evictable (b\<lparr>disk := s\<rparr>) f r fl = evictable b f r fl" "evicted_disk (b\<lparr>disk := s\<rparr>) f w t d = evicted_disk b f w t d"
  by (simp_all add: evictable_def evicted_disk_def)

section \<open>Unpinning, flushing and storing\<close>

lemma page_pin_same: "pin_count pg = 0 \<Longrightarrow> pg\<lparr>is_dirty := x, pin_count := 0\<rparr> = pg\<lparr>is_dirty := x\<rparr>"
  by (cases pg) simp

lemma UnpinPage_resident:
  assumes ok: "bpm_ok b" and t: "page_table b p = Some f"
  shows "UnpinPage b p dirty =
    (let c = pin_count (pages b ! f); g = (\<lambda>pg. pg\<lparr>is_dirty := (is_dirty pg \<or> dirty), pin_count := (if c = 0 then 0 else c - 1)\<rparr>)
     in (c \<noteq> 0, (upd_page f g b)\<lparr>repl := (if c = 1 then LRUReplacer_Unpin f (repl b) else repl b), disk := disk b\<rparr>))"
proof -
  have len: "f < length (pages b)" using resident_facts [OF ok t] by simp
  then show ?thesis by (auto simp: UnpinPage_def t Let_def upd_page_def page_pin_same)
qed

definition honest_unpin :: "bpm \<Rightarrow> page_id \<Rightarrow> bool \<Rightarrow> bool" where
  "honest_unpin b p dirty \<longleftrightarrow> (\<forall>f. page_table b p = Some f \<and> pin_count (pages b ! f) = 1 \<and> \<not> is_dirty (pages b ! f) \<and> \<not> dirty
     \<longrightarrow> page_data (pages b ! f) = logical_page (disk b) p)"

lemma lru_unpinned_frame:
  assumes ok: "bpm_ok b" and t: "page_table b p = Some f"
  shows "f \<in> set (lru_frames (repl b)) \<longleftrightarrow> pin_count (pages b ! f) = 0"
  using bpm_okD(8) [OF ok] resident_facts [OF ok t] by auto

lemma UnpinPage_ok:
  assumes ok: "bpm_ok b"
  shows "bpm_ok (snd (UnpinPage b p dirty))"
proof (cases "page_table b p")
  case None
  then show ?thesis using ok by (simp add: UnpinPage_def)
next
  case (Some f)
  note R = resident_facts [OF ok Some] and L = lru_unpinned_frame [OF ok Some]
  let ?c = "pin_count (pages b ! f)"
  let ?r = "if ?c = 1 then LRUReplacer_Unpin f (repl b) else repl b"
  have r: "lru_inv ?r" "set (lru_frames ?r) = (if ?c = 1 then insert f (set (lru_frames (repl b))) else set (lru_frames (repl b)))"
    using lru.unpin_inv [OF bpm_okD(3) [OF ok]] lru.unpin_frames [OF bpm_okD(3) [OF ok], of f] bpm_okD(3) [OF ok] by auto
  show ?thesis
    unfolding UnpinPage_resident [OF ok Some] Let_def snd_conv
    by (rule upd_resident_ok [OF ok Some]) (use R r L bpm_okD(2) [OF ok] in auto)
qed

lemma UnpinPage_synced:
  assumes ok: "bpm_ok b" and sy: "synced b" and h: "honest_unpin b p dirty"
  shows "synced (snd (UnpinPage b p dirty))"
proof (cases "page_table b p")
  case None
  then show ?thesis using sy by (simp add: UnpinPage_def)
next
  case (Some f)
  note R = resident_facts [OF ok Some]
  show ?thesis
    unfolding UnpinPage_resident [OF ok Some] Let_def snd_conv synced_def
    using R(2,4) sy h Some by (auto simp: synced_def honest_unpin_def)
qed

lemma UnpinPage_view: 
  assumes ok: "bpm_ok b"
  shows "page_view (snd (UnpinPage b p dirty)) q = page_view b q"
proof (cases "page_table b p")
  case None
  then show ?thesis by (simp add: UnpinPage_def)
next
  case (Some f)
  then show ?thesis
    unfolding UnpinPage_resident [OF ok Some] Let_def snd_conv
    using resident_facts [OF ok Some] by (simp add: page_view_def split: option.splits)
qed

lemma FlushPage_resident:
  assumes ok: "bpm_ok b" and t: "page_table b p = Some f"
  obtains d where "FlushPage b p = Inr (True, (upd_page f (\<lambda>pg. pg\<lparr>is_dirty := False\<rparr>) b)\<lparr>repl := repl b, disk := d\<rparr>)"
    and "disk_ok d" and "disk_used d = disk_used (disk b)"
    and "\<And>q. valid_pid q \<Longrightarrow> logical_page d q = (if q = p then page_data (pages b ! f) else logical_page (disk b) q)"
proof -
  note R = resident_facts [OF ok t]
  have v: "0 \<le> p" "p < MAX_LOGICAL" using R by (simp_all add: valid_pid_def)
  show ?thesis
  proof (rule DiskManager_WritePage_ok [OF bpm_okD(2) [OF ok] v, of "page_data (pages b ! f)"])
    fix d assume D: "DiskManager_WritePage (disk b) p (page_data (pages b ! f)) = Inr d" "disk_ok d"
      "disk_used d = disk_used (disk b)"
      "logical_page d p = (\<lambda>i. if i < PAGE_SIZE then page_data (pages b ! f) i else 0)"
      "\<And>q. 0 \<le> q \<Longrightarrow> q < MAX_LOGICAL \<Longrightarrow> q \<noteq> p \<Longrightarrow> logical_page d q = logical_page (disk b) q"
    have "FlushPage b p = Inr (True, (upd_page f (\<lambda>pg. pg\<lparr>is_dirty := False\<rparr>) b)\<lparr>repl := repl b, disk := d\<rparr>)"
      by (simp add: FlushPage_def t write_page_def D(1) upd_page_def)
    moreover have "logical_page d q = (if q = p then page_data (pages b ! f) else logical_page (disk b) q)"
      if "valid_pid q" for q
      using D(4,5) clip_id [OF R(7)] that by (simp add: valid_pid_def)
    ultimately show ?thesis using that D(2,3) by blast
  qed
qed

lemma store_page_ok:
  assumes ok: "bpm_ok b" and t: "page_table b p = Some f"
  shows "bpm_ok (store_page f d b)"
proof -
  note R = resident_facts [OF ok t] and L = lru_unpinned_frame [OF ok t]
  let ?g = "\<lambda>pg. pg\<lparr>page_data := (\<lambda>i. if i < PAGE_SIZE then d i else page_data pg i)\<rparr>"
  have "bpm_ok ((upd_page f ?g b)\<lparr>repl := repl b, disk := disk b\<rparr>)"
    by (rule upd_resident_ok [OF ok t]) (use R L bpm_okD(2,3) [OF ok] in \<open>auto simp: clipped_def\<close>)
  then show ?thesis by (simp add: store_page_def upd_page_def)
qed

lemma store_page_synced:
  assumes "bpm_ok b" and "synced b" and t: "page_table b p = Some f" and "pin_count (pages b ! f) \<noteq> 0"
  shows "synced (store_page f d b)"
  using assms resident_facts [OF assms(1) t] by (auto simp: synced_def store_page_def)

lemma store_page_view:
  assumes ok: "bpm_ok b" and t: "page_table b p = Some f"
  shows "page_view (store_page f d b) q =
    (if q = p then (\<lambda>i. if i < PAGE_SIZE then d i else 0) else page_view b q)"
proof -
  note R = resident_facts [OF ok t]
  have "(\<lambda>i. if i < PAGE_SIZE then d i else page_data (pages b ! f) i) = (\<lambda>i. if i < PAGE_SIZE then d i else 0)"
    using R(7) by (auto simp: clipped_def)
  then show ?thesis using R t table_page_id [OF ok _ R(1), of q]
    by (auto simp: page_view_def store_page_def split: option.splits)
qed

lemma FlushPage_facts:
  assumes ok: "bpm_ok b" and sy: "synced b" and call: "FlushPage b p = Inr (x, b')"
  shows "bpm_ok b'" and "synced b'" and "disk_used (disk b') = disk_used (disk b)" and "page_table b' = page_table b"
    and "valid_pid q \<Longrightarrow> page_view b' q = page_view b q"
    and "x \<Longrightarrow> valid_pid p \<Longrightarrow> logical_page (disk b') p = page_view b p"
proof -
  have "bpm_ok b' \<and> synced b' \<and> disk_used (disk b') = disk_used (disk b) \<and> page_table b' = page_table b
    \<and> (valid_pid q \<longrightarrow> page_view b' q = page_view b q) \<and> (x \<longrightarrow> valid_pid p \<longrightarrow> logical_page (disk b') p = page_view b p)"
  proof (cases "page_table b p")
    case None
    then show ?thesis using call ok sy by (simp add: FlushPage_def)
  next
    case (Some f)
    note R = resident_facts [OF ok Some] and L = lru_unpinned_frame [OF ok Some]
    obtain d where c: "FlushPage b p = Inr (True, (upd_page f (\<lambda>pg. pg\<lparr>is_dirty := False\<rparr>) b)\<lparr>repl := repl b, disk := d\<rparr>)"
      and d: "disk_ok d" "disk_used d = disk_used (disk b)"
        "\<And>q. valid_pid q \<Longrightarrow> logical_page d q = (if q = p then page_data (pages b ! f) else logical_page (disk b) q)"
      using FlushPage_resident [OF ok Some] by blast
    from c call have b': "b' = (upd_page f (\<lambda>pg. pg\<lparr>is_dirty := False\<rparr>) b)\<lparr>repl := repl b, disk := d\<rparr>" by simp
    have "bpm_ok b'"
      unfolding b' by (rule upd_resident_ok [OF ok Some]) (use R L d bpm_okD(3) [OF ok] in auto)
    moreover have "synced b'"
      using sy R d other_page_id [OF ok R(1)] bpm_okD(6) [OF ok] unfolding synced_def b' frame_ok_def by simp blast
    ultimately show ?thesis
      using d R Some by (auto simp: b' page_view_def split: option.splits)
  qed
  then show "bpm_ok b'" and "synced b'" and "disk_used (disk b') = disk_used (disk b)" and "page_table b' = page_table b"
    and "valid_pid q \<Longrightarrow> page_view b' q = page_view b q"
    and "x \<Longrightarrow> valid_pid p \<Longrightarrow> logical_page (disk b') p = page_view b p" by auto
qed

section \<open>Reachable pools\<close>

text \<open>
  The pools clients can produce: they fetch allocated pages, store only into pages they hold pinned,
  and say so when they unpin a page they changed. \<^verbatim>\<open>DeletePage\<close> is included for pages that are not
  in the pool.
\<close>

inductive pool_reachable :: "bpm \<Rightarrow> bool" where
  pr_init: "disk_reachable d \<Longrightarrow> pool_reachable (BufferPoolManager n d)"
| pr_fetch: "pool_reachable b \<Longrightarrow> p \<in> disk_used (disk b) \<Longrightarrow> FetchPage b p = Inr (x, b') \<Longrightarrow> pool_reachable b'"
| pr_new: "pool_reachable b \<Longrightarrow> disk_room (disk b) \<Longrightarrow> NewPage b = Inr (y, b') \<Longrightarrow> pool_reachable b'"
| pr_unpin: "pool_reachable b \<Longrightarrow> honest_unpin b p dirty \<Longrightarrow> UnpinPage b p dirty = (z, b') \<Longrightarrow> pool_reachable b'"
| pr_flush: "pool_reachable b \<Longrightarrow> FlushPage b p = Inr (z, b') \<Longrightarrow> pool_reachable b'"
| pr_store: "pool_reachable b \<Longrightarrow> page_table b p = Some f \<Longrightarrow> pin_count (pages b ! f) \<noteq> 0 \<Longrightarrow>
    pool_reachable (store_page f m b)"
| pr_delete: "pool_reachable b \<Longrightarrow> valid_pid p \<Longrightarrow> page_table b p = None \<Longrightarrow> DeletePage b p = (z, b') \<Longrightarrow>
    pool_reachable b'"

definition pool_inv :: "bpm \<Rightarrow> bool" where
  "pool_inv b \<longleftrightarrow> bpm_ok b \<and> synced b \<and> table_used b"

lemma pool_init_inv: "disk_ok d \<Longrightarrow> pool_inv (BufferPoolManager n d)"
  using lru_new by (auto simp: pool_inv_def bpm_ok_def synced_def table_used_def BufferPoolManager_def frame_ok_def Page_def
      INVALID_PAGE_ID_def)

lemma FetchPage_cases:
  assumes inv: "pool_inv b" and p: "p \<in> disk_used (disk b)"
  obtains (hit) f where "page_table b p = Some f"
      "FetchPage b p = Inr (Some f, (upd_page f (\<lambda>pg. pg\<lparr>pin_count := pin_count pg + 1\<rparr>) b)
           \<lparr>repl := LRUReplacer_Pin f (repl b), disk := disk b\<rparr>)"
    | (full) "page_table b p = None" "FetchPage b p = Inr (None, b)" "all_pinned b"
    | (miss) f r fl d where "page_table b p = None" "evictable b f (LRUReplacer_Pin f r) fl"
      "evicted_disk b f (page_data (pages b ! f)) (disk b) d"
      "FetchPage b p = Inr (Some f, install f \<lparr>page_data = logical_page d p, page_id_of = p, pin_count = 1, is_dirty = False\<rparr>
           d (LRUReplacer_Pin f r) fl b)"
proof (cases "page_table b p")
  case (Some f)
  then show ?thesis using hit FetchPage_hit inv by (simp add: pool_inv_def)
next
  case None
  have ok: "bpm_ok b" and v: "valid_pid p" using inv p by (simp_all add: pool_inv_def disk_used_def valid_pid_def)
  from ok show ?thesis
  proof (cases rule: pick_frame_cases)
    case full
    with None have "FetchPage b p = Inr (None, b)" by (simp add: FetchPage_def)
    with full None all_pinned_nth [OF ok] that(2) show ?thesis by blast
  next
    case (picked f r fl)
    from FetchPage_miss [OF ok None v picked] pin_evicted [OF picked(2)] None that(3) show ?thesis by metis
  qed
qed

lemma FetchPage_inv:
  assumes inv: "pool_inv b" and p: "p \<in> disk_used (disk b)" and call: "FetchPage b p = Inr (x, b')"
  shows "pool_inv b'"
  using inv p
proof (cases rule: FetchPage_cases)
  case (hit f)
  have ok: "bpm_ok b" using inv by (simp add: pool_inv_def)
  note R = resident_facts [OF ok hit(1)]
  let ?b = "(upd_page f (\<lambda>pg. pg\<lparr>pin_count := pin_count pg + 1\<rparr>) b)\<lparr>repl := LRUReplacer_Pin f (repl b), disk := disk b\<rparr>"
  have "bpm_ok ?b"
    by (rule upd_resident_ok [OF ok hit(1)])
      (use R bpm_okD(2,3) [OF ok] lru.pin_inv lru.pin_frames in auto)
  moreover have "synced ?b" using inv R by (auto simp: pool_inv_def synced_def)
  moreover have "table_used ?b" using inv by (simp add: pool_inv_def table_used_def)
  moreover have "b' = ?b" using call hit(2) by simp
  ultimately show ?thesis by (simp add: pool_inv_def)
next
  case full
  then show ?thesis using call inv by simp
next
  case (miss f r fl d)
  have ok: "bpm_ok b" and v: "valid_pid p" using inv p by (simp_all add: pool_inv_def disk_used_def valid_pid_def)
  let ?pg = "\<lparr>page_data = logical_page d p, page_id_of = p, pin_count = 1, is_dirty = False\<rparr>"
  have dok: "disk_ok d" "disk_used d = disk_used (disk b)" using miss by (simp_all add: evicted_disk_def)
  have "bpm_ok (install f ?pg d (LRUReplacer_Pin f r) fl b)"
    by (rule install_ok [OF ok miss(2) dok(1)]) (simp_all add: v miss)
  moreover have "synced (install f ?pg d (LRUReplacer_Pin f r) fl b)"
    by (rule synced_install [OF ok _ miss(2,3)]) (use inv in \<open>simp_all add: pool_inv_def\<close>)
  ultimately show ?thesis
    using inv call miss(4) p dok(2) by (auto simp: pool_inv_def table_used_def dom_def subset_iff split: if_splits)
qed

lemma NewPage_inv:
  assumes inv: "pool_inv b" and room: "disk_room (disk b)" and call: "NewPage b = Inr (y, b')"
  shows "pool_inv b'"
proof (cases "all_pinned b")
  case True
  then show ?thesis using NewPage_full [OF True] call inv by simp
next
  case False
  have ok: "bpm_ok b" and sy: "synced b" and tu: "table_used b" using inv by (simp_all add: pool_inv_def)
  obtain f p r fl s d where a: "DiskManager_AllocatePage (disk b) = (p, s)" and ev: "evictable b f r fl"
    and e: "evicted_disk b f zero_mem s d" and c: "NewPage b = Inr (Some (f, p), install f (blank_page p) d r fl b)"
    using NewPage_some [OF ok room False] by metis
  note N = NewPage_fresh [OF ok room tu a]
  have b': "b' = install f (blank_page p) d r fl b" using c call by simp
  have d: "disk_ok d" "disk_used d = disk_used s" using e by (simp_all add: evicted_disk_def)
  have "bpm_ok b'" unfolding b' by (rule install_ok [OF ok ev d(1)]) (simp_all add: N)
  moreover have "synced b'"
    using synced_install [OF bpm_ok_disk [OF ok N(5)] synced_disk_cong [OF ok sy N(6)], of f r fl zero_mem d "blank_page p" r] ev e
    by (simp add: b' install_disk evict_disk_field)
  moreover have "table_used b'" using tu d N by (auto simp: table_used_def b' split: if_splits)
  ultimately show ?thesis by (simp add: pool_inv_def)
qed

lemma UnpinPage_table: "page_table (snd (UnpinPage b p dirty)) = page_table b" "disk (snd (UnpinPage b p dirty)) = disk b"
  by (simp_all add: UnpinPage_def Let_def split: option.splits)

lemma DeletePage_absent:
  assumes inv: "pool_inv b" and v: "valid_pid p" and t: "page_table b p = None" and call: "DeletePage b p = (z, b')"
  shows "pool_inv b'" and "z"
proof -
  let ?s = "DiskManager_DeAllocatePage (disk b) p"
  have b': "b' = b\<lparr>disk := ?s\<rparr>" and "z" using call t by (simp_all add: DeletePage_def Let_def)
  have ok: "bpm_ok b" using inv by (simp add: pool_inv_def)
  have D: "disk_ok ?s \<and> disk_used ?s = disk_used (disk b) - {p} \<and> data_pages_kept (disk b) ?s"
    using DiskManager_DeAllocatePage_spec [of "disk b" p] DiskManager_DeAllocatePage_free [of "disk b" p] bpm_okD(2) [OF ok] v
    by (cases "p \<in> disk_used (disk b)") (auto simp: valid_pid_def data_pages_kept_def)
  then have "logical_page ?s q = logical_page (disk b) q" if "valid_pid q" for q
    using data_pages_kept_logical [of "disk b" ?s q] that by (simp add: valid_pid_def logical_page_def)
  then show "pool_inv b'"
    using inv D t bpm_ok_disk [OF ok, of ?s] synced_disk_cong [OF ok, of ?s]
    by (auto simp: pool_inv_def b' table_used_def)
  show z by fact
qed

lemma pool_reachable_inv: "pool_reachable b \<Longrightarrow> pool_inv b"
proof (induction rule: pool_reachable.induct)
  case (pr_init d n)
  then show ?case using disk_reachable_inv pool_init_inv by blast
next
  case (pr_fetch b p x b')
  then show ?case using FetchPage_inv by blast
next
  case (pr_new b y b')
  then show ?case using NewPage_inv by blast
next
  case (pr_unpin b p dirty z b')
  then show ?case using UnpinPage_ok [of b p dirty] UnpinPage_synced [of b p dirty] UnpinPage_table [of b p dirty]
    by (simp add: pool_inv_def table_used_def)
next
  case (pr_flush b p z b')
  then show ?case using FlushPage_facts(1-4) [of b p z b'] by (simp add: pool_inv_def table_used_def)
next
  case (pr_store b p f m)
  then show ?case using store_page_ok [of b p f m] store_page_synced [of b p f m]
    by (simp add: pool_inv_def table_used_def store_page_def)
next
  case (pr_delete b p z b')
  then show ?case using DeletePage_absent by blast
qed

section \<open>Properties\<close>

section \<open>Pools of any client\<close>

text \<open>
  The pools that any client can produce, also one that deletes pages that are in the pool, fetches pages that are
  not allocated, keeps quiet about its changes or stores into frames it no longer holds.
\<close>

inductive pool_called :: "bpm \<Rightarrow> bool" where
  pc_init: "disk_reachable d \<Longrightarrow> pool_called (BufferPoolManager n d)"
| pc_fetch: "pool_called b \<Longrightarrow> FetchPage b p = Inr (x, b') \<Longrightarrow> pool_called b'"
| pc_new: "pool_called b \<Longrightarrow> disk_room (disk b) \<Longrightarrow> NewPage b = Inr (y, b') \<Longrightarrow> pool_called b'"
| pc_unpin: "pool_called b \<Longrightarrow> UnpinPage b p dirty = (z, b') \<Longrightarrow> pool_called b'"
| pc_flush: "pool_called b \<Longrightarrow> FlushPage b p = Inr (z, b') \<Longrightarrow> pool_called b'"
| pc_store: "pool_called b \<Longrightarrow> f < pool_size b \<Longrightarrow> pool_called (store_page f m b)"
| pc_delete: "pool_called b \<Longrightarrow> valid_pid p \<Longrightarrow> DeletePage b p = (z, b') \<Longrightarrow> pool_called b'"

text \<open>
  What still holds of them: every frame number the pool keeps is a frame, the page table gives for each page a
  frame that holds this page, so no frame stands for two pages, and no pin count is negative.
\<close>

definition pool_safe :: "bpm \<Rightarrow> bool" where
  "pool_safe b \<longleftrightarrow> length (pages b) = pool_size b \<and> lru_inv (repl b) \<and> set (lru_frames (repl b)) \<subseteq> {..<pool_size b} \<and>
     set (free_list b) \<subseteq> {..<pool_size b} \<and> (\<forall>f < pool_size b. 0 \<le> pin_count (pages b ! f)) \<and>
     (\<forall>p f. page_table b p = Some f \<longrightarrow> f < pool_size b \<and> page_id_of (pages b ! f) = p)"

lemma pool_safe_disk [simp]: "pool_safe (b\<lparr>disk := s\<rparr>) = pool_safe b"
  by (simp add: pool_safe_def)

lemma pool_safe_repl: "pool_safe b \<Longrightarrow> lru_inv r \<Longrightarrow> set (lru_frames r) \<subseteq> {..<pool_size b} \<Longrightarrow> pool_safe (b\<lparr>repl := r\<rparr>)"
  by (simp add: pool_safe_def)

lemma pool_safe_resident: "pool_safe b \<Longrightarrow> page_table b p = Some f \<Longrightarrow> f < pool_size b \<and> 0 \<le> pin_count (pages b ! f)"
  by (auto simp: pool_safe_def)

lemma pool_safe_upd:
  assumes "pool_safe b" "f < pool_size b" "page_id_of (g (pages b ! f)) = page_id_of (pages b ! f)" "0 \<le> pin_count (g (pages b ! f))"
  shows "pool_safe (upd_page f g b)"
proof -
  have "f < length (pages b)" using assms by (simp add: pool_safe_def)
  then show ?thesis using assms unfolding pool_safe_def by auto
qed

lemma pool_safe_pin: "pool_safe b \<Longrightarrow> r = repl b \<Longrightarrow> pool_safe (b\<lparr>repl := LRUReplacer_Pin f r\<rparr>)"
  using lru.pin_inv [of "repl b" f] lru.pin_frames [of "repl b" f] by (intro pool_safe_repl) (auto simp: pool_safe_def)

lemma pool_safe_unpin: "pool_safe b \<Longrightarrow> f < pool_size b \<Longrightarrow> r = repl b \<Longrightarrow> pool_safe (b\<lparr>repl := LRUReplacer_Unpin f r\<rparr>)"
  using lru.unpin_inv [of "repl b" f] lru.unpin_frames [of "repl b" f] by (intro pool_safe_repl) (auto simp: pool_safe_def)

lemma pool_safe_retable:
  assumes "pool_safe b" "f < pool_size b" "page_id_of (g (pages b ! f)) = p" "0 \<le> pin_count (g (pages b ! f))"
  shows "pool_safe (upd_page f g (retable f p b))"
proof -
  have "f < length (pages (retable f p b))" using assms by (simp add: pool_safe_def retable_def)
  then show ?thesis using assms unfolding pool_safe_def by (auto simp: retable_def split: if_splits)
qed

lemma pool_safe_pick:
  assumes "pool_safe b" "pick_frame b = (x, b1)"
  shows "pool_safe b1 \<and> pool_size b1 = pool_size b \<and> (\<forall>f. x = Some f \<longrightarrow> f < pool_size b)"
proof (cases "free_list b")
  case (Cons f fs)
  then show ?thesis using assms by (auto simp: pick_frame_def pool_safe_def)
next
  case Nil
  have inv: "lru_inv (repl b)" using assms by (simp add: pool_safe_def)
  then show ?thesis
  proof (cases rule: lru.victim_cases)
    case none
    then show ?thesis using assms Nil by (auto simp: pick_frame_def)
  next
    case (some f r')
    then show ?thesis using assms Nil by (auto simp: pick_frame_def pool_safe_def)
  qed
qed

lemma write_page_disk: "(if c then write_page p d b else Inr b) = Inr b' \<Longrightarrow> \<exists>s. b' = b\<lparr>disk := s\<rparr>"
  by (cases c) (auto simp: write_page_def res_bind_Inr_iff intro: exI [of _ "disk b"])

lemma FetchPage_safe:
  assumes safe: "pool_safe b" and call: "FetchPage b p = Inr (x, b')"
  shows "pool_safe b'"
proof (cases "page_table b p")
  case (Some f)
  then show ?thesis using call pool_safe_resident [OF safe Some]
    by (auto simp: FetchPage_def Let_def intro!: pool_safe_pin pool_safe_upd safe)
next
  case None
  obtain y b1 where pick: "pick_frame b = (y, b1)" by (metis prod.exhaust)
  note P = pool_safe_pick [OF safe pick]
  show ?thesis
  proof (cases y)
    case None
    then show ?thesis using call pick P \<open>page_table b p = None\<close> by (simp add: FetchPage_def)
  next
    case (Some f)
    let ?g = "\<lambda>pg. pg\<lparr>pin_count := pin_count pg + 1, page_id_of := p, is_dirty := False\<rparr>"
    from call Some pick None obtain b2 b3 where
      b2: "(if is_dirty (pages b1 ! f) then write_page (page_id_of (pages b1 ! f)) (page_data (pages b1 ! f)) b1 else Inr b1) = Inr b2"
      and b3: "read_page f p (upd_page f ?g (retable f p b2)) = Inr b3" and b': "b' = b3\<lparr>repl := LRUReplacer_Pin f (repl b3)\<rparr>"
      by (auto simp: FetchPage_def res_bind_Inr_iff)
    from b2 obtain s where s: "b2 = b1\<lparr>disk := s\<rparr>" using write_page_disk by blast
    have b2_safe: "pool_safe b2" "f < pool_size b2" "0 \<le> pin_count (pages b2 ! f)" using P Some s by (auto simp: pool_safe_def)
    have "pool_safe (upd_page f ?g (retable f p b2))" by (rule pool_safe_retable) (use b2_safe in auto)
    then have "pool_safe b3" using b3 b2_safe(2)
      by (auto simp: read_page_def res_bind_Inr_iff retable_def intro!: pool_safe_upd) (auto simp: pool_safe_def)
    then show ?thesis unfolding b' by (rule pool_safe_pin [OF _ refl])
  qed
qed

lemma NewPage_safe:
  assumes safe: "pool_safe b" and call: "NewPage b = Inr (x, b')"
  shows "pool_safe b'"
proof (cases "all_pinned b")
  case True
  then show ?thesis using safe call NewPage_full [OF True] by simp
next
  case False
  then have np: "\<not> (\<forall>pg \<in> set (pages b). pin_count pg \<noteq> 0)" by (simp add: all_pinned_def)
  obtain y b1 where pick: "pick_frame b = (y, b1)" by (metis prod.exhaust)
  note P = pool_safe_pick [OF safe pick]
  show ?thesis
  proof (cases y)
    case None
    then show ?thesis using call pick P np by (simp add: NewPage_def)
  next
    case (Some f)
    obtain p s where a: "DiskManager_AllocatePage (disk b1) = (p, s)" by (metis prod.exhaust)
    let ?b2 = "b1\<lparr>disk := s\<rparr>"
    let ?g = "\<lambda>pg. (ResetMemory pg)\<lparr>is_dirty := False, page_id_of := p, pin_count := pin_count pg + 1\<rparr>"
    from call Some pick np a obtain b3 where
      b3: "(if is_dirty (pages ?b2 ! f) then write_page (page_id_of (pages ?b2 ! f)) zero_mem ?b2 else Inr ?b2) = Inr b3"
      and b': "b' = upd_page f ?g (retable f p b3)" by (auto simp: NewPage_def res_bind_Inr_iff Let_def)
    from write_page_disk [OF b3] obtain t where t: "b3 = b1\<lparr>disk := t\<rparr>" by auto
    show ?thesis unfolding b' by (rule pool_safe_retable) (use P Some t in \<open>auto simp: pool_safe_def\<close>)
  qed
qed

lemma UnpinPage_safe:
  assumes safe: "pool_safe b"
  shows "pool_safe (snd (UnpinPage b p dirty))"
proof (cases "page_table b p")
  case (Some f)
  note R = pool_safe_resident [OF safe Some]
  let ?g = "\<lambda>pg. pg\<lparr>is_dirty := (is_dirty pg \<or> dirty)\<rparr>" and ?h = "\<lambda>pg. pg\<lparr>pin_count := pin_count pg - 1\<rparr>"
  have f: "f < length (pages b)" using R safe by (simp add: pool_safe_def)
  have 1: "pool_safe (upd_page f ?g b)" by (rule pool_safe_upd) (use safe R in auto)
  have "pool_safe (upd_page f ?h (upd_page f ?g b))" if "pin_count (pages b ! f) \<noteq> 0"
    by (rule pool_safe_upd [OF 1]) (use R f that in auto)
  then show ?thesis using 1 R f by (auto simp: UnpinPage_def Some Let_def intro!: pool_safe_unpin)
qed (use safe in \<open>simp add: UnpinPage_def\<close>)

lemma DeletePage_safe:
  assumes safe: "pool_safe b" and call: "DeletePage b p = (z, b')"
  shows "pool_safe b'"
proof (cases "page_table b p")
  case (Some f)
  note R = pool_safe_resident [OF safe Some]
  have f: "f < length (pages b)" using R safe by (simp add: pool_safe_def)
  have "page_table b q \<noteq> Some f" if "q \<noteq> p" for q using safe Some that unfolding pool_safe_def by blast
  then show ?thesis using call safe R f Some unfolding pool_safe_def
    by (auto simp: DeletePage_def Let_def split: if_splits)
qed (use safe call in \<open>auto simp: DeletePage_def Let_def\<close>)

lemma pool_called_safe: "pool_called b \<Longrightarrow> pool_safe b"
proof (induction rule: pool_called.induct)
  case (pc_init d n)
  then show ?case using lru_new by (auto simp: pool_safe_def BufferPoolManager_def Page_def)
next
  case (pc_unpin b p dirty z b')
  then show ?case using UnpinPage_safe [of b p dirty] by simp
next
  case (pc_flush b p z b')
  then show ?case using pool_safe_resident [of b p]
    by (auto simp: FlushPage_def res_bind_Inr_iff write_page_def split: option.splits intro!: pool_safe_upd)
next
  case (pc_store b f m)
  then show ?case unfolding store_page_def by (intro pool_safe_upd) (auto simp: pool_safe_def)
qed (blast intro: FetchPage_safe NewPage_safe DeletePage_safe)+

text \<open>
  C7 (invariant). For every client, also one that deletes resident pages, fetches pages that are not allocated or
  hides its changes, the pool keeps its arrays and tables in range: every frame number in the page table, the
  free list and the replacer is a frame, the table gives for each page a frame that holds it, and no pin count is
  negative. For clients that fetch allocated pages, delete no resident page, store only into pages they hold and
  unpin as dirty what they changed, moreover: the page table is a bijection between the resident pages and the
  frames that are not free, free frames are blank and unpinned, the replacer lists exactly the unpinned frames
  that are not free, unpinned clean pages equal the disk, and every resident page is allocated on disk.
\<close>

theorem buffer_pool_invariant:
  "(pool_called b \<longrightarrow> pool_safe b) \<and> (pool_reachable b \<longrightarrow> bpm_ok b \<and> synced b \<and> table_used b)"
  using pool_reachable_inv [of b] pool_called_safe [of b] by (simp add: pool_inv_def)

lemma new_pool_NewPage:
  assumes "disk_reachable d" and "disk_room d" and n: "0 < n"
  obtains f p b where "NewPage (BufferPoolManager n d) = Inr (Some (f, p), b)" and "pool_reachable b"
    and "page_table b p = Some f" and "pages b ! f = blank_page p" and "valid_pid p" and "f < length (pages b)"
    and "pool_size b = n" and "disk_used (disk b) = insert p (disk_used d)" and "free_list b = [1..<n]"
proof -
  let ?b = "BufferPoolManager n d"
  have inv: "pool_inv ?b" using disk_reachable_inv [OF assms(1)] pool_init_inv by blast
  then have ok: "bpm_ok ?b" and tu: "table_used ?b" by (simp_all add: pool_inv_def)
  have np: "\<not> all_pinned ?b" using n by (auto simp: all_pinned_def BufferPoolManager_def Page_def)
  have room: "disk_room (disk ?b)" using assms(2) by (simp add: BufferPoolManager_def)
  obtain f p r fl s e where a: "DiskManager_AllocatePage (disk ?b) = (p, s)" and ev: "evictable ?b f r fl"
    and pick: "pick_frame ?b = (Some f, ?b\<lparr>repl := r, free_list := fl\<rparr>)" and e: "evicted_disk ?b f zero_mem s e"
    and c: "NewPage ?b = Inr (Some (f, p), install f (blank_page p) e r fl ?b)"
    using NewPage_some [OF ok room np] by metis
  have f: "f < length (pages ?b)" using ev bpm_okD(1) [OF ok] by (simp add: evictable_def)
  have fl: "fl = [1..<n]" using pick n by (simp add: pick_frame_def BufferPoolManager_def upt_conv_Cons)
  show ?thesis
    using that [OF c pr_new [OF pr_init [OF assms(1)] room c]] f NewPage_fresh(2,4) [OF ok room tu a] e fl
    by (simp add: BufferPoolManager_def evicted_disk_def)
qed

lemma fresh_disk_room: "disk_room (DiskManager_open zero_mem 0)"
  by (rule disk_room_if_free [OF open_empty_ok, of 0]) (simp_all add: open_empty_used MAX_LOGICAL_def)

theorem buffer_pool_invariant_witness:
  "\<exists>f p b. NewPage (BufferPoolManager 3 (DiskManager_open zero_mem 0)) = Inr (Some (f, p), b) \<and> bpm_ok b \<and> table_used b \<and>
     pool_safe (snd (DeletePage (snd (UnpinPage b p False)) p))"
proof -
  obtain f p b where N: "NewPage (BufferPoolManager 3 (DiskManager_open zero_mem 0)) = Inr (Some (f, p), b)" "pool_reachable b" "valid_pid p"
    using new_pool_NewPage [OF dr_open fresh_disk_room, of 3] by (metis zero_less_numeral)
  have "pool_called b" using pc_new [OF pc_init [OF dr_open] _ N(1)] fresh_disk_room by (simp add: BufferPoolManager_def)
  then have "pool_called (snd (DeletePage (snd (UnpinPage b p False)) p))"
    using pc_unpin [of b p False] pc_delete [OF _ N(3)] by (metis prod.collapse)
  then show ?thesis using N(1,2) buffer_pool_invariant by blast
qed

text \<open>
  C8. \<^verbatim>\<open>FetchPage\<close> of an allocated page always returns: either null, when the page is not resident and
  every frame is pinned, leaving the pool unchanged; or a frame that holds the page with its current
  content and one more pin. No page's content changes (a dirty victim is written back), and every
  pinned frame keeps its page.
\<close>

theorem fetch_page_correct:
  assumes "pool_reachable b" and p: "p \<in> disk_used (disk b)"
  shows "\<exists>x b'. FetchPage b p = Inr (x, b') \<and> pool_reachable b' \<and>
    (\<forall>q. valid_pid q \<longrightarrow> page_view b' q = page_view b q) \<and>
    (case x of
       None \<Rightarrow> page_table b p = None \<and> all_pinned b \<and> b' = b
     | Some f \<Rightarrow> page_table b' p = Some f \<and> page_data (pages b' ! f) = page_view b p \<and>
         pin_count (pages b' ! f) = (if page_table b p = Some f then pin_count (pages b ! f) + 1 else 1) \<and>
         (\<forall>h < pool_size b. pin_count (pages b ! h) \<noteq> 0 \<and> h \<noteq> f \<longrightarrow> pages b' ! h = pages b ! h))"
proof -
  have inv: "pool_inv b" using pool_reachable_inv [OF assms(1)] .
  then have ok: "bpm_ok b" and sy: "synced b" by (simp_all add: pool_inv_def)
  have v: "valid_pid p" using p by (simp add: disk_used_def valid_pid_def)
  from inv p show ?thesis
  proof (cases rule: FetchPage_cases)
    case (hit f)
    from resident_facts [OF ok hit(1)] have len: "f < length (pages b)" by simp
    have "page_view ((upd_page f (\<lambda>pg. pg\<lparr>pin_count := pin_count pg + 1\<rparr>) b)
           \<lparr>repl := LRUReplacer_Pin f (repl b), disk := disk b\<rparr>) q = page_view b q" for q
      using len by (simp add: page_view_def split: option.splits)
    with hit len pr_fetch [OF assms hit(2)] show ?thesis by (auto simp: page_view_def)
  next
    case full
    then show ?thesis using assms(1) by auto
  next
    case (miss f r fl d)
    let ?pg = "\<lparr>page_data = logical_page d p, page_id_of = p, pin_count = 1, is_dirty = False\<rparr>"
    have t: "page_table b (page_id_of ?pg) = None" using miss(1) by simp
    have len: "f < length (pages b)" "pin_count (pages b ! f) = 0"
      using miss(2) bpm_okD(1) [OF ok] by (simp_all add: evictable_def)
    have "p = page_id_of (pages b ! f) \<Longrightarrow> \<not> is_dirty (pages b ! f)"
      using miss(1,2) bpm_okD(6) [OF ok, of f] by (auto simp: evictable_def frame_ok_def split: if_splits)
    then have view: "logical_page d p = page_view b p"
      using miss(1,3) v by (auto simp: evicted_disk_def page_view_def)
    show ?thesis
      using miss(1) miss(4) len view pr_fetch [OF assms miss(4)] page_view_install [OF ok sy miss(2) t miss(3)] by auto
  qed
qed

theorem fetch_page_correct_witness:
  "\<exists>f p b. NewPage (BufferPoolManager 3 (DiskManager_open zero_mem 0)) = Inr (Some (f, p), b) \<and>
     (\<exists>x b'. FetchPage b p = Inr (x, b') \<and> page_view b' p = page_view b p)"
proof -
  obtain f p b where N: "NewPage (BufferPoolManager 3 (DiskManager_open zero_mem 0)) = Inr (Some (f, p), b)"
    "pool_reachable b" "page_table b p = Some f" "valid_pid p"
    using new_pool_NewPage [OF dr_open fresh_disk_room, of 3] by (metis zero_less_numeral)
  have "p \<in> disk_used (disk b)" using pool_reachable_inv [OF N(2)] N(3) by (auto simp: pool_inv_def table_used_def)
  from fetch_page_correct [OF N(2) this] N show ?thesis by blast
qed

text \<open>
  C9. \<^verbatim>\<open>NewPage\<close>: null exactly when every frame is pinned; otherwise a fresh page, zeroed and pinned once.
  Every other page keeps its content except the victim: if the victim page was dirty, zeros are
  written over it on disk (\<^verbatim>\<open>EMPTY_PAGE_DATA\<close> instead of the page's data) and its unsaved content is lost.
\<close>

theorem new_page_overwrites_dirty_victim:
  assumes "pool_reachable b" and "disk_room (disk b)" and "\<not> all_pinned b"
  shows "\<exists>f p b'. NewPage b = Inr (Some (f, p), b') \<and> pool_reachable b' \<and> p \<notin> disk_used (disk b) \<and>
    page_view b' p = zero_mem \<and> pin_count (pages b' ! f) = 1 \<and>
    (\<forall>q. valid_pid q \<and> q \<noteq> p \<longrightarrow> page_view b' q =
       (if q = page_id_of (pages b ! f) \<and> is_dirty (pages b ! f) then zero_mem else page_view b q))"
proof -
  have inv: "pool_inv b" using pool_reachable_inv [OF assms(1)] .
  then have ok: "bpm_ok b" and sy: "synced b" and tu: "table_used b" by (simp_all add: pool_inv_def)
  obtain f p r fl s d where a: "DiskManager_AllocatePage (disk b) = (p, s)" and ev: "evictable b f r fl"
    and e: "evicted_disk b f zero_mem s d" and c: "NewPage b = Inr (Some (f, p), install f (blank_page p) d r fl b)"
    using NewPage_some [OF ok assms(2,3)] by metis
  note N = NewPage_fresh [OF ok assms(2) tu a]
  have f: "f < pool_size b" "f < length (pages b)" "pin_count (pages b ! f) = 0"
    using ev bpm_okD(1) [OF ok] by (auto simp: evictable_def)
  let ?b = "install f (blank_page p) d r fl b"
  have "page_view ?b q = (if q = page_id_of (pages b ! f) \<and> is_dirty (pages b ! f) then zero_mem else page_view b q)"
    if q: "valid_pid q" "q \<noteq> p" for q
  proof (cases "q = page_id_of (pages b ! f)")
    case True
    with bpm_okD(6) [OF ok f(1)] q have t: "f \<notin> set (free_list b)" "page_table b q = Some f"
      by (auto simp: frame_ok_def valid_pid_def INVALID_PAGE_ID_def split: if_splits)
    have "\<not> is_dirty (pages b ! f) \<Longrightarrow> page_data (pages b ! f) = logical_page (disk b) q"
      using sy f t(1) unfolding True synced_def by blast
    with True t q e N(6) [OF q(1)] show ?thesis by (auto simp: page_view_def evicted_disk_def)
  next
    case False
    with q e N(6) [OF q(1)] f table_page_id [OF ok _ f(1), of q] show ?thesis
      by (auto simp: page_view_def evicted_disk_def split: option.splits)
  qed
  moreover have "page_view ?b p = zero_mem" "pin_count (pages ?b ! f) = 1" using f by (simp_all add: page_view_def)
  ultimately show ?thesis using c N(3) pr_new [OF assms(1,2) c] by blast
qed

lemma disk_room_if_few:
  assumes "pool_reachable b" and "card (disk_used (disk b)) < 5"
  shows "disk_room (disk b)"
proof -
  have ok: "disk_ok (disk b)" using pool_reachable_inv [OF assms(1)] bpm_okD(2) by (auto simp: pool_inv_def)
  have fin: "finite (disk_used (disk b))"
    by (rule finite_subset [of _ "{0..<MAX_LOGICAL}"]) (auto simp: disk_used_def)
  have "\<not> {0, 1, 2, 3, 4} \<subseteq> disk_used (disk b)"
  proof
    assume "{0, 1, 2, 3, 4} \<subseteq> disk_used (disk b)"
    from card_mono [OF fin this] assms(2) show False by simp
  qed
  then obtain p where "p \<in> {0, 1, 2, 3, 4 :: int}" "p \<notin> disk_used (disk b)" by blast
  then show ?thesis using disk_room_if_free [OF ok, of p] by (auto simp: MAX_LOGICAL_def)
qed

text \<open>A pool of one frame in which a page was created, filled with ones and unpinned as dirty.\<close>

lemma dirty_pool:
  obtains b f p where "pool_reachable b" and "pool_size b = 1" and "page_table b p = Some f" and "is_dirty (pages b ! f)"
    and "pin_count (pages b ! f) = 0" and "page_view b p 0 = 1" and "valid_pid p" and "disk_room (disk b)"
proof -
  let ?d = "DiskManager_open zero_mem 0"
  obtain f p b where N: "NewPage (BufferPoolManager 1 ?d) = Inr (Some (f, p), b)" "pool_reachable b"
    "page_table b p = Some f" "pages b ! f = blank_page p" "valid_pid p" "f < length (pages b)" "pool_size b = 1"
    "disk_used (disk b) = insert p (disk_used ?d)"
    using new_pool_NewPage [OF dr_open fresh_disk_room, of 1] by (metis zero_less_one)
  let ?b1 = "store_page f (\<lambda>_. 1) b" and ?b2 = "snd (UnpinPage (store_page f (\<lambda>_. 1) b) p True)"
  have ok: "bpm_ok b" using pool_reachable_inv [OF N(2)] by (simp add: pool_inv_def)
  have r1: "pool_reachable ?b1" by (rule pr_store [OF N(2,3)]) (simp add: N)
  have t1: "page_table ?b1 p = Some f" using N by (simp add: store_page_def)
  have u: "UnpinPage ?b1 p True = (fst (UnpinPage ?b1 p True), ?b2)" by simp
  have r2: "pool_reachable ?b2" by (rule pr_unpin [OF r1 _ u]) (simp add: honest_unpin_def)
  have ok1: "bpm_ok ?b1" using pool_reachable_inv [OF r1] by (simp add: pool_inv_def)
  have P: "is_dirty (pages ?b2 ! f)" "pin_count (pages ?b2 ! f) = 0" "pool_size ?b2 = 1"
    unfolding UnpinPage_resident [OF ok1 t1] using N by (simp_all add: Let_def store_page_def)
  have V: "page_view ?b2 p 0 = 1"
    using UnpinPage_view [OF ok1, of p True p] store_page_view [OF ok N(3), of "\<lambda>_. 1" p] by (simp add: PAGE_SIZE_def)
  have D: "disk ?b2 = disk b" by (simp add: UnpinPage_table store_page_def)
  have "card (disk_used (disk b)) < 5"
    using N(8) by (simp add: open_empty_used)
  then have "disk_room (disk ?b2)" using disk_room_if_few [OF N(2)] D by simp
  then show ?thesis using that [OF r2 P(3) _ P(1,2) V N(5)] t1 by (simp add: UnpinPage_table)
qed

theorem new_page_overwrites_dirty_victim_witness:
  "\<exists>b p x b'. pool_reachable b \<and> NewPage b = Inr (x, b') \<and> page_view b p 0 = 1 \<and> page_view b' p 0 = 0"
proof -
  obtain b f p where B: "pool_reachable b" "pool_size b = 1" "page_table b p = Some f" "is_dirty (pages b ! f)"
    "pin_count (pages b ! f) = 0" "page_view b p 0 = 1" "valid_pid p" "disk_room (disk b)"
    by (rule dirty_pool)
  have ok: "bpm_ok b" and tu: "table_used b" using pool_reachable_inv [OF B(1)] by (simp_all add: pool_inv_def)
  note R = resident_facts [OF ok B(3)]
  have "\<not> all_pinned b" using all_pinned_nth [OF ok] R(1) B(5) by blast
  from new_page_overwrites_dirty_victim [OF B(1,8) this] obtain g q b' where
    N: "NewPage b = Inr (Some (g, q), b')" "q \<notin> disk_used (disk b)" "pool_reachable b'"
      "\<forall>q'. valid_pid q' \<and> q' \<noteq> q \<longrightarrow> page_view b' q' =
       (if q' = page_id_of (pages b ! g) \<and> is_dirty (pages b ! g) then zero_mem else page_view b q')" by blast
  have "g = f"
    using NewPage_some [OF ok B(8) \<open>\<not> all_pinned b\<close>] N(1) R(1) B(2) by (force simp: evictable_def)
  moreover have "p \<noteq> q" using N(2) B(3) tu by (auto simp: table_used_def)
  ultimately have "page_view b' p 0 = 0" using N(4) B R(4) by (simp add: zero_mem_def)
  then show ?thesis using B(1,6) N(1) by blast
qed

text \<open>
  C10. \<^verbatim>\<open>UnpinPage\<close> and \<^verbatim>\<open>FlushPage\<close> change no page's content. \<^verbatim>\<open>UnpinPage\<close> returns false exactly for a
  resident page with pin count 0, otherwise takes one pin off a resident page, and a page whose last
  pin goes becomes a victim candidate. \<^verbatim>\<open>FlushPage\<close> succeeds exactly for resident pages, leaves the
  disk with the page's content and the frame clean with its pins, and changes no other frame.
\<close>

theorem unpin_and_flush_correct:
  assumes "pool_reachable b" and "UnpinPage b p dirty = (z, b1)" and "valid_pid p" "valid_pid q"
  shows "z = (\<forall>f. page_table b p = Some f \<longrightarrow> pin_count (pages b ! f) \<noteq> 0) \<and> page_view b1 q = page_view b q
    \<and> (\<forall>f. page_table b p = Some f \<longrightarrow>
         pin_count (pages b1 ! f) = max 0 (pin_count (pages b ! f) - 1) \<and> is_dirty (pages b1 ! f) = (is_dirty (pages b ! f) \<or> dirty) \<and>
         (f \<in> set (lru_frames (repl b1)) \<longleftrightarrow> pin_count (pages b ! f) \<le> 1))
    \<and> (\<exists>b2. FlushPage b p = Inr (page_table b p \<noteq> None, b2) \<and> page_view b2 q = page_view b q \<and>
         (page_table b p \<noteq> None \<longrightarrow> logical_page (disk b2) p = page_view b p) \<and>
         page_table b2 = page_table b \<and> repl b2 = repl b \<and> free_list b2 = free_list b \<and>
         (\<forall>f < pool_size b. pages b2 ! f = (if page_table b p = Some f then (pages b ! f)\<lparr>is_dirty := False\<rparr> else pages b ! f)))"
proof -
  have ok: "bpm_ok b" and sy: "synced b" using pool_reachable_inv [OF assms(1)] by (simp_all add: pool_inv_def)
  have b1: "b1 = snd (UnpinPage b p dirty)" and z: "z = fst (UnpinPage b p dirty)" using assms(2) by simp_all
  have ok1: "bpm_ok b1" unfolding b1 by (rule UnpinPage_ok [OF ok])
  show ?thesis
  proof (cases "page_table b p")
    case None
    then show ?thesis using z b1 by (simp add: UnpinPage_def FlushPage_def)
  next
    case (Some f)
    note R = resident_facts [OF ok Some]
    have t1: "page_table b1 p = Some f" using Some by (simp add: b1 UnpinPage_table)
    have U: "pin_count (pages b1 ! f) = max 0 (pin_count (pages b ! f) - 1)"
      "is_dirty (pages b1 ! f) = (is_dirty (pages b ! f) \<or> dirty)" "z = (pin_count (pages b ! f) \<noteq> 0)"
      unfolding b1 z UnpinPage_resident [OF ok Some] using R by (simp_all add: Let_def)
    obtain d where "FlushPage b p = Inr (True, (upd_page f (\<lambda>pg. pg\<lparr>is_dirty := False\<rparr>) b)\<lparr>repl := repl b, disk := d\<rparr>)"
      using FlushPage_resident [OF ok Some] by metis
    then obtain b2 where F: "FlushPage b p = Inr (True, b2)" "page_table b2 = page_table b" "repl b2 = repl b" "free_list b2 = free_list b"
      "\<forall>h < pool_size b. pages b2 ! h = (if h = f then (pages b ! f)\<lparr>is_dirty := False\<rparr> else pages b ! h)"
      using R(2) by simp
    show ?thesis
      using U R(6) lru_unpinned_frame [OF ok1 t1] Some UnpinPage_view [OF ok, of p dirty q] F
        FlushPage_facts(5) [OF ok sy F(1) assms(4)] FlushPage_facts(6) [OF ok sy F(1)] assms(3)
      by (auto simp: b1)
  qed
qed

theorem unpin_and_flush_correct_witness:
  "\<exists>f p b b2. NewPage (BufferPoolManager 3 (DiskManager_open zero_mem 0)) = Inr (Some (f, p), b) \<and>
     fst (UnpinPage b p True) \<and> f \<in> set (lru_frames (repl (snd (UnpinPage b p True)))) \<and> FlushPage b p = Inr (True, b2)"
proof -
  obtain f p b where N: "NewPage (BufferPoolManager 3 (DiskManager_open zero_mem 0)) = Inr (Some (f, p), b)"
    "pool_reachable b" "page_table b p = Some f" "valid_pid p" "pages b ! f = blank_page p"
    using new_pool_NewPage [OF dr_open fresh_disk_room, of 3] by (metis zero_less_numeral)
  have "UnpinPage b p True = (fst (UnpinPage b p True), snd (UnpinPage b p True))" by simp
  from unpin_and_flush_correct [OF N(2) this N(4) N(4)] N show ?thesis by auto
qed

text \<open>
  \<^verbatim>\<open>DeletePage\<close> of an unpinned resident page returns its frame to the free list without removing
  it from the replacer. When the free list was empty, the next \<^verbatim>\<open>NewPage\<close> takes that frame and pins
  it while the replacer still offers it; a following \<^verbatim>\<open>FetchPage\<close> of a page that is not resident then
  replaces the page in the pinned frame, if the frame is the oldest one of the replacer.
\<close>

theorem delete_page_leaves_frame_evictable:
  assumes "pool_reachable b" and "page_table b p = Some f" and "pin_count (pages b ! f) = 0"
    and "free_list b = []" and "hd (lru_frames (repl b)) = f"
  shows "\<exists>q b1 b2. DeletePage b p = (True, b1) \<and> NewPage b1 = Inr (Some (f, q), b2) \<and>
    pin_count (pages b2 ! f) = 1 \<and> page_table b2 q = Some f \<and> f \<in> set (lru_frames (repl b2)) \<and>
    (\<forall>q'. valid_pid q' \<and> page_table b2 q' = None \<longrightarrow>
       (\<exists>b3. FetchPage b2 q' = Inr (Some f, b3) \<and> page_id_of (pages b3 ! f) = q' \<and> pin_count (pages b3 ! f) = 2))"
proof -
  have ok: "bpm_ok b" using pool_reachable_inv [OF assms(1)] by (simp add: pool_inv_def)
  note R = resident_facts [OF ok assms(2)] and lru = bpm_okD(3) [OF ok]
  let ?s = "DiskManager_DeAllocatePage (disk b) p"
  have D: "disk_ok ?s \<and> disk_used ?s = disk_used (disk b) - {p}"
    using DiskManager_DeAllocatePage_spec [of "disk b" p] DiskManager_DeAllocatePage_free [of "disk b" p] bpm_okD(2) [OF ok] R(5)
    by (cases "p \<in> disk_used (disk b)") (auto simp: valid_pid_def)
  have room: "disk_room ?s" using disk_room_if_free [of ?s p] D R(5) by (simp add: valid_pid_def)
  obtain q s where a: "DiskManager_AllocatePage ?s = (q, s)" by (metis prod.exhaust)
  have s: "disk_ok s" using DiskManager_AllocatePage_spec [OF _ room a] D by simp
  let ?pg1 = "(pages b ! f)\<lparr>pin_count := 0, is_dirty := False, page_id_of := INVALID_PAGE_ID\<rparr>"
  define b1 where "b1 = b\<lparr>disk := ?s, page_table := (page_table b)(p := None), free_list := [f], pages := (pages b)[f := ?pg1]\<rparr>"
  define b2 where "b2 = b\<lparr>disk := s, page_table := (((page_table b)(p := None))(INVALID_PAGE_ID := None))(q \<mapsto> f), free_list := [],
    pages := (pages b)[f := blank_page q]\<rparr>"
  have del: "DeletePage b p = (True, b1)"
    using assms(2,3,4) by (simp add: DeletePage_def Let_def upd_page_def b1_def)
  have "\<exists>pg \<in> set (pages b1). pin_count pg = 0"
    by (rule bexI [of _ ?pg1]) (use R(2) in \<open>auto simp: b1_def set_update_memI\<close>)
  then have new: "NewPage b1 = Inr (Some (f, q), b2)"
    using R(2) zero_page [OF R(7)]
    by (simp add: NewPage_def pick_frame_def b1_def a retable_def upd_page_def ResetMemory_def b2_def page_fill)
  have fs: "\<exists>fs. lru_frames (repl b) = f # fs"
    using lru_unpinned_frame [OF ok assms(2)] assms(3,5) by (cases "lru_frames (repl b)") auto
  then obtain fs r where v: "LRUReplacer_Victim (repl b) = (Some f, r)" using lru.victim_some [OF lru] by blast
  have fetch: "\<exists>b3. FetchPage b2 q' = Inr (Some f, b3) \<and> page_id_of (pages b3 ! f) = q' \<and> pin_count (pages b3 ! f) = 2"
    if q': "valid_pid q'" "page_table b2 q' = None" for q'
    using q'(2) R(2) v ReadPage_clipped [OF s q'(1) clipped_zero]
    by (simp add: FetchPage_def pick_frame_def read_page_def retable_def upd_page_def b2_def split: if_splits)
  show ?thesis using del new fs fetch R(2) by (auto simp: b2_def intro!: exI [of _ q] exI [of _ b1] exI [of _ b2])
qed

theorem delete_page_leaves_frame_evictable_witness:
  "\<exists>b p f q b2. pool_reachable b \<and> NewPage (snd (DeletePage b p)) = Inr (Some (f, q), b2) \<and>
     pin_count (pages b2 ! f) = 1 \<and> f \<in> set (lru_frames (repl b2))"
proof -
  obtain b f p where B: "pool_reachable b" "pool_size b = 1" "page_table b p = Some f" "pin_count (pages b ! f) = 0"
    by (rule dirty_pool)
  have ok: "bpm_ok b" using pool_reachable_inv [OF B(1)] by (simp add: pool_inv_def)
  note R = resident_facts [OF ok B(3)]
  have "set (free_list b) \<subseteq> {..<1}" "0 \<notin> set (free_list b)" using bpm_okD(5) [OF ok] R(1,3) B(2) by auto
  then have fl: "free_list b = []" by (cases "free_list b") auto
  have "set (lru_frames (repl b)) = {f}"
    using bpm_okD(8) [OF ok] R(1) B(2,4) fl by auto
  then have "hd (lru_frames (repl b)) = f" using hd_in_set [of "lru_frames (repl b)"] by fastforce
  from delete_page_leaves_frame_evictable [OF B(1,3,4) fl this] B(1) show ?thesis
    by (metis snd_conv)
qed

end
