(* ===== verification/Table_Page.thy ===== *)
theory Table_Page
  imports Row_Codec
begin

text \<open>
  The slotted page of a table: src/MiniSQL/src/include/page/table_page.h and page/table_page.cpp, at
  the level of the bytes of the page buffer. The getters and setters are reads and writes at the
  header offsets, all page arithmetic is 32-bit. The transaction, lock and log arguments are unused
  by the code and left out. The abstract view \<open>tp_slot\<close> of a slot is empty, or its bytes with the
  delete mark; the lemmas show which slots each operation changes.
\<close>

section \<open>Header and slots\<close>

definition DELETE_MASK :: u32 where
  "DELETE_MASK = 0x80000000"

definition SIZE_TABLE_PAGE_HEADER :: nat where
  "SIZE_TABLE_PAGE_HEADER = 24"

definition SIZE_TUPLE :: nat where
  "SIZE_TUPLE = 8"

definition SIZE_MAX_ROW :: nat where
  "SIZE_MAX_ROW = PAGE_SIZE - SIZE_TABLE_PAGE_HEADER - SIZE_TUPLE"

definition GetTablePageId :: "mem \<Rightarrow> page_id" where
  "GetTablePageId m = sint (rd32 m 0)"

definition GetPrevPageId :: "mem \<Rightarrow> page_id" where
  "GetPrevPageId m = sint (rd32 m 8)"

definition GetNextPageId :: "mem \<Rightarrow> page_id" where
  "GetNextPageId m = sint (rd32 m 12)"

definition SetPrevPageId :: "mem \<Rightarrow> page_id \<Rightarrow> mem" where
  "SetPrevPageId m p = wr32 m 8 (word_of_int p)"

definition SetNextPageId :: "mem \<Rightarrow> page_id \<Rightarrow> mem" where
  "SetNextPageId m p = wr32 m 12 (word_of_int p)"

definition GetFreeSpacePointer :: "mem \<Rightarrow> u32" where
  "GetFreeSpacePointer m = rd32 m 16"

definition SetFreeSpacePointer :: "mem \<Rightarrow> u32 \<Rightarrow> mem" where
  "SetFreeSpacePointer m w = wr32 m 16 w"

definition GetTupleCount :: "mem \<Rightarrow> u32" where
  "GetTupleCount m = rd32 m 20"

definition SetTupleCount :: "mem \<Rightarrow> u32 \<Rightarrow> mem" where
  "SetTupleCount m w = wr32 m 20 w"

definition GetFreeSpaceRemaining :: "mem \<Rightarrow> u32" where
  "GetFreeSpaceRemaining m = GetFreeSpacePointer m - 24 - 8 * GetTupleCount m"

definition GetTupleOffsetAtSlot :: "mem \<Rightarrow> nat \<Rightarrow> u32" where
  "GetTupleOffsetAtSlot m i = rd32 m (24 + 8 * i)"

definition SetTupleOffsetAtSlot :: "mem \<Rightarrow> nat \<Rightarrow> u32 \<Rightarrow> mem" where
  "SetTupleOffsetAtSlot m i w = wr32 m (24 + 8 * i) w"

definition GetTupleSize :: "mem \<Rightarrow> nat \<Rightarrow> u32" where
  "GetTupleSize m i = rd32 m (28 + 8 * i)"

definition SetTupleSize :: "mem \<Rightarrow> nat \<Rightarrow> u32 \<Rightarrow> mem" where
  "SetTupleSize m i w = wr32 m (28 + 8 * i) w"

definition IsDeleted :: "u32 \<Rightarrow> bool" where
  "IsDeleted tuple_size \<longleftrightarrow> tuple_size AND DELETE_MASK \<noteq> 0 \<or> tuple_size = 0"

definition SetDeletedFlag :: "u32 \<Rightarrow> u32" where
  "SetDeletedFlag tuple_size = tuple_size OR DELETE_MASK"

definition UnsetDeletedFlag :: "u32 \<Rightarrow> u32" where
  "UnsetDeletedFlag tuple_size = tuple_size AND NOT DELETE_MASK"

section \<open>Operations\<close>

definition TablePage_Init :: "mem \<Rightarrow> page_id \<Rightarrow> page_id \<Rightarrow> mem" where
  "TablePage_Init m p prev =
     SetTupleCount (SetFreeSpacePointer (SetNextPageId (SetPrevPageId (wr32 m 0 (word_of_int p)) prev) INVALID_PAGE_ID)
       (word_of_nat PAGE_SIZE)) 0"

text \<open>The first slot from \<open>i\<close> on that satisfies \<open>P\<close>, or the tuple count: the search loops of the page.\<close>

function find_slot :: "(u32 \<Rightarrow> bool) \<Rightarrow> mem \<Rightarrow> nat \<Rightarrow> nat" where
  "find_slot P m i = (if i < unat (GetTupleCount m) then (if P (GetTupleSize m i) then i else find_slot P m (Suc i)) else i)"
  by pat_completeness auto
termination
  by (relation "measure (\<lambda>(P, m, i). unat (GetTupleCount m) - i)") auto

declare find_slot.simps [simp del]

definition TablePage_InsertTuple :: "mem \<Rightarrow> row \<Rightarrow> schema option \<Rightarrow> (bool \<times> mem \<times> row) res" where
  "TablePage_InsertTuple m r sch =
     res_bind (Row_GetSerializedSize r sch) (\<lambda>serialized_size.
     res_bind (ASSERT (serialized_size > 0)) (\<lambda>_.
       if unat (GetFreeSpaceRemaining m) < unat serialized_size + SIZE_TUPLE then Inr (False, m, r)
       else
         let i = find_slot (\<lambda>s. s = 0) m 0 in
         if i = unat (GetTupleCount m) \<and> unat (GetFreeSpaceRemaining m) < unat serialized_size + SIZE_TUPLE
         then Inr (False, m, r)
         else
           let m1 = SetFreeSpacePointer m (GetFreeSpacePointer m - serialized_size) in
           res_bind (Row_SerializeTo r sch) (\<lambda>bs.
             let m2 = poke m1 (unat (GetFreeSpacePointer m1)) bs in
             res_bind (ASSERT (word_of_nat (length bs) = serialized_size)) (\<lambda>_.
               let m3 = SetTupleOffsetAtSlot m2 i (GetFreeSpacePointer m2);
                   m4 = SetTupleSize m3 i serialized_size;
                   r' = SetRowId r (RowId (GetTablePageId m4) (word_of_nat i));
                   m5 = (if i = unat (GetTupleCount m4) then SetTupleCount m4 (GetTupleCount m4 + 1) else m4)
               in Inr (True, m5, r')))))"

definition TablePage_MarkDelete :: "mem \<Rightarrow> rowid \<Rightarrow> bool \<times> mem" where
  "TablePage_MarkDelete m rd =
     (let slot_num = unat (rid_slot_num rd) in
      if slot_num \<ge> unat (GetTupleCount m) then (False, m)
      else
        let tuple_size = GetTupleSize m slot_num in
        if IsDeleted tuple_size then (False, m)
        else (True, if tuple_size > 0 then SetTupleSize m slot_num (SetDeletedFlag tuple_size) else m))"

fun shift_offsets :: "(nat \<Rightarrow> mem \<Rightarrow> bool) \<Rightarrow> u32 \<Rightarrow> nat list \<Rightarrow> mem \<Rightarrow> mem" where
  "shift_offsets P d [] m = m"
| "shift_offsets P d (i # is) m =
     shift_offsets P d is (if P i m then SetTupleOffsetAtSlot m i (GetTupleOffsetAtSlot m i + d) else m)"

definition TablePage_UpdateTuple :: "mem \<Rightarrow> row \<Rightarrow> row \<Rightarrow> schema option \<Rightarrow> (bool \<times> mem \<times> row) res" where
  "TablePage_UpdateTuple m new_row old_row sch =
     res_bind (ASSERT (RowId_Get (rid old_row) \<noteq> RowId_Get INVALID_ROWID)) (\<lambda>_.
     res_bind (Row_GetSerializedSize new_row sch) (\<lambda>serialized_size.
     res_bind (ASSERT (serialized_size > 0)) (\<lambda>_.
       let slot_num = unat (rid_slot_num (rid old_row)) in
       if slot_num \<ge> unat (GetTupleCount m) then Inr (False, m, old_row)
       else
         let tuple_size = GetTupleSize m slot_num in
         if IsDeleted tuple_size then Inr (False, m, old_row)
         else if GetFreeSpaceRemaining m + tuple_size < serialized_size then Inr (False, m, old_row)
         else
           let tuple_offset = GetTupleOffsetAtSlot m slot_num in
           res_bind (Row_DeserializeFrom old_row m (unat tuple_offset) sch) (\<lambda>(old_row', read_bytes).
           res_bind (ASSERT (tuple_size = read_bytes)) (\<lambda>_.
             let fsp = GetFreeSpacePointer m in
             res_bind (ASSERT (tuple_offset \<ge> fsp)) (\<lambda>_.
               let m1 = memmove m (unat fsp + unat tuple_size - unat serialized_size) (unat fsp) (unat (tuple_offset - fsp));
                   m2 = SetFreeSpacePointer m1 (fsp + tuple_size - serialized_size)
               in res_bind (Row_SerializeTo new_row sch) (\<lambda>bs.
                    let m3 = poke m2 (unat tuple_offset + unat tuple_size - unat serialized_size) bs;
                        m4 = SetTupleSize m3 slot_num serialized_size
                    in Inr (True,
                         shift_offsets (\<lambda>i m. GetTupleSize m i > 0 \<and> GetTupleOffsetAtSlot m i < tuple_offset + tuple_size)
                           (tuple_size - serialized_size) [0..<unat (GetTupleCount m4)] m4, old_row'))))))))"

definition TablePage_ApplyDelete :: "mem \<Rightarrow> rowid \<Rightarrow> mem res" where
  "TablePage_ApplyDelete m rd =
     (let slot_num = unat (rid_slot_num rd) in
      res_bind (ASSERT (slot_num < unat (GetTupleCount m))) (\<lambda>_.
        let tuple_offset = GetTupleOffsetAtSlot m slot_num;
            tuple_size = (if IsDeleted (GetTupleSize m slot_num) then UnsetDeletedFlag (GetTupleSize m slot_num)
                          else GetTupleSize m slot_num);
            fsp = GetFreeSpacePointer m
        in res_bind (ASSERT (tuple_offset \<ge> fsp)) (\<lambda>_.
             let m1 = memmove m (unat fsp + unat tuple_size) (unat fsp) (unat (tuple_offset - fsp));
                 m2 = SetFreeSpacePointer m1 (fsp + tuple_size);
                 m3 = SetTupleSize m2 slot_num 0;
                 m4 = SetTupleCount m3 (GetTupleCount m3 - 1);
                 m5 = SetTupleOffsetAtSlot m4 slot_num 0
             in Inr (shift_offsets (\<lambda>i m. GetTupleSize m i \<noteq> 0 \<and> GetTupleOffsetAtSlot m i < tuple_offset)
                       tuple_size [0..<unat (GetTupleCount m5)] m5))))"

definition TablePage_RollbackDelete :: "mem \<Rightarrow> rowid \<Rightarrow> mem res" where
  "TablePage_RollbackDelete m rd =
     (let slot_num = unat (rid_slot_num rd) in
      res_bind (ASSERT (slot_num < unat (GetTupleCount m))) (\<lambda>_.
        let tuple_size = GetTupleSize m slot_num in
        Inr (if IsDeleted tuple_size then SetTupleSize m slot_num (UnsetDeletedFlag tuple_size) else m)))"

definition TablePage_GetTuple :: "mem \<Rightarrow> row \<Rightarrow> schema option \<Rightarrow> (bool \<times> row) res" where
  "TablePage_GetTuple m r sch =
     res_bind (ASSERT (RowId_Get (rid r) \<noteq> RowId_Get INVALID_ROWID)) (\<lambda>_.
       let slot_num = unat (rid_slot_num (rid r)) in
       if slot_num \<ge> unat (GetTupleCount m) then Inr (False, r)
       else
         let tuple_size = GetTupleSize m slot_num in
         if IsDeleted tuple_size then Inr (False, r)
         else
           res_bind (Row_DeserializeFrom r m (unat (GetTupleOffsetAtSlot m slot_num)) sch) (\<lambda>(r', read_bytes).
           res_bind (ASSERT (tuple_size = read_bytes)) (\<lambda>_. Inr (True, r'))))"

definition TablePage_GetFirstTupleRid :: "mem \<Rightarrow> bool \<times> rowid" where
  "TablePage_GetFirstTupleRid m =
     (let i = find_slot (\<lambda>s. \<not> IsDeleted s) m 0 in
      if i < unat (GetTupleCount m) then (True, RowId (GetTablePageId m) (word_of_nat i))
      else (False, RowId INVALID_PAGE_ID 0))"

definition TablePage_GetNextTupleRid :: "mem \<Rightarrow> rowid \<Rightarrow> (bool \<times> rowid) res" where
  "TablePage_GetNextTupleRid m cur =
     res_bind (ASSERT (rid_page_id cur = GetTablePageId m)) (\<lambda>_.
       let i = find_slot (\<lambda>s. \<not> IsDeleted s) m (unat (rid_slot_num cur + 1)) in
       Inr (if i < unat (GetTupleCount m) then (True, RowId (GetTablePageId m) (word_of_nat i))
            else (False, RowId INVALID_PAGE_ID 0)))"

section \<open>Abstract view and invariant\<close>

definition tp_count :: "mem \<Rightarrow> nat" where
  "tp_count m = unat (GetTupleCount m)"

definition tp_fsp :: "mem \<Rightarrow> nat" where
  "tp_fsp m = unat (GetFreeSpacePointer m)"

definition tuple_len :: "mem \<Rightarrow> nat \<Rightarrow> nat" where
  "tuple_len m i = unat (UnsetDeletedFlag (GetTupleSize m i))"

definition tuple_off :: "mem \<Rightarrow> nat \<Rightarrow> nat" where
  "tuple_off m i = unat (GetTupleOffsetAtSlot m i)"

text \<open>A slot is empty, or holds bytes and is marked deleted or not.\<close>

definition tp_slot :: "mem \<Rightarrow> nat \<Rightarrow> (bool \<times> byte list) option" where
  "tp_slot m i = (if GetTupleSize m i = 0 then None
                  else Some (IsDeleted (GetTupleSize m i), peek m (tuple_off m i) (tuple_len m i)))"

definition tp_ok :: "mem \<Rightarrow> bool" where
  "tp_ok m \<longleftrightarrow> 24 + 8 * tp_count m \<le> tp_fsp m \<and> tp_fsp m \<le> PAGE_SIZE \<and>
     (\<forall>i < tp_count m. GetTupleSize m i \<noteq> 0 \<longrightarrow> tp_fsp m \<le> tuple_off m i \<and> tuple_off m i + tuple_len m i \<le> PAGE_SIZE)"

lemmas tp_getters = GetTablePageId_def GetPrevPageId_def GetNextPageId_def GetFreeSpacePointer_def GetTupleCount_def
  GetTupleOffsetAtSlot_def GetTupleSize_def

lemmas tp_setters = SetPrevPageId_def SetNextPageId_def SetFreeSpacePointer_def SetTupleCount_def SetTupleOffsetAtSlot_def
  SetTupleSize_def

lemma tp_okD:
  assumes "tp_ok m"
  shows "24 + 8 * tp_count m \<le> tp_fsp m" and "tp_fsp m \<le> 4096" and "tp_count m \<le> 512"
    and "i < tp_count m \<Longrightarrow> GetTupleSize m i \<noteq> 0 \<Longrightarrow> tp_fsp m \<le> tuple_off m i \<and> tuple_off m i + tuple_len m i \<le> 4096"
  using assms by (auto simp: tp_ok_def PAGE_SIZE_def)

lemma unat_remaining:
  assumes "tp_ok m"
  shows "unat (GetFreeSpaceRemaining m) = tp_fsp m - 24 - 8 * tp_count m"
proof -
  note B = tp_okD(1-3) [OF assms]
  let ?f = "GetFreeSpacePointer m" and ?c = "GetTupleCount m"
  have c8: "unat (8 * ?c) = 8 * tp_count m"
    using B by (simp add: tp_count_def unat_word_ariths)
  have f: "unat (?f - 24) = tp_fsp m - 24"
    using unat_u32_minus [of 24 ?f] B by (simp add: tp_fsp_def)
  show ?thesis
    using unat_u32_minus [of "8 * ?c" "?f - 24"] c8 f B by (simp add: GetFreeSpaceRemaining_def)
qed

lemma find_slot_le: "i \<le> tp_count m \<Longrightarrow> find_slot P m i \<le> tp_count m"
proof (induction P m i rule: find_slot.induct)
  case (1 P m i)
  then show ?case by (subst find_slot.simps) (auto simp: tp_count_def)
qed

lemma find_slot_spec:
  "i \<le> find_slot P m i \<and> (\<forall>j. i \<le> j \<and> j < find_slot P m i \<longrightarrow> \<not> P (GetTupleSize m j)) \<and>
   (find_slot P m i < tp_count m \<longrightarrow> P (GetTupleSize m (find_slot P m i)))"
proof (induction P m i rule: find_slot.induct)
  case (1 P m i)
  show ?case
  proof (cases "i < unat (GetTupleCount m) \<and> \<not> P (GetTupleSize m i)")
    case True
    then have eq: "find_slot P m i = find_slot P m (Suc i)" by (subst find_slot.simps) simp
    have ih: "Suc i \<le> find_slot P m (Suc i) \<and> (\<forall>j. Suc i \<le> j \<and> j < find_slot P m (Suc i) \<longrightarrow> \<not> P (GetTupleSize m j)) \<and>
      (find_slot P m (Suc i) < tp_count m \<longrightarrow> P (GetTupleSize m (find_slot P m (Suc i))))"
      using "1.IH" True by blast
    have "\<not> P (GetTupleSize m j)" if "i \<le> j" "j < find_slot P m (Suc i)" for j
      using that ih True by (cases "j = i") auto
    with ih eq show ?thesis by auto
  next
    case False
    then show ?thesis by (subst (1 2 3 4) find_slot.simps) (auto simp: tp_count_def)
  qed
qed

lemma bit_DELETE_MASK: "bit DELETE_MASK n \<longleftrightarrow> n = 31"
proof -
  have eq: "DELETE_MASK = 2 ^ 31" by (simp add: DELETE_MASK_def)
  show ?thesis unfolding eq bit_exp_iff by auto
qed

lemmas flag_bits = bit_DELETE_MASK bit_and_iff bit_or_iff bit_not_iff

lemma no_delete_bit: "unat (w :: u32) < 2 ^ 31 \<Longrightarrow> \<not> bit w 31"
proof -
  assume "unat w < 2 ^ 31"
  then have "\<not> bit (unat w) 31" by (simp add: bit_iff_odd)
  then show ?thesis by (simp add: bit_unsigned_iff)
qed

lemma IsDeleted_bit: "IsDeleted w \<longleftrightarrow> bit w 31 \<or> w = 0"
proof -
  have "w AND DELETE_MASK = 0" if "\<not> bit w 31"
    by (rule bit_word_eqI) (use that in \<open>auto simp: flag_bits\<close>)
  moreover have "bit (w AND DELETE_MASK) 31 = bit w 31" by (simp add: flag_bits)
  ultimately show ?thesis unfolding IsDeleted_def by (metis bit_0_eq bot_apply bot_bool_def)
qed

lemma small_not_deleted: "unat w < 2 ^ 31 \<Longrightarrow> IsDeleted w \<longleftrightarrow> w = 0"
  using no_delete_bit by (simp add: IsDeleted_bit)

lemma unset_set_flag: "unat w < 2 ^ 31 \<Longrightarrow> UnsetDeletedFlag (SetDeletedFlag w) = w"
  and small_unset: "unat w < 2 ^ 31 \<Longrightarrow> UnsetDeletedFlag w = w"
  and set_flag_deleted: "IsDeleted (SetDeletedFlag w)" "SetDeletedFlag w \<noteq> 0"
proof -
  show "UnsetDeletedFlag (SetDeletedFlag w) = w" if "unat w < 2 ^ 31"
    unfolding UnsetDeletedFlag_def SetDeletedFlag_def
    by (rule bit_word_eqI) (use no_delete_bit [OF that] in \<open>auto simp: flag_bits\<close>)
  show "UnsetDeletedFlag w = w" if "unat w < 2 ^ 31"
    unfolding UnsetDeletedFlag_def
    by (rule bit_word_eqI) (use no_delete_bit [OF that] in \<open>auto simp: flag_bits\<close>)
  have b: "bit (SetDeletedFlag w) 31" by (simp add: SetDeletedFlag_def flag_bits)
  then show "IsDeleted (SetDeletedFlag w)" by (simp add: IsDeleted_bit)
  show "SetDeletedFlag w \<noteq> 0" using b by auto
qed

lemma unset_flag_bit: "\<not> bit (UnsetDeletedFlag w) 31"
  by (simp add: UnsetDeletedFlag_def flag_bits)

section \<open>Insertion\<close>

text \<open>The page after a tuple of bytes \<open>bs\<close> went into slot \<open>i\<close>.\<close>

definition put_tuple :: "mem \<Rightarrow> nat \<Rightarrow> byte list \<Rightarrow> mem" where
  "put_tuple m i bs =
     (let f = GetFreeSpacePointer m - word_of_nat (length bs);
          m4 = wr32 (wr32 (poke (wr32 m 16 f) (unat f) bs) (24 + 8 * i) f) (28 + 8 * i) (word_of_nat (length bs))
      in if i = tp_count m then wr32 m4 20 (GetTupleCount m + 1) else m4)"

lemma put_tuple_reads:
  assumes ok: "tp_ok m" and i: "i \<le> tp_count m" and room: "length bs + 8 \<le> tp_fsp m - 24 - 8 * tp_count m"
  shows "tp_count (put_tuple m i bs) = (if i = tp_count m then Suc (tp_count m) else tp_count m)"
    and "tp_fsp (put_tuple m i bs) = tp_fsp m - length bs"
    and "j \<le> tp_count m \<Longrightarrow> GetTupleSize (put_tuple m i bs) j = (if j = i then word_of_nat (length bs) else GetTupleSize m j)"
    and "j \<le> tp_count m \<Longrightarrow> tuple_off (put_tuple m i bs) j = (if j = i then tp_fsp m - length bs else tuple_off m j)"
    and "tp_fsp m \<le> a \<Longrightarrow> peek (put_tuple m i bs) a n = peek m a n"
    and "holds (put_tuple m i bs) (tp_fsp m - length bs) bs"
    and "k = 0 \<or> k = 8 \<or> k = 12 \<Longrightarrow> rd32 (put_tuple m i bs) k = rd32 m k"
proof -
  note B = tp_okD(1-3) [OF ok]
  let ?f = "GetFreeSpacePointer m - word_of_nat (length bs)"
  have f: "unat ?f = tp_fsp m - length bs"
    using B room unat_u32_minus [of "word_of_nat (length bs)" "GetFreeSpacePointer m"] by (simp add: tp_fsp_def)
  have lay: "24 + 8 * tp_count m + 8 \<le> tp_fsp m - length bs" "tp_fsp m - length bs + length bs = tp_fsp m" using room B by auto
  have cnt: "unat (GetTupleCount m + 1) = Suc (tp_count m)"
    using B unat_u32_plus [of "GetTupleCount m" 1] by (simp add: tp_count_def)
  show "tp_count (put_tuple m i bs) = (if i = tp_count m then Suc (tp_count m) else tp_count m)"
    using lay i cnt by (simp add: tp_count_def put_tuple_def Let_def GetTupleCount_def f mem_simps)
  show "tp_fsp (put_tuple m i bs) = tp_fsp m - length bs"
    using lay i f by (simp add: tp_fsp_def put_tuple_def Let_def GetFreeSpacePointer_def mem_simps)
  show "GetTupleSize (put_tuple m i bs) j = (if j = i then word_of_nat (length bs) else GetTupleSize m j)" if "j \<le> tp_count m"
    using lay i that by (cases rule: linorder_cases [of j i]) (auto simp: put_tuple_def Let_def GetTupleSize_def f mem_simps)
  show "tuple_off (put_tuple m i bs) j = (if j = i then tp_fsp m - length bs else tuple_off m j)" if "j \<le> tp_count m"
    using lay i that f
    by (cases rule: linorder_cases [of j i]) (auto simp: put_tuple_def Let_def tuple_off_def GetTupleOffsetAtSlot_def mem_simps)
  show "peek (put_tuple m i bs) a n = peek m a n" if "tp_fsp m \<le> a"
  proof -
    obtain f0 where f0: "tp_fsp m = f0 + length bs" using lay(2) by metis
    with lay f that have "unat ?f = f0" "32 + 8 * tp_count m \<le> f0" "f0 + length bs \<le> a" by simp_all
    with i show ?thesis by (auto simp: put_tuple_def Let_def mem_simps)
  qed
  show "holds (put_tuple m i bs) (tp_fsp m - length bs) bs"
    using lay i by (simp add: put_tuple_def Let_def f holds_def mem_simps)
  show "rd32 (put_tuple m i bs) k = rd32 m k" if "k = 0 \<or> k = 8 \<or> k = 12"
    using lay i that by (auto simp: put_tuple_def Let_def f mem_simps)
qed

lemma put_tuple_slots:
  assumes ok: "tp_ok m" and i: "i \<le> tp_count m" and room: "length bs + 8 \<le> tp_fsp m - 24 - 8 * tp_count m"
    and ne: "0 < length bs"
  shows "tp_slot (put_tuple m i bs) i = Some (False, bs)"
    and "j < tp_count m \<Longrightarrow> j \<noteq> i \<Longrightarrow> tp_slot (put_tuple m i bs) j = tp_slot m j"
    and "tp_ok (put_tuple m i bs)"
proof -
  note B = tp_okD(1-3) [OF ok] and R = put_tuple_reads [OF ok i room]
  have n: "unat (word_of_nat (length bs) :: u32) = length bs" "length bs < 2 ^ 31" using room B by simp_all
  have w: "GetTupleSize (put_tuple m i bs) i = word_of_nat (length bs)" using R(3) [of i] i by simp
  have nz: "(word_of_nat (length bs) :: u32) \<noteq> 0" using n(1) ne by auto
  have L: "tuple_len (put_tuple m i bs) i = length bs" using n by (simp add: tuple_len_def w small_unset)
  show "tp_slot (put_tuple m i bs) i = Some (False, bs)"
    using R(4) [of i] R(6) i nz n by (simp add: tp_slot_def w L holds_peek small_not_deleted)
  have O: "GetTupleSize (put_tuple m i bs) j = GetTupleSize m j" "tuple_off (put_tuple m i bs) j = tuple_off m j"
    "tuple_len (put_tuple m i bs) j = tuple_len m j" if "j < tp_count m" "j \<noteq> i" for j
    using R(3,4) [of j] that by (simp_all add: tuple_len_def)
  show "tp_slot (put_tuple m i bs) j = tp_slot m j" if "j < tp_count m" "j \<noteq> i"
    using O [OF that] tp_okD(4) [OF ok that(1)] R(5) by (auto simp: tp_slot_def)
  show "tp_ok (put_tuple m i bs)"
    unfolding tp_ok_def
  proof (intro conjI allI impI)
    show "24 + 8 * tp_count (put_tuple m i bs) \<le> tp_fsp (put_tuple m i bs)" "tp_fsp (put_tuple m i bs) \<le> PAGE_SIZE"
      using R(1,2) room B by (auto simp: PAGE_SIZE_def)
    fix j assume j: "j < tp_count (put_tuple m i bs)" and s: "GetTupleSize (put_tuple m i bs) j \<noteq> 0"
    show "tp_fsp (put_tuple m i bs) \<le> tuple_off (put_tuple m i bs) j"
      "tuple_off (put_tuple m i bs) j + tuple_len (put_tuple m i bs) j \<le> PAGE_SIZE"
      using j s R(1,2) R(4) [of j] i L B room O [of j] tp_okD(4) [OF ok, of j]
      by (cases "j = i"; auto simp: PAGE_SIZE_def split: if_splits)+
  qed
qed

text \<open>\<^verbatim>\<open>InsertTuple\<close> fails when the free space is short, and otherwise puts the serialised row into the
  first empty slot, or a new one.\<close>

lemma TablePage_InsertTuple_eq:
  assumes ok: "tp_ok m" and ser: "Row_SerializeTo r (Some sch) = Inr bs"
    and siz: "Row_GetSerializedSize r (Some sch) = Inr (word_of_nat (length bs))" and lt: "length bs < 2 ^ 32" and ne: "0 < length bs"
  defines "i \<equiv> find_slot (\<lambda>s. s = 0) m 0"
  shows "TablePage_InsertTuple m r (Some sch) =
    (if tp_fsp m - 24 - 8 * tp_count m < length bs + 8 then Inr (False, m, r)
     else Inr (True, put_tuple m i bs, SetRowId r (RowId (GetTablePageId m) (word_of_nat i))))"
proof -
  have n: "unat (word_of_nat (length bs) :: u32) = length bs" using lt by simp
  then have pos: "(0 :: u32) < word_of_nat (length bs)" using ne by (simp add: word_less_nat_alt)
  note rem = unat_remaining [OF ok]
  show ?thesis
  proof (cases "tp_fsp m - 24 - 8 * tp_count m < length bs + 8")
    case True
    then show ?thesis by (simp add: TablePage_InsertTuple_def siz pos rem n SIZE_TUPLE_def)
  next
    case False
    have i: "i \<le> tp_count m" unfolding i_def by (rule find_slot_le) simp
    note B = tp_okD(1-3) [OF ok]
    let ?f = "GetFreeSpacePointer m - word_of_nat (length bs)"
    have f: "unat ?f = tp_fsp m - length bs"
      using B False unat_u32_minus [of "word_of_nat (length bs)" "GetFreeSpacePointer m"] n by (simp add: tp_fsp_def)
    have lay: "24 + 8 * tp_count m + 8 \<le> unat ?f" using False B f by auto
    let ?m2 = "poke (SetFreeSpacePointer m ?f) (unat ?f) bs"
    let ?m4 = "SetTupleSize (SetTupleOffsetAtSlot ?m2 i ?f) i (word_of_nat (length bs))"
    have g: "GetFreeSpacePointer (SetFreeSpacePointer m ?f) = ?f" "GetFreeSpacePointer ?m2 = ?f"
      "GetTupleCount ?m4 = GetTupleCount m" "GetTablePageId ?m4 = GetTablePageId m"
      using lay i by (simp_all add: tp_getters tp_setters mem_simps)
    then have g5: "tp_count ?m4 = tp_count m" by (simp add: tp_count_def)
    have put: "(if i = tp_count m then SetTupleCount ?m4 (GetTupleCount m + 1) else ?m4) = put_tuple m i bs"
      by (simp add: put_tuple_def Let_def tp_setters)
    from False show ?thesis
      by (simp add: TablePage_InsertTuple_def siz pos rem n SIZE_TUPLE_def ser Let_def g g5 put
          flip: i_def tp_count_def split del: if_split) (unfold g put, rule refl)
  qed
qed

section \<open>Reading, marking and walking\<close>

lemma valid_rowid_not_invalid:
  assumes "0 \<le> p" and "p < 2 ^ 31"
  shows "RowId_Get (RowId p n) \<noteq> RowId_Get INVALID_ROWID"
proof
  assume eq: "RowId_Get (RowId p n) = RowId_Get INVALID_ROWID"
  have "RowId_of (RowId_Get (RowId p n)) = RowId p n" "RowId_of (RowId_Get INVALID_ROWID) = INVALID_ROWID"
    by (rule RowId_Get_of, use assms in \<open>simp add: rowid_ok_def RowId_def INVALID_ROWID_def INVALID_PAGE_ID_def\<close>)+
  with eq have "RowId p n = INVALID_ROWID" by simp
  then show False using assms by (simp add: RowId_def INVALID_ROWID_def INVALID_PAGE_ID_def)
qed

text \<open>Reading a live slot that holds a serialised row gives the row with the row id stored in those bytes.\<close>

lemma TablePage_GetTuple_slot:
  assumes p: "0 \<le> p" "p < 2 ^ 31" and k: "unat k < tp_count m" and slot: "tp_slot m (unat k) = Some (False, bs)"
    and siz: "GetTupleSize m (unat k) = word_of_nat (length bs)" and r: "row_ok sch r" and ser: "Row_SerializeTo r (Some sch) = Inr bs"
  shows "TablePage_GetTuple m (Row_at (RowId p k)) (Some sch) =
    Inr (True, \<lparr>rid = rid r, row_fields = map reread (row_fields r)\<rparr>)"
proof -
  obtain bs' where B: "Row_SerializeTo r (Some sch) = Inr bs'" "Row_GetSerializedSize r (Some sch) = Inr (word_of_nat (length bs'))"
    "length bs' < 2 ^ 32" "13 \<le> length bs'"
    "\<forall>m a x. row_fields x = [] \<and> holds m a bs' \<longrightarrow>
      Row_DeserializeFrom x m a (Some sch) = Inr (\<lparr>rid = rid r, row_fields = map reread (row_fields r)\<rparr>, word_of_nat (length bs'))"
    using Row_serialize_ok [OF r] .
  have bs: "bs' = bs" using B(1) ser by simp
  have nd: "\<not> IsDeleted (GetTupleSize m (unat k))" and pk: "peek m (tuple_off m (unat k)) (tuple_len m (unat k)) = bs"
    using slot by (auto simp: tp_slot_def split: if_splits)
  have h: "holds m (tuple_off m (unat k)) bs" using pk by (metis holds_def length_peek)
  have "Row_DeserializeFrom (Row_at (RowId p k)) m (tuple_off m (unat k)) (Some sch) =
      Inr (\<lparr>rid = rid r, row_fields = map reread (row_fields r)\<rparr>, word_of_nat (length bs))"
    using B(5) [rule_format, OF conjI [OF _ h [folded bs]], of "Row_at (RowId p k)"] bs by (simp add: Row_at_def)
  with nd k siz valid_rowid_not_invalid [OF p, of k] show ?thesis
    by (simp add: TablePage_GetTuple_def Row_at_def RowId_def tp_count_def Let_def tuple_off_def)
qed

lemma GetTuple_deleted:
  assumes "0 \<le> p" and "p < 2 ^ 31" and "unat k < tp_count m \<Longrightarrow> IsDeleted (GetTupleSize m (unat k))"
  shows "TablePage_GetTuple m (Row_at (RowId p k)) (Some sch) = Inr (False, Row_at (RowId p k))"
  using assms valid_rowid_not_invalid [OF assms(1,2), of k]
  by (auto simp: TablePage_GetTuple_def Row_at_def RowId_def tp_count_def Let_def)

lemma wr32_restore: "wr32 (wr32 m a w) a (rd32 m a) = m"
proof (rule ext)
  fix i
  have "enc32 (rd32 m a) = peek m a 4" unfolding rd32_def by (rule enc32_dec32) simp
  then show "wr32 (wr32 m a w) a (rd32 m a) i = m i" by (auto simp: wr32_def poke_def)
qed

lemma size_flag_slots:
  assumes ok: "tp_ok m" and k: "k < tp_count m" and s: "GetTupleSize m k = w" "unat w < 2 ^ 31" "w \<noteq> 0"
  defines "m' \<equiv> SetTupleSize m k (SetDeletedFlag w)"
  shows "tp_count m' = tp_count m" and "tp_slot m' k = Some (True, peek m (tuple_off m k) (tuple_len m k))"
    and "j < tp_count m \<Longrightarrow> j \<noteq> k \<Longrightarrow> tp_slot m' j = tp_slot m j" and "tp_ok m'"
    and "GetTupleSize m' k = SetDeletedFlag w" and "tp_slot m k = Some (False, peek m (tuple_off m k) (tuple_len m k))"
proof -
  note B = tp_okD(1-3) [OF ok]
  have S: "GetTupleSize m' j = (if j = k then SetDeletedFlag w else GetTupleSize m j)" for j
    by (cases rule: linorder_cases [of j k]) (auto simp: m'_def GetTupleSize_def SetTupleSize_def mem_simps)
  have O: "tuple_off m' j = tuple_off m j" for j
    by (cases "j \<le> k") (auto simp: m'_def tuple_off_def GetTupleOffsetAtSlot_def SetTupleSize_def mem_simps)
  have L: "tuple_len m' j = tuple_len m j" for j using S [of j] s by (simp add: tuple_len_def unset_set_flag small_unset)
  show cnt: "tp_count m' = tp_count m" by (simp add: m'_def tp_count_def GetTupleCount_def SetTupleSize_def mem_simps)
  have F: "tp_fsp m' = tp_fsp m" by (simp add: m'_def tp_fsp_def GetFreeSpacePointer_def SetTupleSize_def mem_simps)
  have P: "peek m' a n = peek m a n" if "tp_fsp m \<le> a" for a n
    using that B k by (simp add: m'_def SetTupleSize_def mem_simps)
  have at: "tp_fsp m \<le> tuple_off m j" if "j < tp_count m" "GetTupleSize m j \<noteq> 0" for j
    using tp_okD(4) [OF ok that] by simp
  show "GetTupleSize m' k = SetDeletedFlag w" by (simp add: S)
  show "tp_slot m' k = Some (True, peek m (tuple_off m k) (tuple_len m k))"
    using S O L P [OF at [OF k]] s set_flag_deleted [of w] by (simp add: tp_slot_def)
  show "tp_slot m' j = tp_slot m j" if "j < tp_count m" "j \<noteq> k"
    using S [of j] O L P at that by (auto simp: tp_slot_def)
  show "tp_slot m k = Some (False, peek m (tuple_off m k) (tuple_len m k))"
    using s by (simp add: tp_slot_def small_not_deleted)
  show "tp_ok m'"
    using ok s unfolding tp_ok_def cnt F L O by (auto simp: S)
qed

lemma Init_ok:
  "tp_ok (TablePage_Init m p prev)" "tp_count (TablePage_Init m p prev) = 0" "tp_fsp (TablePage_Init m p prev) = 4096"
  "- (2 ^ 31) \<le> p \<Longrightarrow> p < 2 ^ 31 \<Longrightarrow> GetTablePageId (TablePage_Init m p prev) = p"
  "- (2 ^ 31) \<le> prev \<Longrightarrow> prev < 2 ^ 31 \<Longrightarrow> GetPrevPageId (TablePage_Init m p prev) = prev"
  "GetNextPageId (TablePage_Init m p prev) = INVALID_PAGE_ID"
  by (simp_all add: tp_ok_def tp_count_def tp_fsp_def TablePage_Init_def tp_setters tp_getters mem_simps PAGE_SIZE_def
      sint_word_of_int_id INVALID_PAGE_ID_def)

text \<open>Walking a page with \<^verbatim>\<open>GetFirstTupleRid\<close> and then \<^verbatim>\<open>GetNextTupleRid\<close>, at most \<open>n\<close> steps.\<close>

fun rids_from :: "mem \<Rightarrow> nat \<Rightarrow> rowid \<Rightarrow> rowid list" where
  "rids_from m 0 cur = []"
| "rids_from m (Suc n) cur =
     (case TablePage_GetNextTupleRid m cur of Inr (True, nxt) \<Rightarrow> nxt # rids_from m n nxt | _ \<Rightarrow> [])"

definition page_rids :: "mem \<Rightarrow> rowid list" where
  "page_rids m = (case TablePage_GetFirstTupleRid m of (True, r) \<Rightarrow> r # rids_from m (tp_count m) r | _ \<Rightarrow> [])"

definition live_from :: "mem \<Rightarrow> nat \<Rightarrow> nat list" where
  "live_from m i = filter (\<lambda>j. \<not> IsDeleted (GetTupleSize m j)) [i..<tp_count m]"

lemma live_from_find:
  assumes "i \<le> tp_count m"
  shows "live_from m i = (let j = find_slot (\<lambda>s. \<not> IsDeleted s) m i in if j < tp_count m then j # live_from m (Suc j) else [])"
  using assms
proof (induction "tp_count m - i" arbitrary: i)
  case 0
  then have eq: "i = tp_count m" by simp
  then have "find_slot (\<lambda>s. \<not> IsDeleted s) m i = i" by (subst find_slot.simps) (simp add: tp_count_def)
  then show ?case using eq by (simp add: live_from_def)
next
  case (Suc d)
  then have i: "i < tp_count m" by simp
  then have up: "[i..<tp_count m] = i # [Suc i..<tp_count m]" by (rule upt_conv_Cons)
  show ?case
  proof (cases "IsDeleted (GetTupleSize m i)")
    case True
    then have "find_slot (\<lambda>s. \<not> IsDeleted s) m i = find_slot (\<lambda>s. \<not> IsDeleted s) m (Suc i)"
      using i by (subst find_slot.simps) (simp add: tp_count_def)
    with Suc(1) [of "Suc i"] Suc(2) i True show ?thesis by (simp add: live_from_def up)
  next
    case False
    then have "find_slot (\<lambda>s. \<not> IsDeleted s) m i = i" using i by (subst find_slot.simps) (simp add: tp_count_def)
    with False i show ?thesis by (simp add: live_from_def up)
  qed
qed

lemma rids_from_live:
  assumes c: "tp_count m \<le> 512" and k: "k < tp_count m" and n: "tp_count m - Suc k \<le> n"
  shows "rids_from m n (RowId (GetTablePageId m) (word_of_nat k)) = map (\<lambda>j. RowId (GetTablePageId m) (word_of_nat j)) (live_from m (Suc k))"
  using k n
proof (induction n arbitrary: k)
  case 0
  then show ?case by (simp add: live_from_def)
next
  case (Suc n)
  have u: "unat (word_of_nat k + 1 :: u32) = Suc k"
    using Suc.prems c unat_u32_of_nat [of "Suc k"] by (simp add: add.commute)
  let ?j = "find_slot (\<lambda>s. \<not> IsDeleted s) m (Suc k)"
  have nxt: "TablePage_GetNextTupleRid m (RowId (GetTablePageId m) (word_of_nat k)) =
      Inr (if ?j < tp_count m then (True, RowId (GetTablePageId m) (word_of_nat ?j)) else (False, RowId INVALID_PAGE_ID 0))"
    by (simp add: TablePage_GetNextTupleRid_def RowId_def u Let_def tp_count_def)
  have live: "live_from m (Suc k) = (if ?j < tp_count m then ?j # live_from m (Suc ?j) else [])"
    using live_from_find [of "Suc k" m] Suc.prems by (simp add: Let_def)
  have "Suc k \<le> ?j" using find_slot_spec by blast
  then show ?case using Suc.IH [of ?j] Suc.prems by (auto simp: nxt live)
qed

section \<open>Properties\<close>

text \<open>Insertion with enough room, and reading the tuple back.\<close>

lemma InsertTuple_room:
  assumes ok: "tp_ok m" and r: "row_ok sch r" and pid: "0 \<le> GetTablePageId m"
    and siz: "Row_GetSerializedSize r (Some sch) = Inr n" and room: "unat n + 8 \<le> tp_fsp m - 24 - 8 * tp_count m"
  obtains m' i where "TablePage_InsertTuple m r (Some sch) = Inr (True, m', r\<lparr>rid := RowId (GetTablePageId m) (word_of_nat i)\<rparr>)"
    and "tp_ok m'" and "i < tp_count m \<longrightarrow> tp_slot m i = None" and "\<forall>j < tp_count m. j \<noteq> i \<longrightarrow> tp_slot m' j = tp_slot m j"
    and "tp_count m' = max (tp_count m) (Suc i)" and "i \<le> tp_count m"
    and "TablePage_GetTuple m' (Row_at (RowId (GetTablePageId m) (word_of_nat i))) (Some sch) =
        Inr (True, \<lparr>rid = rid r, row_fields = map reread (row_fields r)\<rparr>)"
    and "\<forall>a \<ge> tp_fsp m. m' a = m a" and "GetTablePageId m' = GetTablePageId m" and "GetNextPageId m' = GetNextPageId m"
    and "tp_fsp m' = tp_fsp m - unat n" and "\<exists>bs. Row_SerializeTo r (Some sch) = Inr bs \<and> tp_slot m' i = Some (False, bs)"
proof -
  obtain bs where B: "Row_SerializeTo r (Some sch) = Inr bs" "Row_GetSerializedSize r (Some sch) = Inr (word_of_nat (length bs))"
    "length bs < 2 ^ 32" "13 \<le> length bs" using Row_serialize_ok [OF r] by metis
  have n: "unat n = length bs" using B(2,3) siz by auto
  have ne: "0 < length bs" using B(4) by linarith
  define i where "i = find_slot (\<lambda>s. s = 0) m 0"
  have room': "length bs + 8 \<le> tp_fsp m - 24 - 8 * tp_count m" using room n by simp
  have E: "TablePage_InsertTuple m r (Some sch) = Inr (True, put_tuple m i bs, SetRowId r (RowId (GetTablePageId m) (word_of_nat i)))"
    using TablePage_InsertTuple_eq [OF ok B(1,2,3) ne] room' unfolding i_def by simp
  have i: "i \<le> tp_count m" unfolding i_def by (rule find_slot_le) simp
  note R = put_tuple_reads [OF ok i room'] and S = put_tuple_slots [OF ok i room' ne]
  have free: "i < tp_count m \<longrightarrow> tp_slot m i = None"
    using find_slot_spec [of 0 "\<lambda>s. s = 0" m] by (simp add: i_def tp_slot_def)
  have iu: "unat (word_of_nat i :: u32) = i" using i tp_okD(3) [OF ok] by simp
  have hi: "GetTablePageId m < 2 ^ 31" unfolding GetTablePageId_def using sint_lt [of "rd32 m 0"] by simp
  have cnt: "tp_count (put_tuple m i bs) = max (tp_count m) (Suc i)" using R(1) i by auto
  have get: "TablePage_GetTuple (put_tuple m i bs) (Row_at (RowId (GetTablePageId m) (word_of_nat i))) (Some sch) =
      Inr (True, \<lparr>rid = rid r, row_fields = map reread (row_fields r)\<rparr>)"
    by (rule TablePage_GetTuple_slot [OF pid hi _ _ _ r B(1)]) (use iu cnt S(1) R(3) [of i] i in auto)
  have out: "\<forall>a \<ge> tp_fsp m. put_tuple m i bs a = m a" using R(5) [of _ 1] by (simp add: peek_def)
  have hdr: "GetTablePageId (put_tuple m i bs) = GetTablePageId m" "GetNextPageId (put_tuple m i bs) = GetNextPageId m"
    using R(7) [of 0] R(7) [of 12] by (simp_all add: tp_getters)
  show ?thesis
    by (rule that [OF E [unfolded SetRowId_def] S(3) free _ cnt i get out hdr]) (use S(1,2) R(2) n B(1) in auto)
qed

text \<open>
  C18. Insert and read back on a slotted page: \<^verbatim>\<open>InsertTuple\<close> fails exactly when the free space is
  smaller than the row plus a slot, and then changes nothing. Otherwise it keeps the page well-formed,
  uses an empty slot or a new one, leaves every other slot as it was, and \<^verbatim>\<open>GetTuple\<close> at the row id it
  assigned returns the fields of the row. The row id inside the returned row is the one the row had
  before the insertion, because the row is serialised before its id is set.
\<close>

theorem insert_then_get:
  assumes ok: "tp_ok m" and r: "row_ok sch r" and pid: "0 \<le> GetTablePageId m"
    and siz: "Row_GetSerializedSize r (Some sch) = Inr n"
  shows "if tp_fsp m - 24 - 8 * tp_count m < unat n + 8 then TablePage_InsertTuple m r (Some sch) = Inr (False, m, r)
    else \<exists>m' i. TablePage_InsertTuple m r (Some sch) = Inr (True, m', r\<lparr>rid := RowId (GetTablePageId m) (word_of_nat i)\<rparr>) \<and>
      tp_ok m' \<and> (i < tp_count m \<longrightarrow> tp_slot m i = None) \<and> (\<forall>j < tp_count m. j \<noteq> i \<longrightarrow> tp_slot m' j = tp_slot m j) \<and>
      tp_count m' = max (tp_count m) (Suc i) \<and> i \<le> tp_count m \<and>
      TablePage_GetTuple m' (Row_at (RowId (GetTablePageId m) (word_of_nat i))) (Some sch) =
        Inr (True, \<lparr>rid = rid r, row_fields = map reread (row_fields r)\<rparr>)"
proof (cases "tp_fsp m - 24 - 8 * tp_count m < unat n + 8")
  case True
  obtain bs where B: "Row_SerializeTo r (Some sch) = Inr bs" "Row_GetSerializedSize r (Some sch) = Inr (word_of_nat (length bs))"
    "length bs < 2 ^ 32" "13 \<le> length bs" using Row_serialize_ok [OF r] by metis
  have "unat n = length bs" "0 < length bs" using B(2,3,4) siz by auto
  then show ?thesis using TablePage_InsertTuple_eq [OF ok B(1,2,3)] True by simp
next
  case False
  then have "unat n + 8 \<le> tp_fsp m - 24 - 8 * tp_count m" by simp
  from InsertTuple_room [OF ok r pid siz this] obtain m' i where
    "TablePage_InsertTuple m r (Some sch) = Inr (True, m', r\<lparr>rid := RowId (GetTablePageId m) (word_of_nat i)\<rparr>)"
    "tp_ok m'" "i < tp_count m \<longrightarrow> tp_slot m i = None" "\<forall>j < tp_count m. j \<noteq> i \<longrightarrow> tp_slot m' j = tp_slot m j"
    "tp_count m' = max (tp_count m) (Suc i)" "i \<le> tp_count m"
    "TablePage_GetTuple m' (Row_at (RowId (GetTablePageId m) (word_of_nat i))) (Some sch) =
        Inr (True, \<lparr>rid = rid r, row_fields = map reread (row_fields r)\<rparr>)" by metis
  then show ?thesis using False by (simp only: if_False) blast
qed

theorem insert_then_get_witness:
  "\<exists>m'. TablePage_InsertTuple (TablePage_Init zero_mem 5 (-1)) example_row (Some example_schema) =
       Inr (True, m', example_row\<lparr>rid := RowId 5 0\<rparr>) \<and>
     TablePage_GetTuple m' (Row_at (RowId 5 0)) (Some example_schema) = Inr (True, example_row)"
proof -
  have siz: "Row_GetSerializedSize example_row (Some example_schema) = Inr 17"
    by (simp add: Row_GetSerializedSize_def example_row_def example_schema_def GetColumnCount_def Field_null_def
        TypeInt_GetSerializedSize_def)
  have "map reread (row_fields example_row) = row_fields example_row"
    by (simp add: example_row_def reread_def Field_null_def)
  with insert_then_get [OF Init_ok(1) [where m = zero_mem and p = 5 and prev = "-1"] example_row_ok _ siz] Init_ok [where m = zero_mem and p = 5 and prev = "-1"]
  show ?thesis by auto
qed

text \<open>Marking a live slot, reading it, and rolling back.\<close>

lemma MarkDelete_live:
  assumes ok: "tp_ok m" and p: "0 \<le> p" "p < 2 ^ 31" and True: "unat k < tp_count m \<and> \<not> IsDeleted (GetTupleSize m (unat k))"
  obtains m' bs where "TablePage_MarkDelete m (RowId p k) = (True, m')" and "tp_ok m'"
    and "tp_slot m (unat k) = Some (False, bs)" and "tp_slot m' (unat k) = Some (True, bs)"
    and "\<forall>j < tp_count m. j \<noteq> unat k \<longrightarrow> tp_slot m' j = tp_slot m j"
    and "\<forall>sch. TablePage_GetTuple m' (Row_at (RowId p k)) (Some sch) = Inr (False, Row_at (RowId p k))"
    and "TablePage_MarkDelete m' (RowId p k) = (False, m')" and "TablePage_RollbackDelete m' (RowId p k) = Inr m"
    and "m' = SetTupleSize m (unat k) (SetDeletedFlag (GetTupleSize m (unat k)))"
proof -
  define w where "w = GetTupleSize m (unat k)"
  have nb: "\<not> bit w 31" "w \<noteq> 0" using True by (simp_all add: w_def IsDeleted_bit)
  have "UnsetDeletedFlag w = w"
    unfolding UnsetDeletedFlag_def by (rule bit_word_eqI) (use nb in \<open>auto simp: flag_bits\<close>)
  then have lt: "unat w < 2 ^ 31"
    using tp_okD(4) [OF ok, of "unat k"] True nb by (simp add: w_def tuple_len_def)
  note F = size_flag_slots [OF ok _ w_def [symmetric] lt nb(2)]
  let ?m = "SetTupleSize m (unat k) (SetDeletedFlag w)"
  have mark: "TablePage_MarkDelete m (RowId p k) = (True, ?m)"
    using True nb(2) word_gt_0 [of w] by (simp add: TablePage_MarkDelete_def Let_def RowId_def tp_count_def w_def)
  have again: "TablePage_MarkDelete ?m (RowId p k) = (False, ?m)"
    using F(1,5) True set_flag_deleted by (simp add: TablePage_MarkDelete_def Let_def RowId_def tp_count_def)
  have "SetTupleSize ?m (unat k) w = m" by (simp add: SetTupleSize_def w_def GetTupleSize_def wr32_restore)
  then have undo: "TablePage_RollbackDelete ?m (RowId p k) = Inr m"
    using F(1,5) True set_flag_deleted unset_set_flag [OF lt]
    by (simp add: TablePage_RollbackDelete_def Let_def RowId_def tp_count_def)
  have get: "\<forall>sch. TablePage_GetTuple ?m (Row_at (RowId p k)) (Some sch) = Inr (False, Row_at (RowId p k))"
    by (intro allI GetTuple_deleted [OF p]) (use F(5) True set_flag_deleted in simp)
  show ?thesis by (rule that [OF mark _ _ _ _ get again undo]) (use True F w_def in auto)
qed

text \<open>
  Logical deletion and its rollback: \<^verbatim>\<open>MarkDelete\<close> of a live tuple succeeds, after it \<^verbatim>\<open>GetTuple\<close>
  returns false for that row id, no other slot changes, and \<^verbatim>\<open>RollbackDelete\<close> restores the page exactly;
  \<^verbatim>\<open>MarkDelete\<close> of an empty, already deleted or out-of-range slot fails without effect.
\<close>

theorem mark_delete_and_rollback:
  assumes ok: "tp_ok m" and p: "0 \<le> p" "p < 2 ^ 31"
  shows "if unat k < tp_count m \<and> \<not> IsDeleted (GetTupleSize m (unat k)) then
      \<exists>m' bs. TablePage_MarkDelete m (RowId p k) = (True, m') \<and> tp_ok m' \<and>
        tp_slot m (unat k) = Some (False, bs) \<and> tp_slot m' (unat k) = Some (True, bs) \<and>
        (\<forall>j < tp_count m. j \<noteq> unat k \<longrightarrow> tp_slot m' j = tp_slot m j) \<and>
        TablePage_GetTuple m' (Row_at (RowId p k)) (Some sch) = Inr (False, Row_at (RowId p k)) \<and>
        TablePage_MarkDelete m' (RowId p k) = (False, m') \<and> TablePage_RollbackDelete m' (RowId p k) = Inr m
    else TablePage_MarkDelete m (RowId p k) = (False, m)"
proof (cases "unat k < tp_count m \<and> \<not> IsDeleted (GetTupleSize m (unat k))")
  case False
  then show ?thesis by (auto simp: TablePage_MarkDelete_def Let_def RowId_def tp_count_def)
next
  case True
  show ?thesis unfolding if_P [OF True]
    by (rule MarkDelete_live [OF ok p True], intro exI conjI, assumption+, erule spec, assumption+)
qed

lemma inserted_page:
  obtains m where "tp_ok m" and "tp_count m = 1" and "GetTablePageId m = 5" and "\<not> IsDeleted (GetTupleSize m 0)"
    and "TablePage_GetTuple m (Row_at (RowId 5 0)) (Some example_schema) = Inr (True, example_row)"
proof -
  let ?m = "TablePage_Init zero_mem 5 (-1)"
  obtain bs where B: "Row_SerializeTo example_row (Some example_schema) = Inr bs" "length bs = 17"
    by (simp add: Row_SerializeTo_def example_row_def example_schema_def GetColumnCount_def Field_null_def
        TypeInt_SerializeTo_def null_bitmap_def Let_def)
  note I = Init_ok [where m = zero_mem and p = 5 and prev = "-1"]
  have i: "0 \<le> tp_count ?m" and room: "length bs + 8 \<le> tp_fsp ?m - 24 - 8 * tp_count ?m" and ne: "0 < length bs"
    using I B(2) by simp_all
  note R = put_tuple_reads [OF I(1) i room] and S = put_tuple_slots [OF I(1) i room ne]
  have pid: "GetTablePageId (put_tuple ?m 0 bs) = 5" using R(7) [of 0] I(4) by (simp add: GetTablePageId_def)
  have s0: "GetTupleSize (put_tuple ?m 0 bs) 0 = 17" using R(3) [of 0] B(2) by simp
  have "map reread (row_fields example_row) = row_fields example_row"
    by (simp add: example_row_def reread_def Field_null_def)
  then have "TablePage_GetTuple (put_tuple ?m 0 bs) (Row_at (RowId 5 0)) (Some example_schema) = Inr (True, example_row)"
    using TablePage_GetTuple_slot [of 5 0 "put_tuple ?m 0 bs" bs example_schema example_row] S(1) R(1) I(2) s0 B example_row_ok by simp
  with that [of "put_tuple ?m 0 bs"] S(3) R(1) I(2) pid s0 show ?thesis by (simp add: small_not_deleted)
qed

theorem mark_delete_and_rollback_witness:
  "\<exists>m m'. tp_ok m \<and> TablePage_MarkDelete m (RowId 5 0) = (True, m') \<and> TablePage_RollbackDelete m' (RowId 5 0) = Inr m"
proof -
  obtain m where M: "tp_ok m" "tp_count m = 1" "\<not> IsDeleted (GetTupleSize m 0)" using inserted_page by metis
  from mark_delete_and_rollback [OF M(1), of 5 0 example_schema] M show ?thesis by auto
qed

text \<open>
  C20. Scanning a page: starting with \<^verbatim>\<open>GetFirstTupleRid\<close> and repeating \<^verbatim>\<open>GetNextTupleRid\<close> yields the
  row ids of exactly the live slots, each once and in slot order, and the walk ends.
\<close>

theorem page_scan_complete:
  assumes "tp_ok m"
  shows "page_rids m = map (\<lambda>i. RowId (GetTablePageId m) (word_of_nat i))
    (filter (\<lambda>i. \<not> IsDeleted (GetTupleSize m i)) [0..<tp_count m])"
proof -
  let ?j = "find_slot (\<lambda>s. \<not> IsDeleted s) m 0"
  have live: "live_from m 0 = (if ?j < tp_count m then ?j # live_from m (Suc ?j) else [])"
    using live_from_find [of 0 m] by (simp add: Let_def)
  have "page_rids m = map (\<lambda>i. RowId (GetTablePageId m) (word_of_nat i)) (live_from m 0)"
    using rids_from_live [OF tp_okD(3) [OF assms], of ?j "tp_count m"]
    by (simp add: page_rids_def TablePage_GetFirstTupleRid_def Let_def live tp_count_def)
  then show ?thesis by (simp add: live_from_def)
qed

theorem page_scan_complete_witness: "\<exists>m. tp_ok m \<and> page_rids m = [RowId 5 0]"
proof -
  obtain m where M: "tp_ok m" "tp_count m = 1" "GetTablePageId m = 5" "\<not> IsDeleted (GetTupleSize m 0)"
    using inserted_page by metis
  from page_scan_complete [OF M(1)] M show ?thesis by auto
qed

text \<open>
  \<^verbatim>\<open>ApplyDelete\<close> lowers the tuple count although the slots stay where they are: after deleting any
  tuple of a page, \<^verbatim>\<open>GetTuple\<close> no longer finds the tuple in the last slot, whatever it held.
\<close>

theorem apply_delete_hides_last_slot:
  assumes ok: "tp_ok m" and p: "0 \<le> p" "p < 2 ^ 31" and k: "unat k < tp_count m" "GetTupleSize m (unat k) \<noteq> 0"
  shows "\<exists>m'. TablePage_ApplyDelete m (RowId p k) = Inr m' \<and> tp_count m' = tp_count m - 1 \<and>
    TablePage_GetTuple m' (Row_at (RowId p (word_of_nat (tp_count m - 1)))) (Some sch) =
      Inr (False, Row_at (RowId p (word_of_nat (tp_count m - 1))))"
proof -
  have shift: "GetTupleCount (shift_offsets P d is n) = GetTupleCount n" for P d "is" n
    by (induction P d "is" n rule: shift_offsets.induct) (simp_all add: GetTupleCount_def SetTupleOffsetAtSlot_def mem_simps)
  have ge: "GetTupleOffsetAtSlot m (unat k) \<ge> GetFreeSpacePointer m"
    using tp_okD(4) [OF ok k] by (simp add: tuple_off_def tp_fsp_def word_le_nat_alt)
  obtain m' where m': "TablePage_ApplyDelete m (RowId p k) = Inr m'" using k(1) ge
    by (simp add: TablePage_ApplyDelete_def Let_def RowId_def tp_count_def)
  note B = tp_okD(1-3) [OF ok]
  have mv: "rd32 (memmove m a b n) 20 = rd32 m 20" if "24 \<le> a" for a b n
    by (rule rd32_cong) (use that in \<open>simp add: memmove_def\<close>)
  have "GetTupleCount m' = GetTupleCount m - 1"
    using m' k(1) ge B mv
    by (auto simp: TablePage_ApplyDelete_def Let_def RowId_def tp_count_def shift tp_fsp_def)
      (simp add: tp_getters tp_setters mem_simps mv)+
  then have cnt: "tp_count m' = tp_count m - 1"
    using k(1) unat_u32_minus [of 1 "GetTupleCount m"] by (simp add: tp_count_def)
  have "unat (word_of_nat (tp_count m - 1) :: u32) = tp_count m - 1" using B(3) by simp
  then have "TablePage_GetTuple m' (Row_at (RowId p (word_of_nat (tp_count m - 1)))) (Some sch) =
      Inr (False, Row_at (RowId p (word_of_nat (tp_count m - 1))))"
    by (intro GetTuple_deleted [OF p]) (simp add: cnt)
  with m' cnt show ?thesis by blast
qed

theorem apply_delete_hides_last_slot_witness:
  "\<exists>m m'. tp_ok m \<and> TablePage_ApplyDelete m (RowId 5 0) = Inr m' \<and>
     TablePage_GetTuple m (Row_at (RowId 5 0)) (Some example_schema) = Inr (True, example_row) \<and>
     TablePage_GetTuple m' (Row_at (RowId 5 0)) (Some example_schema) = Inr (False, Row_at (RowId 5 0))"
proof -
  obtain m where M: "tp_ok m" "tp_count m = 1" "\<not> IsDeleted (GetTupleSize m 0)"
    "TablePage_GetTuple m (Row_at (RowId 5 0)) (Some example_schema) = Inr (True, example_row)" using inserted_page by metis
  then have "GetTupleSize m 0 \<noteq> 0" by (auto simp: IsDeleted_def)
  with apply_delete_hides_last_slot [OF M(1), of 5 0 example_schema] M show ?thesis by auto
qed

end
