(* ===== verification/Table_Heap.thy ===== *)
theory Table_Heap
  imports Buffer_Pool Table_Page
begin

text \<open>
  The table heap and its iterator: src/MiniSQL/src/include/storage/table_heap.h,
  storage/table_heap.cpp, include/storage/table_iterator.h and storage/table_iterator.cpp, on top of
  the buffer pool and the slotted page. A \<^verbatim>\<open>TablePage *\<close> is the frame it lies in, so that a page used
  after it was unpinned is read and written in its frame, whatever the pool did to the frame in
  between. The loops that follow the page chain need not end (the chain on disk may be cyclic): they
  are \<open>partial_function (option)\<close>, \<open>None\<close> means that the call does not return. Page latches,
  transactions, locks and logs have no effect on the data and are left out.
\<close>

section \<open>State and page access\<close>

record table_heap =
  first_page_id :: page_id
  heap_schema :: schema

definition page_mem :: "bpm \<Rightarrow> frame_id \<Rightarrow> mem" where
  "page_mem b f = page_data (pages b ! f)"

definition put_mem :: "frame_id \<Rightarrow> mem \<Rightarrow> bpm \<Rightarrow> bpm" where
  "put_mem f m b = upd_page f (\<lambda>pg. pg\<lparr>page_data := m\<rparr>) b"

definition frame_page_id :: "bpm \<Rightarrow> frame_id \<Rightarrow> page_id" where
  "frame_page_id b f = page_id_of (pages b ! f)"

definition unpin :: "bpm \<Rightarrow> page_id \<Rightarrow> bool \<Rightarrow> bpm" where
  "unpin b p dirty = snd (UnpinPage b p dirty)"

section \<open>The heap\<close>

definition TableHeap_create :: "bpm \<Rightarrow> schema \<Rightarrow> (table_heap \<times> bpm) res" where
  "TableHeap_create b sch =
     res_bind (NewPage b) (\<lambda>(r, b1). case r of
       None \<Rightarrow> Inl AssertFailed
     | Some (f, p) \<Rightarrow>
         let b2 = put_mem f (TablePage_Init (page_mem b1 f) p (int PAGE_SIZE)) b1
         in Inr (\<lparr>first_page_id = p, heap_schema = sch\<rparr>, unpin b2 p True))"

definition TableHeap_open :: "page_id \<Rightarrow> schema \<Rightarrow> table_heap" where
  "TableHeap_open p sch = \<lparr>first_page_id = p, heap_schema = sch\<rparr>"

text \<open>The body of the loop in \<^verbatim>\<open>InsertTuple\<close> when the current page has no successor.\<close>

definition append_page :: "table_heap \<Rightarrow> frame_id \<Rightarrow> row \<Rightarrow> bpm \<Rightarrow> ((page_id \<times> row) option \<times> bpm) res" where
  "append_page h cur r b =
     res_bind (NewPage b) (\<lambda>(x, b1). case x of
       None \<Rightarrow> Inr (None, b1)
     | Some (t, p) \<Rightarrow>
         let b2 = put_mem t (TablePage_Init (page_mem b1 t) p (frame_page_id b1 cur)) b1;
             b3 = put_mem cur (SetNextPageId (page_mem b2 cur) (frame_page_id b2 t)) b2
         in res_bind (TablePage_InsertTuple (page_mem b3 t) r (Some (heap_schema h))) (\<lambda>(_, m, r').
              Inr (Some (p, r'), put_mem t m b3)))"

definition next_page :: "bpm \<Rightarrow> page_id \<Rightarrow> (frame_id \<times> bpm) res" where
  "next_page b p =
     res_bind (FetchPage b p) (\<lambda>(x, b1). case x of
       None \<Rightarrow> Inl NullDeref
     | Some f \<Rightarrow> Inr (f, unpin b1 (frame_page_id b1 f) False))"

partial_function (option) insert_loop :: "table_heap \<Rightarrow> frame_id \<Rightarrow> row \<Rightarrow> bpm \<Rightarrow> (bool \<times> row \<times> bpm) res option" where
  "insert_loop h cur r b =
     (case TablePage_InsertTuple (page_mem b cur) r (Some (heap_schema h)) of
        Inl e \<Rightarrow> Some (Inl e)
      | Inr (ok, m, r1) \<Rightarrow>
          if ok then Some (Inr (True, r1, unpin (put_mem cur m b) (frame_page_id b cur) True))
          else if GetNextPageId (page_mem b cur) = INVALID_PAGE_ID then
            (case append_page h cur r b of
               Inl e \<Rightarrow> Some (Inl e)
             | Inr (None, b1) \<Rightarrow> Some (Inr (False, r, b1))
             | Inr (Some (p, r2), b1) \<Rightarrow>
                 (case next_page b1 p of
                    Inl e \<Rightarrow> Some (Inl e)
                  | Inr (f, b2) \<Rightarrow> insert_loop h f r2 b2))
          else
            (case next_page b (GetNextPageId (page_mem b cur)) of
               Inl e \<Rightarrow> Some (Inl e)
             | Inr (f, b2) \<Rightarrow> insert_loop h f r b2))"

definition TableHeap_InsertTuple :: "table_heap \<Rightarrow> row \<Rightarrow> bpm \<Rightarrow> (bool \<times> row \<times> bpm) res option" where
  "TableHeap_InsertTuple h r b =
     (case FetchPage b (first_page_id h) of
        Inl e \<Rightarrow> Some (Inl e)
      | Inr (x, b1) \<Rightarrow>
          let b2 = unpin b1 (first_page_id h) False in
          (case x of None \<Rightarrow> Some (Inl NullDeref) | Some f \<Rightarrow> insert_loop h f r b2))"

definition TableHeap_MarkDelete :: "rowid \<Rightarrow> bpm \<Rightarrow> (bool \<times> bpm) res" where
  "TableHeap_MarkDelete rd b =
     res_bind (FetchPage b (rid_page_id rd)) (\<lambda>(x, b1). case x of
       None \<Rightarrow> Inr (False, b1)
     | Some f \<Rightarrow>
         let b2 = put_mem f (snd (TablePage_MarkDelete (page_mem b1 f) rd)) b1
         in Inr (True, unpin b2 (GetTablePageId (page_mem b2 f)) True))"

definition TableHeap_UpdateTuple :: "table_heap \<Rightarrow> row \<Rightarrow> rowid \<Rightarrow> bpm \<Rightarrow> (bool \<times> bpm) res" where
  "TableHeap_UpdateTuple h r rd b =
     res_bind (FetchPage b (rid_page_id rd)) (\<lambda>(x, b1). case x of
       Some f \<Rightarrow> Inr (False, b1)
     | None \<Rightarrow> Inl NullDeref)"

definition TableHeap_ApplyDelete :: "rowid \<Rightarrow> bpm \<Rightarrow> bpm res" where
  "TableHeap_ApplyDelete rd b =
     res_bind (FetchPage b (rid_page_id rd)) (\<lambda>(x, b1). case x of
       Some f \<Rightarrow> Inr b1
     | None \<Rightarrow> Inl NullDeref)"

definition TableHeap_RollbackDelete :: "rowid \<Rightarrow> bpm \<Rightarrow> bpm res" where
  "TableHeap_RollbackDelete rd b =
     res_bind (FetchPage b (rid_page_id rd)) (\<lambda>(x, b1). case x of
       None \<Rightarrow> Inl AssertFailed
     | Some f \<Rightarrow>
         res_bind (TablePage_RollbackDelete (page_mem b1 f) rd) (\<lambda>m.
           let b2 = put_mem f m b1 in Inr (unpin b2 (GetTablePageId (page_mem b2 f)) True)))"

definition TableHeap_GetTuple :: "table_heap \<Rightarrow> row \<Rightarrow> bpm \<Rightarrow> (bool \<times> row \<times> bpm) res" where
  "TableHeap_GetTuple h r b =
     (let p = rid_page_id (rid r) in
      res_bind (FetchPage b p) (\<lambda>(x, b1). case x of
        None \<Rightarrow> Inr (False, r, b1)
      | Some f \<Rightarrow>
          res_bind (TablePage_GetTuple (page_mem b1 f) r (Some (heap_schema h))) (\<lambda>(ok, r').
            Inr (ok, r', unpin b1 p False))))"

partial_function (option) free_loop :: "page_id \<Rightarrow> bpm \<Rightarrow> bpm res option" where
  "free_loop p b =
     (if p = INVALID_PAGE_ID then Some (Inr b)
      else case FetchPage b p of
             Inl e \<Rightarrow> Some (Inl e)
           | Inr (None, b1) \<Rightarrow> Some (Inl AssertFailed)
           | Inr (Some f, b1) \<Rightarrow> free_loop (GetNextPageId (page_mem b1 f)) (snd (DeletePage (unpin b1 p False) p)))"

definition FreeTableHeap :: "table_heap \<Rightarrow> bpm \<Rightarrow> bpm res option" where
  "FreeTableHeap h b = free_loop (first_page_id h) b"

text \<open>\<^verbatim>\<open>DeleteTable\<close>: the pages after \<open>p\<close> first; an invalid argument starts at the first page.\<close>

partial_function (option) DeleteTable :: "table_heap \<Rightarrow> page_id \<Rightarrow> bpm \<Rightarrow> bpm res option" where
  "DeleteTable h p b =
     (if p \<noteq> INVALID_PAGE_ID then
        (case FetchPage b p of
           Inl e \<Rightarrow> Some (Inl e)
         | Inr (None, b1) \<Rightarrow> Some (Inl NullDeref)
         | Inr (Some f, b1) \<Rightarrow>
             Option.bind (if GetNextPageId (page_mem b1 f) \<noteq> INVALID_PAGE_ID
                          then DeleteTable h (GetNextPageId (page_mem b1 f)) b1 else Some (Inr b1))
               (\<lambda>r. case r of Inl e \<Rightarrow> Some (Inl e)
                     | Inr b2 \<Rightarrow> Some (Inr (snd (DeletePage (unpin b2 p False) p)))))
      else DeleteTable h (first_page_id h) b)"

section \<open>The iterator\<close>

text \<open>An iterator is its row pointer; the end iterator has a null row.\<close>

partial_function (option) begin_loop :: "page_id \<Rightarrow> bpm \<Rightarrow> (rowid option \<times> bpm) res option" where
  "begin_loop p b =
     (case FetchPage b p of
        Inl e \<Rightarrow> Some (Inl e)
      | Inr (None, b1) \<Rightarrow> Some (Inl NullDeref)
      | Inr (Some f, b1) \<Rightarrow>
          let (found, r) = TablePage_GetFirstTupleRid (page_mem b1 f); b2 = unpin b1 p False in
          if found then Some (Inr (Some r, b2))
          else if GetNextPageId (page_mem b2 f) = INVALID_PAGE_ID then Some (Inr (None, b2))
          else begin_loop (GetNextPageId (page_mem b2 f)) b2)"

text \<open>With an invalid first page the flag \<^verbatim>\<open>isFound\<close> is read before it is set.\<close>

definition TableHeap_Begin :: "table_heap \<Rightarrow> bpm \<Rightarrow> (row option \<times> bpm) res option" where
  "TableHeap_Begin h b =
     (if first_page_id h = INVALID_PAGE_ID then Some (Inl Undefined)
      else case begin_loop (first_page_id h) b of
             None \<Rightarrow> None
           | Some (Inl e) \<Rightarrow> Some (Inl e)
           | Some (Inr (None, b1)) \<Rightarrow> Some (Inr (None, b1))
           | Some (Inr (Some r, b1)) \<Rightarrow>
               Some (res_bind (TableHeap_GetTuple h (Row_at r) b1) (\<lambda>(_, row, b2). Inr (Some row, b2))))"

definition TableHeap_End :: "row option" where
  "TableHeap_End = None"

definition TableIterator_eq :: "row option \<Rightarrow> row option \<Rightarrow> bool res" where
  "TableIterator_eq x y = (case (x, y) of (Some r, Some s) \<Rightarrow> Inr (rid r = rid s) | _ \<Rightarrow> Inl NullDeref)"

definition TableIterator_deref :: "row option \<Rightarrow> row res" where
  "TableIterator_deref x = (case x of None \<Rightarrow> Inl AssertFailed | Some r \<Rightarrow> Inr r)"

text \<open>Searching the following pages: the row id found, if any, the last page looked at, and the pool.\<close>

partial_function (option) next_loop :: "frame_id \<Rightarrow> page_id \<Rightarrow> bpm \<Rightarrow> (rowid option \<times> page_id \<times> bpm) res option" where
  "next_loop f cur b =
     (if GetNextPageId (page_mem b f) = INVALID_PAGE_ID then Some (Inr (None, cur, b))
      else
        let cur' = frame_page_id b f; b1 = unpin b cur' False in
        (case FetchPage b1 (GetNextPageId (page_mem b1 f)) of
           Inl e \<Rightarrow> Some (Inl e)
         | Inr (None, b2) \<Rightarrow> Some (Inl NullDeref)
         | Inr (Some g, b2) \<Rightarrow>
             let (found, r) = TablePage_GetFirstTupleRid (page_mem b2 g) in
             if found then Some (Inr (Some r, cur', b2)) else next_loop g cur' b2))"

definition TableIterator_next :: "table_heap \<Rightarrow> row option \<Rightarrow> bpm \<Rightarrow> (row option \<times> bpm) res option" where
  "TableIterator_next h it b =
     (case it of
        None \<Rightarrow> Some (Inl NullDeref)
      | Some row \<Rightarrow>
          let cur = rid_page_id (rid row) in
          (case FetchPage b cur of
             Inl e \<Rightarrow> Some (Inl e)
           | Inr (None, b1) \<Rightarrow> Some (Inl AssertFailed)
           | Inr (Some f, b1) \<Rightarrow>
               (case TablePage_GetNextTupleRid (page_mem b1 f) (rid row) of
                  Inl e \<Rightarrow> Some (Inl e)
                | Inr (True, nxt) \<Rightarrow>
                    Some (res_bind (TableHeap_GetTuple h (SetRowId row nxt) b1)
                            (\<lambda>(_, row', b2). Inr (Some row', unpin b2 cur False)))
                | Inr (False, _) \<Rightarrow>
                    (case next_loop f cur b1 of
                       None \<Rightarrow> None
                     | Some (Inl e) \<Rightarrow> Some (Inl e)
                     | Some (Inr (None, cur', b2)) \<Rightarrow> Some (Inr (None, unpin b2 cur' False))
                     | Some (Inr (Some r, cur', b2)) \<Rightarrow>
                         Some (res_bind (TableHeap_GetTuple h (Row_at r) b2)
                                 (\<lambda>(_, row', b3). Inr (Some row', unpin b3 cur' False)))))))"

section \<open>Pool operations as the heap uses them\<close>

text \<open>A successful fetch: the frame holds the page with its current content, and the pool can be unpinned as clean.\<close>

lemma FetchPage_some:
  assumes inv: "pool_inv b" and p: "p \<in> disk_used (disk b)" and call: "FetchPage b p = Inr (Some f, b1)"
  shows "pool_inv b1" and "page_table b1 p = Some f" and "page_mem b1 f = page_view b p"
    and "disk_used (disk b1) = disk_used (disk b)" and "honest_unpin b1 p False"
    and "valid_pid q \<Longrightarrow> page_view b1 q = page_view b q" and "1 \<le> pin_count (pages b1 ! f)"
proof -
  have ok: "bpm_ok b" and sy: "synced b" using inv by (simp_all add: pool_inv_def)
  have v: "valid_pid p" using p by (simp add: disk_used_def valid_pid_def)
  show "pool_inv b1" using FetchPage_inv [OF inv p call] .
  from inv p have "page_table b1 p = Some f \<and> page_mem b1 f = page_view b p \<and> disk_used (disk b1) = disk_used (disk b) \<and>
    honest_unpin b1 p False \<and> (\<forall>q. valid_pid q \<longrightarrow> page_view b1 q = page_view b q) \<and> 1 \<le> pin_count (pages b1 ! f)"
  proof (cases rule: FetchPage_cases)
    case (hit g)
    have g: "g = f" using call hit by simp
    let ?b = "(upd_page f (\<lambda>pg. pg\<lparr>pin_count := pin_count pg + 1\<rparr>) b)\<lparr>repl := LRUReplacer_Pin f (repl b), disk := disk b\<rparr>"
    have b1: "b1 = ?b" using call hit g by simp
    note R = resident_facts [OF ok hit(1) [unfolded g]]
    have V: "page_view ?b q = page_view b q" for q using R by (simp add: page_view_def split: option.splits)
    have "honest_unpin ?b p False"
      using sy R hit(1) g by (auto simp: honest_unpin_def synced_def)
    then show ?thesis using V R hit(1) g by (simp add: b1 page_mem_def page_view_def)
  next
    case full
    then show ?thesis using call by simp
  next
    case (miss g r fl d)
    have g: "g = f" using call miss by simp
    let ?pg = "\<lparr>page_data = logical_page d p, page_id_of = p, pin_count = 1, is_dirty = False\<rparr>"
    have b1: "b1 = install f ?pg d (LRUReplacer_Pin f r) fl b" using call miss g by simp
    have len: "f < length (pages b)" using miss(2) bpm_okD(1) [OF ok] g by (simp add: evictable_def)
    have t: "page_table b (page_id_of ?pg) = None" using miss(1) by simp
    have V: "page_view b1 q = (if q = p then logical_page d p else page_view b q)" if "valid_pid q" for q
      using page_view_install [OF ok sy miss(2) [unfolded g] t miss(3) [unfolded g] that] by (simp add: b1)
    have "p = page_id_of (pages b ! f) \<Longrightarrow> \<not> is_dirty (pages b ! f)"
      using miss(1,2) bpm_okD(6) [OF ok, of f] g by (auto simp: evictable_def frame_ok_def split: if_splits)
    then have view: "logical_page d p = page_view b p"
      using miss(1,3) v g by (auto simp: evicted_disk_def page_view_def)
    have "honest_unpin b1 p False" using len by (simp add: honest_unpin_def b1)
    then show ?thesis
      using V view len miss(3) by (auto simp: b1 page_mem_def evicted_disk_def)
  qed
  then show "page_table b1 p = Some f" and "page_mem b1 f = page_view b p" and "disk_used (disk b1) = disk_used (disk b)"
    and "honest_unpin b1 p False" and "valid_pid q \<Longrightarrow> page_view b1 q = page_view b q" and "1 \<le> pin_count (pages b1 ! f)" by auto
qed

lemma unpin_table [simp]: "page_table (unpin b p x) = page_table b" "disk (unpin b p x) = disk b"
  by (simp_all add: unpin_def UnpinPage_table)

lemma unpin_clean:
  assumes inv: "pool_inv b" and h: "honest_unpin b p False"
  shows "pool_inv (unpin b p False)" and "page_view (unpin b p False) q = page_view b q"
  using inv UnpinPage_ok [of b p False] UnpinPage_synced [of b p False] UnpinPage_view [of b p False q] h
  by (simp_all add: pool_inv_def table_used_def unpin_def UnpinPage_table)

lemma unpin_mem:
  assumes ok: "bpm_ok b"
  shows "page_mem (unpin b p x) f = page_mem b f" "frame_page_id (unpin b p x) f = frame_page_id b f"
proof -
  have "page_mem (unpin b p x) f = page_mem b f \<and> frame_page_id (unpin b p x) f = frame_page_id b f"
  proof (cases "page_table b p")
    case None
    then show ?thesis by (simp add: unpin_def UnpinPage_def)
  next
    case (Some g)
    show ?thesis
      unfolding unpin_def UnpinPage_resident [OF ok Some] Let_def snd_conv page_mem_def frame_page_id_def
      using resident_facts [OF ok Some] by simp
  qed
  then show "page_mem (unpin b p x) f = page_mem b f" "frame_page_id (unpin b p x) f = frame_page_id b f" by auto
qed

text \<open>Writing a resident frame changes exactly its page.\<close>

lemma put_mem_resident:
  assumes ok: "bpm_ok b" and t: "page_table b p = Some f" and cl: "clipped m"
  shows "bpm_ok (put_mem f m b)" and "page_table (put_mem f m b) = page_table b" and "disk (put_mem f m b) = disk b"
    and "page_view (put_mem f m b) q = (if q = p then m else page_view b q)"
    and "pages (put_mem f m b) ! g = (if g = f then (pages b ! f)\<lparr>page_data := m\<rparr> else pages b ! g)"
    and "page_mem (put_mem f m b) g = (if g = f then m else page_mem b g)" and "frame_page_id (put_mem f m b) g = frame_page_id b g"
    and "free_list (put_mem f m b) = free_list b"
proof -
  note R = resident_facts [OF ok t] and L = lru_unpinned_frame [OF ok t]
  have "bpm_ok ((upd_page f (\<lambda>pg. pg\<lparr>page_data := m\<rparr>) b)\<lparr>repl := repl b, disk := disk b\<rparr>)"
    by (rule upd_resident_ok [OF ok t]) (use R L cl bpm_okD(2,3) [OF ok] in auto)
  then show "bpm_ok (put_mem f m b)" by (simp add: put_mem_def upd_page_def)
  show "page_table (put_mem f m b) = page_table b" "disk (put_mem f m b) = disk b" "free_list (put_mem f m b) = free_list b"
    by (simp_all add: put_mem_def)
  show "page_view (put_mem f m b) q = (if q = p then m else page_view b q)"
    using R t table_page_id [OF ok _ R(1), of q] by (auto simp: page_view_def put_mem_def split: option.splits)
  show "pages (put_mem f m b) ! g = (if g = f then (pages b ! f)\<lparr>page_data := m\<rparr> else pages b ! g)"
    "page_mem (put_mem f m b) g = (if g = f then m else page_mem b g)" "frame_page_id (put_mem f m b) g = frame_page_id b g"
    using R by (simp_all add: put_mem_def page_mem_def frame_page_id_def)
qed

text \<open>Writing a resident frame and then unpinning its page as dirty changes exactly that page.\<close>

lemma put_unpin_dirty:
  assumes inv: "pool_inv b" and t: "page_table b p = Some f" and cl: "clipped m"
  shows "pool_inv (unpin (put_mem f m b) p True)"
    and "page_view (unpin (put_mem f m b) p True) q = (if q = p then m else page_view b q)"
    and "page_table (unpin (put_mem f m b) p True) p = Some f"
proof -
  have ok: "bpm_ok b" and sy: "synced b" using inv by (simp_all add: pool_inv_def)
  note R = resident_facts [OF ok t] and P = put_mem_resident [OF ok t cl]
  let ?b = "put_mem f m b"
  have t': "page_table ?b p = Some f" using t P by simp
  have "synced (unpin ?b p True)"
    unfolding unpin_def UnpinPage_resident [OF P(1) t'] Let_def snd_conv synced_def
    using R(2,4) sy by (auto simp: synced_def put_mem_def)
  moreover have "bpm_ok (unpin ?b p True)" unfolding unpin_def by (rule UnpinPage_ok [OF P(1)])
  moreover have "table_used (unpin ?b p True)" using inv by (simp add: pool_inv_def table_used_def put_mem_def)
  ultimately show "pool_inv (unpin ?b p True)" by (simp add: pool_inv_def)
  show "page_view (unpin ?b p True) q = (if q = p then m else page_view b q)"
    unfolding unpin_def using UnpinPage_view [OF P(1), of p True q] P(4) by simp
  show "page_table (unpin ?b p True) p = Some f" using t' by simp
qed

lemma page_view_resident: "page_table b p = Some f \<Longrightarrow> page_view b p = page_mem b f"
  by (simp add: page_view_def page_mem_def)

lemma page_view_clipped:
  assumes "bpm_ok b"
  shows "clipped (page_view b p)"
  using resident_facts(7) [OF assms] by (auto simp: page_view_def split: option.splits)

lemma clipped_beyond:
  assumes "tp_ok m" and "clipped m" and "\<forall>a \<ge> tp_fsp m. m' a = m a"
  shows "clipped m'"
  using assms by (fastforce simp: clipped_def tp_ok_def)

text \<open>A fetch that finds the page or an unpinned frame succeeds.\<close>

definition fetchable :: "bpm \<Rightarrow> page_id \<Rightarrow> bool" where
  "fetchable b p \<longleftrightarrow> p \<in> disk_used (disk b) \<and> (page_table b p \<noteq> None \<or> \<not> all_pinned b)"

lemma fetchable_some:
  assumes inv: "pool_inv b" and p: "fetchable b p"
  obtains f b1 where "FetchPage b p = Inr (Some f, b1)"
  using inv p [unfolded fetchable_def, THEN conjunct1]
proof (cases rule: FetchPage_cases)
  case full
  then show ?thesis using p by (simp add: fetchable_def)
qed (use that in auto)

text \<open>Reading a tuple through the heap: the page's answer, and no page content changes.\<close>

lemma TableHeap_GetTuple_page:
  assumes inv: "pool_inv b" and p: "fetchable b p" and r: "rid_page_id (rid r) = p"
    and get: "TablePage_GetTuple (page_view b p) r (Some (heap_schema h)) = Inr (z, r')"
  obtains b' where "TableHeap_GetTuple h r b = Inr (z, r', b')" and "pool_inv b'" and "\<forall>q. valid_pid q \<longrightarrow> page_view b' q = page_view b q"
proof -
  obtain f b1 where F: "FetchPage b p = Inr (Some f, b1)" using fetchable_some [OF inv p] by metis
  have u: "p \<in> disk_used (disk b)" using p by (simp add: fetchable_def)
  note S = FetchPage_some [OF inv u F]
  have "TableHeap_GetTuple h r b = Inr (z, r', unpin b1 p False)"
    by (simp add: TableHeap_GetTuple_def r F S(3) get)
  then show ?thesis using that unpin_clean [OF S(1,5)] S(6) by simp
qed

lemma valid_pid_int: "valid_pid p \<Longrightarrow> 0 \<le> p \<and> p < 2 ^ 31"
  by (simp add: valid_pid_def MAX_LOGICAL_def)

lemma Row_at_rid: "rid (Row_at r) = r" and RowId_page: "rid_page_id (RowId p n) = p"
  by (simp_all add: Row_at_def RowId_def)

lemma Init_clipped: "clipped m \<Longrightarrow> clipped (TablePage_Init m p prev)"
  by (simp add: clipped_def TablePage_Init_def tp_setters mem_simps PAGE_SIZE_def)

text \<open>A heap created in a new pool over a new disk: its first page is empty, unpinned and dirty.\<close>

lemma new_heap:
  assumes n: "0 < n"
  obtains h f b where "TableHeap_create (BufferPoolManager n (DiskManager_open zero_mem 0)) sch = Inr (h, b)" and "pool_inv b"
    and "heap_schema h = sch" and "fetchable b (first_page_id h)" and "page_table b (first_page_id h) = Some f"
    and "page_view b (first_page_id h) = TablePage_Init zero_mem (first_page_id h) 4096" and "valid_pid (first_page_id h)"
    and "free_list b = [1..<n]" and "disk_room (disk b)"
proof -
  let ?d = "DiskManager_open zero_mem 0"
  obtain f p b where N: "NewPage (BufferPoolManager n ?d) = Inr (Some (f, p), b)" "pool_reachable b"
    "page_table b p = Some f" "pages b ! f = blank_page p" "valid_pid p" "disk_used (disk b) = insert p (disk_used ?d)"
    "free_list b = [1..<n]"
    using new_pool_NewPage [OF dr_open fresh_disk_room n] by metis
  let ?m = "TablePage_Init zero_mem p 4096" and ?h = "\<lparr>first_page_id = p, heap_schema = sch\<rparr>"
  let ?b = "unpin (put_mem f ?m b) p True"
  have inv: "pool_inv b" using pool_reachable_inv [OF N(2)] .
  have cl: "clipped ?m" by (rule Init_clipped) simp
  note P = put_unpin_dirty [OF inv N(3) cl]
  have c: "TableHeap_create (BufferPoolManager n ?d) sch = Inr (?h, ?b)"
    by (simp add: TableHeap_create_def N(1) page_mem_def N(4) PAGE_SIZE_def)
  have D: "disk ?b = disk b" by (simp add: put_mem_def)
  have fl: "free_list ?b = [1..<n]"
  proof -
    have "bpm_ok b" using inv by (simp add: pool_inv_def)
    note M = put_mem_resident [OF this N(3) cl]
    have "page_table (put_mem f ?m b) p = Some f" using M(2) N(3) by simp
    from UnpinPage_resident [OF M(1) this, of True] M(8) N(7) show ?thesis by (simp add: unpin_def Let_def)
  qed
  have "card (disk_used (disk b)) < 5" using N(6) by (simp add: open_empty_used)
  then have "disk_room (disk ?b)" using disk_room_if_few [OF N(2)] D by simp
  then show ?thesis using that [OF c P(1)] P N(5,6) fl D by (simp add: fetchable_def)
qed

lemma GetTuple_true_live:
  assumes "TablePage_GetTuple m (Row_at (RowId p k)) (Some sch) = Inr (True, x)" and "0 \<le> p" and "p < 2 ^ 31"
  shows "unat k < tp_count m" and "\<not> IsDeleted (GetTupleSize m (unat k))"
  using GetTuple_deleted [OF assms(2,3), of k m sch] assms(1) by auto

lemma example_row_size: "Row_GetSerializedSize example_row (Some example_schema) = Inr 17"
  by (simp add: Row_GetSerializedSize_def example_row_def example_schema_def GetColumnCount_def Field_null_def TypeInt_GetSerializedSize_def)

text \<open>Insertion when the first page has room: the page's own insertion, written back through the pool.\<close>

lemma heap_insert_room:
  assumes inv: "pool_inv b" and p: "fetchable b (first_page_id h)" and tp: "tp_ok (page_view b (first_page_id h))"
    and ins: "TablePage_InsertTuple (page_view b (first_page_id h)) r (Some (heap_schema h)) = Inr (True, m', r')"
    and out: "\<forall>a \<ge> tp_fsp (page_view b (first_page_id h)). m' a = page_view b (first_page_id h) a"
  obtains b' where "TableHeap_InsertTuple h r b = Some (Inr (True, r', b'))" and "pool_inv b'" and "fetchable b' (first_page_id h)"
    and "\<forall>q. valid_pid q \<longrightarrow> page_view b' q = (if q = first_page_id h then m' else page_view b q)"
proof -
  let ?p = "first_page_id h"
  obtain f b1 where F: "FetchPage b ?p = Inr (Some f, b1)" using fetchable_some [OF inv p] by metis
  have u: "?p \<in> disk_used (disk b)" using p by (simp add: fetchable_def)
  note S = FetchPage_some [OF inv u F]
  let ?b2 = "unpin b1 ?p False"
  have inv2: "pool_inv ?b2" and V2: "page_view ?b2 q = page_view b1 q" for q using unpin_clean [OF S(1,5)] by auto
  have ok: "bpm_ok b" and ok1: "bpm_ok b1" and ok2: "bpm_ok ?b2" using inv S(1) inv2 by (simp_all add: pool_inv_def)
  have t2: "page_table ?b2 ?p = Some f" using S(2) by simp
  have m2: "page_mem ?b2 f = page_view b ?p" using unpin_mem(1) [OF ok1] S(3) by simp
  have id2: "frame_page_id ?b2 f = ?p" using resident_facts(4) [OF ok2 t2] by (simp add: frame_page_id_def)
  have cl: "clipped m'" by (rule clipped_beyond [OF tp page_view_clipped [OF ok] out])
  note P = put_unpin_dirty [OF inv2 t2 cl]
  have ins: "TableHeap_InsertTuple h r b = Some (Inr (True, r', unpin (put_mem f m' ?b2) ?p True))"
    unfolding TableHeap_InsertTuple_def by (simp add: F insert_loop.simps m2 ins id2)
  have "fetchable (unpin (put_mem f m' ?b2) ?p True) ?p" using P(3) u S(4) by (simp add: fetchable_def put_mem_def)
  with that [OF ins P(1)] P(2) V2 S(6) show ?thesis by simp
qed

section \<open>Properties\<close>

text \<open>
  C22. Inserting into a table heap whose first page has room: \<^verbatim>\<open>InsertTuple\<close> returns, succeeds, keeps the
  buffer pool consistent and every other page and slot as it was, and \<^verbatim>\<open>GetTuple\<close> with the row id it
  assigned returns the fields of the row and changes no page.
\<close>

theorem heap_insert_then_get:
  assumes inv: "pool_inv b" and p: "fetchable b (first_page_id h)"
    and tp: "tp_ok (page_view b (first_page_id h))" "GetTablePageId (page_view b (first_page_id h)) = first_page_id h"
    and r: "row_ok (heap_schema h) r" and siz: "Row_GetSerializedSize r (Some (heap_schema h)) = Inr n"
    and room: "unat n + 8 \<le> tp_fsp (page_view b (first_page_id h)) - 24 - 8 * tp_count (page_view b (first_page_id h))"
  shows "\<exists>i b' b''. TableHeap_InsertTuple h r b = Some (Inr (True, r\<lparr>rid := RowId (first_page_id h) (word_of_nat i)\<rparr>, b')) \<and>
    pool_inv b' \<and> tp_ok (page_view b' (first_page_id h)) \<and>
    (\<forall>j < tp_count (page_view b (first_page_id h)). j \<noteq> i \<longrightarrow> tp_slot (page_view b' (first_page_id h)) j = tp_slot (page_view b (first_page_id h)) j) \<and>
    (\<forall>q. valid_pid q \<and> q \<noteq> first_page_id h \<longrightarrow> page_view b' q = page_view b q) \<and>
    TableHeap_GetTuple h (Row_at (RowId (first_page_id h) (word_of_nat i))) b' =
      Inr (True, \<lparr>rid = rid r, row_fields = map reread (row_fields r)\<rparr>, b'') \<and>
    (\<forall>q. valid_pid q \<longrightarrow> page_view b'' q = page_view b' q)"
proof -
  let ?p = "first_page_id h"
  have v: "valid_pid ?p" using p by (simp add: fetchable_def disk_used_def valid_pid_def)
  obtain m' i where I: "TablePage_InsertTuple (page_view b ?p) r (Some (heap_schema h)) = Inr (True, m', r\<lparr>rid := RowId ?p (word_of_nat i)\<rparr>)"
    "tp_ok m'" "\<forall>j < tp_count (page_view b ?p). j \<noteq> i \<longrightarrow> tp_slot m' j = tp_slot (page_view b ?p) j"
    "TablePage_GetTuple m' (Row_at (RowId ?p (word_of_nat i))) (Some (heap_schema h)) =
        Inr (True, \<lparr>rid = rid r, row_fields = map reread (row_fields r)\<rparr>)"
    "\<forall>a \<ge> tp_fsp (page_view b ?p). m' a = page_view b ?p a"
    using InsertTuple_room [OF tp(1) r _ siz room] tp(2) valid_pid_int [OF v] by metis
  obtain b' where B: "TableHeap_InsertTuple h r b = Some (Inr (True, r\<lparr>rid := RowId ?p (word_of_nat i)\<rparr>, b'))" "pool_inv b'"
    "fetchable b' ?p" "\<forall>q. valid_pid q \<longrightarrow> page_view b' q = (if q = ?p then m' else page_view b q)"
    using heap_insert_room [OF inv p tp(1) I(1,5)] by metis
  have "page_view b' ?p = m'" using B(4) v by simp
  moreover from this obtain b'' where "TableHeap_GetTuple h (Row_at (RowId ?p (word_of_nat i))) b' =
      Inr (True, \<lparr>rid = rid r, row_fields = map reread (row_fields r)\<rparr>, b'')" "\<forall>q. valid_pid q \<longrightarrow> page_view b'' q = page_view b' q"
    using TableHeap_GetTuple_page [OF B(2,3), of "Row_at (RowId ?p (word_of_nat i))"] I(4) by (metis Row_at_rid RowId_page)
  ultimately show ?thesis using B I(2,3) by (intro exI [of _ i] exI [of _ b'] exI [of _ b'']) auto
qed

theorem heap_insert_then_get_witness:
  "\<exists>h b i r b'. TableHeap_create (BufferPoolManager 3 (DiskManager_open zero_mem 0)) example_schema = Inr (h, b) \<and>
     TableHeap_InsertTuple h example_row b = Some (Inr (True, r, b')) \<and>
     rid r = RowId (first_page_id h) i \<and> (\<exists>r' b''. TableHeap_GetTuple h (Row_at (rid r)) b' = Inr (True, r', b''))"
proof -
  obtain h b where H: "TableHeap_create (BufferPoolManager 3 (DiskManager_open zero_mem 0)) example_schema = Inr (h, b)" "pool_inv b"
    "heap_schema h = example_schema" "fetchable b (first_page_id h)" "valid_pid (first_page_id h)"
    "page_view b (first_page_id h) = TablePage_Init zero_mem (first_page_id h) 4096"
    using new_heap [of 3 example_schema] by (metis zero_less_numeral)
  note I = Init_ok [where m = zero_mem and p = "first_page_id h" and prev = 4096]
  have row: "row_ok (heap_schema h) example_row" "Row_GetSerializedSize example_row (Some (heap_schema h)) = Inr 17"
    using H(3) example_row_ok example_row_size by simp_all
  have "tp_ok (page_view b (first_page_id h))" "GetTablePageId (page_view b (first_page_id h)) = first_page_id h"
    "unat (17 :: u32) + 8 \<le> tp_fsp (page_view b (first_page_id h)) - 24 - 8 * tp_count (page_view b (first_page_id h))"
    using H(6) I valid_pid_int [OF H(5)] by simp_all
  from heap_insert_then_get [OF H(2,4) this(1,2) row this(3)] H(1) show ?thesis by auto
qed

text \<open>
  The heap's \<^verbatim>\<open>UpdateTuple\<close> and \<^verbatim>\<open>ApplyDelete\<close> never do their work: their guard is inverted. When
  the page can be fetched they return at once (false for the update) with every page unchanged and
  one pin of the page left behind; when it cannot, they call through a null pointer.
\<close>

theorem heap_update_and_apply_delete_do_nothing:
  assumes inv: "pool_inv b" and p: "rid_page_id rd \<in> disk_used (disk b)"
  shows "if fetchable b (rid_page_id rd)
    then \<exists>b' f. TableHeap_UpdateTuple h r rd b = Inr (False, b') \<and> TableHeap_ApplyDelete rd b = Inr b' \<and>
      (\<forall>q. valid_pid q \<longrightarrow> page_view b' q = page_view b q) \<and> page_table b' (rid_page_id rd) = Some f \<and>
      pin_count (pages b' ! f) = (case page_table b (rid_page_id rd) of None \<Rightarrow> 0 | Some g \<Rightarrow> pin_count (pages b ! g)) + 1
    else TableHeap_UpdateTuple h r rd b = Inl NullDeref \<and> TableHeap_ApplyDelete rd b = Inl NullDeref"
  using inv p
proof (cases rule: FetchPage_cases)
  case full
  then show ?thesis using p by (simp add: fetchable_def TableHeap_UpdateTuple_def TableHeap_ApplyDelete_def)
next
  case (hit f)
  have "bpm_ok b" using inv by (simp add: pool_inv_def)
  note R = resident_facts [OF this hit(1)]
  show ?thesis using hit p R FetchPage_some(2,6) [OF inv p hit(2)]
    by (simp add: fetchable_def TableHeap_UpdateTuple_def TableHeap_ApplyDelete_def)
next
  case (miss f r' fl d)
  have "\<not> all_pinned b" "f < length (pages b)" using miss(2) all_pinned_nth [of b] inv bpm_okD(1) [of b] by (auto simp: evictable_def pool_inv_def)
  then show ?thesis using miss(1) p FetchPage_some(2,6) [OF inv p miss(4)]
    by (simp add: miss(4) fetchable_def TableHeap_UpdateTuple_def TableHeap_ApplyDelete_def)
qed

theorem heap_update_and_apply_delete_do_nothing_witness:
  "\<exists>h b b'. TableHeap_create (BufferPoolManager 3 (DiskManager_open zero_mem 0)) example_schema = Inr (h, b) \<and>
     TableHeap_UpdateTuple h example_row (RowId (first_page_id h) 0) b = Inr (False, b') \<and>
     TableHeap_ApplyDelete (RowId (first_page_id h) 0) b = Inr b'"
proof -
  obtain h b where H: "TableHeap_create (BufferPoolManager 3 (DiskManager_open zero_mem 0)) example_schema = Inr (h, b)" "pool_inv b"
    "fetchable b (first_page_id h)" using new_heap [of 3 example_schema] by (metis zero_less_numeral)
  have "rid_page_id (RowId (first_page_id h) 0) \<in> disk_used (disk b)" using H(3) by (simp add: RowId_page fetchable_def)
  from heap_update_and_apply_delete_do_nothing [OF H(2) this, of h example_row] H(1,3) show ?thesis by (auto simp: RowId_page)
qed

text \<open>
  C24. Logical deletion through the heap: \<^verbatim>\<open>MarkDelete\<close> of a live tuple makes \<^verbatim>\<open>GetTuple\<close> answer false,
  touches no other page, and \<^verbatim>\<open>RollbackDelete\<close> brings back the content of every page.
\<close>

theorem heap_mark_delete_and_rollback:
  assumes inv: "pool_inv b" and p: "fetchable b p" and tp: "tp_ok (page_view b p)" "GetTablePageId (page_view b p) = p"
    and live: "unat k < tp_count (page_view b p)" "\<not> IsDeleted (GetTupleSize (page_view b p) (unat k))"
  shows "\<exists>b1 b2 b3. TableHeap_MarkDelete (RowId p k) b = Inr (True, b1) \<and> pool_inv b1 \<and>
    (\<forall>q. valid_pid q \<and> q \<noteq> p \<longrightarrow> page_view b1 q = page_view b q) \<and>
    TableHeap_GetTuple h (Row_at (RowId p k)) b1 = Inr (False, Row_at (RowId p k), b2) \<and>
    TableHeap_RollbackDelete (RowId p k) b1 = Inr b3 \<and> pool_inv b3 \<and> (\<forall>q. valid_pid q \<longrightarrow> page_view b3 q = page_view b q)"
proof -
  have v: "valid_pid p" using p by (simp add: fetchable_def disk_used_def valid_pid_def)
  have ok: "bpm_ok b" using inv by (simp add: pool_inv_def)
  obtain m where M: "TablePage_MarkDelete (page_view b p) (RowId p k) = (True, m)"
    "\<forall>sch. TablePage_GetTuple m (Row_at (RowId p k)) (Some sch) = Inr (False, Row_at (RowId p k))"
    "TablePage_RollbackDelete m (RowId p k) = Inr (page_view b p)"
    "m = SetTupleSize (page_view b p) (unat k) (SetDeletedFlag (GetTupleSize (page_view b p) (unat k)))"
    using MarkDelete_live [OF tp(1), of p k] valid_pid_int [OF v] live by blast
  have idm: "GetTablePageId m = p" using tp(2) by (simp add: M(4) SetTupleSize_def GetTablePageId_def mem_simps)
  have "28 + 8 * unat k + 4 \<le> PAGE_SIZE" using tp_okD(1,2) [OF tp(1)] live(1) by (simp add: PAGE_SIZE_def)
  then have clm: "clipped m" using page_view_clipped [OF ok, of p] by (simp add: clipped_def M(4) SetTupleSize_def mem_simps)
  obtain b1 where B1: "TableHeap_MarkDelete (RowId p k) b = Inr (True, b1)" "pool_inv b1" "fetchable b1 p"
    "\<forall>q. valid_pid q \<longrightarrow> page_view b1 q = (if q = p then m else page_view b q)"
  proof -
    obtain f c where F: "FetchPage b p = Inr (Some f, c)" using fetchable_some [OF inv p] by metis
    have u: "p \<in> disk_used (disk b)" using p by (simp add: fetchable_def)
    note S = FetchPage_some [OF inv u F] and P = put_unpin_dirty [OF FetchPage_some(1,2) [OF inv u F] clm]
    have "page_mem (put_mem f m c) f = m" using put_mem_resident(6) [OF _ S(2) clm] S(1) by (simp add: pool_inv_def)
    then have "TableHeap_MarkDelete (RowId p k) b = Inr (True, unpin (put_mem f m c) p True)"
      by (simp add: TableHeap_MarkDelete_def RowId_page F S(3) M(1) idm)
    then show ?thesis using that P S(4,6) u by (simp add: fetchable_def put_mem_def)
  qed
  have v1: "page_view b1 p = m" using B1(4) v by simp
  obtain b2 where "TableHeap_GetTuple h (Row_at (RowId p k)) b1 = Inr (False, Row_at (RowId p k), b2)"
    using TableHeap_GetTuple_page [OF B1(2,3), of "Row_at (RowId p k)"] M(2) v1 by (metis Row_at_rid RowId_page)
  moreover obtain b3 where "TableHeap_RollbackDelete (RowId p k) b1 = Inr b3" "pool_inv b3"
    "\<forall>q. valid_pid q \<longrightarrow> page_view b3 q = (if q = p then page_view b p else page_view b1 q)"
  proof -
    obtain f c where F: "FetchPage b1 p = Inr (Some f, c)" using fetchable_some [OF B1(2,3)] by metis
    have u: "p \<in> disk_used (disk b1)" using B1(3) by (simp add: fetchable_def)
    note S = FetchPage_some [OF B1(2) u F] and P = put_unpin_dirty [OF FetchPage_some(1,2) [OF B1(2) u F] page_view_clipped [OF ok, of p]]
    have "page_mem (put_mem f (page_view b p) c) f = page_view b p"
      using put_mem_resident(6) [OF _ S(2) page_view_clipped [OF ok]] S(1) by (simp add: pool_inv_def)
    then have "TableHeap_RollbackDelete (RowId p k) b1 = Inr (unpin (put_mem f (page_view b p) c) p True)"
      by (simp add: TableHeap_RollbackDelete_def RowId_page F S(3) v1 M(3) tp(2))
    then show ?thesis using that P S(6) by simp
  qed
  ultimately show ?thesis using B1 by (intro exI [of _ b1] exI [of _ b2] exI [of _ b3]) auto
qed

text \<open>A heap in a new pool with one row in it.\<close>

lemma heap_with_row:
  obtains h :: table_heap and b where "heap_schema h = example_schema" and "pool_inv b" and "fetchable b (first_page_id h)"
    and "tp_ok (page_view b (first_page_id h))" and "GetTablePageId (page_view b (first_page_id h)) = first_page_id h"
    and "tp_count (page_view b (first_page_id h)) = 1" and "\<not> IsDeleted (GetTupleSize (page_view b (first_page_id h)) 0)"
proof -
  obtain h :: table_heap and b where H: "pool_inv b" "heap_schema h = example_schema" "fetchable b (first_page_id h)" "valid_pid (first_page_id h)"
    "page_view b (first_page_id h) = TablePage_Init zero_mem (first_page_id h) 4096"
    using new_heap [of 3 example_schema] by (metis zero_less_numeral)
  let ?p = "first_page_id h" and ?m = "page_view b (first_page_id h)"
  note I = Init_ok [where m = zero_mem and p = "first_page_id h" and prev = 4096]
  have T: "tp_ok ?m" "GetTablePageId ?m = ?p" "tp_count ?m = 0" "tp_fsp ?m = 4096" "0 \<le> ?p"
    using H(5) I valid_pid_int [OF H(4)] by simp_all
  have hyp: "row_ok (heap_schema h) example_row" "0 \<le> GetTablePageId ?m"
    "Row_GetSerializedSize example_row (Some (heap_schema h)) = Inr 17" "unat (17 :: u32) + 8 \<le> tp_fsp ?m - 24 - 8 * tp_count ?m"
    using H(2) example_row_ok example_row_size T(2-5) by simp_all
  obtain m' i where M: "TablePage_InsertTuple ?m example_row (Some (heap_schema h)) = Inr (True, m', example_row\<lparr>rid := RowId ?p (word_of_nat i)\<rparr>)"
    "tp_ok m'" "tp_count m' = max (tp_count ?m) (Suc i)" "i \<le> tp_count ?m" "\<forall>a \<ge> tp_fsp ?m. m' a = ?m a" "GetTablePageId m' = ?p"
    "TablePage_GetTuple m' (Row_at (RowId ?p (word_of_nat i))) (Some (heap_schema h)) =
        Inr (True, \<lparr>rid = rid example_row, row_fields = map reread (row_fields example_row)\<rparr>)"
    using InsertTuple_room [OF T(1) hyp] T(2) by metis
  obtain b' where B: "pool_inv b'" "fetchable b' ?p" "\<forall>q. valid_pid q \<longrightarrow> page_view b' q = (if q = ?p then m' else page_view b q)"
    using heap_insert_room [OF H(1,3) T(1) M(1,5)] by metis
  have "\<not> IsDeleted (GetTupleSize m' 0)"
    using GetTuple_true_live [OF M(7)] valid_pid_int [OF H(4)] M(4) T(3) by simp
  then show ?thesis using that [OF H(2) B(1,2)] B(3) H(4) M(2,3,4,6) T(3) by simp
qed

theorem heap_mark_delete_and_rollback_witness:
  "\<exists>(h :: table_heap) b k b1 b3. pool_inv b \<and> TableHeap_MarkDelete (RowId (first_page_id h) k) b = Inr (True, b1) \<and>
     TableHeap_RollbackDelete (RowId (first_page_id h) k) b1 = Inr b3 \<and>
     page_view b3 (first_page_id h) = page_view b (first_page_id h)"
proof -
  obtain h :: table_heap and b where H: "pool_inv b" "fetchable b (first_page_id h)" "tp_ok (page_view b (first_page_id h))"
    "GetTablePageId (page_view b (first_page_id h)) = first_page_id h" "tp_count (page_view b (first_page_id h)) = 1"
    "\<not> IsDeleted (GetTupleSize (page_view b (first_page_id h)) 0)" using heap_with_row by metis
  have v: "valid_pid (first_page_id h)" using H(2) by (simp add: fetchable_def disk_used_def valid_pid_def)
  have "unat (0 :: u32) < tp_count (page_view b (first_page_id h))"
    "\<not> IsDeleted (GetTupleSize (page_view b (first_page_id h)) (unat (0 :: u32)))" using H(5,6) by simp_all
  from heap_mark_delete_and_rollback [OF H(1-4) this, of h] H(1) v show ?thesis by blast
qed

text \<open>Fetching the invalid page id never succeeds.\<close>

lemma FetchPage_invalid:
  assumes ok: "bpm_ok b"
  shows "FetchPage b INVALID_PAGE_ID = Inr (None, b) \<or> FetchPage b INVALID_PAGE_ID = Inl AssertFailed"
proof -
  have t: "page_table b INVALID_PAGE_ID = None"
    using resident_facts(5) [OF ok, of INVALID_PAGE_ID] by (cases "page_table b INVALID_PAGE_ID") (auto simp: valid_pid_def INVALID_PAGE_ID_def)
  from ok show ?thesis
  proof (cases rule: pick_frame_cases)
    case full
    then show ?thesis by (simp add: FetchPage_def t)
  next
    case (picked f r fl)
    have f: "f < pool_size b" using picked(2) by (simp add: evictable_def)
    have cl: "clipped (page_data (pages b ! f))" using bpm_okD(6) [OF ok f] by (simp add: frame_ok_def)
    obtain d where d: "(if is_dirty (pages b ! f) then DiskManager_WritePage (disk b) (page_id_of (pages b ! f)) (page_data (pages b ! f))
        else Inr (disk b)) = Inr d"
      by (rule write_back [OF ok f bpm_okD(2) [OF ok] cl])
    have "DiskManager_ReadPage s INVALID_PAGE_ID m = Inl AssertFailed" for s m
      by (simp add: DiskManager_ReadPage_def INVALID_PAGE_ID_def)
    then show ?thesis
      using d by (cases "is_dirty (pages b ! f)") (simp_all add: FetchPage_def t picked(1) write_page_def read_page_def)
  qed
qed

text \<open>
  Scanning a heap breaks at the first step: a row inserted with an unset row id into an empty heap
  is found by \<^verbatim>\<open>Begin\<close> with its fields, but the row read back carries the invalid row id that was
  serialised with it, and advancing the iterator fails an assertion.
\<close>

theorem scan_after_insert_fails:
  assumes inv: "pool_inv b" and p: "fetchable b (first_page_id h)"
    and tp: "tp_ok (page_view b (first_page_id h))" "GetTablePageId (page_view b (first_page_id h)) = first_page_id h"
      "tp_count (page_view b (first_page_id h)) = 0"
    and r: "row_ok (heap_schema h) r" "rid r = INVALID_ROWID" and siz: "Row_GetSerializedSize r (Some (heap_schema h)) = Inr n"
    and room: "unat n + 8 \<le> tp_fsp (page_view b (first_page_id h)) - 24"
  shows "\<exists>r1 b1 x b2. TableHeap_InsertTuple h r b = Some (Inr (True, r1, b1)) \<and> TableHeap_Begin h b1 = Some (Inr (Some x, b2)) \<and>
    row_fields x = map reread (row_fields r) \<and> TableIterator_next h (Some x) b2 = Some (Inl AssertFailed)"
proof -
  let ?p = "first_page_id h"
  have v: "valid_pid ?p" using p by (simp add: fetchable_def disk_used_def valid_pid_def)
  note vi = valid_pid_int [OF v, THEN conjunct1] valid_pid_int [OF v, THEN conjunct2]
  have hyp: "0 \<le> GetTablePageId (page_view b ?p)" "unat n + 8 \<le> tp_fsp (page_view b ?p) - 24 - 8 * tp_count (page_view b ?p)"
    using tp vi room by simp_all
  let ?x = "\<lparr>rid = rid r, row_fields = map reread (row_fields r)\<rparr>"
  obtain m' i where I: "TablePage_InsertTuple (page_view b ?p) r (Some (heap_schema h)) = Inr (True, m', r\<lparr>rid := RowId ?p (word_of_nat i)\<rparr>)"
    "tp_ok m'" "i \<le> tp_count (page_view b ?p)" "tp_count m' = max (tp_count (page_view b ?p)) (Suc i)"
    "TablePage_GetTuple m' (Row_at (RowId ?p (word_of_nat i))) (Some (heap_schema h)) = Inr (True, ?x)"
    "\<forall>a \<ge> tp_fsp (page_view b ?p). m' a = page_view b ?p a" "GetTablePageId m' = ?p"
    using InsertTuple_room [OF tp(1) r(1) hyp(1) siz hyp(2)] tp(2) by metis
  have i: "i = 0" using I(3) tp(3) by simp
  obtain b1 where B: "TableHeap_InsertTuple h r b = Some (Inr (True, r\<lparr>rid := RowId ?p (word_of_nat i)\<rparr>, b1))" "pool_inv b1"
    "fetchable b1 ?p" "\<forall>q. valid_pid q \<longrightarrow> page_view b1 q = (if q = ?p then m' else page_view b q)"
    using heap_insert_room [OF inv p tp(1) I(1,6)] by metis
  have live: "\<not> IsDeleted (GetTupleSize m' 0)" using GetTuple_true_live(2) [OF I(5) vi] by (simp add: i)
  then have first: "TablePage_GetFirstTupleRid m' = (True, RowId ?p 0)"
    using I(4,7) i by (simp add: TablePage_GetFirstTupleRid_def find_slot.simps [of _ m' 0] tp_count_def)
  obtain f c where F: "FetchPage b1 ?p = Inr (Some f, c)" using fetchable_some [OF B(2,3)] by metis
  have u: "?p \<in> disk_used (disk b1)" using B(3) by (simp add: fetchable_def)
  note S = FetchPage_some [OF B(2) u F]
  have m: "page_mem c f = m'" using S(3) B(4) v by simp
  let ?c = "unpin c ?p False"
  have beg: "begin_loop ?p b1 = Some (Inr (Some (RowId ?p 0), ?c))" by (simp add: begin_loop.simps F m first)
  have invc: "pool_inv ?c" and vc: "page_view ?c ?p = m'" using unpin_clean [OF S(1,5)] S(6) [OF v] B(4) v by simp_all
  have fc: "fetchable ?c ?p" using S(2,4) u by (simp add: fetchable_def)
  have "TablePage_GetTuple (page_view ?c ?p) (Row_at (RowId ?p 0)) (Some (heap_schema h)) = Inr (True, ?x)" using I(5) vc i by simp
  then obtain b2 where G: "TableHeap_GetTuple h (Row_at (RowId ?p 0)) ?c = Inr (True, ?x, b2)" "pool_inv b2"
    using TableHeap_GetTuple_page [OF invc fc, of "Row_at (RowId ?p 0)"] by (metis Row_at_rid RowId_page)
  have begin': "TableHeap_Begin h b1 = Some (Inr (Some ?x, b2))"
    using vi by (simp add: TableHeap_Begin_def beg G(1) INVALID_PAGE_ID_def)
  have "bpm_ok b2" using G(2) by (simp add: pool_inv_def)
  then have "TableIterator_next h (Some ?x) b2 = Some (Inl AssertFailed)"
    using FetchPage_invalid [of b2] r(2) by (auto simp: TableIterator_next_def INVALID_ROWID_def RowId_page)
  with B(1) begin' show ?thesis by (metis row.select_convs(2))
qed

lemma Row_size_rid: "Row_GetSerializedSize (r\<lparr>rid := x\<rparr>) sch = Row_GetSerializedSize r sch"
  by (simp add: Row_GetSerializedSize_def)

lemma row_ok_rid: "row_ok sch r \<Longrightarrow> rowid_ok x \<Longrightarrow> row_ok sch (r\<lparr>rid := x\<rparr>)"
  by (simp add: row_ok_def)

theorem scan_after_insert_fails_witness:
  "\<exists>h b r r1 b1 x b2. TableHeap_create (BufferPoolManager 3 (DiskManager_open zero_mem 0)) example_schema = Inr (h, b) \<and>
     TableHeap_InsertTuple h r b = Some (Inr (True, r1, b1)) \<and> TableHeap_Begin h b1 = Some (Inr (Some x, b2)) \<and>
     TableIterator_next h (Some x) b2 = Some (Inl AssertFailed)"
proof -
  obtain h b where H: "TableHeap_create (BufferPoolManager 3 (DiskManager_open zero_mem 0)) example_schema = Inr (h, b)" "pool_inv b"
    "heap_schema h = example_schema" "fetchable b (first_page_id h)" "valid_pid (first_page_id h)"
    "page_view b (first_page_id h) = TablePage_Init zero_mem (first_page_id h) 4096"
    using new_heap [of 3 example_schema] by (metis zero_less_numeral)
  note I = Init_ok [where m = zero_mem and p = "first_page_id h" and prev = 4096]
  let ?r = "example_row\<lparr>rid := INVALID_ROWID\<rparr>"
  have row: "row_ok (heap_schema h) ?r" "rid ?r = INVALID_ROWID" "Row_GetSerializedSize ?r (Some (heap_schema h)) = Inr 17"
    using H(3) row_ok_rid [OF example_row_ok] example_row_size
    by (simp_all add: Row_size_rid rowid_ok_def INVALID_ROWID_def RowId_def INVALID_PAGE_ID_def)
  have "tp_ok (page_view b (first_page_id h))" "GetTablePageId (page_view b (first_page_id h)) = first_page_id h"
    "tp_count (page_view b (first_page_id h)) = 0" "unat (17 :: u32) + 8 \<le> tp_fsp (page_view b (first_page_id h)) - 24"
    using H(6) I valid_pid_int [OF H(5)] by simp_all
  from scan_after_insert_fails [OF H(2,4) this(1-3) row this(4)] H(1) show ?thesis by blast
qed

text \<open>A fetch of a resident page followed by a clean unpin leaves contents, table and dirty flags alone.\<close>

lemma next_page_resident:
  assumes ok: "bpm_ok b" and t: "page_table b p = Some f"
  obtains b1 where "FetchPage b p = Inr (Some f, b1)" and "frame_page_id b1 f = p" and "bpm_ok (unpin b1 p False)"
    and "page_table (unpin b1 p False) = page_table b" and "page_mem (unpin b1 p False) = page_mem b"
    and "frame_page_id (unpin b1 p False) = frame_page_id b" and "\<forall>g. is_dirty (pages (unpin b1 p False) ! g) = is_dirty (pages b ! g)"
    and "disk (unpin b1 p False) = disk b" and "free_list (unpin b1 p False) = free_list b"
proof -
  let ?b = "(upd_page f (\<lambda>pg. pg\<lparr>pin_count := pin_count pg + 1\<rparr>) b)\<lparr>repl := LRUReplacer_Pin f (repl b), disk := disk b\<rparr>"
  note R = resident_facts [OF ok t]
  have F: "FetchPage b p = Inr (Some f, ?b)" by (rule FetchPage_hit [OF ok t])
  have ok1: "bpm_ok ?b"
    by (rule upd_resident_ok [OF ok t]) (use R bpm_okD(2,3) [OF ok] lru.pin_inv lru.pin_frames in auto)
  have t1: "page_table ?b p = Some f" using t by simp
  note U = UnpinPage_resident [OF ok1 t1, of False]
  have D: "\<forall>g. is_dirty (pages (unpin ?b p False) ! g) = is_dirty (pages b ! g)" "free_list (unpin ?b p False) = free_list b"
    unfolding unpin_def U using R(2) by (simp_all add: Let_def)
  have M: "page_mem ?b = page_mem b" "frame_page_id ?b = frame_page_id b"
    using R(2) by (simp_all add: page_mem_def frame_page_id_def fun_eq_iff)
  show ?thesis
  proof (rule that [OF F])
    show "frame_page_id ?b f = p" using R by (simp add: frame_page_id_def)
    show "bpm_ok (unpin ?b p False)" unfolding unpin_def by (rule UnpinPage_ok [OF ok1])
    show "page_mem (unpin ?b p False) = page_mem b" "frame_page_id (unpin ?b p False) = frame_page_id b"
      using M unpin_mem [OF ok1] by (simp_all add: fun_eq_iff)
  qed (use D in simp_all)
qed

lemma slot_size: "tp_slot m i = Some (False, bs) \<Longrightarrow> GetTupleSize m i = word_of_nat (length bs)"
proof -
  assume s: "tp_slot m i = Some (False, bs)"
  then have nd: "\<not> bit (GetTupleSize m i) 31" and len: "length bs = tuple_len m i"
    by (auto simp: tp_slot_def IsDeleted_bit split: if_splits)
  have "UnsetDeletedFlag (GetTupleSize m i) = GetTupleSize m i"
    unfolding UnsetDeletedFlag_def by (rule bit_word_eqI) (use nd in \<open>auto simp: flag_bits\<close>)
  then show ?thesis using len by (simp add: tuple_len_def)
qed

text \<open>Inserting a row twice into an empty page fills slots 0 and 1.\<close>

lemma insert_twice:
  assumes tp: "tp_ok m" "GetTablePageId m = q" "tp_count m = 0" "tp_fsp m = 4096" and v: "valid_pid q"
    and r: "row_ok sch r" and siz: "Row_GetSerializedSize r (Some sch) = Inr n" and fits: "2 * (unat n + 8) + 24 \<le> 4096"
  obtains m1 m2 where "TablePage_InsertTuple m r (Some sch) = Inr (True, m1, r\<lparr>rid := RowId q 0\<rparr>)"
    and "TablePage_InsertTuple m1 (r\<lparr>rid := RowId q 0\<rparr>) (Some sch) = Inr (True, m2, r\<lparr>rid := RowId q 1\<rparr>)"
    and "\<forall>a \<ge> 4096. m1 a = m a" and "\<forall>a \<ge> 4096. m2 a = m a" and "tp_count m2 = 2"
    and "TablePage_GetTuple m2 (Row_at (RowId q 0)) (Some sch) = Inr (True, \<lparr>rid = rid r, row_fields = map reread (row_fields r)\<rparr>)"
    and "TablePage_GetTuple m2 (Row_at (RowId q 1)) (Some sch) = Inr (True, \<lparr>rid = RowId q 0, row_fields = map reread (row_fields r)\<rparr>)"
proof -
  note vi = valid_pid_int [OF v]
  let ?r = "r\<lparr>rid := RowId q 0\<rparr>"
  have h1: "0 \<le> GetTablePageId m" "unat n + 8 \<le> tp_fsp m - 24 - 8 * tp_count m" using tp vi fits by simp_all
  obtain m1 i where M: "TablePage_InsertTuple m r (Some sch) = Inr (True, m1, r\<lparr>rid := RowId q (word_of_nat i)\<rparr>)" "tp_ok m1"
    "tp_count m1 = max (tp_count m) (Suc i)" "i \<le> tp_count m" "\<forall>a \<ge> tp_fsp m. m1 a = m a" "GetTablePageId m1 = q" "tp_fsp m1 = tp_fsp m - unat n"
    "\<exists>bs. Row_SerializeTo r (Some sch) = Inr bs \<and> tp_slot m1 i = Some (False, bs)"
    using InsertTuple_room [OF tp(1) r h1(1) siz h1(2)] tp(2) by metis
  have i: "i = 0" "tp_count m1 = 1" "tp_fsp m1 = 4096 - unat n" using M(3,4,7) tp(3,4) by simp_all
  obtain bs where bs: "Row_SerializeTo r (Some sch) = Inr bs" "tp_slot m1 0 = Some (False, bs)" using M(8) i by auto
  have r2: "row_ok sch ?r" by (rule row_ok_rid [OF r]) (use vi in \<open>simp add: rowid_ok_def RowId_def\<close>)
  have h2: "0 \<le> GetTablePageId m1" "unat n + 8 \<le> tp_fsp m1 - 24 - 8 * tp_count m1" using M(6) vi fits i by simp_all
  obtain m2 j where N: "TablePage_InsertTuple m1 ?r (Some sch) = Inr (True, m2, ?r\<lparr>rid := RowId q (word_of_nat j)\<rparr>)"
    "j < tp_count m1 \<longrightarrow> tp_slot m1 j = None" "\<forall>k < tp_count m1. k \<noteq> j \<longrightarrow> tp_slot m2 k = tp_slot m1 k"
    "tp_count m2 = max (tp_count m1) (Suc j)" "j \<le> tp_count m1" "\<forall>a \<ge> tp_fsp m1. m2 a = m1 a"
    "TablePage_GetTuple m2 (Row_at (RowId q (word_of_nat j))) (Some sch) = Inr (True, \<lparr>rid = rid ?r, row_fields = map reread (row_fields ?r)\<rparr>)"
    using InsertTuple_room [OF M(2) r2 h2(1) _ h2(2)] M(6) siz Row_size_rid by metis
  have j: "j = 1" using N(2,5) bs(2) i(2) by (cases j) auto
  have s2: "tp_slot m2 0 = Some (False, bs)" using N(3) j i(2) bs(2) by simp
  have "TablePage_GetTuple m2 (Row_at (RowId q 0)) (Some sch) = Inr (True, \<lparr>rid = rid r, row_fields = map reread (row_fields r)\<rparr>)"
    by (rule TablePage_GetTuple_slot [OF _ _ _ _ _ r bs(1)]) (use vi N(4) s2 slot_size [OF s2] in auto)
  with that [of m1 m2] M(1,5) N(1,4,6,7) i j tp(4) show ?thesis by simp
qed

text \<open>Taking a new page while a frame is free: the page goes to the first free frame and nothing else moves.\<close>

lemma NewPage_free_frame:
  assumes inv: "bpm_ok b" "table_used b" and room: "disk_room (disk b)" and fl: "free_list b = t # ts"
    and p: "page_table b p = Some f"
  obtains q b1 where "NewPage b = Inr (Some (t, q), b1)" and "bpm_ok b1" and "q \<notin> disk_used (disk b)" and "valid_pid q"
    and "page_table b1 q = Some t" and "page_table b1 p = Some f" and "q \<noteq> p" and "t \<noteq> f" and "page_mem b1 t = zero_mem"
    and "page_mem b1 f = page_mem b f" and "frame_page_id b1 f = p" and "pages b1 ! f = pages b ! f"
proof -
  have t: "t < pool_size b" "t \<in> set (free_list b)" using bpm_okD(5) [OF inv(1)] fl by auto
  have ft: "frame_ok b t" using bpm_okD(6) [OF inv(1) t(1)] .
  have "\<not> all_pinned b" using all_pinned_nth [OF inv(1)] t ft by (auto simp: frame_ok_def)
  then obtain g q r fl' s d where a: "DiskManager_AllocatePage (disk b) = (q, s)" and ev: "evictable b g r fl'"
    and pick: "pick_frame b = (Some g, b\<lparr>repl := r, free_list := fl'\<rparr>)" and e: "evicted_disk b g zero_mem s d"
    and c: "NewPage b = Inr (Some (g, q), install g (blank_page q) d r fl' b)"
    using NewPage_some [OF inv(1) room] by metis
  have g: "g = t" using pick fl by (simp add: pick_frame_def)
  note N = NewPage_fresh [OF inv(1) room inv(2) a] and R = resident_facts [OF inv(1) p]
  have len: "t < length (pages b)" using t bpm_okD(1) [OF inv(1)] by simp
  have "q \<noteq> p" "t \<noteq> f" using N(1) p R(3) t by auto
  moreover have "p \<noteq> page_id_of (pages b ! t)" using R(3) t ft R(5) by (auto simp: frame_ok_def valid_pid_def INVALID_PAGE_ID_def)
  moreover have "bpm_ok (install t (blank_page q) d r fl' b)"
    by (rule install_ok [OF inv(1) ev [unfolded g]]) (use N e in \<open>auto simp: evicted_disk_def\<close>)
  ultimately show ?thesis
    using that [OF c [unfolded g]] N R t len p by (auto simp: page_mem_def frame_page_id_def)
qed

lemma unpin_view: "bpm_ok b \<Longrightarrow> page_view (unpin b p x) q = page_view b q"
  unfolding unpin_def by (rule UnpinPage_view)

lemma unpin_other_dirty:
  assumes "bpm_ok b" and "page_table b q = Some t" and "t \<noteq> f"
  shows "is_dirty (pages (unpin b q x) ! f) = is_dirty (pages b ! f)"
  unfolding unpin_def UnpinPage_resident [OF assms(1,2)] using resident_facts(2) [OF assms(1,2)] assms(3) by (simp add: Let_def)

text \<open>
  The branch of \<^verbatim>\<open>InsertTuple\<close> that appends a page, when a frame is free: the new page \<open>q\<close> holds the row in
  slot 0, would take it in slot 1 as well (\<open>m'\<close>), and the current page links to it.
\<close>

lemma append_page_free:
  assumes ok: "bpm_ok b" "table_used b" and room: "disk_room (disk b)" and fl: "free_list b \<noteq> []" and p: "page_table b p = Some f"
    and r: "row_ok (heap_schema h) r" and siz: "Row_GetSerializedSize r (Some (heap_schema h)) = Inr n" and fits: "2 * (unat n + 8) + 24 \<le> 4096"
  obtains q t b' m1 m' where "append_page h f r b = Inr (Some (q, r\<lparr>rid := RowId q 0\<rparr>), b')" and "bpm_ok b'" and "q \<notin> disk_used (disk b)"
    and "page_table b' p = Some f" and "page_table b' q = Some t" and "q \<noteq> p" and "t \<noteq> f" and "page_mem b' t = m1"
    and "page_mem b' f = SetNextPageId (page_mem b f) q" and "is_dirty (pages b' ! f) = is_dirty (pages b ! f)" and "clipped m'"
    and "TablePage_InsertTuple m1 (r\<lparr>rid := RowId q 0\<rparr>) (Some (heap_schema h)) = Inr (True, m', r\<lparr>rid := RowId q 1\<rparr>)"
    and "tp_count m' = 2"
    and "\<forall>i \<in> {0, 1}. \<exists>x. TablePage_GetTuple m' (Row_at (RowId q i)) (Some (heap_schema h)) = Inr (True, x) \<and> row_fields x = map reread (row_fields r)"
proof -
  let ?sch = "Some (heap_schema h)"
  obtain t ts where "free_list b = t # ts" using fl by (cases "free_list b") auto
  from NewPage_free_frame [OF ok room this p] obtain q b3 where N: "NewPage b = Inr (Some (t, q), b3)" "bpm_ok b3" "q \<notin> disk_used (disk b)"
    "valid_pid q" "page_table b3 q = Some t" "page_table b3 p = Some f" "q \<noteq> p" "t \<noteq> f" "page_mem b3 t = zero_mem"
    "page_mem b3 f = page_mem b f" "frame_page_id b3 f = p" "pages b3 ! f = pages b ! f" by metis
  let ?m0 = "TablePage_Init zero_mem q p" and ?ml = "SetNextPageId (page_mem b f) q"
  have cl0: "clipped ?m0" by (rule Init_clipped) simp
  have cll: "clipped ?ml" using resident_facts(7) [OF ok(1) p] by (simp add: clipped_def SetNextPageId_def mem_simps PAGE_SIZE_def page_mem_def)
  define b4 where "b4 = put_mem t ?m0 b3"
  note P4 = put_mem_resident [OF N(2,5) cl0, folded b4_def]
  have t4: "page_table b4 p = Some f" "page_table b4 q = Some t" using P4(2) N(5,6) by simp_all
  define b5 where "b5 = put_mem f ?ml b4"
  note P5 = put_mem_resident [OF P4(1) t4(1) cll, folded b5_def]
  have t5: "page_table b5 p = Some f" "page_table b5 q = Some t" using P5(2) t4 by simp_all
  have m5: "page_mem b5 t = ?m0" "page_mem b5 f = ?ml" using P5(6) P4(6) N(8) by simp_all
  have I: "tp_ok ?m0" "GetTablePageId ?m0 = q" "tp_count ?m0 = 0" "tp_fsp ?m0 = 4096"
    using Init_ok [where m = zero_mem and p = q and prev = p] valid_pid_int [OF N(4)] by simp_all
  obtain m1 m' where T: "TablePage_InsertTuple ?m0 r ?sch = Inr (True, m1, r\<lparr>rid := RowId q 0\<rparr>)"
    "TablePage_InsertTuple m1 (r\<lparr>rid := RowId q 0\<rparr>) ?sch = Inr (True, m', r\<lparr>rid := RowId q 1\<rparr>)"
    "\<forall>a \<ge> 4096. m1 a = ?m0 a" "\<forall>a \<ge> 4096. m' a = ?m0 a" "tp_count m' = 2"
    "TablePage_GetTuple m' (Row_at (RowId q 0)) ?sch = Inr (True, \<lparr>rid = rid r, row_fields = map reread (row_fields r)\<rparr>)"
    "TablePage_GetTuple m' (Row_at (RowId q 1)) ?sch = Inr (True, \<lparr>rid = RowId q 0, row_fields = map reread (row_fields r)\<rparr>)"
    using insert_twice [OF I N(4) r siz fits] by metis
  have clm: "clipped m1" "clipped m'" using cl0 T(3,4) by (simp_all add: clipped_def PAGE_SIZE_def)
  note P6 = put_mem_resident [OF P5(1) t5(2) clm(1)]
  have id4: "frame_page_id b4 t = q" using resident_facts(4) [OF P4(1) t4(2)] by (simp add: frame_page_id_def)
  have app: "append_page h f r b = Inr (Some (q, r\<lparr>rid := RowId q 0\<rparr>), put_mem t m1 b5)"
    using N(9,10,11) id4 P4(6) [of f] N(8) m5(1) T(1) unfolding append_page_def
    by (simp add: N(1) Let_def b4_def [symmetric] b5_def [symmetric])
  show ?thesis
    by (rule that [OF app P6(1) N(3) _ _ N(7,8) _ _ _ clm(2) T(2,5)])
      (use P6(2,6) t5 N(8,12) m5 P6(5) [of f] P5(5) [of f] P4(5) [of f] T(6,7) in auto)
qed

text \<open>
  A row that does not fit into the last page of a heap is stored twice. When the first page is full
  and has no successor, \<^verbatim>\<open>InsertTuple\<close> links a new page, puts the row into it, and then the loop
  condition inserts it a second time: the new page ends with two tuples that both read back as the row.
  The changed link is in the first page's frame, whose dirty flag is not set for it.
\<close>

theorem heap_insert_duplicates_on_new_page:
  assumes inv: "pool_inv b" and p: "page_table b (first_page_id h) = Some f" and fl: "free_list b \<noteq> []" and room: "disk_room (disk b)"
    and tp: "tp_ok (page_view b (first_page_id h))" "GetNextPageId (page_view b (first_page_id h)) = INVALID_PAGE_ID"
    and full: "tp_fsp (page_view b (first_page_id h)) - 24 - 8 * tp_count (page_view b (first_page_id h)) < unat n + 8"
    and r: "row_ok (heap_schema h) r" and siz: "Row_GetSerializedSize r (Some (heap_schema h)) = Inr n" and fits: "2 * (unat n + 8) + 24 \<le> 4096"
  shows "\<exists>q b'. TableHeap_InsertTuple h r b = Some (Inr (True, r\<lparr>rid := RowId q 1\<rparr>, b')) \<and> q \<notin> disk_used (disk b) \<and>
    page_view b' (first_page_id h) = SetNextPageId (page_view b (first_page_id h)) q \<and>
    is_dirty (pages b' ! f) = is_dirty (pages b ! f) \<and> tp_count (page_view b' q) = 2 \<and>
    (\<forall>i \<in> {0, 1}. \<exists>x. TablePage_GetTuple (page_view b' q) (Row_at (RowId q i)) (Some (heap_schema h)) = Inr (True, x) \<and>
       row_fields x = map reread (row_fields r))"
proof -
  let ?p = "first_page_id h" and ?sch = "Some (heap_schema h)"
  have ok: "bpm_ok b" and tu: "table_used b" using inv by (simp_all add: pool_inv_def)
  obtain b1 where F: "FetchPage b ?p = Inr (Some f, b1)" and U: "bpm_ok (unpin b1 ?p False)"
    "page_table (unpin b1 ?p False) = page_table b" "page_mem (unpin b1 ?p False) = page_mem b"
    "\<forall>g. is_dirty (pages (unpin b1 ?p False) ! g) = is_dirty (pages b ! g)" "disk (unpin b1 ?p False) = disk b"
    "free_list (unpin b1 ?p False) = free_list b"
    using next_page_resident [OF ok p] by metis
  let ?b2 = "unpin b1 ?p False"
  have m2: "page_mem ?b2 f = page_view b ?p" using U(3) page_view_resident [OF p] by simp
  have no: "TablePage_InsertTuple (page_view b ?p) r ?sch = Inr (False, page_view b ?p, r)"
  proof -
    obtain bs where B: "Row_SerializeTo r ?sch = Inr bs" "Row_GetSerializedSize r ?sch = Inr (word_of_nat (length bs))"
      "length bs < 2 ^ 32" "13 \<le> length bs" using Row_serialize_ok [OF r] by metis
    have "unat n = length bs" "0 < length bs" using B(2,3,4) siz by auto
    then show ?thesis using TablePage_InsertTuple_eq [OF tp(1) B(1,2,3)] full by simp
  qed
  have "free_list ?b2 \<noteq> []" "table_used ?b2" "disk_room (disk ?b2)" "page_table ?b2 ?p = Some f"
    using fl tu room p U by (simp_all add: table_used_def)
  from append_page_free [OF U(1) this(2,3,1,4) r siz fits] obtain q t b6 m1 m' where
    A: "append_page h f r ?b2 = Inr (Some (q, r\<lparr>rid := RowId q 0\<rparr>), b6)" "bpm_ok b6" "q \<notin> disk_used (disk b)"
    "page_table b6 ?p = Some f" "page_table b6 q = Some t" "q \<noteq> ?p" "t \<noteq> f" "page_mem b6 t = m1"
    "page_mem b6 f = SetNextPageId (page_mem ?b2 f) q" "is_dirty (pages b6 ! f) = is_dirty (pages ?b2 ! f)" "clipped m'"
    "TablePage_InsertTuple m1 (r\<lparr>rid := RowId q 0\<rparr>) ?sch = Inr (True, m', r\<lparr>rid := RowId q 1\<rparr>)" "tp_count m' = 2"
    "\<forall>i \<in> {0, 1}. \<exists>x. TablePage_GetTuple m' (Row_at (RowId q i)) ?sch = Inr (True, x) \<and> row_fields x = map reread (row_fields r)"
    unfolding U(5) by metis
  obtain b7 where G: "FetchPage b6 q = Inr (Some t, b7)" "frame_page_id b7 t = q" "bpm_ok (unpin b7 q False)"
    "page_table (unpin b7 q False) = page_table b6" "page_mem (unpin b7 q False) = page_mem b6"
    "\<forall>g. is_dirty (pages (unpin b7 q False) ! g) = is_dirty (pages b6 ! g)"
    using next_page_resident [OF A(2,5)] by metis
  let ?b8 = "unpin b7 q False" and ?b' = "unpin (put_mem t m' (unpin b7 q False)) q True"
  have t8: "page_table ?b8 q = Some t" "page_table ?b8 ?p = Some f" using G(4) A(4,5) by simp_all
  note P9 = put_mem_resident [OF G(3) t8(1) A(11)]
  have id8: "frame_page_id ?b8 t = q" using resident_facts(4) [OF G(3) t8(1)] by (simp add: frame_page_id_def)
  have "insert_loop h t (r\<lparr>rid := RowId q 0\<rparr>) ?b8 = Some (Inr (True, r\<lparr>rid := RowId q 1\<rparr>, ?b'))"
    using G(5) A(8,12) id8 by (simp add: insert_loop.simps)
  then have "insert_loop h f r ?b2 = Some (Inr (True, r\<lparr>rid := RowId q 1\<rparr>, ?b'))"
    by (subst insert_loop.simps) (simp add: m2 no tp(2) A(1) next_page_def G(1,2))
  then have ins: "TableHeap_InsertTuple h r b = Some (Inr (True, r\<lparr>rid := RowId q 1\<rparr>, ?b'))"
    by (simp add: TableHeap_InsertTuple_def F)
  note V = unpin_view [OF P9(1), of q True]
  have "is_dirty (pages ?b' ! f) = is_dirty (pages (put_mem t m' ?b8) ! f)"
    by (rule unpin_other_dirty [OF P9(1) _ A(7)]) (use P9(2) t8 in simp)
  then have "is_dirty (pages ?b' ! f) = is_dirty (pages b ! f)" using P9(5) [of f] A(7,10) G(6) U(4) by simp
  moreover have "page_view ?b' ?p = SetNextPageId (page_view b ?p) q"
    using V P9(4) [of ?p] A(6,7,9) page_view_resident [OF t8(2)] G(5) m2 by simp
  ultimately show ?thesis using ins A(3,13,14) V P9(4) [of q] by (intro exI [of _ q] exI [of _ ?b']) simp
qed

theorem heap_insert_duplicates_on_new_page_witness:
  "\<exists>(h :: table_heap) b q b' r. page_view b (first_page_id h) = wr32 (TablePage_Init zero_mem (first_page_id h) 4096) 16 40 \<and>
     TableHeap_InsertTuple h example_row b = Some (Inr (True, r, b')) \<and> tp_count (page_view b' q) = 2"
proof -
  obtain h :: table_heap and f b where H: "pool_inv b" "heap_schema h = example_schema" "page_table b (first_page_id h) = Some f"
    "page_view b (first_page_id h) = TablePage_Init zero_mem (first_page_id h) 4096" "valid_pid (first_page_id h)"
    "free_list b = [1..<3]" "disk_room (disk b)"
    using new_heap [of 3 example_schema] by (metis zero_less_numeral)
  let ?p = "first_page_id h"
  let ?m = "wr32 (TablePage_Init zero_mem ?p 4096) 16 40"
  let ?b = "unpin (put_mem f ?m b) ?p True"
  have cl: "clipped ?m" using Init_clipped [OF clipped_zero, of ?p 4096] by (simp add: clipped_def mem_simps PAGE_SIZE_def)
  note P = put_unpin_dirty [OF H(1,3) cl]
  have ok: "bpm_ok b" using H(1) by (simp add: pool_inv_def)
  note Q = put_mem_resident [OF ok H(3) cl]
  have fl: "free_list ?b \<noteq> []"
    unfolding unpin_def UnpinPage_resident [OF Q(1), of ?p f, unfolded Q(2), OF H(3)] using Q(8) H(6) by (simp add: Let_def)
  have view: "page_view ?b ?p = ?m" using P(2) by simp
  have T: "tp_ok ?m" "tp_count ?m = 0" "tp_fsp ?m = 40" "GetNextPageId ?m = INVALID_PAGE_ID"
    by (simp_all add: tp_ok_def tp_count_def tp_fsp_def TablePage_Init_def tp_setters tp_getters mem_simps PAGE_SIZE_def INVALID_PAGE_ID_def)
  have rm: "disk_room (disk ?b)" using H(7) Q(3) by simp
  have row: "row_ok (heap_schema h) example_row" "Row_GetSerializedSize example_row (Some (heap_schema h)) = Inr 17"
    using H(2) example_row_ok example_row_size by simp_all
  have "tp_fsp (page_view ?b ?p) - 24 - 8 * tp_count (page_view ?b ?p) < unat (17 :: u32) + 8" using T view by simp
  moreover have "tp_ok (page_view ?b ?p)" "GetNextPageId (page_view ?b ?p) = INVALID_PAGE_ID" using T view by simp_all
  ultimately show ?thesis using heap_insert_duplicates_on_new_page [OF P(1,3) fl rm _ _ _ row] view by fastforce
qed

end
