(* ===== verification/Catalog_Codec.thy ===== *)
theory Catalog_Codec
  imports Table_Heap
begin

text \<open>
  The metadata that the catalog keeps in pages: \<^verbatim>\<open>TableMetadata\<close> (src/MiniSQL/src/catalog/table.cpp,
  include/catalog/table.h), \<^verbatim>\<open>IndexMetadata\<close> (catalog/indexes.cpp, include/catalog/indexes.h) and
  \<^verbatim>\<open>CatalogMeta\<close> (catalog/catalog.cpp, include/catalog/catalog.h). The three share one contract, the locale
  \<open>page_codec\<close>: what is serialised fits into a page and is read back from it. A \<^verbatim>\<open>std::map\<close> is an
  association list sorted by its keys, which is the order in which it is traversed.
\<close>

section \<open>The contract of a page codec\<close>

locale page_codec =
  fixes ok :: "'a \<Rightarrow> bool"
    and enc :: "'a \<Rightarrow> byte list res"
    and dec :: "mem \<Rightarrow> nat \<Rightarrow> 'a res"
  assumes roundtrip: "ok x \<Longrightarrow> \<exists>bs. enc x = Inr bs \<and> length bs \<le> PAGE_SIZE \<and> (\<forall>m a. holds m a bs \<longrightarrow> dec m a = Inr x)"
begin

text \<open>Storing a value at the start of a page keeps what lies behind the page and reads back.\<close>

lemma store_load:
  assumes "ok x"
  obtains bs where "enc x = Inr bs" and "dec (poke m 0 bs) 0 = Inr x" and "\<And>i. PAGE_SIZE \<le> i \<Longrightarrow> poke m 0 bs i = m i"
  using roundtrip [OF assms] by (metis holds_poke poke_outside add_0 order_trans)

lemma enc_inj: "ok x \<Longrightarrow> ok y \<Longrightarrow> enc x = enc y \<Longrightarrow> x = y"
  using roundtrip by (metis holds_poke sum.inject(2))

end

text \<open>A codec whose size function is exact.\<close>

locale sized_page_codec = page_codec +
  fixes size_of :: "'a \<Rightarrow> u32 res"
  assumes size_exact: "ok x \<Longrightarrow> enc x = Inr bs \<Longrightarrow> size_of x = Inr (word_of_nat (length bs))"
begin

lemma size_le_page: "ok x \<Longrightarrow> \<exists>n. size_of x = Inr n \<and> unat n \<le> PAGE_SIZE"
proof -
  assume ok: "ok x"
  then obtain bs where "enc x = Inr bs" "length bs \<le> PAGE_SIZE" using roundtrip by blast
  then show ?thesis using size_exact [OF ok] by (simp add: PAGE_SIZE_def)
qed

end

section \<open>Table metadata\<close>

record table_metadata =
  tm_table_id :: u32
  tm_table_name :: string
  tm_root_page_id :: page_id
  tm_schema :: schema

definition TABLE_METADATA_MAGIC_NUM :: u32 where
  "TABLE_METADATA_MAGIC_NUM = 344528"

definition TableMetadata_Create :: "u32 \<Rightarrow> string \<Rightarrow> page_id \<Rightarrow> schema \<Rightarrow> table_metadata" where
  "TableMetadata_Create table_id table_name root_page_id sch =
     \<lparr>tm_table_id = table_id, tm_table_name = table_name, tm_root_page_id = root_page_id, tm_schema = sch\<rparr>"

definition TableMetadata_GetSerializedSize :: "table_metadata \<Rightarrow> u32 res" where
  "TableMetadata_GetSerializedSize t =
     res_bind (Schema_GetSerializedSize (tm_schema t)) (\<lambda>n. Inr (2 * 4 + 4 + word_of_nat (length (tm_table_name t)) * 1 + 4 + n))"

definition TableMetadata_SerializeTo :: "table_metadata \<Rightarrow> byte list res" where
  "TableMetadata_SerializeTo t =
     res_bind (TableMetadata_GetSerializedSize t) (\<lambda>ofs.
     res_bind (ASSERT (unat ofs \<le> PAGE_SIZE)) (\<lambda>_.
     res_bind (Schema_SerializeTo (tm_schema t)) (\<lambda>sb.
       let bs = enc32 TABLE_METADATA_MAGIC_NUM @ enc32 (tm_table_id t) @ enc32 (word_of_nat (length (tm_table_name t))) @
                name_bytes (tm_table_name t) @ enc32 (word_of_int (tm_root_page_id t)) @ sb
       in res_bind (ASSERT (length bs = unat ofs)) (\<lambda>_. Inr bs))))"

definition TableMetadata_DeserializeFrom :: "mem \<Rightarrow> nat \<Rightarrow> (table_metadata \<times> nat) res" where
  "TableMetadata_DeserializeFrom m buf =
     res_bind (ASSERT (rd32 m buf = TABLE_METADATA_MAGIC_NUM)) (\<lambda>_.
       let table_id = rd32 m (buf + 4);
           len = unat (rd32 m (buf + 8));
           table_name = read_name m (buf + 12) len;
           root_page_id = sint (rd32 m (buf + 12 + len))
       in res_bind (Schema_DeserializeFrom m (buf + 12 + len + 4)) (\<lambda>(sch, k).
            Inr (TableMetadata_Create table_id table_name root_page_id sch, 12 + len + 4 + unat k)))"

definition table_metadata_ok :: "table_metadata \<Rightarrow> bool" where
  "table_metadata_ok t \<longleftrightarrow> schema_ok (tm_schema t) \<and> - (2 ^ 31) \<le> tm_root_page_id t \<and> tm_root_page_id t < 2 ^ 31 \<and>
     (\<exists>sb. Schema_SerializeTo (tm_schema t) = Inr sb \<and> 16 + length (tm_table_name t) + length sb \<le> PAGE_SIZE)"

lemma TableMetadata_codec:
  assumes ok: "table_metadata_ok t"
  obtains bs where "TableMetadata_SerializeTo t = Inr bs" and "length bs \<le> PAGE_SIZE"
    and "TableMetadata_GetSerializedSize t = Inr (word_of_nat (length bs))"
    and "\<forall>m a. holds m a bs \<longrightarrow> TableMetadata_DeserializeFrom m a = Inr (t, length bs)"
proof -
  have s: "schema_ok (tm_schema t)" using ok by (simp add: table_metadata_ok_def)
  obtain sb where B: "Schema_SerializeTo (tm_schema t) = Inr sb" "Schema_GetSerializedSize (tm_schema t) = Inr (word_of_nat (length sb))"
    "\<And>m a. holds m a sb \<Longrightarrow> Schema_DeserializeFrom m a = Inr (tm_schema t, word_of_nat (length sb))"
    using Schema_serialize_ok [OF s] by metis
  let ?n = "length (tm_table_name t)"
  have fits: "16 + ?n + length sb \<le> 4096" using ok B(1) by (auto simp: table_metadata_ok_def PAGE_SIZE_def)
  let ?bs = "enc32 TABLE_METADATA_MAGIC_NUM @ enc32 (tm_table_id t) @ enc32 (word_of_nat ?n) @
    name_bytes (tm_table_name t) @ enc32 (word_of_int (tm_root_page_id t)) @ sb"
  have size: "TableMetadata_GetSerializedSize t = Inr (word_of_nat (16 + ?n + length sb))"
    by (simp add: TableMetadata_GetSerializedSize_def B(2))
  have u: "unat (word_of_nat (16 + ?n + length sb) :: u32) = 16 + ?n + length sb" using fits by (intro unat_u32_of_nat) simp
  have ser: "TableMetadata_SerializeTo t = Inr ?bs"
    unfolding TableMetadata_SerializeTo_def size res_bind.simps u B(1) using fits by (simp add: PAGE_SIZE_def)
  have "TableMetadata_DeserializeFrom m a = Inr (t, length ?bs)" if h: "holds m a ?bs" for m a
  proof -
    have R: "rd32 m a = TABLE_METADATA_MAGIC_NUM" "rd32 m (a + 4) = tm_table_id t" "rd32 m (a + 8) = word_of_nat ?n"
      "holds m (a + 12) (name_bytes (tm_table_name t))" "rd32 m (a + 12 + ?n) = word_of_int (tm_root_page_id t)"
      "holds m (a + 12 + ?n + 4) sb"
      using h by (simp_all add: mem_simps ac_simps)
    have n: "unat (word_of_nat ?n :: u32) = ?n" "unat (word_of_nat (length sb) :: u32) = length sb"
      using fits by (auto intro: unat_u32_of_nat)
    show ?thesis
      using ok B(3) [OF R(6)] R(1) read_name_holds [OF R(4)]
      by (simp add: TableMetadata_DeserializeFrom_def R(2,3,5) n Let_def TableMetadata_Create_def table_metadata_ok_def sint_word_of_int_id)
  qed
  then show ?thesis using that [OF ser] size fits by (simp add: PAGE_SIZE_def)
qed

abbreviation load_table_metadata :: "mem \<Rightarrow> nat \<Rightarrow> table_metadata res" where
  "load_table_metadata m a \<equiv> res_bind (TableMetadata_DeserializeFrom m a) (\<lambda>(t, _). Inr t)"

interpretation tm: sized_page_codec table_metadata_ok TableMetadata_SerializeTo load_table_metadata TableMetadata_GetSerializedSize
proof unfold_locales
  fix t bs
  assume "table_metadata_ok t"
  then obtain bs' where B: "TableMetadata_SerializeTo t = Inr bs'" "length bs' \<le> PAGE_SIZE"
    "TableMetadata_GetSerializedSize t = Inr (word_of_nat (length bs'))"
    "\<forall>m a. holds m a bs' \<longrightarrow> TableMetadata_DeserializeFrom m a = Inr (t, length bs')" by (rule TableMetadata_codec)
  then show "\<exists>bs. TableMetadata_SerializeTo t = Inr bs \<and> length bs \<le> PAGE_SIZE \<and> (\<forall>m a. holds m a bs \<longrightarrow> load_table_metadata m a = Inr t)"
    by auto
  show "TableMetadata_GetSerializedSize t = Inr (word_of_nat (length bs))" if "TableMetadata_SerializeTo t = Inr bs"
    using that B by simp
qed

section \<open>Index metadata\<close>

record index_metadata =
  im_index_id :: u32
  im_index_name :: string
  im_table_id :: u32
  im_key_map :: "u32 list"

definition INDEX_METADATA_MAGIC_NUM :: u32 where
  "INDEX_METADATA_MAGIC_NUM = 344528"

definition IndexMetadata_Create :: "u32 \<Rightarrow> string \<Rightarrow> u32 \<Rightarrow> u32 list \<Rightarrow> index_metadata" where
  "IndexMetadata_Create index_id index_name table_id key_map =
     \<lparr>im_index_id = index_id, im_index_name = index_name, im_table_id = table_id, im_key_map = key_map\<rparr>"

definition IndexMetadata_GetSerializedSize :: "index_metadata \<Rightarrow> u32" where
  "IndexMetadata_GetSerializedSize x =
     4 + 4 + 4 + word_of_nat (length (im_index_name x)) * 1 + 4 + 4 + word_of_nat (length (im_key_map x)) * 4"

definition IndexMetadata_SerializeTo :: "index_metadata \<Rightarrow> byte list res" where
  "IndexMetadata_SerializeTo x =
     (let ofs = IndexMetadata_GetSerializedSize x in
      res_bind (ASSERT (unat ofs \<le> PAGE_SIZE)) (\<lambda>_.
        let bs = enc32 INDEX_METADATA_MAGIC_NUM @ enc32 (im_index_id x) @ enc32 (word_of_nat (length (im_index_name x))) @
                 name_bytes (im_index_name x) @ enc32 (im_table_id x) @ enc32 (word_of_nat (length (im_key_map x))) @
                 concat (map enc32 (im_key_map x))
        in res_bind (ASSERT (length bs = unat ofs)) (\<lambda>_. Inr bs)))"

primrec read_key_map :: "mem \<Rightarrow> nat \<Rightarrow> nat \<Rightarrow> u32 list" where
  "read_key_map m buf 0 = []"
| "read_key_map m buf (Suc n) = rd32 m buf # read_key_map m (buf + 4) n"

definition IndexMetadata_DeserializeFrom :: "mem \<Rightarrow> nat \<Rightarrow> (index_metadata \<times> nat) res" where
  "IndexMetadata_DeserializeFrom m buf =
     res_bind (ASSERT (rd32 m buf = INDEX_METADATA_MAGIC_NUM)) (\<lambda>_.
       let index_id = rd32 m (buf + 4);
           len = unat (rd32 m (buf + 8));
           index_name = read_name m (buf + 12) len;
           table_id = rd32 m (buf + 12 + len);
           index_key_count = unat (rd32 m (buf + 12 + len + 4));
           key_map = read_key_map m (buf + 12 + len + 8) index_key_count
       in Inr (IndexMetadata_Create index_id index_name table_id key_map, 12 + len + 8 + 4 * index_key_count))"

definition index_metadata_ok :: "index_metadata \<Rightarrow> bool" where
  "index_metadata_ok x \<longleftrightarrow> 20 + length (im_index_name x) + 4 * length (im_key_map x) \<le> PAGE_SIZE"

lemma length_concat_enc32 [simp]: "length (concat (map enc32 ws)) = 4 * length ws"
  by (induction ws) simp_all

lemma read_key_map_holds: "holds m a (concat (map enc32 ws)) \<Longrightarrow> read_key_map m a (length ws) = ws"
  by (induction ws arbitrary: a) (simp_all add: mem_simps)

lemma IndexMetadata_codec:
  assumes ok: "index_metadata_ok x"
  obtains bs where "IndexMetadata_SerializeTo x = Inr bs" and "length bs \<le> PAGE_SIZE"
    and "IndexMetadata_GetSerializedSize x = word_of_nat (length bs)"
    and "\<forall>m a. holds m a bs \<longrightarrow> IndexMetadata_DeserializeFrom m a = Inr (x, length bs)"
proof -
  let ?n = "length (im_index_name x)" and ?k = "length (im_key_map x)"
  have fits: "20 + ?n + 4 * ?k \<le> 4096" using ok by (simp add: index_metadata_ok_def PAGE_SIZE_def)
  let ?bs = "enc32 INDEX_METADATA_MAGIC_NUM @ enc32 (im_index_id x) @ enc32 (word_of_nat ?n) @ name_bytes (im_index_name x) @
    enc32 (im_table_id x) @ enc32 (word_of_nat ?k) @ concat (map enc32 (im_key_map x))"
  have size: "IndexMetadata_GetSerializedSize x = word_of_nat (20 + ?n + 4 * ?k)"
    by (simp add: IndexMetadata_GetSerializedSize_def)
  have u: "unat (word_of_nat (20 + ?n + 4 * ?k) :: u32) = 20 + ?n + 4 * ?k" using fits by (intro unat_u32_of_nat) simp
  have ser: "IndexMetadata_SerializeTo x = Inr ?bs"
    unfolding IndexMetadata_SerializeTo_def size Let_def u using fits by (simp add: PAGE_SIZE_def)
  have "IndexMetadata_DeserializeFrom m a = Inr (x, length ?bs)" if h: "holds m a ?bs" for m a
  proof -
    have R: "rd32 m a = INDEX_METADATA_MAGIC_NUM" "rd32 m (a + 4) = im_index_id x" "rd32 m (a + 8) = word_of_nat ?n"
      "holds m (a + 12) (name_bytes (im_index_name x))" "rd32 m (a + 12 + ?n) = im_table_id x"
      "rd32 m (a + 12 + ?n + 4) = word_of_nat ?k" "holds m (a + 12 + ?n + 8) (concat (map enc32 (im_key_map x)))"
      using h by (simp_all add: mem_simps ac_simps)
    have n: "unat (word_of_nat ?n :: u32) = ?n" "unat (word_of_nat ?k :: u32) = ?k"
      using fits by (auto intro: unat_u32_of_nat)
    show ?thesis
      unfolding IndexMetadata_DeserializeFrom_def R(1,2,3) Let_def n R(5,6) read_name_holds [OF R(4)] read_key_map_holds [OF R(7)]
      by (simp add: IndexMetadata_Create_def)
  qed
  then show ?thesis using that [OF ser] size fits by (simp add: PAGE_SIZE_def)
qed

abbreviation load_index_metadata :: "mem \<Rightarrow> nat \<Rightarrow> index_metadata res" where
  "load_index_metadata m a \<equiv> res_bind (IndexMetadata_DeserializeFrom m a) (\<lambda>(x, _). Inr x)"

interpretation im: sized_page_codec index_metadata_ok IndexMetadata_SerializeTo load_index_metadata
  "\<lambda>x. Inr (IndexMetadata_GetSerializedSize x)"
proof unfold_locales
  fix x bs
  assume "index_metadata_ok x"
  then obtain bs' where B: "IndexMetadata_SerializeTo x = Inr bs'" "length bs' \<le> PAGE_SIZE"
    "IndexMetadata_GetSerializedSize x = word_of_nat (length bs')"
    "\<forall>m a. holds m a bs' \<longrightarrow> IndexMetadata_DeserializeFrom m a = Inr (x, length bs')" by (rule IndexMetadata_codec)
  then show "\<exists>bs. IndexMetadata_SerializeTo x = Inr bs \<and> length bs \<le> PAGE_SIZE \<and> (\<forall>m a. holds m a bs \<longrightarrow> load_index_metadata m a = Inr x)"
    by auto
  show "Inr (IndexMetadata_GetSerializedSize x) = Inr (word_of_nat (length bs))" if "IndexMetadata_SerializeTo x = Inr bs"
    using that B by simp
qed

section \<open>Catalog metadata\<close>

text \<open>\<^verbatim>\<open>std::map\<close> with 32-bit keys: lookup is \<open>map_of\<close>.\<close>

type_synonym page_map = "(u32 \<times> page_id) list"

definition map_put :: "u32 \<Rightarrow> page_id \<Rightarrow> page_map \<Rightarrow> page_map" where
  "map_put k v xs = insort_key fst (k, v) (filter (\<lambda>x. fst x \<noteq> k) xs)"

definition map_emplace :: "u32 \<Rightarrow> page_id \<Rightarrow> page_map \<Rightarrow> page_map" where
  "map_emplace k v xs = (if k \<in> fst ` set xs then xs else insort_key fst (k, v) xs)"

definition map_erase :: "u32 \<Rightarrow> page_map \<Rightarrow> page_map" where
  "map_erase k xs = filter (\<lambda>x. fst x \<noteq> k) xs"

record catalog_meta =
  table_meta_pages :: page_map
  index_meta_pages :: page_map

definition CATALOG_METADATA_MAGIC_NUM :: u32 where
  "CATALOG_METADATA_MAGIC_NUM = 89849"

definition CatalogMeta_NewInstance :: catalog_meta where
  "CatalogMeta_NewInstance = \<lparr>table_meta_pages = [], index_meta_pages = []\<rparr>"

definition GetNextTableId :: "catalog_meta \<Rightarrow> u32" where
  "GetNextTableId c = (if length (table_meta_pages c) = 0 then 0 else fst (last (table_meta_pages c)))"

definition GetNextIndexId :: "catalog_meta \<Rightarrow> u32" where
  "GetNextIndexId c = (if length (index_meta_pages c) = 0 then 0 else fst (last (index_meta_pages c)))"

definition CatalogMeta_GetSerializedSize :: "catalog_meta \<Rightarrow> u32" where
  "CatalogMeta_GetSerializedSize c =
     4 + 2 * 8 + (4 + 4) * word_of_nat (length (table_meta_pages c)) + (4 + 4) * word_of_nat (length (index_meta_pages c))"

fun enc_pages :: "page_map \<Rightarrow> byte list" where
  "enc_pages [] = []"
| "enc_pages ((k, p) # xs) = enc32 k @ enc32 (word_of_int p) @ enc_pages xs"

definition CatalogMeta_SerializeTo :: "catalog_meta \<Rightarrow> byte list res" where
  "CatalogMeta_SerializeTo c =
     res_bind (ASSERT (unat (CatalogMeta_GetSerializedSize c) \<le> PAGE_SIZE)) (\<lambda>_.
       Inr (enc32 CATALOG_METADATA_MAGIC_NUM @ enc32 (word_of_nat (length (table_meta_pages c))) @
            enc32 (word_of_nat (length (index_meta_pages c))) @ enc_pages (table_meta_pages c) @ enc_pages (index_meta_pages c)))"

primrec read_pages :: "mem \<Rightarrow> nat \<Rightarrow> nat \<Rightarrow> page_map \<Rightarrow> page_map" where
  "read_pages m buf 0 acc = acc"
| "read_pages m buf (Suc n) acc = read_pages m (buf + 8) n (map_emplace (rd32 m buf) (sint (rd32 m (buf + 4))) acc)"

definition CatalogMeta_DeserializeFrom :: "mem \<Rightarrow> nat \<Rightarrow> catalog_meta res" where
  "CatalogMeta_DeserializeFrom m buf =
     res_bind (ASSERT (rd32 m buf = CATALOG_METADATA_MAGIC_NUM)) (\<lambda>_.
       let table_nums = unat (rd32 m (buf + 4)); index_nums = unat (rd32 m (buf + 8))
       in Inr \<lparr>table_meta_pages = read_pages m (buf + 12) table_nums [],
               index_meta_pages = read_pages m (buf + 12 + 8 * table_nums) index_nums []\<rparr>)"

definition page_map_ok :: "page_map \<Rightarrow> bool" where
  "page_map_ok xs \<longleftrightarrow> sorted_wrt (<) (map fst xs) \<and> (\<forall>p \<in> snd ` set xs. - (2 ^ 31) \<le> p \<and> p < 2 ^ 31)"

definition catalog_meta_ok :: "catalog_meta \<Rightarrow> bool" where
  "catalog_meta_ok c \<longleftrightarrow> page_map_ok (table_meta_pages c) \<and> page_map_ok (index_meta_pages c) \<and>
     20 + 8 * length (table_meta_pages c) + 8 * length (index_meta_pages c) \<le> PAGE_SIZE"

lemma length_enc_pages [simp]: "length (enc_pages xs) = 8 * length xs"
  by (induction xs rule: enc_pages.induct) simp_all

lemma insort_key_last:
  "\<forall>x \<in> set xs. fst x < k \<Longrightarrow> insort_key fst (k, v) xs = xs @ [(k, v)]" for k :: u32
  by (induction xs) (auto simp: leD)

lemma read_pages_holds:
  assumes "holds m a (enc_pages xs)" and "page_map_ok (acc @ xs)"
  shows "read_pages m a (length xs) acc = acc @ xs"
  using assms
proof (induction xs arbitrary: a acc)
  case (Cons x xs)
  obtain k p where x: "x = (k, p)" by (cases x)
  have R: "rd32 m a = k" "rd32 m (a + 4) = word_of_int p" "holds m (a + 8) (enc_pages xs)"
    using Cons.prems(1) by (simp_all add: x mem_simps ac_simps)
  have lt: "\<forall>y \<in> set acc. fst y < k" using Cons.prems(2) by (auto simp: page_map_ok_def sorted_wrt_append x)
  have p: "- (2 ^ 31) \<le> p" "p < 2 ^ 31" using Cons.prems(2) by (auto simp: page_map_ok_def x)
  have "map_emplace k p acc = acc @ [(k, p)]"
    using lt insort_key_last [OF lt] by (auto simp: map_emplace_def)
  then show ?case using Cons.IH [OF R(3), of "acc @ [(k, p)]"] Cons.prems(2) p by (simp add: R x sint_word_of_int_id)
qed simp

lemma CatalogMeta_codec:
  assumes ok: "catalog_meta_ok c"
  obtains bs where "CatalogMeta_SerializeTo c = Inr bs" and "length bs \<le> PAGE_SIZE"
    and "CatalogMeta_GetSerializedSize c = word_of_nat (length bs + 8)"
    and "\<forall>m a. holds m a bs \<longrightarrow> CatalogMeta_DeserializeFrom m a = Inr c"
proof -
  let ?n = "length (table_meta_pages c)" and ?k = "length (index_meta_pages c)"
  have fits: "20 + 8 * ?n + 8 * ?k \<le> 4096" using ok by (simp add: catalog_meta_ok_def PAGE_SIZE_def)
  let ?bs = "enc32 CATALOG_METADATA_MAGIC_NUM @ enc32 (word_of_nat ?n) @ enc32 (word_of_nat ?k) @
    enc_pages (table_meta_pages c) @ enc_pages (index_meta_pages c)"
  have size: "CatalogMeta_GetSerializedSize c = word_of_nat (20 + 8 * ?n + 8 * ?k)"
    by (simp add: CatalogMeta_GetSerializedSize_def)
  have u: "unat (word_of_nat (20 + 8 * ?n + 8 * ?k) :: u32) = 20 + 8 * ?n + 8 * ?k" using fits by (intro unat_u32_of_nat) simp
  have ser: "CatalogMeta_SerializeTo c = Inr ?bs"
    unfolding CatalogMeta_SerializeTo_def size u using fits by (simp add: PAGE_SIZE_def)
  have "CatalogMeta_DeserializeFrom m a = Inr c" if h: "holds m a ?bs" for m a
  proof -
    have R: "rd32 m a = CATALOG_METADATA_MAGIC_NUM" "rd32 m (a + 4) = word_of_nat ?n" "rd32 m (a + 8) = word_of_nat ?k"
      "holds m (a + 12) (enc_pages (table_meta_pages c))" "holds m (a + 12 + 8 * ?n) (enc_pages (index_meta_pages c))"
      using h by (simp_all add: mem_simps ac_simps)
    have n: "unat (word_of_nat ?n :: u32) = ?n" "unat (word_of_nat ?k :: u32) = ?k"
      using fits by (auto intro: unat_u32_of_nat)
    show ?thesis
      using R(1) read_pages_holds [OF R(4), of "[]"] read_pages_holds [OF R(5), of "[]"] ok
      by (simp add: CatalogMeta_DeserializeFrom_def R(2,3) n Let_def catalog_meta_ok_def)
  qed
  moreover have "length ?bs + 8 = 20 + 8 * ?n + 8 * ?k" by simp
  ultimately show ?thesis using that [OF ser] size fits by (simp add: PAGE_SIZE_def)
qed

interpretation cm: page_codec catalog_meta_ok CatalogMeta_SerializeTo CatalogMeta_DeserializeFrom
  by unfold_locales (metis CatalogMeta_codec)

section \<open>Properties\<close>

text \<open>
  C29. Catalog metadata survives its page: table metadata, index metadata and the catalog meta record
  that fit into a page are written without failing an assertion, and reading the page back yields the
  same values. The size functions of the first two are exact; that of the catalog meta record is 8 bytes
  larger than what it writes.
\<close>

theorem metadata_page_roundtrip:
  assumes "table_metadata_ok t" and "index_metadata_ok x" and "catalog_meta_ok c"
  shows "\<exists>bt bx bc. TableMetadata_SerializeTo t = Inr bt \<and> TableMetadata_DeserializeFrom (poke m 0 bt) 0 = Inr (t, length bt) \<and>
      TableMetadata_GetSerializedSize t = Inr (word_of_nat (length bt)) \<and>
    IndexMetadata_SerializeTo x = Inr bx \<and> IndexMetadata_DeserializeFrom (poke m 0 bx) 0 = Inr (x, length bx) \<and>
      IndexMetadata_GetSerializedSize x = word_of_nat (length bx) \<and>
    CatalogMeta_SerializeTo c = Inr bc \<and> CatalogMeta_DeserializeFrom (poke m 0 bc) 0 = Inr c \<and>
      CatalogMeta_GetSerializedSize c = word_of_nat (length bc + 8)"
  using TableMetadata_codec [OF assms(1)] IndexMetadata_codec [OF assms(2)] CatalogMeta_codec [OF assms(3)] holds_poke
  by (metis (no_types, lifting))

definition example_table_metadata :: table_metadata where
  "example_table_metadata = TableMetadata_Create 0 ''t'' 7 example_schema"

lemma example_table_metadata_ok: "table_metadata_ok example_table_metadata"
  using example_schema_ok
  by (simp add: table_metadata_ok_def example_table_metadata_def TableMetadata_Create_def)
    (simp add: example_schema_def Schema_SerializeTo_def PAGE_SIZE_def)

theorem metadata_page_roundtrip_witness:
  "\<exists>bt. TableMetadata_SerializeTo example_table_metadata = Inr bt \<and>
     TableMetadata_DeserializeFrom (poke zero_mem 0 bt) 0 = Inr (example_table_metadata, length bt)"
proof -
  have "index_metadata_ok (IndexMetadata_Create 3 ''i'' 0 [0, 1])"
    by (simp add: index_metadata_ok_def IndexMetadata_Create_def PAGE_SIZE_def)
  moreover have "catalog_meta_ok \<lparr>table_meta_pages = [(0, 5), (2, 9)], index_meta_pages = [(3, 11)]\<rparr>"
    by (simp add: catalog_meta_ok_def page_map_ok_def PAGE_SIZE_def)
  ultimately show ?thesis using metadata_page_roundtrip [OF example_table_metadata_ok] by blast
qed

end
