(* ===== verification/Tree_Page.thy ===== *)
theory Tree_Page
  imports Row_Codec Root_Directory
begin

text \<open>
  The pages of the B+ tree: src/MiniSQL/src/include/page/b_plus_tree_page.h, b_plus_tree_internal_page.h,
  b_plus_tree_leaf_page.h and the page/*.cpp files of the same names, over the bytes of the page. The
  header accessors and the access to the key/value pairs are implemented; the search, insertion, split
  and merge operations of the repository are placeholders that return at once, and are modelled as what
  they are. The pair accessors of both pages are instances of \<open>pair_page\<close>.
\<close>

section \<open>The common header\<close>

datatype index_page_type = INVALID_INDEX_PAGE | LEAF_PAGE | INTERNAL_PAGE

definition IsLeafPage :: "mem \<Rightarrow> bool" where
  "IsLeafPage m = False"

definition IsRootPage :: "mem \<Rightarrow> bool" where
  "IsRootPage m = False"

definition SetPageType :: "mem \<Rightarrow> index_page_type \<Rightarrow> mem" where
  "SetPageType m page_type = m"

definition GetKeySize :: "mem \<Rightarrow> int" where
  "GetKeySize m = sint (rd32 m 4)"

definition SetKeySize :: "mem \<Rightarrow> int \<Rightarrow> mem" where
  "SetKeySize m n = wr32 m 4 (word_of_int n)"

definition GetSize :: "mem \<Rightarrow> int" where
  "GetSize m = sint (rd32 m 12)"

definition SetSize :: "mem \<Rightarrow> int \<Rightarrow> mem" where
  "SetSize m n = wr32 m 12 (word_of_int n)"

definition IncreaseSize :: "mem \<Rightarrow> int \<Rightarrow> mem" where
  "IncreaseSize m amount = wr32 m 12 (rd32 m 12 + word_of_int amount)"

definition GetMaxSize :: "mem \<Rightarrow> int" where
  "GetMaxSize m = 0"

definition SetMaxSize :: "mem \<Rightarrow> int \<Rightarrow> mem" where
  "SetMaxSize m n = m"

definition GetMinSize :: "mem \<Rightarrow> int" where
  "GetMinSize m = 0"

definition GetParentPageId :: "mem \<Rightarrow> page_id" where
  "GetParentPageId m = INVALID_PAGE_ID"

definition SetParentPageId :: "mem \<Rightarrow> page_id \<Rightarrow> mem" where
  "SetParentPageId m p = wr32 m 20 (word_of_int p)"

definition TreePage_GetPageId :: "mem \<Rightarrow> page_id" where
  "TreePage_GetPageId m = sint (rd32 m 24)"

definition TreePage_SetPageId :: "mem \<Rightarrow> page_id \<Rightarrow> mem" where
  "TreePage_SetPageId m p = wr32 m 24 (word_of_int p)"

definition TreePage_SetLSN :: "mem \<Rightarrow> int \<Rightarrow> mem" where
  "TreePage_SetLSN m lsn = wr32 m 8 (word_of_int lsn)"

section \<open>Internal pages\<close>

text \<open>The array \<^verbatim>\<open>data_\<close> starts behind the header, at byte 28; the pairs start another header size behind that.\<close>

definition INTERNAL_PAGE_HEADER_SIZE :: nat where
  "INTERNAL_PAGE_HEADER_SIZE = 28"

definition internal_pair_at :: "mem \<Rightarrow> nat \<Rightarrow> nat" where
  "internal_pair_at m index = 28 + INTERNAL_PAGE_HEADER_SIZE + index * (nat (GetKeySize m) + 4)"

definition InternalPage_Init :: "mem \<Rightarrow> page_id \<Rightarrow> page_id \<Rightarrow> int \<Rightarrow> int \<Rightarrow> mem" where
  "InternalPage_Init m page_id parent_id key_size max_size = m"

definition InternalPage_KeyAt :: "mem \<Rightarrow> nat \<Rightarrow> byte list" where
  "InternalPage_KeyAt m index = peek m (internal_pair_at m index) (nat (GetKeySize m))"

definition InternalPage_SetKeyAt :: "mem \<Rightarrow> nat \<Rightarrow> byte list \<Rightarrow> mem" where
  "InternalPage_SetKeyAt m index key = poke m (internal_pair_at m index) (take (nat (GetKeySize m)) key)"

definition InternalPage_ValueAt :: "mem \<Rightarrow> nat \<Rightarrow> page_id" where
  "InternalPage_ValueAt m index = sint (rd32 m (internal_pair_at m index + nat (GetKeySize m)))"

definition InternalPage_SetValueAt :: "mem \<Rightarrow> nat \<Rightarrow> page_id \<Rightarrow> mem" where
  "InternalPage_SetValueAt m index v = wr32 m (internal_pair_at m index + nat (GetKeySize m)) (word_of_int v)"

definition InternalPage_ValueIndex :: "mem \<Rightarrow> page_id \<Rightarrow> int" where
  "InternalPage_ValueIndex m v = find_first (\<lambda>i. InternalPage_ValueAt m i = v) [0..<nat (GetSize m)]"

definition InternalPage_PairCopy :: "mem \<Rightarrow> nat \<Rightarrow> nat \<Rightarrow> nat \<Rightarrow> mem" where
  "InternalPage_PairCopy m dest src pair_num = memmove m dest src (pair_num * (nat (GetKeySize m) + 4))"

definition InternalPage_Lookup :: "mem \<Rightarrow> byte list \<Rightarrow> page_id" where
  "InternalPage_Lookup m key = INVALID_PAGE_ID"

definition InternalPage_InsertNodeAfter :: "mem \<Rightarrow> page_id \<Rightarrow> byte list \<Rightarrow> page_id \<Rightarrow> int \<times> mem" where
  "InternalPage_InsertNodeAfter m old_value new_key new_value = (0, m)"

definition InternalPage_RemoveAndReturnOnlyChild :: "mem \<Rightarrow> page_id \<times> mem" where
  "InternalPage_RemoveAndReturnOnlyChild m = (0, m)"

definition InternalPage_PairPtrAt :: "mem \<Rightarrow> nat \<Rightarrow> nat" where
  "InternalPage_PairPtrAt m index = internal_pair_at m index"

text \<open>The operations that move pairs between pages are placeholders: both pages stay as they are.\<close>

definition InternalPage_PopulateNewRoot :: "mem \<Rightarrow> page_id \<Rightarrow> byte list \<Rightarrow> page_id \<Rightarrow> mem" where
  "InternalPage_PopulateNewRoot m old_value new_key new_value = m"

definition InternalPage_MoveHalfTo :: "mem \<Rightarrow> mem \<Rightarrow> mem \<times> mem" where
  "InternalPage_MoveHalfTo m recipient = (m, recipient)"

definition InternalPage_CopyNFrom :: "mem \<Rightarrow> byte list \<Rightarrow> int \<Rightarrow> mem" where
  "InternalPage_CopyNFrom m src n = m"

definition InternalPage_Remove :: "mem \<Rightarrow> nat \<Rightarrow> mem" where
  "InternalPage_Remove m index = m"

definition InternalPage_MoveAllTo :: "mem \<Rightarrow> mem \<Rightarrow> byte list \<Rightarrow> mem \<times> mem" where
  "InternalPage_MoveAllTo m recipient middle_key = (m, recipient)"

definition InternalPage_MoveFirstToEndOf :: "mem \<Rightarrow> mem \<Rightarrow> byte list \<Rightarrow> mem \<times> mem" where
  "InternalPage_MoveFirstToEndOf m recipient middle_key = (m, recipient)"

definition InternalPage_CopyLastFrom :: "mem \<Rightarrow> byte list \<Rightarrow> page_id \<Rightarrow> mem" where
  "InternalPage_CopyLastFrom m key value = m"

definition InternalPage_MoveLastToFrontOf :: "mem \<Rightarrow> mem \<Rightarrow> byte list \<Rightarrow> mem \<times> mem" where
  "InternalPage_MoveLastToFrontOf m recipient middle_key = (m, recipient)"

definition InternalPage_CopyFirstFrom :: "mem \<Rightarrow> page_id \<Rightarrow> mem" where
  "InternalPage_CopyFirstFrom m value = m"

section \<open>Leaf pages\<close>

definition LEAF_PAGE_HEADER_SIZE :: nat where
  "LEAF_PAGE_HEADER_SIZE = 32"

definition leaf_pair_at :: "mem \<Rightarrow> nat \<Rightarrow> nat" where
  "leaf_pair_at m index = 32 + LEAF_PAGE_HEADER_SIZE + index * (nat (GetKeySize m) + 8)"

definition LeafPage_Init :: "mem \<Rightarrow> page_id \<Rightarrow> page_id \<Rightarrow> int \<Rightarrow> int \<Rightarrow> mem" where
  "LeafPage_Init m page_id parent_id key_size max_size = m"

definition LeafPage_GetNextPageId :: "mem \<Rightarrow> page_id" where
  "LeafPage_GetNextPageId m = sint (rd32 m 28)"

definition LeafPage_SetNextPageId :: "mem \<Rightarrow> page_id \<Rightarrow> mem" where
  "LeafPage_SetNextPageId m p = wr32 m 28 (word_of_int p)"

definition LeafPage_KeyIndex :: "mem \<Rightarrow> byte list \<Rightarrow> int" where
  "LeafPage_KeyIndex m key = 0"

definition LeafPage_KeyAt :: "mem \<Rightarrow> nat \<Rightarrow> byte list" where
  "LeafPage_KeyAt m index = peek m (leaf_pair_at m index) (nat (GetKeySize m))"

definition LeafPage_SetKeyAt :: "mem \<Rightarrow> nat \<Rightarrow> byte list \<Rightarrow> mem" where
  "LeafPage_SetKeyAt m index key = poke m (leaf_pair_at m index) (take (nat (GetKeySize m)) key)"

definition LeafPage_ValueAt :: "mem \<Rightarrow> nat \<Rightarrow> rowid" where
  "LeafPage_ValueAt m index = RowId_read m (leaf_pair_at m index + nat (GetKeySize m))"

definition LeafPage_SetValueAt :: "mem \<Rightarrow> nat \<Rightarrow> rowid \<Rightarrow> mem" where
  "LeafPage_SetValueAt m index v = poke m (leaf_pair_at m index + nat (GetKeySize m)) (RowId_bytes v)"

definition LeafPage_PairCopy :: "mem \<Rightarrow> nat \<Rightarrow> nat \<Rightarrow> nat \<Rightarrow> mem" where
  "LeafPage_PairCopy m dest src pair_num = memmove m dest src (pair_num * (nat (GetKeySize m) + 8))"

definition LeafPage_GetItem :: "mem \<Rightarrow> nat \<Rightarrow> byte list option \<times> rowid" where
  "LeafPage_GetItem m index = (None, RowId INVALID_PAGE_ID 0)"

definition LeafPage_Insert :: "mem \<Rightarrow> byte list \<Rightarrow> rowid \<Rightarrow> int \<times> mem" where
  "LeafPage_Insert m key v = (0, m)"

definition LeafPage_Lookup :: "mem \<Rightarrow> byte list \<Rightarrow> rowid option" where
  "LeafPage_Lookup m key = None"

definition LeafPage_RemoveAndDeleteRecord :: "mem \<Rightarrow> byte list \<Rightarrow> int \<times> mem" where
  "LeafPage_RemoveAndDeleteRecord m key = (- 1, m)"

definition LeafPage_PairPtrAt :: "mem \<Rightarrow> nat \<Rightarrow> nat" where
  "LeafPage_PairPtrAt m index = leaf_pair_at m index"

definition LeafPage_MoveHalfTo :: "mem \<Rightarrow> mem \<Rightarrow> mem \<times> mem" where
  "LeafPage_MoveHalfTo m recipient = (m, recipient)"

definition LeafPage_CopyNFrom :: "mem \<Rightarrow> byte list \<Rightarrow> int \<Rightarrow> mem" where
  "LeafPage_CopyNFrom m src n = m"

definition LeafPage_MoveAllTo :: "mem \<Rightarrow> mem \<Rightarrow> mem \<times> mem" where
  "LeafPage_MoveAllTo m recipient = (m, recipient)"

definition LeafPage_MoveFirstToEndOf :: "mem \<Rightarrow> mem \<Rightarrow> mem \<times> mem" where
  "LeafPage_MoveFirstToEndOf m recipient = (m, recipient)"

definition LeafPage_CopyLastFrom :: "mem \<Rightarrow> byte list \<Rightarrow> rowid \<Rightarrow> mem" where
  "LeafPage_CopyLastFrom m key value = m"

definition LeafPage_MoveLastToFrontOf :: "mem \<Rightarrow> mem \<Rightarrow> mem \<times> mem" where
  "LeafPage_MoveLastToFrontOf m recipient = (m, recipient)"

definition LeafPage_CopyFirstFrom :: "mem \<Rightarrow> byte list \<Rightarrow> rowid \<Rightarrow> mem" where
  "LeafPage_CopyFirstFrom m key value = m"

section \<open>Pairs on a page\<close>

primrec store_pairs :: "(mem \<Rightarrow> nat \<Rightarrow> byte list \<Rightarrow> mem) \<Rightarrow> (mem \<Rightarrow> nat \<Rightarrow> 'v \<Rightarrow> mem) \<Rightarrow> nat \<Rightarrow> (byte list \<times> 'v) list \<Rightarrow> mem \<Rightarrow> mem" where
  "store_pairs set_key set_val i [] m = m"
| "store_pairs set_key set_val i (x # xs) m =
     store_pairs set_key set_val (Suc i) xs (set_val (set_key m i (fst x)) i (snd x))"

locale pair_page =
  fixes key_at :: "mem \<Rightarrow> nat \<Rightarrow> byte list"
    and set_key :: "mem \<Rightarrow> nat \<Rightarrow> byte list \<Rightarrow> mem"
    and val_at :: "mem \<Rightarrow> nat \<Rightarrow> 'v"
    and set_val :: "mem \<Rightarrow> nat \<Rightarrow> 'v \<Rightarrow> mem"
    and val_ok :: "'v \<Rightarrow> bool"
    and pairs_start :: nat
  assumes set_key_key: "length k = nat (GetKeySize m) \<Longrightarrow> key_at (set_key m i k) j = (if j = i then k else key_at m j)"
    and set_key_val: "length k = nat (GetKeySize m) \<Longrightarrow> val_at (set_key m i k) j = val_at m j"
    and set_val_val: "val_ok v \<Longrightarrow> val_at (set_val m i v) j = (if j = i then v else val_at m j)"
    and set_val_key: "key_at (set_val m i v) j = key_at m j"
    and header_kept: "a < pairs_start \<Longrightarrow> set_key m i k a = m a" "a < pairs_start \<Longrightarrow> set_val m i v a = m a"
    and header_size: "28 \<le> pairs_start"
begin

lemma key_size_kept: "GetKeySize (set_key m i k) = GetKeySize m" "GetKeySize (set_val m i v) = GetKeySize m"
  using header_size unfolding GetKeySize_def by (intro arg_cong [where f = sint] rd32_cong, simp add: header_kept)+

lemma store_header: "a < pairs_start \<Longrightarrow> store_pairs set_key set_val i xs m a = m a"
  by (induction xs arbitrary: i m) (simp_all add: header_kept)

lemma store_other:
  assumes "\<forall>x \<in> set xs. length (fst x) = nat (GetKeySize m) \<and> val_ok (snd x)" and "j < i \<or> i + length xs \<le> j"
  shows "key_at (store_pairs set_key set_val i xs m) j = key_at m j \<and> val_at (store_pairs set_key set_val i xs m) j = val_at m j"
  using assms
proof (induction xs arbitrary: i m)
  case (Cons x xs)
  let ?m = "set_val (set_key m i (fst x)) i (snd x)"
  have ks: "GetKeySize ?m = GetKeySize m" by (simp add: key_size_kept)
  have "key_at ?m j = key_at m j" "val_at ?m j = val_at m j"
    using Cons.prems by (auto simp: set_val_key set_key_key set_val_val set_key_val)
  then show ?case using Cons.IH [of ?m "Suc i"] Cons.prems ks by auto
qed simp

lemma store_read:
  assumes "\<forall>x \<in> set xs. length (fst x) = nat (GetKeySize m) \<and> val_ok (snd x)" and "j < length xs"
  shows "key_at (store_pairs set_key set_val i xs m) (i + j) = fst (xs ! j) \<and> val_at (store_pairs set_key set_val i xs m) (i + j) = snd (xs ! j)"
  using assms
proof (induction xs arbitrary: i j m)
  case (Cons x xs)
  let ?m = "set_val (set_key m i (fst x)) i (snd x)"
  have ks: "GetKeySize ?m = GetKeySize m" by (simp add: key_size_kept)
  show ?case
  proof (cases j)
    case 0
    have "key_at ?m i = fst x" "val_at ?m i = snd x" using Cons.prems by (simp_all add: set_val_key set_key_key set_val_val)
    then show ?thesis using store_other [of xs ?m i "Suc i"] Cons.prems ks 0 by simp
  next
    case (Suc l)
    then show ?thesis using Cons.IH [of ?m l "Suc i"] Cons.prems ks by simp
  qed
qed simp

end

lemma slots_disjoint: "i \<noteq> j \<Longrightarrow> i < j \<and> i * w + w \<le> j * w \<or> j < i \<and> j * w + w \<le> i * (w :: nat)"
proof -
  assume "i \<noteq> j"
  then have "i < j \<or> j < i" by linarith
  moreover have "i * w + w \<le> j * w" if "i < j" for i j using mult_le_mono1 [of "Suc i" j w] that by (simp add: add.commute)
  ultimately show ?thesis by blast
qed

lemma key_size_poke: "28 \<le> a \<Longrightarrow> GetKeySize (poke m a bs) = GetKeySize m"
  by (simp add: GetKeySize_def mem_simps)

definition page_ref_ok :: "page_id \<Rightarrow> bool" where
  "page_ref_ok v \<longleftrightarrow> - (2 ^ 31) \<le> v \<and> v < 2 ^ 31"

interpretation int_page: pair_page InternalPage_KeyAt InternalPage_SetKeyAt InternalPage_ValueAt InternalPage_SetValueAt page_ref_ok 56
proof unfold_locales
  fix m i j a and k :: "byte list" and v
  let ?n = "nat (GetKeySize m)"
  have at: "internal_pair_at m i = 56 + i * (?n + 4)" for i by (simp add: internal_pair_at_def INTERNAL_PAGE_HEADER_SIZE_def)
  have ks: "GetKeySize (poke m (internal_pair_at m i + d) bs) = GetKeySize m" for d bs by (rule key_size_poke) (simp add: at)
  then have at': "internal_pair_at (poke m (internal_pair_at m i + d) bs) j = internal_pair_at m j" for d bs
    by (simp add: internal_pair_at_def)
  note D = slots_disjoint [of i j "?n + 4"]
  show "(28 :: nat) \<le> 56" by simp
  show "a < 56 \<Longrightarrow> InternalPage_SetKeyAt m i k a = m a" by (simp add: InternalPage_SetKeyAt_def at mem_simps)
  show "a < 56 \<Longrightarrow> InternalPage_SetValueAt m i v a = m a" by (simp add: InternalPage_SetValueAt_def at mem_simps)
  show "InternalPage_KeyAt (InternalPage_SetValueAt m i v) j = InternalPage_KeyAt m j"
    unfolding InternalPage_KeyAt_def InternalPage_SetValueAt_def wr32_def at' ks
    by (rule peek_poke_disjoint) (use D in \<open>cases "i = j", auto simp: at\<close>)
  show "InternalPage_ValueAt (InternalPage_SetValueAt m i v) j = (if j = i then v else InternalPage_ValueAt m j)" if "page_ref_ok v"
  proof (cases "j = i")
    case True
    then show ?thesis using that at' [of ?n "enc32 (word_of_int v)"] ks [of ?n "enc32 (word_of_int v)"]
      by (simp add: InternalPage_ValueAt_def InternalPage_SetValueAt_def wr32_def [symmetric] mem_simps sint_word_of_int_id page_ref_ok_def)
  next
    case False
    then have "rd32 (wr32 m (internal_pair_at m i + ?n) (word_of_int v)) (internal_pair_at m j + ?n) = rd32 m (internal_pair_at m j + ?n)"
      by (intro rd32_wr32_disjoint) (use D in \<open>auto simp: at\<close>)
    then show ?thesis using False at' [of ?n "enc32 (word_of_int v)"] ks [of ?n "enc32 (word_of_int v)"]
      by (simp add: InternalPage_ValueAt_def InternalPage_SetValueAt_def wr32_def)
  qed
  assume k: "length k = ?n"
  note at0 = at' [of 0, simplified] and ks0 = ks [of 0, simplified]
  show "InternalPage_ValueAt (InternalPage_SetKeyAt m i k) j = InternalPage_ValueAt m j"
    unfolding InternalPage_ValueAt_def InternalPage_SetKeyAt_def at0 ks0
    by (rule arg_cong [where f = sint], rule rd32_poke_disjoint) (use D k in \<open>cases "i = j", auto simp: at\<close>)
  show "InternalPage_KeyAt (InternalPage_SetKeyAt m i k) j = (if j = i then k else InternalPage_KeyAt m j)"
    unfolding InternalPage_KeyAt_def InternalPage_SetKeyAt_def at0 ks0
    using D k by (cases "j = i") (auto simp: at mem_simps)
qed

interpretation leaf_page: pair_page LeafPage_KeyAt LeafPage_SetKeyAt LeafPage_ValueAt LeafPage_SetValueAt rowid_ok 64
proof unfold_locales
  fix m i j a and k :: "byte list" and v
  let ?n = "nat (GetKeySize m)"
  have at: "leaf_pair_at m i = 64 + i * (?n + 8)" for i by (simp add: leaf_pair_at_def LEAF_PAGE_HEADER_SIZE_def)
  have ks: "GetKeySize (poke m (leaf_pair_at m i + d) bs) = GetKeySize m" for d bs by (rule key_size_poke) (simp add: at)
  then have at': "leaf_pair_at (poke m (leaf_pair_at m i + d) bs) j = leaf_pair_at m j" for d bs
    by (simp add: leaf_pair_at_def)
  note D = slots_disjoint [of i j "?n + 8"] and at0 = at' [of 0, simplified] and ks0 = ks [of 0, simplified]
  show "(28 :: nat) \<le> 64" by simp
  have rd: "RowId_read (poke m b bs) c = RowId_read m c" if "c + 8 \<le> b \<or> b + length bs \<le> c" for b c bs
    using that by (auto simp: RowId_read_def mem_simps)
  show "a < 64 \<Longrightarrow> LeafPage_SetKeyAt m i k a = m a" by (simp add: LeafPage_SetKeyAt_def at mem_simps)
  show "a < 64 \<Longrightarrow> LeafPage_SetValueAt m i v a = m a" by (simp add: LeafPage_SetValueAt_def at mem_simps)
  show "LeafPage_KeyAt (LeafPage_SetValueAt m i v) j = LeafPage_KeyAt m j"
    unfolding LeafPage_KeyAt_def LeafPage_SetValueAt_def at' ks
    by (rule peek_poke_disjoint) (use D in \<open>cases "i = j", auto simp: at\<close>)
  show "LeafPage_ValueAt (LeafPage_SetValueAt m i v) j = (if j = i then v else LeafPage_ValueAt m j)" if "rowid_ok v"
    unfolding LeafPage_ValueAt_def LeafPage_SetValueAt_def at' ks
    using that D RowId_read_holds [OF that holds_poke] by (cases "j = i") (auto simp: at intro!: rd)
  assume k: "length k = ?n"
  show "LeafPage_ValueAt (LeafPage_SetKeyAt m i k) j = LeafPage_ValueAt m j"
    unfolding LeafPage_ValueAt_def LeafPage_SetKeyAt_def at0 ks0
    by (rule rd) (use D k in \<open>cases "i = j", auto simp: at\<close>)
  show "LeafPage_KeyAt (LeafPage_SetKeyAt m i k) j = (if j = i then k else LeafPage_KeyAt m j)"
    unfolding LeafPage_KeyAt_def LeafPage_SetKeyAt_def at0 ks0
    using D k by (cases "j = i") (auto simp: at mem_simps)
qed

section \<open>Properties\<close>

text \<open>
  C30. Key/value pairs on B+ tree pages: writing a list of pairs, with keys of the page's key size, by \<^verbatim>\<open>SetKeyAt\<close>
  and \<^verbatim>\<open>SetValueAt\<close> from index 0 on, on an internal or a leaf page, leaves exactly these pairs to \<^verbatim>\<open>KeyAt\<close> and
  \<^verbatim>\<open>ValueAt\<close>, keeps the pairs behind them and every byte in front of the pairs, so all fields of the header, and on
  an internal page that has as many pairs \<^verbatim>\<open>ValueIndex\<close> returns the first index of a child or -1.
\<close>

theorem tree_page_pairs:
  assumes "\<forall>x \<in> set xs. length (fst x) = nat (GetKeySize m) \<and> page_ref_ok (snd x)"
    and "\<forall>y \<in> set ys. length (fst y) = nat (GetKeySize m) \<and> rowid_ok (snd y)"
  defines "mi \<equiv> store_pairs InternalPage_SetKeyAt InternalPage_SetValueAt 0 xs m"
    and "ml \<equiv> store_pairs LeafPage_SetKeyAt LeafPage_SetValueAt 0 ys m"
  shows "(\<forall>i < length xs. InternalPage_KeyAt mi i = fst (xs ! i) \<and> InternalPage_ValueAt mi i = snd (xs ! i)) \<and>
    (\<forall>i \<ge> length xs. InternalPage_KeyAt mi i = InternalPage_KeyAt m i \<and> InternalPage_ValueAt mi i = InternalPage_ValueAt m i) \<and>
    (\<forall>i < length ys. LeafPage_KeyAt ml i = fst (ys ! i) \<and> LeafPage_ValueAt ml i = snd (ys ! i)) \<and>
    (\<forall>i \<ge> length ys. LeafPage_KeyAt ml i = LeafPage_KeyAt m i \<and> LeafPage_ValueAt ml i = LeafPage_ValueAt m i) \<and>
    (\<forall>a < 28 + INTERNAL_PAGE_HEADER_SIZE. mi a = m a) \<and> (\<forall>a < 32 + LEAF_PAGE_HEADER_SIZE. ml a = m a) \<and>
    (GetSize m = int (length xs) \<longrightarrow>
      (\<forall>i < length xs. (\<forall>j < i. snd (xs ! j) \<noteq> snd (xs ! i)) \<longrightarrow> InternalPage_ValueIndex mi (snd (xs ! i)) = int i) \<and>
      (\<forall>v. v \<notin> snd ` set xs \<longrightarrow> InternalPage_ValueIndex mi v = - 1))"
proof -
  have I: "InternalPage_KeyAt mi i = fst (xs ! i) \<and> InternalPage_ValueAt mi i = snd (xs ! i)" if "i < length xs" for i
    using int_page.store_read [OF assms(1) that, of 0] by (simp add: mi_def)
  have H: "\<forall>a < 28 + INTERNAL_PAGE_HEADER_SIZE. mi a = m a" "\<forall>a < 32 + LEAF_PAGE_HEADER_SIZE. ml a = m a"
    by (simp_all add: mi_def ml_def INTERNAL_PAGE_HEADER_SIZE_def LEAF_PAGE_HEADER_SIZE_def int_page.store_header leaf_page.store_header)
  then have "GetSize mi = GetSize m" unfolding GetSize_def by (intro arg_cong [where f = sint] rd32_cong) simp
  then have V: "InternalPage_ValueIndex mi v = find_first (\<lambda>i. snd (xs ! i) = v) [0..<length xs]" if "GetSize m = int (length xs)" for v
    using that find_first_cong [of "[0..<length xs]"] I by (simp add: InternalPage_ValueIndex_def)
  have "find_first (\<lambda>i. snd (xs ! i) = v) [0..<length xs] = - 1" if "v \<notin> snd ` set xs" for v
    using that by (auto simp: find_first_none)
  moreover have "find_first (\<lambda>k. snd (xs ! k) = snd (xs ! i)) [0..<length xs] = int i"
    if "i < length xs" "\<forall>j < i. snd (xs ! j) \<noteq> snd (xs ! i)" for i using find_first_least [OF that(1)] that(2) by simp
  ultimately show ?thesis
    using I H V int_page.store_other [OF assms(1), of _ 0] leaf_page.store_other [OF assms(2), of _ 0] leaf_page.store_read [OF assms(2), of _ 0]
    by (simp add: mi_def ml_def)
qed

theorem tree_page_pairs_witness:
  "InternalPage_ValueAt (store_pairs InternalPage_SetKeyAt InternalPage_SetValueAt 0 [([1, 2], 7), ([3, 4], 9)] (SetKeySize zero_mem 2)) 1 = 9 \<and>
   LeafPage_ValueAt (store_pairs LeafPage_SetKeyAt LeafPage_SetValueAt 0 [([5, 6], RowId 3 1)] (SetKeySize zero_mem 2)) 0 = RowId 3 1"
proof -
  have ks: "nat (GetKeySize (SetKeySize zero_mem 2)) = 2" by (simp add: GetKeySize_def SetKeySize_def mem_simps)
  have "\<forall>x \<in> set [([1, 2] :: byte list, 7 :: page_id), ([3, 4], 9)]. length (fst x) = nat (GetKeySize (SetKeySize zero_mem 2)) \<and> page_ref_ok (snd x)"
    "\<forall>y \<in> set [([5, 6] :: byte list, RowId 3 1)]. length (fst y) = nat (GetKeySize (SetKeySize zero_mem 2)) \<and> rowid_ok (snd y)"
    by (simp_all add: ks page_ref_ok_def rowid_ok_def RowId_def)
  from tree_page_pairs [OF this] show ?thesis by (auto simp: less_Suc_eq)
qed

end
