(* ===== verification/Index_Layer.thy ===== *)
theory Index_Layer
  imports Catalog_Codec Tree_Page
begin

text \<open>
  Index keys and the B+ tree index: src/MiniSQL/src/include/index/generic_key.h, index_iterator.h and
  index/index_iterator.cpp, index/b_plus_tree.cpp with include/index/b_plus_tree.h,
  index/b_plus_tree_index.cpp, and \<^verbatim>\<open>IndexInfo::CreateIndex\<close> of catalog/indexes.cpp. A \<^verbatim>\<open>GenericKey *\<close>
  is the memory it points to; what \<^verbatim>\<open>malloc\<close> returns is an argument of the operations that allocate a key.
  The tree operations of the repository are placeholders that return at once, and are modelled as what
  they are. Freeing the characters of a field that its row frees again is \<open>Undefined\<close>.
\<close>

section \<open>Key manager\<close>

record key_manager =
  km_key_size :: int
  km_key_schema :: schema

definition KeyManager :: "schema \<Rightarrow> nat \<Rightarrow> key_manager" where
  "KeyManager key_schema key_size = \<lparr>km_key_size = to_int32 (int key_size), km_key_schema = key_schema\<rparr>"

definition KeyManager_GetKeySize :: "key_manager \<Rightarrow> int" where
  "KeyManager_GetKeySize km = km_key_size km"

definition key_size_u32 :: "key_manager \<Rightarrow> u32" where
  "key_size_u32 km = word_of_int (km_key_size km)"

definition SerializeFromKey :: "key_manager \<Rightarrow> mem \<Rightarrow> row \<Rightarrow> schema \<Rightarrow> mem res" where
  "SerializeFromKey km key_buf key sch =
     res_bind (Row_GetSerializedSize key (Some sch)) (\<lambda>size.
     res_bind (ASSERT (length (row_fields key) = unat (GetColumnCount sch))) (\<lambda>_.
     res_bind (ASSERT (size \<le> key_size_u32 km)) (\<lambda>_.
     res_bind (Row_SerializeTo key (Some sch)) (\<lambda>bs.
       Inr (poke (memset0 key_buf (nat (km_key_size km))) 0 bs)))))"

definition DeserializeToKey :: "key_manager \<Rightarrow> mem \<Rightarrow> row \<Rightarrow> schema \<Rightarrow> row res" where
  "DeserializeToKey km key_buf key sch =
     res_bind (Row_DeserializeFrom key key_buf 0 (Some sch)) (\<lambda>(r, ofs).
     res_bind (ASSERT (ofs \<le> key_size_u32 km)) (\<lambda>_. Inr r))"

text \<open>
  The characters of both fields are deleted before the function returns, and once more when the two
  local rows are destroyed.
\<close>

definition delete_compared :: "schema \<Rightarrow> nat \<Rightarrow> int \<Rightarrow> int res" where
  "delete_compared sch i answer =
     res_bind (GetColumn sch i) (\<lambda>c. if col_type c = kTypeChar then Inl Undefined else Inr answer)"

fun compare_fields :: "schema \<Rightarrow> row \<Rightarrow> row \<Rightarrow> nat \<Rightarrow> nat \<Rightarrow> int res" where
  "compare_fields sch lhs rhs i 0 = Inr 0"
| "compare_fields sch lhs rhs i (Suc n) =
     res_bind (GetField lhs i) (\<lambda>l. res_bind (GetField rhs i) (\<lambda>r.
     res_bind (Field_CompareLessThan l r) (\<lambda>c.
       if c = kTrue then delete_compared sch i (- 1)
       else res_bind (Field_CompareGreaterThan l r) (\<lambda>d.
         if d = kTrue then delete_compared sch i 1
         else compare_fields sch lhs rhs (Suc i) n))))"

definition CompareKeys :: "key_manager \<Rightarrow> mem \<Rightarrow> mem \<Rightarrow> int res" where
  "CompareKeys km lhs rhs =
     res_bind (DeserializeToKey km lhs (Row_at INVALID_ROWID) (km_key_schema km)) (\<lambda>lhs_key.
     res_bind (DeserializeToKey km rhs (Row_at INVALID_ROWID) (km_key_schema km)) (\<lambda>rhs_key.
       compare_fields (km_key_schema km) lhs_key rhs_key 0 (unat (GetColumnCount (km_key_schema km)))))"

section \<open>Iterators and the tree\<close>

record index_iterator =
  current_page_id :: page_id
  iter_page :: "frame_id option"
  item_index :: int

definition IndexIterator :: index_iterator where
  "IndexIterator = \<lparr>current_page_id = INVALID_PAGE_ID, iter_page = None, item_index = 0\<rparr>"

definition IndexIterator_at :: "page_id \<Rightarrow> bpm \<Rightarrow> int \<Rightarrow> (index_iterator \<times> bpm) res" where
  "IndexIterator_at p b index = res_bind (FetchPage b p) (\<lambda>(pg, b').
     Inr (\<lparr>current_page_id = p, iter_page = pg, item_index = index\<rparr>, b'))"

definition IndexIterator_destroy :: "index_iterator \<Rightarrow> bpm \<Rightarrow> bpm" where
  "IndexIterator_destroy it b =
     (if current_page_id it \<noteq> INVALID_PAGE_ID then snd (UnpinPage b (current_page_id it) False) else b)"

definition IndexIterator_deref :: "index_iterator \<Rightarrow> (mem \<times> rowid) res" where
  "IndexIterator_deref it = res_bind (ASSERT False) (\<lambda>_. Inl Undefined)"

definition IndexIterator_next :: "index_iterator \<Rightarrow> index_iterator res" where
  "IndexIterator_next it = res_bind (ASSERT False) (\<lambda>_. Inl Undefined)"

definition IndexIterator_eq :: "index_iterator \<Rightarrow> index_iterator \<Rightarrow> bool" where
  "IndexIterator_eq x y \<longleftrightarrow> current_page_id x = current_page_id y \<and> item_index x = item_index y"

definition IndexIterator_neq :: "index_iterator \<Rightarrow> index_iterator \<Rightarrow> bool" where
  "IndexIterator_neq x y \<longleftrightarrow> \<not> IndexIterator_eq x y"

record b_plus_tree =
  tree_index_id :: u32
  root_page_id :: page_id
  tree_processor :: key_manager
  leaf_max_size :: int
  internal_max_size :: int

definition UNDEFINED_SIZE :: int where
  "UNDEFINED_SIZE = 0"

definition BPlusTree :: "u32 \<Rightarrow> key_manager \<Rightarrow> b_plus_tree" where
  "BPlusTree index_id km = \<lparr>tree_index_id = index_id, root_page_id = INVALID_PAGE_ID, tree_processor = km,
     leaf_max_size = UNDEFINED_SIZE, internal_max_size = UNDEFINED_SIZE\<rparr>"

definition BPlusTree_IsEmpty :: "b_plus_tree \<Rightarrow> bool" where
  "BPlusTree_IsEmpty t = False"

definition BPlusTree_GetValue :: "b_plus_tree \<Rightarrow> mem \<Rightarrow> rowid list \<Rightarrow> bool \<times> rowid list" where
  "BPlusTree_GetValue t key result = (False, result)"

definition BPlusTree_Insert :: "b_plus_tree \<Rightarrow> mem \<Rightarrow> rowid \<Rightarrow> bool \<times> b_plus_tree" where
  "BPlusTree_Insert t key value = (False, t)"

definition BPlusTree_InsertIntoLeaf :: "b_plus_tree \<Rightarrow> mem \<Rightarrow> rowid \<Rightarrow> bool \<times> b_plus_tree" where
  "BPlusTree_InsertIntoLeaf t key value = (False, t)"

definition BPlusTree_Remove :: "b_plus_tree \<Rightarrow> mem \<Rightarrow> b_plus_tree" where
  "BPlusTree_Remove t key = t"

definition BPlusTree_Destroy :: "b_plus_tree \<Rightarrow> page_id \<Rightarrow> b_plus_tree" where
  "BPlusTree_Destroy t current = t"

definition BPlusTree_Begin :: "b_plus_tree \<Rightarrow> index_iterator" where
  "BPlusTree_Begin t = IndexIterator"

definition BPlusTree_Begin_key :: "b_plus_tree \<Rightarrow> mem \<Rightarrow> index_iterator" where
  "BPlusTree_Begin_key t key = IndexIterator"

definition BPlusTree_End :: "b_plus_tree \<Rightarrow> index_iterator" where
  "BPlusTree_End t = IndexIterator"

definition BPlusTree_FindLeafPage :: "b_plus_tree \<Rightarrow> mem \<Rightarrow> page_id \<Rightarrow> bool \<Rightarrow> frame_id option" where
  "BPlusTree_FindLeafPage t key p left_most = None"

definition BPlusTree_Check :: "bpm \<Rightarrow> bool" where
  "BPlusTree_Check b = CheckAllUnpinned b"

section \<open>The index\<close>

record b_plus_tree_index =
  idx_index_id :: u32
  idx_key_schema :: schema
  idx_processor :: key_manager
  idx_container :: b_plus_tree

definition BPlusTreeIndex :: "u32 \<Rightarrow> schema \<Rightarrow> nat \<Rightarrow> b_plus_tree_index" where
  "BPlusTreeIndex index_id key_schema key_size =
     (let km = KeyManager key_schema key_size in
      \<lparr>idx_index_id = index_id, idx_key_schema = key_schema, idx_processor = km, idx_container = BPlusTree index_id km\<rparr>)"

definition InsertEntry :: "b_plus_tree_index \<Rightarrow> mem \<Rightarrow> row \<Rightarrow> rowid \<Rightarrow> (dberr \<times> b_plus_tree_index) res" where
  "InsertEntry x heap key row_id =
     res_bind (SerializeFromKey (idx_processor x) heap key (idx_key_schema x)) (\<lambda>index_key.
       let (status, t) = BPlusTree_Insert (idx_container x) index_key row_id
       in Inr (if \<not> status then DB_FAILED else DB_SUCCESS, x\<lparr>idx_container := t\<rparr>))"

definition RemoveEntry :: "b_plus_tree_index \<Rightarrow> mem \<Rightarrow> row \<Rightarrow> rowid \<Rightarrow> (dberr \<times> b_plus_tree_index) res" where
  "RemoveEntry x heap key row_id =
     res_bind (SerializeFromKey (idx_processor x) heap key (idx_key_schema x)) (\<lambda>index_key.
       Inr (DB_SUCCESS, x\<lparr>idx_container := BPlusTree_Remove (idx_container x) index_key\<rparr>))"

text \<open>The loops over iterators; a run that never reaches \<open>stop\<close> would be \<open>None\<close>.\<close>

partial_function (option) collect :: "index_iterator \<Rightarrow> index_iterator \<Rightarrow> rowid list \<Rightarrow> rowid list res option" where
  "collect it stop result =
     (if IndexIterator_neq it stop then
        (case IndexIterator_deref it of
           Inl e \<Rightarrow> Some (Inl e)
         | Inr kv \<Rightarrow>
             (case IndexIterator_next it of
                Inl e \<Rightarrow> Some (Inl e)
              | Inr it' \<Rightarrow> collect it' stop (result @ [snd kv])))
      else Some (Inr result))"

definition erase_found :: "rowid list \<Rightarrow> rowid list \<Rightarrow> rowid list res" where
  "erase_found result temp =
     (case temp of [] \<Rightarrow> Inl Undefined | r # _ \<Rightarrow> if r \<in> set result then Inr (remove1 r result) else Inl Undefined)"

definition scan_result :: "b_plus_tree \<Rightarrow> mem \<Rightarrow> rowid list \<Rightarrow> string \<Rightarrow> rowid list res option" where
  "scan_result t key result op =
     (if op = ''='' then Some (Inr (snd (BPlusTree_GetValue t key result)))
      else if op = ''>'' then
        (let (found, result') = BPlusTree_GetValue t key result;
             it = BPlusTree_Begin_key t key
         in case (if found then IndexIterator_next it else Inr it) of
              Inl e \<Rightarrow> Some (Inl e)
            | Inr it' \<Rightarrow> collect it' (BPlusTree_End t) result')
      else if op = ''>='' then collect (BPlusTree_Begin_key t key) (BPlusTree_End t) result
      else if op = ''<'' then collect (BPlusTree_Begin t) (BPlusTree_Begin_key t key) result
      else if op = ''<='' then
        map_option (\<lambda>r. res_bind r (\<lambda>result'. Inr (snd (BPlusTree_GetValue t key result'))))
          (collect (BPlusTree_Begin t) (BPlusTree_Begin_key t key) result)
      else if op = ''<>'' then
        map_option (\<lambda>r. res_bind r (\<lambda>result'.
            let (found, temp) = BPlusTree_GetValue t key [] in
            if found then erase_found result' temp else Inr result'))
          (collect (BPlusTree_Begin t) (BPlusTree_End t) result)
      else Some (Inr result))"

definition ScanKey :: "b_plus_tree_index \<Rightarrow> mem \<Rightarrow> row \<Rightarrow> rowid list \<Rightarrow> string \<Rightarrow> (dberr \<times> rowid list) res option" where
  "ScanKey x heap key result op =
     (case SerializeFromKey (idx_processor x) heap key (idx_key_schema x) of
        Inl e \<Rightarrow> Some (Inl e)
      | Inr index_key \<Rightarrow>
          map_option (\<lambda>r. res_bind r (\<lambda>result'.
              Inr (if result' \<noteq> [] then DB_SUCCESS else DB_KEY_NOT_FOUND, result')))
            (scan_result (idx_container x) index_key result op))"

definition Index_Destroy :: "b_plus_tree_index \<Rightarrow> dberr \<times> b_plus_tree_index" where
  "Index_Destroy x = (DB_SUCCESS, x\<lparr>idx_container := BPlusTree_Destroy (idx_container x) INVALID_PAGE_ID\<rparr>)"

definition GetBeginIterator :: "b_plus_tree_index \<Rightarrow> index_iterator" where
  "GetBeginIterator x = BPlusTree_Begin (idx_container x)"

definition GetBeginIterator_key :: "b_plus_tree_index \<Rightarrow> mem \<Rightarrow> index_iterator" where
  "GetBeginIterator_key x key = BPlusTree_Begin_key (idx_container x) key"

definition GetEndIterator :: "b_plus_tree_index \<Rightarrow> index_iterator" where
  "GetEndIterator x = BPlusTree_End (idx_container x)"

text \<open>The sum of the column lengths is a \<^verbatim>\<open>size_t\<close>; a schema has fewer than 2^32 columns, so it cannot wrap.\<close>

fun total_length :: "column option list \<Rightarrow> nat res" where
  "total_length [] = Inr 0"
| "total_length (None # cs) = Inl NullDeref"
| "total_length (Some c # cs) = res_bind (total_length cs) (\<lambda>n. Inr (unat (col_len c) + n))"

definition bucket_size :: "nat \<Rightarrow> nat option" where
  "bucket_size max_size =
     (if max_size \<le> 8 then Some 16
      else if max_size \<le> 24 then Some 32
      else if max_size \<le> 56 then Some 64
      else if max_size \<le> 120 then Some 128
      else if max_size \<le> 248 then Some 256
      else None)"

definition IndexInfo_CreateIndex :: "u32 \<Rightarrow> schema \<Rightarrow> string \<Rightarrow> b_plus_tree_index option res" where
  "IndexInfo_CreateIndex index_id key_schema index_type =
     res_bind (total_length (columns key_schema)) (\<lambda>max_size.
       Inr (if index_type = ''bptree'' then map_option (BPlusTreeIndex index_id key_schema) (bucket_size max_size)
            else None))"

section \<open>The order on keys\<close>

text \<open>Two key columns compare as their fields do, except that a null counts as equal to everything.\<close>

definition col_order :: "field \<Rightarrow> field \<Rightarrow> ordering" where
  "col_order f g = (if field_is_null f \<or> field_is_null g then Equal else field_order f g)"

definition key_diff :: "field list \<Rightarrow> field list \<Rightarrow> nat \<Rightarrow> nat \<Rightarrow> nat option" where
  "key_diff xs ys i n = List.find (\<lambda>j. col_order (xs ! j) (ys ! j) \<in> {Less, Greater}) [i..<n]"

definition key_answer :: "field list \<Rightarrow> field list \<Rightarrow> nat option \<Rightarrow> int res" where
  "key_answer xs ys d = (case d of None \<Rightarrow> Inr 0
     | Some j \<Rightarrow> if field_type (xs ! j) = kTypeChar then Inl Undefined
                 else Inr (if col_order (xs ! j) (ys ! j) = Less then - 1 else 1))"

lemma reread_sel [simp]: "field_is_null (reread f) = field_is_null f" "field_type (reread f) = field_type f"
  "\<not> field_is_null f \<Longrightarrow> field_value (reread f) = field_value f"
  by (simp_all add: reread_def Field_null_def)

lemma field_ok_reread: "field_ok f \<Longrightarrow> field_ok (reread f)"
  by (cases "field_value f") (auto simp: field_ok_def reread_def Field_null_def)

lemma col_order_reread [simp]: "col_order (reread f) (reread g) = col_order f g"
  by (simp add: col_order_def field_order_def)

lemma col_order_swap: "col_order g f = (case col_order f g of Less \<Rightarrow> Greater | Greater \<Rightarrow> Less | x \<Rightarrow> x)"
  by (simp add: col_order_def field_order_swap [of g f])

lemma compare_col:
  assumes "field_ok f" and "field_ok g" and "field_type f = field_type g"
  shows "\<exists>c. Field_CompareLessThan f g = Inr c \<and> (c = kTrue \<longleftrightarrow> col_order f g = Less)"
    and "\<exists>c. Field_CompareGreaterThan f g = Inr c \<and> (c = kTrue \<longleftrightarrow> col_order f g = Greater)"
proof -
  have t: "field_type f \<noteq> kTypeInvalid" using assms(1) by (simp add: field_ok_def)
  have N: "Field_CompareLessThan f g = Inr kNull" "Field_CompareGreaterThan f g = Inr kNull" if "field_is_null f \<or> field_is_null g"
    using t that assms(3) by (cases "field_type f"; simp add: compare_defs compare_with_def)+
  show "\<exists>c. Field_CompareLessThan f g = Inr c \<and> (c = kTrue \<longleftrightarrow> col_order f g = Less)"
    using N(1) compare_by_order(3) [OF assms] by (cases "field_is_null f \<or> field_is_null g") (auto simp: col_order_def GetCmpBool_def)
  show "\<exists>c. Field_CompareGreaterThan f g = Inr c \<and> (c = kTrue \<longleftrightarrow> col_order f g = Greater)"
    using N(2) compare_by_order(5) [OF assms] by (cases "field_is_null f \<or> field_is_null g") (auto simp: col_order_def GetCmpBool_def)
qed

definition typed_fields :: "schema \<Rightarrow> field list \<Rightarrow> bool" where
  "typed_fields sch fs \<longleftrightarrow> (\<forall>j < length fs. field_ok (fs ! j) \<and> (\<exists>c. GetColumn sch j = Inr c \<and> field_type (fs ! j) = col_type c))"

lemma row_ok_typed: "row_ok sch r \<Longrightarrow> typed_fields sch (row_fields r)"
  by (fastforce simp: row_ok_def typed_fields_def GetColumn_def)

lemma typed_reread: "typed_fields sch fs \<Longrightarrow> typed_fields sch (map reread fs)"
  by (auto simp: typed_fields_def field_ok_reread)

lemma compare_fields_spec:
  assumes "typed_fields sch (row_fields l)" and "typed_fields sch (row_fields r)"
    and "length (row_fields l) = i + n" and "length (row_fields r) = i + n"
  shows "compare_fields sch l r i n = key_answer (row_fields l) (row_fields r) (key_diff (row_fields l) (row_fields r) i (i + n))"
  using assms(3-)
proof (induction n arbitrary: i)
  case 0
  then show ?case by (simp add: key_diff_def key_answer_def)
next
  case (Suc n)
  let ?f = "row_fields l ! i" and ?g = "row_fields r ! i"
  obtain c where c: "GetColumn sch i = Inr c" "field_type ?f = col_type c" and ok: "field_ok ?f"
    using assms(1) Suc.prems unfolding typed_fields_def by (metis less_add_same_cancel1 zero_less_Suc)
  obtain c' where c': "GetColumn sch i = Inr c'" "field_type ?g = col_type c'" "field_ok ?g"
    using assms(2) Suc.prems unfolding typed_fields_def by (metis less_add_same_cancel1 zero_less_Suc)
  with c have g: "field_ok ?g" "field_type ?f = field_type ?g" by simp_all
  have get: "GetField l i = Inr ?f" "GetField r i = Inr ?g" using Suc.prems by (simp_all add: GetField_def)
  have upt: "[i..<i + Suc n] = i # [Suc i..<Suc i + n]" by (simp add: upt_conv_Cons)
  obtain a b where C: "Field_CompareLessThan ?f ?g = Inr a" "a = kTrue \<longleftrightarrow> col_order ?f ?g = Less"
    "Field_CompareGreaterThan ?f ?g = Inr b" "b = kTrue \<longleftrightarrow> col_order ?f ?g = Greater"
    using compare_col [OF ok g] by blast
  have kd: "key_diff (row_fields l) (row_fields r) i (i + Suc n) = (if col_order ?f ?g \<in> {Less, Greater} then Some i
      else key_diff (row_fields l) (row_fields r) (Suc i) (Suc i + n))"
    unfolding key_diff_def upt by simp
  have IH: "compare_fields sch l r (Suc i) n = key_answer (row_fields l) (row_fields r) (key_diff (row_fields l) (row_fields r) (Suc i) (Suc i + n))"
    using Suc.IH [of "Suc i"] Suc.prems by simp
  show ?case
    unfolding kd using IH C c get
    by (simp add: key_answer_def delete_compared_def del: Field_CompareLessThan.simps Field_CompareGreaterThan.simps)
qed

lemma row_ok_serializes: "row_ok sch r \<Longrightarrow> \<exists>bs. Row_SerializeTo r (Some sch) = Inr bs"
  by (erule Row_serialize_ok) (rule exI)

lemma SerializeFromKey_row:
  assumes "row_ok sch r" and "SerializeFromKey km buf r sch = Inr k"
  shows "DeserializeToKey km k (Row_at INVALID_ROWID) sch = Inr \<lparr>rid = rid r, row_fields = map reread (row_fields r)\<rparr>"
proof -
  obtain bs where B: "Row_SerializeTo r (Some sch) = Inr bs" "Row_GetSerializedSize r (Some sch) = Inr (word_of_nat (length bs))"
    "\<forall>m a x. row_fields x = [] \<and> holds m a bs \<longrightarrow>
      Row_DeserializeFrom x m a (Some sch) = Inr (\<lparr>rid = rid r, row_fields = map reread (row_fields r)\<rparr>, word_of_nat (length bs))"
    using Row_serialize_ok [OF assms(1)] by metis
  from assms(2) B(1,2) have fit: "word_of_nat (length bs) \<le> key_size_u32 km" and k: "k = poke (memset0 buf (nat (km_key_size km))) 0 bs"
    by (auto simp: SerializeFromKey_def res_simps)
  have h: "holds k 0 bs" unfolding k by (rule holds_poke)
  have "row_fields (Row_at INVALID_ROWID) = []" by (simp add: Row_at_def)
  from B(3) [rule_format, OF conjI [OF this h]] fit show ?thesis by (simp add: DeserializeToKey_def)
qed

lemma CompareKeys_spec:
  assumes "row_ok (km_key_schema km) l" and "row_ok (km_key_schema km) r"
    and "SerializeFromKey km buf l (km_key_schema km) = Inr kl" and "SerializeFromKey km buf' r (km_key_schema km) = Inr kr"
  shows "CompareKeys km kl kr = key_answer (row_fields l) (row_fields r) (key_diff (row_fields l) (row_fields r) 0 (length (row_fields l)))"
proof -
  let ?s = "km_key_schema km" and ?n = "length (row_fields l)"
  have n: "length (row_fields r) = ?n" "unat (GetColumnCount ?s) = ?n" using assms(1,2) by (simp_all add: row_ok_def GetColumnCount_def)
  have "key_diff (map reread (row_fields l)) (map reread (row_fields r)) 0 ?n = key_diff (row_fields l) (row_fields r) 0 ?n"
    using n(1) by (auto simp: key_diff_def intro!: find_cong)
  moreover have "j < ?n" if "key_diff (row_fields l) (row_fields r) 0 ?n = Some j" for j
    using that by (auto simp: key_diff_def find_Some_iff)
  ultimately show ?thesis
    using SerializeFromKey_row [OF assms(1,3)] SerializeFromKey_row [OF assms(2,4)] n
      typed_reread [OF row_ok_typed [OF assms(1)]] typed_reread [OF row_ok_typed [OF assms(2)]]
    by (auto simp: CompareKeys_def compare_fields_spec key_answer_def split: option.splits)
qed

lemma key_diff_swap:
  "key_diff ys xs i n = key_diff xs ys i n"
  "key_diff xs ys i n = Some j \<Longrightarrow> col_order (xs ! j) (ys ! j) = Less \<or> col_order (xs ! j) (ys ! j) = Greater"
proof -
  have "col_order (ys ! j) (xs ! j) \<in> {Less, Greater} \<longleftrightarrow> col_order (xs ! j) (ys ! j) \<in> {Less, Greater}" for j
    by (cases "col_order (xs ! j) (ys ! j)") (simp_all add: col_order_swap [of "ys ! j" "xs ! j"])
  then show "key_diff ys xs i n = key_diff xs ys i n" by (simp add: key_diff_def)
qed (auto simp: key_diff_def find_Some_iff)

section \<open>Properties\<close>

text \<open>
  C31. Comparison of index keys: for two rows that fit the key schema and were serialised into key buffers,
  \<^verbatim>\<open>CompareKeys\<close> is the lexicographic comparison of their fields (a null counts as equal), decided by the
  first column in which they differ, and swapping the keys negates the answer; but when the deciding
  column is of type char the characters are freed twice.
\<close>

theorem compare_keys_lexicographic:
  assumes "row_ok (km_key_schema km) l" and "row_ok (km_key_schema km) r"
    and "SerializeFromKey km buf l (km_key_schema km) = Inr kl" and "SerializeFromKey km buf' r (km_key_schema km) = Inr kr"
  shows "(case key_diff (row_fields l) (row_fields r) 0 (length (row_fields l)) of
       None \<Rightarrow> CompareKeys km kl kr = Inr 0 \<and> CompareKeys km kr kl = Inr 0
     | Some j \<Rightarrow>
         if field_type (row_fields l ! j) = kTypeChar then CompareKeys km kl kr = Inl Undefined
         else if col_order (row_fields l ! j) (row_fields r ! j) = Less then CompareKeys km kl kr = Inr (- 1) \<and> CompareKeys km kr kl = Inr 1
         else CompareKeys km kl kr = Inr 1 \<and> CompareKeys km kr kl = Inr (- 1))"
proof -
  let ?d = "key_diff (row_fields l) (row_fields r) 0 (length (row_fields l))"
  have len: "length (row_fields r) = length (row_fields l)" using assms(1,2) by (simp add: row_ok_def)
  have A: "CompareKeys km kl kr = key_answer (row_fields l) (row_fields r) ?d" using CompareKeys_spec [OF assms] .
  have B: "CompareKeys km kr kl = key_answer (row_fields r) (row_fields l) ?d"
    using CompareKeys_spec [OF assms(2,1,4,3)] len by (simp add: key_diff_swap(1) [of "row_fields r"])
  show ?thesis
  proof (cases ?d)
    case None
    then show ?thesis by (simp add: A B key_answer_def)
  next
    case (Some j)
    then have "j < length (row_fields l)" by (auto simp: key_diff_def find_Some_iff)
    then have "field_type (row_fields r ! j) = field_type (row_fields l ! j)"
      using row_ok_typed [OF assms(1)] row_ok_typed [OF assms(2)] len by (fastforce simp: typed_fields_def)
    with Some key_diff_swap(2) [OF Some] show ?thesis
      by (auto simp: A B key_answer_def col_order_swap [of "row_fields r ! j" "row_fields l ! j"])
  qed
qed

definition two_int_schema :: schema where
  "two_int_schema = \<lparr>columns =
     [Some \<lparr>col_name = ''a'', col_type = kTypeInt, col_len = 4, col_table_ind = 0, col_nullable = False, col_unique = True\<rparr>,
      Some \<lparr>col_name = ''b'', col_type = kTypeInt, col_len = 4, col_table_ind = 1, col_nullable = False, col_unique = False\<rparr>],
     schema_is_manage = True\<rparr>"

definition two_int_row :: "u32 \<Rightarrow> u32 \<Rightarrow> row" where
  "two_int_row a b = \<lparr>rid = INVALID_ROWID, row_fields =
     [\<lparr>field_value = IntVal a, field_type = kTypeInt, field_len = 4, field_is_null = False, field_manage = False\<rparr>,
      \<lparr>field_value = IntVal b, field_type = kTypeInt, field_len = 4, field_is_null = False, field_manage = False\<rparr>]\<rparr>"

lemma two_int_ok: "row_ok two_int_schema (two_int_row a b)"
  by (auto simp: row_ok_def two_int_schema_def two_int_row_def rowid_ok_def INVALID_ROWID_def INVALID_PAGE_ID_def RowId_def field_ok_def less_Suc_eq)

lemma two_int_size: "Row_GetSerializedSize (two_int_row a b) (Some two_int_schema) = Inr 21"
  by (simp add: Row_GetSerializedSize_def two_int_row_def two_int_schema_def GetColumnCount_def TypeInt_GetSerializedSize_def)

lemma two_int_fits: "\<exists>k. SerializeFromKey (KeyManager two_int_schema 32) buf (two_int_row a b) two_int_schema = Inr k"
proof -
  obtain bs where "Row_SerializeTo (two_int_row a b) (Some two_int_schema) = Inr bs"
    using row_ok_serializes [OF two_int_ok] by blast
  moreover have "length (row_fields (two_int_row a b)) = unat (GetColumnCount two_int_schema)"
    by (simp add: two_int_row_def two_int_schema_def GetColumnCount_def)
  ultimately show ?thesis by (simp add: SerializeFromKey_def two_int_size key_size_u32_def KeyManager_def)
qed

theorem compare_keys_lexicographic_witness:
  "\<exists>k1 k2. SerializeFromKey (KeyManager two_int_schema 32) zero_mem (two_int_row 1 5) two_int_schema = Inr k1 \<and>
     SerializeFromKey (KeyManager two_int_schema 32) zero_mem (two_int_row 1 7) two_int_schema = Inr k2 \<and>
     CompareKeys (KeyManager two_int_schema 32) k1 k2 = Inr (- 1) \<and> CompareKeys (KeyManager two_int_schema 32) k2 k1 = Inr 1"
proof -
  let ?km = "KeyManager two_int_schema 32"
  have sch: "km_key_schema ?km = two_int_schema" by (simp add: KeyManager_def)
  obtain k1 k2 where k: "SerializeFromKey ?km zero_mem (two_int_row 1 5) two_int_schema = Inr k1"
    "SerializeFromKey ?km zero_mem (two_int_row 1 7) two_int_schema = Inr k2" using two_int_fits by meson
  have d: "key_diff (row_fields (two_int_row 1 5)) (row_fields (two_int_row 1 7)) 0 2 = Some 1"
    by (simp add: key_diff_def two_int_row_def col_order_def order_defs upt_rec numeral_2_eq_2)
  show ?thesis
    using compare_keys_lexicographic [of ?km "two_int_row 1 5" "two_int_row 1 7" zero_mem k1 zero_mem k2] two_int_ok k d
    by (simp add: sch two_int_row_def col_order_def order_defs numeral_2_eq_2)
qed

lemma collect_empty: "collect IndexIterator IndexIterator result = Some (Inr result)"
  by (simp add: collect.simps IndexIterator_neq_def IndexIterator_eq_def)

lemma scan_result_none: "scan_result t key result op = Some (Inr result)"
  by (simp add: scan_result_def BPlusTree_GetValue_def BPlusTree_Begin_def BPlusTree_Begin_key_def BPlusTree_End_def collect_empty)

lemma SerializeFromKey_fits:
  assumes "row_ok sch key" and "Row_GetSerializedSize key (Some sch) = Inr sz"
  shows "if sz \<le> key_size_u32 km then \<exists>k. SerializeFromKey km heap key sch = Inr k else SerializeFromKey km heap key sch = Inl AssertFailed"
proof -
  obtain bs where "Row_SerializeTo key (Some sch) = Inr bs" using row_ok_serializes [OF assms(1)] by blast
  moreover have "length (row_fields key) = unat (GetColumnCount sch)" using assms(1) by (simp add: row_ok_def GetColumnCount_def)
  ultimately show ?thesis using assms(2) by (simp add: SerializeFromKey_def)
qed

text \<open>
  The index stores nothing: for a key row that fits the key schema, \<^verbatim>\<open>InsertEntry\<close>, \<^verbatim>\<open>RemoveEntry\<close> and
  \<^verbatim>\<open>ScanKey\<close> fail an assertion exactly when the serialised key is larger than the key buffer; otherwise
  \<^verbatim>\<open>InsertEntry\<close> reports \<^verbatim>\<open>DB_FAILED\<close>, and a scan with any of the six operators ends, leaves the result
  as it was and reports \<^verbatim>\<open>DB_KEY_NOT_FOUND\<close> if it was empty.
\<close>

theorem index_stores_nothing:
  assumes "row_ok (idx_key_schema x) key" and "Row_GetSerializedSize key (Some (idx_key_schema x)) = Inr sz"
  shows "if sz \<le> key_size_u32 (idx_processor x)
    then InsertEntry x heap key r = Inr (DB_FAILED, x) \<and> RemoveEntry x heap key r = Inr (DB_SUCCESS, x) \<and>
      ScanKey x heap key result op = Some (Inr (if result \<noteq> [] then DB_SUCCESS else DB_KEY_NOT_FOUND, result))
    else InsertEntry x heap key r = Inl AssertFailed \<and> RemoveEntry x heap key r = Inl AssertFailed \<and>
      ScanKey x heap key result op = Some (Inl AssertFailed)"
  using SerializeFromKey_fits [OF assms, of "idx_processor x" heap]
  by (auto simp: InsertEntry_def RemoveEntry_def ScanKey_def BPlusTree_Insert_def BPlusTree_Remove_def scan_result_none)

theorem index_stores_nothing_witness:
  "InsertEntry (BPlusTreeIndex 0 two_int_schema 32) zero_mem (two_int_row 1 2) (RowId 3 0) = Inr (DB_FAILED, BPlusTreeIndex 0 two_int_schema 32) \<and>
   ScanKey (BPlusTreeIndex 0 two_int_schema 32) zero_mem (two_int_row 1 2) [] ''<='' = Some (Inr (DB_KEY_NOT_FOUND, [])) \<and>
   InsertEntry (BPlusTreeIndex 0 two_int_schema 16) zero_mem (two_int_row 1 2) (RowId 3 0) = Inl AssertFailed"
  using index_stores_nothing [of "BPlusTreeIndex 0 two_int_schema 32" "two_int_row 1 2" 21 zero_mem "RowId 3 0" "[]" "''<=''"]
    index_stores_nothing [of "BPlusTreeIndex 0 two_int_schema 16" "two_int_row 1 2" 21 zero_mem "RowId 3 0" "[]" "''<=''"] two_int_ok two_int_size
  by (simp add: BPlusTreeIndex_def Let_def KeyManager_def key_size_u32_def)

section \<open>Key sizes\<close>

definition numeric_schema :: "schema \<Rightarrow> bool" where
  "numeric_schema s \<longleftrightarrow> (\<forall>c \<in> set (columns s). \<exists>d. c = Some d \<and> column_ok d \<and> col_type d \<noteq> kTypeChar)"

lemma total_length_numeric:
  "\<forall>c \<in> set cs. \<exists>d. c = Some d \<and> column_ok d \<and> col_type d \<noteq> kTypeChar \<Longrightarrow> total_length cs = Inr (4 * length cs)"
  by (induction cs rule: total_length.induct) (auto simp: column_ok_def)

lemma fields_size_numeric:
  "\<forall>f \<in> set fs. field_ok f \<and> \<not> field_is_null f \<and> field_type f \<noteq> kTypeChar \<Longrightarrow> fields_size fs = Inr (word_of_nat (4 * length fs))"
proof (induction fs)
  case (Cons f fs)
  then have "Field_GetSerializedSize f = Inr 4"
    by (cases "field_type f") (auto simp: field_ok_def TypeInt_GetSerializedSize_def TypeFloat_GetSerializedSize_def)
  with Cons show ?case by (simp del: Field_GetSerializedSize.simps)
qed simp

lemma numeric_row_size:
  assumes "row_ok ks key" and "numeric_schema ks" and "\<forall>f \<in> set (row_fields key). \<not> field_is_null f"
  shows "Row_GetSerializedSize key (Some ks) = Inr (word_of_nat (13 + length (columns ks) div 8 + 4 * length (columns ks)))"
proof -
  have n: "length (row_fields key) = length (columns ks)" "length (columns ks) < 2 ^ 20" using assms(1) by (simp_all add: row_ok_def)
  have "field_ok f \<and> \<not> field_is_null f \<and> field_type f \<noteq> kTypeChar" if "f \<in> set (row_fields key)" for f
  proof -
    from that obtain i where i: "i < length (row_fields key)" "f = row_fields key ! i" by (auto simp: in_set_conv_nth)
    with assms(1) obtain c where c: "columns ks ! i = Some c" "field_type f = col_type c" "field_ok f" by (auto simp: row_ok_def)
    have "columns ks ! i \<in> set (columns ks)" using i n(1) by simp
    with assms(2) c have "col_type c \<noteq> kTypeChar" by (auto simp: numeric_schema_def)
    with c assms(3) that show ?thesis by simp
  qed
  then have "fields_size (row_fields key) = Inr (word_of_nat (4 * length (columns ks)))"
    using fields_size_numeric [of "row_fields key"] n(1) by simp
  then show ?thesis using n by (simp add: Row_GetSerializedSize_def GetColumnCount_def add.commute add.left_commute)
qed

definition cramped :: "nat set" where
  "cramped = {1, 2, 5, 6, 13, 14, 29, 30, 60, 61, 62}"

lemma bucket_numeric:
  assumes "bucket_size (4 * n) = Some k" and "n \<noteq> 0"
  shows "13 + n div 8 + 4 * n \<le> k \<longleftrightarrow> n \<notin> cramped"
proof -
  have "\<forall>n \<in> set [1..<63]. (13 + n div 8 + 4 * n \<le> the (bucket_size (4 * n)) \<longleftrightarrow> n \<notin> cramped)"
    by code_simp
  moreover have "n \<in> set [1..<63]" using assms by (auto simp: bucket_size_def split: if_splits)
  ultimately show ?thesis using assms(1) by fastforce
qed

lemma bucket_bounds:
  "bucket_size n = Some k \<Longrightarrow> n + 8 \<le> k \<and> k \<le> 256 \<and> k \<in> {16, 32, 64, 128, 256} \<and> (\<forall>j \<in> {16, 32, 64, 128, 256}. n + 8 \<le> j \<longrightarrow> k \<le> j)"
  by (auto simp: bucket_size_def split: if_splits)

text \<open>
  C33. Size of the key buffer: \<^verbatim>\<open>CreateIndex\<close> picks the smallest of the sizes 16, 32, 64, 128 and 256 that exceeds
  the total column length by at least 8, and gives up exactly for key columns of more than 248 bytes. A serialised
  row has a header of 13 bytes and more, so the insertion of a key of \<open>n\<close> numbers, none of them null, fails an assertion
  exactly when \<open>n\<close> is one of 1, 2, 5, 6, 13, 14, 29, 30, 60, 61 and 62. Keys with nulls, which take fewer bytes, are not covered.
\<close>

theorem index_key_bounds:
  assumes "total_length (columns ks) = Inr len"
  shows "(if len \<le> 248
      then \<exists>k. bucket_size len = Some k \<and> len + 8 \<le> k \<and> k \<in> {16, 32, 64, 128, 256} \<and> (\<forall>j \<in> {16, 32, 64, 128, 256}. len + 8 \<le> j \<longrightarrow> k \<le> j) \<and>
        IndexInfo_CreateIndex index_id ks ''bptree'' = Inr (Some (BPlusTreeIndex index_id ks k))
      else IndexInfo_CreateIndex index_id ks ''bptree'' = Inr None) \<and>
    (\<forall>x key. IndexInfo_CreateIndex index_id ks ''bptree'' = Inr (Some x) \<and> numeric_schema ks \<and> row_ok ks key \<and>
        columns ks \<noteq> [] \<and> (\<forall>f \<in> set (row_fields key). \<not> field_is_null f) \<longrightarrow>
      (InsertEntry x heap key r = Inl AssertFailed \<longleftrightarrow> length (columns ks) \<in> cramped))"
proof (intro conjI allI impI)
  show "if len \<le> 248
      then \<exists>k. bucket_size len = Some k \<and> len + 8 \<le> k \<and> k \<in> {16, 32, 64, 128, 256} \<and> (\<forall>j \<in> {16, 32, 64, 128, 256}. len + 8 \<le> j \<longrightarrow> k \<le> j) \<and>
        IndexInfo_CreateIndex index_id ks ''bptree'' = Inr (Some (BPlusTreeIndex index_id ks k))
      else IndexInfo_CreateIndex index_id ks ''bptree'' = Inr None"
    using assms bucket_bounds [of len] by (auto simp: IndexInfo_CreateIndex_def bucket_size_def)
next
  fix x key
  assume A: "IndexInfo_CreateIndex index_id ks ''bptree'' = Inr (Some x) \<and> numeric_schema ks \<and> row_ok ks key \<and>
        columns ks \<noteq> [] \<and> (\<forall>f \<in> set (row_fields key). \<not> field_is_null f)"
  let ?n = "length (columns ks)"
  have "total_length (columns ks) = Inr (4 * ?n)" using A by (intro total_length_numeric) (simp add: numeric_schema_def)
  with A obtain k where k: "bucket_size (4 * ?n) = Some k" "x = BPlusTreeIndex index_id ks k"
    by (auto simp: IndexInfo_CreateIndex_def)
  have le: "4 * ?n + 8 \<le> k" "k \<le> 256" using bucket_bounds [OF k(1)] by simp_all
  have x: "idx_key_schema x = ks" "key_size_u32 (idx_processor x) = word_of_nat k"
    using le by (simp_all add: k(2) BPlusTreeIndex_def Let_def KeyManager_def key_size_u32_def)
  have size: "Row_GetSerializedSize key (Some ks) = Inr (word_of_nat (13 + ?n div 8 + 4 * ?n))" using numeric_row_size A by blast
  have "?n div 8 \<le> ?n" by simp
  with le have "unat (word_of_nat (13 + ?n div 8 + 4 * ?n) :: u32) = 13 + ?n div 8 + 4 * ?n" "unat (word_of_nat k :: u32) = k"
    by (intro unat_u32_of_nat; simp)+
  then have "(word_of_nat (13 + ?n div 8 + 4 * ?n) :: u32) \<le> word_of_nat k \<longleftrightarrow> ?n \<notin> cramped"
    using bucket_numeric [OF k(1)] A unfolding word_le_nat_alt by simp
  with SerializeFromKey_fits [of ks key _ "idx_processor x" heap, OF _ size] A x
  show "InsertEntry x heap key r = Inl AssertFailed \<longleftrightarrow> length (columns ks) \<in> cramped"
    by (auto simp: InsertEntry_def BPlusTree_Insert_def split: if_splits)
qed

theorem index_key_bounds_witness:
  "IndexInfo_CreateIndex 0 two_int_schema ''bptree'' = Inr (Some (BPlusTreeIndex 0 two_int_schema 16)) \<and>
   InsertEntry (BPlusTreeIndex 0 two_int_schema 16) zero_mem (two_int_row 4 9) (RowId 2 1) = Inl AssertFailed"
proof -
  have t: "total_length (columns two_int_schema) = Inr 8" by (simp add: two_int_schema_def)
  have n: "numeric_schema two_int_schema" "columns two_int_schema \<noteq> []" "length (columns two_int_schema) = 2"
    "\<forall>f \<in> set (row_fields (two_int_row 4 9)). \<not> field_is_null f"
    by (simp_all add: numeric_schema_def two_int_schema_def column_ok_def two_int_row_def)
  have "IndexInfo_CreateIndex 0 two_int_schema ''bptree'' = Inr (Some (BPlusTreeIndex 0 two_int_schema 16))"
    using index_key_bounds [OF t, of 0] by (auto simp: bucket_size_def)
  with index_key_bounds [OF t, of 0 zero_mem "RowId 2 1"] n two_int_ok [of 4 9] show ?thesis
    by (auto simp: cramped_def)
qed

end
