(* ===== verification/Catalog.thy ===== *)
theory Catalog
  imports Index_Layer "HOL-Library.AList"
begin

text \<open>
  The catalog manager: src/MiniSQL/src/catalog/catalog.cpp and include/catalog/catalog.h, with
  \<^verbatim>\<open>TableInfo\<close> and \<^verbatim>\<open>IndexInfo\<close> of table.h and indexes.h. An \<^verbatim>\<open>unordered_map\<close> is an association list
  without a promise about its order; \<^verbatim>\<open>operator[]\<close> adds a default entry when the key is missing. A
  \<^verbatim>\<open>TableInfo *\<close> in the table map may be null, which \<^verbatim>\<open>operator[]\<close> produces. The objects behind the
  pointers never change after \<^verbatim>\<open>Init\<close>, so they are values. An out-parameter that a call leaves unset is
  \<open>None\<close>. Using the page id that \<^verbatim>\<open>NewPage\<close> leaves unset when it returns null is \<open>Undefined\<close>.
\<close>

section \<open>State\<close>

record table_info =
  ti_meta :: table_metadata
  ti_heap :: table_heap

definition TableInfo_Init :: "table_metadata \<Rightarrow> table_heap \<Rightarrow> table_info" where
  "TableInfo_Init meta heap = \<lparr>ti_meta = meta, ti_heap = heap\<rparr>"

definition GetTableName :: "table_info \<Rightarrow> string" where
  "GetTableName t = tm_table_name (ti_meta t)"

definition GetSchema :: "table_info \<Rightarrow> schema" where
  "GetSchema t = tm_schema (ti_meta t)"

record index_info =
  ii_meta :: index_metadata
  ii_index :: "b_plus_tree_index option"
  ii_key_schema :: schema
  ii_table :: table_info

definition IndexInfo_Init :: "index_metadata \<Rightarrow> table_info option \<Rightarrow> index_info res" where
  "IndexInfo_Init meta info =
     (case info of
        None \<Rightarrow> Inl NullDeref
      | Some t \<Rightarrow>
          res_bind (ShallowCopySchema (GetSchema t) (map unat (im_key_map meta))) (\<lambda>ks.
          res_bind (IndexInfo_CreateIndex (im_index_id meta) ks ''bptree'') (\<lambda>x.
            Inr \<lparr>ii_meta = meta, ii_index = x, ii_key_schema = ks, ii_table = t\<rparr>)))"

record catalog_manager =
  cat_bpm :: bpm
  cat_meta :: catalog_meta
  next_table_id :: u32
  next_index_id :: u32
  table_names :: "(string \<times> u32) list"
  tables :: "(u32 \<times> table_info option) list"
  index_names :: "(string \<times> (string \<times> u32) list) list"
  indexes :: "(u32 \<times> index_info) list"

text \<open>\<^verbatim>\<open>operator[]\<close> of an \<^verbatim>\<open>unordered_map\<close>: the value, and the map with the entry it may have added.\<close>

definition at_or_new :: "'v \<Rightarrow> 'k \<Rightarrow> ('k \<times> 'v) list \<Rightarrow> 'v \<times> ('k \<times> 'v) list" where
  "at_or_new d k m = (case map_of m k of Some v \<Rightarrow> (v, m) | None \<Rightarrow> (d, AList.update k d m))"

text \<open>\<^verbatim>\<open>CatalogMeta::DeleteIndexMetaPage\<close>.\<close>

definition DeleteIndexMetaPage :: "bpm \<Rightarrow> catalog_meta \<Rightarrow> u32 \<Rightarrow> bool \<times> bpm \<times> catalog_meta" where
  "DeleteIndexMetaPage b m index_id =
     (case map_of (index_meta_pages m) index_id of
        None \<Rightarrow> (False, b, m)
      | Some p \<Rightarrow> (True, snd (DeletePage b p), m\<lparr>index_meta_pages := map_erase index_id (index_meta_pages m)\<rparr>))"

section \<open>Construction and persistence\<close>

text \<open>The data of a fetched page; a null page is dereferenced.\<close>

definition fetch_data :: "bpm \<Rightarrow> page_id \<Rightarrow> (frame_id \<times> mem \<times> bpm) res" where
  "fetch_data b p = res_bind (FetchPage b p) (\<lambda>(x, b1). case x of
     None \<Rightarrow> Inl NullDeref | Some f \<Rightarrow> Inr (f, page_mem b1 f, b1))"

fun load_tables :: "(u32 \<times> page_id) list \<Rightarrow> catalog_manager \<Rightarrow> catalog_manager res" where
  "load_tables [] c = Inr c"
| "load_tables ((k, p) # rest) c =
     res_bind (fetch_data (cat_bpm c) p) (\<lambda>(f, m, b1).
     res_bind (TableMetadata_DeserializeFrom m 0) (\<lambda>(meta, _).
       let heap = TableHeap_open (tm_root_page_id meta) (tm_schema meta) in
       load_tables rest (c\<lparr>cat_bpm := b1,
         table_names := AList.update (tm_table_name meta) (tm_table_id meta) (table_names c),
         tables := AList.update (tm_table_id meta) (Some (TableInfo_Init meta heap)) (tables c)\<rparr>)))"

definition add_index :: "index_metadata \<Rightarrow> u32 \<Rightarrow> catalog_manager \<Rightarrow> catalog_manager res" where
  "add_index meta index_id c =
     (let (t, ts) = at_or_new None (im_table_id meta) (tables c) in
      case t of
        None \<Rightarrow> Inl NullDeref
      | Some info \<Rightarrow>
          let (names, ns) = at_or_new [] (GetTableName info) (index_names c) in
          res_bind (IndexInfo_Init meta (Some info)) (\<lambda>x.
            Inr (c\<lparr>tables := ts,
              index_names := AList.update (GetTableName info) (AList.update (im_index_name meta) index_id names) ns,
              indexes := AList.update index_id x (indexes c)\<rparr>)))"

fun load_indexes :: "(u32 \<times> page_id) list \<Rightarrow> catalog_manager \<Rightarrow> catalog_manager res" where
  "load_indexes [] c = Inr c"
| "load_indexes ((k, p) # rest) c =
     res_bind (fetch_data (cat_bpm c) p) (\<lambda>(f, m, b1).
     res_bind (IndexMetadata_DeserializeFrom m 0) (\<lambda>(meta, _).
     res_bind (add_index meta (im_index_id meta) (c\<lparr>cat_bpm := b1\<rparr>)) (load_indexes rest)))"

definition empty_catalog :: "bpm \<Rightarrow> catalog_manager" where
  "empty_catalog b = \<lparr>cat_bpm = b, cat_meta = CatalogMeta_NewInstance, next_table_id = 0, next_index_id = 0,
     table_names = [], tables = [], index_names = [], indexes = []\<rparr>"

definition CatalogManager :: "bpm \<Rightarrow> bool \<Rightarrow> catalog_manager res" where
  "CatalogManager b init =
     (if init then Inr (empty_catalog b)
      else
        res_bind (fetch_data b CATALOG_META_PAGE_ID) (\<lambda>(f, m, b1).
        res_bind (CatalogMeta_DeserializeFrom m 0) (\<lambda>meta.
        res_bind (load_tables (table_meta_pages meta) ((empty_catalog b1)\<lparr>cat_meta := meta\<rparr>)) (\<lambda>c.
          load_indexes (index_meta_pages meta) c))))"

definition FlushCatalogMetaPage :: "catalog_manager \<Rightarrow> (dberr \<times> catalog_manager) res" where
  "FlushCatalogMetaPage c =
     res_bind (fetch_data (cat_bpm c) CATALOG_META_PAGE_ID) (\<lambda>(f, m, b1).
     res_bind (CatalogMeta_SerializeTo (cat_meta c)) (\<lambda>bs.
     res_bind (FlushPage (put_mem f (poke m 0 bs) b1) CATALOG_META_PAGE_ID) (\<lambda>(ok, b2).
       Inr (if \<not> ok then DB_FAILED else DB_SUCCESS, c\<lparr>cat_bpm := b2\<rparr>))))"

text \<open>The destructor flushes the metadata and deletes the objects; what remains is the buffer pool.\<close>

definition CatalogManager_destroy :: "catalog_manager \<Rightarrow> bpm res" where
  "CatalogManager_destroy c = res_bind (FlushCatalogMetaPage c) (\<lambda>(_, c'). Inr (cat_bpm c'))"

section \<open>Tables\<close>

definition CreateTable :: "catalog_manager \<Rightarrow> string \<Rightarrow> schema \<Rightarrow> (dberr \<times> table_info option \<times> catalog_manager) res" where
  "CreateTable c table_name sch =
     (if map_of (table_names c) table_name \<noteq> None then Inr (DB_TABLE_ALREADY_EXIST, None, c)
      else
        let table_id = GetNextTableId (cat_meta c) in
        res_bind (NewPage (cat_bpm c)) (\<lambda>(r, b1). case r of
          None \<Rightarrow> Inl Undefined
        | Some (f, page_id) \<Rightarrow>
            res_bind (TableHeap_create b1 sch) (\<lambda>(heap, b2).
              let meta = TableMetadata_Create table_id table_name (first_page_id heap) sch in
              res_bind (TableMetadata_SerializeTo meta) (\<lambda>bs.
                let b3 = unpin (put_mem f (poke (page_mem b2 f) 0 bs) b2) page_id True;
                    info = TableInfo_Init meta heap
                in Inr (DB_SUCCESS, Some info,
                     c\<lparr>cat_bpm := b3,
                       cat_meta := (cat_meta c)\<lparr>table_meta_pages := map_put table_id page_id (table_meta_pages (cat_meta c))\<rparr>,
                       table_names := AList.update table_name table_id (table_names c),
                       tables := AList.update table_id (Some info) (tables c)\<rparr>)))))"

definition GetTable :: "catalog_manager \<Rightarrow> string \<Rightarrow> dberr \<times> table_info option \<times> catalog_manager" where
  "GetTable c table_name =
     (case map_of (table_names c) table_name of
        None \<Rightarrow> (DB_TABLE_NOT_EXIST, None, c)
      | Some table_id \<Rightarrow>
          let (info, ts) = at_or_new None table_id (tables c) in (DB_SUCCESS, info, c\<lparr>tables := ts\<rparr>))"

definition GetTables :: "catalog_manager \<Rightarrow> table_info option list \<Rightarrow> dberr \<times> table_info option list" where
  "GetTables c out = (if tables c = [] then (DB_FAILED, out) else (DB_SUCCESS, out @ map snd (tables c)))"

definition GetTable_id :: "catalog_manager \<Rightarrow> u32 \<Rightarrow> dberr \<times> table_info option \<times> catalog_manager" where
  "GetTable_id c table_id =
     (case map_of (table_meta_pages (cat_meta c)) table_id of
        None \<Rightarrow> (DB_TABLE_NOT_EXIST, None, c)
      | Some _ \<Rightarrow> let (info, ts) = at_or_new None table_id (tables c) in (DB_SUCCESS, info, c\<lparr>tables := ts\<rparr>))"

definition DropTable :: "catalog_manager \<Rightarrow> string \<Rightarrow> dberr \<times> catalog_manager" where
  "DropTable c table_name =
     (case map_of (table_names c) table_name of
        None \<Rightarrow> (DB_TABLE_NOT_EXIST, c)
      | Some table_id \<Rightarrow>
          let page_id = (case map_of (table_meta_pages (cat_meta c)) table_id of Some p \<Rightarrow> p | None \<Rightarrow> 0)
          in (DB_SUCCESS,
              c\<lparr>cat_bpm := snd (DeletePage (cat_bpm c) page_id),
                cat_meta := (cat_meta c)\<lparr>table_meta_pages := map_erase table_id (table_meta_pages (cat_meta c))\<rparr>,
                table_names := AList.delete table_name (table_names c),
                tables := AList.delete table_id (tables c)\<rparr>))"

definition LoadTable :: "catalog_manager \<Rightarrow> u32 \<Rightarrow> page_id \<Rightarrow> (dberr \<times> catalog_manager) res" where
  "LoadTable c table_id page_id =
     (if map_of (tables c) table_id \<noteq> None then Inr (DB_TABLE_ALREADY_EXIST, c)
      else
        let meta1 = (cat_meta c)\<lparr>table_meta_pages := map_put table_id page_id (table_meta_pages (cat_meta c))\<rparr> in
        res_bind (fetch_data (cat_bpm c) page_id) (\<lambda>(f, m, b1).
        res_bind (TableMetadata_DeserializeFrom m 0) (\<lambda>(meta, _).
          Inr (DB_SUCCESS, c\<lparr>cat_bpm := b1, cat_meta := meta1,
                 table_names := AList.update (tm_table_name meta) table_id (table_names c),
                 tables := AList.update table_id (Some (TableInfo_Init meta (TableHeap_open page_id (tm_schema meta)))) (tables c)\<rparr>))))"

section \<open>Indexes\<close>

fun key_columns :: "schema \<Rightarrow> string list \<Rightarrow> u32 list option res" where
  "key_columns sch [] = Inr (Some [])"
| "key_columns sch (name # names) =
     res_bind (GetColumnIndex sch name) (\<lambda>(e, found).
       case found of
         None \<Rightarrow> Inr None
       | Some i \<Rightarrow> res_bind (key_columns sch names) (\<lambda>r. Inr (map_option (\<lambda>ks. word_of_nat i # ks) r)))"

definition CreateIndex :: "catalog_manager \<Rightarrow> string \<Rightarrow> string \<Rightarrow> string list \<Rightarrow> (dberr \<times> index_info option \<times> catalog_manager) res" where
  "CreateIndex c table_name index_name index_keys =
     (case map_of (table_names c) table_name of
        None \<Rightarrow> Inr (DB_TABLE_NOT_EXIST, None, c)
      | Some table_id \<Rightarrow>
          let (names, ns) = at_or_new [] table_name (index_names c); c1 = c\<lparr>index_names := ns\<rparr> in
          if map_of names index_name \<noteq> None then Inr (DB_INDEX_ALREADY_EXIST, None, c1)
          else
            let (t, ts) = at_or_new None table_id (tables c1); c2 = c1\<lparr>tables := ts\<rparr> in
            case t of
              None \<Rightarrow> Inl NullDeref
            | Some info \<Rightarrow>
                res_bind (key_columns (GetSchema info) index_keys) (\<lambda>km. case km of
                  None \<Rightarrow> Inr (DB_COLUMN_NAME_NOT_EXIST, None, c2)
                | Some key_map \<Rightarrow>
                    let index_id = GetNextIndexId (cat_meta c2) in
                    res_bind (NewPage (cat_bpm c2)) (\<lambda>(r, b1). case r of
                      None \<Rightarrow> Inl Undefined
                    | Some (f, page_id) \<Rightarrow>
                        let b2 = unpin b1 page_id True;
                            meta = IndexMetadata_Create index_id index_name table_id key_map in
                        res_bind (IndexMetadata_SerializeTo meta) (\<lambda>bs.
                        res_bind (IndexInfo_Init meta (Some info)) (\<lambda>x.
                          Inr (DB_SUCCESS, Some x,
                            c2\<lparr>cat_bpm := put_mem f (poke (page_mem b2 f) 0 bs) b2,
                               cat_meta := (cat_meta c2)\<lparr>index_meta_pages := map_put index_id page_id (index_meta_pages (cat_meta c2))\<rparr>,
                               index_names := AList.update table_name (AList.update index_name index_id names) (index_names c2),
                               indexes := AList.update index_id x (indexes c2)\<rparr>))))))"

definition GetIndex :: "catalog_manager \<Rightarrow> string \<Rightarrow> string \<Rightarrow> (dberr \<times> index_info option) res" where
  "GetIndex c table_name index_name =
     (if map_of (table_names c) table_name = None then Inr (DB_TABLE_NOT_EXIST, None)
      else case map_of (index_names c) table_name of
        None \<Rightarrow> Inl OutOfRange
      | Some names \<Rightarrow>
          (case map_of names index_name of
             None \<Rightarrow> Inr (DB_INDEX_NOT_FOUND, None)
           | Some index_id \<Rightarrow>
               (case map_of (indexes c) index_id of
                  None \<Rightarrow> Inl OutOfRange
                | Some x \<Rightarrow> Inr (DB_SUCCESS, Some x))))"

definition GetTableIndexes :: "catalog_manager \<Rightarrow> string \<Rightarrow> index_info list \<Rightarrow> dberr \<times> index_info list" where
  "GetTableIndexes c table_name out =
     (if map_of (table_names c) table_name = None then (DB_TABLE_NOT_EXIST, out)
      else (DB_SUCCESS, out @ filter (\<lambda>x. GetTableName (ii_table x) = table_name) (map snd (indexes c))))"

definition DropIndex :: "catalog_manager \<Rightarrow> string \<Rightarrow> string \<Rightarrow> (dberr \<times> catalog_manager) res" where
  "DropIndex c table_name index_name =
     (if map_of (table_names c) table_name = None then Inr (DB_TABLE_NOT_EXIST, c)
      else case map_of (index_names c) table_name of
        None \<Rightarrow> Inl OutOfRange
      | Some names \<Rightarrow>
          (case map_of names index_name of
             None \<Rightarrow> Inr (DB_INDEX_NOT_FOUND, c)
           | Some index_id \<Rightarrow>
               let page_id = (case map_of (index_meta_pages (cat_meta c)) index_id of Some p \<Rightarrow> p | None \<Rightarrow> 0)
               in Inr (DB_SUCCESS,
                   c\<lparr>cat_bpm := snd (DeletePage (cat_bpm c) page_id),
                     cat_meta := (cat_meta c)\<lparr>index_meta_pages := map_erase index_id (index_meta_pages (cat_meta c))\<rparr>,
                     index_names := AList.delete table_name (index_names c),
                     indexes := AList.delete index_id (indexes c)\<rparr>)))"

definition LoadIndex :: "catalog_manager \<Rightarrow> u32 \<Rightarrow> page_id \<Rightarrow> (dberr \<times> catalog_manager) res" where
  "LoadIndex c index_id page_id =
     (if map_of (indexes c) index_id \<noteq> None then Inr (DB_INDEX_ALREADY_EXIST, c)
      else
        res_bind (fetch_data (cat_bpm c) page_id) (\<lambda>(f, m, b1).
        res_bind (IndexMetadata_DeserializeFrom m 0) (\<lambda>(meta, _).
        res_bind (add_index meta index_id (c\<lparr>cat_bpm := b1,
            cat_meta := (cat_meta c)\<lparr>index_meta_pages := map_put index_id page_id (index_meta_pages (cat_meta c))\<rparr>\<rparr>)) (\<lambda>c'.
          Inr (DB_SUCCESS, c')))))"

section \<open>Pages the catalog takes from the pool\<close>

lemma NewPage_pinned:
  assumes inv: "pool_inv b" and room: "disk_room (disk b)" and call: "NewPage b = Inr (Some (g, q), b')"
  shows "pool_inv b'" and "page_table b' q = Some g" and "page_mem b' g = zero_mem" and "pin_count (pages b' ! g) \<noteq> 0"
    and "valid_pid q" and "q \<notin> disk_used (disk b)" and "disk_used (disk b') = insert q (disk_used (disk b))"
    and "page_table b p = Some f \<Longrightarrow> pin_count (pages b ! f) \<noteq> 0 \<Longrightarrow>
      page_table b' p = Some f \<and> page_mem b' f = page_mem b f \<and> q \<noteq> p \<and> g \<noteq> f"
proof -
  have ok: "bpm_ok b" and tu: "table_used b" using inv by (simp_all add: pool_inv_def)
  have np: "\<not> all_pinned b" using call NewPage_full [of b] by auto
  obtain f' p' r fl s d where a: "DiskManager_AllocatePage (disk b) = (p', s)" and ev: "evictable b f' r fl"
    and e: "evicted_disk b f' zero_mem s d" and c: "NewPage b = Inr (Some (f', p'), install f' (blank_page p') d r fl b)"
    using NewPage_some [OF ok room np] by metis
  have eq: "f' = g" "p' = q" "b' = install g (blank_page q) d r fl b" using c call by simp_all
  note N = NewPage_fresh [OF ok room tu a, unfolded eq]
  have g: "g < pool_size b" "g < length (pages b)" "pin_count (pages b ! g) = 0"
    using ev bpm_okD(1) [OF ok] by (simp_all add: evictable_def eq)
  show "pool_inv b'" by (rule NewPage_inv [OF inv room call])
  show "page_table b' q = Some g" "page_mem b' g = zero_mem" "pin_count (pages b' ! g) \<noteq> 0"
    using g by (simp_all add: eq(3) page_mem_def)
  show "valid_pid q" "q \<notin> disk_used (disk b)" using N by simp_all
  show "disk_used (disk b') = insert q (disk_used (disk b))" using e N by (simp add: eq(3) evicted_disk_def)
  show "page_table b' p = Some f \<and> page_mem b' f = page_mem b f \<and> q \<noteq> p \<and> g \<noteq> f"
    if t: "page_table b p = Some f" and pin: "pin_count (pages b ! f) \<noteq> 0"
  proof -
    have "g \<noteq> f" using pin g by auto
    moreover have "q \<noteq> p" using t N(1) by auto
    moreover have "p \<noteq> page_id_of (pages b ! g)" using table_page_id [OF ok t g(1)] \<open>g \<noteq> f\<close> by simp
    ultimately show ?thesis using t g by (simp add: eq(3) page_mem_def)
  qed
qed

lemma TableHeap_create_pinned:
  assumes inv: "pool_inv b" and room: "disk_room (disk b)" and np: "\<not> all_pinned b"
    and t: "page_table b p = Some f" "pin_count (pages b ! f) \<noteq> 0"
  obtains h b' where "TableHeap_create b sch = Inr (h, b')" and "pool_inv b'" and "heap_schema h = sch" and "page_table b' p = Some f"
    and "page_mem b' f = page_mem b f" and "first_page_id h \<noteq> p" and "valid_pid (first_page_id h)"
    and "page_view b' (first_page_id h) = TablePage_Init zero_mem (first_page_id h) 4096" and "page_table b' (first_page_id h) \<noteq> None"
proof -
  have ok: "bpm_ok b" using inv by (simp add: pool_inv_def)
  obtain g q b1 where N: "NewPage b = Inr (Some (g, q), b1)" using NewPage_some [OF ok room np] by metis
  note P = NewPage_pinned [OF inv room N]
  let ?m = "TablePage_Init zero_mem q 4096"
  have cl: "clipped ?m" by (rule Init_clipped) simp
  note U = put_unpin_dirty [OF P(1,2) cl]
  have k: "page_table b1 p = Some f" "page_mem b1 f = page_mem b f" "q \<noteq> p" "g \<noteq> f" using P(8) [OF t] by simp_all
  have ok1: "bpm_ok b1" using P(1) by (simp add: pool_inv_def)
  note M = put_mem_resident [OF ok1 P(2) cl]
  have c: "TableHeap_create b sch = Inr (\<lparr>first_page_id = q, heap_schema = sch\<rparr>, unpin (put_mem g ?m b1) q True)"
    by (simp add: TableHeap_create_def N P(3) PAGE_SIZE_def)
  have "page_mem (unpin (put_mem g ?m b1) q True) f = page_mem b f"
    using unpin_mem(1) [OF M(1)] M(6) [of f] k by simp
  moreover have "page_table (unpin (put_mem g ?m b1) q True) p = Some f" using M(2) k by simp
  ultimately show ?thesis using that [OF c U(1)] k P(5) U(2,3) by simp
qed

lemma at_or_new_some [simp]: "map_of m k = Some v \<Longrightarrow> at_or_new d k m = (v, m)"
  by (simp add: at_or_new_def)

lemma poke_clipped: "clipped m \<Longrightarrow> length bs \<le> PAGE_SIZE \<Longrightarrow> clipped (poke m 0 bs)"
  by (simp add: clipped_def poke_def)

lemma map_of_map_put [simp]: "map_of (map_put k v xs) k = Some v"
proof -
  have "map_of (insort_key fst (k, v) ys) k = Some v" if "k \<notin> fst ` set ys" for ys
    using that by (induction ys) (auto simp: image_iff)
  from this [of "filter (\<lambda>x. fst x \<noteq> k) xs"] show ?thesis by (simp add: map_put_def image_iff)
qed

lemma set_insort_fst [simp]: "set (insort_key fst x xs) = insert x (set xs)"
  by (rule set_insort_key)

lemma set_map_put: "set (map_put k v xs) \<subseteq> insert (k, v) (set xs)"
  by (auto simp: map_put_def)

lemma set_alist_update: "set (AList.update k v xs) \<subseteq> insert (k, v) (set xs)"
  by (induction xs) auto

lemma set_alist_delete: "set (AList.delete k xs) \<subseteq> set xs"
  by (auto simp: AList.delete_eq)

lemma at_or_new_cases: "at_or_new d k m = (v, m') \<Longrightarrow> set m' \<subseteq> insert (k, d) (set m) \<and> (v = d \<or> (k, v) \<in> set m)"
  using set_alist_update [of k d m] by (auto simp: at_or_new_def dest: map_of_SomeD split: option.splits)

section \<open>Pools with free frames\<close>

definition roomy :: "bpm \<Rightarrow> nat \<Rightarrow> bool" where
  "roomy b n \<longleftrightarrow> pool_inv b \<and> n \<le> length (free_list b) \<and> card (disk_used (disk b)) + n \<le> 100"

lemma roomy_room:
  assumes "roomy b (Suc n)"
  shows "disk_room (disk b)" and "\<not> all_pinned b"
proof -
  have ok: "bpm_ok b" using assms by (simp add: roomy_def pool_inv_def)
  have fin: "finite (disk_used (disk b))"
    by (rule finite_subset [of _ "{0..<MAX_LOGICAL}"]) (auto simp: disk_used_def)
  have "\<not> {0..<100} \<subseteq> disk_used (disk b)"
  proof
    assume "{0..<100} \<subseteq> disk_used (disk b)"
    from card_mono [OF fin this] assms show False by (simp add: roomy_def)
  qed
  then obtain p where "p \<in> {0..<100 :: int}" "p \<notin> disk_used (disk b)" by blast
  then show "disk_room (disk b)" using disk_room_if_free [OF bpm_okD(2) [OF ok], of p] by (auto simp: MAX_LOGICAL_def)
  obtain t where t: "t \<in> set (free_list b)" using assms by (cases "free_list b") (auto simp: roomy_def)
  then have "t < pool_size b" using bpm_okD(5) [OF ok] by auto
  with bpm_okD(6) [OF ok this] t show "\<not> all_pinned b" using all_pinned_nth [OF ok] by (auto simp: frame_ok_def)
qed

lemma roomy_NewPage:
  assumes r: "roomy b (Suc n)"
  obtains f p b' where "NewPage b = Inr (Some (f, p), b')" and "roomy b' n"
proof -
  have inv: "pool_inv b" and ok: "bpm_ok b" using r by (simp_all add: roomy_def pool_inv_def)
  obtain f p rr fl s d where pick: "pick_frame b = (Some f, b\<lparr>repl := rr, free_list := fl\<rparr>)"
    and c: "NewPage b = Inr (Some (f, p), install f (blank_page p) d rr fl b)"
    using NewPage_some [OF ok roomy_room [OF r]] by metis
  note P = NewPage_pinned [OF inv roomy_room(1) [OF r] c]
  have "free_list (install f (blank_page p) d rr fl b) = tl (free_list b)"
    using arg_cong [OF pick, of "\<lambda>x. free_list (snd x)"] r by (cases "free_list b") (auto simp: pick_frame_def roomy_def)
  moreover have "card (insert p (disk_used (disk b))) \<le> Suc (card (disk_used (disk b)))" by (rule card_insert_le_m1) simp_all
  ultimately have "roomy (install f (blank_page p) d rr fl b) n" using r P(1,7) by (auto simp: roomy_def)
  with that c show ?thesis by blast
qed

lemma unpin_free_list [simp]: "free_list (unpin b p x) = free_list b"
  by (simp add: unpin_def UnpinPage_def Let_def split: option.splits)

lemma roomy_put_unpin:
  assumes "roomy b n" and "page_table b p = Some f" and "clipped m"
  shows "roomy (unpin (put_mem f m b) p True) n"
  using assms put_unpin_dirty [of b p f m] by (simp add: roomy_def put_mem_def)

lemma create_table_roomy:
  assumes r: "roomy (cat_bpm c) (Suc (Suc n))" and new: "map_of (table_names c) name = None"
    and fits: "\<forall>q. valid_pid q \<longrightarrow> table_metadata_ok (TableMetadata_Create (GetNextTableId (cat_meta c)) name q sch)"
  obtains info c' where "CreateTable c name sch = Inr (DB_SUCCESS, Some info, c')" and "roomy (cat_bpm c') n"
proof -
  obtain f p b1 where N: "NewPage (cat_bpm c) = Inr (Some (f, p), b1)" "roomy b1 (Suc n)" by (rule roomy_NewPage [OF r])
  have inv: "pool_inv (cat_bpm c)" and inv1: "pool_inv b1" using r N(2) by (simp_all add: roomy_def)
  note P = NewPage_pinned [OF inv roomy_room(1) [OF r] N(1)]
  obtain g q b2 where M: "NewPage b1 = Inr (Some (g, q), b2)" "roomy b2 n" by (rule roomy_NewPage [OF N(2)])
  note Q = NewPage_pinned [OF inv1 roomy_room(1) [OF N(2)] M(1)]
  let ?h = "\<lparr>first_page_id = q, heap_schema = sch\<rparr>" and ?m = "TablePage_Init (page_mem b2 g) q 4096"
  have cl: "clipped ?m" by (rule Init_clipped) (simp add: Q(3))
  let ?b3 = "unpin (put_mem g ?m b2) q True"
  have h: "TableHeap_create b1 sch = Inr (?h, ?b3)" by (simp add: TableHeap_create_def M(1) PAGE_SIZE_def)
  have r3: "roomy ?b3 n" by (rule roomy_put_unpin [OF M(2) Q(2) cl])
  have k: "page_table b2 p = Some f" using Q(8) [OF P(2,4)] by simp
  have t3: "page_table ?b3 p = Some f" using k by (simp add: put_mem_def)
  obtain bs where B: "TableMetadata_SerializeTo (TableMetadata_Create (GetNextTableId (cat_meta c)) name q sch) = Inr bs" "length bs \<le> PAGE_SIZE"
    using tm.roundtrip fits Q(5) by meson
  have "bpm_ok ?b3" using r3 by (simp add: roomy_def pool_inv_def)
  then have "clipped (page_mem ?b3 f)" using resident_facts(7) [OF _ t3] by (simp add: page_mem_def)
  then have "clipped (poke (page_mem ?b3 f) 0 bs)" using B(2) by (rule poke_clipped)
  from roomy_put_unpin [OF r3 t3 this] show ?thesis
    using that new N(1) h B(1) by (simp add: CreateTable_def Let_def)
qed

lemma roomy_new_pool: "n \<le> 100 \<Longrightarrow> roomy (BufferPoolManager n (DiskManager_open zero_mem 0)) n"
  using pool_init_inv [OF open_empty_ok] by (simp add: roomy_def BufferPoolManager_def open_empty_used)

text \<open>Creating a table with a new name.\<close>

lemma CreateTable_new:
  assumes new: "map_of (table_names c) name = None" and inv: "pool_inv (cat_bpm c)" and room: "disk_room (disk (cat_bpm c))"
    and page: "NewPage (cat_bpm c) = Inr (Some (f, p), b1)" and room1: "disk_room (disk b1)" and np1: "\<not> all_pinned b1"
    and fits: "\<forall>q. valid_pid q \<longrightarrow> table_metadata_ok (TableMetadata_Create (GetNextTableId (cat_meta c)) name q sch)"
  shows "\<exists>info c'. CreateTable c name sch = Inr (DB_SUCCESS, Some info, c') \<and> GetTable c' name = (DB_SUCCESS, Some info, c') \<and>
    GetTableName info = name \<and> GetSchema info = sch \<and> heap_schema (ti_heap info) = sch \<and> pool_inv (cat_bpm c') \<and>
    page_view (cat_bpm c') (first_page_id (ti_heap info)) = TablePage_Init zero_mem (first_page_id (ti_heap info)) 4096 \<and>
    map_of (table_meta_pages (cat_meta c')) (GetNextTableId (cat_meta c)) = Some p \<and>
    load_table_metadata (page_view (cat_bpm c') p) 0 = Inr (ti_meta info) \<and>
    CreateTable c' name sch' = Inr (DB_TABLE_ALREADY_EXIST, None, c')"
proof -
  note P = NewPage_pinned [OF inv room page]
  obtain h b2 where H: "TableHeap_create b1 sch = Inr (h, b2)" "pool_inv b2" "heap_schema h = sch" "page_table b2 p = Some f"
    "page_mem b2 f = page_mem b1 f" "first_page_id h \<noteq> p" "valid_pid (first_page_id h)"
    "page_view b2 (first_page_id h) = TablePage_Init zero_mem (first_page_id h) 4096"
    using TableHeap_create_pinned [OF P(1) room1 np1 P(2,4)] by metis
  let ?id = "GetNextTableId (cat_meta c)"
  let ?meta = "TableMetadata_Create ?id name (first_page_id h) sch"
  have "table_metadata_ok ?meta" using fits H(7) by simp
  then obtain bs where B: "TableMetadata_SerializeTo ?meta = Inr bs" "length bs \<le> PAGE_SIZE"
    "\<forall>m a. holds m a bs \<longrightarrow> load_table_metadata m a = Inr ?meta" using tm.roundtrip by blast
  let ?m = "poke (page_mem b2 f) 0 bs"
  have cl: "clipped ?m" using H(5) P(3) B(2) by (simp add: poke_clipped)
  note U = put_unpin_dirty [OF H(2,4) cl]
  let ?b3 = "unpin (put_mem f ?m b2) p True" and ?info = "TableInfo_Init ?meta h"
  let ?c = "c\<lparr>cat_bpm := ?b3, cat_meta := (cat_meta c)\<lparr>table_meta_pages := map_put ?id p (table_meta_pages (cat_meta c))\<rparr>,
     table_names := AList.update name ?id (table_names c), tables := AList.update ?id (Some ?info) (tables c)\<rparr>"
  have C: "CreateTable c name sch = Inr (DB_SUCCESS, Some ?info, ?c)"
    using new page H(1) B(1) by (simp add: CreateTable_def Let_def)
  have "GetTable ?c name = (DB_SUCCESS, Some ?info, ?c)" "CreateTable ?c name sch' = Inr (DB_TABLE_ALREADY_EXIST, None, ?c)"
    by (simp_all add: GetTable_def CreateTable_def update_conv' at_or_new_def)
  moreover have "load_table_metadata (page_view ?b3 p) 0 = Inr ?meta" using B(3) U(2) by simp
  ultimately show ?thesis
    using C U(1,2) H(3,6,8) by (intro exI [of _ ?info] exI [of _ ?c])
      (simp add: GetTableName_def GetSchema_def TableInfo_Init_def TableMetadata_Create_def)
qed

section \<open>Properties\<close>

text \<open>
  C34. Creating a table: when the name is new and the pool can provide the two pages, \<^verbatim>\<open>CreateTable\<close> returns
  \<^verbatim>\<open>DB_SUCCESS\<close>; then \<^verbatim>\<open>GetTable\<close> finds the table with its name and schema and an empty first page, the
  metadata page recorded for its id holds the serialised metadata, the pool invariant is kept, and creating
  the same name again reports \<^verbatim>\<open>DB_TABLE_ALREADY_EXIST\<close> without a change.
\<close>

theorem create_table_then_get:
  assumes new: "map_of (table_names c) name = None" and inv: "pool_inv (cat_bpm c)" and room: "disk_room (disk (cat_bpm c))"
    and page: "NewPage (cat_bpm c) = Inr (Some (f, p), b1)" and room1: "disk_room (disk b1)" and np1: "\<not> all_pinned b1"
    and fits: "\<forall>q. valid_pid q \<longrightarrow> table_metadata_ok (TableMetadata_Create (GetNextTableId (cat_meta c)) name q sch)"
  shows "\<exists>info c'. CreateTable c name sch = Inr (DB_SUCCESS, Some info, c') \<and> GetTable c' name = (DB_SUCCESS, Some info, c') \<and>
    GetTableName info = name \<and> GetSchema info = sch \<and> heap_schema (ti_heap info) = sch \<and> pool_inv (cat_bpm c') \<and>
    page_view (cat_bpm c') (first_page_id (ti_heap info)) = TablePage_Init zero_mem (first_page_id (ti_heap info)) 4096 \<and>
    map_of (table_meta_pages (cat_meta c')) (GetNextTableId (cat_meta c)) = Some p \<and>
    load_table_metadata (page_view (cat_bpm c') p) 0 = Inr (ti_meta info) \<and>
    CreateTable c' name sch' = Inr (DB_TABLE_ALREADY_EXIST, None, c')"
  using CreateTable_new [OF assms] .

lemma example_metadata_fits: "valid_pid q \<Longrightarrow> table_metadata_ok (TableMetadata_Create 0 ''t'' q example_schema)"
  using example_schema_ok valid_pid_int [of q]
  by (simp add: table_metadata_ok_def TableMetadata_Create_def) (simp add: example_schema_def Schema_SerializeTo_def PAGE_SIZE_def)

theorem create_table_then_get_witness:
  "\<exists>info c'. CreateTable (empty_catalog (BufferPoolManager 4 (DiskManager_open zero_mem 0))) ''t'' example_schema = Inr (DB_SUCCESS, Some info, c') \<and>
     GetTable c' ''t'' = (DB_SUCCESS, Some info, c') \<and> GetSchema info = example_schema"
proof -
  let ?b = "BufferPoolManager 4 (DiskManager_open zero_mem 0)"
  have r: "roomy ?b (Suc (Suc (Suc (Suc 0))))" using roomy_new_pool [of 4] by (simp add: numeral_eq_Suc)
  obtain f p b1 where "NewPage ?b = Inr (Some (f, p), b1)" "roomy b1 (Suc (Suc (Suc 0)))" by (rule roomy_NewPage [OF r])
  then have N: "NewPage ?b = Inr (Some (f, p), b1)" "disk_room (disk b1)" "\<not> all_pinned b1" using roomy_room by auto
  have "pool_inv ?b" by (rule pool_init_inv [OF open_empty_ok])
  moreover have "disk_room (disk ?b)" using fresh_disk_room by (simp add: BufferPoolManager_def)
  moreover have "map_of (table_names (empty_catalog ?b)) ''t'' = None" "cat_bpm (empty_catalog ?b) = ?b"
    "GetNextTableId (cat_meta (empty_catalog ?b)) = 0"
    by (simp_all add: empty_catalog_def GetNextTableId_def CatalogMeta_NewInstance_def)
  ultimately show ?thesis
    using create_table_then_get [of "empty_catalog ?b" "''t''" f p b1 example_schema example_schema] N example_metadata_fits
    by simp blast
qed

section \<open>Ids\<close>

text \<open>The catalogs a client can reach from a new one.\<close>

inductive cat_reachable :: "catalog_manager \<Rightarrow> bool" where
  cr_init: "CatalogManager b True = Inr c \<Longrightarrow> cat_reachable c"
| cr_create: "cat_reachable c \<Longrightarrow> CreateTable c n sch = Inr (e, x, c') \<Longrightarrow> cat_reachable c'"
| cr_get: "cat_reachable c \<Longrightarrow> GetTable c n = (e, x, c') \<Longrightarrow> cat_reachable c'"
| cr_drop: "cat_reachable c \<Longrightarrow> DropTable c n = (e, c') \<Longrightarrow> cat_reachable c'"
| cr_create_index: "cat_reachable c \<Longrightarrow> CreateIndex c n i ks = Inr (e, y, c') \<Longrightarrow> cat_reachable c'"
| cr_drop_index: "cat_reachable c \<Longrightarrow> DropIndex c n i = Inr (e, c') \<Longrightarrow> cat_reachable c'"
| cr_flush: "cat_reachable c \<Longrightarrow> FlushCatalogMetaPage c = Inr (e, c') \<Longrightarrow> cat_reachable c'"

definition ids_zero :: "catalog_manager \<Rightarrow> bool" where
  "ids_zero c \<longleftrightarrow> snd ` set (table_names c) \<subseteq> {0} \<and> fst ` set (table_meta_pages (cat_meta c)) \<subseteq> {0} \<and>
     fst ` set (index_meta_pages (cat_meta c)) \<subseteq> {0} \<and> (\<forall>ns \<in> snd ` set (index_names c). snd ` set ns \<subseteq> {0})"

lemma next_id_zero:
  "fst ` set (table_meta_pages m) \<subseteq> {0} \<Longrightarrow> GetNextTableId m = 0" "fst ` set (index_meta_pages m) \<subseteq> {0} \<Longrightarrow> GetNextIndexId m = 0"
proof -
  have "fst (last xs) = 0" if "xs \<noteq> []" "fst ` set xs \<subseteq> {0}" for xs :: page_map
    using imageI [OF last_in_set [OF that(1)], of fst] that(2) by auto
  then show "fst ` set (table_meta_pages m) \<subseteq> {0} \<Longrightarrow> GetNextTableId m = 0" "fst ` set (index_meta_pages m) \<subseteq> {0} \<Longrightarrow> GetNextIndexId m = 0"
    by (simp_all add: GetNextTableId_def GetNextIndexId_def)
qed

lemma map_erase_subset: "set (map_erase k xs) \<subseteq> set xs"
  by (auto simp: map_erase_def)

lemma ids_zero_CreateTable: "ids_zero c \<Longrightarrow> CreateTable c n sch = Inr (e, x, c') \<Longrightarrow> ids_zero c'"
  using set_map_put [of 0 _ "table_meta_pages (cat_meta c)"] set_alist_update [of n 0 "table_names c"] next_id_zero(1) [of "cat_meta c"]
  by (fastforce simp: ids_zero_def CreateTable_def Let_def res_simps split: if_splits option.splits)

lemma ids_zero_DropTable: "ids_zero c \<Longrightarrow> DropTable c n = (e, c') \<Longrightarrow> ids_zero c'"
  using map_erase_subset [of _ "table_meta_pages (cat_meta c)"] set_alist_delete [of n "table_names c"]
  by (fastforce simp: ids_zero_def DropTable_def Let_def split: option.splits)

lemma ids_zero_DropIndex: "ids_zero c \<Longrightarrow> DropIndex c n i = Inr (e, c') \<Longrightarrow> ids_zero c'"
  using map_erase_subset [of _ "index_meta_pages (cat_meta c)"] set_alist_delete [of n "index_names c"]
  by (fastforce simp: ids_zero_def DropIndex_def Let_def split: option.splits if_splits)

lemma ids_zero_frame [simp]: "ids_zero (c\<lparr>tables := t\<rparr>) = ids_zero c" "ids_zero (c\<lparr>cat_bpm := b\<rparr>) = ids_zero c"
  by (simp_all add: ids_zero_def)

lemma zero_update: "snd ` set ns \<subseteq> {0} \<Longrightarrow> snd ` set (AList.update i 0 ns) \<subseteq> {0}"
  using set_alist_update [of i 0 ns] by force

lemma alist_update_all: "\<forall>x \<in> snd ` set xs. P x \<Longrightarrow> P v \<Longrightarrow> \<forall>x \<in> snd ` set (AList.update k v xs). P x"
  by (induction xs) auto

lemma ids_zero_CreateIndex:
  assumes z: "ids_zero c" and call: "CreateIndex c n i ks = Inr (e, y, c')"
  shows "ids_zero c'"
proof (cases "map_of (table_names c) n")
  case None
  then show ?thesis using assms by (simp add: CreateIndex_def)
next
  case (Some k)
  obtain names ns where N: "at_or_new [] n (index_names c) = (names, ns)" by (cases "at_or_new [] n (index_names c)")
  obtain t ts where T: "at_or_new None k (tables c) = (t, ts)" by (cases "at_or_new None k (tables c)")
  have ns: "set ns \<subseteq> insert (n, []) (set (index_names c))" "names = [] \<or> (n, names) \<in> set (index_names c)" using at_or_new_cases [OF N] by auto
  have names: "snd ` set names \<subseteq> {0}" using ns(2) z by (force simp: ids_zero_def)
  have all: "\<forall>xs \<in> snd ` set (index_names c). snd ` set xs \<subseteq> {0}" using z unfolding ids_zero_def by (elim conjE)
  have sub: "snd ` set ns \<subseteq> insert [] (snd ` set (index_names c))" using image_mono [OF ns(1), of snd] by simp
  have z1: "\<forall>xs \<in> snd ` set ns. snd ` set xs \<subseteq> {0}"
  proof
    fix xs assume "xs \<in> snd ` set ns"
    then have "xs = [] \<or> xs \<in> snd ` set (index_names c)" using subsetD [OF sub] by (metis insert_iff)
    then show "snd ` set xs \<subseteq> {0}" using bspec [OF all, of xs] by (cases "xs = []") simp_all
  qed
  have id: "GetNextIndexId (cat_meta c) = 0" using next_id_zero(2) z by (simp add: ids_zero_def)
  have upd: "\<forall>xs \<in> snd ` set (AList.update n (AList.update i 0 names) ns). snd ` set xs \<subseteq> {0}"
    by (rule alist_update_all [OF z1 zero_update [OF names]])
  have pages: "fst ` set (map_put 0 p (index_meta_pages (cat_meta c))) \<subseteq> {0}" for p
    using set_map_put [of 0 p "index_meta_pages (cat_meta c)"] z by (force simp: ids_zero_def)
  have early: "ids_zero (c\<lparr>index_names := ns\<rparr>)" using z z1 by (simp add: ids_zero_def)
  have final: "ids_zero (c\<lparr>tables := ts, cat_bpm := b, cat_meta := (cat_meta c)\<lparr>index_meta_pages := map_put 0 p (index_meta_pages (cat_meta c))\<rparr>,
      index_names := AList.update n (AList.update i 0 names) ns, indexes := xs\<rparr>)" for b p xs
    using z upd pages by (simp add: ids_zero_def)
  from call Some N T early show ?thesis
    by (auto simp: CreateIndex_def Let_def id res_simps intro!: final split: if_splits option.splits)
qed

lemma cat_reachable_ids: "cat_reachable c \<Longrightarrow> ids_zero c"
proof (induction rule: cat_reachable.induct)
  case (cr_init b c)
  then show ?case by (auto simp: CatalogManager_def empty_catalog_def CatalogMeta_NewInstance_def ids_zero_def)
next
  case (cr_get c n e x c')
  then show ?case by (auto simp: GetTable_def split: option.splits prod.splits)
next
  case (cr_flush c e c')
  then show ?case by (auto simp: FlushCatalogMetaPage_def res_simps)
next
  case (cr_create c n sch e x c')
  from ids_zero_CreateTable [OF cr_create.IH cr_create.hyps(2)] show ?case .
next
  case (cr_drop c n e c')
  from ids_zero_DropTable [OF cr_drop.IH cr_drop.hyps(2)] show ?case .
next
  case (cr_create_index c n i ks e y c')
  from ids_zero_CreateIndex [OF cr_create_index.IH cr_create_index.hyps(2)] show ?case .
next
  case (cr_drop_index c n i e c')
  from ids_zero_DropIndex [OF cr_drop_index.IH cr_drop_index.hyps(2)] show ?case .
qed

text \<open>
  C35. All tables of a catalog share one id: \<^verbatim>\<open>GetNextTableId\<close> returns the largest id in use instead of the
  next one, so in every catalog that clients can reach from a new one by creating, looking up and dropping tables
  and indexes and by flushing, every name stands for id 0 and the next table gets id 0. Two names that exist
  therefore resolve to the same table, creating a table makes all names resolve to it, and dropping one of two
  names leaves the other one resolving to a null pointer.
\<close>

theorem tables_share_one_id:
  assumes "cat_reachable c"
  shows "(\<forall>n i. map_of (table_names c) n = Some i \<longrightarrow> i = 0) \<and> fst ` set (table_meta_pages (cat_meta c)) \<subseteq> {0} \<and>
    (\<forall>n k. fst (GetTable c n) = DB_SUCCESS \<and> fst (GetTable c k) = DB_SUCCESS \<longrightarrow>
      fst (snd (GetTable c n)) = fst (snd (GetTable c k)) \<and>
      (n \<noteq> k \<longrightarrow> (\<exists>c''. GetTable (snd (DropTable c n)) k = (DB_SUCCESS, None, c'')))) \<and>
    (\<forall>u sch info c'. CreateTable c u sch = Inr (DB_SUCCESS, Some info, c') \<longrightarrow> tm_table_id (ti_meta info) = 0 \<and>
      (\<forall>n. n = u \<or> fst (GetTable c n) = DB_SUCCESS \<longrightarrow> GetTable c' n = (DB_SUCCESS, Some info, c')))"
proof -
  have z: "ids_zero c" using cat_reachable_ids [OF assms(1)] .
  have zero: "map_of (table_names c) m = Some i \<Longrightarrow> i = 0" for m i using z by (force simp: ids_zero_def dest: map_of_SomeD)
  have ex: "map_of (table_names c) m = Some 0" if "fst (GetTable c m) = DB_SUCCESS" for m
    using that zero by (auto simp: GetTable_def split: option.splits)
  have id: "GetNextTableId (cat_meta c) = 0" using next_id_zero(1) z by (simp add: ids_zero_def)
  have created: "tm_table_id (ti_meta info) = 0 \<and> (n = u \<or> fst (GetTable c n) = DB_SUCCESS \<longrightarrow> GetTable c' n = (DB_SUCCESS, Some info, c'))"
    if "CreateTable c u sch = Inr (DB_SUCCESS, Some info, c')" for u sch info c' n
    using that ex [of n] id by (auto simp: CreateTable_def GetTable_def Let_def res_simps update_conv' TableInfo_Init_def TableMetadata_Create_def
        split: if_splits option.splits)
  have pair: "fst (snd (GetTable c n)) = fst (snd (GetTable c k)) \<and>
      (n \<noteq> k \<longrightarrow> (\<exists>c''. GetTable (snd (DropTable c n)) k = (DB_SUCCESS, None, c'')))"
    if "fst (GetTable c n) = DB_SUCCESS \<and> fst (GetTable c k) = DB_SUCCESS" for n k
    using ex [of n] ex [of k] that by (simp add: DropTable_def GetTable_def Let_def delete_conv' at_or_new_def split: prod.splits)
  have "fst ` set (table_meta_pages (cat_meta c)) \<subseteq> {0}" using z by (simp add: ids_zero_def)
  then show ?thesis
  proof (intro conjI)
    show "\<forall>n i. map_of (table_names c) n = Some i \<longrightarrow> i = 0" by (intro allI impI) (rule zero)
    show "\<forall>n k. fst (GetTable c n) = DB_SUCCESS \<and> fst (GetTable c k) = DB_SUCCESS \<longrightarrow>
      fst (snd (GetTable c n)) = fst (snd (GetTable c k)) \<and>
      (n \<noteq> k \<longrightarrow> (\<exists>c''. GetTable (snd (DropTable c n)) k = (DB_SUCCESS, None, c'')))" by (intro allI impI) (rule pair)
    show "\<forall>u sch info c'. CreateTable c u sch = Inr (DB_SUCCESS, Some info, c') \<longrightarrow> tm_table_id (ti_meta info) = 0 \<and>
      (\<forall>n. n = u \<or> fst (GetTable c n) = DB_SUCCESS \<longrightarrow> GetTable c' n = (DB_SUCCESS, Some info, c'))"
      by (intro allI impI conjI) (erule created [THEN conjunct1], erule created [THEN conjunct2, THEN mp])
  qed
qed

lemma example_names_fit: "length n \<le> 8 \<Longrightarrow> valid_pid q \<Longrightarrow> table_metadata_ok (TableMetadata_Create 0 n q example_schema)"
  using example_schema_ok valid_pid_int [of q]
  by (simp add: table_metadata_ok_def TableMetadata_Create_def) (simp add: example_schema_def Schema_SerializeTo_def PAGE_SIZE_def)

theorem tables_share_one_id_witness:
  "\<exists>c info. fst (GetTable c ''t'') = DB_SUCCESS \<and> fst (GetTable c ''u'') = DB_SUCCESS \<and>
     fst (snd (GetTable c ''t'')) = Some info \<and> GetTableName info = ''u'' \<and>
     fst (snd (GetTable (snd (DropTable c ''t'')) ''u'')) = None"
proof -
  let ?b = "BufferPoolManager 4 (DiskManager_open zero_mem 0)"
  have r: "roomy ?b (Suc (Suc (Suc (Suc 0))))" using roomy_new_pool [of 4] by (simp add: numeral_eq_Suc)
  have r0: "roomy (cat_bpm (empty_catalog ?b)) (Suc (Suc (Suc (Suc 0))))" using r by (simp add: empty_catalog_def)
  have c0: "cat_reachable (empty_catalog ?b)" by (rule cr_init [of ?b]) (simp add: CatalogManager_def)
  have id0: "GetNextTableId (cat_meta c) = 0" if "cat_reachable c" for c
    using next_id_zero(1) cat_reachable_ids [OF that] by (simp add: ids_zero_def)
  have n0: "map_of (table_names (empty_catalog ?b)) n = None" for n by (simp add: empty_catalog_def)
  obtain i1 c1 where C1: "CreateTable (empty_catalog ?b) ''t'' example_schema = Inr (DB_SUCCESS, Some i1, c1)" "roomy (cat_bpm c1) (Suc (Suc 0))"
    by (rule create_table_roomy [OF r0 n0, of "''t''" example_schema]) (simp add: id0 [OF c0] example_names_fit)
  have c1: "cat_reachable c1" using cr_create [OF c0 C1(1)] .
  have n1: "table_names c1 = [(''t'', 0)]" using C1(1) id0 [OF c0]
    by (auto simp: CreateTable_def Let_def res_simps empty_catalog_def split: option.splits if_splits)
  have n1u: "map_of (table_names c1) ''u'' = None" by (simp add: n1)
  obtain i2 c2 where C2: "CreateTable c1 ''u'' example_schema = Inr (DB_SUCCESS, Some i2, c2)"
    by (rule create_table_roomy [OF C1(2) n1u, of example_schema]) (simp add: id0 [OF c1] example_names_fit)
  have c2: "cat_reachable c2" using cr_create [OF c1 C2] .
  have n2: "table_names c2 = [(''t'', 0), (''u'', 0)]" "map_of (tables c2) 0 = Some (Some i2)" "GetTableName i2 = ''u''"
    using C2 id0 [OF c1] n1
    by (auto simp: CreateTable_def Let_def res_simps update_conv' GetTableName_def TableInfo_Init_def TableMetadata_Create_def split: option.splits if_splits)
  have g: "GetTable c2 ''t'' = (DB_SUCCESS, Some i2, c2)" "GetTable c2 ''u'' = (DB_SUCCESS, Some i2, c2)"
    using n2 by (simp_all add: GetTable_def)
  obtain c3 where "GetTable (snd (DropTable c2 ''t'')) ''u'' = (DB_SUCCESS, None, c3)"
    using tables_share_one_id [OF c2, THEN conjunct2, THEN conjunct2, THEN conjunct1, rule_format, of "''t''" "''u''"] g by auto
  with g n2(3) show ?thesis by (intro exI [of _ c2] exI [of _ i2]) simp
qed

text \<open>
  Dropping one index of a table makes the catalog forget all of its index names: afterwards \<^verbatim>\<open>GetIndex\<close>
  and \<^verbatim>\<open>DropIndex\<close> for that table throw \<^verbatim>\<open>std::out_of_range\<close>, for every index name, as they do for a table
  that never had an index; other tables keep their names.
\<close>

theorem drop_index_forgets_all:
  assumes "DropIndex c t i = Inr (DB_SUCCESS, c')"
  shows "GetIndex c' t j = Inl OutOfRange \<and> DropIndex c' t j = Inl OutOfRange \<and>
    (u \<noteq> t \<longrightarrow> map_of (index_names c') u = map_of (index_names c) u) \<and> table_names c' = table_names c \<and> tables c' = tables c"
  using assms by (auto simp: DropIndex_def GetIndex_def Let_def delete_conv' split: if_splits option.splits)

definition indexed_catalog :: catalog_manager where
  "indexed_catalog = (empty_catalog (BufferPoolManager 4 (DiskManager_open zero_mem 0)))\<lparr>table_names := [(''t'', 0), (''u'', 1)],
     index_names := [(''t'', [(''i'', 0), (''j'', 1)]), (''u'', [(''k'', 2)])]\<rparr>"

theorem drop_index_forgets_all_witness:
  "\<exists>c'. DropIndex indexed_catalog ''t'' ''i'' = Inr (DB_SUCCESS, c') \<and> GetIndex c' ''t'' ''j'' = Inl OutOfRange \<and>
     map_of (index_names c') ''u'' = Some [(''k'', 2)]"
proof -
  obtain c' where "DropIndex indexed_catalog ''t'' ''i'' = Inr (DB_SUCCESS, c')"
    by (simp add: DropIndex_def indexed_catalog_def Let_def)
  with drop_index_forgets_all [of indexed_catalog "''t''" "''i''" c' "''j''" "''u''"] show ?thesis
    by (simp add: indexed_catalog_def)
qed

section \<open>Reloading\<close>

lemma fetch_resident:
  assumes ok: "bpm_ok b" and t: "page_table b p = Some f"
  obtains b1 where "fetch_data b p = Inr (f, page_mem b f, b1)" and "bpm_ok b1" and "page_table b1 = page_table b" and "page_mem b1 = page_mem b"
    and "synced b \<longrightarrow> synced b1" and "disk b1 = disk b"
proof -
  let ?b = "(upd_page f (\<lambda>pg. pg\<lparr>pin_count := pin_count pg + 1\<rparr>) b)\<lparr>repl := LRUReplacer_Pin f (repl b), disk := disk b\<rparr>"
  note R = resident_facts [OF ok t]
  have ok1: "bpm_ok ?b"
    by (rule upd_resident_ok [OF ok t]) (use R bpm_okD(2,3) [OF ok] lru.pin_inv lru.pin_frames in auto)
  have M: "page_mem ?b = page_mem b" using R(2) by (simp add: page_mem_def fun_eq_iff)
  then have "fetch_data b p = Inr (f, page_mem b f, ?b)" by (simp add: fetch_data_def FetchPage_hit [OF ok t])
  moreover have "synced b \<longrightarrow> synced ?b" using R by (auto simp: synced_def)
  ultimately show ?thesis using that ok1 M by simp
qed

definition the_info :: "catalog_manager \<Rightarrow> u32 \<Rightarrow> table_info" where
  "the_info c k = the (the (map_of (tables c) k))"

text \<open>A table whose metadata page is in the pool and reads back as what the catalog holds for its id.\<close>

definition stored_table :: "catalog_manager \<Rightarrow> u32 \<Rightarrow> page_id \<Rightarrow> bool" where
  "stored_table c k p \<longleftrightarrow> p \<noteq> CATALOG_META_PAGE_ID \<and> page_table (cat_bpm c) p \<noteq> None \<and>
     (\<exists>info. map_of (tables c) k = Some (Some info) \<and> load_table_metadata (page_view (cat_bpm c) p) 0 = Inr (ti_meta info) \<and>
        tm_table_id (ti_meta info) = k \<and>
        ti_heap info = TableHeap_open (tm_root_page_id (ti_meta info)) (GetSchema info))"

text \<open>
  A catalog without indexes whose metadata pages are in the pool and whose tables have different names. Names that
  resolve to a table of another name are allowed.
\<close>

definition stored_catalog :: "catalog_manager \<Rightarrow> bool" where
  "stored_catalog c \<longleftrightarrow> catalog_meta_ok (cat_meta c) \<and> index_meta_pages (cat_meta c) = [] \<and>
     page_table (cat_bpm c) CATALOG_META_PAGE_ID \<noteq> None \<and>
     (\<forall>(k, p) \<in> set (table_meta_pages (cat_meta c)). stored_table c k p) \<and>
     inj_on (\<lambda>k. GetTableName (the_info c k)) (fst ` set (table_meta_pages (cat_meta c)))"

text \<open>What a catalog loaded from the pages of \<open>c\<close> answers for a name: the table whose metadata has it, if there is one.\<close>

definition stored_answer :: "catalog_manager \<Rightarrow> string \<Rightarrow> dberr \<times> table_info option" where
  "stored_answer c n = (case filter (\<lambda>info. GetTableName info = n) (map (\<lambda>x. the_info c (fst x)) (table_meta_pages (cat_meta c))) of
     [] \<Rightarrow> (DB_TABLE_NOT_EXIST, None) | info # _ \<Rightarrow> (DB_SUCCESS, Some info))"

text \<open>
  The catalog's constructor only needs a pool from which it can fetch a number of pages with a given
  content: this is the interface on which loading is proved, for a pool that holds the pages and for the
  pool of a reopened file.
\<close>

locale page_source =
  fixes good :: "nat \<Rightarrow> bpm \<Rightarrow> bool" and P :: "page_id set" and content :: "page_id \<Rightarrow> mem"
  assumes fetch: "good (Suc k) b \<Longrightarrow> p \<in> P \<Longrightarrow> \<exists>f b'. fetch_data b p = Inr (f, content p, b') \<and> good k b'"
begin

text \<open>The tables of \<open>c\<close> can be loaded from the pages of the source.\<close>

definition holds_tables :: "catalog_manager \<Rightarrow> (u32 \<times> page_id) list \<Rightarrow> bool" where
  "holds_tables c xs \<longleftrightarrow> (\<forall>(k, p) \<in> set xs. p \<in> P \<and>
      load_table_metadata (content p) 0 = Inr (ti_meta (the_info c k)) \<and> tm_table_id (ti_meta (the_info c k)) = k \<and>
      ti_heap (the_info c k) = TableHeap_open (tm_root_page_id (ti_meta (the_info c k))) (GetSchema (the_info c k)))"

lemma load_tables_spec:
  assumes "good (length xs + j) (cat_bpm c')" and "holds_tables c xs"
  shows "\<exists>b'. good j b' \<and> load_tables xs c' = Inr (c'\<lparr>cat_bpm := b',
      table_names := fold (\<lambda>x. AList.update (GetTableName (the_info c (fst x))) (fst x)) xs (table_names c'),
      tables := fold (\<lambda>x. AList.update (fst x) (Some (the_info c (fst x)))) xs (tables c')\<rparr>)"
  using assms
proof (induction xs arbitrary: c')
  case Nil
  then show ?case by (intro exI [of _ "cat_bpm c'"]) simp
next
  case (Cons x xs)
  obtain k p where x: "x = (k, p)" by (cases x)
  let ?i = "the_info c k"
  have i: "p \<in> P" "load_table_metadata (content p) 0 = Inr (ti_meta ?i)" "tm_table_id (ti_meta ?i) = k"
    "ti_heap ?i = TableHeap_open (tm_root_page_id (ti_meta ?i)) (GetSchema ?i)"
    using Cons.prems(2) by (auto simp: x holds_tables_def)
  obtain f b1 where b1: "fetch_data (cat_bpm c') p = Inr (f, content p, b1)" "good (length xs + j) b1"
    using fetch [OF _ i(1)] Cons.prems(1) by (metis add_Suc list.size(4) add.right_neutral add_Suc_right)
  from i(2) obtain n where n: "TableMetadata_DeserializeFrom (content p) 0 = Inr (ti_meta ?i, n)" by (auto simp: res_simps)
  let ?c = "c'\<lparr>cat_bpm := b1, table_names := AList.update (GetTableName ?i) k (table_names c'), tables := AList.update k (Some ?i) (tables c')\<rparr>"
  have info: "TableInfo_Init (ti_meta ?i) (TableHeap_open (tm_root_page_id (ti_meta ?i)) (tm_schema (ti_meta ?i))) = ?i"
    using i(4) by (simp add: TableInfo_Init_def GetSchema_def)
  have step: "load_tables (x # xs) c' = load_tables xs ?c"
    by (simp add: x b1(1) n Let_def i(3) info) (simp add: GetTableName_def)
  have "good (length xs + j) (cat_bpm ?c)" "holds_tables c xs" using Cons.prems(2) b1 by (auto simp: holds_tables_def)
  from Cons.IH [OF this] step show ?case by (simp add: x)
qed

text \<open>A catalog constructed on such a pool has the tables of the one that was stored.\<close>

lemma CatalogManager_spec:
  assumes "good (Suc (length (table_meta_pages (cat_meta c)) + j)) b" and "CATALOG_META_PAGE_ID \<in> P"
    and "CatalogMeta_DeserializeFrom (content CATALOG_META_PAGE_ID) 0 = Inr (cat_meta c)"
    and "index_meta_pages (cat_meta c) = []" and "holds_tables c (table_meta_pages (cat_meta c))"
  shows "\<exists>c2. CatalogManager b False = Inr c2 \<and> cat_meta c2 = cat_meta c \<and> good j (cat_bpm c2) \<and>
      table_names c2 = fold (\<lambda>x. AList.update (GetTableName (the_info c (fst x))) (fst x)) (table_meta_pages (cat_meta c)) [] \<and>
      tables c2 = fold (\<lambda>x. AList.update (fst x) (Some (the_info c (fst x)))) (table_meta_pages (cat_meta c)) []"
proof -
  let ?ts = "table_meta_pages (cat_meta c)"
  obtain f b1 where b1: "fetch_data b CATALOG_META_PAGE_ID = Inr (f, content CATALOG_META_PAGE_ID, b1)" "good (length ?ts + j) b1"
    using fetch [OF assms(1,2)] by blast
  let ?c = "(empty_catalog b1)\<lparr>cat_meta := cat_meta c\<rparr>"
  have "good (length ?ts + j) (cat_bpm ?c)" using b1(2) by (simp add: empty_catalog_def)
  from load_tables_spec [OF this assms(5)] obtain b' where b': "good j b'" "load_tables ?ts ?c = Inr (?c\<lparr>cat_bpm := b',
      table_names := fold (\<lambda>x. AList.update (GetTableName (the_info c (fst x))) (fst x)) ?ts (table_names ?c),
      tables := fold (\<lambda>x. AList.update (fst x) (Some (the_info c (fst x)))) ?ts (tables ?c)\<rparr>)" by blast
  then show ?thesis using b1(1) assms(3,4) by (simp add: CatalogManager_def empty_catalog_def)
qed

end

text \<open>A pool that holds the pages, whatever the number of pages to fetch.\<close>

definition resident_pages :: "bpm \<Rightarrow> nat \<Rightarrow> bpm \<Rightarrow> bool" where
  "resident_pages b0 k b \<longleftrightarrow> bpm_ok b \<and> page_table b = page_table b0 \<and> page_mem b = page_mem b0"

interpretation resident: page_source "resident_pages b0" "dom (page_table b0)" "page_view b0" for b0
proof
  fix k b p assume b: "resident_pages b0 (Suc k) b" and "p \<in> dom (page_table b0)"
  then obtain f where f: "page_table b p = Some f" "page_view b0 p = page_mem b f"
    by (auto simp: resident_pages_def page_view_resident)
  have "bpm_ok b" using b by (simp add: resident_pages_def)
  from fetch_resident [OF this f(1)] show "\<exists>f b'. fetch_data b p = Inr (f, page_view b0 p, b') \<and> resident_pages b0 k b'"
    using f(2) b by (metis resident_pages_def)
qed

lemma fold_update_map_of:
  "\<forall>x \<in> set xs. g x = k \<longrightarrow> h x = v \<Longrightarrow>
   map_of (fold (\<lambda>x. AList.update (g x) (h x)) xs m) k = (if k \<in> g ` set xs then Some v else map_of m k)"
  by (induction xs arbitrary: m) (auto simp: update_conv')

lemma FlushPage_ok:
  assumes ok: "bpm_ok b" and t: "page_table b p = Some f"
  obtains b' where "FlushPage b p = Inr (True, b')" and "bpm_ok b'" and "page_table b' = page_table b" and "page_mem b' = page_mem b"
    and "disk_used (disk b') = disk_used (disk b)"
    and "\<And>q. valid_pid q \<Longrightarrow> logical_page (disk b') q = (if q = p then page_mem b f else logical_page (disk b) q)"
    and "disk_reachable (disk b) \<longrightarrow> disk_reachable (disk b')"
proof -
  note R = resident_facts [OF ok t] and L = lru_unpinned_frame [OF ok t]
  obtain d where d: "FlushPage b p = Inr (True, (upd_page f (\<lambda>pg. pg\<lparr>is_dirty := False\<rparr>) b)\<lparr>repl := repl b, disk := d\<rparr>)" "disk_ok d"
    "disk_used d = disk_used (disk b)"
    "\<And>q. valid_pid q \<Longrightarrow> logical_page d q = (if q = p then page_data (pages b ! f) else logical_page (disk b) q)"
    using FlushPage_resident [OF ok t] by blast
  have w: "DiskManager_WritePage (disk b) p (page_data (pages b ! f)) = Inr d"
    using d(1) t by (auto simp: FlushPage_def write_page_def res_simps dest!: arg_cong [of _ _ disk])
  have dr: "disk_reachable (disk b) \<longrightarrow> disk_reachable d" using dr_write [OF _ _ w] R(5) by (simp add: valid_pid_def)
  have "bpm_ok ((upd_page f (\<lambda>pg. pg\<lparr>is_dirty := False\<rparr>) b)\<lparr>repl := repl b, disk := d\<rparr>)"
    by (rule upd_resident_ok [OF ok t]) (use R L d bpm_okD(3) [OF ok] in auto)
  with that [OF d(1)] R(2) d(3,4) dr show ?thesis by (simp add: page_mem_def fun_eq_iff)
qed

lemma flush_catalog:
  assumes ok: "bpm_ok (cat_bpm c)" and meta: "catalog_meta_ok (cat_meta c)" and f: "page_table (cat_bpm c) CATALOG_META_PAGE_ID = Some f"
  obtains b where "FlushCatalogMetaPage c = Inr (DB_SUCCESS, c\<lparr>cat_bpm := b\<rparr>)" and "bpm_ok b" and "page_table b = page_table (cat_bpm c)"
    and "CatalogMeta_DeserializeFrom (page_mem b f) 0 = Inr (cat_meta c)" and "\<forall>g. g \<noteq> f \<longrightarrow> page_mem b g = page_mem (cat_bpm c) g"
    and "disk_used (disk b) = disk_used (disk (cat_bpm c))" and "disk_reachable (disk (cat_bpm c)) \<longrightarrow> disk_reachable (disk b)"
proof -
  let ?b = "cat_bpm c"
  obtain b1 where b1: "fetch_data ?b CATALOG_META_PAGE_ID = Inr (f, page_mem ?b f, b1)" "bpm_ok b1" "page_table b1 = page_table ?b"
    "page_mem b1 = page_mem ?b" "disk b1 = disk ?b" using fetch_resident [OF ok f] by metis
  obtain bs where B: "CatalogMeta_SerializeTo (cat_meta c) = Inr bs" "length bs \<le> PAGE_SIZE"
    "\<forall>m a. holds m a bs \<longrightarrow> CatalogMeta_DeserializeFrom m a = Inr (cat_meta c)"
    using CatalogMeta_codec [OF meta] by metis
  let ?m = "poke (page_mem ?b f) 0 bs"
  have cl: "clipped ?m" using resident_facts(7) [OF ok f] B(2) by (simp add: poke_clipped page_mem_def)
  have t1: "page_table b1 CATALOG_META_PAGE_ID = Some f" using b1(3) f by simp
  note P = put_mem_resident [OF b1(2) t1 cl]
  have t2: "page_table (put_mem f ?m b1) CATALOG_META_PAGE_ID = Some f" using P(2) t1 by simp
  obtain b3 where b3: "FlushPage (put_mem f ?m b1) CATALOG_META_PAGE_ID = Inr (True, b3)" "bpm_ok b3"
    "page_table b3 = page_table (put_mem f ?m b1)" "page_mem b3 = page_mem (put_mem f ?m b1)"
    "disk_used (disk b3) = disk_used (disk (put_mem f ?m b1))" "disk_reachable (disk (put_mem f ?m b1)) \<longrightarrow> disk_reachable (disk b3)"
    using FlushPage_ok [OF P(1) t2] by metis
  have "FlushCatalogMetaPage c = Inr (DB_SUCCESS, c\<lparr>cat_bpm := b3\<rparr>)"
    using b1(1) B(1) b3(1) by (simp add: FlushCatalogMetaPage_def)
  moreover have "CatalogMeta_DeserializeFrom (page_mem b3 f) 0 = Inr (cat_meta c)" using B(3) b3(4) P(6) by simp
  ultimately show ?thesis using that b3 P(2,3,6) b1(3-5) by simp
qed

lemma stored_info:
  assumes "stored_catalog c" and "(k, p) \<in> set (table_meta_pages (cat_meta c))"
  shows "map_of (tables c) k = Some (Some (the_info c k))" and "tm_table_id (ti_meta (the_info c k)) = k"
    and "ti_heap (the_info c k) = TableHeap_open (tm_root_page_id (ti_meta (the_info c k))) (GetSchema (the_info c k))"
    and "load_table_metadata (page_view (cat_bpm c) p) 0 = Inr (ti_meta (the_info c k))"
    and "p \<noteq> CATALOG_META_PAGE_ID" and "page_table (cat_bpm c) p \<noteq> None"
proof -
  have "stored_table c k p" using assms by (auto simp: stored_catalog_def)
  then show "map_of (tables c) k = Some (Some (the_info c k))" "tm_table_id (ti_meta (the_info c k)) = k"
    "ti_heap (the_info c k) = TableHeap_open (tm_root_page_id (ti_meta (the_info c k))) (GetSchema (the_info c k))"
    "load_table_metadata (page_view (cat_bpm c) p) 0 = Inr (ti_meta (the_info c k))"
    "p \<noteq> CATALOG_META_PAGE_ID" "page_table (cat_bpm c) p \<noteq> None"
    by (auto simp: stored_table_def the_info_def)
qed

text \<open>Writing the page of the catalog's metadata keeps the pages of the tables' metadata.\<close>

lemma stored_pages_kept:
  assumes ok: "bpm_ok (cat_bpm c)" and st: "stored_catalog c" and f: "page_table (cat_bpm c) CATALOG_META_PAGE_ID = Some f"
    and b: "page_table b = page_table (cat_bpm c)" "\<forall>g. g \<noteq> f \<longrightarrow> page_mem b g = page_mem (cat_bpm c) g"
    and kp: "(k, p) \<in> set (table_meta_pages (cat_meta c))"
  shows "load_table_metadata (page_view b p) 0 = Inr (ti_meta (the_info c k))"
proof -
  obtain g where g: "page_table (cat_bpm c) p = Some g" "p \<noteq> CATALOG_META_PAGE_ID" using stored_info(5,6) [OF st kp] by auto
  have "g \<noteq> f" using resident_facts(4) [OF ok g(1)] resident_facts(4) [OF ok f] g(2) by auto
  then have "page_view b p = page_view (cat_bpm c) p" using b g(1) page_view_resident [of b p g] page_view_resident [OF g(1)] by simp
  then show ?thesis using stored_info(4) [OF st kp] by simp
qed

lemma reloaded_tables:
  assumes st: "stored_catalog c"
    and c2: "table_names c2 = fold (\<lambda>x. AList.update (GetTableName (the_info c (fst x))) (fst x)) (table_meta_pages (cat_meta c)) []"
      "tables c2 = fold (\<lambda>x. AList.update (fst x) (Some (the_info c (fst x)))) (table_meta_pages (cat_meta c)) []"
  shows "fst (GetTable c2 n) = fst (stored_answer c n) \<and> fst (snd (GetTable c2 n)) = snd (stored_answer c n)"
proof -
  let ?ts = "table_meta_pages (cat_meta c)" and ?g = "\<lambda>x. GetTableName (the_info c (fst x))"
  let ?is = "filter (\<lambda>info. GetTableName info = n) (map (\<lambda>x. the_info c (fst x)) ?ts)"
  show ?thesis
  proof (cases ?is)
    case Nil
    then have "n \<notin> ?g ` set ?ts" by (auto simp: filter_empty_conv)
    then have "map_of (table_names c2) n = None" using fold_update_map_of [of ?ts ?g n fst 0 "[]"] by (force simp: c2)
    with Nil show ?thesis by (simp add: GetTable_def stored_answer_def)
  next
    case (Cons info rest)
    then have "info \<in> set ?is" by simp
    then obtain k p where kp: "(k, p) \<in> set ?ts" "info = the_info c k" "GetTableName info = n" by auto
    have "inj_on (\<lambda>k. GetTableName (the_info c k)) (fst ` set ?ts)" using st by (simp add: stored_catalog_def)
    then have "\<forall>x \<in> set ?ts. ?g x = n \<longrightarrow> fst x = k" using kp by (force dest: inj_onD)
    moreover have "n \<in> ?g ` set ?ts" using kp by force
    ultimately have names: "map_of (table_names c2) n = Some k" using fold_update_map_of [of ?ts ?g n fst k "[]"] by (simp add: c2)
    have "map_of (tables c2) k = Some (Some info)"
      using fold_update_map_of [of ?ts fst k "\<lambda>x. Some (the_info c (fst x))" "Some (the_info c k)" "[]"] kp by (force simp: c2)
    with names Cons show ?thesis by (simp add: GetTable_def stored_answer_def)
  qed
qed

text \<open>
  Flushing and reloading the catalog: for a catalog without indexes whose metadata page and table
  metadata pages are in the pool, \<^verbatim>\<open>FlushCatalogMetaPage\<close> succeeds, and a catalog manager constructed on the
  resulting pool without initialisation has the same metadata and finds each stored table under the name in its
  metadata, and no table under other names.
\<close>

theorem flush_then_reload:
  assumes inv: "pool_inv (cat_bpm c)" and st: "stored_catalog c"
  shows "\<exists>c1 c2. FlushCatalogMetaPage c = Inr (DB_SUCCESS, c1) \<and> CatalogManager (cat_bpm c1) False = Inr c2 \<and> cat_meta c2 = cat_meta c \<and>
    (\<forall>n. fst (GetTable c2 n) = fst (stored_answer c n) \<and> fst (snd (GetTable c2 n)) = snd (stored_answer c n))"
proof -
  let ?b = "cat_bpm c" and ?ts = "table_meta_pages (cat_meta c)"
  have ok: "bpm_ok ?b" using inv by (simp add: pool_inv_def)
  obtain f where f: "page_table ?b CATALOG_META_PAGE_ID = Some f" using st by (auto simp: stored_catalog_def)
  have meta: "catalog_meta_ok (cat_meta c)" using st by (simp add: stored_catalog_def)
  obtain b3 where b3: "FlushCatalogMetaPage c = Inr (DB_SUCCESS, c\<lparr>cat_bpm := b3\<rparr>)" "bpm_ok b3" "page_table b3 = page_table ?b"
    "CatalogMeta_DeserializeFrom (page_mem b3 f) 0 = Inr (cat_meta c)" "\<forall>g. g \<noteq> f \<longrightarrow> page_mem b3 g = page_mem ?b g"
    using flush_catalog [OF ok meta f] by metis
  have view: "page_view b3 CATALOG_META_PAGE_ID = page_mem b3 f" using b3(3) f page_view_resident [of b3] by simp
  have "resident.holds_tables b3 c ?ts"
    unfolding resident.holds_tables_def using stored_pages_kept [OF ok st f b3(3,5)] stored_info(2,3,6) [OF st] b3(3) by auto
  from resident.CatalogManager_spec [OF _ _ _ _ this, of 0 b3] obtain c2 where
    c2: "CatalogManager b3 False = Inr c2" "cat_meta c2 = cat_meta c"
      "table_names c2 = fold (\<lambda>x. AList.update (GetTableName (the_info c (fst x))) (fst x)) ?ts []"
      "tables c2 = fold (\<lambda>x. AList.update (fst x) (Some (the_info c (fst x)))) ?ts []"
    using b3(2-4) f st view by (auto simp: resident_pages_def stored_catalog_def)
  then show ?thesis using b3(1) reloaded_tables [OF st c2(3,4)] by (intro exI [of _ "c\<lparr>cat_bpm := b3\<rparr>"] exI [of _ c2]) simp
qed

text \<open>A catalog in which the first page of the pool is reserved for the metadata and one table was created.\<close>

lemma first_page_zero:
  assumes "0 < n"
  shows "\<exists>f b. NewPage (BufferPoolManager n (DiskManager_open zero_mem 0)) = Inr (Some (f, CATALOG_META_PAGE_ID), b)"
proof -
  let ?d = "DiskManager_open zero_mem 0"
  obtain f p b where N: "NewPage (BufferPoolManager n ?d) = Inr (Some (f, p), b)"
    using new_pool_NewPage [OF dr_open fresh_disk_room assms] by metis
  have z: "fst (DiskManager_AllocatePage ?d) = 0"
    using disk_okD(1) [OF open_empty_ok, of zero_mem] by (intro first_allocation_page_zero) (simp_all add: open_empty_eq)
  have ok: "bpm_ok (BufferPoolManager n ?d)" using pool_init_inv [OF open_empty_ok] by (simp add: pool_inv_def)
  have np: "\<not> all_pinned (BufferPoolManager n ?d)" using N NewPage_full by fastforce
  have room: "disk_room (disk (BufferPoolManager n ?d))" using fresh_disk_room by (simp add: BufferPoolManager_def)
  obtain f' p' r fl s d where "DiskManager_AllocatePage (disk (BufferPoolManager n ?d)) = (p', s)"
    "NewPage (BufferPoolManager n ?d) = Inr (Some (f', p'), install f' (blank_page p') d r fl (BufferPoolManager n ?d))"
    using NewPage_some [OF ok room np] by metis
  with z N show ?thesis by (auto simp: BufferPoolManager_def CATALOG_META_PAGE_ID_def)
qed

theorem flush_then_reload_witness:
  "\<exists>b c1 c2. pool_inv b \<and> FlushCatalogMetaPage (empty_catalog b) = Inr (DB_SUCCESS, c1) \<and> CatalogManager (cat_bpm c1) False = Inr c2 \<and>
     fst (GetTable c2 ''t'') = DB_TABLE_NOT_EXIST"
proof -
  obtain f b where N: "NewPage (BufferPoolManager 3 (DiskManager_open zero_mem 0)) = Inr (Some (f, CATALOG_META_PAGE_ID), b)"
    using first_page_zero [of 3] by auto
  have inv0: "pool_inv (BufferPoolManager 3 (DiskManager_open zero_mem 0))" by (rule pool_init_inv [OF open_empty_ok])
  have "disk_room (disk (BufferPoolManager 3 (DiskManager_open zero_mem 0)))" using fresh_disk_room by (simp add: BufferPoolManager_def)
  note P = NewPage_pinned [OF inv0 this N]
  have st: "stored_catalog (empty_catalog b)" "pool_inv (cat_bpm (empty_catalog b))"
    using P(1,2) by (simp_all add: stored_catalog_def empty_catalog_def CatalogMeta_NewInstance_def catalog_meta_ok_def page_map_ok_def PAGE_SIZE_def)
  have "fst (stored_answer (empty_catalog b) ''t'') = DB_TABLE_NOT_EXIST" by (simp add: stored_answer_def empty_catalog_def CatalogMeta_NewInstance_def)
  with flush_then_reload [OF st(2,1)] P(1) show ?thesis by metis
qed

end
