(* ===== verification/Numerals.thy ===== *)
theory Numerals
  imports Minisql_Prelude
begin

text \<open>
  Numbers and their decimal text, as the C++ library converts them: \<^verbatim>\<open>std::stoi\<close> and \<^verbatim>\<open>std::stof\<close>, which
  the planner applies to the numerals the scanner produces, and \<^verbatim>\<open>std::to_string\<close> and the output of
  integers to a stream. \<^verbatim>\<open>stoi\<close> stops at the first character that is no digit, \<^verbatim>\<open>stof\<close> rounds to the
  nearest binary32 number and throws when the value is too large, or too small to be represented exactly.
  \<^verbatim>\<open>to_string\<close> of a float prints six decimals of its exact value, rounded to nearest, ties to even.
\<close>

section \<open>Reading numerals\<close>

definition digit_val :: "char \<Rightarrow> int" where
  "digit_val c = of_char c - 48"

definition is_digit :: "char \<Rightarrow> bool" where
  "is_digit c \<longleftrightarrow> 0 \<le> digit_val c \<and> digit_val c \<le> 9"

definition digits_val :: "string \<Rightarrow> int" where
  "digits_val s = fold (\<lambda>c n. 10 * n + digit_val c) s 0"

fun split_sign :: "string \<Rightarrow> bool \<times> string" where
  "split_sign (c # s) = (if c = CHR ''-'' then (True, s) else (False, c # s))"
| "split_sign [] = (False, [])"

definition stoi :: "string \<Rightarrow> u32 res" where
  "stoi s = (let (neg, r) = split_sign s; ds = takeWhile is_digit r;
               n = (if neg then - digits_val ds else digits_val ds)
     in if ds = [] then Inl InvalidArgument
        else if n < - (2 ^ 31) \<or> 2 ^ 31 \<le> n then Inl OutOfRange
        else Inr (word_of_int n))"

function bit_len :: "int \<Rightarrow> int" where
  "bit_len n = (if n \<le> 0 then 0 else 1 + bit_len (n div 2))"
  by pat_completeness auto
termination by (relation "measure nat") auto

declare bit_len.simps [simp del]

text \<open>\<open>num / den / 2 ^ e\<close>, rounded to the nearest integer, ties to even; and whether it was exact.\<close>

definition round_scaled :: "int \<Rightarrow> int \<Rightarrow> int \<Rightarrow> int \<times> bool" where
  "round_scaled num den e =
     (let n = num * 2 ^ nat (- e); d = den * 2 ^ nat e; q = n div d; r = n mod d
      in (if 2 * r < d then q else if 2 * r > d then q + 1 else q + q mod 2, r = 0))"

text \<open>The bits of the non-negative \<open>num / den\<close> as a binary32 number.\<close>

definition f32_round :: "int \<Rightarrow> int \<Rightarrow> u32 res" where
  "f32_round num den =
     (if num = 0 then Inr 0 else
      let l0 = bit_len num - bit_len den;
          l = (if den * 2 ^ nat l0 \<le> num * 2 ^ nat (- l0) then l0 else l0 - 1);
          e = max (- 149) (l - 23);
          (m, exact) = round_scaled num den e;
          (m, e) = (if m = 2 ^ 24 then (2 ^ 23, e + 1) else (m, e));
          tiny = (l < - 126 \<and> \<not> (l = - 127 \<and> fst (round_scaled num den (- 150)) = 2 ^ 24))
      in if 105 \<le> e \<or> tiny \<and> \<not> exact then Inl OutOfRange
         else if m < 2 ^ 23 then Inr (word_of_int m)
         else Inr (word_of_int ((e + 150) * 2 ^ 23 + (m - 2 ^ 23))))"

definition stof :: "string \<Rightarrow> u32 res" where
  "stof s = (let (neg, r) = split_sign s; ip = takeWhile is_digit r; rest = dropWhile is_digit r;
               fp = (case rest of [] \<Rightarrow> [] | c # t \<Rightarrow> if c = CHR ''.'' then takeWhile is_digit t else [])
     in if ip @ fp = [] then Inl InvalidArgument
        else res_bind (f32_round (digits_val (ip @ fp)) (10 ^ length fp)) (\<lambda>b.
               Inr (if neg then b OR 0x80000000 else b)))"

section \<open>Printing numbers\<close>

definition digit_char :: "nat \<Rightarrow> char" where
  "digit_char d = char_of (48 + d)"

fun nat_text :: "nat \<Rightarrow> string" where
  "nat_text n = (if n < 10 then [digit_char n] else nat_text (n div 10) @ [digit_char (n mod 10)])"

declare nat_text.simps [simp del]

definition int_text :: "int \<Rightarrow> string" where
  "int_text i = (if i < 0 then CHR ''-'' # nat_text (nat (- i)) else nat_text (nat i))"

definition to_string_int :: "u32 \<Rightarrow> string" where
  "to_string_int w = int_text (sint w)"

text \<open>Padding as \<^verbatim>\<open>std::setw\<close> does it: text that is longer than the width is printed in full.\<close>

definition pad_left :: "char \<Rightarrow> nat \<Rightarrow> string \<Rightarrow> string" where
  "pad_left c w s = replicate (w - length s) c @ s"

definition pad_right :: "char \<Rightarrow> nat \<Rightarrow> string \<Rightarrow> string" where
  "pad_right c w s = s @ replicate (w - length s) c"

text \<open>A non-negative number of units of \<open>10 ^ (- k)\<close>, with its \<open>k\<close> decimals.\<close>

definition fixed_text :: "nat \<Rightarrow> nat \<Rightarrow> string" where
  "fixed_text k n = nat_text (n div 10 ^ k) @ ''.'' @ pad_left CHR ''0'' k (nat_text (n mod 10 ^ k))"

text \<open>The magnitude of a finite binary32 number is \<open>f32_mantissa w * 2 ^ f32_exponent w\<close>.\<close>

definition f32_exponent_bits :: "u32 \<Rightarrow> nat" where
  "f32_exponent_bits w = unat (drop_bit 23 w AND 255)"

definition f32_mantissa :: "u32 \<Rightarrow> int" where
  "f32_mantissa w = uint (w AND 0x7FFFFF) + (if f32_exponent_bits w = 0 then 0 else 2 ^ 23)"

definition f32_exponent :: "u32 \<Rightarrow> int" where
  "f32_exponent w = (if f32_exponent_bits w = 0 then - 149 else int (f32_exponent_bits w) - 150)"

definition f32_micros :: "u32 \<Rightarrow> int" where
  "f32_micros w = fst (round_scaled (f32_mantissa w * 10 ^ 6) 1 (- f32_exponent w))"

definition to_string_float :: "u32 \<Rightarrow> string" where
  "to_string_float w = (if bit w 31 then ''-'' else []) @
     (if f32_exponent_bits w = 255 then (if w AND 0x7FFFFF = 0 then ''inf'' else ''nan'')
      else fixed_text 6 (nat (f32_micros w)))"

section \<open>Reading back what was printed\<close>

lemma digit_char_val: "d < 10 \<Longrightarrow> digit_val (digit_char d) = int d"
  using of_nat_of_char [of "digit_char d", where 'a = int] by (simp add: digit_val_def digit_char_def)

lemma digit_char_is_digit: "d < 10 \<Longrightarrow> is_digit (digit_char d)"
  by (simp add: is_digit_def digit_char_val)

lemma digits_val_snoc: "digits_val (s @ [c]) = 10 * digits_val s + digit_val c"
  by (simp add: digits_val_def)

lemma digits_val_nat_text [simp]: "digits_val (nat_text n) = int n"
proof (induction n rule: nat_text.induct)
  case (1 n)
  show ?case
  proof (cases "n < 10")
    case True
    then show ?thesis by (simp add: nat_text.simps [of n] digits_val_def digit_char_val)
  next
    case False
    then have "digits_val (nat_text n) = 10 * int (n div 10) + int (n mod 10)"
      using 1 by (simp add: nat_text.simps [of n] digits_val_snoc digit_char_val)
    also have "\<dots> = int n" by (simp add: zdiv_int zmod_int)
    finally show ?thesis .
  qed
qed

lemma nat_text_digits: "c \<in> set (nat_text n) \<Longrightarrow> is_digit c"
proof (induction n rule: nat_text.induct)
  case (1 n)
  then show ?case by (cases "n < 10") (auto simp: nat_text.simps [of n] digit_char_is_digit)
qed

lemma nat_text_not_empty [simp]: "nat_text n \<noteq> []"
  by (simp add: nat_text.simps)

lemma takeWhile_nat_text [simp]: "takeWhile is_digit (nat_text n) = nat_text n"
  using nat_text_digits by (auto simp: takeWhile_eq_all_conv)

lemma split_sign_nat_text: "split_sign (nat_text n) = (False, nat_text n)"
proof (cases "nat_text n")
  case (Cons c s)
  then have "is_digit c" using nat_text_digits [of c n] by simp
  then have "c \<noteq> CHR ''-''" by (auto simp: is_digit_def digit_val_def)
  then show ?thesis using Cons by simp
qed simp

lemma stoi_int_text: "- (2 ^ 31) \<le> i \<Longrightarrow> i < 2 ^ 31 \<Longrightarrow> stoi (int_text i) = Inr (word_of_int i)"
  by (auto simp: stoi_def int_text_def split_sign_nat_text Let_def)

definition int_value :: "string \<Rightarrow> int" where
  "int_value s = (case split_sign s of (neg, r) \<Rightarrow> if neg then - digits_val r else digits_val r)"

lemma int_value_text: "int_value (int_text i) = i"
  by (simp add: int_value_def int_text_def split_sign_nat_text)

lemma int_text_inject: "int_text i = int_text j \<longleftrightarrow> i = j"
  by (metis int_value_text)

lemma length_pad [simp]: "length (pad_left c w s) = max w (length s)" "length (pad_right c w s) = max w (length s)"
  by (simp_all add: pad_left_def pad_right_def)

end
