(* ===== verification/Planner.thy ===== *)
theory Planner
  imports Expressions Syntax_Tree Catalog Numerals
begin

text \<open>
  From the syntax tree to a plan: the statements of src/MiniSQL/src/include/planner/statement/ and
  planner/planner.cpp with the plan nodes of include/executor/plans/. A node pointer is the list of trees
  made of the node and its following siblings (the form \<^const>\<open>forest\<close> gives to it), the null pointer
  the empty list. The catalog is reached through the execution context, whose pointer may be null, and
  looking a table up may add an entry to its table map, so it is passed along, also past an exception.
\<close>

section \<open>Access to the catalog\<close>

type_synonym ctx = "catalog_manager option"
type_synonym 'a cm = "ctx \<Rightarrow> 'a res \<times> ctx"

definition cret :: "'a \<Rightarrow> 'a cm" where
  "cret x ctx = (Inr x, ctx)"

definition cfail :: "err \<Rightarrow> 'a cm" where
  "cfail e ctx = (Inl e, ctx)"

definition cbind :: "'a cm \<Rightarrow> ('a \<Rightarrow> 'b cm) \<Rightarrow> 'b cm" where
  "cbind m f ctx = (case m ctx of (Inl e, ctx') \<Rightarrow> (Inl e, ctx') | (Inr x, ctx') \<Rightarrow> f x ctx')"

definition clift :: "'a res \<Rightarrow> 'a cm" where
  "clift r ctx = (r, ctx)"

definition lookup_table :: "string \<Rightarrow> (dberr \<times> table_info option) cm" where
  "lookup_table name ctx = (case ctx of None \<Rightarrow> (Inl NullDeref, ctx)
     | Some c \<Rightarrow> (let (e, info, c') = GetTable c name in (Inr (e, info), Some c')))"

text \<open>\<^verbatim>\<open>info->GetSchema()\<close> after a lookup whose status is ignored.\<close>

definition schema_of :: "string \<Rightarrow> schema cm" where
  "schema_of name = cbind (lookup_table name) (\<lambda>(e, info).
     case info of None \<Rightarrow> cfail NullDeref | Some i \<Rightarrow> cret (GetSchema i))"

definition node_at :: "ast list \<Rightarrow> ast cm" where
  "node_at p = (case p of [] \<Rightarrow> cfail NullDeref | n # ns \<Rightarrow> cret n)"

definition text_of :: "ast \<Rightarrow> string cm" where
  "text_of n = (case ast_val n of None \<Rightarrow> cfail Undefined | Some s \<Rightarrow> cret s)"

section \<open>Expressions of a statement\<close>

text \<open>The index of a named column, or the exception that it does not exist.\<close>

definition column_index :: "schema \<Rightarrow> ast \<Rightarrow> nat cm" where
  "column_index sch col = cbind (text_of col) (\<lambda>name.
     cbind (clift (GetColumnIndex sch name)) (\<lambda>(e, i).
       if e \<noteq> DB_SUCCESS then cfail LogicError
       else case i of None \<Rightarrow> cfail Undefined | Some i \<Rightarrow> cret i))"

definition MakeColumnValueExpression :: "string \<Rightarrow> ast list \<Rightarrow> expr cm" where
  "MakeColumnValueExpression table_name col =
     cbind (schema_of table_name) (\<lambda>sch. cbind (node_at col) (\<lambda>n. cbind (column_index sch n) (\<lambda>i.
     cbind (clift (GetColumn sch i)) (\<lambda>c. cret (ColumnValue 0 i (col_type c))))))"

definition constant_field :: "type_id \<Rightarrow> ast \<Rightarrow> field cm" where
  "constant_field t n =
     (if ast_type n = kNodeNull then cret (Field_null t)
      else case t of
        kTypeInt \<Rightarrow> if ast_type n \<noteq> kNodeNumber then cfail LogicError
          else cbind (text_of n) (\<lambda>s. cbind (clift (stoi s)) (\<lambda>i. clift (Field_int kTypeInt i)))
      | kTypeFloat \<Rightarrow> if ast_type n \<noteq> kNodeNumber then cfail LogicError
          else cbind (text_of n) (\<lambda>s. cbind (clift (stof s)) (\<lambda>x. clift (Field_float kTypeFloat x)))
      | kTypeChar \<Rightarrow> if ast_type n \<noteq> kNodeString then cfail LogicError
          else cbind (text_of n) (\<lambda>s.
            clift (Field_chars kTypeChar (Some (map byte_of_char s)) (word_of_nat (length s)) True))
      | kTypeInvalid \<Rightarrow> cfail LogicError)"

definition MakeConstantValueExpression :: "type_id \<Rightarrow> ast list \<Rightarrow> expr cm" where
  "MakeConstantValueExpression t value = cbind (node_at value) (\<lambda>n. cbind (constant_field t n) (\<lambda>f.
     cret (ConstantValue (Field_copy f))))"

definition MakeComparisonExpression :: "expr \<Rightarrow> expr \<Rightarrow> string \<Rightarrow> expr" where
  "MakeComparisonExpression lhs rhs comp_type = Comparison lhs rhs comp_type"

definition MakeLogicExpression :: "expr \<Rightarrow> expr \<Rightarrow> LogicType \<Rightarrow> expr res" where
  "MakeLogicExpression lhs rhs lt = LogicExpression lhs rhs lt"

fun GetColIdx :: "expr \<Rightarrow> nat res" where
  "GetColIdx (ColumnValue row_idx col_idx t) = Inr col_idx"
| "GetColIdx e = Inl NullDeref"

text \<open>
  \<^verbatim>\<open>MakePredicate\<close>: the two pointer arguments are \<open>None\<close> when null, otherwise what they point to, and are
  returned with what the call wrote. The recursive calls pass null for both.
\<close>

function MakePredicate :: "ast list \<Rightarrow> string \<Rightarrow> nat list option \<Rightarrow> bool option \<Rightarrow>
    (expr \<times> nat list option \<times> bool option) cm" where
  "MakePredicate [] table_name cols has_or = cfail NullDeref"
| "MakePredicate (Node ty v cs # ns) table_name cols has_or =
     (if ty = kNodeConnector then
        cbind (MakePredicate cs table_name None None) (\<lambda>(left, _).
        cbind (if cs = [] then cfail NullDeref else MakePredicate (tl cs) table_name None None) (\<lambda>(right, _).
        cbind (text_of (Node ty v cs)) (\<lambda>s.
        cbind (clift (Char2Type s)) (\<lambda>lt.
        cbind (clift (MakeLogicExpression left right lt)) (\<lambda>e.
          cret (e, cols, if has_or \<noteq> None \<and> s = ''or'' then Some True else has_or))))))
      else if ty = kNodeCompareOperator then
        cbind (node_at cs) (\<lambda>_.
        cbind (MakeColumnValueExpression table_name cs) (\<lambda>col_expr.
        cbind (MakeConstantValueExpression (GetReturnType col_expr) (tl cs)) (\<lambda>const_expr.
        cbind (case cols of None \<Rightarrow> cret None
               | Some js \<Rightarrow> cbind (clift (GetColIdx col_expr)) (\<lambda>i. cret (Some (js @ [i])))) (\<lambda>cols'.
        cbind (text_of (Node ty v cs)) (\<lambda>op.
          cret (MakeComparisonExpression col_expr const_expr op, cols', has_or))))))
      else cfail LogicError)"
  by pat_completeness auto
termination
proof (relation "measure (\<lambda>(p, _). size_list size p)", goal_cases)
  case 1
  then show ?case by simp
next
  case (2 ty v cs)
  then show ?case by simp
next
  case (3 ty v cs)
  then show ?case by (cases cs) auto
qed

section \<open>Statements\<close>

text \<open>\<^verbatim>\<open>kNodeIdentifier\<close>: the table must exist, and its name is bound.\<close>

definition bind_table :: "ast \<Rightarrow> string cm" where
  "bind_table n = cbind (text_of n) (\<lambda>name. cbind (lookup_table name) (\<lambda>(e, info).
     if e \<noteq> DB_SUCCESS then cfail LogicError else cret name))"

record select_statement =
  sel_table_name :: string
  sel_column_list :: "(string \<times> expr) list"
  sel_column_in_condition :: "nat list"
  sel_has_or :: bool
  sel_where :: "expr option"

definition SelectStatement :: select_statement where
  "SelectStatement = \<lparr>sel_table_name = [], sel_column_list = [], sel_column_in_condition = [],
     sel_has_or = False, sel_where = None\<rparr>"

fun all_columns :: "column option list \<Rightarrow> (string \<times> expr) list res" where
  "all_columns [] = Inr []"
| "all_columns (None # cs) = Inl NullDeref"
| "all_columns (Some c # cs) = res_bind (all_columns cs) (\<lambda>es.
     Inr ((col_name c, ColumnValue 0 (unat (col_table_ind c)) (col_type c)) # es))"

fun named_columns :: "schema \<Rightarrow> ast list \<Rightarrow> (string \<times> expr) list cm" where
  "named_columns sch [] = cret []"
| "named_columns sch (n # ns) =
     cbind (column_index sch n) (\<lambda>i. cbind (clift (GetColumn sch i)) (\<lambda>c. cbind (text_of n) (\<lambda>name.
     cbind (named_columns sch ns) (\<lambda>es. cret ((name, ColumnValue 0 i (col_type c)) # es)))))"

definition MakeColumnList :: "ast list \<Rightarrow> select_statement \<Rightarrow> select_statement cm" where
  "MakeColumnList p st = cbind (schema_of (sel_table_name st)) (\<lambda>sch.
     cbind (if p = [] then clift (all_columns (columns sch)) else named_columns sch p) (\<lambda>es.
       cret (st\<lparr>sel_column_list := sel_column_list st @ es\<rparr>)))"

fun Select_SyntaxTree2Statement :: "ast list \<Rightarrow> select_statement \<Rightarrow> select_statement cm" where
  "Select_SyntaxTree2Statement [] st = cret st"
| "Select_SyntaxTree2Statement (n # ns) st = (case ast_type n of
     kNodeIdentifier \<Rightarrow> cbind (bind_table n) (\<lambda>name.
       Select_SyntaxTree2Statement ns (st\<lparr>sel_table_name := name\<rparr>))
   | kNodeAllColumns \<Rightarrow> cbind (Select_SyntaxTree2Statement ns st) (MakeColumnList (ast_kids n))
   | kNodeColumnList \<Rightarrow> cbind (Select_SyntaxTree2Statement ns st) (MakeColumnList (ast_kids n))
   | kNodeConditions \<Rightarrow>
       cbind (MakePredicate (ast_kids n) (sel_table_name st) (Some (sel_column_in_condition st)) None) (\<lambda>(e, cols, _).
         Select_SyntaxTree2Statement ns (st\<lparr>sel_where := Some e,
           sel_column_in_condition := (case cols of None \<Rightarrow> [] | Some js \<Rightarrow> js)\<rparr>))
   | _ \<Rightarrow> cfail LogicError)"

record insert_statement =
  ins_ast_type :: SyntaxNodeType
  ins_table_name :: string
  ins_raw_values :: "expr list list"

text \<open>
  The values against the columns. The code tests the type of the statement's own node, not of the value,
  before it falls through to \<^verbatim>\<open>MakeConstantValueExpression\<close>, which handles null values itself.
\<close>

fun insert_values :: "SyntaxNodeType \<Rightarrow> column option list \<Rightarrow> ast list \<Rightarrow> expr list cm" where
  "insert_values ty [] p = (if p = [] then cret [] else cfail LogicError)"
| "insert_values ty (c # cs) [] = cfail LogicError"
| "insert_values ty (None # cs) (n # ns) = cfail NullDeref"
| "insert_values ty (Some c # cs) (n # ns) =
     cbind (if ty = kNodeNull then cret (ConstantValue (Field_copy (Field_null (col_type c))))
            else MakeConstantValueExpression (col_type c) (n # ns)) (\<lambda>e.
     cbind (insert_values ty cs ns) (\<lambda>es. cret (e # es)))"

definition MakeInsertValues :: "ast list \<Rightarrow> insert_statement \<Rightarrow> insert_statement cm" where
  "MakeInsertValues p st = cbind (schema_of (ins_table_name st)) (\<lambda>sch.
     cbind (insert_values (ins_ast_type st) (columns sch) p) (\<lambda>es.
       cret (st\<lparr>ins_raw_values := ins_raw_values st @ [es]\<rparr>)))"

fun Insert_SyntaxTree2Statement :: "ast list \<Rightarrow> insert_statement \<Rightarrow> insert_statement cm" where
  "Insert_SyntaxTree2Statement [] st = cret st"
| "Insert_SyntaxTree2Statement (n # ns) st = (case ast_type n of
     kNodeIdentifier \<Rightarrow> cbind (bind_table n) (\<lambda>name.
       Insert_SyntaxTree2Statement ns (st\<lparr>ins_table_name := name\<rparr>))
   | kNodeColumnValues \<Rightarrow> cbind (MakeInsertValues (ast_kids n) st) (Insert_SyntaxTree2Statement ns)
   | _ \<Rightarrow> cfail LogicError)"

record delete_statement =
  del_table_name :: string
  del_where :: "expr option"

fun Delete_SyntaxTree2Statement :: "ast list \<Rightarrow> delete_statement \<Rightarrow> delete_statement cm" where
  "Delete_SyntaxTree2Statement [] st = cret st"
| "Delete_SyntaxTree2Statement (n # ns) st = (case ast_type n of
     kNodeIdentifier \<Rightarrow> cbind (bind_table n) (\<lambda>name.
       Delete_SyntaxTree2Statement ns (st\<lparr>del_table_name := name\<rparr>))
   | kNodeConditions \<Rightarrow>
       cbind (MakePredicate (ast_kids n) (del_table_name st) None None) (\<lambda>(e, _).
         Delete_SyntaxTree2Statement ns (st\<lparr>del_where := Some e\<rparr>))
   | _ \<Rightarrow> cfail LogicError)"

record update_statement =
  upd_table_name :: string
  upd_where :: "expr option"
  upd_attrs :: "(nat \<times> expr) list"

definition MakeUpdateValues :: "ast \<Rightarrow> update_statement \<Rightarrow> update_statement cm" where
  "MakeUpdateValues n st =
     cbind (node_at (ast_kids n)) (\<lambda>col. cbind (schema_of (upd_table_name st)) (\<lambda>sch.
     cbind (column_index sch col) (\<lambda>i. cbind (clift (GetColumn sch i)) (\<lambda>c.
     cbind (MakeConstantValueExpression (col_type c) (tl (ast_kids n))) (\<lambda>e.
       cret (st\<lparr>upd_attrs := AList.update i e (upd_attrs st)\<rparr>))))))"

fun update_values :: "ast list \<Rightarrow> update_statement \<Rightarrow> update_statement cm" where
  "update_values [] st = cret st"
| "update_values (n # ns) st = cbind (MakeUpdateValues n st) (update_values ns)"

fun Update_SyntaxTree2Statement :: "ast list \<Rightarrow> update_statement \<Rightarrow> update_statement cm" where
  "Update_SyntaxTree2Statement [] st = cret st"
| "Update_SyntaxTree2Statement (n # ns) st = (case ast_type n of
     kNodeIdentifier \<Rightarrow> cbind (bind_table n) (\<lambda>name.
       Update_SyntaxTree2Statement ns (st\<lparr>upd_table_name := name\<rparr>))
   | kNodeUpdateValues \<Rightarrow> cbind (update_values (ast_kids n) st) (Update_SyntaxTree2Statement ns)
   | kNodeConditions \<Rightarrow>
       cbind (MakePredicate (ast_kids n) (upd_table_name st) None None) (\<lambda>(e, _).
         Update_SyntaxTree2Statement ns (st\<lparr>upd_where := Some e\<rparr>))
   | _ \<Rightarrow> cfail LogicError)"

section \<open>Plans\<close>

datatype plan =
    SeqScanPlan schema string "expr option"
  | IndexScanPlan schema string "index_info list" bool "expr option"
  | ValuesPlan "expr list list"
  | InsertPlan plan string
  | DeletePlan schema plan string
  | UpdatePlan schema plan string "(nat \<times> expr) list"

definition MAX_VARCHAR_SIZE :: u32 where
  "MAX_VARCHAR_SIZE = 128"

definition output_column :: "string \<times> expr \<Rightarrow> column res" where
  "output_column x = res_bind (GetColIdx (snd x)) (\<lambda>i.
     if GetReturnType (snd x) \<noteq> kTypeChar
     then Column_num (fst x) (GetReturnType (snd x)) (word_of_nat i) False False
     else Column_char (fst x) (GetReturnType (snd x)) MAX_VARCHAR_SIZE (word_of_nat i) False False)"

fun output_columns :: "(string \<times> expr) list \<Rightarrow> column option list res" where
  "output_columns [] = Inr []"
| "output_columns (x # xs) = res_bind (output_column x) (\<lambda>c. res_bind (output_columns xs) (\<lambda>cs. Inr (Some c # cs)))"

definition MakeOutputSchema :: "(string \<times> expr) list \<Rightarrow> schema res" where
  "MakeOutputSchema exprs = res_bind (output_columns exprs) (\<lambda>cs. Inr \<lparr>columns = cs, schema_is_manage = True\<rparr>)"

text \<open>The indexes on a single column that occurs in the condition.\<close>

fun available_indexes :: "index_info list \<Rightarrow> nat list \<Rightarrow> index_info list res" where
  "available_indexes [] cols = Inr []"
| "available_indexes (x # xs) cols =
     (if length (columns (ii_key_schema x)) = 1
      then res_bind (GetColumn (ii_key_schema x) 0) (\<lambda>c. res_bind (available_indexes xs cols) (\<lambda>ys.
             Inr (if unat (col_table_ind c) \<in> set cols then x # ys else ys)))
      else available_indexes xs cols)"

definition PlanSelect :: "select_statement \<Rightarrow> plan cm" where
  "PlanSelect st = cbind (clift (MakeOutputSchema (sel_column_list st))) (\<lambda>out. (\<lambda>ctx. case ctx of
     None \<Rightarrow> (Inl NullDeref, ctx)
   | Some c \<Rightarrow>
       cbind (clift (available_indexes (snd (GetTableIndexes c (sel_table_name st) [])) (sel_column_in_condition st))) (\<lambda>avail.
         cret (if avail = [] \<or> sel_has_or st
               then SeqScanPlan out (sel_table_name st) (sel_where st)
               else IndexScanPlan out (sel_table_name st) avail
                      (length avail \<noteq> length (sel_column_in_condition st)) (sel_where st))) ctx))"

definition PlanInsert :: "insert_statement \<Rightarrow> plan" where
  "PlanInsert st = InsertPlan (ValuesPlan (ins_raw_values st)) (ins_table_name st)"

definition PlanDelete :: "delete_statement \<Rightarrow> plan cm" where
  "PlanDelete st = cbind (schema_of (del_table_name st)) (\<lambda>sch.
     cret (DeletePlan sch (SeqScanPlan sch (del_table_name st) (del_where st)) (del_table_name st)))"

definition PlanUpdate :: "update_statement \<Rightarrow> plan cm" where
  "PlanUpdate st = cbind (schema_of (upd_table_name st)) (\<lambda>sch.
     cret (UpdatePlan sch (SeqScanPlan sch (upd_table_name st) (upd_where st)) (upd_table_name st) (upd_attrs st)))"

definition PlanQuery :: "ast \<Rightarrow> plan cm" where
  "PlanQuery n = (case ast_type n of
     kNodeSelect \<Rightarrow> cbind (Select_SyntaxTree2Statement (ast_kids n) SelectStatement) PlanSelect
   | kNodeInsert \<Rightarrow> cbind (Insert_SyntaxTree2Statement (ast_kids n)
         \<lparr>ins_ast_type = ast_type n, ins_table_name = [], ins_raw_values = []\<rparr>) (\<lambda>st. cret (PlanInsert st))
   | kNodeDelete \<Rightarrow> cbind (Delete_SyntaxTree2Statement (ast_kids n) \<lparr>del_table_name = [], del_where = None\<rparr>) PlanDelete
   | kNodeUpdate \<Rightarrow> cbind (Update_SyntaxTree2Statement (ast_kids n)
         \<lparr>upd_table_name = [], upd_where = None, upd_attrs = []\<rparr>) PlanUpdate
   | _ \<Rightarrow> cfail LogicError)"

section \<open>What planning establishes\<close>

text \<open>The schema a table name leads to; looking a table up does not change it.\<close>

definition table_schema :: "ctx \<Rightarrow> string \<Rightarrow> schema option" where
  "table_schema ctx name = (case ctx of None \<Rightarrow> None | Some c \<Rightarrow>
     (case map_of (table_names c) name of None \<Rightarrow> None | Some table_id \<Rightarrow>
       (case map_of (tables c) table_id of Some (Some info) \<Rightarrow> Some (GetSchema info) | _ \<Rightarrow> None)))"

text \<open>
  \<open>yields S m Q\<close>: run in a context whose tables have the schemas \<open>S\<close>, \<open>m\<close> keeps them, and whatever it
  returns satisfies \<open>Q\<close>.
\<close>

definition yields :: "(string \<Rightarrow> schema option) \<Rightarrow> 'a cm \<Rightarrow> ('a \<Rightarrow> bool) \<Rightarrow> bool" where
  "yields S m Q \<longleftrightarrow> (\<forall>ctx r ctx'. table_schema ctx = S \<longrightarrow> m ctx = (r, ctx') \<longrightarrow>
     table_schema ctx' = S \<and> (\<forall>x. r = Inr x \<longrightarrow> Q x))"

named_theorems yields_rules "what the operations of the planner yield"

lemma yields_ret [yields_rules]: "Q x \<Longrightarrow> yields S (cret x) Q"
  by (simp add: yields_def cret_def)

lemma yields_fail [yields_rules]: "yields S (cfail e) Q"
  by (simp add: yields_def cfail_def)

lemma yields_lift [yields_rules]: "(\<And>x. r = Inr x \<Longrightarrow> Q x) \<Longrightarrow> yields S (clift r) Q"
  by (auto simp: yields_def clift_def res_simps)

lemma yields_lift_eq: "yields S (clift r) (\<lambda>x. r = Inr x)"
  by (rule yields_lift)

lemma yields_bind:
  assumes "yields S m R" "\<And>x. R x \<Longrightarrow> yields S (f x) Q"
  shows "yields S (cbind m f) Q"
  unfolding yields_def
proof (intro allI impI)
  fix ctx r ctx'
  assume S: "table_schema ctx = S" and b: "cbind m f ctx = (r, ctx')"
  obtain q ctx1 where q: "m ctx = (q, ctx1)" by (cases "m ctx")
  then have 1: "table_schema ctx1 = S" "\<And>x. q = Inr x \<Longrightarrow> R x" using assms(1) S unfolding yields_def by auto
  show "table_schema ctx' = S \<and> (\<forall>x. r = Inr x \<longrightarrow> Q x)"
  proof (cases q)
    case (Inl e)
    then show ?thesis using b q 1(1) by (auto simp: cbind_def)
  next
    case (Inr x)
    then have "f x ctx1 = (r, ctx')" using b q by (simp add: cbind_def)
    then show ?thesis using assms(2) [OF 1(2) [OF Inr]] 1(1) unfolding yields_def by blast
  qed
qed

lemma yields_bind_pair:
  "yields S m (\<lambda>(a, _). R a) \<Longrightarrow> (\<And>a b. R a \<Longrightarrow> yields S (f a b) Q) \<Longrightarrow> yields S (cbind m (\<lambda>(a, b). f a b)) Q"
  by (rule yields_bind, assumption) auto

lemma yields_mono: "yields S m R \<Longrightarrow> (\<And>x. R x \<Longrightarrow> Q x) \<Longrightarrow> yields S m Q"
  by (auto simp: yields_def)

lemma yields_and: "yields S m Q \<Longrightarrow> yields S m R \<Longrightarrow> yields S m (\<lambda>x. Q x \<and> R x)"
  by (auto simp: yields_def)

lemma at_or_new_None:
  "at_or_new None k m = (x, m') \<Longrightarrow> map_of m' j = Some (Some i) \<longleftrightarrow> map_of m j = Some (Some i)"
  by (auto simp: at_or_new_def AList.update_conv' split: option.splits if_splits)

lemma table_schema_Some:
  "table_schema (Some c) name = Some s \<longleftrightarrow> (\<exists>k i. map_of (table_names c) name = Some k \<and>
     map_of (tables c) k = Some (Some i) \<and> s = GetSchema i)"
  by (auto simp: table_schema_def split: option.splits)

lemma yields_lookup:
  "yields S (lookup_table name) (\<lambda>(e, info). (e = DB_SUCCESS \<longrightarrow> info = None \<longrightarrow> S name = None) \<and>
     (\<forall>i. info = Some i \<longrightarrow> S name = Some (GetSchema i)))"
  unfolding yields_def
proof (intro allI impI)
  fix ctx r ctx'
  assume S: "table_schema ctx = S" and l: "lookup_table name ctx = (r, ctx')"
  show "table_schema ctx' = S \<and> (\<forall>x. r = Inr x \<longrightarrow> (case x of (e, info) \<Rightarrow>
     (e = DB_SUCCESS \<longrightarrow> info = None \<longrightarrow> S name = None) \<and> (\<forall>i. info = Some i \<longrightarrow> S name = Some (GetSchema i))))"
  proof (cases ctx)
    case None
    then show ?thesis using S l by (auto simp: lookup_table_def)
  next
    case ctx: (Some c)
    obtain e info c' where c: "ctx = Some c" "GetTable c name = (e, info, c')" "r = Inr (e, info)" "ctx' = Some c'"
      using ctx l by (auto simp: lookup_table_def split: prod.splits)
    show ?thesis
    proof (cases "map_of (table_names c) name")
      case None
      then show ?thesis using c S by (auto simp: GetTable_def table_schema_def)
    next
      case (Some k)
      obtain ts where ts: "at_or_new None k (tables c) = (info, ts)" "c' = c\<lparr>tables := ts\<rparr>"
        using c(2) Some by (auto simp: GetTable_def split: prod.splits)
      have "table_schema ctx' n = Some s \<longleftrightarrow> table_schema ctx n = Some s" for n s
        using at_or_new_None [OF ts(1)] c(1,4) ts(2) by (simp add: table_schema_Some)
      then have "table_schema ctx' = table_schema ctx" by (intro ext) (metis not_Some_eq)
      moreover have "S name = map_option GetSchema info"
        using S [symmetric] c(1) Some ts(1) by (auto simp: table_schema_def at_or_new_def split: option.splits)
      ultimately show ?thesis using c(3) S by auto
    qed
  qed
qed

lemma yields_schema_of [yields_rules]: "yields S (schema_of name) (\<lambda>sch. S name = Some sch)"
  unfolding schema_of_def
  by (rule yields_bind [OF yields_lookup]) (auto intro!: yields_rules split: option.splits)

lemma yields_text_of [yields_rules]: "yields S (text_of n) (\<lambda>s. ast_val n = Some s)"
  by (auto simp: text_of_def intro!: yields_rules split: option.splits)

lemma yields_node_at [yields_rules]: "yields S (node_at p) (\<lambda>n. p = n # tl p)"
  by (auto simp: node_at_def intro!: yields_rules split: list.splits)

lemma yields_column_index [yields_rules]: "yields S (column_index sch n) (\<lambda>i. True)"
  by (auto simp: column_index_def intro!: yields_bind [OF yields_text_of] yields_bind [OF yields_lift_eq]
      yields_rules split: option.splits)

lemma yields_column_value [yields_rules]:
  "yields S (MakeColumnValueExpression name col) (\<lambda>e. \<exists>sch i c. S name = Some sch \<and> GetColumn sch i = Inr c \<and>
     e = ColumnValue 0 i (col_type c))"
  unfolding MakeColumnValueExpression_def
  by (rule yields_bind [OF yields_schema_of], rule yields_bind [OF yields_node_at],
      rule yields_bind [OF yields_column_index], rule yields_bind [OF yields_lift_eq], rule yields_ret) blast

text \<open>A constant is well formed and has the type of its column.\<close>

definition constant_of :: "type_id \<Rightarrow> expr \<Rightarrow> bool" where
  "constant_of t e \<longleftrightarrow> (\<exists>f. e = ConstantValue f \<and> field_ok f \<and> field_type f = t)"

lemma yields_constant_field:
  assumes "t \<noteq> kTypeInvalid"
  shows "yields S (constant_field t n) (\<lambda>f. field_ok f \<and> field_type f = t)"
proof (cases "ast_type n = kNodeNull")
  case True
  then show ?thesis using assms
    by (auto simp: constant_field_def field_ok_def Field_null_def intro!: yields_rules)
next
  case False
  have i: "field_ok f \<and> field_type f = kTypeInt" if "Field_int kTypeInt i = Inr f" for i f
    using that constructors_ok(1) [OF that] by (auto simp: Field_int_def res_simps)
  have x: "field_ok f \<and> field_type f = kTypeFloat" if "Field_float kTypeFloat x = Inr f" for x f
    using that constructors_ok(2) [OF that] by (auto simp: Field_float_def res_simps)
  have s: "field_ok f \<and> field_type f = kTypeChar"
    if "Field_chars kTypeChar (Some (map byte_of_char s)) (word_of_nat (length s)) True = Inr f" for s f
  proof -
    have "unat (word_of_nat (length s) :: u32) \<le> length s"
      by (simp add: unat_of_nat)
    then show ?thesis using that constructors_ok(3) [OF that] by (auto simp: Field_chars_def res_simps)
  qed
  show ?thesis using False assms i x s
    by (cases t) (auto simp: constant_field_def intro!: yields_fail yields_bind [OF yields_text_of] yields_bind [OF yields_lift_eq] yields_lift)
qed

lemma yields_constant: "t \<noteq> kTypeInvalid \<Longrightarrow> yields S (MakeConstantValueExpression t p) (constant_of t)"
  unfolding MakeConstantValueExpression_def constant_of_def
  by (rule yields_bind [OF yields_node_at], rule yields_bind [OF yields_constant_field])
    (auto intro!: yields_ret simp: Field_copy_ok)

text \<open>The operators of a condition are the ones the grammar writes.\<close>

fun operators_ok :: "ast \<Rightarrow> bool" where
  "operators_ok (Node ty v cs) \<longleftrightarrow>
     (ty = kNodeCompareOperator \<longrightarrow> (\<exists>op \<in> set comparison_types. v = Some op)) \<and> (\<forall>c \<in> set cs. operators_ok c)"

definition types_ok :: "(string \<Rightarrow> schema option) \<Rightarrow> bool" where
  "types_ok S \<longleftrightarrow> (\<forall>name sch i c. S name = Some sch \<longrightarrow> GetColumn sch i = Inr c \<longrightarrow> col_type c \<noteq> kTypeInvalid)"

definition predicate_on :: "(string \<Rightarrow> schema option) \<Rightarrow> string \<Rightarrow> expr \<Rightarrow> bool" where
  "predicate_on S name e \<longleftrightarrow> (\<exists>sch. S name = Some sch \<and> is_predicate sch e)"

lemma is_predicate_type: "is_predicate sch e \<Longrightarrow> GetReturnType e = kTypeInt"
  by (cases e) auto

lemma yields_comparison:
  assumes "types_ok S" "\<exists>op \<in> set comparison_types. v = Some op"
  shows "yields S (MakePredicate (Node kNodeCompareOperator v cs # ns) name cols h) (\<lambda>(e, _). predicate_on S name e)"
proof -
  have K: "yields S (case cols of None \<Rightarrow> cret None
      | Some js \<Rightarrow> cbind (clift (GetColIdx ce)) (\<lambda>i. cret (Some (js @ [i])))) (\<lambda>_. True)" for ce
    by (cases cols) (auto intro!: yields_ret yields_bind [OF yields_lift_eq])
  have "predicate_on S name (MakeComparisonExpression ce ke op)"
    if "S name = Some sch" "GetColumn sch i = Inr c" "ce = ColumnValue 0 i (col_type c)"
      "constant_of (GetReturnType ce) ke" "v = Some op" for ce ke op sch i c
    using that assms(2) by (auto simp: predicate_on_def MakeComparisonExpression_def constant_of_def)
  then show ?thesis using assms(1)
    by (auto simp: types_ok_def intro!: yields_bind [OF yields_node_at] yields_bind [OF yields_column_value]
        yields_bind [OF yields_constant] yields_bind [OF K] yields_bind [OF yields_text_of] yields_ret)
qed

lemma yields_connector:
  assumes l: "yields S (MakePredicate cs name None None) (\<lambda>(e, _). predicate_on S name e)"
    and r: "yields S (if cs = [] then cfail NullDeref else MakePredicate (tl cs) name None None)
      (\<lambda>(e, _). predicate_on S name e)"
  shows "yields S (MakePredicate (Node kNodeConnector v cs # ns) name cols h) (\<lambda>(e, _). predicate_on S name e)"
proof -
  have m: "predicate_on S name e" if "predicate_on S name a" "predicate_on S name b"
      "MakeLogicExpression a b lt = Inr e" for a b e lt
    using that by (auto simp: predicate_on_def MakeLogicExpression_def LogicExpression_def split: if_splits)
  show ?thesis
    unfolding MakePredicate.simps if_P [OF refl]
    by (rule yields_bind_pair [OF l], rule yields_bind_pair [OF r], rule yields_bind [OF yields_text_of],
        rule yields_bind [OF yields_lift_eq], rule yields_bind [OF yields_lift_eq], rule yields_ret)
      (simp only: prod.case, erule (2) m)
qed

lemma yields_predicate:
  assumes "types_ok S"
  shows "\<forall>n \<in> set p. operators_ok n \<Longrightarrow> yields S (MakePredicate p name cols h) (\<lambda>(e, _). predicate_on S name e)"
proof (induction p name cols h rule: MakePredicate.induct)
  case (1 name cols h)
  then show ?case by (simp add: yields_fail)
next
  case (2 ty v cs ns name cols h)
  show ?case
  proof (cases "ty = kNodeConnector")
    case True
    have l: "yields S (MakePredicate cs name None None) (\<lambda>(e, _). predicate_on S name e)"
      using 2(1) [OF True] 2(3) by simp
    have r: "yields S (if cs = [] then cfail NullDeref else MakePredicate (tl cs) name None None)
        (\<lambda>(e, _). predicate_on S name e)"
    proof (cases "cs = []")
      case False
      moreover have "\<forall>n \<in> set (tl cs). operators_ok n" using 2(3) list.set_sel(2) [of cs] False by auto
      ultimately show ?thesis using 2(2) [OF True False] by simp
    qed (simp add: yields_fail)
    show ?thesis using yields_connector [OF l r] True by simp
  next
    case False
    show ?thesis
    proof (cases "ty = kNodeCompareOperator")
      case True
      then show ?thesis using yields_comparison [OF assms, of v cs ns name cols h] 2(3) by simp
    qed (use False in \<open>simp add: yields_fail\<close>)
  qed
qed

text \<open>The shape the grammar gives to the four query statements.\<close>

fun where_shape :: "ast list \<Rightarrow> bool" where
  "where_shape [] \<longleftrightarrow> True"
| "where_shape [n] \<longleftrightarrow> ast_type n = kNodeConditions \<and> (\<forall>c \<in> set (ast_kids n). operators_ok c)"
| "where_shape ns \<longleftrightarrow> False"

definition table_shape :: "ast \<Rightarrow> bool" where
  "table_shape n \<longleftrightarrow> ast_type n = kNodeIdentifier \<and> ast_val n \<noteq> None"

definition query_shape :: "ast \<Rightarrow> bool" where
  "query_shape n = (case (ast_type n, ast_kids n) of
     (kNodeSelect, l # t # w) \<Rightarrow> ast_type l \<in> {kNodeAllColumns, kNodeColumnList} \<and> table_shape t \<and> where_shape w
   | (kNodeInsert, [t, v]) \<Rightarrow> table_shape t \<and> ast_type v = kNodeColumnValues
   | (kNodeDelete, t # w) \<Rightarrow> table_shape t \<and> where_shape w
   | (kNodeUpdate, t # v # w) \<Rightarrow> table_shape t \<and> ast_type v = kNodeUpdateValues \<and> where_shape w
   | _ \<Rightarrow> False)"

text \<open>
  A plan fits the tables: its predicates are predicates over the scanned table, the rows to insert match
  the columns of the table, the new values of an update match the columns they are for, and the indexes
  of an index scan are on one column that occurs in the condition.
\<close>

definition filter_ok :: "(string \<Rightarrow> schema option) \<Rightarrow> string \<Rightarrow> expr option \<Rightarrow> bool" where
  "filter_ok S name w \<longleftrightarrow> S name \<noteq> None \<and> (\<forall>e. w = Some e \<longrightarrow> predicate_on S name e)"

definition values_match :: "schema \<Rightarrow> expr list \<Rightarrow> bool" where
  "values_match sch es \<longleftrightarrow> length es = length (columns sch) \<and>
     (\<forall>i < length es. \<exists>c. columns sch ! i = Some c \<and> constant_of (col_type c) (es ! i))"

definition attrs_match :: "schema \<Rightarrow> (nat \<times> expr) list \<Rightarrow> bool" where
  "attrs_match sch as \<longleftrightarrow> (\<forall>(i, e) \<in> set as. \<exists>c. GetColumn sch i = Inr c \<and> constant_of (col_type c) e)"

fun plan_ok :: "(string \<Rightarrow> schema option) \<Rightarrow> plan \<Rightarrow> bool" where
  "plan_ok S (SeqScanPlan out name w) \<longleftrightarrow> filter_ok S name w"
| "plan_ok S (IndexScanPlan out name idx nf w) \<longleftrightarrow> filter_ok S name w \<and> idx \<noteq> [] \<and>
     (\<forall>x \<in> set idx. length (columns (ii_key_schema x)) = 1)"
| "plan_ok S (InsertPlan (ValuesPlan rows) name) \<longleftrightarrow> (\<exists>sch. S name = Some sch \<and> (\<forall>es \<in> set rows. values_match sch es) \<and> length rows = 1)"
| "plan_ok S (DeletePlan sch (SeqScanPlan out name w) name') \<longleftrightarrow> name' = name \<and> S name = Some sch \<and> out = sch \<and> filter_ok S name w"
| "plan_ok S (UpdatePlan sch (SeqScanPlan out name w) name' as) \<longleftrightarrow> name' = name \<and> S name = Some sch \<and> out = sch \<and>
     filter_ok S name w \<and> attrs_match sch as"
| "plan_ok S p \<longleftrightarrow> False"

lemma yields_bind_table: "yields S (bind_table n) (\<lambda>name. True)"
  unfolding bind_table_def
  by (rule yields_bind [OF yields_text_of], rule yields_bind [OF yields_lookup])
    (auto intro!: yields_rules split: if_splits)

lemma yields_named_columns: "yields S (named_columns sch p) (\<lambda>_. True)"
  by (induction p) (auto intro!: yields_ret yields_bind [OF yields_column_index] yields_bind [OF yields_lift_eq]
      yields_bind [OF yields_text_of] elim: yields_bind)

lemma yields_column_list:
  "yields S (MakeColumnList p st) (\<lambda>st'. S (sel_table_name st) \<noteq> None \<and> (\<exists>es. st' = st\<lparr>sel_column_list := es\<rparr>))"
proof -
  have c: "yields S (if p = [] then clift (all_columns (columns sch)) else named_columns sch p) (\<lambda>_. True)" for sch
    using yields_named_columns by (auto intro: yields_lift)
  show ?thesis unfolding MakeColumnList_def
    by (rule yields_bind [OF yields_schema_of], rule yields_bind [OF c], rule yields_ret) blast
qed

text \<open>A \<^verbatim>\<open>where\<close> clause, in the three statements that have one.\<close>

definition where_ok :: "(string \<Rightarrow> schema option) \<Rightarrow> string \<Rightarrow> expr option \<Rightarrow> bool" where
  "where_ok S name w \<longleftrightarrow> (\<forall>e. w = Some e \<longrightarrow> predicate_on S name e)"

lemma where_shapeD:
  "where_shape w \<Longrightarrow> w = [] \<or> (\<exists>n. w = [n] \<and> ast_type n = kNodeConditions \<and> (\<forall>c \<in> set (ast_kids n). operators_ok c))"
  by (cases w rule: where_shape.cases) auto

lemma yields_select_where:
  assumes "types_ok S" "where_shape w"
  shows "yields S (Select_SyntaxTree2Statement w (SelectStatement\<lparr>sel_table_name := name\<rparr>))
    (\<lambda>st. sel_table_name st = name \<and> where_ok S name (sel_where st))"
  using where_shapeD [OF assms(2)]
proof
  assume "w = []"
  then show ?thesis by (auto simp: SelectStatement_def where_ok_def intro!: yields_ret)
next
  assume "\<exists>n. w = [n] \<and> ast_type n = kNodeConditions \<and> (\<forall>c \<in> set (ast_kids n). operators_ok c)"
  then show ?thesis
    by (auto simp: where_ok_def intro!: yields_ret yields_bind_pair [OF yields_predicate [OF assms(1)]])
qed

lemma yields_delete_where:
  assumes "types_ok S" "where_shape w"
  shows "yields S (Delete_SyntaxTree2Statement w \<lparr>del_table_name = name, del_where = None\<rparr>)
    (\<lambda>st. del_table_name st = name \<and> where_ok S name (del_where st))"
  using where_shapeD [OF assms(2)]
  by (auto simp: where_ok_def intro!: yields_ret yields_bind_pair [OF yields_predicate [OF assms(1)]])

lemma yields_update_where:
  assumes "types_ok S" "where_shape w"
  shows "yields S (Update_SyntaxTree2Statement w \<lparr>upd_table_name = name, upd_where = None, upd_attrs = as\<rparr>)
    (\<lambda>st. upd_table_name st = name \<and> where_ok S name (upd_where st) \<and> upd_attrs st = as)"
  using where_shapeD [OF assms(2)]
  by (auto simp: where_ok_def intro!: yields_ret yields_bind_pair [OF yields_predicate [OF assms(1)]])

lemma available_indexes_single:
  "available_indexes xs cols = Inr ys \<Longrightarrow> x \<in> set ys \<Longrightarrow> length (columns (ii_key_schema x)) = Suc 0"
  by (induction xs arbitrary: ys) (auto simp: res_simps split: if_splits)

lemma yields_PlanSelect:
  assumes "filter_ok S (sel_table_name st) (sel_where st)"
  shows "yields S (PlanSelect st) (plan_ok S)"
proof -
  have "yields S (\<lambda>ctx. case ctx of None \<Rightarrow> (Inl NullDeref, ctx)
    | Some c \<Rightarrow>
       cbind (clift (available_indexes (snd (GetTableIndexes c (sel_table_name st) [])) (sel_column_in_condition st))) (\<lambda>avail.
         cret (if avail = [] \<or> sel_has_or st
               then SeqScanPlan out (sel_table_name st) (sel_where st)
               else IndexScanPlan out (sel_table_name st) avail
                      (length avail \<noteq> length (sel_column_in_condition st)) (sel_where st))) ctx) (plan_ok S)" for out
    using assms by (auto simp: yields_def cbind_def clift_def cret_def dest: available_indexes_single
        split: option.splits sum.splits if_splits)
  then show ?thesis unfolding PlanSelect_def by (rule yields_bind [OF yields_lift_eq])
qed

lemma yields_select:
  assumes "types_ok S" "where_shape w" "ast_type l \<in> {kNodeAllColumns, kNodeColumnList}" "ast_type t = kNodeIdentifier"
  shows "yields S (Select_SyntaxTree2Statement (l # t # w) SelectStatement)
    (\<lambda>st. filter_ok S (sel_table_name st) (sel_where st))"
proof -
  have "yields S (Select_SyntaxTree2Statement (t # w) SelectStatement) (\<lambda>st. where_ok S (sel_table_name st) (sel_where st))"
    using assms(4) by (auto intro!: yields_bind [OF yields_bind_table] yields_mono [OF yields_select_where [OF assms(1,2)]])
  then have "yields S (cbind (Select_SyntaxTree2Statement (t # w) SelectStatement) (MakeColumnList (ast_kids l)))
      (\<lambda>st. filter_ok S (sel_table_name st) (sel_where st))"
    by (rule yields_bind) (rule yields_mono [OF yields_column_list], auto simp: where_ok_def filter_ok_def)
  then show ?thesis using assms(3) by auto
qed

lemma values_match_columns: "columns sch = columns sch' \<Longrightarrow> values_match sch = values_match sch'"
  by (intro ext) (simp add: values_match_def)

lemma values_match_Cons:
  "constant_of (col_type c) e \<Longrightarrow> values_match \<lparr>columns = cs, schema_is_manage = b\<rparr> es \<Longrightarrow>
   values_match \<lparr>columns = Some c # cs, schema_is_manage = b\<rparr> (e # es)"
  by (auto simp: values_match_def nth_Cons split: nat.splits)

lemma yields_insert_values:
  assumes "\<And>c. Some c \<in> set cs \<Longrightarrow> col_type c \<noteq> kTypeInvalid"
  shows "yields S (insert_values kNodeInsert cs p) (values_match \<lparr>columns = cs, schema_is_manage = b\<rparr>)"
  using assms
proof (induction "kNodeInsert" cs p rule: insert_values.induct)
  case (1 p)
  then show ?case by (auto simp: values_match_def intro!: yields_ret yields_fail)
next
  case (4 c cs n ns)
  have "yields S (MakeConstantValueExpression (col_type c) (n # ns)) (constant_of (col_type c))"
    by (rule yields_constant) (use 4(2) in auto)
  moreover have "yields S (insert_values kNodeInsert cs ns) (values_match \<lparr>columns = cs, schema_is_manage = b\<rparr>)"
    using 4 by auto
  ultimately show ?case
    by (auto intro!: yields_bind [of S "MakeConstantValueExpression (col_type c) (n # ns)"]
        yields_bind [of S "insert_values kNodeInsert cs ns"] yields_ret values_match_Cons)
qed (simp_all add: yields_fail)

lemma types_okD: "types_ok S \<Longrightarrow> S name = Some sch \<Longrightarrow> Some c \<in> set (columns sch) \<Longrightarrow> col_type c \<noteq> kTypeInvalid"
proof -
  assume t: "types_ok S" "S name = Some sch" and "Some c \<in> set (columns sch)"
  then obtain i where "i < length (columns sch)" "columns sch ! i = Some c" by (metis in_set_conv_nth)
  then have "GetColumn sch i = Inr c" by (simp add: GetColumn_def)
  with t show ?thesis unfolding types_ok_def by blast
qed

lemma yields_insert:
  assumes "types_ok S" "ast_type t = kNodeIdentifier" "ast_type v = kNodeColumnValues"
  shows "yields S (Insert_SyntaxTree2Statement [t, v] \<lparr>ins_ast_type = kNodeInsert, ins_table_name = [], ins_raw_values = []\<rparr>)
    (\<lambda>st. plan_ok S (PlanInsert st))"
proof -
  have v: "yields S (insert_values kNodeInsert (columns sch) p) (values_match sch)" if "S name = Some sch" for name sch p
    using yields_insert_values [of "columns sch" S p "schema_is_manage sch"] types_okD [OF assms(1) that]
      values_match_columns [of sch "\<lparr>columns = columns sch, schema_is_manage = schema_is_manage sch\<rparr>"] by simp
  have iv: "yields S (MakeInsertValues p \<lparr>ins_ast_type = kNodeInsert, ins_table_name = name, ins_raw_values = []\<rparr>)
      (\<lambda>st. plan_ok S (PlanInsert st))" for name p
    unfolding MakeInsertValues_def
    by (rule yields_bind [OF yields_schema_of], simp only: insert_statement.simps, rule yields_bind, erule v)
      (rule yields_ret, auto simp: PlanInsert_def)
  show ?thesis using assms(2,3)
    by (auto intro!: yields_bind [OF yields_bind_table] yields_bind [OF iv] yields_ret)
qed

lemma yields_delete:
  assumes "types_ok S" "where_shape w" "ast_type t = kNodeIdentifier"
  shows "yields S (cbind (Delete_SyntaxTree2Statement (t # w) \<lparr>del_table_name = [], del_where = None\<rparr>) PlanDelete) (plan_ok S)"
proof -
  have "yields S (Delete_SyntaxTree2Statement (t # w) \<lparr>del_table_name = [], del_where = None\<rparr>)
      (\<lambda>st. where_ok S (del_table_name st) (del_where st))"
    using assms(3) by (auto intro!: yields_bind [OF yields_bind_table] yields_mono [OF yields_delete_where [OF assms(1,2)]])
  then show ?thesis
    by (rule yields_bind) (auto simp: PlanDelete_def where_ok_def filter_ok_def
        intro!: yields_bind [OF yields_schema_of] yields_ret)
qed

lemma attrs_match_update:
  assumes "attrs_match sch as" "GetColumn sch i = Inr c" "constant_of (col_type c) e"
  shows "attrs_match sch (AList.update i e as)"
  unfolding attrs_match_def
proof (clarify)
  fix j f assume "(j, f) \<in> set (AList.update i e as)"
  then have "j = i \<and> f = e \<or> (j, f) \<in> set as" using set_alist_update [of i e as] by auto
  then show "\<exists>c. GetColumn sch j = Inr c \<and> constant_of (col_type c) f"
    using assms by (auto simp: attrs_match_def)
qed

lemma yields_update_values:
  assumes "types_ok S"
  shows "attrs_match sch (upd_attrs st) \<Longrightarrow> upd_where st = None \<Longrightarrow> S (upd_table_name st) = Some sch \<Longrightarrow>
    yields S (update_values ns st) (\<lambda>st'. upd_table_name st' = upd_table_name st \<and> upd_where st' = None \<and>
      attrs_match sch (upd_attrs st'))"
proof (induction ns arbitrary: st)
  case Nil
  then show ?case by (auto intro!: yields_ret)
next
  case (Cons n ns)
  have "yields S (MakeUpdateValues n st) (\<lambda>st'. upd_table_name st' = upd_table_name st \<and> upd_where st' = None \<and>
      attrs_match sch (upd_attrs st'))"
    unfolding MakeUpdateValues_def
    by (rule yields_bind [OF yields_node_at], rule yields_bind [OF yields_schema_of],
        rule yields_bind [OF yields_column_index], rule yields_bind [OF yields_lift_eq], rule yields_bind [OF yields_constant])
      (use Cons.prems assms in \<open>auto simp: types_ok_def intro!: yields_ret attrs_match_update\<close>)
  then have "yields S (cbind (MakeUpdateValues n st) (update_values ns))
      (\<lambda>st'. upd_table_name st' = upd_table_name st \<and> upd_where st' = None \<and> attrs_match sch (upd_attrs st'))"
    by (rule yields_bind) (rule yields_mono [OF Cons.IH], use Cons.prems in auto)
  then show ?case by simp
qed

lemma yields_update_values_unknown:
  assumes "types_ok S" "S (upd_table_name st) = None" "ns \<noteq> []"
  shows "yields S (update_values ns st) Q"
proof -
  obtain n ms where ns: "ns = n # ms" using assms(3) by (cases ns) auto
  have "yields S (MakeUpdateValues n st) (\<lambda>_. False)"
    unfolding MakeUpdateValues_def
    by (rule yields_bind [OF yields_node_at], rule yields_bind [OF yields_schema_of]) (use assms(2) in auto)
  then have "yields S (cbind (MakeUpdateValues n st) (update_values ms)) Q" by (rule yields_bind) auto
  then show ?thesis using ns by simp
qed

lemma yields_update:
  assumes "types_ok S" "where_shape w" "ast_type t = kNodeIdentifier" "ast_type v = kNodeUpdateValues"
  shows "yields S (cbind (Update_SyntaxTree2Statement (t # v # w)
    \<lparr>upd_table_name = [], upd_where = None, upd_attrs = []\<rparr>) PlanUpdate) (plan_ok S)"
proof -
  let ?st = "\<lambda>name. \<lparr>upd_table_name = name, upd_where = None, upd_attrs = []\<rparr> :: update_statement"
  let ?Q = "\<lambda>st. \<forall>sch. S (upd_table_name st) = Some sch \<longrightarrow> where_ok S (upd_table_name st) (upd_where st) \<and>
    attrs_match sch (upd_attrs st)"
  have u: "yields S (update_values (ast_kids v) (?st name)) (\<lambda>st. upd_table_name st = name \<and> upd_where st = None \<and>
      (\<forall>sch. S name = Some sch \<longrightarrow> attrs_match sch (upd_attrs st)))" for name
  proof (cases "S name")
    case None
    then show ?thesis using yields_update_values_unknown [OF assms(1), of "?st name"]
      by (cases "ast_kids v = []") (auto intro: yields_ret)
  next
    case (Some sch)
    then show ?thesis using yields_update_values [OF assms(1), of sch "?st name"] by (simp add: attrs_match_def)
  qed
  have q: "yields S (Update_SyntaxTree2Statement w st) ?Q" if h: "upd_table_name st = name \<and> upd_where st = None \<and>
      (\<forall>sch. S name = Some sch \<longrightarrow> attrs_match sch (upd_attrs st))" for st :: update_statement and name
  proof -
    obtain as where st: "st = \<lparr>upd_table_name = name, upd_where = None, upd_attrs = as\<rparr>"
      using h by (cases st) simp
    show ?thesis unfolding st
      by (rule yields_mono [OF yields_update_where [OF assms(1,2)]]) (use h st in auto)
  qed
  have "yields S (cbind (update_values (ast_kids v) (?st name)) (Update_SyntaxTree2Statement w)) ?Q" for name
    by (rule yields_bind [OF u q])
  then have "yields S (Update_SyntaxTree2Statement (t # v # w) (?st [])) ?Q"
    using assms(3,4) by (auto intro!: yields_bind [OF yields_bind_table])
  then show ?thesis
    by (rule yields_bind) (auto simp: PlanUpdate_def where_ok_def filter_ok_def intro!: yields_bind [OF yields_schema_of] yields_ret)
qed

section \<open>Properties\<close>

text \<open>
  C40 (type). Planning is type-safe: for a query tree of the grammar's shape, over a catalog whose tables
  have columns of valid types, every plan \<^verbatim>\<open>PlanQuery\<close> returns fits the tables it names: filters are
  well-typed predicates of the scanned table (so their evaluation cannot fail an assertion), the row to
  insert has exactly one well-formed constant of the column's type per column, the new values of an update
  have their columns' types, and an index scan has an index and only single-column ones. Planning leaves
  every table's schema as it was.
\<close>

theorem plans_are_well_typed:
  assumes "types_ok (table_schema ctx)" and "query_shape n" and "PlanQuery n ctx = (Inr p, ctx')"
  shows "plan_ok (table_schema ctx) p \<and> table_schema ctx' = table_schema ctx"
proof -
  let ?S = "table_schema ctx"
  have "yields ?S (PlanQuery n) (plan_ok ?S)"
    using assms(2)
    by (auto simp: query_shape_def table_shape_def PlanQuery_def simp del: Select_SyntaxTree2Statement.simps
        Insert_SyntaxTree2Statement.simps Delete_SyntaxTree2Statement.simps Update_SyntaxTree2Statement.simps
        intro!: yields_bind [OF yields_select [OF assms(1)]] yields_PlanSelect
        yields_bind [OF yields_insert [OF assms(1)]] yields_ret yields_delete [OF assms(1)] yields_update [OF assms(1)]
        split: SyntaxNodeType.splits list.splits)
  then show ?thesis using assms(3) unfolding yields_def by blast
qed

text \<open>A catalog with one table, and \<^verbatim>\<open>insert into t values (5, null)\<close>.\<close>

definition example_info :: table_info where
  "example_info = \<lparr>ti_meta = example_table_metadata, ti_heap = \<lparr>first_page_id = 7, heap_schema = example_schema\<rparr>\<rparr>"

definition example_ctx :: ctx where
  "example_ctx = Some ((empty_catalog (BufferPoolManager 4 (DiskManager_open zero_mem 0)))
     \<lparr>table_names := [(''t'', 0)], tables := [(0, Some example_info)]\<rparr>)"

definition example_insert :: ast where
  "example_insert = Node kNodeInsert None [Node kNodeIdentifier (Some ''t'') [],
     Node kNodeColumnValues None [Node kNodeNumber (Some ''5'') [], Node kNodeNull None []]]"

lemma example_table_schema: "table_schema example_ctx = [''t'' \<mapsto> example_schema]"
  by (intro ext) (simp add: example_ctx_def table_schema_def example_info_def GetSchema_def example_table_metadata_def
      TableMetadata_Create_def)

lemma example_types_ok: "types_ok [''t'' \<mapsto> example_schema]"
  by (auto simp: types_ok_def GetColumn_def example_schema_def nth_Cons split: if_splits option.splits nat.splits)

definition example_rows :: "expr list list" where
  "example_rows = [[ConstantValue \<lparr>field_value = IntVal 5, field_type = kTypeInt, field_len = 4, field_is_null = False,
     field_manage = False\<rparr>, ConstantValue (Field_null kTypeChar)]]"

lemma example_lookup: "lookup_table ''t'' example_ctx = (Inr (DB_SUCCESS, Some example_info), example_ctx)"
  by (simp add: lookup_table_def example_ctx_def GetTable_def at_or_new_def)

lemma stoi_5: "stoi ''5'' = Inr 5"
  by (simp add: stoi_def is_digit_def digit_val_def digits_val_def)

lemma example_insert_plan: "PlanQuery example_insert example_ctx = (Inr (InsertPlan (ValuesPlan example_rows) ''t''), example_ctx)"
  by (simp add: PlanQuery_def example_insert_def cbind_def bind_table_def text_of_def cret_def example_lookup MakeInsertValues_def
      schema_of_def example_info_def GetSchema_def example_table_metadata_def TableMetadata_Create_def example_schema_def
      MakeConstantValueExpression_def node_at_def constant_field_def clift_def stoi_5 Field_int_def Field_copy_def Field_null_def
      PlanInsert_def example_rows_def)

theorem plans_are_well_typed_witness:
  "query_shape example_insert \<and> PlanQuery example_insert example_ctx = (Inr (InsertPlan (ValuesPlan example_rows) ''t''), example_ctx) \<and>
   plan_ok (table_schema example_ctx) (InsertPlan (ValuesPlan example_rows) ''t'')"
proof -
  have "query_shape example_insert" by (simp add: query_shape_def table_shape_def example_insert_def)
  then show ?thesis
    using plans_are_well_typed [OF example_types_ok [folded example_table_schema] _ example_insert_plan] example_insert_plan
    by blast
qed

end
