(* ===== verification/Result_Output.thy ===== *)
theory Result_Output
  imports Planner
begin

text \<open>
  What the user sees of a result set: \<^verbatim>\<open>Field::toString\<close> (src/MiniSQL/src/include/record/field.h), the
  \<^verbatim>\<open>ResultWriter\<close> (include/common/result_writer.h) and the part of \<^verbatim>\<open>ExecuteEngine::Execute\<close>
  (executor/execute_engine.cpp) that lays the table out. The stream is the text written to it. The
  elapsed time is a number of milliseconds; dividing it by 1000 and printing four decimals is exact below
  \<open>10 ^ 12\<close>. The table is proved equal to a reference layout, in which every line has the same length.
\<close>

section \<open>Fields as text\<close>

text \<open>
  The bytes of a character field go to an array of \<^verbatim>\<open>len_ + 1\<close> characters, which is then read up to the
  first zero.
\<close>

definition chars_text :: "byte list \<Rightarrow> string" where
  "chars_text bs = map char_of_byte (takeWhile (\<lambda>b. b \<noteq> 0) bs)"

definition Field_toString :: "field \<Rightarrow> string res" where
  "Field_toString f =
     (if field_is_null f then Inr ''NULL''
      else if field_type f = kTypeInt then Inr (to_string_int (int_bits (field_value f)))
      else if field_type f = kTypeFloat then Inr (to_string_float (int_bits (field_value f)))
      else case chars_of (field_value f) of
        None \<Rightarrow> if field_len f = 0 then Inr [] else Inl Undefined
      | Some bs \<Rightarrow> if field_len f + 1 = 0 \<or> length bs < unat (field_len f) then Inl Undefined
                   else Inr (chars_text (take (unat (field_len f)) bs)))"

section \<open>The writer\<close>

record result_writer =
  disable_header :: bool
  stream :: string
  separator :: string

definition ResultWriter :: "bool \<Rightarrow> string \<Rightarrow> result_writer" where
  "ResultWriter dis sep = \<lparr>disable_header = dis, stream = [], separator = sep\<rparr>"

definition put :: "string \<Rightarrow> result_writer \<Rightarrow> result_writer" where
  "put s w = w\<lparr>stream := stream w @ s\<rparr>"

definition WriteCell :: "string \<Rightarrow> nat \<Rightarrow> result_writer \<Rightarrow> result_writer" where
  "WriteCell cell width w = put ('' '' @ pad_right CHR '' '' width cell @ '' '' @ separator w) w"

definition WriteHeaderCell :: "string \<Rightarrow> nat \<Rightarrow> result_writer \<Rightarrow> result_writer" where
  "WriteHeaderCell cell width w =
     (if \<not> disable_header w then put ('' '' @ pad_right CHR '' '' width cell @ '' '' @ separator w) w else w)"

definition Divider :: "nat list \<Rightarrow> result_writer \<Rightarrow> result_writer" where
  "Divider data_width w =
     put [CHR 0x0A] (fold (\<lambda>width. put (pad_left CHR ''-'' (width + 3) ''+'')) data_width (put ''+'' w))"

definition BeginRow :: "result_writer \<Rightarrow> result_writer" where
  "BeginRow w = put ''|'' w"

definition EndRow :: "result_writer \<Rightarrow> result_writer" where
  "EndRow w = put [CHR 0x0A] w"

definition seconds_text :: "int \<Rightarrow> string" where
  "seconds_text ms = (if ms < 0 then ''-'' else []) @ fixed_text 4 (nat \<bar>ms\<bar> * 10)"

definition EndInformation :: "nat \<Rightarrow> int \<Rightarrow> bool \<Rightarrow> result_writer \<Rightarrow> result_writer" where
  "EndInformation result_size time is_scan w =
     put (''('' @ seconds_text time @ '' sec).'' @ [CHR 0x0A])
       (put (if is_scan then (if result_size = 0 then ''Empty set'' else nat_text result_size @ '' row in set'')
             else ''Query OK, '' @ nat_text result_size @ '' row affected'') w)"

section \<open>The table of a scan\<close>

definition field_text :: "row \<Rightarrow> nat \<Rightarrow> string res" where
  "field_text r i = res_bind (GetField r i) Field_toString"

text \<open>The loops that find the widths; \<open>n\<close> is the number of iterations over the fields of a row.\<close>

fun row_widths :: "row \<Rightarrow> nat \<Rightarrow> nat list \<Rightarrow> nat list res" where
  "row_widths r 0 ws = Inr ws"
| "row_widths r (Suc i) ws = res_bind (row_widths r i ws) (\<lambda>ws.
     res_bind (field_text r i) (\<lambda>s. Inr (ws[i := max (ws ! i) (length s)])))"

fun rows_widths :: "row list \<Rightarrow> nat \<Rightarrow> nat list \<Rightarrow> nat list res" where
  "rows_widths [] n ws = Inr ws"
| "rows_widths (r # rs) n ws = res_bind (row_widths r n ws) (rows_widths rs n)"

fun header_widths :: "column option list \<Rightarrow> nat \<Rightarrow> nat list \<Rightarrow> nat list res" where
  "header_widths [] k ws = Inr ws"
| "header_widths (None # cs) k ws = Inl NullDeref"
| "header_widths (Some c # cs) k ws = (if length ws \<le> k then Inl Undefined
     else header_widths cs (k + 1) (ws[k := max (ws ! k) (length (col_name c))]))"

fun write_header :: "column option list \<Rightarrow> nat \<Rightarrow> nat list \<Rightarrow> result_writer \<Rightarrow> result_writer res" where
  "write_header [] k ws w = Inr w"
| "write_header (None # cs) k ws w = Inl NullDeref"
| "write_header (Some c # cs) k ws w = (if length ws \<le> k then Inl Undefined
     else write_header cs (k + 1) ws (WriteHeaderCell (col_name c) (ws ! k) w))"

fun write_cells :: "row \<Rightarrow> nat \<Rightarrow> nat list \<Rightarrow> result_writer \<Rightarrow> result_writer res" where
  "write_cells r 0 ws w = Inr w"
| "write_cells r (Suc i) ws w = res_bind (write_cells r i ws w) (\<lambda>w.
     res_bind (field_text r i) (\<lambda>s. Inr (WriteCell s (ws ! i) w)))"

fun write_rows :: "row list \<Rightarrow> nat \<Rightarrow> nat list \<Rightarrow> result_writer \<Rightarrow> result_writer res" where
  "write_rows [] n ws w = Inr w"
| "write_rows (r # rs) n ws w =
     res_bind (write_cells r n ws (BeginRow w)) (\<lambda>w. write_rows rs n ws (EndRow w))"

definition write_table :: "schema \<Rightarrow> row list \<Rightarrow> result_writer \<Rightarrow> result_writer res" where
  "write_table sch result_set w =
     (let n = unat (GetColumnCount sch) in
      if result_set = [] then Inr w
      else res_bind (rows_widths result_set n (replicate n 0)) (\<lambda>ws.
           res_bind (header_widths (columns sch) 0 ws) (\<lambda>data_width.
           res_bind (write_header (columns sch) 0 data_width (BeginRow (Divider data_width w))) (\<lambda>w.
           res_bind (write_rows result_set n data_width (Divider data_width (EndRow w))) (\<lambda>w.
             Inr (Divider data_width w))))))"

text \<open>Everything that is printed for an executed plan, before the line with the time and after it.\<close>

fun write_result :: "plan \<Rightarrow> row list \<Rightarrow> result_writer \<Rightarrow> result_writer res" where
  "write_result (SeqScanPlan out t f) result_set w = write_table out result_set w"
| "write_result (IndexScanPlan out t idx nf f) result_set w = write_table out result_set w"
| "write_result p result_set w = Inr w"

fun is_scan_plan :: "plan \<Rightarrow> bool" where
  "is_scan_plan (SeqScanPlan out t f) = True"
| "is_scan_plan (IndexScanPlan out t idx nf f) = True"
| "is_scan_plan p = False"

definition query_output :: "plan \<Rightarrow> row list \<Rightarrow> int \<Rightarrow> string res" where
  "query_output p result_set duration_time = res_bind (write_result p result_set (ResultWriter False ''|'')) (\<lambda>w.
     Inr (stream (EndInformation (length result_set) duration_time (is_scan_plan p) w)))"

section \<open>The reference layout\<close>

definition fields_fit :: "schema \<Rightarrow> field list \<Rightarrow> bool" where
  "fields_fit sch fs \<longleftrightarrow> length fs = length (columns sch) \<and> (\<forall>i < length fs. field_ok (fs ! i) \<and>
     (\<exists>c. columns sch ! i = Some c \<and> field_type (fs ! i) = col_type c))"

text \<open>The text of a field that has one.\<close>

fun shown :: "field \<Rightarrow> string" where
  "shown f = (if field_is_null f then ''NULL'' else
     (case field_value f of IntVal i \<Rightarrow> int_text (sint i) | FloatVal x \<Rightarrow> to_string_float x
      | CharsVal bs \<Rightarrow> chars_text bs | NullChars \<Rightarrow> []))"

definition names :: "schema \<Rightarrow> string list" where
  "names sch = map (\<lambda>c. col_name (the c)) (columns sch)"

text \<open>The lines of a table: the grid of the header and the rows, each column as wide as its widest text.\<close>

definition widths :: "string list list \<Rightarrow> nat \<Rightarrow> nat list" where
  "widths grid n = map (\<lambda>j. Max ((\<lambda>line. length (line ! j)) ` set grid)) [0..<n]"

definition divider_line :: "nat list \<Rightarrow> string" where
  "divider_line ws = ''+'' @ concat (map (\<lambda>w. replicate (w + 2) CHR ''-'' @ ''+'') ws)"

definition grid_line :: "nat list \<Rightarrow> string list \<Rightarrow> string" where
  "grid_line ws line = ''|'' @ concat (map2 (\<lambda>w s. '' '' @ s @ replicate (w - length s) CHR '' '' @ '' |'') ws line)"

definition table_lines :: "string list \<Rightarrow> string list list \<Rightarrow> string list" where
  "table_lines hdr body = (let ws = widths (hdr # body) (length hdr) in
     [divider_line ws, grid_line ws hdr, divider_line ws] @ map (grid_line ws) body @ [divider_line ws])"

definition unlines :: "string list \<Rightarrow> string" where
  "unlines ls = concat (map (\<lambda>l. l @ [CHR 0x0A]) ls)"

section \<open>The code computes the reference layout\<close>

named_theorems writer_simps "the operations of the writer as text"

lemma stream_put [writer_simps]: "stream (put s w) = stream w @ s" "separator (put s w) = separator w"
    "disable_header (put s w) = disable_header w"
  by (simp_all add: put_def)

lemma put_put [writer_simps]: "put t (put s w) = put (s @ t) w"
  by (simp add: put_def)

lemma put_Nil [writer_simps]: "put [] w = w"
  by (simp add: put_def)

text \<open>The writer \<^verbatim>\<open>Execute\<close> uses prints a header and separates by a bar.\<close>

definition plain :: "result_writer \<Rightarrow> bool" where
  "plain w \<longleftrightarrow> \<not> disable_header w \<and> separator w = ''|''"

lemma plain_put [simp]: "plain (put s w) = plain w"
  by (simp add: plain_def put_def)

definition cell_text :: "nat \<Rightarrow> string \<Rightarrow> string" where
  "cell_text w s = '' '' @ s @ replicate (w - length s) CHR '' '' @ '' |''"

lemma WriteCell_put: "plain w \<Longrightarrow> WriteCell s k w = put (cell_text k s) w"
    "plain w \<Longrightarrow> WriteHeaderCell s k w = put (cell_text k s) w"
  by (simp_all add: WriteCell_def WriteHeaderCell_def plain_def cell_text_def pad_right_def)

lemma grid_line_cells: "grid_line ws line = ''|'' @ concat (map2 cell_text ws line)"
  unfolding grid_line_def cell_text_def by simp

lemma put_dividers:
  "fold (\<lambda>width. put (pad_left CHR ''-'' (width + 3) ''+'')) ws w = put (concat (map (\<lambda>w. replicate (w + 2) CHR ''-'' @ ''+'') ws)) w"
  by (induction ws arbitrary: w) (simp_all add: writer_simps pad_left_def)

lemma Divider_put: "Divider ws w = put (divider_line ws @ [CHR 0x0A]) w"
  by (simp add: Divider_def put_dividers writer_simps divider_line_def)

lemma short_length: "unat (n :: u32) < VARCHAR_MAX_LEN \<Longrightarrow> n + 1 \<noteq> 0"
  using unat_u32_plus [of n 1] by (auto simp: VARCHAR_MAX_LEN_def PAGE_SIZE_def)

lemma toString_ok: "field_ok f \<Longrightarrow> Field_toString f = Inr (shown f)"
  by (auto simp: field_ok_def Field_toString_def to_string_int_def short_length split: fval.splits)

definition body_line :: "row \<Rightarrow> string list" where
  "body_line r = map shown (row_fields r)"

lemma field_text_ok: "fields_fit sch (row_fields r) \<Longrightarrow> i < length (columns sch) \<Longrightarrow> field_text r i = Inr (body_line r ! i)"
  by (simp add: field_text_def GetField_def fields_fit_def toString_ok body_line_def)

lemma length_body_line [simp]: "fields_fit sch (row_fields r) \<Longrightarrow> length (body_line r) = length (columns sch)"
    "fields_fit sch (row_fields r) \<Longrightarrow> take (length (columns sch)) (body_line r) = body_line r"
  by (simp_all add: body_line_def fields_fit_def)

text \<open>Widening the columns to a line of texts.\<close>

definition widen :: "nat list \<Rightarrow> string list \<Rightarrow> nat list" where
  "widen ws line = map2 (\<lambda>w s. max w (length s)) ws line"

lemma length_widen [simp]: "length (widen ws line) = min (length ws) (length line)"
  by (simp add: widen_def)

lemma row_widths_ok:
  assumes "fields_fit sch (row_fields r)" "length ws = length (columns sch)" "i \<le> length (columns sch)"
  shows "row_widths r i ws = Inr (widen (take i ws) (take i (body_line r)) @ drop i ws)"
  using assms(3)
proof (induction i)
  case (Suc i)
  let ?l = "body_line r"
  have i: "i < length ws" "i < length ?l" using Suc.prems assms(1,2) by simp_all
  then have "drop i ws = ws ! i # drop (Suc i) ws" by (simp add: Cons_nth_drop_Suc)
  then show ?case using Suc i assms field_text_ok [OF assms(1), of i]
    by (simp add: take_Suc_conv_app_nth widen_def nth_append list_update_append)
qed (simp add: widen_def)

lemma rows_widths_ok:
  assumes "\<forall>r \<in> set rows. fields_fit sch (row_fields r)" "length ws = length (columns sch)"
  shows "rows_widths rows (length (columns sch)) ws = Inr (foldl widen ws (map body_line rows))"
  using assms
proof (induction rows arbitrary: ws)
  case (Cons r rows)
  then have r: "fields_fit sch (row_fields r)" by simp
  then have "length (widen ws (body_line r)) = length (columns sch)" using Cons.prems(2) by simp
  then have "rows_widths rows (length (columns sch)) (widen ws (body_line r)) = Inr (foldl widen (widen ws (body_line r)) (map body_line rows))"
    using Cons.prems(1) by (intro Cons.IH) simp_all
  then show ?case using r row_widths_ok [OF r Cons.prems(2), of "length (columns sch)"] Cons.prems(2) by simp
qed simp

lemma header_widths_ok:
  assumes "None \<notin> set cs" "length ws = k + length cs"
  shows "header_widths cs k ws = Inr (take k ws @ widen (drop k ws) (map (\<lambda>c. col_name (the c)) cs))"
  using assms
proof (induction cs arbitrary: k ws)
  case (Cons c cs)
  then obtain d where d: "c = Some d" by (cases c) auto
  have "drop k ws = ws ! k # drop (Suc k) ws" using Cons.prems by (simp add: Cons_nth_drop_Suc)
  then show ?case using Cons d by (simp add: widen_def take_Suc_conv_app_nth)
qed (simp add: widen_def)

lemma nth_widen: "j < length ws \<Longrightarrow> j < length line \<Longrightarrow> widen ws line ! j = max (ws ! j) (length (line ! j))"
  by (simp add: widen_def)

lemma nth_foldl_widen:
  assumes "\<forall>l \<in> set body. length l = length ws" "j < length ws"
  shows "length (foldl widen ws body) = length ws \<and>
    foldl widen ws body ! j = Max (insert (ws ! j) ((\<lambda>l. length (l ! j)) ` set body))"
  using assms
proof (induction body arbitrary: ws)
  case (Cons l body)
  have w: "length (widen ws l) = length ws" "widen ws l ! j = max (ws ! j) (length (l ! j))"
    using Cons.prems by (simp_all add: nth_widen)
  have "Max (insert (max (ws ! j) (length (l ! j))) S) = Max (insert (ws ! j) (insert (length (l ! j)) S))" if "finite S" for S
    using that by (cases "S = {}") (simp_all add: ac_simps)
  then show ?case using Cons.IH [of "widen ws l"] Cons.prems w by simp
qed simp

lemma widths_widen:
  assumes "\<forall>l \<in> set body. length l = length hdr" "body \<noteq> []"
  shows "widen (foldl widen (replicate (length hdr) 0) body) hdr = widths (hdr # body) (length hdr)"
proof (rule nth_equalityI)
  let ?ws = "foldl widen (replicate (length hdr) 0) body"
  have len: "length ?ws = length hdr"
  proof (cases hdr)
    case Nil
    have "foldl widen [] body = []" by (induction body) (simp_all add: widen_def)
    then show ?thesis using Nil by simp
  qed (use nth_foldl_widen [of body "replicate (length hdr) 0" 0] assms(1) in simp)
  then show "length (widen ?ws hdr) = length (widths (hdr # body) (length hdr))" by (simp add: widths_def)
  fix j assume "j < length (widen ?ws hdr)"
  then have j: "j < length hdr" using len by simp
  have "?ws ! j = Max ((\<lambda>l. length (l ! j)) ` set body)"
    using nth_foldl_widen [of body "replicate (length hdr) 0" j] assms j by simp
  then show "widen ?ws hdr ! j = widths (hdr # body) (length hdr) ! j"
    using j len assms(2) by (simp add: nth_widen widths_def max.commute)
qed

lemma write_header_ok:
  assumes "None \<notin> set cs" "length ws = k + length cs" "plain w"
  shows "write_header cs k ws w = Inr (put (concat (map2 cell_text (drop k ws) (map (\<lambda>c. col_name (the c)) cs))) w)"
  using assms
proof (induction cs arbitrary: k w)
  case (Cons c cs)
  then obtain d where d: "c = Some d" by (cases c) auto
  have "drop k ws = ws ! k # drop (Suc k) ws" using Cons.prems by (simp add: Cons_nth_drop_Suc)
  then show ?case using Cons d by (simp add: WriteCell_put writer_simps)
qed (simp add: writer_simps)

lemma write_cells_ok:
  assumes "fields_fit sch (row_fields r)" "length ws = length (columns sch)" "plain w" "i \<le> length (columns sch)"
  shows "write_cells r i ws w = Inr (put (concat (map2 cell_text (take i ws) (take i (body_line r)))) w)"
  using assms(4)
proof (induction i)
  case (Suc i)
  have i: "i < length ws" "i < length (body_line r)" using Suc.prems assms(1,2) by simp_all
  then show ?case using Suc assms field_text_ok [OF assms(1), of i]
    by (simp add: take_Suc_conv_app_nth WriteCell_put writer_simps)
qed (simp add: writer_simps)

lemma write_rows_ok:
  assumes "\<forall>r \<in> set rows. fields_fit sch (row_fields r)" "length ws = length (columns sch)" "plain w"
  shows "write_rows rows (length (columns sch)) ws w = Inr (put (unlines (map (\<lambda>r. grid_line ws (body_line r)) rows)) w)"
  using assms
proof (induction rows arbitrary: w)
  case (Cons r rows)
  then show ?case using write_cells_ok [of sch r ws "BeginRow w" "length (columns sch)"] length_body_line [of sch r]
    by (simp add: BeginRow_def EndRow_def writer_simps grid_line_cells unlines_def)
qed (simp add: writer_simps unlines_def)

lemma fit_columns: "fields_fit sch fs \<Longrightarrow> None \<notin> set (columns sch)"
  by (auto simp: fields_fit_def in_set_conv_nth)

lemma write_table_ok:
  assumes "rows \<noteq> []" "\<forall>r \<in> set rows. fields_fit sch (row_fields r)" "length (columns sch) < 2 ^ 32" "plain w"
  shows "write_table sch rows w = Inr (put (unlines (table_lines (names sch) (map body_line rows))) w)"
proof -
  let ?n = "length (columns sch)" and ?body = "map body_line rows"
  let ?ws = "widths (names sch # ?body) ?n"
  have n: "unat (GetColumnCount sch) = ?n" "length (names sch) = ?n" "None \<notin> set (columns sch)"
    using assms(1-3) fit_columns by (auto simp: GetColumnCount_def names_def neq_Nil_conv)
  have w: "rows_widths rows ?n (replicate ?n 0) = Inr (foldl widen (replicate ?n 0) ?body)"
    using rows_widths_ok [OF assms(2), of "replicate ?n 0"] by simp
  have eq: "widen (foldl widen (replicate ?n 0) ?body) (names sch) = ?ws"
    using widths_widen [of ?body "names sch"] assms(1,2) n(2) by simp
  then have "length (widen (foldl widen (replicate ?n 0) ?body) (names sch)) = ?n" by (simp add: widths_def)
  then have "length (foldl widen (replicate ?n 0) ?body) \<ge> ?n" using n(2) by simp
  moreover have "length (foldl widen vs ls) \<le> length vs" for vs ls
    by (induction ls arbitrary: vs) (simp_all, metis length_widen min.boundedE)
  ultimately have len: "length (foldl widen (replicate ?n 0) ?body) = ?n" by (metis le_antisym length_replicate)
  then have h: "header_widths (columns sch) 0 (foldl widen (replicate ?n 0) ?body) = Inr ?ws"
    using header_widths_ok [OF n(3), of "foldl widen (replicate ?n 0) ?body" 0] eq by (simp add: names_def)
  have lw: "length ?ws = ?n" by (simp add: widths_def)
  show ?thesis using assms(1,4) n w h lw write_header_ok [OF n(3), of ?ws 0] write_rows_ok [OF assms(2) lw]
    by (simp add: write_table_def Let_def Divider_put BeginRow_def EndRow_def writer_simps table_lines_def unlines_def
        grid_line_cells names_def comp_def)
qed

section \<open>Aligned tables\<close>

lemma length_cell_text: "length s \<le> w \<Longrightarrow> length (cell_text w s) = w + 3"
  by (simp add: cell_text_def)

lemma length_grid_line:
  assumes "list_all2 (\<lambda>w s. length s \<le> w) ws line"
  shows "length (grid_line ws line) = length (divider_line ws)"
proof -
  have "length (concat (map2 cell_text ws line)) = length (concat (map (\<lambda>w. replicate (w + 2) CHR ''-'' @ ''+'') ws))"
    using assms by (induction rule: list_all2_induct) (simp_all add: length_cell_text)
  then show ?thesis by (simp add: grid_line_cells divider_line_def)
qed

lemma grid_fits:
  assumes "line \<in> set grid" "length line = n"
  shows "list_all2 (\<lambda>w s. length s \<le> w) (widths grid n) line"
  using assms by (auto simp: list_all2_conv_all_nth widths_def)

lemma table_lines_aligned:
  assumes "\<forall>l \<in> set body. length l = length hdr" "line \<in> set (table_lines hdr body)"
  shows "length line = length (divider_line (widths (hdr # body) (length hdr)))"
  using assms length_grid_line [OF grid_fits [of _ "hdr # body" "length hdr"]]
  by (auto simp: table_lines_def Let_def)

section \<open>Texts that tell the value\<close>

lemma digit_chars: "digit_char 0 = CHR ''0''" "digit_char (Suc 0) = CHR ''1''" "digit_char 1 = CHR ''1''" "digit_char 2 = CHR ''2''"
    "digit_char 3 = CHR ''3''" "digit_char 4 = CHR ''4''" "digit_char 5 = CHR ''5''" "digit_char 6 = CHR ''6''"
    "digit_char 7 = CHR ''7''" "digit_char 8 = CHR ''8''" "digit_char 9 = CHR ''9''"
  by code_simp+

text \<open>Rounding is to nearest: the distance to the exact quotient is at most one half.\<close>

lemma round_scaled_nearest:
  assumes "0 < den" "fst (round_scaled num den e) = q"
  shows "\<bar>2 * (q * (den * 2 ^ nat e) - num * 2 ^ nat (- e))\<bar> \<le> den * 2 ^ nat e"
proof -
  define n d where "n = num * 2 ^ nat (- e)" and "d = den * 2 ^ nat e"
  define k r where "k = n div d" and "r = n mod d"
  have d: "0 < d" using assms(1) by (simp add: d_def)
  then have r: "n = k * d + r" "0 \<le> r" "r < d" by (simp_all add: k_def r_def)
  have "q = (if 2 * r < d then k else if 2 * r > d then k + 1 else k + k mod 2)"
    unfolding n_def d_def k_def r_def assms(2) [symmetric] round_scaled_def Let_def by simp
  moreover have "k mod 2 = 0 \<or> k mod 2 = 1" by presburger
  ultimately consider "q = k" "2 * r \<le> d" | "q = k + 1" "d \<le> 2 * r" by (auto split: if_splits)
  then have "\<bar>2 * (q * d - n)\<bar> \<le> d" using r by cases (simp_all add: algebra_simps)
  then show ?thesis by (simp add: n_def d_def)
qed

lemma chars_text_bytes: "0 \<notin> set bs \<Longrightarrow> map (\<lambda>c. of_char c) (chars_text bs) = map unat bs"
proof (induction bs)
  case (Cons b bs)
  have "unat b < 2 ^ LENGTH(8)" by (rule unsigned_less)
  then show ?case using Cons by (auto simp: chars_text_def char_of_byte_def)
qed (simp add: chars_text_def)

text \<open>The magnitude of a printed float, in millionths, is within half a millionth of the value.\<close>

lemma f32_micros_nearest:
  "\<bar>2 * (f32_micros w * 2 ^ nat (- f32_exponent w) - f32_mantissa w * 10 ^ 6 * 2 ^ nat (f32_exponent w))\<bar> \<le> 2 ^ nat (- f32_exponent w)"
  using round_scaled_nearest [OF _ refl, of 1 "f32_mantissa w * 10 ^ 6" "- f32_exponent w"] by (simp add: f32_micros_def)

section \<open>Properties\<close>

text \<open>
  C5 (roundtrip). The text of a field tells its value. The text of an integer is read back by \<^verbatim>\<open>stoi\<close>, with
  which the planner reads numerals, as the same 32 bits. The text of a finite float is the decimal number with
  six decimals that is nearest to its exact value: the printed number of millionths \<open>q\<close> differs from the
  magnitude \<open>m * 2 ^ e\<close> by at most half a millionth. The text of a character field without zero bytes is its bytes.
\<close>

theorem printed_field_tells_value:
  assumes "field_ok f" and "\<not> field_is_null f" and "Field_toString f = Inr s"
  shows "(case field_value f of
      IntVal i \<Rightarrow> stoi s = Inr i
    | FloatVal x \<Rightarrow> f32_exponent_bits x \<noteq> 255 \<longrightarrow> (\<exists>q m e. s = (if bit x 31 then ''-'' else []) @ fixed_text 6 (nat q) \<and>
        m = f32_mantissa x \<and> e = f32_exponent x \<and>
        \<bar>2 * (q * 2 ^ nat (- e) - m * 10 ^ 6 * 2 ^ nat e)\<bar> \<le> 2 ^ nat (- e))
    | CharsVal bs \<Rightarrow> 0 \<notin> set bs \<longrightarrow> map of_char s = map unat bs
    | NullChars \<Rightarrow> False)"
proof -
  have s: "s = shown f" using assms(1,3) toString_ok by simp
  show ?thesis
  proof (cases "field_value f")
    case (IntVal i)
    have "- (2 ^ 31) \<le> sint i" "sint i < 2 ^ 31" using sint_range_size [of i] by (simp_all add: word_size)
    then show ?thesis using IntVal s assms(2) stoi_int_text [of "sint i"] by simp
  next
    case (FloatVal x)
    then show ?thesis using s assms(2) f32_micros_nearest [of x] by (auto simp: to_string_float_def)
  next
    case (CharsVal bs)
    then show ?thesis using s assms(2) chars_text_bytes [of bs] by auto
  next
    case NullChars
    then show ?thesis using assms(1,2) by (simp add: field_ok_def)
  qed
qed

theorem printed_field_tells_value_witness:
  "stoi (int_text (- 2147483648)) = Inr 0x80000000 \<and> Field_toString (\<lparr>field_value = FloatVal 0xC0200000, field_type = kTypeFloat, field_len = 4,
     field_is_null = False, field_manage = False\<rparr>) = Inr ''-2.500000''"
proof -
  let ?i = "\<lparr>field_value = IntVal 0x80000000, field_type = kTypeInt, field_len = 4, field_is_null = False, field_manage = False\<rparr>"
  have t: "Field_toString ?i = Inr (int_text (- 2147483648))"
    by (simp add: Field_toString_def to_string_int_def)
  have "field_ok ?i" by (simp add: field_ok_def)
  moreover have "to_string_float 0xC0200000 = ''-2.500000''"
    by (simp add: to_string_float_def f32_exponent_bits_def f32_micros_def f32_mantissa_def f32_exponent_def round_scaled_def
        fixed_text_def pad_left_def nat_text.simps digit_chars)
  ultimately show ?thesis using printed_field_tells_value [OF _ _ t] by (simp add: Field_toString_def)
qed

text \<open>
  C37 (equivalence). The table printed for a result set is the reference layout: for rows that fit the
  schema, printing succeeds and writes, line by line, the divider, the column names, the divider, one line
  per row and the divider, each column as wide as the widest of its texts; and all these lines have the same
  length. An empty result set prints no table.
\<close>

theorem result_table_layout:
  assumes "\<forall>r \<in> set rows. fields_fit sch (row_fields r)" and "length (columns sch) < 2 ^ 32"
    and "ls = (if rows = [] then [] else table_lines (names sch) (map body_line rows))"
  shows "write_table sch rows (ResultWriter False ''|'') = Inr ((ResultWriter False ''|'')\<lparr>stream := unlines ls\<rparr>) \<and>
    (rows \<noteq> [] \<longrightarrow> length ls = length rows + 4) \<and> (\<forall>l \<in> set ls. \<forall>l' \<in> set ls. length l = length l')"
proof (cases "rows = []")
  case True
  then show ?thesis using assms(3) by (simp add: write_table_def ResultWriter_def unlines_def)
next
  case False
  have "plain (ResultWriter False ''|'')" by (simp add: plain_def ResultWriter_def)
  from write_table_ok [OF False assms(1,2) this] False
  have "write_table sch rows (ResultWriter False ''|'') = Inr ((ResultWriter False ''|'')\<lparr>stream := unlines ls\<rparr>)"
    using assms(3) by (simp add: put_def ResultWriter_def)
  moreover have "\<forall>l \<in> set (map body_line rows). length l = length (names sch)"
    using assms(1) by (auto simp: names_def)
  then have "\<forall>l \<in> set ls. length l = length (divider_line (widths (names sch # map body_line rows) (length (names sch))))"
    using False assms(3) table_lines_aligned by simp
  moreover have "length ls = length rows + 4" using False assms(3) by (simp add: table_lines_def Let_def)
  ultimately show ?thesis by simp
qed

theorem result_table_layout_witness:
  "query_output (SeqScanPlan example_schema ''t'' None) [example_row, example_row] 12 = Inr (unlines
     [''+----+------+'', ''| id | name |'', ''+----+------+'', ''| 42 | NULL |'', ''| 42 | NULL |'', ''+----+------+'',
      ''2 row in set(0.0120 sec).''])"
proof -
  have fit: "\<forall>r \<in> set [example_row, example_row]. fields_fit example_schema (row_fields r)"
    by (auto simp: fields_fit_def example_schema_def example_row_def field_ok_def Field_null_def less_Suc_eq)
  have n: "length (columns example_schema) < 2 ^ 32" by (simp add: example_schema_def)
  have "body_line example_row = [''42'', ''NULL'']"
    by (simp add: body_line_def example_row_def Field_null_def int_text_def nat_text.simps digit_chars)
  then have "table_lines (names example_schema) (map body_line [example_row, example_row]) =
     [''+----+------+'', ''| id | name |'', ''+----+------+'', ''| 42 | NULL |'', ''| 42 | NULL |'', ''+----+------+'']"
    by (simp add: table_lines_def names_def example_schema_def widths_def divider_line_def grid_line_def Let_def eval_nat_numeral)
  moreover have "seconds_text 12 = ''0.0120''" "nat_text (Suc (Suc 0)) = ''2''"
    by (simp_all add: seconds_text_def fixed_text_def pad_left_def nat_text.simps digit_chars flip: numeral_2_eq_2)
  ultimately show ?thesis using result_table_layout [OF fit n refl]
    by (simp add: query_output_def EndInformation_def put_def ResultWriter_def unlines_def)
qed

end
