(* ===== verification/Engine.thy ===== *)
theory Engine
  imports Result_Output
begin

text \<open>
  Executors, the execution engine and a database instance:
  src/MiniSQL/src/executor/ and common/instance.cpp. Most executors and all commands of the
  engine are placeholders in the repository and are modelled as what they are. A thrown
  \<^verbatim>\<open>std::exception\<close> that a \<^verbatim>\<open>catch\<close> clause handles is told from failures that end the process by
  \<open>caught\<close>. The buffer pool and the disk manager of an instance are the ones inside its catalog manager.
  The text of the messages about caught exceptions is left out.
\<close>

section \<open>Executors\<close>

datatype executor =
    SeqScanExecutor plan
  | IndexScanExecutor plan
  | UpdateExecutor plan executor
  | DeleteExecutor plan executor
  | InsertExecutor plan executor
  | ValuesExecutor "expr list list" nat nat

text \<open>The fields of a values executor are its rows, \<^verbatim>\<open>value_size_\<close> and \<^verbatim>\<open>cursor_\<close>.\<close>

fun executor_Init :: "executor \<Rightarrow> executor" where
  "executor_Init (ValuesExecutor rows n cursor) = ValuesExecutor rows (length rows) cursor"
| "executor_Init x = x"

fun evaluate_all :: "expr list \<Rightarrow> row option \<Rightarrow> field list res" where
  "evaluate_all [] r = Inr []"
| "evaluate_all (e # es) r = res_bind (Evaluate e r) (\<lambda>f. res_bind (evaluate_all es r) (\<lambda>fs. Inr (f # fs)))"

definition ValuesExecutor_Next :: "expr list list \<Rightarrow> nat \<Rightarrow> nat \<Rightarrow> (row option \<times> executor) res" where
  "ValuesExecutor_Next rows n cursor =
     (if cursor < n then
        (if cursor < length rows then
           res_bind (evaluate_all (rows ! cursor) None) (\<lambda>fs.
             Inr (Some (Row_copy (Row fs)), ValuesExecutor rows n (cursor + 1)))
         else Inl OutOfRange)
      else Inr (None, ValuesExecutor rows n cursor))"

fun executor_Next :: "executor \<Rightarrow> (row option \<times> executor) res" where
  "executor_Next (SeqScanExecutor p) = Inr (None, SeqScanExecutor p)"
| "executor_Next (IndexScanExecutor p) = Inr (None, IndexScanExecutor p)"
| "executor_Next (UpdateExecutor p c) = Inr (None, UpdateExecutor p c)"
| "executor_Next (DeleteExecutor p c) = Inr (None, DeleteExecutor p c)"
| "executor_Next (InsertExecutor p c) = Inr (None, InsertExecutor p c)"
| "executor_Next (ValuesExecutor rows n cursor) = ValuesExecutor_Next rows n cursor"

definition GenerateUpdatedTuple :: "row \<Rightarrow> row" where
  "GenerateUpdatedTuple src = Row_empty"

fun CreateExecutor :: "plan \<Rightarrow> executor" where
  "CreateExecutor (SeqScanPlan out t w) = SeqScanExecutor (SeqScanPlan out t w)"
| "CreateExecutor (IndexScanPlan out t idx nf w) = IndexScanExecutor (IndexScanPlan out t idx nf w)"
| "CreateExecutor (UpdatePlan sch child t as) = UpdateExecutor (UpdatePlan sch child t as) (CreateExecutor child)"
| "CreateExecutor (DeletePlan sch child t) = DeleteExecutor (DeletePlan sch child t) (CreateExecutor child)"
| "CreateExecutor (InsertPlan child t) = InsertExecutor (InsertPlan child t) (CreateExecutor child)"
| "CreateExecutor (ValuesPlan rows) = ValuesExecutor rows 0 0"

text \<open>The loop \<^verbatim>\<open>while (executor->Next(&row, &rid)) result_set->push_back(row)\<close>, for any executor.\<close>

partial_function (option) drain :: "('s \<Rightarrow> (row option \<times> 's) res) \<Rightarrow> 's \<Rightarrow> row list \<Rightarrow> row list res option" where
  "drain nxt s result_set = (case nxt s of
     Inl e \<Rightarrow> Some (Inl e)
   | Inr (None, s') \<Rightarrow> Some (Inr result_set)
   | Inr (Some r, s') \<Rightarrow> drain nxt s' (result_set @ [Row_copy r]))"

definition caught :: "err \<Rightarrow> bool" where
  "caught e \<longleftrightarrow> e \<in> {LogicError, OutOfRange, InvalidArgument}"

definition ExecutePlan :: "plan \<Rightarrow> (dberr \<times> row list) res option" where
  "ExecutePlan p = map_option (\<lambda>m. case m of
     Inl e \<Rightarrow> if caught e then Inr (DB_FAILED, []) else Inl e
   | Inr rows \<Rightarrow> Inr (DB_SUCCESS, rows))
     (drain executor_Next (executor_Init (CreateExecutor p)) [])"

section \<open>Database instances\<close>

record db_storage_engine =
  db_catalog :: catalog_manager
  db_file_name :: string
  db_init :: bool

text \<open>The two static pages of a new database; each step ends the constructor when it fails.\<close>

definition expect_new_page :: "page_id \<Rightarrow> bpm \<Rightarrow> bpm res" where
  "expect_new_page p b = res_bind (NewPage b) (\<lambda>(r, b'). case r of
     None \<Rightarrow> Inl LogicError | Some (f, q) \<Rightarrow> if q \<noteq> p then Inl LogicError else Inr b')"

definition expect_page_free :: "bool \<Rightarrow> err \<Rightarrow> page_id \<Rightarrow> bpm \<Rightarrow> bpm res" where
  "expect_page_free want e p b = (case BPM_IsPageFree b p of (free, b') \<Rightarrow> if free = want then Inr b' else Inl e)"

definition DBStorageEngine :: "string \<Rightarrow> bool \<Rightarrow> nat \<Rightarrow> mem \<Rightarrow> nat \<Rightarrow> db_storage_engine res" where
  "DBStorageEngine name init psize file len =
     (let d = (if init then DiskManager_open zero_mem 0 else DiskManager_open file len);
          b = BufferPoolManager psize d
      in res_bind
        (if init then
           res_bind (expect_page_free True LogicError CATALOG_META_PAGE_ID b) (\<lambda>b.
           res_bind (expect_page_free True LogicError INDEX_ROOTS_PAGE_ID b) (\<lambda>b.
           res_bind (expect_new_page CATALOG_META_PAGE_ID b) (\<lambda>b.
           res_bind (expect_new_page INDEX_ROOTS_PAGE_ID b) (\<lambda>b.
           res_bind (expect_page_free False AssertFailed CATALOG_META_PAGE_ID b) (\<lambda>b.
           res_bind (expect_page_free False AssertFailed INDEX_ROOTS_PAGE_ID b) (\<lambda>b.
             Inr (snd (UnpinPage (snd (UnpinPage b CATALOG_META_PAGE_ID False)) INDEX_ROOTS_PAGE_ID False))))))))
         else
           res_bind (expect_page_free False AssertFailed CATALOG_META_PAGE_ID b) (\<lambda>b.
             expect_page_free False AssertFailed INDEX_ROOTS_PAGE_ID b)) (\<lambda>b.
       res_bind (CatalogManager b init) (\<lambda>c.
         Inr \<lparr>db_catalog = c, db_file_name = ''./databases/'' @ name, db_init = init\<rparr>)))"

definition MakeExecuteContext :: "db_storage_engine \<Rightarrow> ctx" where
  "MakeExecuteContext d = Some (db_catalog d)"

section \<open>The execution engine\<close>

record execute_engine =
  dbs :: "(string \<times> db_storage_engine option) list"
  current_db :: string

definition ExecuteEngine :: execute_engine where
  "ExecuteEngine = \<lparr>dbs = [], current_db = []\<rparr>"

definition ExecuteCreateDatabase :: "ast \<Rightarrow> ctx \<Rightarrow> dberr" where
  "ExecuteCreateDatabase n c = DB_FAILED"

definition ExecuteDropDatabase :: "ast \<Rightarrow> ctx \<Rightarrow> dberr" where
  "ExecuteDropDatabase n c = DB_FAILED"

definition ExecuteShowDatabases :: "ast \<Rightarrow> ctx \<Rightarrow> dberr" where
  "ExecuteShowDatabases n c = DB_FAILED"

definition ExecuteUseDatabase :: "ast \<Rightarrow> ctx \<Rightarrow> dberr" where
  "ExecuteUseDatabase n c = DB_FAILED"

definition ExecuteShowTables :: "ast \<Rightarrow> ctx \<Rightarrow> dberr" where
  "ExecuteShowTables n c = DB_FAILED"

definition ExecuteCreateTable :: "ast \<Rightarrow> ctx \<Rightarrow> dberr" where
  "ExecuteCreateTable n c = DB_FAILED"

definition ExecuteDropTable :: "ast \<Rightarrow> ctx \<Rightarrow> dberr" where
  "ExecuteDropTable n c = DB_FAILED"

definition ExecuteShowIndexes :: "ast \<Rightarrow> ctx \<Rightarrow> dberr" where
  "ExecuteShowIndexes n c = DB_FAILED"

definition ExecuteCreateIndex :: "ast \<Rightarrow> ctx \<Rightarrow> dberr" where
  "ExecuteCreateIndex n c = DB_FAILED"

definition ExecuteDropIndex :: "ast \<Rightarrow> ctx \<Rightarrow> dberr" where
  "ExecuteDropIndex n c = DB_FAILED"

definition ExecuteTrxBegin :: "ast \<Rightarrow> ctx \<Rightarrow> dberr" where
  "ExecuteTrxBegin n c = DB_FAILED"

definition ExecuteTrxCommit :: "ast \<Rightarrow> ctx \<Rightarrow> dberr" where
  "ExecuteTrxCommit n c = DB_FAILED"

definition ExecuteTrxRollback :: "ast \<Rightarrow> ctx \<Rightarrow> dberr" where
  "ExecuteTrxRollback n c = DB_FAILED"

definition ExecuteExecfile :: "ast \<Rightarrow> ctx \<Rightarrow> dberr" where
  "ExecuteExecfile n c = DB_FAILED"

definition ExecuteQuit :: "ast \<Rightarrow> ctx \<Rightarrow> dberr" where
  "ExecuteQuit n c = DB_FAILED"

text \<open>The commands, by the type of the root node; \<open>None\<close> for a statement that is planned.\<close>

fun command :: "SyntaxNodeType \<Rightarrow> (ast \<Rightarrow> ctx \<Rightarrow> dberr) option" where
  "command kNodeCreateDB = Some ExecuteCreateDatabase"
| "command kNodeDropDB = Some ExecuteDropDatabase"
| "command kNodeShowDB = Some ExecuteShowDatabases"
| "command kNodeUseDB = Some ExecuteUseDatabase"
| "command kNodeShowTables = Some ExecuteShowTables"
| "command kNodeCreateTable = Some ExecuteCreateTable"
| "command kNodeDropTable = Some ExecuteDropTable"
| "command kNodeShowIndexes = Some ExecuteShowIndexes"
| "command kNodeCreateIndex = Some ExecuteCreateIndex"
| "command kNodeDropIndex = Some ExecuteDropIndex"
| "command kNodeTrxBegin = Some ExecuteTrxBegin"
| "command kNodeTrxCommit = Some ExecuteTrxCommit"
| "command kNodeTrxRollback = Some ExecuteTrxRollback"
| "command kNodeExecFile = Some ExecuteExecfile"
| "command kNodeQuit = Some ExecuteQuit"
| "command _ = None"

text \<open>
  Planning, execution and printing of a query; the status \<^verbatim>\<open>ExecutePlan\<close> returns is dropped. The table is
  written to a stream; the last line, which has the time, does not fail.
\<close>

definition run_query :: "ast \<Rightarrow> ctx \<Rightarrow> (dberr \<times> ctx) res option" where
  "run_query n c = (case PlanQuery n c of
     (Inl e, c') \<Rightarrow> Some (if caught e then Inr (DB_FAILED, c') else Inl e)
   | (Inr p, c') \<Rightarrow> map_option (\<lambda>m. res_bind m (\<lambda>(e, rows).
       res_bind (write_result p rows (ResultWriter False ''|'')) (\<lambda>_. Inr (DB_SUCCESS, c')))) (ExecutePlan p))"

definition store_ctx :: "execute_engine \<Rightarrow> ctx \<Rightarrow> execute_engine" where
  "store_ctx en c = (case (c, map_of (dbs en) (current_db en)) of
     (Some cat, Some (Some d)) \<Rightarrow> en\<lparr>dbs := AList.update (current_db en) (Some (d\<lparr>db_catalog := cat\<rparr>)) (dbs en)\<rparr>
   | _ \<Rightarrow> en)"

definition current_ctx :: "execute_engine \<Rightarrow> ctx res" where
  "current_ctx en = (if current_db en = [] then Inr None
     else case map_of (dbs en) (current_db en) of Some (Some d) \<Rightarrow> Inr (MakeExecuteContext d) | _ \<Rightarrow> Inl NullDeref)"

definition Execute :: "execute_engine \<Rightarrow> ast list \<Rightarrow> (dberr \<times> execute_engine) res option" where
  "Execute en p = (case p of
     [] \<Rightarrow> Some (Inr (DB_FAILED, en))
   | n # ns \<Rightarrow> (case current_ctx en of
       Inl e \<Rightarrow> Some (Inl e)
     | Inr c \<Rightarrow> (case command (ast_type n) of
         Some cmd \<Rightarrow> Some (Inr (cmd n c, en))
       | None \<Rightarrow> map_option (\<lambda>m. res_bind m (\<lambda>(e, c'). Inr (e, store_ctx en c'))) (run_query n c))))"

fun ExecuteInformation :: "dberr \<Rightarrow> string" where
  "ExecuteInformation DB_ALREADY_EXIST = ''Database already exists.''"
| "ExecuteInformation DB_NOT_EXIST = ''Database not exists.''"
| "ExecuteInformation DB_TABLE_ALREADY_EXIST = ''Table already exists.''"
| "ExecuteInformation DB_TABLE_NOT_EXIST = ''Table not exists.''"
| "ExecuteInformation DB_INDEX_ALREADY_EXIST = ''Index already exists.''"
| "ExecuteInformation DB_INDEX_NOT_FOUND = ''Index not exists.''"
| "ExecuteInformation DB_COLUMN_NAME_NOT_EXIST = ''Column not exists.''"
| "ExecuteInformation DB_KEY_NOT_FOUND = ''Key not exists.''"
| "ExecuteInformation DB_QUIT = ''Bye.''"
| "ExecuteInformation _ = []"

section \<open>Row sources\<close>

text \<open>The interface of an executor: a producer of rows that gets closer to its end with each row.\<close>

locale row_source =
  fixes nxt :: "'s \<Rightarrow> (row option \<times> 's) res" and left :: "'s \<Rightarrow> nat"
  assumes next_decreases: "nxt s = Inr (Some r, s') \<Longrightarrow> left s' < left s"
begin

lemma drain_returns: "\<exists>x. drain nxt s acc = Some x"
proof (induction "left s" arbitrary: s acc rule: less_induct)
  case less
  show ?case
  proof (cases "nxt s")
    case (Inl e)
    then show ?thesis by (simp add: drain.simps)
  next
    case (Inr x)
    obtain q s' where x: "x = (q, s')" by (cases x)
    show ?thesis
    proof (cases q)
      case None
      then show ?thesis using Inr x by (simp add: drain.simps)
    next
      case (Some r)
      then have "left s' < left s" using next_decreases Inr x by blast
      from less [OF this] show ?thesis using Inr x Some by (simp add: drain.simps [of nxt s])
    qed
  qed
qed

end

fun rows_left :: "executor \<Rightarrow> nat" where
  "rows_left (ValuesExecutor rows n cursor) = n - cursor"
| "rows_left x = 0"

interpretation executors: row_source executor_Next rows_left
proof
  fix s r s' assume "executor_Next s = Inr (Some r, s')"
  then show "rows_left s' < rows_left s"
    by (cases s) (auto simp: ValuesExecutor_Next_def res_simps split: if_splits)
qed

section \<open>Rows of a values plan\<close>

fun constant_field_of :: "expr \<Rightarrow> field" where
  "constant_field_of (ConstantValue f) = f"
| "constant_field_of e = Field_null (GetReturnType e)"

definition row_of_values :: "expr list \<Rightarrow> row" where
  "row_of_values es = \<lparr>rid = INVALID_ROWID, row_fields = map constant_field_of es\<rparr>"

lemma values_match_fit: "values_match sch es \<Longrightarrow> fields_fit sch (map constant_field_of es)"
  by (fastforce simp: values_match_def fields_fit_def constant_of_def)

definition constants :: "expr list \<Rightarrow> bool" where
  "constants es \<longleftrightarrow> (\<forall>e \<in> set es. \<exists>f. e = ConstantValue f \<and> field_ok f)"

lemma values_match_constants: "values_match sch es \<Longrightarrow> constants es"
  by (fastforce simp: values_match_def constants_def constant_of_def in_set_conv_nth)

lemma evaluate_constants: "constants es \<Longrightarrow> evaluate_all es r = Inr (map constant_field_of es)"
  by (induction es) (auto simp: constants_def Field_copy_ok)

lemma copy_row_of_values:
  assumes "constants es"
  shows "Row (map constant_field_of es) = row_of_values es" "Row_copy (row_of_values es) = row_of_values es"
proof -
  have "map Field_copy (map constant_field_of es) = map constant_field_of es"
    using assms by (induction es) (auto simp: constants_def Field_copy_ok)
  then show "Row (map constant_field_of es) = row_of_values es" "Row_copy (row_of_values es) = row_of_values es"
    by (simp_all add: Row_def Row_copy_def row_of_values_def)
qed

lemma drain_values:
  assumes "\<forall>es \<in> set rows. constants es" "cursor \<le> length rows"
  shows "drain executor_Next (ValuesExecutor rows (length rows) cursor) acc =
    Some (Inr (acc @ map row_of_values (drop cursor rows)))"
  using assms(2)
proof (induction "length rows - cursor" arbitrary: cursor acc)
  case 0
  then show ?case by (simp add: drain.simps ValuesExecutor_Next_def)
next
  case (Suc k)
  then have c: "cursor < length rows" "constants (rows ! cursor)" using assms(1) by auto
  then have "executor_Next (ValuesExecutor rows (length rows) cursor) =
      Inr (Some (row_of_values (rows ! cursor)), ValuesExecutor rows (length rows) (cursor + 1))"
    by (simp add: ValuesExecutor_Next_def evaluate_constants copy_row_of_values)
  moreover have "drop cursor rows = rows ! cursor # drop (cursor + 1) rows"
    using c(1) by (simp add: Cons_nth_drop_Suc)
  ultimately show ?case using Suc c by (simp add: drain.simps [of _ "ValuesExecutor rows (length rows) cursor"] copy_row_of_values)
qed

section \<open>Properties\<close>

text \<open>
  C15 (termination). Executing a plan always returns: for every plan the loop over the executor ends. For
  the rows of a planned \<^verbatim>\<open>insert\<close> (constants that match the table's columns) the values executor
  succeeds and produces exactly one row per list of values, in order, whose fields are those constants and
  fit the table's schema.
\<close>

theorem execute_plan_terminates:
  "(\<forall>p. \<exists>x. ExecutePlan p = Some x) \<and>
   (\<forall>rows sch. (\<forall>es \<in> set rows. values_match sch es) \<longrightarrow>
     ExecutePlan (ValuesPlan rows) = Some (Inr (DB_SUCCESS, map row_of_values rows)) \<and>
     (\<forall>r \<in> set (map row_of_values rows). fields_fit sch (row_fields r)))"
proof (intro conjI allI impI)
  fix p
  show "\<exists>x. ExecutePlan p = Some x"
    using executors.drain_returns [of "executor_Init (CreateExecutor p)" "[]"] by (auto simp: ExecutePlan_def)
next
  fix rows sch assume v: "\<forall>es \<in> set rows. values_match sch es"
  then have "\<forall>es \<in> set rows. constants es" using values_match_constants by blast
  from drain_values [OF this, of 0 "[]"]
  show "ExecutePlan (ValuesPlan rows) = Some (Inr (DB_SUCCESS, map row_of_values rows))"
    by (simp add: ExecutePlan_def)
  show "\<forall>r \<in> set (map row_of_values rows). fields_fit sch (row_fields r)"
    using v values_match_fit by (auto simp: row_of_values_def)
qed

theorem execute_plan_terminates_witness:
  "ExecutePlan (ValuesPlan example_rows) = Some (Inr (DB_SUCCESS, map row_of_values example_rows)) \<and>
   fields_fit example_schema (row_fields (row_of_values (hd example_rows)))"
proof -
  have "\<forall>es \<in> set example_rows. values_match example_schema es"
    by (auto simp: example_rows_def values_match_def example_schema_def constant_of_def field_ok_def Field_null_def nth_Cons
        split: nat.splits)
  then have "ExecutePlan (ValuesPlan example_rows) = Some (Inr (DB_SUCCESS, map row_of_values example_rows)) \<and>
     (\<forall>r \<in> set (map row_of_values example_rows). fields_fit example_schema (row_fields r))"
    using execute_plan_terminates by blast
  then show ?thesis by (auto simp: example_rows_def)
qed

text \<open>The engines the program can reach: constructed, then given trees to execute.\<close>

inductive engine_reachable :: "execute_engine \<Rightarrow> bool" where
  er_new: "engine_reachable ExecuteEngine"
| er_execute: "engine_reachable en \<Longrightarrow> Execute en p = Some (Inr (e, en')) \<Longrightarrow> engine_reachable en'"

lemma command_fails: "command ty = Some cmd \<Longrightarrow> cmd n c = DB_FAILED"
  by (cases ty) (auto simp: ExecuteCreateDatabase_def ExecuteDropDatabase_def ExecuteShowDatabases_def
      ExecuteUseDatabase_def ExecuteShowTables_def ExecuteCreateTable_def ExecuteDropTable_def ExecuteShowIndexes_def
      ExecuteCreateIndex_def ExecuteDropIndex_def ExecuteTrxBegin_def ExecuteTrxCommit_def ExecuteTrxRollback_def
      ExecuteExecfile_def ExecuteQuit_def)

lemma run_query_status: "run_query n c = Some (Inr (e, c')) \<Longrightarrow> e \<in> {DB_SUCCESS, DB_FAILED}"
  by (auto simp: run_query_def res_simps split: prod.splits sum.splits if_splits)

lemma store_ctx_new: "store_ctx ExecuteEngine c = ExecuteEngine"
  by (simp add: store_ctx_def ExecuteEngine_def split: option.splits)

lemma Execute_new:
  "Execute ExecuteEngine p = Some (Inr (e, en')) \<Longrightarrow> en' = ExecuteEngine \<and> e \<in> {DB_SUCCESS, DB_FAILED}"
  using command_fails run_query_status store_ctx_new
  by (fastforce simp: Execute_def current_ctx_def res_simps ExecuteEngine_def
      split: list.splits option.splits sum.splits)

lemma engine_reachable_new: "engine_reachable en \<Longrightarrow> en = ExecuteEngine"
  by (induction rule: engine_reachable.induct) (auto dest: Execute_new)

lemma bind_table_null: "ast_val t \<noteq> None \<Longrightarrow> bind_table t None = (Inl NullDeref, None)"
  by (auto simp: cbind_def bind_table_def text_of_def cret_def lookup_table_def)

lemma cbind_null: "m None = (Inl e, c) \<Longrightarrow> cbind m f None = (Inl e, c)"
  by (simp add: cbind_def)

lemma plan_without_database: "query_shape n \<Longrightarrow> PlanQuery n None = (Inl NullDeref, None)"
  by (auto simp: query_shape_def PlanQuery_def table_shape_def intro!: cbind_null bind_table_null
      split: SyntaxNodeType.splits list.splits)

lemma Execute_command:
  assumes "p = [] \<or> command (ast_type (hd p)) \<noteq> None"
  shows "Execute ExecuteEngine p = Some (Inr (DB_FAILED, ExecuteEngine))"
  using assms command_fails by (auto simp: Execute_def current_ctx_def ExecuteEngine_def split: list.splits)

lemma Execute_query:
  assumes "query_shape n"
  shows "Execute ExecuteEngine (n # ns) = Some (Inl NullDeref)"
proof -
  have "command (ast_type n) = None" using assms by (auto simp: query_shape_def split: SyntaxNodeType.splits)
  then show ?thesis using plan_without_database [OF assms]
    by (simp add: Execute_def run_query_def caught_def current_ctx_def ExecuteEngine_def)
qed

text \<open>
  C36 (error). The engine never gets a database: no sequence of statements changes it, so there is never
  a current database. Every command of the data definition language, \<^verbatim>\<open>execfile\<close>, the transaction commands
  and even \<^verbatim>\<open>quit\<close> return \<^verbatim>\<open>DB_FAILED\<close>; every \<^verbatim>\<open>select\<close>, \<^verbatim>\<open>insert\<close>, \<^verbatim>\<open>update\<close> or \<^verbatim>\<open>delete\<close>
  follows the null context pointer; and no statement at all returns \<^verbatim>\<open>DB_QUIT\<close>.
\<close>

theorem engine_serves_nothing:
  assumes "engine_reachable en"
  shows "(\<forall>p. p = [] \<or> command (ast_type (hd p)) \<noteq> None \<longrightarrow> Execute en p = Some (Inr (DB_FAILED, en))) \<and>
    (\<forall>n ns. query_shape n \<longrightarrow> Execute en (n # ns) = Some (Inl NullDeref)) \<and>
    (\<forall>p e en'. Execute en p = Some (Inr (e, en')) \<longrightarrow> e \<noteq> DB_QUIT \<and> en' = en)"
  using engine_reachable_new [OF assms] Execute_command Execute_query Execute_new by fastforce

theorem engine_serves_nothing_witness:
  "engine_reachable ExecuteEngine \<and> Execute ExecuteEngine [Node kNodeQuit None []] = Some (Inr (DB_FAILED, ExecuteEngine)) \<and>
   Execute ExecuteEngine [example_insert] = Some (Inl NullDeref)"
proof -
  have r: "engine_reachable ExecuteEngine" by (rule er_new)
  have q: "query_shape example_insert" by (simp add: query_shape_def table_shape_def example_insert_def)
  show ?thesis using engine_serves_nothing [OF r] r q by simp
qed

end
