(* ===== verification/Statement_Shapes.thy ===== *)
theory Statement_Shapes
  imports Yyparse_Correct Engine
begin

text \<open>
  The trees that the grammar's actions build, symbol by symbol: every statement is either a command of the
  execution engine or has the shape that the planner relies on (\<open>query_shape\<close>). With the parser's
  correctness this is the contract between the parser and the engine.
\<close>

section \<open>Sorts of trees\<close>

text \<open>What the trees of each symbol look like.\<close>

definition sort_ok :: "int \<Rightarrow> ast list \<Rightarrow> bool" where
  "sort_ok x ts \<longleftrightarrow> (if x = 40 then \<exists>v. ts = [Node kNodeIdentifier (Some v) []]
     else if x = 41 then \<exists>v. ts = [Node kNodeString (Some v) []]
     else if x = 42 then \<exists>v. ts = [Node kNodeNumber (Some v) []]
     else if x = 55 \<or> x = 56 then \<exists>t. ts = [t] \<and> (command (ast_type t) \<noteq> None \<or> query_shape t)
     else if x \<in> {71, 78, 80, 81} then \<exists>t. ts = [t] \<and> query_shape t
     else if x = 72 then \<exists>t. ts = [t] \<and> ast_type t \<in> {kNodeAllColumns, kNodeColumnList}
     else if x = 73 \<or> x = 75 then \<exists>t. ts = [t] \<and> operators_ok t
     else if x = 74 then \<exists>v. ts = [Node kNodeConnector v []]
     else if x = 76 then \<exists>ty v. ts = [Node ty v []] \<and> ty \<in> {kNodeString, kNodeNumber, kNodeNull}
     else if x = 77 then \<exists>v \<in> set comparison_types. ts = [Node kNodeCompareOperator (Some v) []]
     else if x \<in> {57, 58, 59, 60, 61, 62, 67, 68, 69, 70, 84, 85, 86, 87, 88} then \<exists>t. ts = [t] \<and> command (ast_type t) \<noteq> None
     else True)"

definition sort_fits :: "int \<Rightarrow> ast list option \<Rightarrow> bool" where
  "sort_fits x v \<longleftrightarrow> (\<forall>ts. v = Some ts \<longrightarrow> sort_ok x ts)"

lemma query_shapes:
  "query_shape (Node kNodeSelect v (l # t # w)) \<longleftrightarrow> ast_type l \<in> {kNodeAllColumns, kNodeColumnList} \<and> table_shape t \<and> where_shape w"
  "query_shape (Node kNodeInsert v [t, u]) \<longleftrightarrow> table_shape t \<and> ast_type u = kNodeColumnValues"
  "query_shape (Node kNodeDelete v (t # w)) \<longleftrightarrow> table_shape t \<and> where_shape w"
  "query_shape (Node kNodeUpdate v (t # u # w)) \<longleftrightarrow> table_shape t \<and> ast_type u = kNodeUpdateValues \<and> where_shape w"
  by (simp_all add: query_shape_def)

lemmas sort_simps = sort_fits_def sort_ok_def query_shapes table_shape_def comparison_types_def

definition arg_regs :: "ast list option list \<Rightarrow> reg \<Rightarrow> ast list option" where
  "arg_regs vs r = (case r of Arg i \<Rightarrow> if 1 \<le> i \<and> i \<le> length vs then vs ! (i - 1) else None | _ \<Rightarrow> None)"

lemma arg_values_regs: "length vs = yyr2 ! n \<Longrightarrow> arg_values None n (rev vs) = arg_regs vs"
  by (simp add: arg_values_def arg_regs_def fun_eq_iff split: reg.split)

text \<open>The actions of each group of rules keep to the sorts of their symbols.\<close>

lemma ddl_rules:
  "rhs_at 22 = [3, 17, 40]" "r1_at 22 = 57" "rhs_at 23 = [4, 17, 40]" "r1_at 23 = 58" "rhs_at 24 = [14, 18]" "r1_at 24 = 59"
  "rhs_at 25 = [15, 40]" "r1_at 25 = 60" "rhs_at 26 = [14, 20]" "r1_at 26 = 61" "rhs_at 27 = [3, 19, 40, 48, 64, 49]" "r1_at 27 = 62"
  "rhs_at 28 = [40, 50, 63]" "r1_at 28 = 63" "rhs_at 29 = [40]" "r1_at 29 = 63" "rhs_at 30 = [65, 50, 64]" "r1_at 30 = 64"
  "rhs_at 31 = [65]" "r1_at 31 = 64" "rhs_at 32 = [29, 30, 48, 63, 49]" "r1_at 32 = 64" "rhs_at 33 = [40, 66, 31]" "r1_at 33 = 65"
  "rhs_at 34 = [40, 66]" "r1_at 34 = 65" "rhs_at 35 = [33]" "r1_at 35 = 66" "rhs_at 36 = [34]" "r1_at 36 = 66"
  "rhs_at 37 = [32, 48, 42, 49]" "r1_at 37 = 66" "rhs_at 38 = [4, 19, 40]" "r1_at 38 = 67"
  "rhs_at 39 = [3, 21, 40, 23, 40, 48, 63, 49]" "r1_at 39 = 68" "rhs_at 40 = [3, 21, 40, 23, 40, 48, 63, 49, 16, 40]" "r1_at 40 = 68"
  "rhs_at 41 = [4, 21, 40]" "r1_at 41 = 69" "rhs_at 42 = [14, 22]" "r1_at 42 = 70"
  by code_simp+

lemma ddl_sorts:
  assumes "(n, cs) \<in> set ddl_actions" "list_all2 sort_fits (rhs_at (int n)) vs"
    "spec_code cs (arg_regs vs) = Some F" "F Res = Some ts"
  shows "sort_ok (r1_at (int n)) ts"
  using assms unfolding ddl_actions_def set_simps insert_iff
  by (elim disjE; simp only: prod.inject)
    (auto simp: ddl_rules list_all2_Cons1 arg_regs_def node_value_def sort_simps split: option.splits list.splits ast.splits)

lemma query_rules:
  "rhs_at 43 = [5, 72, 24, 40]" "r1_at 43 = 71" "rhs_at 44 = [5, 72, 24, 40, 25, 73]" "r1_at 44 = 71" "rhs_at 45 = [51]" "r1_at 45 = 72"
  "rhs_at 46 = [63]" "r1_at 46 = 72" "rhs_at 47 = [73, 74, 75]" "r1_at 47 = 73" "rhs_at 48 = [75]" "r1_at 48 = 73"
  "rhs_at 49 = [35]" "r1_at 49 = 74" "rhs_at 50 = [36]" "r1_at 50 = 74" "rhs_at 51 = [40, 77, 76]" "r1_at 51 = 75"
  "rhs_at 52 = [41]" "r1_at 52 = 76" "rhs_at 53 = [42]" "r1_at 53 = 76" "rhs_at 54 = [39]" "r1_at 54 = 76"
  "rhs_at 55 = [43]" "r1_at 55 = 77" "rhs_at 56 = [44]" "r1_at 56 = 77" "rhs_at 57 = [45]" "r1_at 57 = 77"
  "rhs_at 58 = [46]" "r1_at 58 = 77" "rhs_at 59 = [52]" "r1_at 59 = 77" "rhs_at 60 = [53]" "r1_at 60 = 77"
  "rhs_at 61 = [38]" "r1_at 61 = 77" "rhs_at 62 = [37]" "r1_at 62 = 77"
  by code_simp+

lemma query_sorts:
  assumes "(n, cs) \<in> set query_actions" "list_all2 sort_fits (rhs_at (int n)) vs"
    "spec_code cs (arg_regs vs) = Some F" "F Res = Some ts"
  shows "sort_ok (r1_at (int n)) ts"
  using assms unfolding query_actions_def set_simps insert_iff
  by (elim disjE; simp only: prod.inject)
    (auto simp: query_rules list_all2_Cons1 arg_regs_def node_value_def sort_simps split: option.splits list.splits ast.splits)

lemma dml_rules:
  "rhs_at 63 = [6, 26, 40, 28, 48, 79, 49]" "r1_at 63 = 78" "rhs_at 64 = [76, 50, 79]" "r1_at 64 = 79" "rhs_at 65 = [76]" "r1_at 65 = 79"
  "rhs_at 66 = [7, 24, 40]" "r1_at 66 = 80" "rhs_at 67 = [7, 24, 40, 25, 73]" "r1_at 67 = 80"
  "rhs_at 68 = [8, 40, 27, 82]" "r1_at 68 = 81" "rhs_at 69 = [8, 40, 27, 82, 25, 73]" "r1_at 69 = 81"
  "rhs_at 70 = [83, 50, 82]" "r1_at 70 = 82" "rhs_at 71 = [83]" "r1_at 71 = 82" "rhs_at 72 = [40, 43, 76]" "r1_at 72 = 83"
  "rhs_at 73 = [9]" "r1_at 73 = 84" "rhs_at 74 = [10]" "r1_at 74 = 85" "rhs_at 75 = [11]" "r1_at 75 = 86"
  "rhs_at 76 = [12]" "r1_at 76 = 87" "rhs_at 77 = [13, 41]" "r1_at 77 = 88"
  by code_simp+

lemma dml_sorts:
  assumes "(n, cs) \<in> set dml_actions" "list_all2 sort_fits (rhs_at (int n)) vs"
    "spec_code cs (arg_regs vs) = Some F" "F Res = Some ts"
  shows "sort_ok (r1_at (int n)) ts"
  using assms unfolding dml_actions_def set_simps insert_iff
  by (elim disjE; simp only: prod.inject)
    (auto simp: dml_rules list_all2_Cons1 arg_regs_def node_value_def sort_simps split: option.splits list.splits ast.splits)

lemma sql_rules:
  "rhs_at 2 = [56, 47]" "r1_at 2 = 55" "rhs_at 3 = [57]" "r1_at 3 = 56" "rhs_at 4 = [58]" "r1_at 4 = 56" "rhs_at 5 = [59]" "r1_at 5 = 56"
  "rhs_at 6 = [60]" "r1_at 6 = 56" "rhs_at 7 = [61]" "r1_at 7 = 56" "rhs_at 8 = [62]" "r1_at 8 = 56" "rhs_at 9 = [67]" "r1_at 9 = 56"
  "rhs_at 10 = [68]" "r1_at 10 = 56" "rhs_at 11 = [69]" "r1_at 11 = 56" "rhs_at 12 = [70]" "r1_at 12 = 56"
  "rhs_at 13 = [71]" "r1_at 13 = 56" "rhs_at 14 = [78]" "r1_at 14 = 56" "rhs_at 15 = [80]" "r1_at 15 = 56"
  "rhs_at 16 = [81]" "r1_at 16 = 56" "rhs_at 17 = [84]" "r1_at 17 = 56" "rhs_at 18 = [85]" "r1_at 18 = 56"
  "rhs_at 19 = [86]" "r1_at 19 = 56" "rhs_at 20 = [87]" "r1_at 20 = 56" "rhs_at 21 = [88]" "r1_at 21 = 56"
  by code_simp+

lemma sql_sorts:
  assumes "(n, cs) \<in> set sql_actions" "list_all2 sort_fits (rhs_at (int n)) vs"
    "spec_code cs (arg_regs vs) = Some F" "F Res = Some ts"
  shows "sort_ok (r1_at (int n)) ts"
proof -
  have n: "n \<in> set [2..<22]" and "cs = (if n = 2 then [Copy Res (Arg 1), SetRoot Res] else [Copy Res (Arg 1)])"
    using assms(1) by (auto simp: sql_actions_def)
  moreover have u: "[2..<22] = [2, 3, 4, 5, 6, 7, 8, 9, 10, 11, 12, 13, 14, 15, 16, 17, 18, 19, 20, 21 :: nat]" by code_simp
  ultimately show ?thesis using assms(2-4) n unfolding u set_simps insert_iff
    by (elim disjE) (auto simp: sql_rules list_all2_Cons1 arg_regs_def sort_simps split: option.splits)
qed

lemma action_sorts:
  assumes "1 < n" "n \<le> 77" "list_all2 sort_fits (rhs_at n) vs" "spec_reduce (nat n) (rev vs) = Some (v # us)"
  shows "sort_fits (r1_at n) v"
proof -
  have k: "length vs = yyr2 ! nat n" using value_rule [OF assms(1,2)] list_all2_lengthD [OF assms(3)] by (simp add: value_rule_def)
  from assms(4) obtain F ts where F: "spec_code (action (nat n)) (arg_regs vs) = Some F" "F Res = Some ts" "v = Some ts"
    by (auto simp: spec_reduce_def arg_values_regs [OF k] bind_eq_Some_conv split: if_splits option.splits)
  have "action (nat n) \<noteq> []" using F assms(1) by (auto simp: arg_regs_def)
  then obtain cs where "map_of (sql_actions @ ddl_actions @ query_actions @ dml_actions) (nat n) = Some cs" "action (nat n) = cs"
    by (auto simp: action_def split: option.splits)
  then have "(nat n, action (nat n)) \<in> set (sql_actions @ ddl_actions @ query_actions @ dml_actions)" by (auto dest: map_of_SomeD)
  then have "sort_ok (r1_at (int (nat n))) ts"
    using sql_sorts [of "nat n"] ddl_sorts [of "nat n"] query_sorts [of "nat n"] dml_sorts [of "nat n"] assms(1,3) F by auto
  then show ?thesis using F(3) assms(1) by (simp add: sort_fits_def)
qed

section \<open>Tokens\<close>

definition token_sort :: "int \<times> token \<Rightarrow> bool" where
  "token_sort l \<longleftrightarrow> sort_fits (fst l) (token_value (snd l))"

definition sort_symbol :: "int \<Rightarrow> bool" where
  "sort_symbol k \<longleftrightarrow> (let x = tab yytranslate (token_number k) in
     (x = 40 \<longleftrightarrow> k = 39) \<and> (x = 41 \<longleftrightarrow> k = 1) \<and> (x = 42 \<longleftrightarrow> k = 40 \<or> k = 41) \<and> x < 54)"

lemma sort_symbols: "\<forall>k \<in> set [1..53]. sort_symbol k"
  by code_simp

lemma token_sorts: "\<forall>l \<in> set ls. lexeme_ok l \<Longrightarrow> \<forall>l \<in> set (tokens_of ls). token_sort l"
proof (induction ls rule: tokens_of.induct)
  case (2 k t ls)
  have "token_sort (tab yytranslate (token_number k), w)" if w: "lexeme_of k t = Token w" for w
  proof -
    have ok: "lexeme_ok (k, t)" using 2 by simp
    then have "1 \<le> k" "k \<le> 53" using w lexeme_token [OF ok] by (auto simp: lexeme_ok_def)
    then have "sort_symbol k" using uptoD [OF sort_symbols] by simp
    then show ?thesis using w ok
      by (auto simp: token_sort_def sort_symbol_def Let_def lexeme_of_def token_value_def node_value_def sort_fits_def sort_ok_def
          lexeme_ok_def split: if_splits option.splits sum.splits)
  qed
  then show ?case using 2 by (auto split: lexeme.splits)
qed simp

lemma tree_val_sorts:
  "parse_tree d \<Longrightarrow> \<forall>l \<in> set (fringe d). leaf_ok l \<and> token_sort l \<Longrightarrow> sort_fits (root d) (tree_val d)"
proof (induction d)
  case (Leaf x a)
  then show ?case by (simp add: token_sort_def)
next
  case (Rule n ds)
  then have n: "1 < n" "n \<le> 77" "map root ds = rhs_at n" "rule_lhs n = r1_at n" by (auto simp: YYNRULES_def rule_rhs_at rule_lhs_at)
  have "sort_fits (root d) (tree_val d)" if "d \<in> set ds" for d using Rule that by auto
  then have v: "list_all2 sort_fits (rhs_at n) (map tree_val ds)"
    unfolding n(3) [symmetric] by (simp add: list_all2_conv_all_nth)
  from spec_reduce_trees [of n ds "[]"] Rule.prems
  have "spec_reduce (nat n) (rev (map tree_val ds)) = Some [tree_val (Rule n ds)]" by simp
  from action_sorts [OF n(1,2) v this] show ?case using n(4) by (simp only: root.simps)
qed

text \<open>The tree of a sentence is a single node, a command of the engine or a query the planner can read.\<close>

lemma statement_shape:
  assumes "parses (tokens_of (scan s)) d"
  shows "\<exists>t. tree_val d = Some [t] \<and> (command (ast_type t) \<noteq> None \<or> query_shape t)"
proof -
  have d: "parse_tree d" "root d = 55" "fringe d = tokens_of (scan s)" using assms by (auto simp: parses_def start_symbol_def)
  have l: "\<forall>l \<in> set (fringe d). leaf_ok l \<and> token_sort l" using d(3) tokens_of_scan(2) token_sorts [of "scan s"] scan_lexemes by auto
  have "fits 55 (tree_val d)" using tree_val_fits [OF d(1)] l d(2) by simp
  then obtain t ts where "tree_val d = Some (t # ts)" by (auto simp: fits_def valued_def)
  then show ?thesis using tree_val_sorts [OF d(1) l] d(2) by (auto simp: sort_fits_def sort_ok_def)
qed

text \<open>
  C25 (type). The trees of the parser fit the engine: a sentence has exactly one tree, whose root is either a
  command of the engine or one of the four queries in the shape the planner expects, down to the operators
  of its conditions.
\<close>

theorem statements_fit_engine:
  assumes "parses (tokens_of (scan s)) d"
  shows "\<exists>t. tree_val d = Some [t] \<and> (command (ast_type t) \<noteq> None \<or> query_shape t) \<and>
    (\<forall>d'. parses (tokens_of (scan s)) d' \<longrightarrow> d' = d)"
  using statement_shape [OF assms] parse_tree_unique [OF _ assms] by blast

definition example_delete :: "token dtree" where
  "example_delete = Rule 2 [Rule 15 [Rule 66 [Leaf 7 (TPlain ''delete''), Leaf 24 (TPlain ''from''), Leaf 40 (TIdentifier ''t'')]],
     Leaf 47 (TPlain '';'')]"

theorem statements_fit_engine_witness:
  "parses (tokens_of (scan ''delete from t;'')) example_delete \<and>
   (\<exists>t. tree_val example_delete = Some [t] \<and> (command (ast_type t) \<noteq> None \<or> query_shape t))"
proof -
  have "parses (tokens_of (scan ''delete from t;'')) example_delete" by code_simp
  from this statements_fit_engine [OF this] show ?thesis by blast
qed

end
