(* ===== verification/Tree_Drawing.thy ===== *)
theory Tree_Drawing
  imports Syntax_Tree Numerals
begin

text \<open>
  The drawing of the syntax tree: \<^verbatim>\<open>SyntaxTreePrinter\<close> (src/MiniSQL/src/parser/syntax_tree_printer.cpp) writes
  the tree in the language of Graphviz to a file that \<^verbatim>\<open>TreeFileManagers\<close> (include/utils/tree_file_mgr.h)
  opens. The printer returns the text it writes; it recurses along the pointers and may run forever on a
  cyclic structure. The files are a map from names to contents; the operating system failing to create a
  file is left out.
\<close>

section \<open>The printer\<close>

definition node_name :: "SyntaxNode \<Rightarrow> string" where
  "node_name n = ''SYNTAX_NODE_'' @ int_text (n_id n)"

definition node_line :: "SyntaxNode \<Rightarrow> string" where
  "node_line n = node_name n @ ''[label='' @ [CHR 0x22] @ GetSyntaxNodeTypeStr (n_type n) @ ''('' @ int_text (n_line n) @ '','' @ int_text (n_col n) @ '')'' @
     [CHR 0x5C] @ ''n'' @ ''id('' @ int_text (n_id n) @ '')'' @
     (case n_val n of None \<Rightarrow> [] | Some v \<Rightarrow> '',val('' @ v @ '')'') @ [CHR 0x22] @ ''];'' @ [CHR 0x0A]"

definition edge_line :: "SyntaxNode \<Rightarrow> SyntaxNode \<Rightarrow> string" where
  "edge_line n m = node_name n @ ''  ->  '' @ node_name m @ '';'' @ [CHR 0x0A]"

definition rank_line :: "SyntaxNode \<Rightarrow> SyntaxNode \<Rightarrow> string" where
  "rank_line n m = ''{rank=same; '' @ node_name n @ '','' @ node_name m @ ''};'' @ [CHR 0x0A]"

partial_function (option) PrintTreeLow :: "node_store \<Rightarrow> nat \<Rightarrow> string res option" where
  "PrintTreeLow h a = ro_bind (Some (deref h a)) (\<lambda>n.
     ro_bind (case n_child n of None \<Rightarrow> Some (Inr [])
       | Some c \<Rightarrow> ro_bind (PrintTreeLow h c) (\<lambda>t. ro_bind (Some (deref h c)) (\<lambda>m. Some (Inr (t @ edge_line n m))))) (\<lambda>tc.
     ro_bind (case n_next n of None \<Rightarrow> Some (Inr [])
       | Some b \<Rightarrow> ro_bind (PrintTreeLow h b) (\<lambda>t. ro_bind (Some (deref h b)) (\<lambda>m. Some (Inr (t @ edge_line n m @ rank_line n m))))) (\<lambda>tn.
       Some (Inr (node_line n @ tc @ tn)))))"

definition PrintTree :: "node_store \<Rightarrow> node_ptr \<Rightarrow> string res option" where
  "PrintTree h root = (case root of
     None \<Rightarrow> Some (Inr (''digraph G{ }'' @ [CHR 0x0A]))
   | Some a \<Rightarrow> ro_bind (PrintTreeLow h a) (\<lambda>t. Some (Inr (''digraph G{ '' @ [CHR 0x0A] @ t @ ''}'' @ [CHR 0x0A]))))"

section \<open>The files\<close>

text \<open>\<open>outs\<close> gives for an id the name of the file its stream writes, and whether the stream is open.\<close>

record tree_file_mgr =
  name_prefix :: string
  outs :: "int \<rightharpoonup> string \<times> bool"
  files :: "string \<rightharpoonup> string"

definition TreeFileManagers :: "string \<Rightarrow> (string \<rightharpoonup> string) \<Rightarrow> tree_file_mgr" where
  "TreeFileManagers prefix fs = \<lparr>name_prefix = prefix, outs = Map.empty, files = fs\<rparr>"

text \<open>The file is removed if it exists, so that it has to be created.\<close>

definition open_file :: "string \<Rightarrow> tree_file_mgr \<Rightarrow> tree_file_mgr" where
  "open_file name m = m\<lparr>files := (files m)(name \<mapsto> [])\<rparr>"

definition is_blank :: "char \<Rightarrow> bool" where
  "is_blank c \<longleftrightarrow> c \<in> set [CHR 0x20, CHR 0x09, CHR 0x0A, CHR 0x0B, CHR 0x0C, CHR 0x0D]"

text \<open>\<^verbatim>\<open>ss >> filename\<close> reads one word.\<close>

definition read_word :: "string \<Rightarrow> string" where
  "read_word s = takeWhile (\<lambda>c. \<not> is_blank c) (dropWhile is_blank s)"

definition stream_name :: "string \<Rightarrow> int \<Rightarrow> string" where
  "stream_name prefix sid = read_word (prefix @ int_text sid @ ''.txt'')"

definition new_out_stream :: "int \<Rightarrow> tree_file_mgr \<Rightarrow> tree_file_mgr" where
  "new_out_stream sid m = (if outs m sid = None
     then (let filename = stream_name (name_prefix m) sid; m1 = open_file filename m in m1\<lparr>outs := (outs m1)(sid \<mapsto> (filename, True))\<rparr>)
     else m)"

definition get_stream :: "int \<Rightarrow> tree_file_mgr \<Rightarrow> tree_file_mgr" where
  "get_stream sid m = (if outs m sid = None then new_out_stream sid m else m)"

text \<open>Writing to the stream of an id; a closed stream takes nothing.\<close>

definition write_stream :: "int \<Rightarrow> string \<Rightarrow> tree_file_mgr \<Rightarrow> tree_file_mgr" where
  "write_stream sid txt m = (case outs m sid of
     Some (name, True) \<Rightarrow> m\<lparr>files := (files m)(name := map_option (\<lambda>t. t @ txt) (files m name))\<rparr>
   | _ \<Rightarrow> m)"

definition close_file :: "int \<Rightarrow> tree_file_mgr \<Rightarrow> tree_file_mgr" where
  "close_file sid m = (case outs m sid of None \<Rightarrow> m | Some (name, opn) \<Rightarrow> m\<lparr>outs := (outs m)(sid \<mapsto> (name, False))\<rparr>)"

text \<open>The destructor closes the stream of every id, in increasing order of the ids.\<close>

definition TreeFileManagers_destroy :: "int list \<Rightarrow> tree_file_mgr \<Rightarrow> tree_file_mgr" where
  "TreeFileManagers_destroy ids m = fold close_file ids m"

section \<open>What the drawing says\<close>

text \<open>
  The statements of a drawing: a node with its label, and edges to the first child and the next sibling. Their
  texts in the language of Graphviz, where a quoted label shows the node's type, position, number and value, an
  arrow goes from the first name to the second, and the nodes of one rank are listed in braces.
\<close>

datatype drawn = Vertex SyntaxNode | Child SyntaxNode SyntaxNode | Sibling SyntaxNode SyntaxNode

fun drawn_text :: "drawn \<Rightarrow> string" where
  "drawn_text (Vertex n) = concat [''SYNTAX_NODE_'', int_text (n_id n), ''[label='', [CHR 0x22],
     GetSyntaxNodeTypeStr (n_type n), ''('', int_text (n_line n), '','', int_text (n_col n), '')'', [CHR 0x5C, CHR ''n''],
     ''id('', int_text (n_id n), '')'', if n_val n = None then [] else concat ['',val('', the (n_val n), '')''], [CHR 0x22], ''];'', [CHR 0x0A]]"
| "drawn_text (Child n m) =
     concat [''SYNTAX_NODE_'', int_text (n_id n), ''  ->  SYNTAX_NODE_'', int_text (n_id m), '';'', [CHR 0x0A]]"
| "drawn_text (Sibling n m) =
     concat [''SYNTAX_NODE_'', int_text (n_id n), ''  ->  SYNTAX_NODE_'', int_text (n_id m), '';'', [CHR 0x0A],
       ''{rank=same; SYNTAX_NODE_'', int_text (n_id n), '',SYNTAX_NODE_'', int_text (n_id m), ''};'', [CHR 0x0A]]"

lemma lines_drawn:
  "node_line n = drawn_text (Vertex n)" "edge_line n m = drawn_text (Child n m)"
  "edge_line n m @ rank_line n m = drawn_text (Sibling n m)"
  by (simp_all add: node_line_def edge_line_def rank_line_def node_name_def split: option.splits)

fun vertices :: "drawn list \<Rightarrow> SyntaxNode list" where
  "vertices [] = []"
| "vertices (Vertex n # ss) = n # vertices ss"
| "vertices (_ # ss) = vertices ss"

fun edges :: "drawn list \<Rightarrow> drawn list" where
  "edges [] = []"
| "edges (Vertex n # ss) = edges ss"
| "edges (e # ss) = e # edges ss"

lemma vertices_append [simp]: "vertices (ss @ ts) = vertices ss @ vertices ts"
  by (induction ss rule: vertices.induct) simp_all

lemma edges_append [simp]: "edges (ss @ ts) = edges ss @ edges ts"
  by (induction ss rule: edges.induct) simp_all

text \<open>The edges a tree in the store has.\<close>

definition edges_at :: "node_store \<Rightarrow> SyntaxNode \<Rightarrow> drawn set" where
  "edges_at h n = {Child n m | b m. n_child n = Some b \<and> h b = Some m} \<union> {Sibling n m | b m. n_next n = Some b \<and> h b = Some m}"

definition node_edges :: "node_store \<Rightarrow> nat set \<Rightarrow> drawn set" where
  "node_edges h A = (\<Union>a \<in> A. edges_at h (the (h a)))"

text \<open>\<open>draws h A ss\<close>: each node at an address of \<open>A\<close> once, and exactly the edges of these nodes.\<close>

definition draws :: "node_store \<Rightarrow> nat set \<Rightarrow> drawn list \<Rightarrow> bool" where
  "draws h A ss \<longleftrightarrow> (\<exists>as. distinct as \<and> set as = A \<and> vertices ss = map (\<lambda>a. the (h a)) as) \<and>
     set (edges ss) = node_edges h A \<and> length (edges ss) + 1 = card A"

lemma node_edges_simps: "node_edges h {} = {}" "node_edges h (insert a A) = edges_at h (the (h a)) \<union> node_edges h A"
    "node_edges h (A \<union> B) = node_edges h A \<union> node_edges h B"
  by (auto simp: node_edges_def)

lemma forest_finite: "forest h p ts A \<Longrightarrow> finite A"
  by (induction rule: forest.induct) simp_all

text \<open>The part of the drawing for one pointer: nothing for the null pointer, else the tree and the edge to it.\<close>

definition part_ok :: "node_store \<Rightarrow> (SyntaxNode \<Rightarrow> drawn) \<Rightarrow> node_ptr \<Rightarrow> nat set \<Rightarrow> drawn list \<Rightarrow> bool" where
  "part_ok h edge p A ss \<longleftrightarrow> (case p of None \<Rightarrow> ss = [] \<and> A = {}
     | Some b \<Rightarrow> \<exists>ts m. h b = Some m \<and> ss = ts @ [edge m] \<and> draws h A ts)"

lemma draws_node:
  assumes "h a = Some n" "a \<notin> A" "a \<notin> B" "A \<inter> B = {}" "finite A" "finite B"
    and c: "part_ok h (Child n) (n_child n) A cs" and t: "part_ok h (Sibling n) (n_next n) B ts"
  shows "draws h (insert a (A \<union> B)) (Vertex n # cs @ ts)"
proof -
  have as: "\<exists>as. distinct as \<and> set as = X \<and> vertices ss = map (\<lambda>a. the (h a)) as" if "part_ok h e p X ss" "e = Child n \<or> e = Sibling n" for e p X ss
    using that by (auto simp: part_ok_def draws_def split: option.splits)
  obtain u v where uv: "distinct u" "set u = A" "vertices cs = map (\<lambda>a. the (h a)) u" "distinct v" "set v = B" "vertices ts = map (\<lambda>a. the (h a)) v"
    using as [OF c] as [OF t] by auto
  then have "\<exists>as. distinct as \<and> set as = insert a (A \<union> B) \<and> vertices (Vertex n # cs @ ts) = map (\<lambda>a. the (h a)) as"
    using assms(1-4) by (intro exI [of _ "a # u @ v"]) auto
  moreover have "set (edges cs) = {Child n m | b m. n_child n = Some b \<and> h b = Some m} \<union> node_edges h A"
    "set (edges ts) = {Sibling n m | b m. n_next n = Some b \<and> h b = Some m} \<union> node_edges h B"
    using c t by (auto simp: part_ok_def draws_def node_edges_simps split: option.splits)
  moreover have "length (edges cs) = card A" "length (edges ts) = card B" using c t by (auto simp: part_ok_def draws_def split: option.splits)
  moreover have "card (insert a (A \<union> B)) = card A + card B + 1" using assms(2-6) by (simp add: card_Un_disjoint)
  ultimately show ?thesis unfolding draws_def by (simp add: node_edges_simps assms(1) edges_at_def Un_ac)
qed

lemma PrintTreeLow_draws:
  "forest h p ts A \<Longrightarrow> p = Some a \<Longrightarrow> \<exists>ss. PrintTreeLow h a = Some (Inr (concat (map drawn_text ss))) \<and> draws h A ss"
proof (induction arbitrary: a rule: forest.induct)
  case (node b n cs A ts B)
  then have a: "h a = Some n" by simp
  have part: "\<exists>ss. (case p of None \<Rightarrow> Some (Inr [])
       | Some c \<Rightarrow> ro_bind (PrintTreeLow h c) (\<lambda>t. ro_bind (Some (deref h c)) (\<lambda>m. Some (Inr (t @ drawn_text (e m)))))) =
      Some (Inr (concat (map drawn_text ss))) \<and> part_ok h e p X ss"
    if "forest h p us X" "\<And>c. p = Some c \<Longrightarrow> \<exists>ss. PrintTreeLow h c = Some (Inr (concat (map drawn_text ss))) \<and> draws h X ss" for p us X e
  proof (cases p)
    case None
    then show ?thesis using that(1) by (simp add: part_ok_def forest_None_iff)
  next
    case (Some c)
    have "c \<in> dom h" using that(1) forest_dom [OF that(1)] Some by (auto elim: forest_SomeE)
    then obtain m where m: "h c = Some m" by blast
    from that(2) [OF Some] obtain ss where "PrintTreeLow h c = Some (Inr (concat (map drawn_text ss)))" "draws h X ss" by blast
    then show ?thesis using Some m by (intro exI [of _ "ss @ [e m]"]) (simp add: part_ok_def deref_def)
  qed
  from part [OF node.hyps(2) node.IH(1), of "Child n", folded lines_drawn] obtain u where
    u: "(case n_child n of None \<Rightarrow> Some (Inr []) | Some c \<Rightarrow> ro_bind (PrintTreeLow h c) (\<lambda>t. ro_bind (Some (deref h c)) (\<lambda>m. Some (Inr (t @ edge_line n m))))) =
      Some (Inr (concat (map drawn_text u)))" "part_ok h (Child n) (n_child n) A u" by blast
  from part [OF node.hyps(3) node.IH(2), of "Sibling n", folded lines_drawn] obtain v where
    v: "(case n_next n of None \<Rightarrow> Some (Inr []) | Some c \<Rightarrow> ro_bind (PrintTreeLow h c) (\<lambda>t. ro_bind (Some (deref h c)) (\<lambda>m. Some (Inr (t @ edge_line n m @ rank_line n m))))) =
      Some (Inr (concat (map drawn_text v)))" "part_ok h (Sibling n) (n_next n) B v" by blast
  have "draws h (insert b (A \<union> B)) (Vertex n # u @ v)"
    using draws_node [OF node.hyps(1) node.hyps(4-6) _ _ u(2) v(2)] forest_finite [OF node.hyps(2)] forest_finite [OF node.hyps(3)] by simp
  then show ?case using a u(1) v(1) PrintTreeLow.simps [of h a]
    by (intro exI [of _ "Vertex n # u @ v"]) (simp add: deref_def lines_drawn(1) del: drawn_text.simps)
qed simp

text \<open>Names of files tell their numbers.\<close>

lemma int_text_not_blank: "\<not> list_ex is_blank (int_text i)"
proof -
  have d: "is_digit c \<Longrightarrow> \<not> is_blank c" for c by (auto simp: is_digit_def digit_val_def is_blank_def)
  have "\<not> list_ex is_blank (nat_text n)" for n using nat_text_digits d by (auto simp: list_ex_iff)
  then show ?thesis by (simp add: int_text_def is_blank_def)
qed

lemma read_word_id: "\<not> list_ex is_blank s \<Longrightarrow> read_word s = s"
proof -
  assume "\<not> list_ex is_blank s"
  then have n: "\<forall>c \<in> set s. \<not> is_blank c" by (simp add: list_ex_iff)
  then have "dropWhile is_blank s = s" by (cases s) auto
  then show ?thesis using n by (simp add: read_word_def takeWhile_eq_all_conv)
qed

lemma stream_name_text: "\<not> list_ex is_blank prefix \<Longrightarrow> stream_name prefix i = prefix @ int_text i @ ''.txt''"
  unfolding stream_name_def by (rule read_word_id) (simp add: int_text_not_blank, simp add: is_blank_def)

lemma stream_name_inject: "\<not> list_ex is_blank prefix \<Longrightarrow> stream_name prefix i = stream_name prefix j \<longleftrightarrow> i = j"
  by (simp add: stream_name_text int_text_inject)

text \<open>The streams of a manager are open and write the files of their numbers.\<close>

definition tree_file :: "int \<Rightarrow> string" where
  "tree_file i = ''syntax_tree_'' @ int_text i @ ''.txt''"

definition trees_ok :: "tree_file_mgr \<Rightarrow> bool" where
  "trees_ok m \<longleftrightarrow> name_prefix m = ''syntax_tree_'' \<and>
     (\<forall>i name opn. outs m i = Some (name, opn) \<longrightarrow> opn \<and> name = tree_file i \<and> files m name \<noteq> None)"

lemma stream_name_tree_file: "stream_name ''syntax_tree_'' i = tree_file i"
  unfolding tree_file_def by (rule stream_name_text) (simp add: is_blank_def)

lemma tree_file_inject: "tree_file i = tree_file j \<longleftrightarrow> i = j"
  by (simp add: tree_file_def int_text_inject)

lemma write_tree:
  assumes "trees_ok m"
  shows "trees_ok (write_stream k txt (get_stream k m))"
    and "files (write_stream k txt (get_stream k m)) =
      (files m)(tree_file k \<mapsto> (if outs m k = None then [] else the (files m (tree_file k))) @ txt)"
proof -
  show "trees_ok (write_stream k txt (get_stream k m))"
    using assms by (auto simp: trees_ok_def write_stream_def get_stream_def new_out_stream_def open_file_def Let_def stream_name_tree_file
        split: option.splits bool.splits prod.splits if_splits)
  show "files (write_stream k txt (get_stream k m)) =
      (files m)(tree_file k \<mapsto> (if outs m k = None then [] else the (files m (tree_file k))) @ txt)"
    using assms by (auto simp: trees_ok_def write_stream_def get_stream_def new_out_stream_def open_file_def Let_def stream_name_tree_file
        split: option.splits bool.splits prod.splits if_splits)
qed

section \<open>Properties\<close>

text \<open>
  C11 (equivalence). Drawing a syntax tree always ends, and the text it writes is a faithful picture of the
  tree: between the lines that open and close the graph it has one statement for each node, under the node's own
  number, and exactly one edge from each node to its first child and to its next sibling, which is ranked with
  it, one fewer than there are nodes. A null root is drawn as an empty graph.
\<close>

theorem drawing_shows_tree:
  assumes "forest h root ts A" and "inj_on (\<lambda>a. n_id (the (h a))) A"
  shows "case root of None \<Rightarrow> PrintTree h root = Some (Inr (''digraph G{ }'' @ [CHR 0x0A])) | Some a \<Rightarrow>
    (\<exists>ss. PrintTree h root = Some (Inr (''digraph G{ '' @ [CHR 0x0A] @ concat (map drawn_text ss) @ ''}'' @ [CHR 0x0A])) \<and>
      distinct (map n_id (vertices ss)) \<and> set (vertices ss) = (\<lambda>a. the (h a)) ` A \<and>
      set (edges ss) = node_edges h A \<and> length (edges ss) + 1 = length (vertices ss))"
proof (cases root)
  case None
  then show ?thesis by (simp add: PrintTree_def)
next
  case (Some a)
  from PrintTreeLow_draws [OF assms(1) Some] obtain ss as where
    ss: "PrintTreeLow h a = Some (Inr (concat (map drawn_text ss)))" "set (edges ss) = node_edges h A" "length (edges ss) + 1 = card A"
      "distinct as" "set as = A" "vertices ss = map (\<lambda>a. the (h a)) as" by (auto simp: draws_def)
  have "inj_on (\<lambda>a. n_id (the (h a))) (set as)" using assms(2) ss(5) by simp
  then have "distinct (map n_id (vertices ss))" using ss(4,6) by (simp add: distinct_map comp_def)
  moreover have "length (vertices ss) = card A" using ss(4-6) distinct_card [of as] by simp
  ultimately show ?thesis using Some ss by (auto simp: PrintTree_def)
qed

definition example_nodes :: node_store where
  "example_nodes = [0 \<mapsto> \<lparr>n_id = 0, n_type = kNodeDropTable, n_line = 1, n_col = 5, n_child = Some 1, n_next = None, n_val = None\<rparr>,
     1 \<mapsto> \<lparr>n_id = 1, n_type = kNodeIdentifier, n_line = 1, n_col = 12, n_child = None, n_next = None, n_val = Some ''t''\<rparr>]"

theorem drawing_shows_tree_witness:
  "\<exists>ss. PrintTree example_nodes (Some 0) = Some (Inr (''digraph G{ '' @ [CHR 0x0A] @ concat (map drawn_text ss) @ ''}'' @ [CHR 0x0A])) \<and>
     length (vertices ss) = 2 \<and> edges ss = [Child (the (example_nodes 0)) (the (example_nodes 1))]"
proof -
  have f: "forest example_nodes (Some 0) [Node kNodeDropTable None [Node kNodeIdentifier (Some ''t'') []]] {0, 1}"
    using forest.node [of example_nodes 0 _ "[Node kNodeIdentifier (Some ''t'') []]" "{1}" "[]" "{}"]
      forest.node [of example_nodes 1 _ "[]" "{}" "[]" "{}"] by (simp add: example_nodes_def forest_None_iff)
  have i: "inj_on (\<lambda>a. n_id (the (example_nodes a))) {0, 1}" by (simp add: example_nodes_def)
  from drawing_shows_tree [OF f i] obtain ss where
    ss: "PrintTree example_nodes (Some 0) = Some (Inr (''digraph G{ '' @ [CHR 0x0A] @ concat (map drawn_text ss) @ ''}'' @ [CHR 0x0A]))"
      "distinct (map n_id (vertices ss))" "set (vertices ss) = (\<lambda>a. the (example_nodes a)) ` {0, 1}"
      "set (edges ss) = node_edges example_nodes {0, 1}" "length (edges ss) + 1 = length (vertices ss)" by auto
  have "node_edges example_nodes {0, 1} = {Child (the (example_nodes 0)) (the (example_nodes 1))}"
    by (auto simp: node_edges_def edges_at_def example_nodes_def)
  moreover have "length (vertices ss) = 2"
    using distinct_card [of "vertices ss"] ss(2,3) by (simp add: distinct_map example_nodes_def)
  ultimately show ?thesis using ss by (intro exI [of _ ss]) (auto simp: numeral_2_eq_2 length_Suc_conv)
qed

end
