(* ===== verification/Command_Loop.thy ===== *)
theory Command_Loop
  imports Statement_Shapes Tree_Drawing
begin

text \<open>
  The program: the loop of src/MiniSQL/src/main.cpp, which reads a command, scans and parses it, hands the
  root of its tree to the engine and cleans up. The scanner, the parser's variables and the engine are the
  state that lives from one command to the next, with the files the syntax trees are drawn to. Of what is
  printed to the terminal, whether an error is reported is kept; the logging is left out.
\<close>

section \<open>The loop\<close>

text \<open>
  \<^verbatim>\<open>InputCommand\<close>: the characters up to the next semicolon go to a buffer of 1024 bytes without a check;
  input that does not fit with its terminating zero, or ends before a semicolon, writes or is read past
  the buffer. The result is the command and the rest of the input, less the character after the semicolon.
\<close>

definition InputCommand :: "string \<Rightarrow> (string \<times> string) res" where
  "InputCommand input = (let pre = takeWhile (\<lambda>c. c \<noteq> CHR '';'') input; rest = dropWhile (\<lambda>c. c \<noteq> CHR '';'') input
     in if rest = [] \<or> 1022 < length pre then Inl Undefined else Inr (pre @ '';'', drop 2 rest))"

text \<open>The tree a node pointer leads to, read from the store.\<close>

partial_function (option) read_ast :: "node_store \<Rightarrow> node_ptr \<Rightarrow> ast list res option" where
  "read_ast h p = (case p of None \<Rightarrow> Some (Inr []) | Some a \<Rightarrow> (case h a of None \<Rightarrow> Some (Inl Undefined) | Some n \<Rightarrow>
     ro_bind (read_ast h (n_child n)) (\<lambda>cs. ro_bind (read_ast h (n_next n)) (\<lambda>ts.
       Some (Inr (Node (n_type n) (n_val n) cs # ts))))))"

record main_state =
  engine :: execute_engine
  scanner :: flex
  grammar :: yacc
  stdin :: string
  reports :: "bool list"
  syntax_tree_file_mgr :: tree_file_mgr
  syntax_tree_id :: u32

text \<open>
  The report on the parse: whether an error is reported. The message of an unrecognized character points to an
  array of the scanner that no longer exists when it is printed.
\<close>

definition parse_report :: "parser_state \<Rightarrow> bool res" where
  "parse_report st = (if MinisqlParserGetError st \<noteq> 0
     then (case MinisqlParserGetErrorMessage st of None \<Rightarrow> Inl NullDeref | Some (Literal msg) \<Rightarrow> Inr True
       | Some (Local msg) \<Rightarrow> Inl Undefined)
     else Inr False)"

lemma parse_report_cases:
  assumes "heap_ok st"
  shows "error_flag st = 0 \<Longrightarrow> parse_report st = Inr False"
    "error_flag st \<noteq> 0 \<Longrightarrow> parse_report st = (if \<exists>m. error_message st = Some (Literal m) then Inr True else Inl Undefined)"
  using assms by (auto simp: parse_report_def heap_ok_def MinisqlParserGetError_def MinisqlParserGetErrorMessage_def
      split: option.splits message.splits)

text \<open>The drawing of a tree that was parsed without an error; the number of the file is converted to an \<^verbatim>\<open>int\<close>.\<close>

definition draw_tree :: "parser_state \<Rightarrow> u32 \<Rightarrow> tree_file_mgr \<Rightarrow> (tree_file_mgr \<times> u32) res option" where
  "draw_tree st k m = (let m1 = get_stream (sint k) m in
     ro_bind (PrintTree (store st) (MinisqlGetParserRootNode st)) (\<lambda>txt. Some (Inr (write_stream (sint k) txt m1, k + 1))))"

text \<open>
  One pass of the loop; the first component of the result is whether the loop is left. The engine's
  \<^verbatim>\<open>Execute\<close> is an argument, so that what it is called with can be stated.
\<close>

definition main_pass :: "(execute_engine \<Rightarrow> ast list \<Rightarrow> (dberr \<times> execute_engine) res option) \<Rightarrow> main_state \<Rightarrow>
    (bool \<times> main_state) res option" where
  "main_pass exec s = ro_bind (Some (InputCommand (stdin s))) (\<lambda>(cmd, rest).
     ro_bind (Some (yy_scan_string cmd (scanner s))) (\<lambda>(bp, f).
     ro_bind (Some (yy_switch_to_buffer bp f)) (\<lambda>f.
     ro_bind (yyparse f ((grammar s)\<lparr>parser := MinisqlParserInit (parser (grammar s))\<rparr>)) (\<lambda>(n, f, y).
     ro_bind (Some (parse_report (parser y))) (\<lambda>report.
     ro_bind (if report then Some (Inr (syntax_tree_file_mgr s, syntax_tree_id s))
              else draw_tree (parser y) (syntax_tree_id s) (syntax_tree_file_mgr s)) (\<lambda>(trees, k).
     ro_bind (read_ast (store (parser y)) (MinisqlGetParserRootNode (parser y))) (\<lambda>root.
     ro_bind (exec (engine s) root) (\<lambda>(result, en).
     ro_bind (Some (MinisqlParserFinish (parser y))) (\<lambda>g.
     ro_bind (Some (yy_delete_buffer (Some bp) f)) (\<lambda>f.
     ro_bind (yylex_destroy f) (\<lambda>f.
       Some (Inr (result = DB_QUIT, \<lparr>engine = en, scanner = f, grammar = y\<lparr>parser := g\<rparr>, stdin = rest,
         reports = reports s @ [report], syntax_tree_file_mgr = trees, syntax_tree_id = k\<rparr>)))))))))))))"

definition main_iteration :: "main_state \<Rightarrow> (bool \<times> main_state) res option" where
  "main_iteration = main_pass Execute"

partial_function (option) main_loop :: "main_state \<Rightarrow> main_state res option" where
  "main_loop s = ro_bind (main_iteration s) (\<lambda>(quit, s'). if quit then Some (Inr s') else main_loop s')"

text \<open>
  \<open>fs\<close> are the files that exist when the program starts, \<open>e\<close> what the scanner finds outside, from which it does not read
  here, and \<open>m\<close> the sizes of the blocks that \<^verbatim>\<open>malloc\<close> returns.
\<close>

definition main_start :: "string \<Rightarrow> (string \<rightharpoonup> string) \<Rightarrow> environment \<Rightarrow> (nat \<Rightarrow> nat) \<Rightarrow> main_state" where
  "main_start input fs e m = \<lparr>engine = ExecuteEngine, scanner = flex_globals e,
     grammar = \<lparr>value_stack = [], yylval = None, parser = parser_globals m\<rparr>, stdin = input, reports = [],
     syntax_tree_file_mgr = TreeFileManagers ''syntax_tree_'' fs, syntax_tree_id = 0\<rparr>"

section \<open>Between two commands\<close>

definition main_ok :: "main_state \<Rightarrow> bool" where
  "main_ok s \<longleftrightarrow> engine s = ExecuteEngine \<and> scanner_idle (scanner s) \<and> heap_ok (parser (grammar s)) \<and>
     store (parser (grammar s)) = Map.empty \<and> trees_ok (syntax_tree_file_mgr s)"

lemma main_ok_start: "\<forall>n \<le> 15. n < m n \<Longrightarrow> main_ok (main_start input fs e m)"
  by (simp add: main_ok_def main_start_def globals_idle heap_ok_def store_ok_def parser_globals_def ids_ok_def
      trees_ok_def TreeFileManagers_def)

lemma read_ast_forest: "forest h p ts A \<Longrightarrow> read_ast h p = Some (Inr ts)"
  by (induction rule: forest.induct) (simp_all add: read_ast.simps)

lemma free_nodes_ok:
  "distinct ps \<Longrightarrow> set ps \<subseteq> dom (store st) \<Longrightarrow>
   \<exists>h. free_nodes st ps = Inr (st\<lparr>store := h\<rparr>) \<and> dom h = dom (store st) - set ps"
proof (induction ps arbitrary: st)
  case Nil
  then show ?case by (intro exI [of _ "store st"]) simp
next
  case (Cons p ps)
  then obtain n where n: "store st p = Some n" by auto
  let ?st = "st\<lparr>store := (store st)(p := None)\<rparr>"
  have "set ps \<subseteq> dom (store ?st)" using Cons.prems by auto
  moreover have "distinct ps" using Cons.prems(1) by simp
  ultimately obtain h where "free_nodes ?st ps = Inr (?st\<lparr>store := h\<rparr>)" "dom h = dom (store ?st) - set ps"
    using Cons.IH by blast
  then show ?case using n by (intro exI [of _ h]) (auto simp: deref_def)
qed

text \<open>Every node of a statement is freed, and nothing else is.\<close>

lemma Finish_ok:
  assumes "heap_ok st"
  shows "\<exists>st'. MinisqlParserFinish st = Inr st' \<and> heap_ok st' \<and> store st' = Map.empty \<and> block_size st' = block_size st"
proof -
  from free_nodes_ok [of "node_list st" st] assms obtain h where
    "free_nodes st (node_list st) = Inr (st\<lparr>store := h\<rparr>)" "dom h = {}" by (auto simp: heap_ok_def)
  then show ?thesis using assms by (simp add: MinisqlParserFinish_def DestroySyntaxTree_def heap_ok_def store_ok_def ids_ok_def)
qed

lemma parser_Init:
  "heap_ok st \<Longrightarrow> store st = Map.empty \<Longrightarrow> heap_ok (MinisqlParserInit st)" "error_flag (MinisqlParserInit st) = 0" "root_node (MinisqlParserInit st) = None" "block_size (MinisqlParserInit st) = block_size st"
  by (simp_all add: MinisqlParserInit_def heap_ok_def store_ok_def ids_ok_def)

section \<open>One command\<close>

text \<open>What \<^verbatim>\<open>InputCommand\<close> hands to the scanner, as the C string it is.\<close>

definition command_text :: "string \<Rightarrow> string" where
  "command_text cmd = takeWhile (\<lambda>c. c \<noteq> CHR 0x00) cmd"

lemma InputCommand_text:
  assumes "InputCommand input = Inr (cmd, rest)"
  shows "text_ok (command_text cmd)" "length (command_text cmd) + 1 < YYMAXDEPTH" "\<not> semicolon (butlast (command_text cmd))"
    "length rest < length input"
proof -
  let ?pre = "takeWhile (\<lambda>c. c \<noteq> CHR '';'') input"
  have c: "cmd = ?pre @ '';''" "length ?pre \<le> 1022" "rest = drop 2 (dropWhile (\<lambda>c. c \<noteq> CHR '';'') input)"
    "dropWhile (\<lambda>c. c \<noteq> CHR '';'') input \<noteq> []" using assms by (auto simp: InputCommand_def Let_def split: if_splits)
  show "text_ok (command_text cmd)" by (auto simp: text_ok_def command_text_def dest: set_takeWhileD)
  have "length (command_text cmd) \<le> length cmd" unfolding command_text_def by (rule length_takeWhile_le)
  then show "length (command_text cmd) + 1 < YYMAXDEPTH" using c by (simp add: YYMAXDEPTH_def)
  have p: "CHR '';'' \<notin> set ?pre" by (auto dest: set_takeWhileD)
  have "set (butlast (command_text cmd)) \<subseteq> set ?pre"
  proof (cases "CHR 0x00 \<in> set ?pre")
    case True
    then have "command_text cmd = takeWhile (\<lambda>c. c \<noteq> CHR 0x00) ?pre" by (simp add: command_text_def c(1))
    then show ?thesis by (auto dest!: in_set_butlastD dest: set_takeWhileD)
  next
    case False
    then have "command_text cmd = cmd" by (auto simp: command_text_def c(1) takeWhile_eq_all_conv)
    then show ?thesis using c(1) by simp
  qed
  then show "\<not> semicolon (butlast (command_text cmd))" using p by (auto simp: semicolon_def)
  have "length rest < length (dropWhile (\<lambda>c. c \<noteq> CHR '';'') input)" using c(3,4) by (cases "dropWhile (\<lambda>c. c \<noteq> CHR '';'') input") auto
  then show "length rest < length input" using length_dropWhile_le [of "\<lambda>c. c \<noteq> CHR '';''" input] by linarith
qed

lemma yy_scan_string_text: "yy_scan_string cmd f = yy_scan_string (command_text cmd) f"
  by (simp add: yy_scan_string_def command_text_def)

text \<open>
  The state after a command that the engine answered: \<open>next_state\<close> says that the loop goes on with the
  rest of the input, an idle scanner and an empty store, and whether the user got an error reported. Then
  the trees on the disk are as before; otherwise the next file has the drawing \<open>txt\<close> of \<open>ts\<close> added.
\<close>

definition drawing_of :: "ast list \<Rightarrow> string \<Rightarrow> bool" where
  "drawing_of ts txt \<longleftrightarrow> (\<exists>h root A. forest h root ts A \<and> inj_on (\<lambda>a. n_id (the (h a))) A \<and> PrintTree h root = Some (Inr txt))"

definition drew :: "main_state \<Rightarrow> bool \<Rightarrow> ast list \<Rightarrow> main_state \<Rightarrow> bool" where
  "drew s bad ts s' \<longleftrightarrow> (if bad then syntax_tree_file_mgr s' = syntax_tree_file_mgr s \<and> syntax_tree_id s' = syntax_tree_id s
     else syntax_tree_id s' = syntax_tree_id s + 1 \<and> (\<exists>txt. drawing_of ts txt \<and> (let k = sint (syntax_tree_id s); m = syntax_tree_file_mgr s in
       files (syntax_tree_file_mgr s') = (files m)(tree_file k \<mapsto> (if outs m k = None then [] else the (files m (tree_file k))) @ txt))))"

definition next_state :: "main_state \<Rightarrow> string \<Rightarrow> bool \<Rightarrow> ast list \<Rightarrow> main_state \<Rightarrow> bool" where
  "next_state s rest bad ts s' \<longleftrightarrow> main_ok s' \<and> stdin s' = rest \<and> store (parser (grammar s')) = Map.empty \<and>
     block_size (parser (grammar s')) = block_size (parser (grammar s)) \<and>
     reports s' = reports s @ [bad] \<and> drew s bad ts s'"

lemma same_engine: "next_state s rest bad ts s' \<Longrightarrow> s'\<lparr>engine := ExecuteEngine\<rparr> = s'"
  by (simp add: next_state_def main_ok_def)

lemma parsed_drawing:
  assumes "heap_ok st" "forest (store st) (root_node st) ts A"
  shows "\<exists>txt. PrintTree (store st) (root_node st) = Some (Inr txt) \<and> drawing_of ts txt"
proof -
  have "inj_on (\<lambda>a. n_id (the (store st a))) A"
  proof (rule inj_onI)
    fix a b assume "a \<in> A" "b \<in> A" and e: "n_id (the (store st a)) = n_id (the (store st b))"
    then obtain n m where "store st a = Some n" "store st b = Some m" using forest_dom [OF assms(2)] by blast
    moreover have "ids_ok st" using assms(1) by (simp add: heap_ok_def)
    ultimately show "a = b" using e unfolding ids_ok_def by simp
  qed
  moreover have "\<exists>txt. PrintTree (store st) (root_node st) = Some (Inr txt)"
    using PrintTreeLow_draws [OF assms(2)] by (cases "root_node st") (auto simp: PrintTree_def)
  ultimately show ?thesis using assms(2) unfolding drawing_of_def by blast
qed

text \<open>The pass of the loop from the end of the parse on.\<close>

abbreviation answered :: "main_state \<Rightarrow> (dberr \<times> execute_engine) res option \<Rightarrow> (bool \<times> main_state) res option" where
  "answered s' r \<equiv> ro_bind r (\<lambda>(result, en). Some (Inr (result = DB_QUIT, s'\<lparr>engine := en\<rparr>)))"

lemma unreadable_report:
  assumes "parse_report (parser y) = Inl Undefined" "InputCommand (stdin s) = Inr (cmd, rest)"
    "yy_scan_string cmd (scanner s) = Inr (bp, f0)" "yy_switch_to_buffer bp f0 = Inr f1"
    "yyparse f1 ((grammar s)\<lparr>parser := MinisqlParserInit (parser (grammar s))\<rparr>) = Some (Inr (n, f, y))"
  shows "main_pass exec s = Some (Inl Undefined)"
  using assms by (simp add: main_pass_def)

lemma after_parse:
  assumes y: "heap_ok (parser y)" "forest (store (parser y)) (root_node (parser y)) nodes A" "parse_report (parser y) = Inr r"
      "block_size (parser y) = block_size (parser (grammar s))"
    and f: "ready f t q" "current_buffer f = Some bp" and i: "InputCommand (stdin s) = Inr (cmd, rest)"
    and p: "yy_scan_string cmd (scanner s) = Inr (bp, f0)" "yy_switch_to_buffer bp f0 = Inr f1"
      "yyparse f1 ((grammar s)\<lparr>parser := MinisqlParserInit (parser (grammar s))\<rparr>) = Some (Inr (n, f, y))"
    and ok: "main_ok s"
  shows "\<exists>s'. main_pass exec s = answered s' (exec (engine s) nodes) \<and> next_state s rest r nodes s'"
proof -
  let ?m = "syntax_tree_file_mgr s" and ?k = "syntax_tree_id s"
  from Finish_ok [OF y(1)] obtain g where
    g: "MinisqlParserFinish (parser y) = Inr g" "heap_ok g" "store g = Map.empty" "block_size g = block_size (parser y)" by blast
  from scanner_idle_again [OF f] obtain f2 f3 where
    f3: "yy_delete_buffer (Some bp) f = Inr f2" "yylex_destroy f2 = Some (Inr f3)" "scanner_idle f3" by blast
  obtain w where w: "PrintTree (store (parser y)) (root_node (parser y)) = Some (Inr w)" "drawing_of nodes w"
    using parsed_drawing [OF y(1,2)] by blast
  have en: "engine s = ExecuteEngine" and tr: "trees_ok ?m" using ok by (simp_all add: main_ok_def)
  let ?m' = "if r then ?m else write_stream (sint ?k) w (get_stream (sint ?k) ?m)" and ?k' = "if r then ?k else ?k + 1"
  let ?s = "\<lparr>engine = engine s, scanner = f3, grammar = y\<lparr>parser := g\<rparr>, stdin = rest, reports = reports s @ [r],
    syntax_tree_file_mgr = ?m', syntax_tree_id = ?k'\<rparr>"
  have "main_pass exec s = answered ?s (exec (engine s) nodes)"
    using read_ast_forest [OF y(2)] y(3) i p g(1) f3(1,2) w(1)
    by (cases r) (simp_all add: main_pass_def MinisqlGetParserRootNode_def draw_tree_def)
  moreover have "next_state s rest r nodes ?s"
    using g y(4) f3(3) tr en w(2) write_tree [OF tr, of "sint ?k" w] by (auto simp: next_state_def main_ok_def drew_def Let_def)
  ultimately show ?thesis by blast
qed

lemma main_pass_command:
  assumes "main_ok s" "InputCommand (stdin s) = Inr (cmd, rest)"
  defines "ls \<equiv> scan (command_text cmd)"
  assumes fit: "values_fit (block_size (parser (grammar s))) ls"
  shows "(\<exists>d t. parses (tokens_of ls) d \<and> tree_val d = Some [t] \<and> (command (ast_type t) \<noteq> None \<or> query_shape t) \<and>
      (if unrecognized ls then main_pass exec s = Some (Inl Undefined)
       else \<exists>s'. main_pass exec s = answered s' (exec (engine s) [t]) \<and> next_state s rest False [t] s')) \<or>
    ((\<forall>d. \<not> parses (tokens_of ls) d) \<and> (unrecognized ls \<and> main_pass exec s = Some (Inl Undefined) \<or>
      (\<exists>s'. main_pass exec s = answered s' (exec (engine s) []) \<and> next_state s rest True [] s')))"
proof -
  let ?t = "command_text cmd" and ?y = "(grammar s)\<lparr>parser := MinisqlParserInit (parser (grammar s))\<rparr>"
  let ?m = "block_size (parser (grammar s))"
  note t = InputCommand_text [OF assms(2)]
  have ok: "scanner_idle (scanner s)" "heap_ok (parser ?y)" "error_flag (parser ?y) = 0" "root_node (parser ?y) = None" "block_size (parser ?y) = ?m"
    using assms(1) by (simp_all add: main_ok_def parser_Init)
  have "len ?t + 1 < 2 ^ 31" using t(2) by (simp add: len_length YYMAXDEPTH_def)
  with yy_scan_string_ready [of "scanner s" ?t] ok(1) t(1) obtain bp f' f0 where
    f0: "yy_scan_string cmd (scanner s) = Inr (bp, f')" "ready f0 ?t 0" "current_buffer f0 = Some bp" "yy_switch_to_buffer bp f' = Inr f0"
    by (auto simp: scanner_idle_def yy_scan_string_text [of cmd])
  note after = after_parse [OF _ _ _ _ _ _ assms(2) f0(1,4) _ assms(1)] and unreadable = unreadable_report [OF _ assms(2) f0(1,4)]
  have "\<not> YYMAXDEPTH \<le> length ?t + 1" using t(2) by simp
  with yyparse_correct [OF f0(2) ok(2-5)] fit
  have "(\<exists>d f y. parses (tokens_of ls) d \<and> yyparse f0 ?y = Some (Inr (0, f, y)) \<and> parsed_state ?m ?t d f y) \<or>
    (\<exists>f y. (\<forall>d. \<not> parses (tokens_of ls) d) \<and> yyparse f0 ?y = Some (Inr (1, f, y)) \<and> refused_state ?m ?t f y)"
    unfolding ls_def by blast
  then show ?thesis
  proof (elim disjE exE conjE)
    fix d f y assume d: "parses (tokens_of ls) d" and y: "yyparse f0 ?y = Some (Inr (0, f, y))" "parsed_state ?m ?t d f y"
    from statement_shape [OF d [unfolded ls_def]] obtain t where t': "tree_val d = Some [t]" "command (ast_type t) \<noteq> None \<or> query_shape t" by blast
    from y(2) obtain q A where q: "heap_ok (parser y)" "ready f ?t q" "error_flag (parser y) \<noteq> 0 \<longleftrightarrow> unrecognized ls"
      "forest (store (parser y)) (root_node (parser y)) [t] A" "block_size (parser y) = ?m" "scan_error (parser y)"
      using t'(1) by (auto simp: parsed_state_def ls_def)
    have b: "current_buffer f = Some bp" by (rule yyparse_buffer [OF f0(3) y(1)])
    have "if unrecognized ls then main_pass exec s = Some (Inl Undefined)
       else \<exists>s'. main_pass exec s = answered s' (exec (engine s) [t]) \<and> next_state s rest False [t] s'"
    proof (cases "unrecognized ls")
      case True
      then have "parse_report (parser y) = Inl Undefined" using q(3,6) parse_report_cases(2) [OF q(1)] by (auto simp: scan_error_def)
      then show ?thesis using True unreadable [OF _ y(1)] by simp
    next
      case False
      then have "parse_report (parser y) = Inr False" using q(3) parse_report_cases(1) [OF q(1)] by simp
      then show ?thesis using False after [OF q(1,4) _ q(5) q(2) b y(1)] by simp
    qed
    then show ?thesis using d t' by blast
  next
    fix f y assume d: "\<forall>d. \<not> parses (tokens_of ls) d" and y: "yyparse f0 ?y = Some (Inr (1, f, y))" "refused_state ?m ?t f y"
    from y(2) obtain q where q: "heap_ok (parser y)" "ready f ?t q" "error_flag (parser y) \<noteq> 0" "block_size (parser y) = ?m"
      "(\<exists>m. error_message (parser y) = Some (Literal m)) \<or> unrecognized ls" by (auto simp: refused_state_def reported_def ls_def)
    have root: "forest (store (parser y)) (root_node (parser y)) [] {}"
      using refused_null [OF y(2) t(3)] by (simp add: forest.empty)
    have b: "current_buffer f = Some bp" by (rule yyparse_buffer [OF f0(3) y(1)])
    show ?thesis
    proof (cases "\<exists>m. error_message (parser y) = Some (Literal m)")
      case True
      then have "parse_report (parser y) = Inr True" using q(3) parse_report_cases(2) [OF q(1)] by simp
      from after [OF q(1) root this q(4,2) b y(1)] show ?thesis using d by blast
    next
      case False
      then have "parse_report (parser y) = Inl Undefined" using q(3) parse_report_cases(2) [OF q(1)] by simp
      then show ?thesis using False q(5) d unreadable [OF _ y(1)] by blast
    qed
  qed
qed

section \<open>The whole program\<close>

text \<open>The states after passes that were finished.\<close>

inductive passes :: "main_state \<Rightarrow> main_state \<Rightarrow> bool" where
  no_pass: "passes s s"
| next_pass: "main_iteration s = Some (Inr (False, s1)) \<Longrightarrow> passes s1 s2 \<Longrightarrow> passes s s2"

lemma main_iteration_new:
  assumes "engine s = ExecuteEngine" "main_iteration s = Some (Inr (q, s1))"
  shows "\<not> q \<and> engine s1 = ExecuteEngine"
proof -
  from assms(2) obtain root result en where e: "Execute (engine s) root = Some (Inr (result, en))" "q \<longleftrightarrow> result = DB_QUIT" "engine s1 = en"
    unfolding main_iteration_def main_pass_def by (auto simp: ro_bind_Inr)
  then show ?thesis using Execute_new [of root result en] assms(1) by auto
qed

lemma main_loop_regular:
  assumes "main_loop s = Some r"
  shows "engine s = ExecuteEngine \<longrightarrow> (\<forall>s'. r \<noteq> Inr s')"
proof (rule main_loop.raw_induct [where P = "\<lambda>s r. engine s = ExecuteEngine \<longrightarrow> (\<forall>s'. r \<noteq> Inr s')", OF _ assms])
  fix rec s r
  assume IH: "\<And>s r. rec s = Some r \<Longrightarrow> engine s = ExecuteEngine \<longrightarrow> (\<forall>s'. r \<noteq> Inr s')"
    and r: "ro_bind (main_iteration s) (\<lambda>(quit, s'). if quit then Some (Inr s') else rec s') = Some r"
  show "engine s = ExecuteEngine \<longrightarrow> (\<forall>s'. r \<noteq> Inr s')"
  proof (intro impI allI notI)
    fix s' assume e: "engine s = ExecuteEngine" "r = Inr s'"
    with r obtain q s1 where q: "main_iteration s = Some (Inr (q, s1))" "(if q then Some (Inr s1) else rec s1) = Some (Inr s')"
      by (auto simp: ro_bind_Inr)
    then show False using main_iteration_new [OF e(1) q(1)] IH [of s1 "Inr s'"] by simp
  qed
qed

text \<open>How the loop ends: at the end of the input, at a query, or at a command that the program is not safe for.\<close>

definition ends_at :: "main_state \<Rightarrow> main_state res option \<Rightarrow> bool" where
  "ends_at s r \<longleftrightarrow> (case InputCommand (stdin s) of Inl e \<Rightarrow> r = Some (Inl Undefined)
     | Inr (cmd, rest) \<Rightarrow> (let ls = scan (command_text cmd) in
         (\<exists>d t. parses (tokens_of ls) d \<and> tree_val d = Some [t] \<and> query_shape t \<and>
           Execute (engine s) [t] = Some (Inl NullDeref) \<and> r = Some (Inl NullDeref)) \<or>
         unrecognized ls \<and> r = Some (Inl Undefined) \<or> \<not> values_fit (block_size (parser (grammar s))) ls))"

lemma main_loop_ends:
  "main_ok s \<Longrightarrow> \<exists>s'. passes s s' \<and> main_ok s' \<and> block_size (parser (grammar s')) = block_size (parser (grammar s)) \<and> ends_at s' (main_loop s)"
proof (induction "length (stdin s)" arbitrary: s rule: less_induct)
  case less
  have en: "engine s = ExecuteEngine" using less.prems by (simp add: main_ok_def)
  have here: "ends_at s (main_loop s) \<Longrightarrow> ?case" using less.prems no_pass by blast
  show ?case
  proof (cases "InputCommand (stdin s)")
    case (Inl e)
    then have "e = Undefined" by (simp add: InputCommand_def Let_def split: if_splits)
    then show ?thesis using Inl here by (simp add: main_loop.simps [of s] main_iteration_def main_pass_def ends_at_def)
  next
    case (Inr z)
    obtain cmd rest where z: "InputCommand (stdin s) = Inr (cmd, rest)" using Inr by (cases z) auto
    let ?ls = "scan (command_text cmd)"
    have next_ok: ?thesis if "main_iteration s = Some (Inr (False, s1))" "next_state s rest bad ts s1" for s1 bad ts
    proof -
      have s1: "main_ok s1" "length (stdin s1) < length (stdin s)" "block_size (parser (grammar s1)) = block_size (parser (grammar s))"
        using that(2) InputCommand_text(4) [OF z] by (simp_all add: next_state_def)
      have "main_loop s = main_loop s1" using that(1) by (simp add: main_loop.simps [of s])
      then show ?thesis using less.hyps [OF s1(2,1)] s1(3) next_pass [OF that(1)] by auto
    qed
    show ?thesis
    proof (cases "values_fit (block_size (parser (grammar s))) ?ls")
      case False
      then show ?thesis using here z by (simp add: ends_at_def Let_def)
    next
      case True
      have failed: "main_iteration s = Some (Inl e) \<Longrightarrow> main_loop s = Some (Inl e)" for e by (simp add: main_loop.simps [of s])
      from main_pass_command [OF less.prems z True, of Execute, folded main_iteration_def] show ?thesis
      proof (elim disjE exE conjE)
        fix d t
        assume d: "parses (tokens_of ?ls) d" "tree_val d = Some [t]"
          and p: "if unrecognized ?ls then main_iteration s = Some (Inl Undefined)
            else \<exists>s'. main_iteration s = answered s' (Execute (engine s) [t]) \<and> next_state s rest False [t] s'"
          and t: "command (ast_type t) \<noteq> None"
        show ?thesis
        proof (cases "unrecognized ?ls")
          case True
          then show ?thesis using p here z failed by (simp add: ends_at_def Let_def)
        next
          case False
          then obtain s' where s': "main_iteration s = answered s' (Execute (engine s) [t])" "next_state s rest False [t] s'" using p by auto
          then have "main_iteration s = Some (Inr (False, s'))" using Execute_command [of "[t]"] t en same_engine [OF s'(2)] by simp
          then show ?thesis using next_ok s'(2) by blast
        qed
      next
        fix d t
        assume d: "parses (tokens_of ?ls) d" "tree_val d = Some [t]"
          and p: "if unrecognized ?ls then main_iteration s = Some (Inl Undefined)
            else \<exists>s'. main_iteration s = answered s' (Execute (engine s) [t]) \<and> next_state s rest False [t] s'"
          and t: "query_shape t"
        then have "unrecognized ?ls \<and> main_loop s = Some (Inl Undefined) \<or> main_loop s = Some (Inl NullDeref)"
          using failed Execute_query [of t "[]"] en by (cases "unrecognized ?ls") auto
        then show ?thesis using here z d t Execute_query [of t "[]"] en by (auto simp: ends_at_def Let_def)
      next
        assume "unrecognized ?ls" "main_iteration s = Some (Inl Undefined)"
        then show ?thesis using here z failed by (simp add: ends_at_def Let_def)
      next
        fix s' assume "main_iteration s = answered s' (Execute (engine s) [])" "next_state s rest True [] s'"
        then show ?thesis using next_ok [of s' True "[]"] Execute_command [of "[]"] en same_engine by simp
      qed
    qed
  qed
qed

text \<open>
  C2 (functional). One pass of the loop of \<^verbatim>\<open>main\<close>, from the characters of the command to the engine, whatever
  the engine does, for a command whose identifiers and numbers stay in the blocks of their copies. If the
  tokens of the command form a sentence of the grammar, the engine is called with its tree, and with what it
  answers the loop goes on (or is left) with the rest of the input, the scanner reset, every node freed and
  the tree drawn to the next file. If they form no sentence, the error is reported and the engine is called
  with a null pointer. A sentence with an unrecognized character makes \<^verbatim>\<open>main\<close> print an array that no longer
  exists; for a text that is no sentence this happens only if it has one.
\<close>

theorem main_pass_correct:
  assumes "main_ok s" and "InputCommand (stdin s) = Inr (cmd, rest)" and "ls = scan (command_text cmd)"
    and "values_fit (block_size (parser (grammar s))) ls"
  shows "(\<exists>d t. parses (tokens_of ls) d \<and> tree_val d = Some [t] \<and> (command (ast_type t) \<noteq> None \<or> query_shape t) \<and>
      (if unrecognized ls then main_pass exec s = Some (Inl Undefined)
       else \<exists>s'. main_pass exec s = ro_bind (exec (engine s) [t]) (\<lambda>(result, en). Some (Inr (result = DB_QUIT, s'\<lparr>engine := en\<rparr>))) \<and>
         next_state s rest False [t] s')) \<or>
    ((\<nexists>d. parses (tokens_of ls) d) \<and> (unrecognized ls \<and> main_pass exec s = Some (Inl Undefined) \<or>
      (\<exists>s'. main_pass exec s = ro_bind (exec (engine s) []) (\<lambda>(result, en). Some (Inr (result = DB_QUIT, s'\<lparr>engine := en\<rparr>))) \<and>
         next_state s rest True [] s')))"
  using main_pass_command [OF assms(1,2) assms(4) [unfolded assms(3)], of exec] unfolding assms(3) by simp

definition example_command :: string where
  "example_command = ''select a, b from t where a <> \"x\" and b = -1.5;''"

definition example_scan :: "(int \<times> string) list" where
  "example_scan = scan example_command"

definition example_parse :: "token dtree" where
  "example_parse = Rule 2 [Rule 13 [Rule 44 [Leaf 5 (TPlain ''select''),
     Rule 46 [Rule 28 [Leaf 40 (TIdentifier ''a''), Leaf 50 (TPlain '',''), Rule 29 [Leaf 40 (TIdentifier ''b'')]]],
     Leaf 24 (TPlain ''from''), Leaf 40 (TIdentifier ''t''), Leaf 25 (TPlain ''where''),
     Rule 47 [Rule 48 [Rule 51 [Leaf 40 (TIdentifier ''a''), Rule 56 [Leaf 44 (TPlain ''<>'')], Rule 52 [Leaf 41 (TString ''\"x\"'')]]],
       Rule 49 [Leaf 35 (TPlain ''and'')],
       Rule 51 [Leaf 40 (TIdentifier ''b''), Rule 55 [Leaf 43 (TPlain ''='')], Rule 53 [Leaf 42 (TNumber ''-1.5'')]]]]],
     Leaf 47 (TPlain '';'')]"

lemma example_parses: "parses (tokens_of example_scan) example_parse"
  by code_simp

lemma example_fits: "values_fit example_blocks example_scan"
  by code_simp

abbreviation example_main :: main_state where
  "example_main \<equiv> main_start example_command Map.empty example_environment example_blocks"

theorem main_pass_correct_witness:
  "main_ok example_main \<and> InputCommand (stdin example_main) = Inr (example_command, []) \<and> values_fit example_blocks example_scan \<and>
   (\<exists>d t. parses (tokens_of example_scan) d \<and> tree_val d = Some [t] \<and>
     (\<exists>s'. main_pass (\<lambda>en ts. Some (Inr (if ts = [t] then DB_QUIT else DB_FAILED, en))) example_main = Some (Inr (True, s')) \<and> stdin s' = []))"
proof -
  have i: "InputCommand (stdin example_main) = Inr (example_command, [])" by code_simp
  have m: "main_ok example_main" using example_blocks_small by (intro main_ok_start) blast
  have e: "example_scan = scan (command_text example_command)"
    by (simp add: example_scan_def command_text_def example_command_def)
  have b: "block_size (parser (grammar example_main)) = example_blocks" by (simp add: main_start_def parser_globals_def)
  have u: "\<not> unrecognized example_scan" by code_simp
  note c = main_pass_correct [OF m i e, unfolded b, OF example_fits]
  from c [of Execute] example_parses obtain d t where d: "parses (tokens_of example_scan) d" "tree_val d = Some [t]" by blast
  let ?exec = "\<lambda>en ts. Some (Inr (if ts = [t] then DB_QUIT else DB_FAILED, en))"
  from c [of ?exec] example_parses u obtain d' t' s' where
    d': "parses (tokens_of example_scan) d'" "tree_val d' = Some [t']" and
    s': "main_pass ?exec example_main = Some (Inr ((if [t'] = [t] then DB_QUIT else DB_FAILED) = DB_QUIT, s'\<lparr>engine := engine example_main\<rparr>))"
      "next_state example_main [] False [t'] s'" by auto
  have "t' = t" using d d' parse_tree_unique by fastforce
  then show ?thesis using m i example_fits d s' by (auto simp: next_state_def)
qed

text \<open>
  C26 (error). Whatever the input, \<^verbatim>\<open>main\<close> is never left regularly. After finitely many finished passes it reads a
  command at which it stops: the input ends or the command does not fit in the buffer, and the program runs
  over it; or the command is a query, and the engine follows its null context; or the command has an
  unrecognized character, and the program prints an array that no longer exists; or the command has an
  identifier or a number whose copy is written past its block. With none of these the loop always makes
  progress: no other text makes the scanner or the parser run forever, fail an internal check or leave their tables.
\<close>

theorem main_never_returns:
  assumes "\<forall>n \<le> 15. n < m n"
  shows "main_loop (main_start input fs e m) \<noteq> Some (Inr s') \<and> (\<exists>s. passes (main_start input fs e m) s \<and> main_ok s \<and>
    (case InputCommand (stdin s) of Inl x \<Rightarrow> main_loop (main_start input fs e m) = Some (Inl Undefined)
     | Inr (cmd, rest) \<Rightarrow> (let ls = scan (command_text cmd) in
         (\<exists>d t. parses (tokens_of ls) d \<and> tree_val d = Some [t] \<and> query_shape t \<and>
           Execute (engine s) [t] = Some (Inl NullDeref) \<and> main_loop (main_start input fs e m) = Some (Inl NullDeref)) \<or>
         unrecognized ls \<and> main_loop (main_start input fs e m) = Some (Inl Undefined) \<or> \<not> values_fit m ls)))"
proof -
  let ?s = "main_start input fs e m"
  have "engine ?s = ExecuteEngine" "block_size (parser (grammar ?s)) = m" by (simp_all add: main_start_def parser_globals_def)
  then show ?thesis using main_loop_ends [OF main_ok_start [OF assms], of input fs e] main_loop_regular [of ?s]
    unfolding ends_at_def by fastforce
qed

theorem main_never_returns_witness:
  "\<exists>s. passes example_main s \<and> (case InputCommand (stdin s) of Inl x \<Rightarrow> main_loop example_main = Some (Inl Undefined)
     | Inr (cmd, rest) \<Rightarrow> (let ls = scan (command_text cmd) in
         (\<exists>d t. parses (tokens_of ls) d \<and> tree_val d = Some [t] \<and> query_shape t \<and>
           Execute (engine s) [t] = Some (Inl NullDeref) \<and> main_loop example_main = Some (Inl NullDeref)) \<or>
         unrecognized ls \<and> main_loop example_main = Some (Inl Undefined) \<or> \<not> values_fit example_blocks ls))"
  using main_never_returns [of example_blocks example_command Map.empty example_environment] example_blocks_small by blast

end
