(* ===== verification/Database.thy ===== *)
theory Database
  imports Engine
begin

text \<open>
  The life of a database file: \<^verbatim>\<open>DBStorageEngine\<close> (src/MiniSQL/src/common/instance.cpp) created on a new
  file, closed by its destructor and constructed again on the file that is left. Closing flushes the
  catalog's metadata and every page of the pool; the pool of the reopened database is empty and fetches the
  pages from the file.
\<close>

section \<open>The destructor\<close>

text \<open>
  The catalog manager, the buffer pool and the disk manager are deleted in this order; \<open>ps\<close> is the order in
  which the destructor of the pool goes through its page table.
\<close>

definition DBStorageEngine_destroy :: "page_id list \<Rightarrow> db_storage_engine \<Rightarrow> disk_manager res" where
  "DBStorageEngine_destroy ps d = res_bind (CatalogManager_destroy (db_catalog d)) (\<lambda>b.
     res_bind (flush_all b ps) (\<lambda>b. Inr (DiskManager_Close (disk b))))"

lemma flush_all_ok:
  assumes "bpm_ok b" and "set ps \<subseteq> dom (page_table b)" and "disk_reachable (disk b)"
  shows "\<exists>b'. flush_all b ps = Inr b' \<and> disk_reachable (disk b') \<and> disk_used (disk b') = disk_used (disk b) \<and>
    (\<forall>q. valid_pid q \<longrightarrow> logical_page (disk b') q = (if q \<in> set ps then page_view b q else logical_page (disk b) q))"
  using assms
proof (induction ps arbitrary: b)
  case (Cons p ps)
  then obtain f where f: "page_table b p = Some f" by auto
  obtain b1 where b1: "FlushPage b p = Inr (True, b1)" "bpm_ok b1" "page_table b1 = page_table b" "page_mem b1 = page_mem b"
    "disk_used (disk b1) = disk_used (disk b)" "disk_reachable (disk b) \<longrightarrow> disk_reachable (disk b1)"
    "\<And>q. valid_pid q \<Longrightarrow> logical_page (disk b1) q = (if q = p then page_mem b f else logical_page (disk b) q)"
    using FlushPage_ok [OF Cons.prems(1) f] by metis
  have v: "page_view b1 q = page_view b q" if "q \<in> set ps" for q
    using that Cons.prems(2) b1(3,4) by (force simp: page_view_resident)
  have "set ps \<subseteq> dom (page_table b1)" "disk_reachable (disk b1)" using Cons.prems b1(3,6) by auto
  from Cons.IH [OF b1(2) this] show ?case using b1(1,5,7) v page_view_resident [OF f] by auto
qed simp

section \<open>The pool of a reopened file\<close>

text \<open>
  \<open>cold s k b\<close>: the pool \<open>b\<close> reads the disk \<open>s\<close>, has at least \<open>k\<close> free frames, and the pages it holds
  are those of the disk. The disk need not satisfy the invariant of the disk manager: after reopening, its
  counters do not match its bitmaps.
\<close>

definition cold :: "disk_manager \<Rightarrow> nat \<Rightarrow> bpm \<Rightarrow> bool" where
  "cold s k b \<longleftrightarrow> disk b = s \<and> io_ok s \<and> k \<le> length (free_list b) \<and> distinct (free_list b) \<and>
     (\<forall>f \<in> set (free_list b). f < length (pages b) \<and> \<not> is_dirty (pages b ! f) \<and> pin_count (pages b ! f) = 0 \<and>
        page_id_of (pages b ! f) = INVALID_PAGE_ID \<and> clipped (page_data (pages b ! f))) \<and>
     (\<forall>p f. page_table b p = Some f \<longrightarrow> f < length (pages b) \<and> f \<notin> set (free_list b) \<and> valid_pid p \<and> page_mem b f = logical_page s p)"

lemma ReadPage_io:
  assumes "io_ok s" "valid_pid p" "clipped buf"
  shows "DiskManager_ReadPage s p buf = Inr (s, logical_page s p)"
proof -
  have "(\<lambda>i. if i < PAGE_SIZE then logical_page s p i else buf i) = logical_page s p"
    using assms(3) by (auto simp: clipped_def logical_page_def phys_page_def)
  then show ?thesis using assms(1,2) MapPageId_bounds [of p]
    by (simp add: DiskManager_ReadPage_def ReadPhysicalPage_ok logical_page_def valid_pid_def cong: if_cong)
qed

lemma cold_fetch:
  assumes c: "cold s (Suc k) b" and v: "valid_pid p"
  shows "\<exists>f b'. fetch_data b p = Inr (f, logical_page s p, b') \<and> cold s k b'"
proof (cases "page_table b p")
  case (Some f)
  then have "f < length (pages b)" "f \<notin> set (free_list b)" "page_mem b f = logical_page s p" using c by (auto simp: cold_def)
  then show ?thesis using Some c by (auto simp: fetch_data_def FetchPage_def Let_def cold_def page_mem_def)
next
  case None
  from c obtain f fs where fl: "free_list b = f # fs" "k \<le> length fs" by (cases "free_list b") (auto simp: cold_def)
  have f: "f < length (pages b)" "\<not> is_dirty (pages b ! f)" "page_id_of (pages b ! f) = INVALID_PAGE_ID"
    "clipped (page_data (pages b ! f))" "f \<notin> set fs" "pin_count (pages b ! f) = 0" using c fl by (auto simp: cold_def)
  have io: "io_ok s" "disk b = s" using c by (simp_all add: cold_def)
  let ?b = "(upd_page f (\<lambda>pg. pg\<lparr>page_data := logical_page s p\<rparr>) (upd_page f (\<lambda>pg. pg\<lparr>pin_count := pin_count pg + 1, page_id_of := p,
      is_dirty := False\<rparr>) (retable f p (b\<lparr>free_list := fs\<rparr>))))\<lparr>repl := LRUReplacer_Pin f (repl b)\<rparr>"
  have "FetchPage b p = Inr (Some f, ?b)"
    using None fl f io ReadPage_io [OF io(1) v f(4)]
    by (simp add: FetchPage_def pick_frame_def read_page_def retable_def upd_page_def)
  moreover have "cold s k ?b"
    using c fl f io v None by (auto simp: cold_def retable_def page_mem_def nth_list_update upd_page_def split: if_splits)
  ultimately show ?thesis using f(1) by (auto simp: fetch_data_def page_mem_def retable_def)
qed

interpretation reopened: page_source "cold s" "Collect valid_pid" "logical_page s" for s
  using cold_fetch by unfold_locales auto

lemma cold_new: "io_ok s \<Longrightarrow> cold s n (BufferPoolManager n s)"
  by (simp add: cold_def BufferPoolManager_def Page_def clipped_def zero_mem_def)

lemma cold_IsPageFree:
  assumes "cold s k b" "valid_pid p"
  shows "BPM_IsPageFree b p = (p \<notin> disk_used s, b)"
proof -
  have "DiskManager_IsPageFree s p = (p \<notin> disk_used s, s)"
    using assms offset_of_less [of p]
    by (simp add: cold_def valid_pid_def DiskManager_IsPageFree_def read_ext_bitmap [OF _ extent_of_less [of p]]
        ext_bitmap_def [symmetric] disk_used_def allocated_set_def)
  then show ?thesis using assms(1) by (auto simp: BPM_IsPageFree_def cold_def)
qed

text \<open>The first page a reopened database takes is page 0.\<close>

lemma cold_NewPage:
  assumes c: "cold s (Suc k) b" and m: "meta_data s = meta_load zero_mem"
  shows "\<exists>f b'. NewPage b = Inr (Some (f, CATALOG_META_PAGE_ID), b')"
proof -
  from c obtain f fs where fl: "free_list b = f # fs" by (cases "free_list b") (auto simp: cold_def)
  have f: "f < length (pages b)" "\<not> is_dirty (pages b ! f)" "pin_count (pages b ! f) = 0" "disk b = s" "io_ok s" using c fl by (auto simp: cold_def)
  then have "\<not> (\<forall>pg \<in> set (pages b). pin_count pg \<noteq> 0)" using nth_mem [OF f(1)] by auto
  moreover have "fst (DiskManager_AllocatePage s) = 0" by (rule first_allocation_page_zero [OF f(5) m])
  ultimately show ?thesis using fl f
    by (cases "DiskManager_AllocatePage s") (simp add: NewPage_def pick_frame_def CATALOG_META_PAGE_ID_def)
qed

section \<open>Closing and reopening\<close>

lemma reopened_disk:
  assumes "disk_reachable s"
  defines "ro \<equiv> DiskManager_open (db_file s) (file_size s)"
  shows "io_ok ro" and "meta_data ro = meta_load zero_mem" and "logical_page ro p = logical_page s p" and "disk_used ro = disk_used s"
proof -
  have io: "io_ok s" and z: "phys_page s META_PAGE_ID = zero_mem" using disk_reachable_inv [OF assms(1)] by (auto dest: disk_okD(1))
  note ro = reopen_meta [OF io z, folded ro_def]
  show "io_ok ro" "meta_data ro = meta_load zero_mem" using io by (simp_all add: ro io_ok_def)
  have "phys_page ro q = phys_page s q" for q by (simp add: ro phys_page_def cong: if_cong)
  then show "logical_page ro p = logical_page s p" "disk_used ro = disk_used s"
    by (simp_all add: logical_page_def disk_used_def ext_bitmap_def)
qed

lemma Close_file [simp]: "db_file (DiskManager_Close s) = db_file s" "file_size (DiskManager_Close s) = file_size s"
  by (simp_all add: DiskManager_Close_def)

text \<open>What closing leaves on the disk: every page of the pool, the catalog's metadata in page 0.\<close>

lemma destroy_ok:
  assumes inv: "pool_inv (cat_bpm c)" and dr: "disk_reachable (disk (cat_bpm c))" and st: "stored_catalog c"
    and ps: "set ps = dom (page_table (cat_bpm c))" and d: "db_catalog d = c"
  shows "\<exists>s. DBStorageEngine_destroy ps d = Inr (DiskManager_Close s) \<and> disk_reachable s \<and> disk_used s = disk_used (disk (cat_bpm c)) \<and>
    CatalogMeta_DeserializeFrom (logical_page s CATALOG_META_PAGE_ID) 0 = Inr (cat_meta c) \<and>
    (\<forall>(k, p) \<in> set (table_meta_pages (cat_meta c)). valid_pid p \<and>
       load_table_metadata (logical_page s p) 0 = Inr (ti_meta (the_info c k)))"
proof -
  let ?b = "cat_bpm c"
  have ok: "bpm_ok ?b" using inv by (simp add: pool_inv_def)
  obtain f where f: "page_table ?b CATALOG_META_PAGE_ID = Some f" using st by (auto simp: stored_catalog_def)
  obtain b where b: "FlushCatalogMetaPage c = Inr (DB_SUCCESS, c\<lparr>cat_bpm := b\<rparr>)" "bpm_ok b" "page_table b = page_table ?b"
    "CatalogMeta_DeserializeFrom (page_mem b f) 0 = Inr (cat_meta c)" "\<forall>g. g \<noteq> f \<longrightarrow> page_mem b g = page_mem ?b g"
    "disk_used (disk b) = disk_used (disk ?b)" "disk_reachable (disk b)"
    using flush_catalog [OF ok _ f] st dr by (auto simp: stored_catalog_def)
  have "set ps \<subseteq> dom (page_table b)" using ps b(3) by simp
  from flush_all_ok [OF b(2) this b(7)] obtain b' where b': "flush_all b ps = Inr b'" "disk_reachable (disk b')"
    "disk_used (disk b') = disk_used (disk b)" "\<And>q. valid_pid q \<Longrightarrow> q \<in> set ps \<Longrightarrow> logical_page (disk b') q = page_view b q" by auto
  have lp: "valid_pid q" "logical_page (disk b') q = page_view b q" if "page_table ?b q = Some g" for q g
    using resident_facts(5) [OF ok that] b'(4) [of q] that ps by auto
  have "CatalogMeta_DeserializeFrom (logical_page (disk b') CATALOG_META_PAGE_ID) 0 = Inr (cat_meta c)"
    using lp(2) [OF f] b(3,4) f page_view_resident [of b] by simp
  moreover have "valid_pid p \<and> load_table_metadata (logical_page (disk b') p) 0 = Inr (ti_meta (the_info c k))"
    if kp: "(k, p) \<in> set (table_meta_pages (cat_meta c))" for k p
    using stored_pages_kept [OF ok st f b(3,5) kp] stored_info(6) [OF st kp] lp [of p] by auto
  ultimately show ?thesis using b b' d
    by (intro exI [of _ "disk b'"]) (auto simp: DBStorageEngine_destroy_def CatalogManager_destroy_def)
qed

lemma reopen_ok:
  assumes dr: "disk_reachable s" and used: "{CATALOG_META_PAGE_ID, INDEX_ROOTS_PAGE_ID} \<subseteq> disk_used s"
    and meta: "CatalogMeta_DeserializeFrom (logical_page s CATALOG_META_PAGE_ID) 0 = Inr (cat_meta c)" and st: "stored_catalog c"
    and tabs: "\<forall>(k, p) \<in> set (table_meta_pages (cat_meta c)). valid_pid p \<and> load_table_metadata (logical_page s p) 0 = Inr (ti_meta (the_info c k))"
    and n: "length (table_meta_pages (cat_meta c)) + 1 < n"
  shows "\<exists>c2. DBStorageEngine name False n (db_file s) (file_size s) =
      Inr \<lparr>db_catalog = c2, db_file_name = ''./databases/'' @ name, db_init = False\<rparr> \<and> cat_meta c2 = cat_meta c \<and>
    (\<forall>t. fst (GetTable c2 t) = fst (stored_answer c t) \<and> fst (snd (GetTable c2 t)) = snd (stored_answer c t)) \<and>
    (\<exists>f b. NewPage (cat_bpm c2) = Inr (Some (f, CATALOG_META_PAGE_ID), b))"
proof -
  define ro where "ro = DiskManager_open (db_file s) (file_size s)"
  note R = reopened_disk [OF dr, folded ro_def]
  let ?b = "BufferPoolManager n ro" and ?ts = "table_meta_pages (cat_meta c)"
  define j where "j = n - length ?ts - 2"
  have "n = Suc (length ?ts + Suc j)" using n by (simp add: j_def)
  then have c0: "cold ro (Suc (length ?ts + Suc j)) ?b" using cold_new [OF R(1), of n] by simp
  have v: "valid_pid CATALOG_META_PAGE_ID" "valid_pid INDEX_ROOTS_PAGE_ID" using used by (auto simp: disk_used_def valid_pid_def)
  have fr: "BPM_IsPageFree ?b CATALOG_META_PAGE_ID = (False, ?b)" "BPM_IsPageFree ?b INDEX_ROOTS_PAGE_ID = (False, ?b)"
    using cold_IsPageFree [OF c0] v used R(4) by auto
  have "reopened.holds_tables ro c ?ts"
    unfolding reopened.holds_tables_def using tabs R(3) stored_info(2,3) [OF st] by auto
  from reopened.CatalogManager_spec [OF c0 _ _ _ this] obtain c2 where
    c2: "CatalogManager ?b False = Inr c2" "cat_meta c2 = cat_meta c" "cold ro (Suc j) (cat_bpm c2)"
      "table_names c2 = fold (\<lambda>x. AList.update (GetTableName (the_info c (fst x))) (fst x)) ?ts []"
      "tables c2 = fold (\<lambda>x. AList.update (fst x) (Some (the_info c (fst x)))) ?ts []"
    using v(1) meta R(3) st by (auto simp: stored_catalog_def)
  have "DBStorageEngine name False n (db_file s) (file_size s) = Inr \<lparr>db_catalog = c2, db_file_name = ''./databases/'' @ name, db_init = False\<rparr>"
    using fr c2(1) by (simp add: DBStorageEngine_def Let_def expect_page_free_def flip: ro_def)
  then show ?thesis using c2(2) reloaded_tables [OF st c2(4,5)] cold_NewPage [OF c2(3) R(2)] by blast
qed

section \<open>A new database\<close>

lemma first_bitmap:
  "bitmap_AllocatePage PAGE_SIZE (bitmap_load zero_mem) = (True, 0, (mark_page (bitmap_load zero_mem) 0)\<lparr>next_free_page := 1\<rparr>)"
proof -
  have "search_free PAGE_SIZE (mark_page (bitmap_load zero_mem) 0) 0 = Some 1"
    by (simp add: search_free.simps bitmap_IsPageFree_def IsPageFreeLow_def mark_page_def bitmap_load_def zero_mem_def rd32_zero [unfolded zero_mem_def]
        MAX_CHARS_def PAGE_SIZE_def)
  then show ?thesis
    by (simp add: bitmap_AllocatePage_def bitmap_IsPageFree_def IsPageFreeLow_def bitmap_load_def zero_mem_def Let_def
        rd32_zero [unfolded zero_mem_def])
qed

lemma bitmap_AllocatePage_offset: "fst (snd (bitmap_AllocatePage ps b)) = next_free_page b"
  by (simp add: bitmap_AllocatePage_def Let_def split: option.split)

text \<open>The second page of a new file is page 1.\<close>

lemma second_allocation_page_one:
  "fst (DiskManager_AllocatePage (snd (DiskManager_AllocatePage (DiskManager_open content 0)))) = 1"
proof -
  let ?o = "DiskManager_open content 0" and ?bm = "(mark_page (bitmap_load zero_mem) 0)\<lparr>next_free_page := 1\<rparr>"
  have io: "io_ok ?o" using disk_okD(1) [OF open_empty_ok] .
  have scan: "scan_extents (meta_data ?o) 0 = (0, False)"
    by (subst scan_extents.simps) (simp add: open_empty_eq meta_load_def)
  let ?s = "WritePhysicalPage (?o\<lparr>meta_data := alloc_meta (meta_data ?o) 0 False\<rparr>) (bitmap_addr 0) (bitmap_store ?bm)"
  have s: "snd (DiskManager_AllocatePage ?o) = ?s"
    using DiskManager_AllocatePage_eq [OF io scan, of True 0 ?bm] first_bitmap by (simp add: start_bitmap_def GetMaxSupportedSize_def MAX_CHARS_def PAGE_SIZE_def)
  have io': "io_ok ?s" using io bitmap_addr_bounds [of 0] by (simp add: WritePhysicalPage_io_ok)
  have meta: "meta_data ?s = alloc_meta (meta_load zero_mem) 0 False"
    by (simp add: WritePhysicalPage_def Let_def open_empty_eq)
  have scan': "scan_extents (meta_data ?s) 0 = (0, True)"
    unfolding meta by (subst scan_extents.simps) (simp add: alloc_meta_def meta_load_def GetExtentUsedPage_def GetMaxSupportedSize_def MAX_CHARS_def PAGE_SIZE_def)
  have "start_bitmap ?s 0 True = clip_bitmap ?bm"
    using ext_bitmap_write [of "?o\<lparr>meta_data := alloc_meta (meta_data ?o) 0 False\<rparr>" 0 0 ?bm] io by (simp add: start_bitmap_def)
  then have "fst (snd (bitmap_AllocatePage PAGE_SIZE (start_bitmap ?s 0 True))) = 1"
    by (simp add: bitmap_AllocatePage_offset clip_bitmap_def)
  then obtain r b where "bitmap_AllocatePage PAGE_SIZE (start_bitmap ?s 0 True) = (r, 1, b)" by (metis prod.collapse)
  from DiskManager_AllocatePage_eq [OF io' scan' _ this] show ?thesis by (simp add: s GetMaxSupportedSize_def MAX_CHARS_def PAGE_SIZE_def)
qed

text \<open>A page taken from the free list of a pool: the disk only allocates it.\<close>

lemma roomy_NewPage_disk:
  assumes "roomy b (Suc k)" and "NewPage b = Inr (Some (f, p), b')"
  shows "DiskManager_AllocatePage (disk b) = (p, disk b')" and "dom (page_table b) \<subseteq> dom (page_table b')"
proof -
  have ok: "bpm_ok b" using assms(1) by (simp add: roomy_def pool_inv_def)
  obtain g fs where fl: "free_list b = g # fs" using assms(1) by (cases "free_list b") (auto simp: roomy_def)
  then have g: "\<not> is_dirty (pages b ! g)" "page_id_of (pages b ! g) = INVALID_PAGE_ID" using bpm_okD(5,6) [OF ok] by (auto simp: frame_ok_def)
  then show "DiskManager_AllocatePage (disk b) = (p, disk b')" using assms(2) fl
    by (auto simp: NewPage_def pick_frame_def retable_def split: if_splits prod.splits)
  have "page_table b INVALID_PAGE_ID = None" using resident_facts(5) [OF ok, of INVALID_PAGE_ID]
    by (cases "page_table b INVALID_PAGE_ID") (auto simp: valid_pid_def INVALID_PAGE_ID_def)
  then show "dom (page_table b) \<subseteq> dom (page_table b')" using assms(2) fl g
    by (auto simp: NewPage_def pick_frame_def retable_def split: if_splits prod.splits)
qed

lemma roomy_new_page:
  assumes r: "roomy b (Suc k)" and dr: "disk_reachable (disk b)"
  obtains f b' where "NewPage b = Inr (Some (f, fst (DiskManager_AllocatePage (disk b))), b')" and "roomy b' k"
    and "disk b' = snd (DiskManager_AllocatePage (disk b))" and "disk_reachable (disk b')"
    and "\<And>q. valid_pid q \<Longrightarrow> logical_page (disk b') q = logical_page (disk b) q"
proof -
  obtain f p b' where n: "NewPage b = Inr (Some (f, p), b')" "roomy b' k" using roomy_NewPage [OF r] by blast
  have inv: "bpm_ok b" "table_used b" using r by (simp_all add: roomy_def pool_inv_def)
  note a = roomy_NewPage_disk(1) [OF r n(1)]
  then have p: "p = fst (DiskManager_AllocatePage (disk b))" "disk b' = snd (DiskManager_AllocatePage (disk b))" by simp_all
  show ?thesis
  proof (rule that)
    show "NewPage b = Inr (Some (f, fst (DiskManager_AllocatePage (disk b))), b')" using n(1) p(1) by simp
    show "disk_reachable (disk b')" unfolding p(2) by (rule dr_alloc [OF dr roomy_room(1) [OF r]])
    show "logical_page (disk b') q = logical_page (disk b) q" if "valid_pid q" for q
      by (rule NewPage_fresh(6) [OF inv(1) roomy_room(1) [OF r] inv(2) a that])
  qed (fact n(2) p(2))+
qed

lemma unpin_unchanged:
  assumes r: "roomy b k" and "page_table b p = Some f" and "page_mem b f = logical_page (disk b) p"
  shows "roomy (snd (UnpinPage b p False)) k" and "page_mem (snd (UnpinPage b p False)) = page_mem b"
proof -
  have inv: "bpm_ok b" "synced b" "table_used b" using r by (simp_all add: roomy_def pool_inv_def)
  have "honest_unpin b p False" using assms(2,3) by (simp add: honest_unpin_def page_mem_def)
  from UnpinPage_synced [OF inv(1,2) this] UnpinPage_ok [OF inv(1), of p False] show "roomy (snd (UnpinPage b p False)) k"
    using r UnpinPage_table [of b p False] unpin_free_list [of b p False] inv(3) by (simp add: roomy_def pool_inv_def table_used_def unpin_def)
  show "page_mem (snd (UnpinPage b p False)) = page_mem b" using unpin_mem(1) [OF inv(1)] by (auto simp: unpin_def)
qed

text \<open>Creating a database takes the first two pages for the catalog and the index roots.\<close>

lemma database_created:
  assumes n: "n = Suc (Suc k)" "n \<le> 100"
  shows "\<exists>b. DBStorageEngine name True n file len = Inr \<lparr>db_catalog = empty_catalog b, db_file_name = ''./databases/'' @ name, db_init = True\<rparr> \<and>
    roomy b k \<and> disk_reachable (disk b) \<and> {CATALOG_META_PAGE_ID, INDEX_ROOTS_PAGE_ID} \<subseteq> disk_used (disk b) \<and>
    page_table b CATALOG_META_PAGE_ID \<noteq> None"
proof -
  let ?d = "DiskManager_open zero_mem 0"
  let ?b = "BufferPoolManager n ?d"
  have r: "roomy ?b (Suc (Suc k))" using roomy_new_pool n by simp
  have d: "disk ?b = ?d" by (simp add: BufferPoolManager_def)
  have p0: "fst (DiskManager_AllocatePage ?d) = 0"
    using disk_okD(1) [OF open_empty_ok] by (intro first_allocation_page_zero) (simp_all add: open_empty_eq)
  obtain f b1 where b1: "NewPage ?b = Inr (Some (f, 0), b1)" "roomy b1 (Suc k)" "disk b1 = snd (DiskManager_AllocatePage ?d)"
    "disk_reachable (disk b1)" "\<And>q. valid_pid q \<Longrightarrow> logical_page (disk b1) q = logical_page ?d q"
    using roomy_new_page [OF r] dr_open [of zero_mem] p0 by (metis d)
  obtain g b2 where b2: "NewPage b1 = Inr (Some (g, 1), b2)" "roomy b2 k" "disk_reachable (disk b2)"
    "\<And>q. valid_pid q \<Longrightarrow> logical_page (disk b2) q = logical_page (disk b1) q"
    using roomy_new_page [OF b1(2,4)] second_allocation_page_one [of zero_mem] b1(3) by metis
  have inv: "pool_inv ?b" "pool_inv b1" "pool_inv b2" using r b1(2) b2(2) by (simp_all add: roomy_def)
  note P = NewPage_pinned [OF inv(1) roomy_room(1) [OF r] b1(1)] and Q = NewPage_pinned [OF inv(2) roomy_room(1) [OF b1(2)] b2(1)]
  have z: "logical_page (disk b2) q = zero_mem" if "valid_pid q" for q
    using b1(5) b2(4) that by (simp add: logical_page_def phys_page_open_empty)
  have t: "page_table b2 0 = Some f" "page_mem b2 f = zero_mem" "page_table b2 1 = Some g" "page_mem b2 g = zero_mem" "valid_pid 0" "valid_pid 1"
    using Q P(2,3,4,5) by simp_all
  let ?b3 = "snd (UnpinPage b2 0 False)"
  let ?b4 = "snd (UnpinPage ?b3 1 False)"
  note U = unpin_unchanged [OF b2(2) t(1)] and T = UnpinPage_table [of b2 0 False]
  have r3: "roomy ?b3 k" using U(1) z t by simp
  have r4: "roomy ?b4 k" using unpin_unchanged(1) [OF r3, of 1 g] U(2) T z t by simp
  have used: "disk_used ?d = {}" "disk_used (disk b2) = {0, 1}" using P(7) Q(7) d open_empty_used [of zero_mem] by auto
  have ok: "disk_ok ?d" "disk_ok (disk b2)" using open_empty_ok inv(3) bpm_okD(2) by (auto simp: pool_inv_def)
  have free: "BPM_IsPageFree ?b q = (True, ?b)" "BPM_IsPageFree b2 q = (q \<notin> {0, 1}, b2)" if "q = 0 \<or> q = 1" for q
    using DiskManager_IsPageFree_spec [OF ok(1), of q] DiskManager_IsPageFree_spec [OF ok(2), of q] used that t(5,6) d
    by (auto simp: BPM_IsPageFree_def valid_pid_def)
  have "DBStorageEngine name True n file len = Inr \<lparr>db_catalog = empty_catalog ?b4, db_file_name = ''./databases/'' @ name, db_init = True\<rparr>"
    using free b1(1) b2(1) by (simp add: DBStorageEngine_def Let_def expect_page_free_def expect_new_page_def CATALOG_META_PAGE_ID_def
        INDEX_ROOTS_PAGE_ID_def CatalogManager_def)
  moreover have "disk ?b4 = disk b2" "page_table ?b4 = page_table b2" using T UnpinPage_table [of ?b3 1 False] by simp_all
  ultimately show ?thesis using r4 b2(3) used t(1) by (intro exI [of _ ?b4]) (simp add: CATALOG_META_PAGE_ID_def INDEX_ROOTS_PAGE_ID_def)
qed

section \<open>Properties\<close>

text \<open>
  C19 (roundtrip). What a database keeps of its tables when it is closed and opened again. Take a database without
  indexes that keeps the metadata pages of its catalog in the pool, and destroy it, in whatever order the page table
  is traversed. The two static pages are still in use, so constructing the database on the file that is left
  succeeds (with a pool of more frames than metadata pages plus one). The reopened database finds every table that has a
  metadata page under its own name, with the same metadata, heap and schema, and nothing under any other name: of
  several tables created in one database, which all have id 0, only the last one is left, while the closed
  database still answered for the names of the others. Then the first page the reopened database takes is page
  0, the page of its own catalog: the counters of the disk manager were not saved.
\<close>

theorem reopened_database:
  assumes "pool_inv (cat_bpm c)" and "disk_reachable (disk (cat_bpm c))" and "stored_catalog c" and "db_catalog d = c"
    and "{CATALOG_META_PAGE_ID, INDEX_ROOTS_PAGE_ID} \<subseteq> disk_used (disk (cat_bpm c))"
    and "set ps = dom (page_table (cat_bpm c))" and "length (table_meta_pages (cat_meta c)) + 1 < n"
  shows "\<exists>s d'. DBStorageEngine_destroy ps d = Inr s \<and> DBStorageEngine name False n (db_file s) (file_size s) = Inr d' \<and>
    (\<forall>t. fst (GetTable (db_catalog d') t) = fst (stored_answer c t) \<and> fst (snd (GetTable (db_catalog d') t)) = snd (stored_answer c t)) \<and>
    (\<exists>f b. NewPage (cat_bpm (db_catalog d')) = Inr (Some (f, CATALOG_META_PAGE_ID), b))"
proof -
  from destroy_ok [OF assms(1-3,6,4)] obtain s where s: "DBStorageEngine_destroy ps d = Inr (DiskManager_Close s)" "disk_reachable s"
    "disk_used s = disk_used (disk (cat_bpm c))" "CatalogMeta_DeserializeFrom (logical_page s CATALOG_META_PAGE_ID) 0 = Inr (cat_meta c)"
    "\<forall>(k, p) \<in> set (table_meta_pages (cat_meta c)). valid_pid p \<and> load_table_metadata (logical_page s p) 0 = Inr (ti_meta (the_info c k))"
    by blast
  have "{CATALOG_META_PAGE_ID, INDEX_ROOTS_PAGE_ID} \<subseteq> disk_used s" using assms(5) s(3) by simp
  from reopen_ok [OF s(2) this s(4) assms(3) s(5) assms(7), of name] s(1) show ?thesis by force
qed

text \<open>A catalog is stored after the creation of a table.\<close>

lemma created_table_pool:
  assumes "CreateTable c t sch = Inr (DB_SUCCESS, Some info, c')" "NewPage (cat_bpm c) = Inr (Some (f, p), b1)"
    "NewPage b1 = Inr (Some (g, q), b2)"
  shows "disk (cat_bpm c') = disk b2 \<and> page_table (cat_bpm c') = page_table b2 \<and>
    cat_meta c' = (cat_meta c)\<lparr>table_meta_pages := map_put (GetNextTableId (cat_meta c)) p (table_meta_pages (cat_meta c))\<rparr> \<and>
    table_names c' = AList.update t (GetNextTableId (cat_meta c)) (table_names c) \<and>
    tables c' = AList.update (GetNextTableId (cat_meta c)) (Some info) (tables c) \<and> tm_table_id (ti_meta info) = GetNextTableId (cat_meta c) \<and>
    GetTableName info = t \<and> ti_heap info = TableHeap_open (tm_root_page_id (ti_meta info)) (GetSchema info)"
  using assms by (auto simp: CreateTable_def TableHeap_create_def Let_def res_simps put_mem_def GetTableName_def GetSchema_def TableInfo_Init_def
      TableMetadata_Create_def TableHeap_open_def unpin_def UnpinPage_table split: if_splits)

definition new_catalog_ok :: "catalog_manager \<Rightarrow> nat \<Rightarrow> bool" where
  "new_catalog_ok c k \<longleftrightarrow> roomy (cat_bpm c) k \<and> disk_reachable (disk (cat_bpm c)) \<and> index_meta_pages (cat_meta c) = [] \<and>
     {CATALOG_META_PAGE_ID, INDEX_ROOTS_PAGE_ID} \<subseteq> disk_used (disk (cat_bpm c)) \<and> page_table (cat_bpm c) CATALOG_META_PAGE_ID \<noteq> None \<and>
     (table_meta_pages (cat_meta c) = [] \<or> (\<exists>p. table_meta_pages (cat_meta c) = [(0, p)]))"

lemma create_stored:
  assumes ok: "new_catalog_ok c (Suc (Suc k))" and new: "map_of (table_names c) t = None" "length t \<le> 8"
  shows "\<exists>info c' p. CreateTable c t example_schema = Inr (DB_SUCCESS, Some info, c') \<and> GetTableName info = t \<and> GetSchema info = example_schema \<and>
    new_catalog_ok c' k \<and> stored_catalog c' \<and> table_meta_pages (cat_meta c') = [(0, p)] \<and> the_info c' 0 = info \<and>
    table_names c' = AList.update t 0 (table_names c)"
proof -
  let ?b = "cat_bpm c"
  have r: "roomy ?b (Suc (Suc k))" and dr: "disk_reachable (disk ?b)" using ok by (simp_all add: new_catalog_ok_def)
  have id: "GetNextTableId (cat_meta c) = 0" "\<And>p. map_put 0 p (table_meta_pages (cat_meta c)) = [(0, p)]"
    using ok by (auto simp: new_catalog_ok_def GetNextTableId_def map_put_def)
  have fits: "\<forall>q. valid_pid q \<longrightarrow> table_metadata_ok (TableMetadata_Create (GetNextTableId (cat_meta c)) t q example_schema)"
    using example_names_fit [OF new(2)] id by simp
  obtain f p b1 where b1: "NewPage ?b = Inr (Some (f, p), b1)" "roomy b1 (Suc k)" "disk_reachable (disk b1)" using roomy_new_page [OF r dr] by metis
  obtain g q b2 where b2: "NewPage b1 = Inr (Some (g, q), b2)" "disk_reachable (disk b2)" using roomy_new_page [OF b1(2,3)] by metis
  have inv: "pool_inv ?b" "pool_inv b1" using r b1(2) by (simp_all add: roomy_def)
  note P = NewPage_pinned [OF inv(1) roomy_room(1) [OF r] b1(1)] and Q = NewPage_pinned [OF inv(2) roomy_room(1) [OF b1(2)] b2(1)]
  obtain info c' where c: "CreateTable c t example_schema = Inr (DB_SUCCESS, Some info, c')" "GetTableName info = t"
    "GetSchema info = example_schema" "pool_inv (cat_bpm c')" "load_table_metadata (page_view (cat_bpm c') p) 0 = Inr (ti_meta info)"
    using CreateTable_new [OF new(1) inv(1) roomy_room(1) [OF r] b1(1) roomy_room [OF b1(2)] fits, of example_schema] by blast
  have r': "roomy (cat_bpm c') k" using create_table_roomy [OF r new(1) fits] c(1) by (metis Inr_inject prod.inject)
  note C = created_table_pool [OF c(1) b1(1) b2(1), unfolded id]
  have "CATALOG_META_PAGE_ID \<in> disk_used (disk ?b)" using ok by (simp add: new_catalog_ok_def)
  then have p0: "p \<noteq> CATALOG_META_PAGE_ID" using P(6) by auto
  have d: "dom (page_table ?b) \<subseteq> dom (page_table b2)" using roomy_NewPage_disk(2) [OF r b1(1)] roomy_NewPage_disk(2) [OF b1(2) b2(1)] by blast
  have p2: "page_table b2 p \<noteq> None" using Q(8) [OF P(2,4)] by simp
  have n: "new_catalog_ok c' k" using r' ok C b2(2) d P(7) Q(7) by (auto simp: new_catalog_ok_def)
  have t: "map_of (tables c') 0 = Some (Some info)" using C by (simp add: update_conv')
  then have "stored_table c' 0 p" using C p0 p2 c(5) by (simp add: stored_table_def)
  then have "stored_catalog c'"
    using C n P(5) by (auto simp: new_catalog_ok_def stored_catalog_def catalog_meta_ok_def page_map_ok_def PAGE_SIZE_def
        valid_pid_def MAX_LOGICAL_def GetMaxSupportedSize_def MAX_CHARS_def)
  moreover have "the_info c' 0 = info" using t by (simp add: the_info_def)
  ultimately show ?thesis using c C n
    by (intro exI [of _ info] exI [of _ c'] exI [of _ p]) simp
qed

text \<open>Two tables are created; the closed database answers for both names, the reopened one only for the second.\<close>

theorem reopened_database_witness:
  "\<exists>b c1 c t u s d'. DBStorageEngine ''db'' True 10 zero_mem 0 = Inr \<lparr>db_catalog = empty_catalog b, db_file_name = ''./databases/db'', db_init = True\<rparr> \<and>
    CreateTable (empty_catalog b) ''t'' example_schema = Inr (DB_SUCCESS, Some t, c1) \<and> CreateTable c1 ''u'' example_schema = Inr (DB_SUCCESS, Some u, c) \<and>
    fst (GetTable c ''t'') = DB_SUCCESS \<and> GetSchema u = example_schema \<and>
    (\<exists>ps. DBStorageEngine_destroy ps \<lparr>db_catalog = c, db_file_name = ''./databases/db'', db_init = True\<rparr> = Inr s) \<and>
    DBStorageEngine ''db'' False 10 (db_file s) (file_size s) = Inr d' \<and>
    fst (snd (GetTable (db_catalog d') ''u'')) = Some u \<and> fst (GetTable (db_catalog d') ''t'') = DB_TABLE_NOT_EXIST \<and>
    (\<exists>f b. NewPage (cat_bpm (db_catalog d')) = Inr (Some (f, CATALOG_META_PAGE_ID), b))"
proof -
  obtain b where b: "DBStorageEngine ''db'' True 10 zero_mem 0 = Inr \<lparr>db_catalog = empty_catalog b, db_file_name = ''./databases/db'', db_init = True\<rparr>"
    "roomy b 8" "disk_reachable (disk b)" "{CATALOG_META_PAGE_ID, INDEX_ROOTS_PAGE_ID} \<subseteq> disk_used (disk b)" "page_table b CATALOG_META_PAGE_ID \<noteq> None"
    using database_created [of 10 8 "''db''" zero_mem 0] by auto
  have e: "new_catalog_ok (empty_catalog b) (Suc (Suc 6))" "table_names (empty_catalog b) = []"
    using b(2-5) by (simp_all add: new_catalog_ok_def empty_catalog_def CatalogMeta_NewInstance_def)
  obtain t c1 p1 where c1: "CreateTable (empty_catalog b) ''t'' example_schema = Inr (DB_SUCCESS, Some t, c1)" "new_catalog_ok c1 (Suc (Suc 4))"
    "table_names c1 = [(''t'', 0)]" using create_stored [OF e(1), of "''t''"] e(2) by (auto simp: numeral_eq_Suc)
  obtain u c p where c: "CreateTable c1 ''u'' example_schema = Inr (DB_SUCCESS, Some u, c)" "new_catalog_ok c 4" "stored_catalog c"
    "table_meta_pages (cat_meta c) = [(0, p)]" "the_info c 0 = u" "table_names c = [(''t'', 0), (''u'', 0)]" "GetTableName u = ''u''" "GetSchema u = example_schema"
    using create_stored [OF c1(2), of "''u''"] c1(3) by auto
  let ?d = "\<lparr>db_catalog = c, db_file_name = ''./databases/db'', db_init = True\<rparr>"
  have inv: "pool_inv (cat_bpm c)" "disk_reachable (disk (cat_bpm c))" "{CATALOG_META_PAGE_ID, INDEX_ROOTS_PAGE_ID} \<subseteq> disk_used (disk (cat_bpm c))"
    using c(2) by (simp_all add: new_catalog_ok_def roomy_def)
  have "finite (dom (page_table (cat_bpm c)))"
    by (rule finite_subset [of _ "disk_used (disk (cat_bpm c))"], use inv(1) in \<open>simp add: pool_inv_def table_used_def\<close>)
      (rule finite_subset [of _ "{0..<MAX_LOGICAL}"], auto simp: disk_used_def)
  then obtain ps where ps: "set ps = dom (page_table (cat_bpm c))" using finite_list by metis
  have "db_catalog ?d = c" "length (table_meta_pages (cat_meta c)) + 1 < 10" using c(4) by simp_all
  from reopened_database [OF inv(1,2) c(3) this(1) inv(3) ps this(2), of "''db''"] obtain s d' where
    s: "DBStorageEngine_destroy ps ?d = Inr s" "DBStorageEngine ''db'' False 10 (db_file s) (file_size s) = Inr d'"
      "\<forall>t. fst (GetTable (db_catalog d') t) = fst (stored_answer c t) \<and> fst (snd (GetTable (db_catalog d') t)) = snd (stored_answer c t)"
      "\<exists>f b. NewPage (cat_bpm (db_catalog d')) = Inr (Some (f, CATALOG_META_PAGE_ID), b)" by blast
  have "stored_answer c ''u'' = (DB_SUCCESS, Some u)" "stored_answer c ''t'' = (DB_TABLE_NOT_EXIST, None)"
    using c(4,5,7) by (simp_all add: stored_answer_def)
  moreover have "fst (GetTable c ''t'') = DB_SUCCESS" using c(6) by (simp add: GetTable_def split: prod.splits)
  ultimately show ?thesis using b(1) c1(1) c(1,8) s
    by (intro exI [of _ b] exI [of _ c1] exI [of _ c] exI [of _ t] exI [of _ u] exI [of _ s] exI [of _ d']) auto
qed

end
