(* ===== verification/Tree_Debug.thy ===== *)
theory Tree_Debug
  imports Catalog Numerals
begin

text \<open>
  The rest of src/MiniSQL/src/index/b_plus_tree.cpp: the private helpers, which are placeholders, and the debug
  output of a tree, \<^verbatim>\<open>ToGraph\<close>, \<^verbatim>\<open>ToString\<close> and \<^verbatim>\<open>PrintTree\<close> (include/index/b_plus_tree.h). These walk over the
  pages of a tree through the buffer pool and may run forever when the pages form a cycle. A page pointer is
  the frame it points into. \<^verbatim>\<open>KeyAt\<close> returns a pointer, so what is printed for a key is an address: \<open>ptr f o\<close>
  is the text of the address at offset \<open>o\<close> of frame \<open>f\<close>.
\<close>

section \<open>Helpers that are not implemented\<close>

definition BPlusTree_StartNewTree :: "b_plus_tree \<Rightarrow> mem \<Rightarrow> rowid \<Rightarrow> b_plus_tree" where
  "BPlusTree_StartNewTree t key value = t"

definition BPlusTree_Split_internal :: "b_plus_tree \<Rightarrow> frame_id \<Rightarrow> frame_id option \<times> b_plus_tree" where
  "BPlusTree_Split_internal t node = (None, t)"

definition BPlusTree_Split_leaf :: "b_plus_tree \<Rightarrow> frame_id \<Rightarrow> frame_id option \<times> b_plus_tree" where
  "BPlusTree_Split_leaf t node = (None, t)"

definition BPlusTree_InsertIntoParent :: "b_plus_tree \<Rightarrow> frame_id \<Rightarrow> mem \<Rightarrow> frame_id \<Rightarrow> b_plus_tree" where
  "BPlusTree_InsertIntoParent t old_node key new_node = t"

definition BPlusTree_CoalesceOrRedistribute :: "b_plus_tree \<Rightarrow> frame_id \<Rightarrow> bool \<times> b_plus_tree" where
  "BPlusTree_CoalesceOrRedistribute t node = (False, t)"

definition BPlusTree_Coalesce_leaf :: "b_plus_tree \<Rightarrow> frame_id \<Rightarrow> frame_id \<Rightarrow> frame_id \<Rightarrow> int \<Rightarrow> bool \<times> b_plus_tree" where
  "BPlusTree_Coalesce_leaf t neighbor_node node parent index = (False, t)"

definition BPlusTree_Coalesce_internal :: "b_plus_tree \<Rightarrow> frame_id \<Rightarrow> frame_id \<Rightarrow> frame_id \<Rightarrow> int \<Rightarrow> bool \<times> b_plus_tree" where
  "BPlusTree_Coalesce_internal t neighbor_node node parent index = (False, t)"

definition BPlusTree_Redistribute_leaf :: "b_plus_tree \<Rightarrow> frame_id \<Rightarrow> frame_id \<Rightarrow> int \<Rightarrow> b_plus_tree" where
  "BPlusTree_Redistribute_leaf t neighbor_node node index = t"

definition BPlusTree_Redistribute_internal :: "b_plus_tree \<Rightarrow> frame_id \<Rightarrow> frame_id \<Rightarrow> int \<Rightarrow> b_plus_tree" where
  "BPlusTree_Redistribute_internal t neighbor_node node index = t"

definition BPlusTree_AdjustRoot :: "b_plus_tree \<Rightarrow> frame_id \<Rightarrow> bool \<times> b_plus_tree" where
  "BPlusTree_AdjustRoot t old_root_node = (False, t)"

definition BPlusTree_UpdateRootPageId :: "b_plus_tree \<Rightarrow> int \<Rightarrow> b_plus_tree" where
  "BPlusTree_UpdateRootPageId t insert_record = t"

section \<open>The tree as a graph\<close>

type_synonym address_text = "frame_id \<Rightarrow> nat \<Rightarrow> string"

definition quoted :: "string \<Rightarrow> string" where
  "quoted s = [CHR 0x22] @ s @ [CHR 0x22]"

definition newline :: string where
  "newline = [CHR 0x0A]"

text \<open>The header of the table of a page, the same for both kinds of pages.\<close>

definition table_head :: "mem \<Rightarrow> string" where
  "table_head m = ''label=<<TABLE BORDER='' @ quoted ''0'' @ '' CELLBORDER='' @ quoted ''1'' @ '' CELLSPACING='' @ quoted ''0'' @
       '' CELLPADDING='' @ quoted ''4'' @ ''>'' @ newline @
     ''<TR><TD COLSPAN='' @ quoted (int_text (GetSize m)) @ ''>P='' @ int_text (TreePage_GetPageId m) @
       '',Parent='' @ int_text (GetParentPageId m) @ ''</TD></TR>'' @ newline @
     ''<TR><TD COLSPAN='' @ quoted (int_text (GetSize m)) @ ''>max_size='' @ int_text (GetMaxSize m) @
       '',min_size='' @ int_text (GetMinSize m) @ '',size='' @ int_text (GetSize m) @ ''</TD></TR>'' @ newline @ ''<TR>''"

definition leaf_graph :: "address_text \<Rightarrow> frame_id \<Rightarrow> mem \<Rightarrow> string" where
  "leaf_graph ptr f m = (let this = ''LEAF_'' @ int_text (TreePage_GetPageId m); nxt = ''LEAF_'' @ int_text (LeafPage_GetNextPageId m) in
     this @ ''[shape=plain color=green '' @ table_head m @
     concat (map (\<lambda>i. ''<TD>'' @ ptr f (leaf_pair_at m i) @ ''</TD>'' @ newline) [0..<nat (GetSize m)]) @ ''</TR>'' @ ''</TABLE>>];'' @ newline @
     (if LeafPage_GetNextPageId m \<noteq> INVALID_PAGE_ID
      then this @ '' -> '' @ nxt @ '';'' @ newline @ ''{rank=same '' @ this @ '' '' @ nxt @ ''};'' @ newline else []) @
     (if GetParentPageId m \<noteq> INVALID_PAGE_ID
      then ''INT_'' @ int_text (GetParentPageId m) @ '':p'' @ int_text (TreePage_GetPageId m) @ '' -> '' @ this @ '';'' @ newline else []))"

definition inner_graph :: "address_text \<Rightarrow> frame_id \<Rightarrow> mem \<Rightarrow> string" where
  "inner_graph ptr f m = (let this = ''INT_'' @ int_text (TreePage_GetPageId m) in
     this @ ''[shape=plain color=pink '' @ table_head m @
     concat (map (\<lambda>i. ''<TD PORT='' @ quoted (''p'' @ int_text (InternalPage_ValueAt m i)) @ ''>'' @
       (if i > 0 then ptr f (internal_pair_at m i) else '' '') @ ''</TD>'' @ newline) [0..<nat (GetSize m)]) @ ''</TR>'' @ ''</TABLE>>];'' @ newline @
     (if GetParentPageId m \<noteq> INVALID_PAGE_ID
      then ''INT_'' @ int_text (GetParentPageId m) @ '':p'' @ int_text (TreePage_GetPageId m) @ '' -> '' @ this @ '';'' @ newline else []))"

definition rank_same :: "mem \<Rightarrow> mem \<Rightarrow> string" where
  "rank_same sibling child = (if \<not> IsLeafPage sibling \<and> \<not> IsLeafPage child
     then ''{rank=same INT_'' @ int_text (TreePage_GetPageId sibling) @ '' INT_'' @ int_text (TreePage_GetPageId child) @ ''};'' @ newline else [])"

text \<open>
  \<^verbatim>\<open>ToGraph\<close> on the page in frame \<open>f\<close> (\<open>None\<close>), and its loop over the children from child \<open>i\<close> on
  (\<open>Some i\<close>). The page is unpinned at the end; the child is read again after the recursive call, which
  unpinned it.
\<close>

partial_function (option) ToGraph :: "address_text \<Rightarrow> frame_id \<Rightarrow> nat option \<Rightarrow> bpm \<Rightarrow> (string \<times> bpm) res option" where
  "ToGraph ptr f c b = (case c of
     None \<Rightarrow>
       if IsLeafPage (page_mem b f) then Some (Inr (leaf_graph ptr f (page_mem b f), unpin b (TreePage_GetPageId (page_mem b f)) False))
       else ro_bind (ToGraph ptr f (Some 0) b) (\<lambda>(t, b1).
         Some (Inr (inner_graph ptr f (page_mem b f) @ t, unpin b1 (TreePage_GetPageId (page_mem b1 f)) False)))
   | Some i \<Rightarrow>
       if int i < GetSize (page_mem b f) then
         ro_bind (Some (fetch_data b (InternalPage_ValueAt (page_mem b f) i))) (\<lambda>(g, _, b1).
         ro_bind (ToGraph ptr g None b1) (\<lambda>(t, b2).
         ro_bind (if i > 0
             then ro_bind (Some (fetch_data b2 (InternalPage_ValueAt (page_mem b2 f) (i - 1)))) (\<lambda>(s, sm, b3).
               Some (Inr (rank_same sm (page_mem b3 g), unpin b3 (TreePage_GetPageId sm) False)))
             else Some (Inr ([], b2))) (\<lambda>(r, b4).
         ro_bind (ToGraph ptr f (Some (i + 1)) b4) (\<lambda>(ts, b5). Some (Inr (t @ r @ ts, b5))))))
       else Some (Inr ([], b)))"

definition BPlusTree_PrintTree :: "address_text \<Rightarrow> b_plus_tree \<Rightarrow> bpm \<Rightarrow> (string \<times> bpm) res option" where
  "BPlusTree_PrintTree ptr t b = (if BPlusTree_IsEmpty t then Some (Inr ([], b))
     else ro_bind (Some (fetch_data b (root_page_id t))) (\<lambda>(f, _, b1).
       ro_bind (ToGraph ptr f None b1) (\<lambda>(g, b2). Some (Inr (''digraph G {'' @ newline @ g @ ''}'' @ newline, b2)))))"

section \<open>The tree as text\<close>

definition leaf_string :: "address_text \<Rightarrow> frame_id \<Rightarrow> mem \<Rightarrow> string" where
  "leaf_string ptr f m = ''Leaf Page: '' @ int_text (TreePage_GetPageId m) @ '' parent: '' @ int_text (GetParentPageId m) @
     '' next: '' @ int_text (LeafPage_GetNextPageId m) @ newline @
     concat (map (\<lambda>i. ptr f (leaf_pair_at m i) @ '','') [0..<nat (GetSize m)]) @ newline @ newline"

definition inner_string :: "address_text \<Rightarrow> frame_id \<Rightarrow> mem \<Rightarrow> string" where
  "inner_string ptr f m = ''Internal Page: '' @ int_text (TreePage_GetPageId m) @ '' parent: '' @ int_text (GetParentPageId m) @ newline @
     concat (map (\<lambda>i. ptr f (internal_pair_at m i) @ '': '' @ int_text (InternalPage_ValueAt m i) @ '','') [0..<nat (GetSize m)]) @ newline @ newline"

partial_function (option) ToString :: "address_text \<Rightarrow> frame_id \<Rightarrow> nat option \<Rightarrow> bpm \<Rightarrow> (string \<times> bpm) res option" where
  "ToString ptr f c b = (case c of
     None \<Rightarrow>
       if IsLeafPage (page_mem b f) then Some (Inr (leaf_string ptr f (page_mem b f), b))
       else ro_bind (ToString ptr f (Some 0) b) (\<lambda>(t, b1). Some (Inr (inner_string ptr f (page_mem b f) @ t, b1)))
   | Some i \<Rightarrow>
       if int i < GetSize (page_mem b f) then
         ro_bind (Some (fetch_data b (InternalPage_ValueAt (page_mem b f) i))) (\<lambda>(g, _, b1).
         ro_bind (ToString ptr g None b1) (\<lambda>(t, b2).
         ro_bind (ToString ptr f (Some (i + 1)) (unpin b2 (InternalPage_ValueAt (page_mem b2 f) i) False)) (\<lambda>(ts, b3).
           Some (Inr (t @ ts, b3)))))
       else Some (Inr ([], b)))"

section \<open>Pins are given back\<close>

text \<open>A pool that differs from \<open>b\<close> in nothing but the order of the replacer; one where frame \<open>f\<close> has a pin more.\<close>

definition same_pool :: "bpm \<Rightarrow> bpm \<Rightarrow> bool" where
  "same_pool b b' \<longleftrightarrow> bpm_ok b' \<and> (\<exists>r. b' = b\<lparr>repl := r\<rparr>)"

definition pinned_pool :: "frame_id \<Rightarrow> bpm \<Rightarrow> bpm \<Rightarrow> bool" where
  "pinned_pool f b b' \<longleftrightarrow> bpm_ok b' \<and> (\<exists>r. b' = (upd_page f (\<lambda>pg. pg\<lparr>pin_count := pin_count pg + 1\<rparr>) b)\<lparr>repl := r\<rparr>)"

lemma same_pool_refl: "bpm_ok b \<Longrightarrow> same_pool b b"
  unfolding same_pool_def by (simp add: exI [of _ "repl b"])

lemma same_pool_trans: "same_pool b c \<Longrightarrow> same_pool c d \<Longrightarrow> same_pool b d"
  by (auto simp: same_pool_def)

lemma same_poolD: "same_pool b c \<Longrightarrow> bpm_ok c \<and> page_table c = page_table b \<and> page_mem c = page_mem b \<and> pages c = pages b"
  by (auto simp: same_pool_def page_mem_def)

lemma pinned_poolD: "pinned_pool f b c \<Longrightarrow> f < length (pages b) \<Longrightarrow> bpm_ok c \<and> page_table c = page_table b \<and> page_mem c = page_mem b"
  by (auto simp: pinned_pool_def page_mem_def)

lemma fetch_pins:
  assumes ok: "bpm_ok b" and t: "page_table b p = Some f"
  obtains b1 where "fetch_data b p = Inr (f, page_mem b f, b1)" and "pinned_pool f b b1"
proof -
  note R = resident_facts [OF ok t]
  let ?b = "(upd_page f (\<lambda>pg. pg\<lparr>pin_count := pin_count pg + 1\<rparr>) b)\<lparr>repl := LRUReplacer_Pin f (repl b), disk := disk b\<rparr>"
  have "bpm_ok ?b"
    by (rule upd_resident_ok [OF ok t]) (use R bpm_okD(2,3) [OF ok] lru.pin_inv lru.pin_frames in auto)
  then have "pinned_pool f b ?b" unfolding pinned_pool_def by (intro conjI exI [of _ "LRUReplacer_Pin f (repl b)"]) (simp_all add: upd_page_def)
  moreover have "fetch_data b p = Inr (f, page_mem b f, ?b)" using R(2) by (simp add: fetch_data_def FetchPage_hit [OF ok t] page_mem_def)
  ultimately show ?thesis using that by blast
qed

lemma unpin_gives_back:
  assumes ok: "bpm_ok b" and t: "page_table b p = Some f" and c: "pinned_pool f b c" and d: "same_pool c d"
  shows "same_pool b (unpin d p False)"
proof -
  note R = resident_facts [OF ok t]
  obtain r where D: "d = (upd_page f (\<lambda>pg. pg\<lparr>pin_count := pin_count pg + 1\<rparr>) b)\<lparr>repl := r\<rparr>" "bpm_ok d"
    using c d by (auto simp: pinned_pool_def same_pool_def)
  have ok': "bpm_ok (unpin d p False)" unfolding unpin_def by (rule UnpinPage_ok [OF D(2)])
  have td: "page_table d p = Some f" using D(1) t by simp
  have pg: "pages d ! f = (pages b ! f)\<lparr>pin_count := pin_count (pages b ! f) + 1\<rparr>" using D(1) R(2) by simp
  have "\<exists>q. unpin d p False = (upd_page f (\<lambda>pg. (pages b) ! f) d)\<lparr>repl := q\<rparr>"
    using UnpinPage_resident [OF D(2) td, of False] pg R(6) by (auto simp: unpin_def Let_def upd_page_def intro: exI [of _ "repl d"])
  then obtain q where "unpin d p False = (upd_page f (\<lambda>pg. pages b ! f) d)\<lparr>repl := q\<rparr>" ..
  then have "unpin d p False = b\<lparr>repl := q\<rparr>" using R(2) by (simp add: D(1) upd_page_def list_update_overwrite)
  then show ?thesis using ok' by (auto simp: same_pool_def)
qed

text \<open>A tree whose pages are all in the pool, each holding its own page id.\<close>

inductive tree_at :: "bpm \<Rightarrow> page_id \<Rightarrow> frame_id \<Rightarrow> bool" for b where
  leaf: "page_table b p = Some f \<Longrightarrow> TreePage_GetPageId (page_mem b f) = p \<Longrightarrow> IsLeafPage (page_mem b f) \<Longrightarrow> tree_at b p f"
| inner: "page_table b p = Some f \<Longrightarrow> TreePage_GetPageId (page_mem b f) = p \<Longrightarrow> \<not> IsLeafPage (page_mem b f) \<Longrightarrow>
    (\<And>i. int i < GetSize (page_mem b f) \<Longrightarrow> \<exists>g. tree_at b (InternalPage_ValueAt (page_mem b f) i) g) \<Longrightarrow> tree_at b p f"

inductive_cases tree_atE: "tree_at b p f"

lemma tree_at_page: "tree_at b p f \<Longrightarrow> page_table b p = Some f \<and> TreePage_GetPageId (page_mem b f) = p"
  by (auto elim: tree_atE)

text \<open>The pools the walk goes through: those with the pages of \<open>b0\<close>.\<close>

definition like :: "bpm \<Rightarrow> bpm \<Rightarrow> bool" where
  "like b0 b \<longleftrightarrow> bpm_ok b \<and> page_table b = page_table b0 \<and> page_mem b = page_mem b0"

lemma like_same: "like b0 b \<Longrightarrow> same_pool b c \<Longrightarrow> like b0 c"
  using same_poolD by (auto simp: like_def)

lemma like_pinned: "like b0 b \<Longrightarrow> page_table b0 p = Some f \<Longrightarrow> pinned_pool f b c \<Longrightarrow> like b0 c"
  using pinned_poolD [of f b c] resident_facts(2) [of b p f] by (auto simp: like_def)

lemma like_fetch:
  assumes "like b0 b" and "page_table b0 p = Some f"
  obtains c where "fetch_data b p = Inr (f, page_mem b0 f, c)" and "pinned_pool f b c" and "like b0 c"
  using fetch_pins [of b p f] like_pinned [OF assms] assms by (metis like_def)

lemma like_unpin:
  assumes "like b0 b" and "page_table b0 p = Some f" and "pinned_pool f b c" and "same_pool c d"
  shows "same_pool b (unpin d p False)"
  using unpin_gives_back [OF _ _ assms(3,4)] assms(1,2) by (auto simp: like_def)

text \<open>The loop over the children of a page, for a walk that gives back the pin of every child.\<close>

lemma ToString_returns:
  assumes "tree_at b0 p f" "like b0 b"
  shows "\<exists>t b'. ToString ptr f None b = Some (Inr (t, b')) \<and> same_pool b b'"
  using assms
proof (induction arbitrary: b rule: tree_at.induct)
  case (leaf p f)
  then show ?case by (auto simp: ToString.simps [of _ _ None] like_def intro: same_pool_refl)
next
  case (inner p f)
  let ?m = "page_mem b0 f"
  have loop: "\<exists>t c'. ToString ptr f (Some i) c = Some (Inr (t, c')) \<and> same_pool c c'" if "like b0 c" for i c
    using that
  proof (induction "nat (GetSize ?m) - i" arbitrary: i c rule: less_induct)
    case less
    have m: "page_mem c f = ?m" "bpm_ok c" using less.prems by (simp_all add: like_def)
    show ?case
    proof (cases "int i < GetSize ?m")
      case True
      let ?q = "InternalPage_ValueAt ?m i"
      obtain g where g: "tree_at b0 ?q g" "\<And>b. like b0 b \<Longrightarrow> \<exists>t b'. ToString ptr g None b = Some (Inr (t, b')) \<and> same_pool b b'"
        using inner.IH [OF True] by blast
      note tq = conjunct1 [OF tree_at_page [OF g(1)]]
      obtain c1 where c1: "fetch_data c ?q = Inr (g, page_mem b0 g, c1)" "pinned_pool g c c1" "like b0 c1" by (rule like_fetch [OF less.prems tq])
      obtain t c2 where c2: "ToString ptr g None c1 = Some (Inr (t, c2))" "same_pool c1 c2" using g(2) [OF c1(3)] by blast
      let ?c3 = "unpin c2 ?q False"
      have c3: "same_pool c ?c3" by (rule like_unpin [OF less.prems tq c1(2) c2(2)])
      have m2: "page_mem c2 f = ?m" using like_same [OF c1(3) c2(2)] by (simp add: like_def)
      have "nat (GetSize ?m) - (i + 1) < nat (GetSize ?m) - i" using True by simp
      from less.hyps [OF this like_same [OF less.prems c3]] obtain ts c4 where
        "ToString ptr f (Some (i + 1)) ?c3 = Some (Inr (ts, c4))" "same_pool ?c3 c4" by blast
      then show ?thesis using True m c1(1) c2(1) m2 same_pool_trans [OF c3] by (simp add: ToString.simps [of ptr f "Some i"])
    qed (use m in \<open>auto simp: ToString.simps [of ptr f "Some i"] intro: same_pool_refl\<close>)
  qed
  obtain t b' where "ToString ptr f (Some 0) b = Some (Inr (t, b'))" "same_pool b b'" using loop [OF inner.prems, of 0] by blast
  then show ?case using inner.hyps(3) inner.prems by (simp add: ToString.simps [of ptr f None] like_def)
qed

text \<open>\<^verbatim>\<open>ToGraph\<close> gives back the pin its caller took.\<close>

lemma ToGraph_returns:
  assumes "tree_at b0 p f" "like b0 b" "pinned_pool f b c"
  shows "\<exists>t c'. ToGraph ptr f None c = Some (Inr (t, c')) \<and> same_pool b c'"
  using assms
proof (induction arbitrary: b c rule: tree_at.induct)
  case (leaf p f)
  have c: "page_mem c f = page_mem b0 f" "same_pool c c" using like_pinned [OF leaf.prems(1) leaf.hyps(1) leaf.prems(2)]
    by (auto simp: like_def intro: same_pool_refl)
  then show ?case using leaf.hyps like_unpin [OF leaf.prems(1) leaf.hyps(1) leaf.prems(2) c(2)] by (simp add: ToGraph.simps [of ptr f None])
next
  case (inner p f)
  let ?m = "page_mem b0 f"
  have loop: "\<exists>t d. ToGraph ptr f (Some i) c = Some (Inr (t, d)) \<and> same_pool c d" if "like b0 c" for i c
    using that
  proof (induction "nat (GetSize ?m) - i" arbitrary: i c rule: less_induct)
    case less
    have m: "page_mem c f = ?m" "bpm_ok c" using less.prems by (simp_all add: like_def)
    show ?case
    proof (cases "int i < GetSize ?m")
      case True
      obtain g where g: "tree_at b0 (InternalPage_ValueAt ?m i) g"
        "\<And>b c. like b0 b \<Longrightarrow> pinned_pool g b c \<Longrightarrow> \<exists>t c'. ToGraph ptr g None c = Some (Inr (t, c')) \<and> same_pool b c'"
        using inner.IH [OF True] by blast
      obtain c1 where c1: "fetch_data c (InternalPage_ValueAt ?m i) = Inr (g, page_mem b0 g, c1)" "pinned_pool g c c1"
        by (rule like_fetch [OF less.prems conjunct1 [OF tree_at_page [OF g(1)]]])
      obtain t c2 where c2: "ToGraph ptr g None c1 = Some (Inr (t, c2))" "same_pool c c2" using g(2) [OF less.prems c1(2)] by blast
      have l2: "like b0 c2" by (rule like_same [OF less.prems c2(2)])
      then have m2: "page_mem c2 f = ?m" "bpm_ok c2" by (simp_all add: like_def)
      have "\<exists>r c4. (if i > 0 then ro_bind (Some (fetch_data c2 (InternalPage_ValueAt (page_mem c2 f) (i - 1)))) (\<lambda>(s, sm, b3).
               Some (Inr (rank_same sm (page_mem b3 g), unpin b3 (TreePage_GetPageId sm) False)))
             else Some (Inr ([], c2))) = Some (Inr (r, c4)) \<and> same_pool c2 c4"
      proof (cases "i > 0")
        case True
        then have "int (i - 1) < GetSize ?m" using \<open>int i < GetSize ?m\<close> by simp
        then obtain h where h: "tree_at b0 (InternalPage_ValueAt ?m (i - 1)) h" using inner.IH by blast
        note th = tree_at_page [OF h]
        obtain c3 where c3: "fetch_data c2 (InternalPage_ValueAt ?m (i - 1)) = Inr (h, page_mem b0 h, c3)" "pinned_pool h c2 c3" "like b0 c3"
          by (rule like_fetch [OF l2 conjunct1 [OF th]])
        have "same_pool c3 c3" using c3(3) by (auto simp: like_def intro: same_pool_refl)
        from like_unpin [OF l2 conjunct1 [OF th] c3(2) this] show ?thesis using True c3(1) m2(1) th by simp
      qed (use m2 in \<open>auto intro: same_pool_refl\<close>)
      then obtain r c4 where c4: "(if i > 0 then ro_bind (Some (fetch_data c2 (InternalPage_ValueAt (page_mem c2 f) (i - 1)))) (\<lambda>(s, sm, b3).
               Some (Inr (rank_same sm (page_mem b3 g), unpin b3 (TreePage_GetPageId sm) False)))
             else Some (Inr ([], c2))) = Some (Inr (r, c4))" "same_pool c2 c4" by blast
      have c04: "same_pool c c4" by (rule same_pool_trans [OF c2(2) c4(2)])
      have "nat (GetSize ?m) - (i + 1) < nat (GetSize ?m) - i" using True by simp
      from less.hyps [OF this like_same [OF less.prems c04]] obtain ts c5 where
        "ToGraph ptr f (Some (i + 1)) c4 = Some (Inr (ts, c5))" "same_pool c4 c5" by blast
      then show ?thesis using True m c1(1) c2(1) c4(1) same_pool_trans [OF c04] by (subst ToGraph.simps) simp
    qed (use m in \<open>auto simp: ToGraph.simps [of ptr f "Some i"] intro: same_pool_refl\<close>)
  qed
  have c: "like b0 c" by (rule like_pinned [OF inner.prems(1) inner.hyps(1) inner.prems(2)])
  obtain t d where d: "ToGraph ptr f (Some 0) c = Some (Inr (t, d))" "same_pool c d" using loop [OF c, of 0] by blast
  have "page_mem d f = ?m" using like_same [OF c d(2)] by (simp add: like_def)
  then show ?case using inner.hyps(2,3) c d like_unpin [OF inner.prems(1) inner.hyps(1) inner.prems(2) d(2)]
    by (simp add: ToGraph.simps [of ptr f None] like_def)
qed

text \<open>
  Printing a tree gives back every pin: for a tree whose pages are in the pool, both printers return,
  whatever the addresses of the keys, and the frames, their pin counts and their pages are as before, so that
  \<^verbatim>\<open>Check\<close> answers as before.
\<close>

theorem printing_gives_back_pins:
  assumes "bpm_ok b" and "tree_at b p f"
  shows "\<exists>s b1 g b2. ToString ptr f None b = Some (Inr (s, b1)) \<and> BPlusTree_PrintTree ptr (t\<lparr>root_page_id := p\<rparr>) b = Some (Inr (g, b2)) \<and>
    pages b1 = pages b \<and> pages b2 = pages b \<and> page_table b1 = page_table b \<and> page_table b2 = page_table b \<and>
    BPlusTree_Check b1 = BPlusTree_Check b \<and> BPlusTree_Check b2 = BPlusTree_Check b"
proof -
  have l: "like b b" using assms(1) by (simp add: like_def)
  obtain s b1 where s: "ToString ptr f None b = Some (Inr (s, b1))" "same_pool b b1" using ToString_returns [OF assms(2) l] by blast
  obtain c where c: "fetch_data b p = Inr (f, page_mem b f, c)" "pinned_pool f b c"
    by (rule like_fetch [OF l conjunct1 [OF tree_at_page [OF assms(2)]]])
  obtain g b2 where g: "ToGraph ptr f None c = Some (Inr (g, b2))" "same_pool b b2" using ToGraph_returns [OF assms(2) l c(2)] by blast
  have "BPlusTree_PrintTree ptr (t\<lparr>root_page_id := p\<rparr>) b = Some (Inr (''digraph G {'' @ newline @ g @ ''}'' @ newline, b2))"
    using c(1) g(1) by (simp add: BPlusTree_PrintTree_def BPlusTree_IsEmpty_def)
  then show ?thesis using s g(2) by (auto simp: same_pool_def BPlusTree_Check_def CheckAllUnpinned_def)
qed

end
