(* ===== verification/RW_Latch.thy ===== *)
theory RW_Latch
  imports Minisql_Prelude
begin

text \<open>
  The reader-writer latch of src/MiniSQL/src/include/common/rwlatch.h, used by the pages of the buffer
  pool. Every operation runs under the latch's mutex up to a wait on a condition variable, so one step of
  the model is the code between two such points: from the call or from waking up, to the next wait or the
  return. A thread is idle, holds the latch, sleeps on one of the two condition variables, or has been
  woken (by a notification or spuriously) and will test its condition again.
\<close>

section \<open>State and operations\<close>

datatype thread = Idle | RSleep | RWoken | Reading | WSleep | WWoken | DrainSleep | DrainWoken | Writing

record latch =
  reader_count :: u32
  writer_entered :: bool
  threads :: "thread list"

definition MAX_READERS :: u32 where
  "MAX_READERS = - 1"

definition latch_new :: "nat \<Rightarrow> latch" where
  "latch_new n = \<lparr>reader_count = 0, writer_entered = False, threads = replicate n Idle\<rparr>"

definition set_thread :: "nat \<Rightarrow> thread \<Rightarrow> latch \<Rightarrow> latch" where
  "set_thread i t s = s\<lparr>threads := (threads s)[i := t]\<rparr>"

fun wake :: "thread \<Rightarrow> thread" where
  "wake RSleep = RWoken"
| "wake WSleep = WWoken"
| "wake DrainSleep = DrainWoken"
| "wake t = t"

definition on_reader :: "thread \<Rightarrow> bool" where
  "on_reader t \<longleftrightarrow> t \<in> {RSleep, WSleep}"

definition on_writer :: "thread \<Rightarrow> bool" where
  "on_writer t \<longleftrightarrow> t = DrainSleep"

definition notify_all_reader :: "latch \<Rightarrow> latch" where
  "notify_all_reader s = s\<lparr>threads := map (\<lambda>t. if on_reader t then wake t else t) (threads s)\<rparr>"

text \<open>\<^verbatim>\<open>notify_one\<close> on a condition variable wakes one of its sleepers, if there is one: thread \<open>j\<close>.\<close>

definition notify_one :: "(thread \<Rightarrow> bool) \<Rightarrow> nat \<Rightarrow> latch \<Rightarrow> latch" where
  "notify_one queue j s = (if j < length (threads s) \<and> queue (threads s ! j) then set_thread j (wake (threads s ! j)) s else s)"

text \<open>The second loop of \<^verbatim>\<open>WLock\<close>, entered after \<^verbatim>\<open>writer_entered_ = true\<close>.\<close>

definition WLock_drain :: "nat \<Rightarrow> latch \<Rightarrow> latch" where
  "WLock_drain i s = set_thread i (if reader_count s > 0 then DrainSleep else Writing) s"

definition WLock :: "nat \<Rightarrow> latch \<Rightarrow> latch" where
  "WLock i s = (if writer_entered s then set_thread i WSleep s
     else WLock_drain i (s\<lparr>writer_entered := True\<rparr>))"

definition WUnlock :: "nat \<Rightarrow> latch \<Rightarrow> latch" where
  "WUnlock i s = notify_all_reader (set_thread i Idle (s\<lparr>writer_entered := False\<rparr>))"

definition RLock :: "nat \<Rightarrow> latch \<Rightarrow> latch" where
  "RLock i s = (if writer_entered s \<or> reader_count s = MAX_READERS then set_thread i RSleep s
     else set_thread i Reading (s\<lparr>reader_count := reader_count s + 1\<rparr>))"

definition RUnlock :: "nat \<Rightarrow> nat \<Rightarrow> latch \<Rightarrow> latch res" where
  "RUnlock i j s =
     (let s1 = set_thread i Idle (s\<lparr>reader_count := reader_count s - 1\<rparr>) in
      res_bind (ASSERT (reader_count s1 \<noteq> MAX_READERS)) (\<lambda>_.
        Inr (if writer_entered s1 then (if reader_count s1 = 0 then notify_one on_writer j s1 else s1)
             else if reader_count s1 = MAX_READERS - 1 then notify_one on_reader j s1 else s1)))"

text \<open>
  The steps of a set of threads that release the latch only while they hold it. In a release, \<open>j\<close> is
  the sleeper that is notified: on either variable, one that sleeps there whenever one does.
\<close>

definition pick :: "(thread \<Rightarrow> bool) \<Rightarrow> latch \<Rightarrow> nat \<Rightarrow> bool" where
  "pick queue s j \<longleftrightarrow> (\<exists>t \<in> set (threads s). queue t) \<longrightarrow> j < length (threads s) \<and> queue (threads s ! j)"

inductive latch_step :: "latch \<Rightarrow> latch \<Rightarrow> bool" where
  rlock: "i < length (threads s) \<Longrightarrow> threads s ! i \<in> {Idle, RWoken} \<Longrightarrow> latch_step s (RLock i s)"
| wlock: "i < length (threads s) \<Longrightarrow> threads s ! i \<in> {Idle, WWoken} \<Longrightarrow> latch_step s (WLock i s)"
| drain: "i < length (threads s) \<Longrightarrow> threads s ! i = DrainWoken \<Longrightarrow> latch_step s (WLock_drain i s)"
| runlock: "i < length (threads s) \<Longrightarrow> threads s ! i = Reading \<Longrightarrow>
    pick (if writer_entered s then on_writer else on_reader) s j \<Longrightarrow> RUnlock i j s = Inr s' \<Longrightarrow> latch_step s s'"
| wunlock: "i < length (threads s) \<Longrightarrow> threads s ! i = Writing \<Longrightarrow> latch_step s (WUnlock i s)"
| spurious: "i < length (threads s) \<Longrightarrow> latch_step s (set_thread i (wake (threads s ! i)) s)"

inductive latch_reachable :: "nat \<Rightarrow> latch \<Rightarrow> bool" for n where
  lr_new: "latch_reachable n (latch_new n)"
| lr_step: "latch_reachable n s \<Longrightarrow> latch_step s s' \<Longrightarrow> latch_reachable n s'"

section \<open>Invariant\<close>

definition cnt :: "(thread \<Rightarrow> bool) \<Rightarrow> thread list \<Rightarrow> nat" where
  "cnt P ts = length (filter P ts)"

text \<open>
  The reader count is the number of readers, a writer has entered exactly when one thread drains or
  writes, a writing thread excludes readers, and nobody sleeps whose condition no release will signal.
\<close>

definition latch_inv :: "latch \<Rightarrow> bool" where
  "latch_inv s \<longleftrightarrow> (let n = (\<lambda>P. cnt P (threads s)) in
     unat (reader_count s) = n ((=) Reading) \<and>
     n ((=) Writing) + n ((=) DrainSleep) + n ((=) DrainWoken) = (if writer_entered s then 1 else 0) \<and>
     (0 < n ((=) Writing) \<longrightarrow> n ((=) Reading) = 0) \<and>
     (0 < n on_reader \<longrightarrow> writer_entered s) \<and>
     (0 < n ((=) DrainSleep) \<longrightarrow> 0 < n ((=) Reading)) \<and>
     length (threads s) < 2 ^ 32 - 1)"

lemma cnt_update:
  "i < length ts \<Longrightarrow> cnt P (ts[i := t]) + (if P (ts ! i) then 1 else 0) = cnt P ts + (if P t then 1 else 0)"
proof (induction ts arbitrary: i)
  case (Cons a ts)
  then show ?case by (cases i) (auto simp: cnt_def)
qed simp

lemma cnt_pos: "0 < cnt P ts \<longleftrightarrow> (\<exists>t \<in> set ts. P t)"
  by (auto simp: cnt_def filter_empty_conv)

lemma cnt_le: "cnt P ts \<le> length ts"
  by (simp add: cnt_def)

lemma cnt_map: "(\<And>t. P (f t) = P t) \<Longrightarrow> cnt P (map f ts) = cnt P ts"
  by (simp add: cnt_def filter_map comp_def)

text \<open>How the five counts change when one thread changes.\<close>

lemma counts_update:
  assumes "i < length (threads s)" "t = threads s ! i"
  shows "cnt ((=) Reading) ((threads s)[i := u]) + (if t = Reading then 1 else 0) = cnt ((=) Reading) (threads s) + (if u = Reading then 1 else 0)"
    "cnt ((=) Writing) ((threads s)[i := u]) + (if t = Writing then 1 else 0) = cnt ((=) Writing) (threads s) + (if u = Writing then 1 else 0)"
    "cnt ((=) DrainSleep) ((threads s)[i := u]) + (if t = DrainSleep then 1 else 0) = cnt ((=) DrainSleep) (threads s) + (if u = DrainSleep then 1 else 0)"
    "cnt ((=) DrainWoken) ((threads s)[i := u]) + (if t = DrainWoken then 1 else 0) = cnt ((=) DrainWoken) (threads s) + (if u = DrainWoken then 1 else 0)"
    "cnt on_reader ((threads s)[i := u]) + (if on_reader t then 1 else 0) = cnt on_reader (threads s) + (if on_reader u then 1 else 0)"
  using cnt_update [OF assms(1), of "(=) Reading" u] cnt_update [OF assms(1), of "(=) Writing" u]
    cnt_update [OF assms(1), of "(=) DrainSleep" u] cnt_update [OF assms(1), of "(=) DrainWoken" u]
    cnt_update [OF assms(1), of on_reader u] assms(2) by (simp_all add: eq_commute)

lemma not_MAX:
  assumes "latch_inv s"
  shows "unat (reader_count s) < 2 ^ 32 - 1" "reader_count s \<noteq> MAX_READERS"
proof -
  show 1: "unat (reader_count s) < 2 ^ 32 - 1"
    using assms cnt_le [of "(=) Reading" "threads s"] by (auto simp: latch_inv_def Let_def)
  show "reader_count s \<noteq> MAX_READERS"
    using 1 by (auto simp: MAX_READERS_def unsigned_minus_1_eq_mask mask_eq_exp_minus_1)
qed

lemma unat_inc: "unat (x :: u32) < 2 ^ 32 - 1 \<Longrightarrow> unat (x + 1) = unat x + 1"
  by (subst unat_u32_plus) auto

lemma RLock_inv: "latch_inv s \<Longrightarrow> i < length (threads s) \<Longrightarrow> threads s ! i \<in> {Idle, RWoken} \<Longrightarrow> latch_inv (RLock i s)"
  using counts_update [of i s "threads s ! i" RSleep] counts_update [of i s "threads s ! i" Reading]
    not_MAX [of s] unat_inc [of "reader_count s"]
  by (auto simp: latch_inv_def Let_def RLock_def set_thread_def on_reader_def split: if_splits)

lemma WLock_drain_inv:
  assumes "latch_inv s" "i < length (threads s)" "threads s ! i = DrainWoken"
  shows "latch_inv (WLock_drain i s)"
proof -
  have "reader_count s > 0 \<longleftrightarrow> 0 < cnt ((=) Reading) (threads s)"
    using assms(1) by (simp add: latch_inv_def Let_def word_less_nat_alt)
  then show ?thesis
    using assms counts_update [of i s DrainWoken DrainSleep] counts_update [of i s DrainWoken Writing]
    by (auto simp: latch_inv_def Let_def WLock_drain_def set_thread_def on_reader_def split: if_splits)
qed

lemma WLock_inv:
  assumes "latch_inv s" "i < length (threads s)" "threads s ! i \<in> {Idle, WWoken}"
  shows "latch_inv (WLock i s)"
proof -
  have "reader_count s > 0 \<longleftrightarrow> 0 < cnt ((=) Reading) (threads s)"
    using assms(1) by (simp add: latch_inv_def Let_def word_less_nat_alt)
  then show ?thesis
    using assms counts_update [of i s "threads s ! i" WSleep] counts_update [of i s "threads s ! i" DrainSleep]
      counts_update [of i s "threads s ! i" Writing]
    by (auto simp: latch_inv_def Let_def WLock_def WLock_drain_def set_thread_def on_reader_def split: if_splits)
qed

lemma spurious_inv:
  assumes "latch_inv s" "i < length (threads s)"
  shows "latch_inv (set_thread i (wake (threads s ! i)) s)"
  using assms counts_update [of i s "threads s ! i" "wake (threads s ! i)"]
  by (cases "threads s ! i") (auto simp: latch_inv_def Let_def set_thread_def on_reader_def split: if_splits)

lemma WUnlock_inv:
  assumes "latch_inv s" "i < length (threads s)" "threads s ! i = Writing"
  shows "latch_inv (WUnlock i s)"
proof -
  let ?f = "\<lambda>t. if on_reader t then wake t else t"
  have m: "?f t = x \<longleftrightarrow> t = x" if "x \<in> {Reading, Writing, DrainSleep, DrainWoken}" for t x
    using that by (cases t) (auto simp: on_reader_def)
  have c: "cnt ((=) x) (map ?f ts) = cnt ((=) x) ts" if "x \<in> {Reading, Writing, DrainSleep, DrainWoken}" for x ts
    by (rule cnt_map) (use m [OF that] in \<open>auto simp: eq_commute\<close>)
  have "\<not> on_reader (?f t)" for t by (cases t) (auto simp: on_reader_def)
  then have "cnt on_reader (map ?f ts) = 0" for ts by (simp add: cnt_def)
  then show ?thesis
    using assms counts_update [of i s Writing Idle] c
    by (auto simp: latch_inv_def Let_def WUnlock_def notify_all_reader_def set_thread_def split: if_splits)
qed

lemma notify_drain_inv:
  assumes "unat (reader_count s) = cnt ((=) Reading) (threads s)" "cnt ((=) Reading) (threads s) = 0"
    "cnt ((=) Writing) (threads s) + cnt ((=) DrainSleep) (threads s) + cnt ((=) DrainWoken) (threads s) = 1"
    "writer_entered s" "length (threads s) < 2 ^ 32 - 1" "pick on_writer s j"
  shows "latch_inv (notify_one on_writer j s)"
proof (cases "\<exists>t \<in> set (threads s). on_writer t")
  case True
  then have j: "j < length (threads s)" "threads s ! j = DrainSleep" using assms(6) by (auto simp: pick_def on_writer_def)
  then have "0 < cnt ((=) DrainSleep) (threads s)" by (auto simp: cnt_pos in_set_conv_nth)
  then show ?thesis using j assms(1-5) counts_update [of j s DrainSleep DrainWoken]
    by (auto simp: notify_one_def on_writer_def set_thread_def latch_inv_def Let_def split: if_splits)
next
  case False
  then have "cnt ((=) DrainSleep) (threads s) = 0" using cnt_pos [of "(=) DrainSleep" "threads s"] by (auto simp: on_writer_def)
  moreover have "notify_one on_writer j s = s" using False by (auto simp: notify_one_def)
  ultimately show ?thesis using assms(1-5) by (auto simp: latch_inv_def Let_def)
qed

lemma RUnlock_inv:
  assumes "latch_inv s" "i < length (threads s)" "threads s ! i = Reading"
    "pick (if writer_entered s then on_writer else on_reader) s j"
  shows "\<exists>s'. RUnlock i j s = Inr s' \<and> latch_inv s'"
proof -
  let ?s = "set_thread i Idle (s\<lparr>reader_count := reader_count s - 1\<rparr>)"
  have "0 < cnt ((=) Reading) (threads s)" using assms(2,3) by (auto simp: cnt_pos in_set_conv_nth)
  then have u: "unat (reader_count s - 1) = unat (reader_count s) - 1" "0 < unat (reader_count s)"
    using assms(1) unat_u32_minus [of 1 "reader_count s"] by (simp_all add: latch_inv_def Let_def)
  have lt: "unat (reader_count s) < 2 ^ 32 - 1" by (rule not_MAX(1) [OF assms(1)])
  have max: "unat (MAX_READERS - 1) = 2 ^ 32 - 2" "unat MAX_READERS = 2 ^ 32 - 1"
    by (simp_all add: MAX_READERS_def unsigned_minus_1_eq_mask mask_eq_exp_minus_1)
  have ne: "reader_count ?s \<noteq> MAX_READERS" "reader_count ?s \<noteq> MAX_READERS - 1"
    using u lt max by (auto simp: set_thread_def)
  have p: "pick on_writer ?s j" if "writer_entered s"
    using assms(2,3,4) that
    by (auto simp: pick_def set_thread_def on_writer_def nth_list_update in_set_conv_nth split: if_splits)
  have z: "reader_count ?s = 0 \<longleftrightarrow> unat (reader_count s) = 1"
    using u by (auto simp add: set_thread_def unat_eq_zero [symmetric] simp del: unat_eq_zero)
  show ?thesis
  proof (cases "writer_entered s \<and> reader_count ?s = 0")
    case True
    have "latch_inv (notify_one on_writer j ?s)"
      using assms(1,2,3) u z True counts_update [of i s Reading Idle] p
      by (intro notify_drain_inv) (auto simp: latch_inv_def Let_def set_thread_def split: if_splits)
    then show ?thesis using True ne by (auto simp: RUnlock_def Let_def set_thread_def)
  next
    case False
    then have "latch_inv ?s"
      using assms(1,2,3) u z counts_update [of i s Reading Idle]
      by (auto simp: latch_inv_def Let_def set_thread_def on_reader_def split: if_splits)
    then show ?thesis using False ne by (auto simp: RUnlock_def Let_def set_thread_def)
  qed
qed

lemma latch_new_inv: "n < 2 ^ 32 - 1 \<Longrightarrow> latch_inv (latch_new n)"
  by (auto simp: latch_inv_def Let_def latch_new_def cnt_def on_reader_def)

lemma latch_reachable_inv: "latch_reachable n s \<Longrightarrow> n < 2 ^ 32 - 1 \<Longrightarrow> latch_inv s"
proof (induction rule: latch_reachable.induct)
  case lr_new
  then show ?case by (rule latch_new_inv)
next
  case (lr_step s s')
  then have "latch_inv s" by simp
  from lr_step.hyps(2) this show ?case
    by cases (auto intro: RLock_inv WLock_inv WLock_drain_inv WUnlock_inv spurious_inv dest: RUnlock_inv)
qed

section \<open>Properties\<close>

lemma cnt_ge_2:
  assumes "i < length ts" "j < length ts" "i \<noteq> j" "P (ts ! i)" "P (ts ! j)"
  shows "2 \<le> cnt P ts"
proof -
  have "card {i, j} \<le> card {k. k < length ts \<and> P (ts ! k)}" using assms by (intro card_mono) auto
  then show ?thesis using assms(3) by (simp add: cnt_def length_filter_conv_card)
qed

text \<open>
  C17 (invariant). With fewer threads than \<^verbatim>\<open>MAX_READERS\<close>, in every interleaving (spurious wake-ups
  included): while a thread holds the latch for writing no other thread holds it, the reader count is
  exactly the number of threads that hold it for reading, and \<^verbatim>\<open>RUnlock\<close> by a reader never fails its
  assertion, whichever sleeper is notified.
\<close>

theorem latch_mutual_exclusion:
  assumes "latch_reachable n s" and "n < 2 ^ 32 - 1" and "i < length (threads s)"
  shows "(threads s ! i = Writing \<longrightarrow> (\<forall>j < length (threads s). j \<noteq> i \<longrightarrow> threads s ! j \<notin> {Reading, Writing})) \<and>
    unat (reader_count s) = card {j. j < length (threads s) \<and> threads s ! j = Reading} \<and>
    (threads s ! i = Reading \<and> pick (if writer_entered s then on_writer else on_reader) s k \<longrightarrow> (\<exists>s'. RUnlock i k s = Inr s'))"
proof (intro conjI allI impI)
  have inv: "latch_inv s" by (rule latch_reachable_inv [OF assms(1,2)])
  show "unat (reader_count s) = card {j. j < length (threads s) \<and> threads s ! j = Reading}"
  proof -
    have "{j. j < length (threads s) \<and> Reading = threads s ! j} = {j. j < length (threads s) \<and> threads s ! j = Reading}" by auto
    then show ?thesis using inv by (simp add: latch_inv_def Let_def cnt_def length_filter_conv_card)
  qed
  show "threads s ! j \<notin> {Reading, Writing}" if "threads s ! i = Writing" "j < length (threads s)" "j \<noteq> i" for j
  proof -
    have "0 < cnt ((=) Writing) (threads s)" using that(1) assms(3) by (auto simp: cnt_pos in_set_conv_nth)
    then have "cnt ((=) Reading) (threads s) = 0" "cnt ((=) Writing) (threads s) \<le> 1"
      using inv by (auto simp: latch_inv_def Let_def split: if_splits)
    then show ?thesis using that cnt_ge_2 [OF assms(3) that(2), of "(=) Writing"] cnt_pos [of "(=) Reading" "threads s"]
      by (auto simp: in_set_conv_nth)
  qed
  show "\<exists>s'. RUnlock i k s = Inr s'" if "threads s ! i = Reading \<and> pick (if writer_entered s then on_writer else on_reader) s k"
    using RUnlock_inv [OF inv assms(3)] that by blast
qed

text \<open>A reader, then a writer that has to wait for it, then a second reader that has to wait for the writer.\<close>

definition example_latch :: latch where
  "example_latch = \<lparr>reader_count = 1, writer_entered = True, threads = [Reading, DrainSleep, RSleep]\<rparr>"

lemma example_latch_reachable: "latch_reachable 3 example_latch"
proof -
  let ?a = "latch_new 3" let ?b = "RLock 0 ?a" let ?c = "WLock 1 ?b" let ?d = "RLock 2 ?c"
  have "latch_step ?a ?b" by (rule rlock) (simp_all add: latch_new_def)
  moreover have b: "?b = \<lparr>reader_count = 1, writer_entered = False, threads = [Reading, Idle, Idle]\<rparr>"
    by (simp add: RLock_def latch_new_def set_thread_def MAX_READERS_def numeral_3_eq_3)
  have "latch_step ?b ?c" unfolding b by (rule wlock) simp_all
  moreover have c: "?c = \<lparr>reader_count = 1, writer_entered = True, threads = [Reading, DrainSleep, Idle]\<rparr>"
    unfolding b by (simp add: WLock_def WLock_drain_def set_thread_def)
  have "latch_step ?c ?d" unfolding c by (rule rlock) simp_all
  moreover have "?d = example_latch"
    unfolding c by (simp add: RLock_def set_thread_def example_latch_def numeral_2_eq_2)
  ultimately show ?thesis by (metis lr_new lr_step)
qed

theorem latch_mutual_exclusion_witness:
  "latch_reachable 3 example_latch \<and> (\<exists>s'. RUnlock 0 1 example_latch = Inr s') \<and>
   unat (reader_count example_latch) = card {j. j < 3 \<and> threads example_latch ! j = Reading}"
proof -
  have p: "pick on_writer example_latch 1" by (simp add: pick_def on_writer_def example_latch_def)
  have l: "0 < length (threads example_latch)" "length (threads example_latch) = 3" "threads example_latch ! 0 = Reading"
    "writer_entered example_latch" by (simp_all add: example_latch_def)
  show ?thesis using latch_mutual_exclusion [OF example_latch_reachable _ l(1), of 1] example_latch_reachable p l(2-4) by simp
qed

text \<open>
  C32 (liveness). No wake-up is lost: with fewer threads than \<^verbatim>\<open>MAX_READERS\<close>, a thread that sleeps in
  \<^verbatim>\<open>RLock\<close> or before entering in \<^verbatim>\<open>WLock\<close> does so only while another thread holds the latch for writing
  or is about to, and one that sleeps until the readers have left only while a reader holds it. So
  whenever a thread sleeps, some other thread holds the latch or is awake in the middle of acquiring it and
  can take a step: the threads never all sleep.
\<close>

theorem latch_never_deadlocks:
  assumes "latch_reachable n s" and "n < 2 ^ 32 - 1" and "i < length (threads s)"
  shows "(threads s ! i \<in> {RSleep, WSleep} \<longrightarrow> (\<exists>j < length (threads s). j \<noteq> i \<and> threads s ! j \<in> {Writing, DrainWoken, DrainSleep})) \<and>
    (threads s ! i = DrainSleep \<longrightarrow> (\<exists>j < length (threads s). j \<noteq> i \<and> threads s ! j = Reading)) \<and>
    (threads s ! i \<in> {RSleep, WSleep, DrainSleep} \<longrightarrow>
      (\<exists>j < length (threads s). threads s ! j \<in> {Reading, Writing, DrainWoken}))"
proof -
  have inv: "latch_inv s" by (rule latch_reachable_inv [OF assms(1,2)])
  have d: "\<exists>j < length (threads s). threads s ! j = Reading" if "DrainSleep \<in> set (threads s)"
  proof -
    have "0 < cnt ((=) DrainSleep) (threads s)" using that cnt_pos by blast
    then have "0 < cnt ((=) Reading) (threads s)" using inv by (auto simp: latch_inv_def Let_def)
    then show ?thesis by (auto simp: cnt_pos in_set_conv_nth)
  qed
  have r: "\<exists>j < length (threads s). threads s ! j \<in> {Writing, DrainWoken, DrainSleep}" if "threads s ! i \<in> {RSleep, WSleep}"
  proof -
    have "0 < cnt on_reader (threads s)" using that assms(3) nth_mem [OF assms(3)] unfolding cnt_pos on_reader_def by blast
    then have "0 < cnt ((=) Writing) (threads s) \<or> 0 < cnt ((=) DrainSleep) (threads s) \<or> 0 < cnt ((=) DrainWoken) (threads s)"
      using inv by (auto simp: latch_inv_def Let_def)
    then have "\<exists>t \<in> set (threads s). t \<in> {Writing, DrainWoken, DrainSleep}" by (auto simp: cnt_pos)
    then show ?thesis by (metis in_set_conv_nth)
  qed
  have "DrainSleep \<in> set (threads s)" if "j < length (threads s)" "threads s ! j = DrainSleep" for j
    using that by (auto simp: in_set_conv_nth)
  then have d': "\<exists>k < length (threads s). threads s ! k = Reading" if "j < length (threads s)" "threads s ! j = DrainSleep" for j
    using d that by blast
  show ?thesis
  proof (intro conjI impI)
    assume s: "threads s ! i \<in> {RSleep, WSleep}"
    then show "\<exists>j < length (threads s). j \<noteq> i \<and> threads s ! j \<in> {Writing, DrainWoken, DrainSleep}"
      using r [OF s] by auto
  next
    assume s: "threads s ! i = DrainSleep"
    from d' [OF assms(3) s] obtain j where "j < length (threads s)" "threads s ! j = Reading" by blast
    then show "\<exists>j < length (threads s). j \<noteq> i \<and> threads s ! j = Reading" using s by auto
  next
    assume "threads s ! i \<in> {RSleep, WSleep, DrainSleep}"
    then show "\<exists>j < length (threads s). threads s ! j \<in> {Reading, Writing, DrainWoken}"
      using r d' [OF assms(3)] d' by blast
  qed
qed

theorem latch_never_deadlocks_witness:
  "latch_reachable 3 example_latch \<and> threads example_latch ! 2 = RSleep \<and>
   (\<exists>j < 3. j \<noteq> 2 \<and> threads example_latch ! j \<in> {Writing, DrainWoken, DrainSleep}) \<and>
   (\<exists>j < 3. threads example_latch ! j \<in> {Reading, Writing, DrainWoken})"
proof -
  have l: "2 < length (threads example_latch)" "length (threads example_latch) = 3" "threads example_latch ! 2 = RSleep"
    by (simp_all add: example_latch_def)
  show ?thesis using latch_never_deadlocks [OF example_latch_reachable _ l(1)] example_latch_reachable l(2,3) by simp
qed

end
