(* ===== verification/Spec2Isabelle.thy ===== *)
theory Spec2Isabelle
  imports Index_Roots_Page Header_Page Command_Loop Database Tree_Debug RW_Latch
begin

text \<open>
  \<^bold>\<open>A verification development for MiniSQL\<close> (src/MiniSQL/src), a teaching database in C++ with a parser in C.

  \<^bold>\<open>The program.\<close> A command is read by \<^verbatim>\<open>main\<close>, scanned and parsed into a tree of heap nodes, and given to
  the execution engine. Queries are bound against the catalog and turned into plans with typed
  expressions, which executors run. Tables are heaps of slotted pages holding serialised rows; the catalog,
  index roots and table heaps live in pages that the buffer pool brings in from the disk manager, which
  keeps a bitmap page per extent of the database file. Indexes are B+ trees over serialised keys. Several
  parts of the repository are placeholders (tree operations, most executors, all engine commands); they
  are modelled as what they are.

  \<^bold>\<open>Theories\<close>, in the order of their dependencies, with the files they model:

  \<^item> \<open>Minisql_Prelude\<close>: 32-bit words, byte memory and the little-endian accesses of common/macros.h, failures
    (\<open>err\<close>, result monad), status codes, constants of common/config.h; the collections \<open>mem_simps\<close> and \<open>res_simps\<close>.
  \<^item> \<open>Page_Allocator\<close>: the interface of an allocator of page numbers, as a locale over a set of used numbers;
    provided by \<open>Bitmap_Page\<close> (page/bitmap_page.cpp, for every page size) and by \<open>Disk_Manager\<close>
    (storage/disk_manager.cpp over the bytes of the file). Allocation returns unused pages and marks exactly
    them; writes are read back; the meta page is never written, so a reopened file hands out page 0 again.
  \<^item> \<open>Lru_Replacer\<close>: buffer/lru_replacer.cpp; every sequence of calls is answered as by a queue of frames
    (the locale of \<^verbatim>\<open>Replacer\<close>).
  \<^item> \<open>Buffer_Pool\<close>: buffer/buffer_pool_manager.cpp; the state invariant, for any client and the stronger one
    for clients that keep the rules of the pool, what \<^verbatim>\<open>FetchPage\<close>, \<^verbatim>\<open>NewPage\<close>,
    \<^verbatim>\<open>UnpinPage\<close>, \<^verbatim>\<open>FlushPage\<close> and \<^verbatim>\<open>DeletePage\<close> do to the content of every page, and the two defects of
    eviction (a dirty victim of \<^verbatim>\<open>NewPage\<close> is lost, a deleted page's frame stays evictable).
  \<^item> \<open>RW_Latch\<close>: include/common/rwlatch.h as a step relation of threads; mutual exclusion, and that no wake-up
    is lost.
  \<^item> \<open>Field_Types\<close>, \<open>Schema_Codec\<close>, \<open>Row_Codec\<close>: record/*.cpp and headers; comparisons form an order, byte
    formats have the announced size and are read back.
  \<^item> \<open>Table_Page\<close>, \<open>Table_Heap\<close>: page/table_page.cpp, storage/table_heap.cpp, storage/table_iterator.cpp over
    page bytes and the buffer pool; insertion, lookup, deletion marks and scans, and where they go wrong.
  \<^item> \<open>Root_Directory\<close>: a directory of named root pages as a locale over finite maps; \<open>Index_Roots_Page\<close> and
    \<open>Header_Page\<close> (page/index_roots_page.cpp, page/header_page.cpp) are proved to refine it on page bytes.
  \<^item> \<open>Catalog_Codec\<close>, \<open>Catalog\<close>: catalog/table.cpp, catalog/indexes.cpp, catalog/catalog.cpp; metadata round
    trips, creation and lookup of tables, flushing and reloading, and the shared table id, because of which
    a reopened database has lost all tables but the last one.
  \<^item> \<open>Tree_Page\<close>, \<open>Index_Layer\<close>: the B+ tree pages, keys, the tree and its index; key comparison is
    lexicographic, which keys fit. \<open>Tree_Debug\<close>: the helpers of index/b_plus_tree.cpp that are placeholders, and its
    debug output, which walks over the pages and gives every pin back.
  \<^item> \<open>Numerals\<close>: the text of integers and 32-bit floats as the standard library reads and prints it; reading
    what was printed gives the number back.
  \<^item> \<open>Syntax_Tree\<close>, \<open>Parser_Actions\<close>: parser/syntax_tree.c, parser/parser.c and the semantic actions of the scanner
    and the grammar (parser/minisql_lex.c, parser/minisql_yacc.c) over an explicit node store. A node value is copied into a block
    one byte too short: the sizes of the blocks that \<^verbatim>\<open>malloc\<close> returns are the parameter \<^const>\<open>block_size\<close> of the
    model, a copy that leaves its block is undefined behaviour, and the theorems assume it away for the texts at
    hand (\<^const>\<open>values_fit\<close>). The pointer operations refine operations on trees: \<^const>\<open>forest\<close> says which trees a pointer stands for.
    \<open>Tree_Drawing\<close>: parser/syntax_tree_printer.cpp and include/utils/tree_file_mgr.h; a drawing shows each node and
    edge once.
  \<^item> \<open>Lex_Rules\<close>: the rules of include/parser/minisql.l as regular expressions, and the longest match by
    derivatives. \<open>Flex_Tables\<close>: the compressed tables of the generated automaton, each state annotated with the
    rules that remain; the annotation is checked by evaluation to be a bisimulation. \<open>Flex_Buffers\<close>: the
    buffers of parser/minisql_lex.c and their stack; a buffer of a file is refilled with what follows, and pushing,
    giving back and reading characters are undone by their counterparts. \<open>Flex_Scanner\<close>: \<^verbatim>\<open>yylex\<close>, which performs
    exactly the actions of the longest matches, on a text in memory and on one read from a file.
  \<^item> \<open>Table_Lookup\<close>, \<open>Lalr_Tables\<close>: the tables of parser/minisql_yacc.c, the grammar and its parse trees.
    \<open>Lalr_Annotations\<close>: items, lookaheads and predecessors of every state, checked by evaluation. \<open>Lalr_Parser\<close>:
    the automaton builds exactly the parse trees of the grammar. \<open>Yyparse\<close>: the parser itself, with its
    growing stacks, lookahead, actions and error recovery. \<open>Yyparse_Correct\<close>: it simulates the automaton on the
    tokens of the text, so it returns on every text and leaves the tree of a sentence at the root, unless the stack is exhausted.
  \<^item> \<open>Expressions\<close>, \<open>Planner\<close>: include/planner/ and planner/planner.cpp; evaluation agrees with Kleene's three-valued
    logic of SQL, and plans are well typed. Facts about planning are proved with the rules for \<^const>\<open>yields\<close>,
    which says what a computation over the catalog returns.
  \<^item> \<open>Result_Output\<close>: include/common/result_writer.h, the text of fields and the table the engine prints; it is an
    aligned grid. \<open>Engine\<close>: executor/*.cpp, common/instance.cpp. Executors implement the interface
    \<^const>\<open>row_source\<close>, whose law makes the execution loop end. \<open>Database\<close>: closing a database and opening its
    file again, over the interface \<^const>\<open>page_source\<close> of a pool that can load a catalog.
  \<^item> \<open>Statement_Shapes\<close>: the contract between parser and engine: every tree the grammar builds is a command of
    the engine or has the shape the planner relies on. \<open>Command_Loop\<close>: main.cpp, with scanner, parser and
    engine put together; what one command does, and how the program ends.

  \<^bold>\<open>Correspondence.\<close> A class is a record with its fields, an enum a datatype, a method a function that takes
  and returns the record; C++ references and out-parameters are results. \<^verbatim>\<open>uint32_t\<close> is a 32-bit word, page ids
  are integers in the range of \<^verbatim>\<open>int32_t\<close>. A failed \<^verbatim>\<open>ASSERT\<close>, a null dereference, a thrown exception and
  undefined behaviour are values of \<^typ>\<open>err\<close>. Page buffers are functions from offsets to bytes. Names are
  those of the source, with the class as prefix where two classes share a name.

  \<^bold>\<open>Loops and bounds.\<close> Loops over containers are structural recursion. Loops that need not end (walks along
  sibling lists, next-page chains, draining an executor, the scanner and the parser) are partial functions into \<^typ>\<open>'a option\<close>, where \<open>None\<close>
  is not returning, and the theorems show that they return. No fuel is used. Results about whole pages
  assume sizes the formats themselves bound (4096-byte pages, strings below 2048 bytes, fewer than
  \<open>2 ^ 32 - 1\<close> threads on a latch, texts the scanner reads shorter than \<open>2 ^ 31\<close>); each bound is a
  hypothesis of its theorem. The parser's stack of 10000 entries can be exhausted by texts of 9999 characters and
  more only; the command loop reads at most 1023.

  \<^bold>\<open>Not modelled.\<close> The debugging code of the generated parser, which is compiled out, and the macros of the generated
  scanner that no rule uses. Failures of allocation and of reading a file in the scanner. The text of error messages on the
  terminal, and the clock. Memory reclamation, except where freeing twice or using freed nodes is
  observable. The mutex of the buffer pool (its operations are atomic). Transactions, locks and logs, which
  the code never uses. CLOCK replacement, which is declared only. Vendored libraries and build output.
\<close>

end
